(* ===== verification/Py_Prelude.thy ===== *)
theory Py_Prelude
  imports Complex_Main "HOL-Library.AList" "HOL-Library.Multiset" "HOL-Library.Char_ord"
    "HOL-Library.List_Lexorder" "HOL-Library.Product_Lexorder"
begin

text \<open>
  What the components share: the Python values the modelled code uses and the generic lemmas
  about them.
  \<^item> A \<open>dict\<close> is an association list in insertion order: assignment is \<open>AList.update\<close> (an
    existing key keeps its place, a new one goes to the end), \<open>pop\<close> and \<open>del\<close> are
    \<open>AList.delete\<close>, a lookup is \<open>map_of\<close>.
  \<^item> A \<open>str\<close> is a list of characters, read as the code points below 256.
  \<^item> A \<open>float\<close> is a rational number: only finite values occur, and comparisons, sums and
    floor divisions are taken exactly (no rounding). The scores are integers below
    \<open>2 ^ 53\<close>, where binary64 is exact as well.
  \<^item> A raised exception is \<open>Inl\<close> of a \<open>py_error\<close>.
  \<^item> \<open>heapq\<close> is observed only through its least element, so a heap is its sorted list.
\<close>

section \<open>Errors and dictionaries\<close>

datatype py_error = ValueError | TypeError | KeyError | OSError | RuntimeError | TimeoutError
  | ContractMismatchError | AttributeError | IndexError | OverflowError | FindStatsDiscoveryError

type_synonym ('k, 'v) dict = "('k \<times> 'v) list"

named_theorems dict_simps \<open>lookups and key sets of updated dictionaries\<close>

abbreviation dict_keys :: "('k, 'v) dict \<Rightarrow> 'k set" where
  "dict_keys d \<equiv> fst ` set d"

abbreviation dict_wf :: "('k, 'v) dict \<Rightarrow> bool" where
  "dict_wf d \<equiv> distinct (map fst d)"

section \<open>Strings\<close>

definition py_isspace :: "char \<Rightarrow> bool" where
  "py_isspace c \<longleftrightarrow> (let n = of_char c :: nat in
     (9 \<le> n \<and> n \<le> 13) \<or> (28 \<le> n \<and> n \<le> 32) \<or> n = 133 \<or> n = 160)"

definition py_strip :: "string \<Rightarrow> string" where
  "py_strip s = rev (dropWhile py_isspace (rev (dropWhile py_isspace s)))"

definition py_lower_char :: "char \<Rightarrow> char" where
  "py_lower_char c = (let n = of_char c :: nat in
     if 65 \<le> n \<and> n \<le> 90 then char_of (n + 32) else c)"

definition py_lower :: "string \<Rightarrow> string" where
  "py_lower = map py_lower_char"

text \<open>\<open>s.replace(a, b)\<close> for single characters, \<open>s.split(c)\<close>, and \<open>s.split(c, 1)\<close>.\<close>

definition py_replace :: "char \<Rightarrow> char \<Rightarrow> string \<Rightarrow> string" where
  "py_replace a b s = map (\<lambda>c. if c = a then b else c) s"

fun py_split :: "char \<Rightarrow> string \<Rightarrow> string list" where
  "py_split c [] = [[]]"
| "py_split c (x # xs) =
     (if x = c then [] # py_split c xs
      else (case py_split c xs of [] \<Rightarrow> [[x]] | p # ps \<Rightarrow> (x # p) # ps))"

definition py_split1 :: "char \<Rightarrow> string \<Rightarrow> string \<times> string" where
  "py_split1 c s = (takeWhile (\<lambda>x. x \<noteq> c) s, tl (dropWhile (\<lambda>x. x \<noteq> c) s))"

text \<open>\<open>str(n)\<close> of an integer and \<open>int(s)\<close> of a string: surrounding white space, a sign,
  digits, single underscores between digits.\<close>

definition digit_char :: "nat \<Rightarrow> char" where
  "digit_char d = char_of (48 + d)"

fun show_nat :: "nat \<Rightarrow> string" where
  "show_nat n = (if n < 10 then [digit_char n] else show_nat (n div 10) @ [digit_char (n mod 10)])"

declare show_nat.simps [simp del]

definition show_int :: "int \<Rightarrow> string" where
  "show_int i = (if i < 0 then CHR ''-'' # show_nat (nat (- i)) else show_nat (nat i))"

definition digit_value :: "char \<Rightarrow> nat option" where
  "digit_value c = (let n = of_char c :: nat in if 48 \<le> n \<and> n \<le> 57 then Some (n - 48) else None)"

text \<open>\<open>read_digits prev acc s\<close>: \<open>prev\<close> tells whether the character before was a digit.\<close>

fun read_digits :: "bool \<Rightarrow> nat \<Rightarrow> string \<Rightarrow> nat option" where
  "read_digits prev acc [] = (if prev then Some acc else None)"
| "read_digits prev acc (c # cs) =
     (case digit_value c of
        Some d \<Rightarrow> read_digits True (10 * acc + d) cs
      | None \<Rightarrow> if c = CHR ''_'' \<and> prev then read_digits False acc cs else None)"

definition py_int :: "string \<Rightarrow> int option" where
  "py_int s = (case py_strip s of
      [] \<Rightarrow> None
    | c # cs \<Rightarrow>
        if c = CHR ''-'' then map_option (\<lambda>n. - int n) (read_digits False 0 cs)
        else if c = CHR ''+'' then map_option int (read_digits False 0 cs)
        else map_option int (read_digits False 0 (c # cs)))"

section \<open>Numbers and dates\<close>

text \<open>\<open>int(x)\<close> of a float truncates towards zero.\<close>

definition py_trunc :: "rat \<Rightarrow> int" where
  "py_trunc r = (if r < 0 then \<lceil>r\<rceil> else \<lfloor>r\<rfloor>)"

text \<open>A \<open>datetime.date\<close> is its proleptic Gregorian ordinal, from 1 to \<open>date.max.toordinal()\<close>.\<close>

type_synonym date = int

definition date_ok :: "date \<Rightarrow> bool" where
  "date_ok d \<longleftrightarrow> 1 \<le> d \<and> d \<le> 3652059"

definition date_fromordinal :: "int \<Rightarrow> date option" where
  "date_fromordinal n = (if date_ok n then Some n else None)"

section \<open>Heaps\<close>

definition heappush :: "'a::linorder \<Rightarrow> 'a list \<Rightarrow> 'a list" where
  "heappush x h = insort x h"

definition heapify :: "'a::linorder list \<Rightarrow> 'a list" where
  "heapify xs = sort xs"

text \<open>\<open>list.remove(x)\<close> and the filter of a comprehension over a dict.\<close>

definition dict_filter :: "('k \<Rightarrow> bool) \<Rightarrow> ('k, 'v) dict \<Rightarrow> ('k, 'v) dict" where
  "dict_filter P d = filter (\<lambda>(k, v). P k) d"

text \<open>A dict comprehension assigns its items in order; \<open>sum_map\<close> stops at the first error.\<close>

definition dict_of :: "('k \<times> 'v) list \<Rightarrow> ('k, 'v) dict" where
  "dict_of kvs = fold (\<lambda>(k, v). AList.update k v) kvs []"

fun sum_map :: "('a \<Rightarrow> 'e + 'b) \<Rightarrow> 'a list \<Rightarrow> 'e + 'b list" where
  "sum_map f [] = Inr []"
| "sum_map f (x # xs) =
     (case f x of Inl e \<Rightarrow> Inl e
      | Inr y \<Rightarrow> (case sum_map f xs of Inl e \<Rightarrow> Inl e | Inr ys \<Rightarrow> Inr (y # ys)))"

section \<open>Lemmas\<close>

subsection \<open>Dictionaries\<close>

lemmas [dict_simps] = AList.update_conv' AList.delete_conv' AList.dom_update
  AList.distinct_update AList.distinct_delete

lemma dict_keys_update [simp]: "dict_keys (AList.update k v d) = insert k (dict_keys d)"
  by (simp add: AList.dom_update)

lemma dict_keys_delete [simp]: "dict_keys (AList.delete k d) = dict_keys d - {k}"
  by (induction d) auto

lemma map_of_None_iff: "map_of d k = None \<longleftrightarrow> k \<notin> dict_keys d"
  by (simp add: map_of_eq_None_iff)

lemma map_of_Some_key: "map_of d k = Some v \<Longrightarrow> k \<in> dict_keys d"
  by (force dest: map_of_SomeD)

lemma key_map_of: "k \<in> dict_keys d \<Longrightarrow> \<exists>v. map_of d k = Some v"
  by (metis map_of_None_iff not_None_eq)

lemma dict_wf_delete: "dict_wf d \<Longrightarrow> dict_wf (AList.delete k d)"
  by (rule AList.distinct_delete)

lemma dict_wf_update: "dict_wf d \<Longrightarrow> dict_wf (AList.update k v d)"
  by (rule AList.distinct_update)

lemma set_update_dict:
  "dict_wf d \<Longrightarrow> set (AList.update k v d) = insert (k, v) {p \<in> set d. fst p \<noteq> k}"
  by (induction d) (auto simp: image_iff)

lemma set_delete_dict: "set (AList.delete k d) = {p \<in> set d. fst p \<noteq> k}"
  by (induction d) auto

lemma update_fresh: "k \<notin> dict_keys d \<Longrightarrow> AList.update k v d = d @ [(k, v)]"
  by (induction d) auto

lemma fold_update_fresh:
  "dict_wf (acc @ kvs) \<Longrightarrow> fold (\<lambda>(k, v). AList.update k v) kvs acc = acc @ kvs"
  by (induction kvs arbitrary: acc) (auto simp: update_fresh)

lemma dict_of_wf: "dict_wf kvs \<Longrightarrow> dict_of kvs = kvs"
  by (simp add: dict_of_def fold_update_fresh)

lemma fold_update_wf: "dict_wf acc \<Longrightarrow> dict_wf (fold (\<lambda>(k, v). AList.update k v) kvs acc)"
  by (induction kvs arbitrary: acc) (auto simp: dict_wf_update)

lemma dict_wf_dict_of [simp]: "dict_wf (dict_of kvs)"
  by (simp add: dict_of_def fold_update_wf)

lemma sum_map_Inr: "(\<And>x. x \<in> set xs \<Longrightarrow> f x = Inr (g x)) \<Longrightarrow> sum_map f xs = Inr (map g xs)"
  by (induction xs) auto

lemma map_of_dict_filter [simp]:
  "map_of (dict_filter P d) k = (if P k then map_of d k else None)"
  unfolding dict_filter_def by (induction d) auto

lemma dict_keys_filter [simp]: "dict_keys (dict_filter P d) = {k \<in> dict_keys d. P k}"
  unfolding dict_filter_def by auto

lemma dict_wf_filter: "dict_wf d \<Longrightarrow> dict_wf (dict_filter P d)"
  unfolding dict_filter_def by (simp add: distinct_map_filter)

lemma map_of_sort_key:
  assumes "dict_wf d"
  shows "map_of (sort_key fst d) = map_of d"
proof (rule map_of_eqI)
  show "set (map fst (sort_key fst d)) = set (map fst d)" by simp
  have wf: "dict_wf (sort_key fst d)"
    using assms by (simp add: distinct_map)
  show "\<forall>k \<in> set (map fst (sort_key fst d)). map_of (sort_key fst d) k = map_of d k"
  proof
    fix k assume "k \<in> set (map fst (sort_key fst d))"
    then obtain v where "(k, v) \<in> set d" by auto
    with assms wf show "map_of (sort_key fst d) k = map_of d k" by simp
  qed
qed

text \<open>Counting the entries of a dict under a predicate on the values.\<close>

lemma sorted_before:
  assumes "sorted xs" "x < y" "x \<in> set xs" "y \<in> set (take n xs)"
  shows "\<exists>as bs cs. take n xs = as @ x # bs @ y # cs"
proof -
  obtain as cs where t: "take n xs = as @ y # cs" using split_list [OF assms(4)] by blast
  then have xs: "xs = as @ y # cs @ drop n xs" by (metis append_Cons append_assoc append_take_drop_id)
  have "x \<notin> set (y # cs @ drop n xs)"
    using assms(1,2) by (subst (asm) xs) (auto simp: sorted_append dest: leD)
  then have "x \<in> set as" using assms(3) xs by (metis Un_iff set_append)
  then obtain a b where "as = a @ x # b" using split_list by metis
  with t show ?thesis by auto
qed

lemma length_filter_delete:
  assumes "dict_wf d" "map_of d k = Some v"
  shows "length (filter (\<lambda>p. P (snd p)) d) =
    length (filter (\<lambda>p. P (snd p)) (AList.delete k d)) + (if P v then 1 else 0)"
  using assms by (induction d) (auto simp: map_of_None_iff split: if_splits)

lemma length_filter_update_fresh:
  assumes "map_of d k = None"
  shows "length (filter (\<lambda>p. P (snd p)) (AList.update k v d)) =
    length (filter (\<lambda>p. P (snd p)) d) + (if P v then 1 else 0)"
  using assms by (simp add: update_fresh map_of_None_iff)

lemma length_filter_update_old:
  assumes "dict_wf d" "map_of d k = Some u"
  shows "length (filter (\<lambda>p. P (snd p)) (AList.update k v d)) + (if P u then 1 else 0) =
    length (filter (\<lambda>p. P (snd p)) d) + (if P v then 1 else 0)"
  using assms by (induction d) (auto split: if_splits)

subsection \<open>Strings\<close>

lemma py_replace_notin: "a \<noteq> b \<Longrightarrow> a \<notin> set (py_replace a b s)"
  by (induction s) (auto simp: py_replace_def)

lemma py_replace_other: "c \<notin> set s \<Longrightarrow> c \<noteq> b \<Longrightarrow> c \<notin> set (py_replace a b s)"
  by (auto simp: py_replace_def)

lemma py_replace_Nil [simp]: "py_replace a b s = [] \<longleftrightarrow> s = []"
  by (simp add: py_replace_def)

lemma py_split_nonempty [simp]: "py_split c s \<noteq> []"
  by (induction s) (auto split: list.splits)

lemma py_split_notin: "c \<notin> set s \<Longrightarrow> py_split c s = [s]"
  by (induction s) auto

lemma py_split_append: "c \<notin> set a \<Longrightarrow> py_split c (a @ c # b) = a # py_split c b"
  by (induction a) auto

lemma py_split1_append: "c \<notin> set a \<Longrightarrow> py_split1 c (a @ c # b) = (a, b)"
  by (simp add: py_split1_def takeWhile_append dropWhile_append)

lemma of_char_digit: "d < 10 \<Longrightarrow> (of_char (digit_char d) :: nat) = 48 + d"
  by (simp add: digit_char_def)

lemma digit_value_digit [simp]: "d < 10 \<Longrightarrow> digit_value (digit_char d) = Some d"
  by (simp add: digit_value_def of_char_digit Let_def)

lemma digit_not_space: "d < 10 \<Longrightarrow> \<not> py_isspace (digit_char d)"
  by (simp add: py_isspace_def of_char_digit Let_def)

lemma read_digits_snoc:
  "read_digits p a s = Some n \<Longrightarrow> d < 10 \<Longrightarrow> read_digits p a (s @ [digit_char d]) = Some (10 * n + d)"
proof (induction p a s rule: read_digits.induct)
  case (1 p a)
  then show ?case by (simp split: if_splits)
next
  case (2 p a c cs)
  then show ?case by (auto split: option.splits if_splits)
qed

lemma read_show_nat: "read_digits False 0 (show_nat n) = Some n"
proof (induction n rule: less_induct)
  case (less n)
  show ?case
  proof (cases "n < 10")
    case True
    then show ?thesis by (subst show_nat.simps) simp
  next
    case False
    then have "read_digits False 0 (show_nat (n div 10)) = Some (n div 10)"
      by (intro less) simp
    from read_digits_snoc [OF this, of "n mod 10"] False show ?thesis
      by (subst show_nat.simps) simp
  qed
qed

lemma show_nat_digits: "c \<in> set (show_nat n) \<Longrightarrow> \<exists>d < 10. c = digit_char d"
proof (induction n rule: less_induct)
  case (less n)
  show ?case
  proof (cases "n < 10")
    case True
    with less.prems show ?thesis by (auto simp: show_nat.simps [of n])
  next
    case False
    with less.prems consider "c \<in> set (show_nat (n div 10))" | "c = digit_char (n mod 10)"
      by (auto simp: show_nat.simps [of n])
    then show ?thesis
      using less.IH [of "n div 10"] False by cases (auto intro: exI [of _ "n mod 10"])
  qed
qed

lemma show_nat_nonempty [simp]: "show_nat n \<noteq> []"
  by (subst show_nat.simps) simp

lemma show_nat_no_space: "c \<in> set (show_nat n) \<Longrightarrow> \<not> py_isspace c"
  by (auto dest: show_nat_digits simp: digit_not_space)

lemma py_strip_id: "(\<And>c. c \<in> set s \<Longrightarrow> \<not> py_isspace c) \<Longrightarrow> py_strip s = s"
proof -
  assume "\<And>c. c \<in> set s \<Longrightarrow> \<not> py_isspace c"
  then have "dropWhile py_isspace s = s" "dropWhile py_isspace (rev s) = rev s"
    by (auto simp: dropWhile_eq_self_iff hd_rev)
  then show ?thesis by (simp add: py_strip_def)
qed

lemma digit_char_neq: "d < 10 \<Longrightarrow> c \<in> set '':|-+_'' \<Longrightarrow> digit_char d \<noteq> c"
proof -
  assume "d < 10" "c \<in> set '':|-+_''"
  then have "(of_char (digit_char d) :: nat) \<noteq> of_char c"
    by (auto simp: of_char_digit)
  then show ?thesis by auto
qed

lemma show_nat_no_sep: "c \<in> set '':|-+_'' \<Longrightarrow> c \<notin> set (show_nat n)"
  using digit_char_neq show_nat_digits by blast

lemma py_int_show_int [simp]: "py_int (show_int i) = Some i"
proof (cases "i < 0")
  case True
  have "\<not> py_isspace c" if "c \<in> set (CHR ''-'' # show_nat (nat (- i)))" for c
    using that show_nat_no_space by (auto simp: py_isspace_def)
  then have "py_strip (CHR ''-'' # show_nat (nat (- i))) = CHR ''-'' # show_nat (nat (- i))"
    by (rule py_strip_id)
  with True show ?thesis
    by (simp add: py_int_def show_int_def read_show_nat)
next
  case False
  have strip: "py_strip (show_nat (nat i)) = show_nat (nat i)"
    by (rule py_strip_id) (rule show_nat_no_space)
  obtain c cs where s: "show_nat (nat i) = c # cs"
    by (cases "show_nat (nat i)") auto
  have "c \<noteq> CHR ''-''" "c \<noteq> CHR ''+''"
    using show_nat_no_sep [of "CHR ''-''" "nat i"] show_nat_no_sep [of "CHR ''+''" "nat i"] s by auto
  with False s show ?thesis
    using read_show_nat [of "nat i"] strip by (simp add: py_int_def show_int_def)
qed

lemma show_int_no_colon: "CHR '':'' \<notin> set (show_int i)" "CHR ''|'' \<notin> set (show_int i)"
  using show_nat_no_sep [of "CHR '':''"] show_nat_no_sep [of "CHR ''|''"]
  by (auto simp: show_int_def)

subsection \<open>Numbers\<close>

lemma py_trunc_of_int [simp]: "py_trunc (of_int i) = i"
  by (simp add: py_trunc_def)

subsection \<open>Priority queues\<close>

text \<open>
  The interface the job store takes from \<open>heapq\<close>: pushing adds one element, the head is
  the least element, popping removes it. The client lemma is what the lazy heaps rest on:
  a head that is live is least among the live elements.
\<close>

locale min_queue =
  fixes push :: "'a::linorder \<Rightarrow> 'q \<Rightarrow> 'q"
    and elems :: "'q \<Rightarrow> 'a list"
    and ok :: "'q \<Rightarrow> bool"
  assumes ok_push: "ok q \<Longrightarrow> ok (push x q)"
    and elems_push: "mset (elems (push x q)) = add_mset x (mset (elems q))"
    and ok_least: "ok q \<Longrightarrow> elems q = x # xs \<Longrightarrow> y \<in> set xs \<Longrightarrow> x \<le> y"
begin

lemma set_push: "set (elems (push x q)) = insert x (set (elems q))"
  by (metis elems_push set_mset_add_mset_insert set_mset_mset)

lemma least_live:
  assumes "ok q" "elems q = x # xs" "live \<subseteq> set (elems q)" "y \<in> live"
  shows "x \<le> y"
  using assms ok_least by auto

end

interpretation hq: min_queue heappush "\<lambda>h. h" sorted
  by unfold_locales (auto simp: heappush_def sorted_insort)

lemma sorted_heapify [simp]: "sorted (heapify xs)"
  by (simp add: heapify_def)

lemma set_heapify [simp]: "set (heapify xs) = set xs"
  by (simp add: heapify_def)

lemma set_heappush [simp]: "set (heappush x h) = insert x (set h)"
  by (rule hq.set_push)

lemma sorted_heappush: "sorted h \<Longrightarrow> sorted (heappush x h)"
  by (rule hq.ok_push)

lemma length_heappush [simp]: "length (heappush x h) = Suc (length h)"
  by (simp add: heappush_def)

subsection \<open>Transition systems\<close>

text \<open>
  A component as a transition system with an invariant: the invariant holds initially and
  every step keeps it, so it holds in every state a run of steps reaches.
\<close>

locale invariant_system =
  fixes start :: "'s \<Rightarrow> bool"
    and step :: "'s \<Rightarrow> 's \<Rightarrow> bool"
    and inv :: "'s \<Rightarrow> bool"
  assumes inv_start: "start s \<Longrightarrow> inv s"
    and inv_step: "inv s \<Longrightarrow> step s t \<Longrightarrow> inv t"
begin

lemma inv_run: "inv s \<Longrightarrow> step\<^sup>*\<^sup>* s t \<Longrightarrow> inv t"
  by (rotate_tac, induction rule: rtranclp_induct) (auto intro: inv_step)

lemma inv_reachable: "start s \<Longrightarrow> step\<^sup>*\<^sup>* s t \<Longrightarrow> inv t"
  by (rule inv_run [OF inv_start])

end

end
