(* ===== verification/Job_Score.thy ===== *)
theory Job_Score
  imports Py_Prelude
begin

text \<open>
  The ingest scores of \<open>dbload/lib/sync_timedb_job_store.py\<close>: a score holds a band (hot or
  catchup), a calendar day and a tie-break inside the day; a requeue that defers a job raises its
  score inside the day. The functions here are pure; a score is a rational, as a Python float that
  holds an integer (see \<open>Py_Prelude\<close>). The SHA-1 digest of an identity's UTF-8 bytes is a
  parameter: any function from strings to byte lists will do.
\<close>

section \<open>Constants\<close>

definition HOT_SCORE_BASE :: int where "HOT_SCORE_BASE = 0"
definition CATCHUP_SCORE_BASE :: int where "CATCHUP_SCORE_BASE = 10 ^ 15"
definition SCORE_STRIDE :: int where "SCORE_STRIDE = 10 ^ 6"
definition INGEST_PENALTY_STEP :: int where "INGEST_PENALTY_STEP = SCORE_STRIDE div 4"
definition JOB_ATTEMPT_MAX_DEFAULT :: int where "JOB_ATTEMPT_MAX_DEFAULT = 5"
definition QUEUE_MAX_MEMBERS_FLOOR :: int where "QUEUE_MAX_MEMBERS_FLOOR = 1000"
definition JOB_LEASE_TTL_FLOOR_S :: int where "JOB_LEASE_TTL_FLOOR_S = 60"
definition INFLIGHT_REAP_GRACE_FLOOR_S :: rat where "INFLIGHT_REAP_GRACE_FLOOR_S = 30"

lemmas score_consts = HOT_SCORE_BASE_def CATCHUP_SCORE_BASE_def SCORE_STRIDE_def
  INGEST_PENALTY_STEP_def

text \<open>The values of the INI getters the queue code calls; \<open>None\<close> is a getter that raises.\<close>

record job_cfg =
  get_sync_ingest_per_file_timeout_max_s :: "int option"
  get_sync_job_queue_max_members :: "int option"
  get_sync_ingest_queue_max_size :: "int option"
  get_sync_archive_retry_max_attempts :: "int option"

section \<open>Operations\<close>

text \<open>Score bounds: Python's infinities beside the finite values.\<close>

datatype bound = NegInf | Fin rat | PosInf

fun bound_le :: "bound \<Rightarrow> rat \<Rightarrow> bool" where
  "bound_le NegInf x = True"
| "bound_le (Fin b) x = (b \<le> x)"
| "bound_le PosInf x = False"

fun le_bound :: "rat \<Rightarrow> bound \<Rightarrow> bool" where
  "le_bound x NegInf = False"
| "le_bound x (Fin b) = (x \<le> b)"
| "le_bound x PosInf = True"

definition band_text :: "string \<Rightarrow> string" where
  "band_text band = py_lower (py_strip band)"

definition ingest_score_range :: "string \<Rightarrow> py_error + bound \<times> bound" where
  "ingest_score_range band =
     (if band_text band = ''hot'' then Inr (NegInf, Fin (of_int CATCHUP_SCORE_BASE - 1))
      else if band_text band = ''catchup'' then Inr (Fin (of_int CATCHUP_SCORE_BASE), PosInf)
      else Inl ValueError)"

text \<open>\<open>int.from_bytes(digest[:4], "big") % SCORE_STRIDE\<close>.\<close>

definition tie_break_from_identity :: "(string \<Rightarrow> nat list) \<Rightarrow> string \<Rightarrow> int" where
  "tie_break_from_identity sha1 identity =
     int (foldl (\<lambda>acc b. 256 * acc + b) 0 (take 4 (sha1 identity))) mod SCORE_STRIDE"

definition encode_ingest_score ::
    "(string \<Rightarrow> nat list) \<Rightarrow> string \<Rightarrow> date \<Rightarrow> date \<Rightarrow> string \<Rightarrow> py_error + int" where
  "encode_ingest_score sha1 band day today identity =
     (let tie = tie_break_from_identity sha1 identity in
      if band_text band = ''hot'' then
        (let raw = HOT_SCORE_BASE + (today - day) * SCORE_STRIDE + tie
         in Inr (max HOT_SCORE_BASE raw))
      else if band_text band = ''catchup'' then
        Inr (CATCHUP_SCORE_BASE + day * SCORE_STRIDE + tie)
      else Inl ValueError)"

definition penalize_ingest_score :: "rat option \<Rightarrow> rat" where
  "penalize_ingest_score score =
     (let v = (case score of None \<Rightarrow> CATCHUP_SCORE_BASE | Some s \<Rightarrow> py_trunc s);
          last_in_day = v - v mod SCORE_STRIDE + SCORE_STRIDE - 1
      in of_int (min (v + INGEST_PENALTY_STEP) last_in_day))"

definition decode_ingest_band :: "rat \<Rightarrow> string" where
  "decode_ingest_band score =
     (if score < of_int CATCHUP_SCORE_BASE then ''hot'' else ''catchup'')"

definition decode_catchup_calendar_day :: "rat \<Rightarrow> date option" where
  "decode_catchup_calendar_day score =
     (if decode_ingest_band score \<noteq> ''catchup'' then None
      else date_fromordinal \<lfloor>(score - of_int CATCHUP_SCORE_BASE) / of_int SCORE_STRIDE\<rfloor>)"

definition job_lease_ttl_seconds :: "job_cfg \<Rightarrow> int" where
  "job_lease_ttl_seconds cfg =
     (let raw = (case get_sync_ingest_per_file_timeout_max_s cfg of None \<Rightarrow> 86400 | Some v \<Rightarrow> v)
      in if raw < JOB_LEASE_TTL_FLOOR_S then JOB_LEASE_TTL_FLOOR_S else raw)"

definition queue_capacity_limit :: "job_cfg \<Rightarrow> int" where
  "queue_capacity_limit cfg =
     max QUEUE_MAX_MEMBERS_FLOOR
       (case get_sync_job_queue_max_members cfg of None \<Rightarrow> 2000000 | Some v \<Rightarrow> v)"

definition discover_ingest_capacity_limit :: "job_cfg \<Rightarrow> int" where
  "discover_ingest_capacity_limit cfg =
     (let ingest_cap = (case get_sync_ingest_queue_max_size cfg of None \<Rightarrow> 50000 | Some v \<Rightarrow> v)
      in min (queue_capacity_limit cfg) (max 1 ingest_cap))"

definition job_max_attempts :: "job_cfg \<Rightarrow> int" where
  "job_max_attempts cfg =
     max 1 (case get_sync_archive_retry_max_attempts cfg of
              None \<Rightarrow> JOB_ATTEMPT_MAX_DEFAULT | Some v \<Rightarrow> v)"

definition ingest_band_slot_caps :: "int \<Rightarrow> py_error + int \<times> int" where
  "ingest_band_slot_caps pool =
     (if pool < 1 then Inl ValueError
      else if pool = 1 then Inr (1, 0)
      else let hot_cap = max 1 ((2 * pool) div 3); catchup_cap = pool - hot_cap in
        if catchup_cap < 1 then Inr (pool - 1, 1) else Inr (hot_cap, catchup_cap))"

text \<open>\<open>int(x or y)\<close>: a zero argument is replaced by the alternative.\<close>

definition ingest_claim_probe_depth :: "int \<Rightarrow> int \<Rightarrow> int" where
  "ingest_claim_probe_depth hot_q pool =
     (if hot_q \<le> (if pool = 0 then 1 else pool) then 8
      else min 64 (max 8 (hot_q div max 1 pool)))"

definition ingest_fingerprint :: "int \<Rightarrow> int \<Rightarrow> string" where
  "ingest_fingerprint sz mtime_ns = show_int sz @ ''|'' @ show_int mtime_ns"

section \<open>Lemmas\<close>

lemma band_text_simps [simp]: "band_text ''hot'' = ''hot''" "band_text ''catchup'' = ''catchup''"
  by code_simp+

lemma tie_bounds: "0 \<le> tie_break_from_identity sha1 i" "tie_break_from_identity sha1 i < SCORE_STRIDE"
  by (simp_all add: tie_break_from_identity_def SCORE_STRIDE_def)

lemma decode_band_hot [simp]: "decode_ingest_band s = ''hot'' \<longleftrightarrow> s < of_int CATCHUP_SCORE_BASE"
  by (simp add: decode_ingest_band_def)

lemma decode_band_catchup [simp]:
  "decode_ingest_band s = ''catchup'' \<longleftrightarrow> of_int CATCHUP_SCORE_BASE \<le> s"
  by (auto simp: decode_ingest_band_def)

lemma decode_band_cases: "decode_ingest_band s = ''hot'' \<or> decode_ingest_band s = ''catchup''"
  by (simp add: decode_ingest_band_def)

text \<open>The day slot of an integral score, for both bands.\<close>

definition score_slot :: "rat \<Rightarrow> int" where
  "score_slot s = \<lfloor>s\<rfloor> div SCORE_STRIDE"

lemma penalize_of_int:
  "penalize_ingest_score (Some (of_int v)) =
     of_int (min (v + INGEST_PENALTY_STEP) (v - v mod SCORE_STRIDE + SCORE_STRIDE - 1))"
  by (simp add: penalize_ingest_score_def Let_def)

lemma penalize_int_bounds:
  defines "w \<equiv> \<lambda>v. min (v + INGEST_PENALTY_STEP) (v - v mod SCORE_STRIDE + SCORE_STRIDE - 1)"
  shows "v \<le> w v" "w v div SCORE_STRIDE = v div SCORE_STRIDE"
proof -
  have m: "v = SCORE_STRIDE * (v div SCORE_STRIDE) + v mod SCORE_STRIDE" by simp
  have b: "0 \<le> v mod SCORE_STRIDE" "v mod SCORE_STRIDE < SCORE_STRIDE"
    by (simp_all add: SCORE_STRIDE_def)
  have s: "0 \<le> INGEST_PENALTY_STEP" by (simp add: score_consts)
  show 1: "v \<le> w v" unfolding w_def using b s by linarith
  have "w v \<le> SCORE_STRIDE * (v div SCORE_STRIDE) + SCORE_STRIDE - 1"
    unfolding w_def using m by linarith
  moreover have "SCORE_STRIDE * (v div SCORE_STRIDE) \<le> w v" using 1 m b by linarith
  ultimately show "w v div SCORE_STRIDE = v div SCORE_STRIDE"
    using int_div_pos_eq [of "w v" SCORE_STRIDE "v div SCORE_STRIDE" "w v - SCORE_STRIDE * (v div SCORE_STRIDE)"]
    by (simp add: SCORE_STRIDE_def)
qed

lemma penalize_int: "\<exists>w. penalize_ingest_score (Some (of_int v)) = of_int w \<and> v \<le> w \<and>
    w div SCORE_STRIDE = v div SCORE_STRIDE"
  using penalize_int_bounds [of v] by (simp add: penalize_of_int)

lemma penalize_Ints: "\<exists>w. penalize_ingest_score s = of_int w"
  unfolding penalize_ingest_score_def Let_def by blast

text \<open>Any number of deferrals: the score does not fall and stays in its day slot.\<close>

lemma penalize_iter:
  "\<exists>w. ((\<lambda>s. penalize_ingest_score (Some s)) ^^ n) (of_int v) = of_int w \<and> v \<le> w \<and>
     w div SCORE_STRIDE = v div SCORE_STRIDE"
proof (induction n)
  case 0
  show ?case by auto
next
  case (Suc n)
  then obtain w where "((\<lambda>s. penalize_ingest_score (Some s)) ^^ n) (of_int v) = of_int w"
    "v \<le> w" "w div SCORE_STRIDE = v div SCORE_STRIDE" by blast
  with penalize_int [of w] show ?case by fastforce
qed

lemma decode_day_of_int:
  assumes "CATCHUP_SCORE_BASE \<le> w"
  shows "decode_catchup_calendar_day (of_int w) =
    date_fromordinal (w div SCORE_STRIDE - CATCHUP_SCORE_BASE div SCORE_STRIDE)"
proof -
  have "(of_int w - of_int CATCHUP_SCORE_BASE) / of_int SCORE_STRIDE =
      (of_int (w - CATCHUP_SCORE_BASE) / of_int SCORE_STRIDE :: rat)" by simp
  then have "\<lfloor>(of_int w - of_int CATCHUP_SCORE_BASE) / of_int SCORE_STRIDE :: rat\<rfloor> =
      (w - CATCHUP_SCORE_BASE) div SCORE_STRIDE"
    by (metis floor_divide_of_int_eq)
  moreover have "(w - CATCHUP_SCORE_BASE) div SCORE_STRIDE =
      w div SCORE_STRIDE - CATCHUP_SCORE_BASE div SCORE_STRIDE"
    by (simp add: score_consts)
  ultimately show ?thesis
    using assms by (simp add: decode_catchup_calendar_day_def)
qed

lemma encode_catchup: "encode_ingest_score sha1 ''catchup'' day today identity =
    Inr (CATCHUP_SCORE_BASE + day * SCORE_STRIDE + tie_break_from_identity sha1 identity)"
  by (simp add: encode_ingest_score_def Let_def)

lemma encode_catchup_slot:
  "(CATCHUP_SCORE_BASE + day * SCORE_STRIDE + tie_break_from_identity sha1 identity) div SCORE_STRIDE =
    CATCHUP_SCORE_BASE div SCORE_STRIDE + day"
proof -
  have "(CATCHUP_SCORE_BASE + day * SCORE_STRIDE + tie_break_from_identity sha1 identity) div SCORE_STRIDE
      = (tie_break_from_identity sha1 identity + (10 ^ 9 + day) * SCORE_STRIDE) div SCORE_STRIDE"
    by (simp add: score_consts algebra_simps)
  also have "\<dots> = (10 ^ 9 + day) + tie_break_from_identity sha1 identity div SCORE_STRIDE"
    by (rule div_mult_self1) (simp add: SCORE_STRIDE_def)
  also have "tie_break_from_identity sha1 identity div SCORE_STRIDE = 0"
    using tie_bounds by (simp add: div_pos_pos_trivial)
  finally show ?thesis by (simp add: score_consts)
qed

lemma slot_less: "v div SCORE_STRIDE < w div SCORE_STRIDE \<Longrightarrow> v < w"
  by (rule ccontr) (use zdiv_mono1 [of w v SCORE_STRIDE] in \<open>auto simp: SCORE_STRIDE_def\<close>)

lemma catchup_deferred_less:
  assumes "day1 < day2"
    and "encode_ingest_score sha1 ''catchup'' day1 today identity1 = Inr v1"
    and "encode_ingest_score sha1 ''catchup'' day2 today identity2 = Inr v2"
  shows "((\<lambda>s. penalize_ingest_score (Some s)) ^^ m) (of_int v1) <
    ((\<lambda>s. penalize_ingest_score (Some s)) ^^ n) (of_int v2)"
proof -
  obtain w1 where w1: "((\<lambda>s. penalize_ingest_score (Some s)) ^^ m) (of_int v1) = of_int w1"
    "w1 div SCORE_STRIDE = v1 div SCORE_STRIDE" using penalize_iter by blast
  obtain w2 where w2: "((\<lambda>s. penalize_ingest_score (Some s)) ^^ n) (of_int v2) = of_int w2"
    "w2 div SCORE_STRIDE = v2 div SCORE_STRIDE" using penalize_iter by blast
  have "w1 div SCORE_STRIDE < w2 div SCORE_STRIDE"
    using assms w1 w2 encode_catchup_slot by (auto simp: encode_catchup)
  then have "w1 < w2" by (rule slot_less)
  with w1 w2 show ?thesis by simp
qed

section \<open>Properties\<close>

text \<open>
  Round trip of the catchup score, deferrals included. The day encoded for a backfill file is
  the day decoded again, however often the score was penalized in between.
\<close>

theorem decode_encode_catchup_day:
  assumes "date_ok day"
    and "encode_ingest_score sha1 ''catchup'' day today identity = Inr v"
  shows "decode_catchup_calendar_day (((\<lambda>s. penalize_ingest_score (Some s)) ^^ n) (of_int v)) = Some day"
proof -
  have v: "v = CATCHUP_SCORE_BASE + day * SCORE_STRIDE + tie_break_from_identity sha1 identity"
    using assms(2) by (simp add: encode_catchup)
  obtain w where w: "((\<lambda>s. penalize_ingest_score (Some s)) ^^ n) (of_int v) = of_int w" "v \<le> w"
    "w div SCORE_STRIDE = v div SCORE_STRIDE" using penalize_iter by blast
  have "CATCHUP_SCORE_BASE \<le> v"
    using assms(1) v tie_bounds(1) [of sha1 identity] by (simp add: date_ok_def SCORE_STRIDE_def)
  with w decode_day_of_int [of w] encode_catchup_slot [of day sha1 identity] assms(1) v show ?thesis
    by (simp add: date_fromordinal_def)
qed

theorem decode_encode_catchup_day_witness:
  "decode_catchup_calendar_day (((\<lambda>s. penalize_ingest_score (Some s)) ^^ 7)
     (of_int (10 ^ 15 + 739847 * 10 ^ 6 + 66051 mod 10 ^ 6))) = Some 739847"
  by (rule decode_encode_catchup_day [of _ "\<lambda>s. [0, 1, 2, 3]" _ "''/raw/a''"])
    (simp_all add: date_ok_def encode_catchup score_consts tie_break_from_identity_def)

text \<open>
  Oldest day first, whatever was requeued. A backfill file of an earlier day keeps a smaller
  score than one of a later day after any numbers of deferrals of either, so no sequence of
  requeues reorders days.
\<close>

theorem catchup_day_order_stable:
  assumes "day1 < day2"
    and "encode_ingest_score sha1 ''catchup'' day1 today identity1 = Inr v1"
    and "encode_ingest_score sha1 ''catchup'' day2 today identity2 = Inr v2"
  shows "((\<lambda>s. penalize_ingest_score (Some s)) ^^ m) (of_int v1) <
    ((\<lambda>s. penalize_ingest_score (Some s)) ^^ n) (of_int v2)"
  by (rule catchup_deferred_less [OF assms])

theorem catchup_day_order_stable_witness:
  "((\<lambda>s. penalize_ingest_score (Some s)) ^^ 9) (of_int (10 ^ 15 + 739847 * 10 ^ 6 + 999999)) <
    ((\<lambda>s. penalize_ingest_score (Some s)) ^^ 0) (of_int (10 ^ 15 + 739848 * 10 ^ 6 + 0))"
  by (rule catchup_day_order_stable [of 739847 739848
        "\<lambda>s. if s = ''a'' then [0, 15, 66, 63] else []" 739850 "''a''" _ "''b''"])
    (simp_all add: encode_catchup score_consts tie_break_from_identity_def)

text \<open>C33: The bands never mix. A hot score stays below the catchup base and a catchup score stays at
  or above it, whatever valid days are encoded and however often the score is deferred, so the
  claim window of its band always contains it.
\<close>

theorem band_stable:
  assumes "date_ok day" "date_ok today" "band = ''hot'' \<or> band = ''catchup''"
    and "encode_ingest_score sha1 band day today identity = Inr v"
  shows "decode_ingest_band (((\<lambda>s. penalize_ingest_score (Some s)) ^^ n) (of_int v)) = band \<and>
    (\<exists>lo hi. ingest_score_range band = Inr (lo, hi) \<and>
      bound_le lo (((\<lambda>s. penalize_ingest_score (Some s)) ^^ n) (of_int v)) \<and>
      le_bound (((\<lambda>s. penalize_ingest_score (Some s)) ^^ n) (of_int v)) hi)"
proof -
  obtain w where w: "((\<lambda>s. penalize_ingest_score (Some s)) ^^ n) (of_int v) = of_int w" "v \<le> w"
    "w div SCORE_STRIDE = v div SCORE_STRIDE" using penalize_iter by blast
  note t = tie_bounds [of sha1 identity]
  show ?thesis
  proof (cases "band = ''hot''")
    case True
    have v: "v = max 0 ((today - day) * SCORE_STRIDE + tie_break_from_identity sha1 identity)"
      using assms True by (simp add: encode_ingest_score_def Let_def HOT_SCORE_BASE_def)
    have "(today - day) * SCORE_STRIDE \<le> 3652059 * SCORE_STRIDE"
      using assms by (intro mult_right_mono) (auto simp: date_ok_def SCORE_STRIDE_def)
    with t v have "v < CATCHUP_SCORE_BASE" by (simp add: score_consts)
    then have "w div SCORE_STRIDE < CATCHUP_SCORE_BASE div SCORE_STRIDE"
      using w(3) by (simp add: score_consts)
    then have "w < CATCHUP_SCORE_BASE" by (rule slot_less)
    then have "(of_int w :: rat) < of_int CATCHUP_SCORE_BASE" "(of_int w :: rat) \<le> of_int (CATCHUP_SCORE_BASE - 1)"
      by (simp_all only: of_int_less_iff of_int_le_iff zle_diff1_eq)
    with True w show ?thesis by (simp add: ingest_score_range_def)
  next
    case False
    with assms have "band = ''catchup''" by simp
    moreover have "CATCHUP_SCORE_BASE \<le> w"
      using assms calculation t(1) w(2) by (auto simp: encode_catchup date_ok_def SCORE_STRIDE_def)
    ultimately show ?thesis using w by (simp add: ingest_score_range_def)
  qed
qed

theorem band_stable_witness:
  "decode_ingest_band (((\<lambda>s. penalize_ingest_score (Some s)) ^^ 3) (of_int (2 * 10 ^ 6 + 0))) = ''hot'' \<and>
    (\<exists>lo hi. ingest_score_range ''hot'' = Inr (lo, hi) \<and>
      bound_le lo (((\<lambda>s. penalize_ingest_score (Some s)) ^^ 3) (of_int (2 * 10 ^ 6 + 0))) \<and>
      le_bound (((\<lambda>s. penalize_ingest_score (Some s)) ^^ 3) (of_int (2 * 10 ^ 6 + 0))) hi)"
  by (rule band_stable [of 739848 739850 _ "\<lambda>s. []" "''/raw/a''"])
    (simp_all add: date_ok_def encode_ingest_score_def score_consts tie_break_from_identity_def)

text \<open>
  Slot caps of the ingest pool. For every pool of at least one slot the two caps are
  non-negative and add up to the pool, the hot band always has a slot and no fewer than the
  catchup band, and a pool of two or more leaves a slot for catchup; an empty
  pool is refused.
\<close>

theorem slot_caps_partition:
  "(case ingest_band_slot_caps pool of
      Inl e \<Rightarrow> pool < 1 \<and> e = ValueError
    | Inr (hot, catchup) \<Rightarrow> 1 \<le> pool \<and> hot + catchup = pool \<and> 1 \<le> hot \<and> 0 \<le> catchup \<and>
        (1 \<le> catchup \<longleftrightarrow> 2 \<le> pool) \<and> catchup \<le> hot)"
  by (auto simp: ingest_band_slot_caps_def Let_def split: if_splits)

end
