(* ===== verification/Lease_Owner.thy ===== *)
theory Lease_Owner
  imports Job_Score
begin

text \<open>
  Owner tokens and job identities of \<open>dbload/lib/sync_timedb_job_store.py\<close>: the token
  \<open>nonce:host:boot:pid\<close> that a claim carries, its parser, the check that this process may judge
  the owner's PID, the boot identifier behind it, and the normalized path that names an ingest
  job. The random nonce, \<open>gethostname\<close>, the files below \<open>/proc\<close>, \<open>os.kill\<close> and \<open>os.stat\<close>
  are arguments.
\<close>

section \<open>Tokens\<close>

record lease_owner =
  lo_nonce :: string
  lo_hostname :: string
  lo_boot_id :: string
  lo_pid :: "int option"

definition token_safe :: "string \<Rightarrow> string" where
  "token_safe s = py_replace CHR ''|'' CHR ''_'' (py_replace CHR '':'' CHR ''_'' s)"

text \<open>
  \<open>boot_file\<close> is what \<open>/proc/sys/kernel/random/boot_id\<close> holds (\<open>None\<close>: it cannot be read),
  \<open>boot_clock\<close> the text of the boot time from the clocks (\<open>None\<close>: it cannot be computed).
  The result carries the new value of \<open>_BOOT_ID_CACHE\<close>.
\<close>

definition current_boot_id ::
    "string option \<Rightarrow> string option \<Rightarrow> string option \<Rightarrow> string \<times> string option" where
  "current_boot_id boot_file boot_clock cache =
     (case cache of
        Some b \<Rightarrow> (b, cache)
      | None \<Rightarrow>
          let boot1 = (case boot_file of
                         None \<Rightarrow> []
                       | Some t \<Rightarrow> take 16 (filter (\<lambda>c. c \<noteq> CHR ''-'') (py_strip t)));
              boot2 = (if boot1 = [] then (case boot_clock of None \<Rightarrow> ''unknown'' | Some t \<Rightarrow> t) else boot1);
              boot3 = token_safe boot2;
              result = (if boot3 = [] then ''unknown'' else boot3)
          in (result, Some result))"

definition resolve_host :: "string option \<Rightarrow> string option \<Rightarrow> string" where
  "resolve_host gethostname hostname =
     (case hostname of
        Some h \<Rightarrow> h
      | None \<Rightarrow> (case gethostname of None \<Rightarrow> ''unknown'' | Some h \<Rightarrow> h))"

definition make_lease_owner_token ::
    "string \<Rightarrow> string option \<Rightarrow> string \<Rightarrow> int \<Rightarrow> string option \<Rightarrow> string option \<Rightarrow> string" where
  "make_lease_owner_token nonce gethostname current_boot owner_pid hostname boot_id =
     (let host = resolve_host gethostname hostname;
          boot = (case boot_id of None \<Rightarrow> current_boot | Some b \<Rightarrow> b)
      in nonce @ '':'' @ token_safe (if host = [] then ''unknown'' else host) @ '':'' @
         token_safe (if boot = [] then ''unknown'' else boot) @ '':'' @ show_int owner_pid)"

definition parse_lease_owner :: "string \<Rightarrow> lease_owner" where
  "parse_lease_owner owner_token =
     (let parts = py_split CHR '':'' owner_token; n = length parts;
          pid = (if n \<ge> 2 then py_int (last parts) else None)
      in if n \<ge> 4
         then \<lparr>lo_nonce = hd parts, lo_hostname = parts ! (n - 3), lo_boot_id = parts ! (n - 2), lo_pid = pid\<rparr>
         else \<lparr>lo_nonce = hd parts, lo_hostname = [], lo_boot_id = [], lo_pid = pid\<rparr>)"

definition parse_lease_owner_pid :: "string \<Rightarrow> int option" where
  "parse_lease_owner_pid owner_token = lo_pid (parse_lease_owner owner_token)"

definition lease_owner_is_locally_evaluable ::
    "string option \<Rightarrow> string \<Rightarrow> lease_owner \<Rightarrow> string option \<Rightarrow> string option \<Rightarrow> bool" where
  "lease_owner_is_locally_evaluable gethostname current_boot ow hostname boot_id =
     (if lo_hostname ow = [] \<or> lo_boot_id ow = [] then False
      else lo_hostname ow = token_safe (resolve_host gethostname hostname) \<and>
           lo_boot_id ow = token_safe (case boot_id of None \<Rightarrow> current_boot | Some b \<Rightarrow> b))"

section \<open>Identities\<close>

text \<open>\<open>posixpath.normpath\<close>: the components kept so far are a stack, last one first.\<close>

definition normpath_step :: "bool \<Rightarrow> string \<Rightarrow> string list \<Rightarrow> string list" where
  "normpath_step rooted cpt acc =
     (if cpt = [] \<or> cpt = ''.'' then acc
      else if cpt \<noteq> ''..'' \<or> (\<not> rooted \<and> acc = []) \<or> (acc \<noteq> [] \<and> hd acc = ''..'') then cpt # acc
      else tl acc)"

fun path_join_comps :: "string list \<Rightarrow> string" where
  "path_join_comps [] = []"
| "path_join_comps [c] = c"
| "path_join_comps (c # cs) = c @ ''/'' @ path_join_comps cs"

definition initial_slashes :: "string \<Rightarrow> nat" where
  "initial_slashes path =
     (if take 1 path \<noteq> ''/'' then 0
      else if take 2 path = ''//'' \<and> take 3 path \<noteq> ''///'' then 2 else 1)"

definition py_normpath :: "string \<Rightarrow> string" where
  "py_normpath path =
     (if path = [] then ''.''
      else let n = initial_slashes path;
               comps = rev (fold (normpath_step (n > 0)) (py_split CHR ''/'' path) []);
               result = replicate n CHR ''/'' @ path_join_comps comps
           in if result = [] then ''.'' else result)"

definition ingest_identity :: "string \<Rightarrow> py_error + string" where
  "ingest_identity path =
     (let t = py_strip path in if t = [] then Inl ValueError else Inr (py_normpath t))"

text \<open>\<open>os.stat\<close> gives size and modification time, \<open>None\<close> when it raises.\<close>

definition fingerprint_matches_path :: "(string \<Rightarrow> (int \<times> int) option) \<Rightarrow> string \<Rightarrow> string \<Rightarrow> bool" where
  "fingerprint_matches_path stat path fingerprint =
     (if CHR ''|'' \<notin> set fingerprint \<or> path = [] then False
      else (case stat path of
              None \<Rightarrow> False
            | Some (sz, mtime_ns) \<Rightarrow> fingerprint = ingest_fingerprint sz mtime_ns))"

section \<open>Lemmas\<close>

lemma token_safe_notin: "CHR '':'' \<notin> set (token_safe s)" "CHR ''|'' \<notin> set (token_safe s)"
  by (simp_all add: token_safe_def py_replace_notin py_replace_other)

lemma token_safe_Nil [simp]: "token_safe s = [] \<longleftrightarrow> s = []"
  by (simp add: token_safe_def)

lemma py_split_token:
  assumes "CHR '':'' \<notin> set a" "CHR '':'' \<notin> set b" "CHR '':'' \<notin> set c" "CHR '':'' \<notin> set d"
  shows "py_split CHR '':'' (a @ '':'' @ b @ '':'' @ c @ '':'' @ d) = [a, b, c, d]"
  using assms by (simp add: py_split_append py_split_notin)

lemma parse_made_token:
  assumes "CHR '':'' \<notin> set nonce"
  shows "parse_lease_owner (nonce @ '':'' @ token_safe h @ '':'' @ token_safe b @ '':'' @ show_int pid) =
    \<lparr>lo_nonce = nonce, lo_hostname = token_safe h, lo_boot_id = token_safe b, lo_pid = Some pid\<rparr>"
  unfolding parse_lease_owner_def
  by (subst py_split_token)
    (use assms token_safe_notin show_int_no_colon in \<open>simp_all add: Let_def numeral_eq_Suc\<close>)

subsection \<open>Normalized paths\<close>

text \<open>Components of a normalized path: no separator, no empty or \<open>.\<close> part, \<open>..\<close> only in front.\<close>

definition norm_comps :: "bool \<Rightarrow> string list \<Rightarrow> bool" where
  "norm_comps rooted cs \<longleftrightarrow>
     (\<forall>c \<in> set cs. c \<noteq> [] \<and> c \<noteq> ''.'' \<and> CHR ''/'' \<notin> set c) \<and>
     (\<exists>k. (\<forall>c \<in> set (take k cs). c = ''..'') \<and> (\<forall>c \<in> set (drop k cs). c \<noteq> ''..'') \<and>
        (rooted \<longrightarrow> k = 0))"

lemma norm_comps_snoc:
  assumes "norm_comps rooted (rev acc)" "CHR ''/'' \<notin> set cpt"
  shows "norm_comps rooted (rev (normpath_step rooted cpt acc))"
proof -
  from assms(1) obtain k where
    p: "\<forall>c \<in> set acc. c \<noteq> [] \<and> c \<noteq> ''.'' \<and> CHR ''/'' \<notin> set c"
    and k: "\<forall>c \<in> set (take k (rev acc)). c = ''..''" "\<forall>c \<in> set (drop k (rev acc)). c \<noteq> ''..''"
      "rooted \<longrightarrow> k = 0"
    unfolding norm_comps_def by auto
  consider (skip) "cpt = [] \<or> cpt = ''.''"
    | (name) "cpt \<noteq> []" "cpt \<noteq> ''.''" "cpt \<noteq> ''..''"
    | (up_keep) "cpt = ''..''" "(\<not> rooted \<and> acc = []) \<or> (acc \<noteq> [] \<and> hd acc = ''..'')"
    | (up_pop) "cpt = ''..''" "\<not> ((\<not> rooted \<and> acc = []) \<or> (acc \<noteq> [] \<and> hd acc = ''..''))"
    by blast
  then show ?thesis
  proof cases
    case skip
    with assms(1) show ?thesis by (auto simp: normpath_step_def)
  next
    case name
    have "\<forall>c \<in> set (take (min k (length acc)) (rev (cpt # acc))). c = ''..''"
      using k(1) by (auto simp: take_append min_def split: if_splits)
    moreover have "\<forall>c \<in> set (drop (min k (length acc)) (rev (cpt # acc))). c \<noteq> ''..''"
      using k(2) name by (auto simp: drop_append min_def split: if_splits)
    ultimately have "norm_comps rooted (rev (cpt # acc))"
      using p name assms(2) k(3) unfolding norm_comps_def by (auto intro!: exI [of _ "min k (length acc)"])
    with name show ?thesis by (simp add: normpath_step_def)
  next
    case up_keep
    have all: "\<forall>c \<in> set (rev acc). c = ''..''"
    proof (cases "acc = []")
      case False
      with up_keep have "hd acc = ''..''" by simp
      then have "last (rev acc) = ''..''" by (simp add: last_rev)
      then have "drop k (rev acc) = []"
        using k(2) False by (metis last_drop last_in_set length_drop length_0_conv length_rev not_less
            drop_eq_Nil)
      then show ?thesis using k(1) by simp
    qed simp
    have nr: "\<not> rooted"
    proof
      assume "rooted"
      with up_keep k have "acc \<noteq> []" "''..'' \<in> set (drop 0 (rev acc))" by (auto intro: hd_in_set)
      with k \<open>rooted\<close> show False by auto
    qed
    have "norm_comps rooted (rev (cpt # acc))"
      using p all up_keep nr unfolding norm_comps_def
      by (auto intro!: exI [of _ "Suc (length acc)"])
    with up_keep show ?thesis by (simp add: normpath_step_def)
  next
    case up_pop
    then have "normpath_step rooted cpt acc = tl acc" by (auto simp: normpath_step_def)
    moreover have "rev (tl acc) = butlast (rev acc)" by (simp add: butlast_rev)
    moreover have "norm_comps rooted (butlast (rev acc))"
      unfolding norm_comps_def
    proof (intro conjI exI [of _ k])
      show "\<forall>c \<in> set (butlast (rev acc)). c \<noteq> [] \<and> c \<noteq> ''.'' \<and> CHR ''/'' \<notin> set c"
        using p in_set_butlastD [of _ "rev acc"] by (metis set_rev)
      show "\<forall>c \<in> set (take k (butlast (rev acc))). c = ''..''"
        using k(1) by (metis butlast_conv_take in_set_takeD min.commute set_take_subset_set_take
            subsetD take_take min.cobounded1)
      show "\<forall>c \<in> set (drop k (butlast (rev acc))). c \<noteq> ''..''"
        using k(2) by (metis drop_butlast in_set_butlastD)
    qed (use k in simp)
    ultimately show ?thesis by simp
  qed
qed

lemma py_split_comps: "c \<in> set (py_split x s) \<Longrightarrow> x \<notin> set c"
  by (induction s arbitrary: c) (force split: if_splits list.splits)+

lemma fold_normpath:
  "(\<forall>c \<in> set cs. CHR ''/'' \<notin> set c) \<Longrightarrow> norm_comps rooted (rev acc) \<Longrightarrow>
    norm_comps rooted (rev (fold (normpath_step rooted) cs acc))"
  by (induction cs arbitrary: acc) (auto simp: norm_comps_snoc)

lemma fold_normpath_id:
  assumes "norm_comps rooted (rev acc @ cs)"
  shows "fold (normpath_step rooted) cs acc = rev cs @ acc"
  using assms
proof (induction cs arbitrary: acc)
  case (Cons c cs)
  have "normpath_step rooted c acc = c # acc"
  proof (cases "c = ''..''")
    case True
    from Cons.prems obtain k where k: "\<forall>x \<in> set (take k (rev acc @ c # cs)). x = ''..''"
      "\<forall>x \<in> set (drop k (rev acc @ c # cs)). x \<noteq> ''..''" "rooted \<longrightarrow> k = 0"
      unfolding norm_comps_def by auto
    have "length acc < k"
    proof (rule ccontr)
      assume "\<not> length acc < k"
      then have "c \<in> set (drop k (rev acc @ c # cs))" by simp
      with k True show False by blast
    qed
    then have "\<forall>x \<in> set acc. x = ''..''" "\<not> rooted" using k by auto
    then have "(\<not> rooted \<and> acc = []) \<or> (acc \<noteq> [] \<and> hd acc = ''..'')"
      by (cases acc) auto
    with True show ?thesis by (simp add: normpath_step_def)
  next
    case False
    with Cons.prems show ?thesis by (auto simp: normpath_step_def norm_comps_def)
  qed
  with Cons show ?case by simp
qed simp

lemma py_split_join:
  "cs \<noteq> [] \<Longrightarrow> \<forall>c \<in> set cs. CHR ''/'' \<notin> set c \<Longrightarrow> py_split CHR ''/'' (path_join_comps cs) = cs"
  by (induction cs rule: path_join_comps.induct) (simp_all add: py_split_notin py_split_append)

lemma py_split_slashes: "py_split CHR ''/'' (replicate n CHR ''/'' @ s) = replicate n [] @ py_split CHR ''/'' s"
  by (induction n) auto

lemma join_hd: "norm_comps r cs \<Longrightarrow> take 1 (path_join_comps cs) \<noteq> ''/''"
proof (cases cs)
  case (Cons c cs')
  assume "norm_comps r cs"
  with Cons obtain x xs where "c = x # xs" "x \<noteq> CHR ''/''" by (cases c) (auto simp: norm_comps_def)
  with Cons show ?thesis by (cases cs') simp_all
qed simp

lemma initial_slashes_le: "initial_slashes s \<le> 2"
  by (simp add: initial_slashes_def)

lemma initial_slashes_join:
  assumes "norm_comps r cs" "n \<le> 2"
  shows "initial_slashes (replicate n CHR ''/'' @ path_join_comps cs) = n"
proof -
  obtain s where s: "path_join_comps cs = s" "take 1 s \<noteq> ''/''" using join_hd [OF assms(1)] by blast
  consider "n = 0" | "n = 1" | "n = 2" using assms(2) by linarith
  then show ?thesis
    using s by cases (cases s; auto simp: initial_slashes_def numeral_eq_Suc)+
qed

lemma fold_normpath_blank: "fold (normpath_step r) (replicate n [] @ cs) acc = fold (normpath_step r) cs acc"
  by (induction n) (auto simp: normpath_step_def)

lemma py_normpath_normal:
  assumes "norm_comps (n > 0) cs" "n \<le> 2" "result = replicate n CHR ''/'' @ path_join_comps cs"
    "result \<noteq> []"
  shows "py_normpath result = result"
proof -
  have sl: "initial_slashes result = n" using assms(1,2,3) initial_slashes_join by blast
  have "fold (normpath_step (n > 0)) (py_split CHR ''/'' result) [] = rev cs"
  proof (cases "cs = []")
    case True
    have "py_split CHR ''/'' result = replicate n [] @ [[]]"
      using True assms(3) py_split_slashes [of n "[]"] by simp
    then show ?thesis using True by (simp only: fold_normpath_blank) (simp add: normpath_step_def)
  next
    case False
    then have "py_split CHR ''/'' result = replicate n [] @ cs"
      using assms(1,3) by (auto simp: py_split_slashes py_split_join norm_comps_def)
    with fold_normpath_id [of "n > 0" "[]" cs] assms(1) show ?thesis
      by (simp only: fold_normpath_blank) simp
  qed
  with sl assms(3,4) show ?thesis by (simp add: py_normpath_def Let_def)
qed

lemma py_normpath_idem: "py_normpath (py_normpath p) = py_normpath p"
proof (cases "p = []")
  case True
  then show ?thesis by (simp add: py_normpath_def initial_slashes_def normpath_step_def Let_def)
next
  case False
  define n cs where "n = initial_slashes p"
    and "cs = rev (fold (normpath_step (n > 0)) (py_split CHR ''/'' p) [])"
  have cs: "norm_comps (n > 0) cs"
    unfolding cs_def by (rule fold_normpath) (auto dest: py_split_comps simp: norm_comps_def)
  define result where "result = replicate n CHR ''/'' @ path_join_comps cs"
  have p: "py_normpath p = (if result = [] then ''.'' else result)"
    unfolding py_normpath_def Let_def result_def cs_def n_def by (simp only: False if_False)
  show ?thesis
  proof (cases "result = []")
    case True
    with p show ?thesis by (simp add: py_normpath_def initial_slashes_def normpath_step_def Let_def)
  next
    case False
    with p py_normpath_normal [OF cs _ result_def] initial_slashes_le show ?thesis
      by (simp add: n_def)
  qed
qed

section \<open>Properties\<close>

text \<open>Round trip of owner tokens, and who may judge them. A token minted with a nonce without a
  colon parses back to its nonce, the sanitized host and boot id, and the PID. This process may
  judge the owner's liveness exactly when its own sanitized host and boot id are those of the token.
\<close>

theorem owner_token_roundtrip:
  assumes "CHR '':'' \<notin> set nonce" "host \<noteq> []" "boot \<noteq> []"
  shows "parse_lease_owner (make_lease_owner_token nonce gh cb pid (Some host) (Some boot)) =
      \<lparr>lo_nonce = nonce, lo_hostname = token_safe host, lo_boot_id = token_safe boot, lo_pid = Some pid\<rparr> \<and>
    (lease_owner_is_locally_evaluable gh' cb'
       (parse_lease_owner (make_lease_owner_token nonce gh cb pid (Some host) (Some boot)))
       (Some host') (Some boot') \<longleftrightarrow>
     token_safe host = token_safe host' \<and> token_safe boot = token_safe boot')"
proof -
  have "make_lease_owner_token nonce gh cb pid (Some host) (Some boot) =
      nonce @ '':'' @ token_safe host @ '':'' @ token_safe boot @ '':'' @ show_int pid"
    using assms by (simp add: make_lease_owner_token_def resolve_host_def Let_def)
  with assms parse_made_token [OF assms(1), of host boot pid] show ?thesis
    by (simp add: lease_owner_is_locally_evaluable_def resolve_host_def)
qed

theorem owner_token_roundtrip_witness:
  "parse_lease_owner (make_lease_owner_token ''9f'' None ''b'' 42 (Some ''c1:x'') (Some ''b0'')) =
      \<lparr>lo_nonce = ''9f'', lo_hostname = token_safe ''c1:x'', lo_boot_id = token_safe ''b0'', lo_pid = Some 42\<rparr> \<and>
    (lease_owner_is_locally_evaluable None ''b''
       (parse_lease_owner (make_lease_owner_token ''9f'' None ''b'' 42 (Some ''c1:x'') (Some ''b0'')))
       (Some ''c2'') (Some ''b0'') \<longleftrightarrow>
     token_safe ''c1:x'' = token_safe ''c2'' \<and> token_safe ''b0'' = token_safe ''b0'')"
  by (rule owner_token_roundtrip) simp_all

text \<open>
  Ingest identities are canonical. The identity of a path is a fixed point of path
  normalization, so an identity taken again from an identity without outer white space is itself,
  and only a blank path is refused.
\<close>

theorem ingest_identity_canonical:
  "(case ingest_identity path of
      Inl e \<Rightarrow> e = ValueError \<and> py_strip path = []
    | Inr ident \<Rightarrow> py_strip path \<noteq> [] \<and> py_normpath ident = ident \<and> ident \<noteq> [] \<and>
        (py_strip ident = ident \<longrightarrow> ingest_identity ident = Inr ident))"
proof -
  have ne: "py_normpath s \<noteq> []" for s by (simp add: py_normpath_def Let_def)
  show ?thesis
    using ne by (auto simp: ingest_identity_def Let_def py_normpath_idem split: sum.splits if_splits)
qed

theorem ingest_identity_canonical_witness:
  "(case ingest_identity '' /a/./b/../c '' of
      Inl e \<Rightarrow> e = ValueError \<and> py_strip '' /a/./b/../c '' = []
    | Inr ident \<Rightarrow> py_strip '' /a/./b/../c '' \<noteq> [] \<and> py_normpath ident = ident \<and> ident \<noteq> [] \<and>
        (py_strip ident = ident \<longrightarrow> ingest_identity ident = Inr ident)) \<and>
   ingest_identity '' /a/./b/../c '' = Inr ''/a/c''"
proof -
  have "ingest_identity '' /a/./b/../c '' = Inr ''/a/c''" by code_simp
  with ingest_identity_canonical [of "'' /a/./b/../c ''"] show ?thesis by simp
qed

end
