(* ===== verification/Persistence.thy ===== *)
theory Persistence
  imports Py_Prelude "HOL-Library.Sublist"
begin

text \<open>
  The versioned sidecar documents of \<open>dbload/lib/sync_timedb_persistence.py\<close>, with the manifest
  registry of \<open>sync_timedb_manifest_contract.py\<close>: paths, envelopes, validation, load and save,
  and the contract file whose version mismatch resets every sidecar. A file system is a map from
  paths to parsed contents; \<open>Garbage\<close> is a file that is no JSON. Logging is left out.
\<close>

section \<open>JSON values and files\<close>

datatype json = JNull | JBool bool | JNum rat | JStr string | JList "json list"
  | JObj "(string \<times> json) list"

datatype content = Json json | Garbage

type_synonym fsys = "string \<Rightarrow> content option"

text \<open>Which paths the process may write and remove: every other attempt raises \<open>OSError\<close>.\<close>

record io_env =
  can_write :: "string \<Rightarrow> bool"
  can_unlink :: "string \<Rightarrow> bool"

text \<open>\<open>d.get(k)\<close> on a parsed object, truth values, and \<open>int(x)\<close>.\<close>

definition jget :: "(string, json) dict \<Rightarrow> string \<Rightarrow> json" where
  "jget d k = (case map_of d k of None \<Rightarrow> JNull | Some v \<Rightarrow> v)"

fun json_truthy :: "json \<Rightarrow> bool" where
  "json_truthy JNull = False"
| "json_truthy (JBool b) = b"
| "json_truthy (JNum r) = (r \<noteq> 0)"
| "json_truthy (JStr s) = (s \<noteq> [])"
| "json_truthy (JList xs) = (xs \<noteq> [])"
| "json_truthy (JObj kvs) = (kvs \<noteq> [])"

definition json_or :: "json \<Rightarrow> json \<Rightarrow> json" where
  "json_or a b = (if json_truthy a then a else b)"

fun json_int :: "json \<Rightarrow> py_error + int" where
  "json_int (JNum r) = Inr (py_trunc r)"
| "json_int (JBool b) = Inr (if b then 1 else 0)"
| "json_int (JStr s) = (case py_int s of None \<Rightarrow> Inl ValueError | Some i \<Rightarrow> Inr i)"
| "json_int _ = Inl TypeError"

fun is_jobj :: "json \<Rightarrow> bool" where
  "is_jobj (JObj _) = True"
| "is_jobj _ = False"

fun is_jlist :: "json \<Rightarrow> bool" where
  "is_jlist (JList _) = True"
| "is_jlist _ = False"

fun jobj_items :: "json \<Rightarrow> (string, json) dict" where
  "jobj_items (JObj kvs) = kvs"
| "jobj_items _ = []"

text \<open>\<open>list(x or [])\<close> and \<open>dict(x or {})\<close>; a \<open>dict\<close> from a list of pairs does not occur.\<close>

fun json_list :: "json \<Rightarrow> py_error + json list" where
  "json_list (JList xs) = Inr xs"
| "json_list (JObj kvs) = Inr (map (JStr \<circ> fst) kvs)"
| "json_list (JStr s) = Inr (map (\<lambda>c. JStr [c]) s)"
| "json_list j = (if json_truthy j then Inl TypeError else Inr [])"

definition json_dict :: "json \<Rightarrow> py_error + json" where
  "json_dict j = (if \<not> json_truthy j then Inr (JObj []) else if is_jobj j then Inr j else Inl TypeError)"

text \<open>\<open>json.dump(..., sort_keys=True)\<close> writes the keys of every object in order.\<close>

primrec json_sort_keys :: "json \<Rightarrow> json" where
  "json_sort_keys JNull = JNull"
| "json_sort_keys (JBool b) = JBool b"
| "json_sort_keys (JNum r) = JNum r"
| "json_sort_keys (JStr s) = JStr s"
| "json_sort_keys (JList xs) = JList (map json_sort_keys xs)"
| "json_sort_keys (JObj kvs) = JObj (sort_key fst (map (map_prod id json_sort_keys) kvs))"

definition py_path_join :: "string \<Rightarrow> string \<Rightarrow> string" where
  "py_path_join a b =
     (if take 1 b = ''/'' then b
      else if a = [] \<or> last a = CHR ''/'' then a @ b
      else a @ ''/'' @ b)"

section \<open>Constants\<close>

definition SYNC_TIMEDB_PERSISTENCE_CONTRACT_VERSION :: int where
  "SYNC_TIMEDB_PERSISTENCE_CONTRACT_VERSION = 9"

definition PERSISTENCE_CONTRACT_BASENAME :: string where
  "PERSISTENCE_CONTRACT_BASENAME = ''.sync_timedb_persistence.json''"

definition LEGACY_ORPHAN_ARTIFACT_PATHS :: "string list" where
  "LEGACY_ORPHAN_ARTIFACT_PATHS =
     [''.sync_timedb_startup_tar_seal.json'', ''.sync_timedb_startup_raw_removal.json'']"

definition PERSISTENCE_ARTIFACT_REGISTRY :: "(string, string) dict" where
  "PERSISTENCE_ARTIFACT_REGISTRY =
    [(''ingest_checkpoint'', ''.sync_timedb_state.json''),
     (''archive_dead_letter'', ''.sync_timedb_dead_letter.json''),
     (''queue_dead_letter'', ''.sync_timedb_queue_dead_letter.json''),
     (''archive_maint_hints'', ''.sync_archive_maint_hints.json''),
     (''day_close_manifest'', ''.sync_timedb_async_day_close.json''),
     (''day_raw_removal_dir'', ''.sync_timedb_day_raw_removal''),
     (''unparsable_raw'', ''.sync_timedb_unparsable_raw.json''),
     (''zero_host_ingest_mark'', ''.sync_timedb_zero_host_ingest_mark.json''),
     (''file_complete_ingest_mark'', ''.sync_timedb_file_complete_ingest_mark.json''),
     (''job_store_snapshot'', ''.sync_timedb_job_store.json''),
     (''archive_members_store_dir'', ''.sync_timedb_archive_members'')]"

text \<open>The registry entries that are directories, as \<open>reset_sync_timedb_persistence\<close> lists them.\<close>

definition TREE_KINDS :: "string list" where
  "TREE_KINDS = [''day_raw_removal_dir'', ''archive_members_store_dir'']"

definition MAINT_HINTS_SCHEMA_VERSION :: int where
  "MAINT_HINTS_SCHEMA_VERSION = 2"

definition KIND_SCHEMA_VERSION :: "(string, int) dict" where
  "KIND_SCHEMA_VERSION =
    [(''ingest_checkpoint'', 1), (''archive_dead_letter'', 1), (''queue_dead_letter'', 1),
     (''unparsable_raw'', 1), (''archive_maint_hints'', 2), (''day_close_manifest'', 1),
     (''day_raw_removal'', 1), (''zero_host_ingest_mark'', 1), (''file_complete_ingest_mark'', 1),
     (''job_store_snapshot'', 1), (''sealed_member_map'', 1)]"

definition LIST_ENTRY_KINDS :: "string list" where
  "LIST_ENTRY_KINDS =
    [''ingest_checkpoint'', ''archive_dead_letter'', ''queue_dead_letter'', ''unparsable_raw'']"

definition MANIFEST_KINDS :: "string list" where
  "MANIFEST_KINDS = [''day_close_manifest'', ''day_raw_removal'']"

definition DICT_ENTRIES_KINDS :: "string list" where
  "DICT_ENTRIES_KINDS =
    [''zero_host_ingest_mark'', ''file_complete_ingest_mark'', ''sealed_member_map'']"

definition DICT_PASSTHROUGH_KINDS :: "string list" where
  "DICT_PASSTHROUGH_KINDS =
    [''archive_maint_hints'', ''day_close_manifest'', ''day_raw_removal'',
     ''zero_host_ingest_mark'', ''file_complete_ingest_mark'', ''sealed_member_map'']"

text \<open>\<open>_KIND_LOAD_DEFAULT_FACTORY\<close>: the default of a kind with no factory is \<open>None\<close> too.\<close>

definition kind_load_default :: "string \<Rightarrow> json" where
  "kind_load_default kind =
    (if kind \<in> set LIST_ENTRY_KINDS then JList []
     else if kind = ''zero_host_ingest_mark'' \<or> kind = ''file_complete_ingest_mark''
       then JObj [(''entries'', JObj [])]
     else if kind = ''job_store_snapshot'' then
       JObj [(''ingest'', JObj []), (''lists'', JObj []), (''pending'', JObj []),
             (''payloads'', JObj [])]
     else JNull)"

section \<open>The manifest registry\<close>

definition RAW_REMOVAL_PHASES :: "string list" where
  "RAW_REMOVAL_PHASES = [''verifying'', ''verification_complete'', ''deleting'', ''done'']"

definition MANIFEST_REQUIRED_TOP_LEVEL :: "(string, string list) dict" where
  "MANIFEST_REQUIRED_TOP_LEVEL =
    [(''day_raw_removal'', [''phase'', ''tar_path'']), (''day_close_manifest'', [''entries'']),
     (''archive_maint_hints'', [''version''])]"

text \<open>\<open>str(phase)\<close> of a value that is no string is never the name of a phase.\<close>

fun manifest_phase_is_valid :: "string \<Rightarrow> json \<Rightarrow> bool" where
  "manifest_phase_is_valid kind phase =
     (if kind = ''day_raw_removal''
      then (case phase of JStr s \<Rightarrow> s \<in> set RAW_REMOVAL_PHASES | _ \<Rightarrow> False)
      else True)"

definition validate_manifest_payload :: "string \<Rightarrow> json \<Rightarrow> bool" where
  "validate_manifest_payload kind payload =
     (if \<not> is_jobj payload then False
      else (case map_of MANIFEST_REQUIRED_TOP_LEVEL kind of
          None \<Rightarrow> True
        | Some required \<Rightarrow>
            if \<not> list_all (\<lambda>key. key \<in> dict_keys (jobj_items payload)) required then False
            else let phase = jget (jobj_items payload) ''phase''
                 in \<not> (phase \<noteq> JNull \<and> \<not> manifest_phase_is_valid kind phase)))"

section \<open>Paths, raw reads and atomic writes\<close>

definition persistence_contract_path :: "string \<Rightarrow> string" where
  "persistence_contract_path archive_data_dir =
     py_path_join archive_data_dir PERSISTENCE_CONTRACT_BASENAME"

definition artifact_path :: "string \<Rightarrow> string \<Rightarrow> py_error + string" where
  "artifact_path archive_data_dir kind =
     (case map_of PERSISTENCE_ARTIFACT_REGISTRY kind of
        None \<Rightarrow> Inl KeyError
      | Some rel \<Rightarrow> Inr (py_path_join archive_data_dir rel))"

definition read_json_file :: "fsys \<Rightarrow> string \<Rightarrow> json" where
  "read_json_file fs path = (case fs path of Some (Json j) \<Rightarrow> j | _ \<Rightarrow> JNull)"

text \<open>A temporary file is renamed over the target: the old content or the new one, nothing else.\<close>

definition save_json_atomic :: "io_env \<Rightarrow> string \<Rightarrow> json \<Rightarrow> bool \<Rightarrow> fsys \<Rightarrow> py_error + fsys" where
  "save_json_atomic io path payload compact_json fs =
     (if can_write io path
      then Inr (fs(path \<mapsto> Json (if compact_json then json_sort_keys payload else payload)))
      else Inl OSError)"

definition unlink_path :: "io_env \<Rightarrow> string \<Rightarrow> fsys \<Rightarrow> fsys" where
  "unlink_path io path fs = (if can_unlink io path then fs(path := None) else fs)"

text \<open>A directory is known by the files below it.\<close>

definition unlink_tree :: "io_env \<Rightarrow> string \<Rightarrow> fsys \<Rightarrow> fsys" where
  "unlink_tree io path fs =
     (\<lambda>p. if (p = path \<or> prefix (path @ ''/'') p) \<and> can_unlink io p then None else fs p)"

definition reset_sync_timedb_persistence :: "io_env \<Rightarrow> string \<Rightarrow> fsys \<Rightarrow> fsys" where
  "reset_sync_timedb_persistence io archive_data_dir fs =
     (if archive_data_dir = [] then fs
      else
        let fs1 = fold (\<lambda>(kind, rel) f.
              let path = py_path_join archive_data_dir rel in
              if kind \<in> set TREE_KINDS
              then unlink_tree io path f else unlink_path io path f)
              PERSISTENCE_ARTIFACT_REGISTRY fs;
            fs2 = fold (\<lambda>rel f. unlink_path io (py_path_join archive_data_dir rel) f)
              LEGACY_ORPHAN_ARTIFACT_PATHS fs1
        in unlink_path io (persistence_contract_path archive_data_dir) fs2)"

section \<open>The contract file\<close>

definition read_contract_version :: "fsys \<Rightarrow> string \<Rightarrow> int option" where
  "read_contract_version fs archive_data_dir =
     (let raw = read_json_file fs (persistence_contract_path archive_data_dir) in
      if \<not> is_jobj raw then None
      else (case json_int (jget (jobj_items raw) ''contract_version'') of
              Inl _ \<Rightarrow> None | Inr v \<Rightarrow> Some v))"

definition contract_payload :: "rat \<Rightarrow> json" where
  "contract_payload now = JObj
     [(''contract_version'', JNum (of_int SYNC_TIMEDB_PERSISTENCE_CONTRACT_VERSION)),
      (''written_at'', JNum now)]"

text \<open>The result tells whether a reset ran; a failed write leaves the file system as it was then.\<close>

definition ensure_persistence_contract ::
    "io_env \<Rightarrow> rat \<Rightarrow> string \<Rightarrow> bool \<Rightarrow> fsys \<Rightarrow> (py_error + bool) \<times> fsys" where
  "ensure_persistence_contract io now archive_data_dir allow_reset fs =
     (if archive_data_dir = [] then (Inr False, fs)
      else
        let on_disk = read_contract_version fs archive_data_dir;
            path = persistence_contract_path archive_data_dir in
        if on_disk = Some SYNC_TIMEDB_PERSISTENCE_CONTRACT_VERSION then (Inr False, fs)
        else if \<not> allow_reset then
          (if on_disk = None then
             (case save_json_atomic io path (contract_payload now) False fs of
                Inl e \<Rightarrow> (Inl e, fs) | Inr fs' \<Rightarrow> (Inr False, fs'))
           else (Inl ContractMismatchError, fs))
        else
          let fs1 = reset_sync_timedb_persistence io archive_data_dir fs in
          (case save_json_atomic io path (contract_payload now) False fs1 of
             Inl e \<Rightarrow> (Inl e, fs1) | Inr fs2 \<Rightarrow> (Inr True, fs2)))"

section \<open>Envelopes\<close>

definition expected_schema_version :: "string \<Rightarrow> int option" where
  "expected_schema_version kind = map_of KIND_SCHEMA_VERSION kind"

definition persistence_schema_version_ok ::
    "(string, json) dict \<Rightarrow> int option \<Rightarrow> int list \<Rightarrow> bool \<Rightarrow> bool" where
  "persistence_schema_version_ok raw expected allowed version_key_fallback =
     (case expected of
        None \<Rightarrow> True
      | Some ex \<Rightarrow>
          let schema0 = jget raw ''schema_version'';
              schema = (if schema0 = JNull \<and> version_key_fallback then jget raw ''version'' else schema0)
          in if schema = JNull then True
             else (case json_int schema of
                     Inl _ \<Rightarrow> False
                   | Inr i \<Rightarrow> i \<in> set (ex # allowed)))"

definition validate_envelope :: "json \<Rightarrow> string \<Rightarrow> bool" where
  "validate_envelope raw kind =
     (let expected = expected_schema_version kind; obj = jobj_items raw in
      if raw = JNull then False
      else if kind \<in> set LIST_ENTRY_KINDS then
        (if is_jlist raw then True
         else if \<not> is_jobj raw then False
         else if \<not> persistence_schema_version_ok obj expected [] False then False
         else is_jlist (jget obj ''entries''))
      else if kind = ''archive_maint_hints'' then
        (if \<not> is_jobj raw then False
         else persistence_schema_version_ok obj expected [1] True)
      else if kind \<in> set MANIFEST_KINDS then
        (if \<not> is_jobj raw then False
         else if \<not> persistence_schema_version_ok obj expected [] True then False
         else validate_manifest_payload kind raw)
      else if kind \<in> set DICT_ENTRIES_KINDS then
        (if \<not> is_jobj raw then False
         else if \<not> persistence_schema_version_ok obj expected [] False then False
         else jget obj ''entries'' = JNull \<or> is_jobj (jget obj ''entries''))
      else if kind = ''job_store_snapshot'' then
        (if \<not> is_jobj raw then False
         else if \<not> persistence_schema_version_ok obj expected [] False then False
         else jget obj ''ingest'' = JNull \<or> is_jobj (jget obj ''ingest''))
      else True)"

definition unwrap_envelope :: "json \<Rightarrow> string \<Rightarrow> json" where
  "unwrap_envelope raw kind =
     (let obj = jobj_items raw in
      if kind \<in> set LIST_ENTRY_KINDS then
        (if is_jlist raw then raw
         else if is_jobj raw \<and> is_jlist (jget obj ''entries'') then jget obj ''entries''
         else JNull)
      else if kind \<in> set DICT_PASSTHROUGH_KINDS then (if is_jobj raw then raw else JNull)
      else if kind = ''job_store_snapshot'' then
        (if is_jobj raw then
           JObj [(''ingest'', json_or (jget obj ''ingest'') (JObj [])),
                 (''lists'', json_or (jget obj ''lists'') (JObj [])),
                 (''pending'', json_or (jget obj ''pending'') (JObj [])),
                 (''payloads'', json_or (jget obj ''payloads'') (JObj []))]
         else JNull)
      else raw)"

definition load_persistence_document :: "fsys \<Rightarrow> string \<Rightarrow> string \<Rightarrow> json \<Rightarrow> json" where
  "load_persistence_document fs path kind default0 =
     (let default = (if default0 = JNull then kind_load_default kind else default0) in
      if path = [] \<or> fs path = None then default
      else let raw = read_json_file fs path in
        if \<not> validate_envelope raw kind then default
        else let unwrapped = unwrap_envelope raw kind in
          if unwrapped = JNull then default else unwrapped)"

definition dict_setdefault :: "'k \<Rightarrow> 'v \<Rightarrow> ('k, 'v) dict \<Rightarrow> ('k, 'v) dict" where
  "dict_setdefault k v d = (if k \<in> dict_keys d then d else AList.update k v d)"

text \<open>The document \<open>save_persistence_document\<close> hands to \<open>_save_json_atomic\<close>.\<close>

definition job_snapshot_envelope :: "(string, json) dict \<Rightarrow> py_error + json" where
  "job_snapshot_envelope obj =
     (case (json_dict (jget obj ''ingest''), json_dict (jget obj ''lists''),
            json_dict (jget obj ''pending''), json_dict (jget obj ''payloads'')) of
        (Inr a, Inr b, Inr c, Inr d) \<Rightarrow> Inr (JObj
          [(''contract_version'', JNum (of_int SYNC_TIMEDB_PERSISTENCE_CONTRACT_VERSION)),
           (''schema_version'', JNum 1), (''ingest'', a), (''lists'', b), (''pending'', c),
           (''payloads'', d)])
      | _ \<Rightarrow> Inl TypeError)"

definition persistence_envelope :: "string \<Rightarrow> json \<Rightarrow> py_error + json" where
  "persistence_envelope kind payload =
     (let cv = JNum (of_int SYNC_TIMEDB_PERSISTENCE_CONTRACT_VERSION);
          sv = (case map_of KIND_SCHEMA_VERSION kind of
                  None \<Rightarrow> JNull | Some v \<Rightarrow> JNum (of_int v));
          obj = jobj_items payload in
      if kind \<in> set LIST_ENTRY_KINDS then
        map_sum id (\<lambda>es. JObj [(''contract_version'', cv), (''schema_version'', sv),
              (''entries'', JList es)]) (json_list payload)
      else if kind = ''archive_maint_hints'' then
        Inr (JObj (AList.delete ''version''
          (dict_setdefault ''schema_version'' (JNum (of_int MAINT_HINTS_SCHEMA_VERSION))
            (AList.update ''contract_version'' cv obj))))
      else if kind \<in> set MANIFEST_KINDS then
        Inr (JObj (dict_setdefault ''schema_version'' (JNum 1)
          (AList.update ''contract_version'' cv obj)))
      else if kind \<in> set DICT_ENTRIES_KINDS then
        (let p1 = dict_setdefault ''schema_version'' sv (AList.update ''contract_version'' cv obj)
         in Inr (JObj (if is_jobj (jget p1 ''entries'') then p1
                       else AList.update ''entries'' (JObj []) p1)))
      else if kind = ''job_store_snapshot'' then job_snapshot_envelope obj
      else Inr payload)"

definition save_persistence_document ::
    "io_env \<Rightarrow> string \<Rightarrow> string \<Rightarrow> json \<Rightarrow> bool \<Rightarrow> fsys \<Rightarrow> py_error + fsys" where
  "save_persistence_document io path kind payload compact_json fs =
     (case persistence_envelope kind payload of
        Inl e \<Rightarrow> Inl e
      | Inr envelope \<Rightarrow> save_json_atomic io path envelope compact_json fs)"


section \<open>Lemmas\<close>

lemmas kind_defs = LIST_ENTRY_KINDS_def MANIFEST_KINDS_def DICT_ENTRIES_KINDS_def
  DICT_PASSTHROUGH_KINDS_def

subsection \<open>What sorting the keys preserves\<close>

lemma json_sort_eq_simps [simp]:
  "json_sort_keys j = JNull \<longleftrightarrow> j = JNull" "JNull = json_sort_keys j \<longleftrightarrow> j = JNull"
  "is_jobj (json_sort_keys j) = is_jobj j" "is_jlist (json_sort_keys j) = is_jlist j"
  by (cases j; simp)+

lemma json_int_sort [simp]: "json_int (json_sort_keys j) = json_int j"
  by (cases j) auto

lemma json_truthy_sort [simp]: "json_truthy (json_sort_keys j) = json_truthy j"
  by (cases j) (auto dest: arg_cong [where f = length])

lemma phase_valid_sort [simp]:
  "manifest_phase_is_valid kind (json_sort_keys j) = manifest_phase_is_valid kind j"
  by (cases j) auto

lemma dict_wf_map_prod: "dict_wf d \<Longrightarrow> dict_wf (map (map_prod id f) d)"
  by (simp add: o_def)

lemma dict_wf_sort: "dict_wf (sort_key fst d) = dict_wf d"
  by (simp add: distinct_map)

lemma jget_sort:
  assumes "dict_wf d"
  shows "jget (jobj_items (json_sort_keys (JObj d))) k = json_sort_keys (jget d k)"
proof -
  have "map_of (sort_key fst (map (map_prod id json_sort_keys) d)) k =
      map_option json_sort_keys (map_of d k)"
    unfolding map_of_sort_key [OF dict_wf_map_prod [OF assms]]
    by (simp add: map_prod_def map_of_map)
  then show ?thesis by (simp add: jget_def split: option.splits)
qed

lemma keys_sort [simp]: "dict_keys (jobj_items (json_sort_keys (JObj d))) = dict_keys d"
  by (force simp: map_prod_def)

lemma schema_ok_sort:
  assumes "dict_wf d"
  shows "persistence_schema_version_ok (jobj_items (json_sort_keys (JObj d))) ex al fb =
    persistence_schema_version_ok d ex al fb"
proof -
  note g = jget_sort [OF assms]
  show ?thesis
    unfolding persistence_schema_version_ok_def g by (simp add: Let_def cong: if_cong split: option.splits)
qed

lemma validate_manifest_sort:
  assumes "dict_wf d"
  shows "validate_manifest_payload kind (json_sort_keys (JObj d)) =
    validate_manifest_payload kind (JObj d)"
proof -
  note g = jget_sort [OF assms]
  show ?thesis
    unfolding validate_manifest_payload_def g keys_sort
    by (simp add: Let_def split: option.splits del: manifest_phase_is_valid.simps json_sort_keys.simps)
qed

lemma validate_envelope_sort:
  assumes "dict_wf d"
  shows "validate_envelope (json_sort_keys (JObj d)) kind = validate_envelope (JObj d) kind"
proof -
  note g = jget_sort [OF assms] schema_ok_sort [OF assms] validate_manifest_sort [OF assms]
  show ?thesis
    unfolding validate_envelope_def Let_def g by (simp del: json_sort_keys.simps add: kind_defs)
qed

lemma unwrap_envelope_sort:
  assumes "dict_wf d" "kind \<noteq> ''job_store_snapshot''"
  shows "unwrap_envelope (json_sort_keys (JObj d)) kind = json_sort_keys (unwrap_envelope (JObj d) kind)"
proof -
  note g = jget_sort [OF assms(1)]
  show ?thesis
    unfolding unwrap_envelope_def Let_def g using assms(2)
    by (simp del: json_sort_keys.simps add: kind_defs)
qed

lemma json_or_sort: "json_or (json_sort_keys a) (JObj []) = json_sort_keys (json_or a (JObj []))"
  by (simp add: json_or_def)

text \<open>A validated envelope is read back as its unwrapped, key-sorted payload.\<close>

lemma load_saved_envelope:
  assumes "path \<noteq> []" "dict_wf d" "validate_envelope (JObj d) kind"
    "kind \<noteq> ''job_store_snapshot''"
    "unwrap_envelope (JObj d) kind = r" "r \<noteq> JNull"
  shows "load_persistence_document (fs(path \<mapsto> Json (json_sort_keys (JObj d)))) path kind df
    = json_sort_keys r"
  using assms validate_envelope_sort [OF assms(2), of kind]
    unwrap_envelope_sort [OF assms(2,4)]
  by (simp add: load_persistence_document_def read_json_file_def Let_def del: json_sort_keys.simps)

lemma persistence_envelope_list:
  assumes "kind \<in> set LIST_ENTRY_KINDS"
  shows "persistence_envelope kind (JList es) = Inr (JObj
    [(''contract_version'', JNum (of_int SYNC_TIMEDB_PERSISTENCE_CONTRACT_VERSION)),
     (''schema_version'', JNum 1), (''entries'', JList es)])"
  using assms
  by (auto simp: persistence_envelope_def kind_defs Let_def KIND_SCHEMA_VERSION_def)

lemma validate_envelope_list:
  assumes "kind \<in> set LIST_ENTRY_KINDS"
  shows "validate_envelope (JObj [(''contract_version'', cv), (''schema_version'', JNum 1),
      (''entries'', JList es)]) kind"
  using assms
  by (auto simp: validate_envelope_def kind_defs Let_def KIND_SCHEMA_VERSION_def jget_def
      expected_schema_version_def persistence_schema_version_ok_def py_trunc_def)

lemma load_saved_list:
  assumes "kind \<in> set LIST_ENTRY_KINDS" "path \<noteq> []" "can_write io path"
  shows "\<exists>fs'. save_persistence_document io path kind (JList es) True fs = Inr fs' \<and>
    load_persistence_document fs' path kind df = JList (map json_sort_keys es) \<and>
    (\<forall>p. p \<noteq> path \<longrightarrow> fs' p = fs p)"
proof -
  let ?d = "[(''contract_version'', JNum (of_int SYNC_TIMEDB_PERSISTENCE_CONTRACT_VERSION)),
     (''schema_version'', JNum 1), (''entries'', JList es)]"
  let ?fs = "fs(path \<mapsto> Json (json_sort_keys (JObj ?d)))"
  have "save_persistence_document io path kind (JList es) True fs = Inr ?fs"
    using assms by (simp add: save_persistence_document_def persistence_envelope_list
        save_json_atomic_def del: json_sort_keys.simps)
  moreover have "load_persistence_document ?fs path kind df = json_sort_keys (JList es)"
    using assms(1) validate_envelope_list [OF assms(1)]
    by (intro load_saved_envelope assms) (auto simp: unwrap_envelope_def jget_def kind_defs)
  ultimately show ?thesis by simp
qed

subsection \<open>The job snapshot document\<close>

lemma load_saved_snapshot:
  assumes "path \<noteq> []" "can_write io path"
    and obj: "\<forall>k \<in> set [''ingest'', ''lists'', ''pending'', ''payloads'']. is_jobj (jget d k)"
  shows "\<exists>fs'. save_persistence_document io path ''job_store_snapshot'' (JObj d) True fs = Inr fs' \<and>
    load_persistence_document fs' path ''job_store_snapshot'' df =
      JObj (map (\<lambda>k. (k, json_sort_keys (jget d k)))
        [''ingest'', ''lists'', ''pending'', ''payloads'']) \<and>
    (\<forall>p. p \<noteq> path \<longrightarrow> fs' p = fs p)"
proof -
  let ?e = "[(''contract_version'', JNum (of_int SYNC_TIMEDB_PERSISTENCE_CONTRACT_VERSION)),
      (''schema_version'', JNum 1), (''ingest'', jget d ''ingest''), (''lists'', jget d ''lists''),
      (''pending'', jget d ''pending''), (''payloads'', jget d ''payloads'')]"
  let ?fs = "fs(path \<mapsto> Json (json_sort_keys (JObj ?e)))"
  have dict: "json_dict (jget d k) = Inr (jget d k)"
    if "k \<in> set [''ingest'', ''lists'', ''pending'', ''payloads'']" for k
    using that obj by (cases "jget d k") (auto simp: json_dict_def)
  have orj: "json_or (json_sort_keys (jget d k)) (JObj []) = json_sort_keys (jget d k)"
    if "k \<in> set [''ingest'', ''lists'', ''pending'', ''payloads'']" for k
    using that obj by (cases "jget d k") (auto simp: json_or_def)
  have "save_persistence_document io path ''job_store_snapshot'' (JObj d) True fs = Inr ?fs"
    using assms(2) dict
    by (simp add: save_persistence_document_def persistence_envelope_def kind_defs Let_def
        job_snapshot_envelope_def save_json_atomic_def del: json_sort_keys.simps)
  moreover have "validate_envelope (JObj ?e) ''job_store_snapshot''"
    using obj by (simp add: validate_envelope_def kind_defs Let_def KIND_SCHEMA_VERSION_def
        jget_def [of ?e for e] expected_schema_version_def persistence_schema_version_ok_def py_trunc_def)
  then have "validate_envelope (json_sort_keys (JObj ?e)) ''job_store_snapshot''"
    by (subst validate_envelope_sort) auto
  then have "load_persistence_document ?fs path ''job_store_snapshot'' df =
      unwrap_envelope (json_sort_keys (JObj ?e)) ''job_store_snapshot''"
    using assms(1)
    by (simp add: load_persistence_document_def read_json_file_def Let_def unwrap_envelope_def
        kind_defs del: json_sort_keys.simps)
  moreover have wf: "dict_wf ?e" by simp
  have "jget (jobj_items (json_sort_keys (JObj ?e))) k = json_sort_keys (jget d k)"
    if "k \<in> set [''ingest'', ''lists'', ''pending'', ''payloads'']" for k
    unfolding jget_sort [OF wf] using that by (auto simp: jget_def [of ?e for e])
  then have "unwrap_envelope (json_sort_keys (JObj ?e)) ''job_store_snapshot'' =
      JObj (map (\<lambda>k. (k, json_sort_keys (jget d k)))
        [''ingest'', ''lists'', ''pending'', ''payloads''])"
    using orj by (simp add: unwrap_envelope_def kind_defs Let_def del: json_sort_keys.simps)
  ultimately show ?thesis by simp
qed

subsection \<open>The contract file\<close>

text \<open>
  What a reset may touch: the registered sidecars, the legacy ones, the contract file, and
  everything below the two registered directories.
\<close>

definition sidecar_path :: "string \<Rightarrow> string \<Rightarrow> bool" where
  "sidecar_path dir p \<longleftrightarrow>
     (\<exists>(kind, rel) \<in> set PERSISTENCE_ARTIFACT_REGISTRY. p = py_path_join dir rel \<or>
        kind \<in> set TREE_KINDS \<and>
        prefix (py_path_join dir rel @ ''/'') p) \<or>
     (\<exists>rel \<in> set LEGACY_ORPHAN_ARTIFACT_PATHS. p = py_path_join dir rel) \<or>
     p = persistence_contract_path dir"

lemma unlink_path_apply:
  "unlink_path io path fs p = (if p = path \<and> can_unlink io p then None else fs p)"
  by (auto simp: unlink_path_def)

lemma unlink_tree_apply:
  "unlink_tree io path fs p =
     (if (p = path \<or> prefix (path @ ''/'') p) \<and> can_unlink io p then None else fs p)"
  by (simp add: unlink_tree_def)

lemma fold_unlink_paths:
  "fold (\<lambda>rel f. unlink_path io (g rel) f) xs fs p =
     (if (\<exists>rel \<in> set xs. p = g rel) \<and> can_unlink io p then None else fs p)"
  by (induction xs arbitrary: fs) (auto simp: unlink_path_apply)

lemma fold_unlink_artifacts:
  "fold (\<lambda>(kind, rel) f. if kind \<in> D then unlink_tree io (g rel) f else unlink_path io (g rel) f) xs fs p =
     (if (\<exists>(kind, rel) \<in> set xs. p = g rel \<or> kind \<in> D \<and> prefix (g rel @ ''/'') p) \<and> can_unlink io p
      then None else fs p)"
  by (induction xs arbitrary: fs) (auto simp: unlink_path_apply unlink_tree_apply split: if_splits)

lemma reset_apply:
  assumes "dir \<noteq> []"
  shows "reset_sync_timedb_persistence io dir fs p =
    (if sidecar_path dir p \<and> can_unlink io p then None else fs p)"
proof -
  let ?fs1 = "fold (\<lambda>(kind, rel) f. if kind \<in> set TREE_KINDS
      then unlink_tree io (py_path_join dir rel) f else unlink_path io (py_path_join dir rel) f)
      PERSISTENCE_ARTIFACT_REGISTRY fs"
  let ?fs2 = "fold (\<lambda>rel f. unlink_path io (py_path_join dir rel) f) LEGACY_ORPHAN_ARTIFACT_PATHS ?fs1"
  have "reset_sync_timedb_persistence io dir fs p =
      unlink_path io (persistence_contract_path dir) ?fs2 p"
    using assms by (simp add: reset_sync_timedb_persistence_def Let_def)
  also have "\<dots> = (if p = persistence_contract_path dir \<and> can_unlink io p then None else ?fs2 p)"
    by (rule unlink_path_apply)
  also have "?fs2 p = (if (\<exists>rel \<in> set LEGACY_ORPHAN_ARTIFACT_PATHS. p = py_path_join dir rel) \<and>
      can_unlink io p then None else ?fs1 p)"
    by (rule fold_unlink_paths)
  also have "?fs1 p = (if (\<exists>(kind, rel) \<in> set PERSISTENCE_ARTIFACT_REGISTRY. p = py_path_join dir rel \<or>
      kind \<in> set TREE_KINDS \<and> prefix (py_path_join dir rel @ ''/'') p) \<and> can_unlink io p
      then None else fs p)"
    by (rule fold_unlink_artifacts)
  finally show ?thesis unfolding sidecar_path_def by argo
qed

lemma read_contract_written [simp]:
  "read_contract_version (fs(persistence_contract_path dir \<mapsto> Json (contract_payload now))) dir =
     Some SYNC_TIMEDB_PERSISTENCE_CONTRACT_VERSION"
  by (simp add: read_contract_version_def read_json_file_def contract_payload_def jget_def Let_def)

section \<open>Properties\<close>

text \<open>Round trip of the list sidecars (checkpoint, dead letters, unparsable files). Saving a list
  of entries succeeds on a writable path, touches no other file, and loading it again gives the
  same entries in the same order, up to the key order inside each entry, whatever the default.
\<close>

theorem list_sidecar_roundtrip:
  assumes "kind \<in> set LIST_ENTRY_KINDS" "path \<noteq> []" "can_write io path"
  shows "\<exists>fs'. save_persistence_document io path kind (JList es) True fs = Inr fs' \<and>
    load_persistence_document fs' path kind df = JList (map json_sort_keys es) \<and>
    (\<forall>p. p \<noteq> path \<longrightarrow> fs' p = fs p)"
  by (rule load_saved_list [OF assms])

theorem list_sidecar_roundtrip_witness:
  "\<exists>fs'. save_persistence_document \<lparr>can_write = \<lambda>p. True, can_unlink = \<lambda>p. True\<rparr> ''/a''
      ''queue_dead_letter'' (JList [JObj [(''kind'', JStr ''ingest''), (''attempt'', JNum 5)]]) True
      (\<lambda>p. None) = Inr fs' \<and>
    load_persistence_document fs' ''/a'' ''queue_dead_letter'' (JList []) =
      JList (map json_sort_keys [JObj [(''kind'', JStr ''ingest''), (''attempt'', JNum 5)]]) \<and>
    (\<forall>p. p \<noteq> ''/a'' \<longrightarrow> fs' p = None)"
  by (rule list_sidecar_roundtrip) (simp_all add: LIST_ENTRY_KINDS_def)

text \<open>The contract gate of the sidecars. With the current version on disk nothing changes. With
  any other state and resets allowed, every sidecar the process may remove is gone, no other file
  is touched, and the contract file holds the current version. With resets refused, a missing
  contract is written and nothing is removed, while a different version raises and changes nothing.
\<close>

theorem ensure_contract_cases:
  assumes "dir \<noteq> []" "can_write io (persistence_contract_path dir)"
    and "ensure_persistence_contract io now dir allow_reset fs = (r, fs')"
  shows "(case read_contract_version fs dir of
      Some v \<Rightarrow>
        if v = SYNC_TIMEDB_PERSISTENCE_CONTRACT_VERSION then r = Inr False \<and> fs' = fs
        else if allow_reset then r = Inr True
        else r = Inl ContractMismatchError \<and> fs' = fs
    | None \<Rightarrow> r = Inr allow_reset) \<and>
    ((\<exists>b. r = Inr b) \<longrightarrow> read_contract_version fs' dir = Some SYNC_TIMEDB_PERSISTENCE_CONTRACT_VERSION) \<and>
    (\<forall>p. p \<noteq> persistence_contract_path dir \<longrightarrow>
      fs' p = (if r = Inr True \<and> sidecar_path dir p \<and> can_unlink io p then None else fs p))"
proof -
  note defs = ensure_persistence_contract_def save_json_atomic_def
  consider (cur) "read_contract_version fs dir = Some SYNC_TIMEDB_PERSISTENCE_CONTRACT_VERSION"
    | (none) "read_contract_version fs dir = None"
    | (other) v where "read_contract_version fs dir = Some v"
        "v \<noteq> SYNC_TIMEDB_PERSISTENCE_CONTRACT_VERSION"
    by (cases "read_contract_version fs dir") auto
  then show ?thesis
  proof cases
    case cur
    with assms show ?thesis by (auto simp: defs)
  next
    case none
    with assms show ?thesis
      by (cases allow_reset) (auto simp: defs Let_def reset_apply)
  next
    case other
    with assms show ?thesis
      by (cases allow_reset) (auto simp: defs Let_def reset_apply)
  qed
qed

theorem ensure_contract_cases_witness:
  "\<exists>fs'. ensure_persistence_contract \<lparr>can_write = \<lambda>p. True, can_unlink = \<lambda>p. True\<rparr> 1 ''/a'' False (\<lambda>p. None) =
      (Inr False, fs') \<and>
    read_contract_version fs' ''/a'' = Some SYNC_TIMEDB_PERSISTENCE_CONTRACT_VERSION"
proof -
  let ?io = "\<lparr>can_write = \<lambda>p. True, can_unlink = \<lambda>p. True\<rparr>"
  obtain r fs' where e: "ensure_persistence_contract ?io 1 ''/a'' False (\<lambda>p. None) = (r, fs')" by fastforce
  have "read_contract_version (\<lambda>p. None) ''/a'' = None" by (simp add: read_contract_version_def read_json_file_def)
  with ensure_contract_cases [OF _ _ e] have "r = Inr False" "\<exists>b. r = Inr b \<Longrightarrow>
      read_contract_version fs' ''/a'' = Some SYNC_TIMEDB_PERSISTENCE_CONTRACT_VERSION" by auto
  with e show ?thesis by auto
qed

end
