(* ===== verification/Write_Behind.thy ===== *)
theory Write_Behind
  imports Py_Prelude
begin

text \<open>
  The write-behind writer of \<open>dbload/lib/sync_timedb_write_behind.py\<close>. Its fields are a record,
  and the methods that take its condition variable once are functions on it. The thread body
  \<open>_main\<close>, the attempt \<open>_attempt\<close> and the waiting in \<open>flush\<close> give that lock up in the middle,
  so they are cut at those points into the steps of a transition system with the clients, whose
  program counter \<open>wb_pc\<close> is the place where the thread stands. A thread or a \<open>flush\<close> that waits on the condition
  variable sleeps until it is notified or its timeout has passed. A thread that has returned can be started again, and
  without a thread \<open>flush\<close> writes on its caller.

  The persisted value is counted: \<open>wm_mem\<close> is the number of changes made in memory,
  \<open>wm_disk\<close> the number of changes the last successful write holds. A change and its
  \<open>mark_dirty\<close> are two steps; \<open>wm_unmarked\<close> counts the changes not yet marked.
\<close>

section \<open>The writer\<close>

record wb_writer =
  wb_dirty :: bool
  wb_gen :: nat
  wb_stop :: bool
  wb_force :: bool
  wb_force_done :: nat
  wb_force_asked :: nat
  wb_error :: bool
  wb_last :: rat
  wb_alive :: bool

definition wb_init :: wb_writer where
  "wb_init = \<lparr>wb_dirty = False, wb_gen = 0, wb_stop = False, wb_force = False, wb_force_done = 0,
     wb_force_asked = 0, wb_error = False, wb_last = 0, wb_alive = False\<rparr>"

definition wb_start :: "rat \<Rightarrow> wb_writer \<Rightarrow> wb_writer" where
  "wb_start now w = (if wb_alive w then w
     else w\<lparr>wb_stop := False, wb_last := now, wb_alive := True\<rparr>)"

definition wb_mark_dirty :: "wb_writer \<Rightarrow> wb_writer" where
  "wb_mark_dirty w = w\<lparr>wb_dirty := True, wb_gen := Suc (wb_gen w)\<rparr>"

definition wb_clear_dirty :: "wb_writer \<Rightarrow> wb_writer" where
  "wb_clear_dirty w = w\<lparr>wb_dirty := False\<rparr>"

text \<open>The part of \<open>flush\<close> before it waits, with a live thread: the ticket is \<open>wb_force_asked\<close>.\<close>

definition wb_flush_request :: "wb_writer \<Rightarrow> wb_writer" where
  "wb_flush_request w =
     w\<lparr>wb_force_asked := Suc (wb_force_asked w), wb_force := True, wb_error := False\<rparr>"

text \<open>The part of \<open>flush\<close> after a wake-up: \<open>None\<close> goes on waiting, \<open>Some False\<close> raises.\<close>

definition wb_flush_wake :: "nat \<Rightarrow> wb_writer \<Rightarrow> bool option" where
  "wb_flush_wake ticket w =
     (if wb_force_done w < ticket then None else Some (\<not> wb_error w))"

definition wb_stop_request :: "bool \<Rightarrow> wb_writer \<Rightarrow> wb_writer" where
  "wb_stop_request final_flush w =
     w\<lparr>wb_stop := True, wb_dirty := (if final_flush then wb_dirty w else False)\<rparr>"

text \<open>The end of \<open>_attempt\<close>: \<open>ok\<close> tells whether \<open>write_fn\<close> returned.\<close>

definition wb_attempt_end :: "bool \<Rightarrow> rat \<Rightarrow> nat \<Rightarrow> wb_writer \<Rightarrow> wb_writer" where
  "wb_attempt_end ok now gen w =
     (if ok then w\<lparr>wb_error := False, wb_last := now,
         wb_dirty := (if wb_gen w = gen then False else wb_dirty w)\<rparr>
      else w\<lparr>wb_error := True\<rparr>)"

text \<open>
  \<open>flush\<close> when no thread is running: refused, or one attempt on the caller, whose error is raised.
\<close>

definition wb_flush_inline :: "bool \<Rightarrow> bool \<Rightarrow> rat \<Rightarrow> wb_writer \<Rightarrow> (py_error + unit) \<times> wb_writer" where
  "wb_flush_inline inline_ok ok now w =
     (if \<not> inline_ok then (Inl RuntimeError, w)
      else let w1 = wb_attempt_end ok now (wb_gen w) w
           in (if wb_error w1 then Inl OSError else Inr (), w1))"

text \<open>
  The inner loop of \<open>_main\<close> at one look at the fields: leave the thread, take a write, or wait.
\<close>

datatype wb_choice = WbReturn | WbBreak | WbWait

definition wb_main_look :: "rat \<Rightarrow> rat \<Rightarrow> wb_writer \<Rightarrow> wb_choice" where
  "wb_main_look interval_s now w =
     (if wb_force w then WbBreak
      else if wb_stop w then (if \<not> wb_dirty w then WbReturn else WbBreak)
      else if wb_dirty w then
        (let left = interval_s - (now - wb_last w) in if left \<le> 0 then WbBreak else WbWait)
      else WbWait)"

text \<open>The end of one round of \<open>_main\<close>; the flag tells whether the thread returns.\<close>

definition wb_main_round_end :: "bool \<Rightarrow> nat \<Rightarrow> wb_writer \<Rightarrow> wb_writer \<times> bool" where
  "wb_main_round_end forced asked w =
     (let w' = (if forced then w\<lparr>wb_force_done := max (wb_force_done w) asked\<rparr> else w)
      in (w', wb_stop w' \<and> wb_error w'))"

section \<open>The transition system\<close>

text \<open>
  An attempt (\<open>_attempt\<close>) by the thread or by a caller of \<open>flush\<close>: it reads the generation, copies the memory, saves the copy
  and notes the outcome. \<open>write_fn\<close> copies and saves; \<open>AtCopied g v\<close> is the time in between.
\<close>

datatype wb_attempt = AtBegin | AtGen nat | AtCopied nat nat | AtWritten nat nat | AtFailed | AtRead

text \<open>
  The thread looks at the fields, waits (the flag tells whether it was notified, the time is its timeout), attempts a write,
  ends the round, has returned but still counts as alive, or is gone.
\<close>

datatype wb_pc = PcLook | PcWait bool "rat option" | PcAttempt bool nat | PcEnd bool nat | PcLeave | PcDone

text \<open>
  \<open>wm_runs 0\<close> is the attempt of the thread, \<open>wm_runs i\<close> that of a caller. \<open>wm_want t\<close> is the number of changes made when ticket \<open>t\<close>
  was asked for, \<open>wm_waiting\<close> the tickets waited for, \<open>wm_asleep\<close> those whose callers have not been notified since they looked, \<open>wm_returned\<close>
  the tickets whose \<open>flush\<close> returned without an error. \<open>wm_dropped\<close> records that \<open>stop(final_flush=False)\<close> or \<open>clear_dirty\<close>
  lowered the flag while the disk did not hold every change.
\<close>

record wb_machine =
  wm_writer :: wb_writer
  wm_pc :: wb_pc
  wm_runs :: "nat \<Rightarrow> wb_attempt option"
  wm_now :: rat
  wm_mem :: nat
  wm_unmarked :: nat
  wm_disk :: nat
  wm_want :: "nat \<Rightarrow> nat"
  wm_waiting :: "nat set"
  wm_asleep :: "nat set"
  wm_returned :: "nat set"
  wm_dropped :: bool

definition wm_init :: "wb_machine" where
  "wm_init = \<lparr>wm_writer = wb_init, wm_pc = PcDone, wm_runs = (\<lambda>_. None), wm_now = 0, wm_mem = 0, wm_unmarked = 0, wm_disk = 0,
     wm_want = (\<lambda>_. 0), wm_waiting = {}, wm_asleep = {}, wm_returned = {}, wm_dropped = False\<rparr>"

text \<open>
  With \<open>wc_serial\<close> nobody asks for a flush while another one is under way. With \<open>wc_locked\<close> the write function holds a lock while it copies
  and saves, as \<open>WriteBehindEntryStore._write\<close> does. With \<open>wc_inline\<close> \<open>flush(inline_ok=True)\<close> is called without a thread.
\<close>

record wb_cfg =
  wc_serial :: bool
  wc_interval :: rat
  wc_locked :: bool
  wc_inline :: bool

text \<open>\<open>notify_all\<close>.\<close>

definition wb_notify :: "wb_machine \<Rightarrow> wb_machine" where
  "wb_notify m = m\<lparr>wm_pc := (case wm_pc m of PcWait n d \<Rightarrow> PcWait True d | p \<Rightarrow> p), wm_asleep := {}\<rparr>"

definition inline_of :: "(nat \<Rightarrow> wb_attempt option) \<Rightarrow> bool" where
  "inline_of f \<longleftrightarrow> (\<exists>i. i \<noteq> 0 \<and> f i \<noteq> None)"

definition inline_runs :: "wb_machine \<Rightarrow> bool" where
  "inline_runs m = inline_of (wm_runs m)"

text \<open>What a lock around the write function allows: nobody else is between copying and saving.\<close>

definition may_copy :: "wb_cfg \<Rightarrow> wb_machine \<Rightarrow> bool" where
  "may_copy c m \<longleftrightarrow> wc_locked c \<longrightarrow> (\<forall>i g v. wm_runs m i \<noteq> Some (AtCopied g v))"

text \<open>The next step of an attempt: what it becomes, and the writer and the disk. \<open>ok\<close> tells whether the write function goes on or raises.\<close>

definition wb_attempt_step :: "wb_cfg \<Rightarrow> bool \<Rightarrow> wb_attempt \<Rightarrow> wb_machine \<Rightarrow> (wb_attempt \<times> wb_machine) option" where
  "wb_attempt_step c ok at0 m = (case at0 of
      AtBegin \<Rightarrow> Some (AtGen (wb_gen (wm_writer m)), m)
    | AtGen g \<Rightarrow> if \<not> ok then Some (AtFailed, m) else if may_copy c m then Some (AtCopied g (wm_mem m), m) else None
    | AtCopied g v \<Rightarrow> if ok then Some (AtWritten g v, m\<lparr>wm_disk := v\<rparr>) else Some (AtFailed, m)
    | AtWritten g v \<Rightarrow> Some (AtRead, m\<lparr>wm_writer := wb_attempt_end True (wm_now m) g (wm_writer m)\<rparr>)
    | AtFailed \<Rightarrow> Some (AtRead, m\<lparr>wm_writer := wb_attempt_end False (wm_now m) 0 (wm_writer m)\<rparr>)
    | AtRead \<Rightarrow> None)"

text \<open>A step of the thread.\<close>

fun wb_thread :: "wb_cfg \<Rightarrow> bool \<Rightarrow> wb_machine \<Rightarrow> wb_machine option" where
  "wb_thread c ok m = (case wm_pc m of
      PcLook \<Rightarrow> (case wb_main_look (wc_interval c) (wm_now m) (wm_writer m) of
          WbBreak \<Rightarrow> Some (m\<lparr>wm_pc := PcAttempt (wb_force (wm_writer m)) (wb_force_asked (wm_writer m)), wm_runs := (wm_runs m)(0 := Some AtBegin),
            wm_writer := (wm_writer m)\<lparr>wb_force := False\<rparr>\<rparr>)
        | WbReturn \<Rightarrow> Some (m\<lparr>wm_pc := PcLeave\<rparr>)
        | WbWait \<Rightarrow> Some (m\<lparr>wm_pc := PcWait False
            (if wb_dirty (wm_writer m) then Some (wb_last (wm_writer m) + wc_interval c) else None)\<rparr>))
    | PcWait notified deadline \<Rightarrow>
        if notified \<or> (case deadline of None \<Rightarrow> False | Some d \<Rightarrow> d \<le> wm_now m) then Some (m\<lparr>wm_pc := PcLook\<rparr>) else None
    | PcAttempt f a \<Rightarrow> (case wm_runs m 0 of
          None \<Rightarrow> None
        | Some AtRead \<Rightarrow> Some (m\<lparr>wm_pc := PcEnd f a, wm_runs := (wm_runs m)(0 := None)\<rparr>)
        | Some at0 \<Rightarrow> map_option (\<lambda>(at1, m1). m1\<lparr>wm_runs := (wm_runs m1)(0 := Some at1)\<rparr>) (wb_attempt_step c ok at0 m))
    | PcEnd f a \<Rightarrow> (case wb_main_round_end f a (wm_writer m) of (w, quit) \<Rightarrow>
        Some ((wb_notify m)\<lparr>wm_pc := (if quit then PcLeave else PcLook), wm_writer := w\<rparr>))
    | PcLeave \<Rightarrow> Some (m\<lparr>wm_pc := PcDone, wm_writer := (wm_writer m)\<lparr>wb_alive := False\<rparr>\<rparr>)
    | PcDone \<Rightarrow> None)"

text \<open>
  The events: time passes, a change is made in memory, a change is marked, the flag is cleared, the thread is started or stopped, a flush asks with a
  ticket, wakes up (by a notification or its timeout) and looks, a flush on the caller begins, goes on or returns, the thread goes on.
\<close>

datatype wb_event = EvTime rat | EvChange | EvMark | EvClear | EvStart | EvStop bool
  | EvAsk | EvWake nat bool | EvInline nat | EvCaller nat bool | EvThread bool

definition lower_flag :: "wb_writer \<Rightarrow> wb_machine \<Rightarrow> wb_machine" where
  "lower_flag w m = m\<lparr>wm_writer := w, wm_dropped := (wm_dropped m \<or> wm_disk m < wm_mem m)\<rparr>"

fun wb_exec :: "wb_cfg \<Rightarrow> wb_event \<Rightarrow> wb_machine \<Rightarrow> wb_machine option" where
  "wb_exec c (EvTime d) m = (if d \<ge> 0 then Some (m\<lparr>wm_now := wm_now m + d\<rparr>) else None)"
| "wb_exec c EvChange m = Some (m\<lparr>wm_mem := Suc (wm_mem m), wm_unmarked := Suc (wm_unmarked m)\<rparr>)"
| "wb_exec c EvMark m = (if wm_unmarked m > 0
     then Some (wb_notify (m\<lparr>wm_unmarked := wm_unmarked m - 1, wm_writer := wb_mark_dirty (wm_writer m)\<rparr>)) else None)"
| "wb_exec c EvClear m = Some (lower_flag (wb_clear_dirty (wm_writer m)) m)"
| "wb_exec c EvStart m = Some (m\<lparr>wm_writer := wb_start (wm_now m) (wm_writer m), wm_pc := (if wb_alive (wm_writer m) then wm_pc m else PcLook)\<rparr>)"
| "wb_exec c (EvStop final_flush) m =
     (let w = wb_stop_request final_flush (wm_writer m)
      in Some (wb_notify (if final_flush then m\<lparr>wm_writer := w\<rparr> else lower_flag w m)))"
| "wb_exec c EvAsk m =
     (if wb_alive (wm_writer m) \<and> (wc_serial c \<longrightarrow> wm_waiting m = {} \<and> \<not> inline_runs m)
      then let w = wb_flush_request (wm_writer m); t = wb_force_asked w; m1 = wb_notify m in
        Some (m1\<lparr>wm_writer := w, wm_want := (wm_want m)(t := wm_mem m), wm_waiting := insert t (wm_waiting m), wm_asleep := insert t (wm_asleep m1)\<rparr>)
      else None)"
| "wb_exec c (EvWake t timed_out) m =
     (if t \<in> wm_waiting m \<and> (t \<notin> wm_asleep m \<or> timed_out)
      then Some (case wb_flush_wake t (wm_writer m) of
          Some ok \<Rightarrow> m\<lparr>wm_waiting := wm_waiting m - {t}, wm_asleep := wm_asleep m - {t},
            wm_returned := (if ok then insert t (wm_returned m) else wm_returned m)\<rparr>
        | None \<Rightarrow> if timed_out then m\<lparr>wm_waiting := wm_waiting m - {t}, wm_asleep := wm_asleep m - {t}\<rparr>
            else m\<lparr>wm_asleep := insert t (wm_asleep m)\<rparr>)
      else None)"
| "wb_exec c (EvInline i) m =
     (if i \<noteq> 0 \<and> wc_inline c \<and> wm_runs m i = None \<and> \<not> wb_alive (wm_writer m) \<and> (wc_serial c \<longrightarrow> wm_waiting m = {} \<and> \<not> inline_runs m)
      then Some (m\<lparr>wm_runs := (wm_runs m)(i := Some AtBegin)\<rparr>) else None)"
| "wb_exec c (EvCaller i ok) m =
     (if i = 0 then None
      else (case wm_runs m i of
          None \<Rightarrow> None
        | Some AtRead \<Rightarrow> Some (m\<lparr>wm_runs := (wm_runs m)(i := None)\<rparr>)
        | Some at0 \<Rightarrow> map_option (\<lambda>(at1, m1). m1\<lparr>wm_runs := (wm_runs m1)(i := Some at1)\<rparr>) (wb_attempt_step c ok at0 m)))"
| "wb_exec c (EvThread ok) m = wb_thread c ok m"

inductive wb_step :: "wb_cfg \<Rightarrow> wb_machine \<Rightarrow> wb_machine \<Rightarrow> bool" for c :: wb_cfg where
  event: "wb_exec c e m = Some m' \<Longrightarrow> wb_step c m m'"

fun wb_run :: "wb_cfg \<Rightarrow> wb_event list \<Rightarrow> wb_machine \<Rightarrow> wb_machine option" where
  "wb_run c [] m = Some m"
| "wb_run c (e # es) m = (case wb_exec c e m of None \<Rightarrow> None | Some m' \<Rightarrow> wb_run c es m')"

lemma wb_run_steps: "wb_run c es m = Some m' \<Longrightarrow> (wb_step c)\<^sup>*\<^sup>* m m'"
  by (induction es arbitrary: m) (auto split: option.splits dest: wb_step.event intro: converse_rtranclp_into_rtranclp)

lemma wb_run_append: "wb_run c (xs @ ys) m = (case wb_run c xs m of None \<Rightarrow> None | Some m' \<Rightarrow> wb_run c ys m')"
  by (induction xs arbitrary: m) (auto split: option.splits)

section \<open>Invariants\<close>

lemmas wb_defs = wb_init_def wb_start_def wb_mark_dirty_def wb_clear_dirty_def wb_flush_request_def
  wb_flush_wake_def wb_stop_request_def wb_attempt_end_def wb_main_look_def wb_main_round_end_def Let_def

lemmas wm_defs = wb_notify_def lower_flag_def

text \<open>
  What an attempt knows: no change is missing from its copy but unmarked ones, as long as no
  mark came after its generation was read.
\<close>

fun at_ok :: "wb_machine \<Rightarrow> wb_attempt \<Rightarrow> bool" where
  "at_ok m (AtGen g) = (g \<le> wb_gen (wm_writer m))"
| "at_ok m (AtCopied g v) = (g \<le> wb_gen (wm_writer m) \<and> wm_disk m \<le> v \<and> v \<le> wm_mem m \<and>
     (g = wb_gen (wm_writer m) \<longrightarrow> wm_mem m \<le> v + wm_unmarked m))"
| "at_ok m (AtWritten g v) = (g \<le> wb_gen (wm_writer m) \<and> v \<le> wm_disk m \<and>
     (g = wb_gen (wm_writer m) \<longrightarrow> wm_mem m \<le> v + wm_unmarked m))"
| "at_ok m _ = True"

text \<open>One write function between copy and save at a time: it has a lock, or only the thread calls it.\<close>

definition one_writer :: "wb_cfg \<Rightarrow> bool" where
  "one_writer c \<longleftrightarrow> wc_locked c \<or> \<not> wc_inline c"

definition runs_ok :: "wb_machine \<Rightarrow> bool" where
  "runs_ok m \<longleftrightarrow> (\<forall>i a. wm_runs m i = Some a \<longrightarrow> at_ok m a)"

definition one_copy :: "wb_machine \<Rightarrow> bool" where
  "one_copy m \<longleftrightarrow> (\<forall>i j g v g' v'. wm_runs m i = Some (AtCopied g v) \<and> wm_runs m j = Some (AtCopied g' v') \<longrightarrow> i = j)"


lemma at_ok_simps [simp]:
  "at_ok (m\<lparr>wm_runs := f\<rparr>) a = at_ok m a"
  "at_ok (m\<lparr>wm_writer := wb_attempt_end b n g (wm_writer m)\<rparr>) a = at_ok m a"
  "at_ok (m\<lparr>wm_runs := f, wm_writer := wb_attempt_end b n g (wm_writer m)\<rparr>) a = at_ok m a"
  by (cases a; simp add: wb_attempt_end_def)+


lemma one_copy_simps [simp]: "one_copy (m\<lparr>wm_disk := d\<rparr>) = one_copy m" "one_copy (m\<lparr>wm_writer := w\<rparr>) = one_copy m"
  by (simp_all add: one_copy_def)

lemma inline_simps [simp]: "inline_runs (m\<lparr>wm_disk := d\<rparr>) = inline_runs m" "inline_runs (m\<lparr>wm_writer := w\<rparr>) = inline_runs m"
  by (simp_all add: inline_runs_def inline_of_def)



lemma runs_at [simp]: "runs_ok m \<Longrightarrow> at_ok m a \<Longrightarrow> runs_ok (m\<lparr>wm_runs := (wm_runs m)(i := Some a)\<rparr>)"
  by (simp add: runs_ok_def)











text \<open>
  Flush requests made one at a time: the newest ticket covers the changes before it in every copy
  made since, and once its round has ended either the error is set or the disk holds them.
\<close>

fun pc_asked :: "wb_pc \<Rightarrow> nat option" where
  "pc_asked (PcAttempt f a) = Some a"
| "pc_asked (PcEnd f a) = Some a"
| "pc_asked _ = None"

fun run_covers :: "nat \<Rightarrow> bool \<Rightarrow> nat \<Rightarrow> wb_attempt option \<Rightarrow> bool" where
  "run_covers n err disk (Some (AtCopied g v)) = (n \<le> v)"
| "run_covers n err disk (Some (AtWritten g v)) = (n \<le> disk)"
| "run_covers n err disk (Some AtRead) = (err \<or> n \<le> disk)"
| "run_covers n err disk _ = True"

fun pc_covers :: "nat \<Rightarrow> nat \<Rightarrow> bool \<Rightarrow> nat \<Rightarrow> wb_attempt option \<Rightarrow> wb_pc \<Rightarrow> bool" where
  "pc_covers a n err disk r (PcAttempt f b) = (b = a \<longrightarrow> run_covers n err disk r)"
| "pc_covers a n err disk r (PcEnd f b) = (b = a \<longrightarrow> err \<or> n \<le> disk)"
| "pc_covers a n err disk r _ = True"




lemma notify_pc [simp]: "pc_asked (wm_pc (wb_notify m)) = pc_asked (wm_pc m)" "pc_covers a n e d r (wm_pc (wb_notify m)) = pc_covers a n e d r (wm_pc m)"
  by (auto simp: wb_notify_def split: wb_pc.splits)

lemma notify_simps [simp]:
  "wm_writer (wb_notify m) = wm_writer m" "wm_runs (wb_notify m) = wm_runs m" "wm_mem (wb_notify m) = wm_mem m"
  "wm_disk (wb_notify m) = wm_disk m" "wm_want (wb_notify m) = wm_want m" "wm_waiting (wb_notify m) = wm_waiting m"
  "wm_returned (wb_notify m) = wm_returned m" "wm_unmarked (wb_notify m) = wm_unmarked m" "wm_now (wb_notify m) = wm_now m"
  "wm_asleep (wb_notify m) = {}" "wm_dropped (wb_notify m) = wm_dropped m" "inline_runs (wb_notify m) = inline_runs m"
  by (simp_all add: wb_notify_def inline_runs_def)


lemma inline_own [simp]: "inline_of (f(0 := a)) = inline_of f"
  unfolding inline_of_def by auto






lemma notify_pcs [simp]:
  "wm_pc (wb_notify m) = PcAttempt f a \<longleftrightarrow> wm_pc m = PcAttempt f a" "wm_pc (wb_notify m) = PcDone \<longleftrightarrow> wm_pc m = PcDone"
  "wm_pc (wb_notify m) \<noteq> PcWait False d"
  by (auto simp: wb_notify_def split: wb_pc.splits)













section \<open>Properties\<close>


text \<open>A round of the thread, from \<open>PcLook\<close> back to \<open>PcLook\<close>.\<close>

definition wb_round :: "bool \<Rightarrow> wb_event list" where
  "wb_round ok = replicate (if ok then 7 else 6) (EvThread ok)"

definition demo_writer :: "bool \<Rightarrow> wb_cfg" where
  "demo_writer serial = \<lparr>wc_serial = serial, wc_interval = 60, wc_locked = True, wc_inline = True\<rparr>"

definition demo_write :: "wb_event list" where
  "demo_write = [EvStart, EvChange, EvMark, EvTime 60] @ wb_round True"

lemmas demo_wb_defs = demo_writer_def demo_write_def wb_round_def wm_init_def wb_attempt_step_def may_copy_def inline_runs_def inline_of_def
  wm_defs wb_defs numeral_eq_Suc one_writer_def





text \<open>Overlapping flushes can lose a write error. There is a run in which a flush returns without
  an error although the write it waited for failed and the change made before it is not on disk:
  a second flush request cleared the error field before the first waiter woke up.
\<close>

theorem overlapping_flush_loses_error:
  "\<exists>m. (wb_step (demo_writer False))\<^sup>*\<^sup>* wm_init m \<and> 1 \<in> wm_returned m \<and> wm_disk m < wm_want m 1"
proof -
  let ?es = "[EvStart, EvChange, EvMark, EvAsk] @ wb_round False @ [EvAsk, EvWake 1 False]"
  obtain m where m: "wb_run (demo_writer False) ?es wm_init = Some m" "1 \<in> wm_returned m" "wm_disk m < wm_want m 1"
    by (simp add: demo_wb_defs)
  then show ?thesis using wb_run_steps [OF m(1)] by blast
qed

text \<open>A failed write is tried again at once: the interval is counted from the last write that succeeded. Two attempts of the thread follow each other at
  the same time.
\<close>

theorem failed_write_does_not_wait:
  "\<exists>m m'. wb_run (demo_writer False) ([EvStart, EvChange, EvMark, EvTime 60] @ wb_round False) wm_init = Some m \<and> wm_pc m = PcLook \<and>
     wb_thread (demo_writer False) True m = Some m' \<and> wm_pc m' = PcAttempt False 0 \<and> wm_now m' = 60"
  by (simp add: demo_wb_defs)



end
