(* ===== verification/Job_Store.thy ===== *)
theory Job_Store
  imports Job_Score Lease_Owner Persistence Write_Behind
begin

text \<open>
  The in-process job queues of \<open>dbload/lib/sync_timedb_job_store.py\<close>: the class
  \<open>SyncTimedbJobStore\<close> and the functions on it. A method is a function from the store to its
  result and the new store; what it does under \<open>_lock\<close> is one atomic step. Method arguments
  come first, then the store. \<open>time.time()\<close>, the INI values and the liveness of a PID are
  arguments. The per-kind dictionaries of the class are functions of the kind; the kinds that are
  keys of those dictionaries are \<open>JOB_KINDS_LIST\<close> and \<open>JOB_KINDS_ALL\<close>. The four heaps are
  sorted lists (see \<open>Py_Prelude\<close>). The counters that \<open>max(0, n - 1)\<close> keeps from going below
  zero are natural numbers. The claim loop is a \<open>partial_function\<close>: \<open>None\<close> is a loop that
  never ends.
\<close>

section \<open>State\<close>

definition JOB_KIND_DISCOVER :: string where "JOB_KIND_DISCOVER = ''discover''"
definition JOB_KIND_INGEST :: string where "JOB_KIND_INGEST = ''ingest''"
definition JOB_KIND_APPEND :: string where "JOB_KIND_APPEND = ''append''"
definition JOB_KIND_DAY_CLOSE :: string where "JOB_KIND_DAY_CLOSE = ''day_close''"

definition JOB_KINDS_LIST :: "string list" where
  "JOB_KINDS_LIST = [JOB_KIND_DISCOVER, JOB_KIND_APPEND, JOB_KIND_DAY_CLOSE]"

definition JOB_KINDS_ALL :: "string list" where
  "JOB_KINDS_ALL = JOB_KIND_INGEST # JOB_KINDS_LIST"

definition JOB_STORE_SNAPSHOT_KIND :: string where
  "JOB_STORE_SNAPSHOT_KIND = ''job_store_snapshot''"

lemmas kind_name_defs = JOB_KIND_DISCOVER_def JOB_KIND_INGEST_def JOB_KIND_APPEND_def
  JOB_KIND_DAY_CLOSE_def

record claimed_job =
  cj_kind :: string
  cj_identity :: string
  cj_owner_token :: string
  cj_deadline :: rat
  cj_score :: "rat option"
  cj_fingerprint :: string
  cj_emit :: string

text \<open>An in-flight entry: deadline, owner token, and the score of an ingest job.\<close>

type_synonym inflight_entry = "rat \<times> string \<times> rat option"
type_synonym job_key = "string \<times> string"
type_synonym payload_fields = "(string, string) dict"

record job_store =
  js_archive_dir :: string
  js_ingest :: "(string, rat) dict"
  js_heap_hot :: "(rat \<times> string) list"
  js_heap_catchup :: "(rat \<times> string) list"
  js_heap_catchup_max :: "(rat \<times> string) list"
  js_hot_n :: nat
  js_catchup_n :: nat
  js_lists :: "string \<Rightarrow> string list"
  js_pending :: "string \<Rightarrow> string set"
  js_inflight :: "string \<Rightarrow> (string, inflight_entry) dict"
  js_leases :: "(job_key, string) dict"
  js_payloads :: "(job_key, payload_fields) dict"
  js_shadow_ingest :: "(string, rat) dict"
  js_shadow_lists :: "string \<Rightarrow> string list"
  js_shadow_pending :: "string \<Rightarrow> string set"
  js_shadow_payloads :: "(job_key, payload_fields) dict"
  js_writer :: wb_writer

definition js_empty :: "string \<Rightarrow> job_store" where
  "js_empty archive_dir = \<lparr>js_archive_dir = archive_dir, js_ingest = [], js_heap_hot = [],
     js_heap_catchup = [], js_heap_catchup_max = [], js_hot_n = 0, js_catchup_n = 0,
     js_lists = (\<lambda>_. []), js_pending = (\<lambda>_. {}), js_inflight = (\<lambda>_. []), js_leases = [],
     js_payloads = [], js_shadow_ingest = [], js_shadow_lists = (\<lambda>_. []),
     js_shadow_pending = (\<lambda>_. {}), js_shadow_payloads = [], js_writer = wb_init\<rparr>"

section \<open>Reads\<close>

text \<open>\<open>sorted(items, key=score)\<close> is stable: equal scores keep the insertion order.\<close>

definition ingest_identities :: "job_store \<Rightarrow> string list" where
  "ingest_identities s = map fst (sort_key snd (js_ingest s))"

definition inflight_count :: "string \<Rightarrow> job_store \<Rightarrow> nat" where
  "inflight_count kind s = length (js_inflight s kind)"

definition snapshot_is_empty :: "job_store \<Rightarrow> bool" where
  "snapshot_is_empty s =
     (if js_ingest s \<noteq> [] then False else list_all (\<lambda>kind. js_lists s kind = []) JOB_KINDS_LIST)"

definition has_capacity :: "string \<Rightarrow> int \<Rightarrow> job_store \<Rightarrow> bool" where
  "has_capacity kind cap s =
     (if kind = JOB_KIND_INGEST then int (length (js_ingest s)) < cap
      else int (length (js_lists s kind)) < cap)"

definition queued_count :: "string \<Rightarrow> job_store \<Rightarrow> nat" where
  "queued_count kind s =
     (if kind = JOB_KIND_INGEST then length (js_ingest s)
      else if kind \<in> set JOB_KINDS_LIST then length (js_lists s kind) else 0)"

definition ingest_count_in_score_range :: "bound \<Rightarrow> bound \<Rightarrow> job_store \<Rightarrow> nat" where
  "ingest_count_in_score_range lo hi s =
     (if ingest_score_range ''hot'' = Inr (lo, hi) then js_hot_n s
      else if ingest_score_range ''catchup'' = Inr (lo, hi) then js_catchup_n s
      else length (filter (\<lambda>(ident, sc). bound_le lo sc \<and> le_bound sc hi) (js_ingest s)))"

definition ingest_score :: "string \<Rightarrow> job_store \<Rightarrow> rat option" where
  "ingest_score identity s = map_of (js_ingest s) identity"

definition list_slice :: "string \<Rightarrow> int \<Rightarrow> int \<Rightarrow> job_store \<Rightarrow> string list" where
  "list_slice kind start stop s =
     (let dq = js_lists s kind; n = int (length dq) in
      if dq = [] then []
      else
        let end1 = (if stop = -1 then n - 1 else stop);
            start1 = (if start < 0 then max 0 (n + start) else start);
            end2 = (if end1 < 0 then max (-1) (n + end1) else end1)
        in if start1 > end2 \<or> start1 \<ge> n then []
           else take (nat (end2 + 1) - nat start1) (drop (nat start1) dq))"

definition lease_token :: "string \<Rightarrow> string \<Rightarrow> job_store \<Rightarrow> string option" where
  "lease_token kind identity s = map_of (js_leases s) (kind, identity)"

definition inflight_contains :: "string \<Rightarrow> string \<Rightarrow> job_store \<Rightarrow> bool" where
  "inflight_contains kind identity s = (identity \<in> dict_keys (js_inflight s kind))"

definition read_inflight_entry :: "string \<Rightarrow> string \<Rightarrow> job_store \<Rightarrow> inflight_entry option" where
  "read_inflight_entry kind identity s = map_of (js_inflight s kind) identity"

definition read_inflight_entries :: "string \<Rightarrow> job_store \<Rightarrow> (string, inflight_entry) dict" where
  "read_inflight_entries kind s = js_inflight s kind"

definition queue_depth :: "string \<Rightarrow> job_store \<Rightarrow> nat" where
  "queue_depth kind s = queued_count kind s"

definition queue_has_capacity :: "job_cfg \<Rightarrow> string \<Rightarrow> int option \<Rightarrow> job_store \<Rightarrow> bool" where
  "queue_has_capacity cfg kind limit s =
     (int (queue_depth kind s) < (case limit of None \<Rightarrow> queue_capacity_limit cfg | Some l \<Rightarrow> l))"

definition ingest_queue_census :: "job_store \<Rightarrow> nat \<times> nat \<times> nat" where
  "ingest_queue_census s =
     (ingest_count_in_score_range NegInf (Fin (of_int CATCHUP_SCORE_BASE - 1)) s,
      ingest_count_in_score_range (Fin (of_int CATCHUP_SCORE_BASE)) PosInf s,
      queued_count JOB_KIND_INGEST s)"

definition queue_census :: "job_store \<Rightarrow> (string, nat \<times> nat) dict" where
  "queue_census s = map (\<lambda>kind. (kind, queue_depth kind s, inflight_count kind s)) JOB_KINDS_ALL"

definition count_inflight_by_band :: "job_store \<Rightarrow> nat \<times> nat" where
  "count_inflight_by_band s =
     fold (\<lambda>(ident, deadline, ow, score) (hot, catchup).
        if (case score of None \<Rightarrow> True | Some sc \<Rightarrow> decode_ingest_band sc = ''hot'')
        then (Suc hot, catchup) else (hot, Suc catchup))
      (read_inflight_entries JOB_KIND_INGEST s) (0, 0)"

section \<open>Internal mutations\<close>

definition mark_dirty :: "job_store \<Rightarrow> job_store" where
  "mark_dirty s = s\<lparr>js_writer := wb_mark_dirty (js_writer s)\<rparr>"

text \<open>
  \<open>persist(force=False)\<close> only leaves the writer thread notified, which \<open>mark_dirty\<close> did; the
  forced flush is the writer's (\<open>Write_Behind\<close>).
\<close>

definition persist_lazy :: "job_store \<Rightarrow> job_store" where
  "persist_lazy s = s"

definition maybe_persist :: "job_store \<Rightarrow> job_store" where
  "maybe_persist s = (if \<not> wb_dirty (js_writer s) then s else persist_lazy s)"

definition ingest_heap_for_band :: "string \<Rightarrow> job_store \<Rightarrow> (rat \<times> string) list" where
  "ingest_heap_for_band band s = (if band = ''hot'' then js_heap_hot s else js_heap_catchup s)"

definition set_heap_for_band :: "string \<Rightarrow> (rat \<times> string) list \<Rightarrow> job_store \<Rightarrow> job_store" where
  "set_heap_for_band band h s =
     (if band = ''hot'' then s\<lparr>js_heap_hot := h\<rparr> else s\<lparr>js_heap_catchup := h\<rparr>)"

definition catchup_max_entries :: "(string, rat) dict \<Rightarrow> (rat \<times> string) list" where
  "catchup_max_entries d =
     map (\<lambda>(i, sc). (- sc, i)) (filter (\<lambda>(i, sc). decode_ingest_band sc = ''catchup'') d)"

definition ingest_heap_push :: "string \<Rightarrow> rat \<Rightarrow> job_store \<Rightarrow> job_store" where
  "ingest_heap_push identity score s =
     (let band = decode_ingest_band score;
          s1 = set_heap_for_band band (heappush (score, identity) (ingest_heap_for_band band s)) s
      in if band = ''catchup''
         then let h = js_heap_catchup_max s1;
                  h' = (if length h > 2 * length (js_ingest s1) + 1024
                        then heapify (catchup_max_entries (js_ingest s1)) else h)
              in s1\<lparr>js_heap_catchup_max := heappush (- score, identity) h'\<rparr>
         else s1)"

definition ingest_band_inc :: "rat \<Rightarrow> job_store \<Rightarrow> job_store" where
  "ingest_band_inc score s =
     (if decode_ingest_band score = ''hot'' then s\<lparr>js_hot_n := Suc (js_hot_n s)\<rparr>
      else s\<lparr>js_catchup_n := Suc (js_catchup_n s)\<rparr>)"

definition ingest_band_dec :: "rat \<Rightarrow> job_store \<Rightarrow> job_store" where
  "ingest_band_dec score s =
     (if decode_ingest_band score = ''hot'' then s\<lparr>js_hot_n := js_hot_n s - 1\<rparr>
      else s\<lparr>js_catchup_n := js_catchup_n s - 1\<rparr>)"

definition identity_is_queued :: "string \<Rightarrow> string \<Rightarrow> job_store \<Rightarrow> bool" where
  "identity_is_queued kind identity s =
     (if kind = JOB_KIND_INGEST then identity \<in> dict_keys (js_ingest s)
      else kind \<in> set JOB_KINDS_LIST \<and> identity \<in> js_pending s kind)"

definition shadow_sync_payload :: "string \<Rightarrow> string \<Rightarrow> job_store \<Rightarrow> job_store" where
  "shadow_sync_payload kind identity s =
     (case map_of (js_payloads s) (kind, identity) of
        Some row \<Rightarrow>
          if identity_is_queued kind identity s
          then s\<lparr>js_shadow_payloads := AList.update (kind, identity) row (js_shadow_payloads s)\<rparr>
          else s\<lparr>js_shadow_payloads := AList.delete (kind, identity) (js_shadow_payloads s)\<rparr>
      | None \<Rightarrow> s\<lparr>js_shadow_payloads := AList.delete (kind, identity) (js_shadow_payloads s)\<rparr>)"

definition ingest_set :: "string \<Rightarrow> rat \<Rightarrow> job_store \<Rightarrow> job_store" where
  "ingest_set identity score s =
     (let s1 = (case map_of (js_ingest s) identity of None \<Rightarrow> s | Some old \<Rightarrow> ingest_band_dec old s);
          s2 = s1\<lparr>js_ingest := AList.update identity score (js_ingest s1)\<rparr>;
          s3 = ingest_band_inc score s2;
          s4 = ingest_heap_push identity score s3;
          s5 = s4\<lparr>js_shadow_ingest := AList.update identity score (js_shadow_ingest s4)\<rparr>
      in shadow_sync_payload JOB_KIND_INGEST identity s5)"

definition ingest_pop :: "string \<Rightarrow> job_store \<Rightarrow> rat option \<times> job_store" where
  "ingest_pop identity s =
     (case map_of (js_ingest s) identity of
        None \<Rightarrow> (None, s)
      | Some old \<Rightarrow>
          let s1 = s\<lparr>js_ingest := AList.delete identity (js_ingest s)\<rparr>;
              s2 = ingest_band_dec old s1
          in (Some old, s2\<lparr>js_shadow_ingest := AList.delete identity (js_shadow_ingest s2),
                js_shadow_payloads := AList.delete (JOB_KIND_INGEST, identity) (js_shadow_payloads s2)\<rparr>))"

definition list_push :: "string \<Rightarrow> string \<Rightarrow> job_store \<Rightarrow> job_store" where
  "list_push kind ident s =
     shadow_sync_payload kind ident
       (s\<lparr>js_lists := (js_lists s)(kind := js_lists s kind @ [ident]),
          js_pending := (js_pending s)(kind := insert ident (js_pending s kind)),
          js_shadow_lists := (js_shadow_lists s)(kind := js_shadow_lists s kind @ [ident]),
          js_shadow_pending := (js_shadow_pending s)(kind := insert ident (js_shadow_pending s kind))\<rparr>)"

definition queued_identities :: "job_store \<Rightarrow> job_key set" where
  "queued_identities s =
     Pair JOB_KIND_INGEST ` dict_keys (js_ingest s) \<union>
     (\<Union>kind \<in> set JOB_KINDS_LIST. Pair kind ` set (js_lists s kind))"

definition inflight_identities :: "job_store \<Rightarrow> job_key set" where
  "inflight_identities s = (\<Union>kind \<in> set JOB_KINDS_ALL. Pair kind ` dict_keys (js_inflight s kind))"

definition prune_orphan_payloads :: "job_key set \<Rightarrow> job_store \<Rightarrow> job_store" where
  "prune_orphan_payloads active s = s\<lparr>js_payloads := dict_filter (\<lambda>k. k \<in> active) (js_payloads s)\<rparr>"

definition prune_shadow_payloads :: "job_key set \<Rightarrow> job_store \<Rightarrow> job_store" where
  "prune_shadow_payloads queued s =
     s\<lparr>js_shadow_payloads := dict_filter (\<lambda>k. k \<in> queued) (js_shadow_payloads s)\<rparr>"

definition ingest_rebuild_heaps :: "job_store \<Rightarrow> job_store" where
  "ingest_rebuild_heaps s =
     fold (\<lambda>(ident, score) t. ingest_heap_push ident score t) (js_ingest s)
       (s\<lparr>js_heap_hot := [], js_heap_catchup := [], js_heap_catchup_max := []\<rparr>)"

definition rebuild_ingest_band_counts :: "job_store \<Rightarrow> job_store" where
  "rebuild_ingest_band_counts s =
     (case fold (\<lambda>(ident, score) (hot, catchup).
          if decode_ingest_band score = ''hot'' then (Suc hot, catchup) else (hot, Suc catchup))
        (js_ingest s) (0, 0)
      of (hot, catchup) \<Rightarrow> s\<lparr>js_hot_n := hot, js_catchup_n := catchup\<rparr>)"

definition rebuild_shadow :: "job_store \<Rightarrow> job_store" where
  "rebuild_shadow s = s\<lparr>js_shadow_ingest := js_ingest s, js_shadow_lists := js_lists s,
     js_shadow_pending := js_pending s,
     js_shadow_payloads := dict_filter (\<lambda>k. k \<in> queued_identities s) (js_payloads s)\<rparr>"

section \<open>Queue operations\<close>

definition payload_set :: "string \<Rightarrow> string \<Rightarrow> string \<Rightarrow> string \<Rightarrow> job_store \<Rightarrow> job_store" where
  "payload_set kind identity name val s =
     s\<lparr>js_payloads := AList.update (kind, identity)
        (AList.update name val
          (case map_of (js_payloads s) (kind, identity) of None \<Rightarrow> [] | Some f \<Rightarrow> f))
        (js_payloads s)\<rparr>"

definition zadd_ingest ::
    "job_cfg \<Rightarrow> string \<Rightarrow> rat \<Rightarrow> string option \<Rightarrow> bool \<Rightarrow> job_store \<Rightarrow> nat \<times> job_store" where
  "zadd_ingest cfg identity score fingerprint over_cap s =
     (let cap = discover_ingest_capacity_limit cfg;
          existed = identity \<in> dict_keys (js_ingest s) in
      if identity \<in> dict_keys (js_inflight s JOB_KIND_INGEST) then (0, s)
      else if \<not> existed \<and> \<not> over_cap \<and> \<not> has_capacity JOB_KIND_INGEST cap s \<and>
              decode_ingest_band score \<noteq> ''hot'' then (0, s)
      else
        let s1 = ingest_set identity score s;
            s2 = (case fingerprint of
                    Some fp \<Rightarrow>
                      if fp \<noteq> [] then
                        shadow_sync_payload JOB_KIND_INGEST identity
                          (payload_set JOB_KIND_INGEST identity ''fingerprint'' fp s1)
                      else s1
                  | None \<Rightarrow> s1)
        in (if existed then 0 else 1, maybe_persist (mark_dirty s2)))"

text \<open>
  The loop over the max-heap of \<open>evict_youngest_catchup_ingest\<close>: \<open>h\<close> is what is left of it.
\<close>

fun evict_loop :: "date \<Rightarrow> (rat \<times> string) list \<Rightarrow> job_store \<Rightarrow> string option \<times> job_store" where
  "evict_loop older_day [] s = (None, s\<lparr>js_heap_catchup_max := []\<rparr>)"
| "evict_loop older_day ((neg_score, ident) # h) s =
     (if map_of (js_ingest s) ident \<noteq> Some (- neg_score) then evict_loop older_day h s
      else (case decode_catchup_calendar_day (- neg_score) of
          None \<Rightarrow> (None, s\<lparr>js_heap_catchup_max := (neg_score, ident) # h\<rparr>)
        | Some day \<Rightarrow>
            if day \<le> older_day then (None, s\<lparr>js_heap_catchup_max := (neg_score, ident) # h\<rparr>)
            else
              let s1 = snd (ingest_pop ident (s\<lparr>js_heap_catchup_max := h\<rparr>));
                  s2 = s1\<lparr>js_payloads := AList.delete (JOB_KIND_INGEST, ident) (js_payloads s1)\<rparr>
              in (Some ident, maybe_persist (mark_dirty s2))))"

definition evict_youngest_catchup_ingest :: "date \<Rightarrow> job_store \<Rightarrow> string option \<times> job_store" where
  "evict_youngest_catchup_ingest older_day s = evict_loop older_day (js_heap_catchup_max s) s"

definition enqueue_list ::
    "job_cfg \<Rightarrow> string \<Rightarrow> string \<Rightarrow> bool \<Rightarrow> job_store \<Rightarrow> py_error + nat \<times> job_store" where
  "enqueue_list cfg kind ident dedupe s =
     (if kind \<notin> set JOB_KINDS_LIST then Inl ValueError
      else if dedupe \<and> (ident \<in> js_pending s kind \<or> ident \<in> dict_keys (js_inflight s kind))
        then Inr (0, s)
      else if \<not> has_capacity kind (queue_capacity_limit cfg) s then Inr (0, s)
      else let s1 = mark_dirty (list_push kind ident s)
           in Inr (length (js_lists s1 kind), maybe_persist s1))"

definition payload_text :: "string \<Rightarrow> string \<Rightarrow> string \<Rightarrow> job_store \<Rightarrow> string" where
  "payload_text kind ident name s =
     (case map_of (js_payloads s) (kind, ident) of
        None \<Rightarrow> []
      | Some row \<Rightarrow> (case map_of row name of None \<Rightarrow> [] | Some v \<Rightarrow> v))"

definition claim_one :: "string \<Rightarrow> string \<Rightarrow> rat \<Rightarrow> rat \<Rightarrow> job_store \<Rightarrow> claimed_job \<times> job_store" where
  "claim_one ident owner_token deadline live s =
     (let s1 = snd (ingest_pop ident s);
          s2 = s1\<lparr>js_inflight := (js_inflight s1)(JOB_KIND_INGEST :=
                   AList.update ident (deadline, owner_token, Some live) (js_inflight s1 JOB_KIND_INGEST)),
                 js_leases := AList.update (JOB_KIND_INGEST, ident) owner_token (js_leases s1)\<rparr>
      in (\<lparr>cj_kind = JOB_KIND_INGEST, cj_identity = ident, cj_owner_token = owner_token,
           cj_deadline = deadline, cj_score = Some live,
           cj_fingerprint = payload_text JOB_KIND_INGEST ident ''fingerprint'' s2,
           cj_emit = payload_text JOB_KIND_INGEST ident ''emit'' s2\<rparr>, s2))"

text \<open>The loop of \<open>claim_ingest\<close>: \<open>None\<close> when it runs forever.\<close>

partial_function (option) claim_ingest_loop ::
    "string \<Rightarrow> bound \<Rightarrow> bound \<Rightarrow> string \<Rightarrow> rat \<Rightarrow> nat \<Rightarrow> claimed_job list \<Rightarrow> job_store \<Rightarrow>
     (claimed_job list \<times> job_store) option" where
  "claim_ingest_loop band lo hi owner_token deadline want claimed s =
     (if length claimed < want then
        (case ingest_heap_for_band band s of
           [] \<Rightarrow> Some (claimed, s)
         | (snap_score, ident) # h \<Rightarrow>
             (let s0 = set_heap_for_band band h s in
              if ident \<in> dict_keys (js_inflight s0 JOB_KIND_INGEST)
              then claim_ingest_loop band lo hi owner_token deadline want claimed s0
              else (case map_of (js_ingest s0) ident of
                  None \<Rightarrow> claim_ingest_loop band lo hi owner_token deadline want claimed s0
                | Some live \<Rightarrow>
                    if live \<noteq> snap_score
                    then claim_ingest_loop band lo hi owner_token deadline want claimed
                           (ingest_heap_push ident live s0)
                    else if \<not> (bound_le lo live \<and> le_bound live hi)
                    then claim_ingest_loop band lo hi owner_token deadline want claimed
                           (ingest_heap_push ident live s0)
                    else claim_ingest_loop band lo hi owner_token deadline want
                           (claimed @ [fst (claim_one ident owner_token deadline live s0)])
                           (snd (claim_one ident owner_token deadline live s0)))))
      else Some (claimed, s))"

definition claim_ttl :: "job_cfg \<Rightarrow> int option \<Rightarrow> int" where
  "claim_ttl cfg ttl_s = (case ttl_s of None \<Rightarrow> job_lease_ttl_seconds cfg | Some t \<Rightarrow> t)"

definition claim_ingest ::
    "job_cfg \<Rightarrow> rat \<Rightarrow> string \<Rightarrow> string \<Rightarrow> int option \<Rightarrow> int \<Rightarrow> job_store \<Rightarrow>
     (py_error + claimed_job list \<times> job_store) option" where
  "claim_ingest cfg now band owner_token ttl_s max_n s =
     (if owner_token = [] then Some (Inl ValueError)
      else if max_n < 1 then Some (Inl ValueError)
      else (case ingest_score_range band of
          Inl e \<Rightarrow> Some (Inl e)
        | Inr (lo, hi) \<Rightarrow>
            (case claim_ingest_loop band lo hi owner_token (now + of_int (claim_ttl cfg ttl_s))
                    (nat max_n) [] s of
               None \<Rightarrow> None
             | Some (claimed, s1) \<Rightarrow>
                 Some (Inr (claimed, if claimed \<noteq> [] then maybe_persist (mark_dirty s1) else s1)))))"

text \<open>The loop of \<open>claim_list\<close>: \<open>q\<close> is the deque.\<close>

definition shadow_list_drop :: "string \<Rightarrow> string list \<Rightarrow> string list" where
  "shadow_list_drop ident xs = (if xs \<noteq> [] \<and> hd xs = ident then tl xs else remove1 ident xs)"

fun claim_list_loop ::
    "string \<Rightarrow> string \<Rightarrow> rat \<Rightarrow> string list \<Rightarrow> job_store \<Rightarrow> claimed_job option \<times> job_store" where
  "claim_list_loop kind owner_token deadline [] s = (None, s\<lparr>js_lists := (js_lists s)(kind := [])\<rparr>)"
| "claim_list_loop kind owner_token deadline (ident # q) s =
     (let s1 = s\<lparr>js_lists := (js_lists s)(kind := q),
                js_pending := (js_pending s)(kind := js_pending s kind - {ident}),
                js_shadow_lists := (js_shadow_lists s)(kind := shadow_list_drop ident (js_shadow_lists s kind)),
                js_shadow_pending := (js_shadow_pending s)(kind := js_shadow_pending s kind - {ident}),
                js_shadow_payloads := AList.delete (kind, ident) (js_shadow_payloads s)\<rparr>
      in if ident \<in> dict_keys (js_inflight s1 kind)
         then claim_list_loop kind owner_token deadline q s1
         else (Some \<lparr>cj_kind = kind, cj_identity = ident, cj_owner_token = owner_token,
                     cj_deadline = deadline, cj_score = None, cj_fingerprint = [], cj_emit = []\<rparr>,
               maybe_persist (mark_dirty
                 (s1\<lparr>js_inflight := (js_inflight s1)(kind :=
                       AList.update ident (deadline, owner_token, None) (js_inflight s1 kind)),
                     js_leases := AList.update (kind, ident) owner_token (js_leases s1)\<rparr>))))"

definition claim_list ::
    "job_cfg \<Rightarrow> rat \<Rightarrow> string \<Rightarrow> string \<Rightarrow> int option \<Rightarrow> job_store \<Rightarrow>
     py_error + claimed_job option \<times> job_store" where
  "claim_list cfg now kind owner_token ttl_s s =
     (if kind \<notin> set JOB_KINDS_LIST then Inl ValueError
      else if owner_token = [] then Inl ValueError
      else Inr (claim_list_loop kind owner_token (now + of_int (claim_ttl cfg ttl_s)) (js_lists s kind) s))"

definition drop_inflight :: "string \<Rightarrow> string \<Rightarrow> job_store \<Rightarrow> job_store" where
  "drop_inflight kind ident s =
     s\<lparr>js_inflight := (js_inflight s)(kind := AList.delete ident (js_inflight s kind)),
       js_leases := AList.delete (kind, ident) (js_leases s)\<rparr>"

definition holds_claim :: "string \<Rightarrow> string \<Rightarrow> string \<Rightarrow> job_store \<Rightarrow> bool" where
  "holds_claim kind ident owner_token s =
     (case map_of (js_inflight s kind) ident of
        None \<Rightarrow> False | Some (deadline, ow, score) \<Rightarrow> ow = owner_token)"

definition ack :: "string \<Rightarrow> string \<Rightarrow> string \<Rightarrow> job_store \<Rightarrow> bool \<times> job_store" where
  "ack kind ident owner_token s =
     (if owner_token = [] then (False, s)
      else if \<not> holds_claim kind ident owner_token s then (False, s)
      else let s1 = drop_inflight kind ident s;
               s2 = s1\<lparr>js_payloads := AList.delete (kind, ident) (js_payloads s1)\<rparr>
           in (True, if kind \<in> set JOB_KINDS_LIST
                     then s2\<lparr>js_pending := (js_pending s2)(kind := js_pending s2 kind - {ident})\<rparr>
                     else s2))"

definition requeue ::
    "string \<Rightarrow> string \<Rightarrow> string \<Rightarrow> rat option \<Rightarrow> job_store \<Rightarrow> bool \<times> job_store" where
  "requeue kind ident owner_token score s =
     (if owner_token = [] then (False, s)
      else if \<not> holds_claim kind ident owner_token s then (False, s)
      else let s1 = drop_inflight kind ident s;
               s2 = (if kind = JOB_KIND_INGEST
                     then shadow_sync_payload kind ident (ingest_set ident
                       (case score of None \<Rightarrow> of_int CATCHUP_SCORE_BASE | Some sc \<Rightarrow> sc) s1)
                     else list_push kind ident s1)
           in (True, maybe_persist (mark_dirty s2)))"

definition reorder_list :: "string \<Rightarrow> string list \<Rightarrow> job_store \<Rightarrow> bool \<times> job_store" where
  "reorder_list kind desired s =
     (if kind \<notin> set JOB_KINDS_LIST then (False, s)
      else
        let current = js_lists s kind in
        if length current \<noteq> length desired then (False, s)
        else if sort current \<noteq> sort desired then (False, s)
        else if current = desired then (False, s)
        else (True, maybe_persist (mark_dirty
               (s\<lparr>js_lists := (js_lists s)(kind := desired),
                  js_shadow_lists := (js_shadow_lists s)(kind := desired)\<rparr>))))"

definition set_deadline :: "string \<Rightarrow> string \<Rightarrow> rat \<Rightarrow> job_store \<Rightarrow> job_store" where
  "set_deadline kind ident deadline s =
     (case map_of (js_inflight s kind) ident of
        None \<Rightarrow> s
      | Some (old, ow, score) \<Rightarrow>
          s\<lparr>js_inflight := (js_inflight s)(kind :=
             AList.update ident (deadline, ow, score) (js_inflight s kind))\<rparr>)"

definition extend_inflight_deadline :: "rat \<Rightarrow> string \<Rightarrow> string \<Rightarrow> rat \<Rightarrow> job_store \<Rightarrow> bool \<times> job_store" where
  "extend_inflight_deadline now kind ident extend_s s =
     (if ident \<notin> dict_keys (js_inflight s kind) then (False, s)
      else (True, set_deadline kind ident (now + extend_s) s))"

definition renew_job_lease ::
    "job_cfg \<Rightarrow> rat \<Rightarrow> string \<Rightarrow> string \<Rightarrow> string \<Rightarrow> int option \<Rightarrow> job_store \<Rightarrow> bool \<times> job_store" where
  "renew_job_lease cfg now kind ident owner_token ttl_s s =
     (if owner_token = [] then (False, s)
      else if \<not> holds_claim kind ident owner_token s then (False, s)
      else let s1 = set_deadline kind ident (now + of_int (claim_ttl cfg ttl_s)) s
           in (True, s1\<lparr>js_leases := AList.update (kind, ident) owner_token (js_leases s1)\<rparr>))"

section \<open>Payload fields\<close>

definition sync_if_queued :: "string \<Rightarrow> string \<Rightarrow> job_store \<Rightarrow> job_store" where
  "sync_if_queued kind identity s =
     (if identity_is_queued kind identity s then mark_dirty (shadow_sync_payload kind identity s) else s)"

definition write_job_fingerprint :: "string \<Rightarrow> string \<Rightarrow> string \<Rightarrow> job_store \<Rightarrow> job_store" where
  "write_job_fingerprint kind identity fingerprint s =
     (if fingerprint = [] then s
      else maybe_persist (sync_if_queued kind identity (payload_set kind identity ''fingerprint'' fingerprint s)))"

definition write_job_payload_field :: "string \<Rightarrow> string \<Rightarrow> string \<Rightarrow> string \<Rightarrow> job_store \<Rightarrow> job_store" where
  "write_job_payload_field kind identity name val s =
     (let s1 = payload_set kind identity name val s;
          s2 = (if identity_is_queued kind identity s1 then shadow_sync_payload kind identity s1 else s1)
      in maybe_persist (mark_dirty s2))"

definition read_job_payload_field :: "string \<Rightarrow> string \<Rightarrow> string \<Rightarrow> job_store \<Rightarrow> string" where
  "read_job_payload_field kind identity name s = payload_text kind identity name s"

definition read_job_fingerprint :: "string \<Rightarrow> string \<Rightarrow> job_store \<Rightarrow> string" where
  "read_job_fingerprint kind identity s = payload_text kind identity ''fingerprint'' s"

text \<open>\<open>int(fields.get("attempt") or 0) + 1\<close> raises \<open>ValueError\<close> on a text that is no number.\<close>

definition bump_job_attempt :: "string \<Rightarrow> string \<Rightarrow> job_store \<Rightarrow> py_error + int \<times> job_store" where
  "bump_job_attempt kind identity s =
     (let t = payload_text kind identity ''attempt'' s in
      case (if t = [] then Some 0 else py_int t) of
        None \<Rightarrow> Inl ValueError
      | Some n \<Rightarrow> Inr (n + 1, maybe_persist (sync_if_queued kind identity
          (payload_set kind identity ''attempt'' (show_int (n + 1)) s))))"

definition read_job_attempt :: "string \<Rightarrow> string \<Rightarrow> job_store \<Rightarrow> int" where
  "read_job_attempt kind identity s =
     (let t = payload_text kind identity ''attempt'' s in
      if t = [] then 0 else (case py_int t of None \<Rightarrow> 0 | Some n \<Rightarrow> n))"

section \<open>Recovery\<close>

text \<open>The loop of \<open>reap_expired_inflight\<close> over a copy of the in-flight items.\<close>

fun reap_loop ::
    "string \<Rightarrow> rat \<Rightarrow> nat \<Rightarrow> (string, inflight_entry) dict \<Rightarrow> string list \<Rightarrow> job_store \<Rightarrow> string list \<times> job_store" where
  "reap_loop kind cutoff want [] out s = (out, s)"
| "reap_loop kind cutoff want ((ident, deadline, ow, score) # items) out s =
     (if length out \<ge> want then (out, s)
      else if deadline > cutoff then reap_loop kind cutoff want items out s
      else
        let s1 = drop_inflight kind ident s;
            s2 = (if kind = JOB_KIND_INGEST then ingest_set ident (penalize_ingest_score score) s1
                  else list_push kind ident s1)
        in reap_loop kind cutoff want items (out @ [ident]) (mark_dirty s2))"

definition reap_expired_inflight :: "rat \<Rightarrow> string \<Rightarrow> int \<Rightarrow> job_store \<Rightarrow> string list \<times> job_store" where
  "reap_expired_inflight now kind limit s =
     (case reap_loop kind (now - INFLIGHT_REAP_GRACE_FLOOR_S) (nat (max 1 limit)) (js_inflight s kind) [] s of
        (out, s1) \<Rightarrow> (out, if out \<noteq> [] then persist_lazy s1 else s1))"

text \<open>
  The process environment of the lease checks: \<open>gethostname\<close>, this host's boot id, and which
  PIDs are alive.
\<close>

record proc_env =
  pe_gethostname :: "string option"
  pe_boot :: string
  pe_alive :: "int \<Rightarrow> bool"

definition owner_is_dead :: "proc_env \<Rightarrow> string option \<Rightarrow> string option \<Rightarrow> string \<Rightarrow> bool" where
  "owner_is_dead env hostname boot_id owner_token =
     (let ow = parse_lease_owner owner_token in
      case lo_pid ow of
        None \<Rightarrow> False
      | Some pid \<Rightarrow>
          lease_owner_is_locally_evaluable (pe_gethostname env) (pe_boot env) ow hostname boot_id \<and>
          \<not> pe_alive env pid)"

fun steal_loop ::
    "proc_env \<Rightarrow> string option \<Rightarrow> string option \<Rightarrow> (job_key, string) dict \<Rightarrow> nat \<Rightarrow> job_store \<Rightarrow> nat \<times> job_store" where
  "steal_loop env hostname boot_id [] stolen s = (stolen, s)"
| "steal_loop env hostname boot_id (((kind, ident), owner_token) # items) stolen s =
     (if \<not> owner_is_dead env hostname boot_id owner_token
      then steal_loop env hostname boot_id items stolen s
      else (case requeue kind ident owner_token None s of
        (ok, s1) \<Rightarrow> steal_loop env hostname boot_id items (if ok then Suc stolen else stolen) s1))"

definition steal_dead_owner_leases ::
    "proc_env \<Rightarrow> string option \<Rightarrow> string option \<Rightarrow> job_store \<Rightarrow> nat \<times> job_store" where
  "steal_dead_owner_leases env hostname boot_id s = steal_loop env hostname boot_id (js_leases s) 0 s"

definition steal_job_lease_if_owner_dead ::
    "proc_env \<Rightarrow> string \<Rightarrow> string \<Rightarrow> string option \<Rightarrow> string option \<Rightarrow> job_store \<Rightarrow> bool \<times> job_store" where
  "steal_job_lease_if_owner_dead env kind identity hostname boot_id s =
     (case map_of (js_leases s) (kind, identity) of
        None \<Rightarrow> (False, s)
      | Some owner_token \<Rightarrow>
          if owner_token = [] then (False, s)
          else if \<not> owner_is_dead env hostname boot_id owner_token then (False, s)
          else (case requeue kind identity owner_token None s of
              (True, s1) \<Rightarrow> (True, s1)
            | (False, s1) \<Rightarrow>
                if map_of (js_leases s1) (kind, identity) \<noteq> Some owner_token then (False, s1)
                else (True, s1\<lparr>js_leases := AList.delete (kind, identity) (js_leases s1)\<rparr>)))"

fun reconcile_loop ::
    "string \<Rightarrow> string set \<Rightarrow> string \<Rightarrow> (string, inflight_entry) dict \<Rightarrow> nat \<Rightarrow> job_store \<Rightarrow> nat \<times> job_store" where
  "reconcile_loop kind known owner_token [] recovered s = (recovered, s)"
| "reconcile_loop kind known owner_token ((ident, deadline, ow, score) # items) recovered s =
     (if ident \<in> known \<or> ow \<noteq> owner_token
      then reconcile_loop kind known owner_token items recovered s
      else (case requeue kind ident ow score s of
        (ok, s1) \<Rightarrow> reconcile_loop kind known owner_token items (if ok then Suc recovered else recovered) s1))"

definition reconcile_this_owner_orphan_leases ::
    "string \<Rightarrow> string list \<Rightarrow> string \<Rightarrow> job_store \<Rightarrow> nat \<times> job_store" where
  "reconcile_this_owner_orphan_leases kind local_identities owner_token s =
     reconcile_loop kind (set local_identities) owner_token (read_inflight_entries kind s) 0 s"

section \<open>Snapshot and restart\<close>

text \<open>
  \<open>str(x)\<close> and \<open>float(x)\<close> of a parsed JSON value. The text of a number or container, and the
  number a text denotes, are parameters: they only occur for a damaged snapshot.
\<close>

record json_conv =
  jc_repr :: "json \<Rightarrow> string"
  jc_parse_float :: "string \<Rightarrow> rat option"

fun json_str :: "json_conv \<Rightarrow> json \<Rightarrow> string" where
  "json_str cv (JStr t) = t"
| "json_str cv JNull = ''None''"
| "json_str cv (JBool b) = (if b then ''True'' else ''False'')"
| "json_str cv j = jc_repr cv j"

fun json_float :: "json_conv \<Rightarrow> json \<Rightarrow> py_error + rat" where
  "json_float cv (JNum r) = Inr r"
| "json_float cv (JBool b) = Inr (if b then 1 else 0)"
| "json_float cv (JStr t) = (case jc_parse_float cv t of None \<Rightarrow> Inl ValueError | Some r \<Rightarrow> Inr r)"
| "json_float cv _ = Inl TypeError"

definition payload_key :: "job_key \<Rightarrow> string" where
  "payload_key k = fst k @ ''|'' @ snd k"

definition snapshot_payload :: "job_store \<Rightarrow> (string, json) dict" where
  "snapshot_payload s =
     [(''ingest'', JObj (map (\<lambda>(i, sc). (i, JNum sc)) (js_shadow_ingest s))),
      (''lists'', JObj (map (\<lambda>kind. (kind, JList (map JStr (js_shadow_lists s kind)))) JOB_KINDS_LIST)),
      (''pending'', JObj (map (\<lambda>kind.
          (kind, JList (map JStr (sorted_list_of_set (js_shadow_pending s kind))))) JOB_KINDS_LIST)),
      (''payloads'', JObj (dict_of (map (\<lambda>(k, row).
          (payload_key k, JObj (map (\<lambda>(n, v). (n, JStr v)) row))) (js_shadow_payloads s))))]"

definition persist_write :: "io_env \<Rightarrow> job_store \<Rightarrow> fsys \<Rightarrow> job_store \<times> (py_error + fsys)" where
  "persist_write io s fs =
     (if js_archive_dir s = [] then (s, Inr fs)
      else
        let queued = queued_identities s;
            live = queued \<union> inflight_identities s;
            s1 = prune_shadow_payloads queued (prune_orphan_payloads live s)
        in (s1, case artifact_path (js_archive_dir s) JOB_STORE_SNAPSHOT_KIND of
                  Inl e \<Rightarrow> Inl e
                | Inr path \<Rightarrow> save_persistence_document io path JOB_STORE_SNAPSHOT_KIND
                    (JObj (snapshot_payload s1)) True fs))"

text \<open>\<open>x.items()\<close> and \<open>x.get(k)\<close> raise \<open>AttributeError\<close> on what is no dict.\<close>

definition json_items :: "json \<Rightarrow> py_error + (string, json) dict" where
  "json_items j = (case j of JObj kvs \<Rightarrow> Inr kvs | _ \<Rightarrow> Inl AttributeError)"

definition built_ingest :: "json_conv \<Rightarrow> json \<Rightarrow> py_error + (string, rat) dict" where
  "built_ingest cv ingest =
     (case json_items ingest of
        Inl e \<Rightarrow> Inl e
      | Inr kvs \<Rightarrow>
          (case sum_map (\<lambda>(i, sc). case json_float cv sc of Inl e \<Rightarrow> Inl e | Inr r \<Rightarrow> Inr (i, r)) kvs of
             Inl e \<Rightarrow> Inl e | Inr xs \<Rightarrow> Inr (dict_of xs)))"

definition built_lists :: "json_conv \<Rightarrow> json \<Rightarrow> py_error + (string, string list) dict" where
  "built_lists cv lists_j =
     sum_map (\<lambda>kind. case json_items lists_j of
          Inl e \<Rightarrow> Inl e
        | Inr kvs \<Rightarrow> (case json_list (json_or (jget kvs kind) (JList [])) of
              Inl e \<Rightarrow> Inl e | Inr xs \<Rightarrow> Inr (kind, map (json_str cv) xs)))
       JOB_KINDS_LIST"

definition built_payloads :: "json_conv \<Rightarrow> json \<Rightarrow> (job_key, payload_fields) dict" where
  "built_payloads cv payloads =
     dict_of (map (\<lambda>(key, row).
         (py_split1 (CHR ''|'') key, dict_of (map (\<lambda>(n, v). (n, json_str cv v)) (jobj_items row))))
       (filter (\<lambda>(key, row). is_jobj row \<and> CHR ''|'' \<in> set key) (jobj_items payloads)))"

definition kind_table :: "(string, 'a list) dict \<Rightarrow> string \<Rightarrow> 'a list" where
  "kind_table d kind = (case map_of d kind of None \<Rightarrow> [] | Some xs \<Rightarrow> xs)"

definition install_snapshot ::
    "(string, rat) dict \<Rightarrow> (string, string list) dict \<Rightarrow> (string, string list) dict \<Rightarrow>
     (job_key, payload_fields) dict \<Rightarrow> job_store \<Rightarrow> job_store" where
  "install_snapshot ingest_built lists_built pending_built payloads_built s =
     (let s1 = ingest_rebuild_heaps (s\<lparr>js_ingest := ingest_built\<rparr>);
          s2 = s1\<lparr>js_lists := kind_table lists_built,
                  js_pending := (\<lambda>kind. set (kind_table pending_built kind)),
                  js_payloads := payloads_built,
                  js_inflight := (\<lambda>_. []), js_leases := []\<rparr>;
          s3 = prune_orphan_payloads (queued_identities s2) s2;
          s4 = rebuild_ingest_band_counts (rebuild_shadow s3)
      in s4\<lparr>js_writer := wb_clear_dirty (js_writer s4)\<rparr>)"

definition load_store :: "json_conv \<Rightarrow> fsys \<Rightarrow> job_store \<Rightarrow> py_error + job_store" where
  "load_store cv fs s =
     (if js_archive_dir s = [] then Inr s
      else (case artifact_path (js_archive_dir s) JOB_STORE_SNAPSHOT_KIND of
          Inl e \<Rightarrow> Inl e
        | Inr path \<Rightarrow>
            let raw = load_persistence_document fs path JOB_STORE_SNAPSHOT_KIND (JObj []) in
            if \<not> is_jobj raw then Inr s
            else
              let get = (\<lambda>k. json_or (jget (jobj_items raw) k) (JObj [])) in
              (case built_ingest cv (get ''ingest'') of
                 Inl e \<Rightarrow> Inl e
               | Inr i \<Rightarrow> (case built_lists cv (get ''lists'') of
                     Inl e \<Rightarrow> Inl e
                   | Inr l \<Rightarrow> (case built_lists cv (get ''pending'') of
                         Inl e \<Rightarrow> Inl e
                       | Inr p \<Rightarrow> Inr (install_snapshot i l p
                           (built_payloads cv (get ''payloads'')) s))))))"

definition new_store :: "json_conv \<Rightarrow> rat \<Rightarrow> fsys \<Rightarrow> string \<Rightarrow> py_error + job_store" where
  "new_store cv now fs archive_dir =
     (if archive_dir = [] then Inr (js_empty archive_dir)
      else (case load_store cv fs (js_empty archive_dir) of
          Inl e \<Rightarrow> Inl e
        | Inr s \<Rightarrow> Inr (s\<lparr>js_writer := wb_start now (js_writer s)\<rparr>)))"

section \<open>The functions of the module over a store\<close>

definition claim_ingest_job ::
    "job_cfg \<Rightarrow> rat \<Rightarrow> string \<Rightarrow> string \<Rightarrow> int option \<Rightarrow> job_store \<Rightarrow>
     (py_error + claimed_job option \<times> job_store) option" where
  "claim_ingest_job cfg now band owner_token ttl_s s =
     (case claim_ingest cfg now band owner_token ttl_s 1 s of
        None \<Rightarrow> None
      | Some (Inl e) \<Rightarrow> Some (Inl e)
      | Some (Inr (jobs, s1)) \<Rightarrow> Some (Inr (case jobs of [] \<Rightarrow> None | j # _ \<Rightarrow> Some j, s1)))"

definition format_queue_census :: "(string, nat \<times> nat) dict \<Rightarrow> string" where
  "format_queue_census census =
     concat (map (\<lambda>(n, part). if n = 0 then part else '' '' @ part)
       (enumerate 0 (concat (map (\<lambda>kind. case map_of census kind of
            None \<Rightarrow> []
          | Some (queued, inflight) \<Rightarrow> [kind @ ''='' @ show_nat inflight @ ''/'' @ show_nat queued])
         JOB_KINDS_ALL))))"

end
