(* ===== verification/Job_Store_Inv.thy ===== *)
theory Job_Store_Inv
  imports Job_Store
begin

text \<open>
  The invariant of the job store and its preservation by every operation. It ties the redundant
  parts of the class together: the lazy heaps and the band counters to the score map, the leases to
  the in-flight table, the dedupe sets to the deques, the durable shadow to the live queues; and it
  says that no job is queued twice or queued while it is in flight. The internal mutations are
  first written as record updates; the invariant is a conjunction of predicates over the fields a
  mutation touches, so that each mutation is one lemma.
\<close>

section \<open>The mutations as record updates\<close>

lemma maybe_persist_id [simp]: "maybe_persist s = s"
  by (simp add: maybe_persist_def persist_lazy_def)

definition synced_payloads :: "string \<Rightarrow> string \<Rightarrow> job_store \<Rightarrow> (job_key, payload_fields) dict" where
  "synced_payloads kind i s =
     (case map_of (js_payloads s) (kind, i) of
        Some row \<Rightarrow> if identity_is_queued kind i s
          then AList.update (kind, i) row (js_shadow_payloads s)
          else AList.delete (kind, i) (js_shadow_payloads s)
      | None \<Rightarrow> AList.delete (kind, i) (js_shadow_payloads s))"

lemma shadow_sync_eq:
  "shadow_sync_payload kind i s = s\<lparr>js_shadow_payloads := synced_payloads kind i s\<rparr>"
  by (simp add: shadow_sync_payload_def synced_payloads_def split: option.split)

lemma map_of_synced:
  "map_of (synced_payloads kind i s) k =
     (if k = (kind, i) then (if identity_is_queued kind i s then map_of (js_payloads s) k else None)
      else map_of (js_shadow_payloads s) k)"
  by (auto simp: synced_payloads_def dict_simps split: option.split)

definition pushed_hot :: "string \<Rightarrow> rat \<Rightarrow> (rat \<times> string) list \<Rightarrow> (rat \<times> string) list" where
  "pushed_hot i sc h = (if sc < of_int CATCHUP_SCORE_BASE then heappush (sc, i) h else h)"

definition pushed_catchup :: "string \<Rightarrow> rat \<Rightarrow> (rat \<times> string) list \<Rightarrow> (rat \<times> string) list" where
  "pushed_catchup i sc h = (if sc < of_int CATCHUP_SCORE_BASE then h else heappush (sc, i) h)"

definition pushed_max ::
    "string \<Rightarrow> rat \<Rightarrow> (string, rat) dict \<Rightarrow> (rat \<times> string) list \<Rightarrow> (rat \<times> string) list" where
  "pushed_max i sc g h =
     (if sc < of_int CATCHUP_SCORE_BASE then h
      else heappush (- sc, i)
        (if length h > 2 * length g + 1024 then heapify (catchup_max_entries g) else h))"

lemma ingest_heap_push_eq:
  "ingest_heap_push i sc s = s\<lparr>js_heap_hot := pushed_hot i sc (js_heap_hot s),
     js_heap_catchup := pushed_catchup i sc (js_heap_catchup s),
     js_heap_catchup_max := pushed_max i sc (js_ingest s) (js_heap_catchup_max s)\<rparr>"
  by (simp add: ingest_heap_push_def pushed_hot_def pushed_catchup_def pushed_max_def Let_def
      set_heap_for_band_def ingest_heap_for_band_def decode_ingest_band_def)

definition counted_dec :: "rat option \<Rightarrow> bool \<Rightarrow> nat \<Rightarrow> nat" where
  "counted_dec old hot n =
     (case old of None \<Rightarrow> n | Some sc \<Rightarrow> if (sc < of_int CATCHUP_SCORE_BASE) = hot then n - 1 else n)"

definition counted_inc :: "rat \<Rightarrow> bool \<Rightarrow> nat \<Rightarrow> nat" where
  "counted_inc sc hot n = (if (sc < of_int CATCHUP_SCORE_BASE) = hot then Suc n else n)"

definition set_state :: "string \<Rightarrow> rat \<Rightarrow> job_store \<Rightarrow> job_store" where
  "set_state i sc s =
     (let g = AList.update i sc (js_ingest s); old = map_of (js_ingest s) i in
      s\<lparr>js_ingest := g,
        js_hot_n := counted_inc sc True (counted_dec old True (js_hot_n s)),
        js_catchup_n := counted_inc sc False (counted_dec old False (js_catchup_n s)),
        js_heap_hot := pushed_hot i sc (js_heap_hot s),
        js_heap_catchup := pushed_catchup i sc (js_heap_catchup s),
        js_heap_catchup_max := pushed_max i sc g (js_heap_catchup_max s),
        js_shadow_ingest := AList.update i sc (js_shadow_ingest s)\<rparr>)"

lemma ingest_band_dec_eq:
  "ingest_band_dec sc s = s\<lparr>js_hot_n := counted_dec (Some sc) True (js_hot_n s),
     js_catchup_n := counted_dec (Some sc) False (js_catchup_n s)\<rparr>"
  by (simp add: ingest_band_dec_def counted_dec_def)

lemma ingest_band_inc_eq:
  "ingest_band_inc sc s = s\<lparr>js_hot_n := counted_inc sc True (js_hot_n s),
     js_catchup_n := counted_inc sc False (js_catchup_n s)\<rparr>"
  by (simp add: ingest_band_inc_def counted_inc_def)

lemma ingest_set_eq:
  "ingest_set i sc s = (set_state i sc s)\<lparr>js_shadow_payloads :=
     synced_payloads JOB_KIND_INGEST i (set_state i sc s)\<rparr>"
proof -
  let ?old = "map_of (js_ingest s) i"
  have dec: "(case ?old of None \<Rightarrow> s | Some old \<Rightarrow> ingest_band_dec old s) =
    s\<lparr>js_hot_n := counted_dec ?old True (js_hot_n s),
      js_catchup_n := counted_dec ?old False (js_catchup_n s)\<rparr>"
    by (cases ?old) (simp_all add: ingest_band_dec_eq counted_dec_def)
  show ?thesis
    unfolding ingest_set_def Let_def dec shadow_sync_eq ingest_heap_push_eq ingest_band_inc_eq set_state_def
    by simp
qed

lemma ingest_pop_eq:
  "map_of (js_ingest s) i = Some old \<Longrightarrow>
   ingest_pop i s = (Some old, s\<lparr>js_ingest := AList.delete i (js_ingest s),
     js_hot_n := counted_dec (Some old) True (js_hot_n s),
     js_catchup_n := counted_dec (Some old) False (js_catchup_n s),
     js_shadow_ingest := AList.delete i (js_shadow_ingest s),
     js_shadow_payloads := AList.delete (JOB_KIND_INGEST, i) (js_shadow_payloads s)\<rparr>)"
  by (auto simp: ingest_pop_def Let_def counted_dec_def ingest_band_dec_def)

section \<open>The invariant\<close>

definition queue_ok ::
    "(string, rat) dict \<Rightarrow> (rat \<times> string) list \<Rightarrow> (rat \<times> string) list \<Rightarrow> (rat \<times> string) list \<Rightarrow>
     nat \<Rightarrow> nat \<Rightarrow> bool" where
  "queue_ok g hot catchup cmax hot_n catchup_n \<longleftrightarrow>
     dict_wf g \<and> sorted hot \<and> sorted catchup \<and> sorted cmax \<and>
     hot_n = length (filter (\<lambda>p. snd p < of_int CATCHUP_SCORE_BASE) g) \<and>
     catchup_n = length (filter (\<lambda>p. \<not> snd p < of_int CATCHUP_SCORE_BASE) g) \<and>
     (\<forall>(sc, i) \<in> set hot. sc < of_int CATCHUP_SCORE_BASE) \<and>
     (\<forall>(sc, i) \<in> set catchup. of_int CATCHUP_SCORE_BASE \<le> sc) \<and>
     (\<forall>(i, sc) \<in> set g. if sc < of_int CATCHUP_SCORE_BASE then (sc, i) \<in> set hot
        else (sc, i) \<in> set catchup \<and> (- sc, i) \<in> set cmax)"

abbreviation queue_inv :: "job_store \<Rightarrow> bool" where
  "queue_inv s \<equiv> queue_ok (js_ingest s) (js_heap_hot s) (js_heap_catchup s) (js_heap_catchup_max s)
     (js_hot_n s) (js_catchup_n s)"

definition claims_ok ::
    "(string, rat) dict \<Rightarrow> (string \<Rightarrow> string list) \<Rightarrow> (string \<Rightarrow> string set) \<Rightarrow>
     (string \<Rightarrow> (string, inflight_entry) dict) \<Rightarrow> (job_key, string) dict \<Rightarrow> bool" where
  "claims_ok g ls pd infl leases \<longleftrightarrow>
     (\<forall>k. dict_wf (infl k) \<and> distinct (ls k) \<and> pd k = set (ls k)) \<and>
     (\<forall>k. k \<notin> set JOB_KINDS_ALL \<longrightarrow> infl k = []) \<and>
     (\<forall>k. k \<notin> set JOB_KINDS_LIST \<longrightarrow> ls k = []) \<and>
     (\<forall>k i. i \<in> set (ls k) \<longrightarrow> map_of (infl k) i = None) \<and>
     (\<forall>i. map_of g i \<noteq> None \<longrightarrow> map_of (infl JOB_KIND_INGEST) i = None) \<and>
     dict_wf leases \<and>
     (\<forall>k i. map_of leases (k, i) = map_option (fst \<circ> snd) (map_of (infl k) i))"

abbreviation claims_inv :: "job_store \<Rightarrow> bool" where
  "claims_inv s \<equiv> claims_ok (js_ingest s) (js_lists s) (js_pending s) (js_inflight s) (js_leases s)"

definition queued_in :: "(string, rat) dict \<Rightarrow> (string \<Rightarrow> string set) \<Rightarrow> string \<Rightarrow> string \<Rightarrow> bool" where
  "queued_in g pd k i \<longleftrightarrow> (if k = JOB_KIND_INGEST then i \<in> dict_keys g else k \<in> set JOB_KINDS_LIST \<and> i \<in> pd k)"

lemma identity_is_queued_eq: "identity_is_queued k i s = queued_in (js_ingest s) (js_pending s) k i"
  by (simp add: identity_is_queued_def queued_in_def)

definition payloads_ok ::
    "(string, rat) dict \<Rightarrow> (string \<Rightarrow> string set) \<Rightarrow> (job_key, payload_fields) dict \<Rightarrow>
     (job_key, payload_fields) dict \<Rightarrow> bool" where
  "payloads_ok g pd pay spay \<longleftrightarrow> dict_wf pay \<and> dict_wf spay \<and>
     (\<forall>k row. map_of pay k = Some row \<longrightarrow> dict_wf row) \<and>
     (\<forall>k i. map_of spay (k, i) = (if queued_in g pd k i then map_of pay (k, i) else None))"

definition shadow_inv :: "job_store \<Rightarrow> bool" where
  "shadow_inv s \<longleftrightarrow>
     js_shadow_ingest s = js_ingest s \<and> js_shadow_lists s = js_lists s \<and>
     js_shadow_pending s = js_pending s \<and>
     payloads_ok (js_ingest s) (js_pending s) (js_payloads s) (js_shadow_payloads s)"

definition js_inv :: "job_store \<Rightarrow> bool" where
  "js_inv s \<longleftrightarrow> queue_inv s \<and> claims_inv s \<and> shadow_inv s"

lemma js_invI [intro?]: "queue_inv s \<Longrightarrow> claims_inv s \<Longrightarrow> shadow_inv s \<Longrightarrow> js_inv s"
  by (simp add: js_inv_def)

lemma js_invD: 
  assumes "js_inv s"
  shows "queue_inv s" "claims_inv s" "shadow_inv s"
  using assms by (simp_all add: js_inv_def)

subsection \<open>Heaps and counters\<close>

lemma sorted_pushed:
  "sorted h \<Longrightarrow> sorted (pushed_hot i sc h)"
  "sorted h \<Longrightarrow> sorted (pushed_catchup i sc h)"
  "sorted h \<Longrightarrow> sorted (pushed_max i sc g h)"
  by (auto simp: pushed_hot_def pushed_catchup_def pushed_max_def sorted_heappush)

lemma set_pushed_hot:
  "set (pushed_hot i sc h) = set h \<union> (if sc < of_int CATCHUP_SCORE_BASE then {(sc, i)} else {})"
  by (auto simp: pushed_hot_def)

lemma set_pushed_catchup:
  "set (pushed_catchup i sc h) = set h \<union> (if sc < of_int CATCHUP_SCORE_BASE then {} else {(sc, i)})"
  by (auto simp: pushed_catchup_def)

lemma in_pushed_max:
  assumes "(j, q) \<in> set g" "of_int CATCHUP_SCORE_BASE \<le> q"
    "(- q, j) \<in> set h \<or> (j = i \<and> q = sc)"
  shows "(- q, j) \<in> set (pushed_max i sc g h)"
  using assms by (force simp: pushed_max_def catchup_max_entries_def image_iff)

lemma counted_set:
  assumes "dict_wf g"
  shows "counted_inc sc h (counted_dec (map_of g i) h
      (length (filter (\<lambda>p. (snd p < of_int CATCHUP_SCORE_BASE) = h) g))) =
    length (filter (\<lambda>p. (snd p < of_int CATCHUP_SCORE_BASE) = h) (AList.update i sc g))"
proof (cases "map_of g i")
  case None
  with length_filter_update_fresh [of g i "\<lambda>x. (x < of_int CATCHUP_SCORE_BASE) = h" sc] show ?thesis
    by (simp add: counted_inc_def counted_dec_def)
next
  case (Some u)
  with assms length_filter_update_old [of g i u "\<lambda>x. (x < of_int CATCHUP_SCORE_BASE) = h" sc]
    length_filter_delete [of g i u "\<lambda>x. (x < of_int CATCHUP_SCORE_BASE) = h"] show ?thesis
    by (auto simp: counted_inc_def counted_dec_def split: if_splits)
qed

lemma counted_del:
  assumes "dict_wf g" "map_of g i = Some old"
  shows "counted_dec (Some old) h (length (filter (\<lambda>p. (snd p < of_int CATCHUP_SCORE_BASE) = h) g)) =
    length (filter (\<lambda>p. (snd p < of_int CATCHUP_SCORE_BASE) = h) (AList.delete i g))"
  using length_filter_delete [OF assms, of "\<lambda>x. (x < of_int CATCHUP_SCORE_BASE) = h"]
  by (auto simp: counted_dec_def)

text \<open>The three ways the queue changes: a score is set, a job leaves, a stale heap entry goes.\<close>

lemma queue_ok_set:
  assumes "queue_ok g hh hc hm a b"
  shows "queue_ok (AList.update i sc g) (pushed_hot i sc hh) (pushed_catchup i sc hc)
    (pushed_max i sc (AList.update i sc g) hm)
    (counted_inc sc True (counted_dec (map_of g i) True a))
    (counted_inc sc False (counted_dec (map_of g i) False b))"
proof -
  let ?B = "of_int CATCHUP_SCORE_BASE :: rat"
  let ?g = "AList.update i sc g"
  from assms have wf: "dict_wf g"
    and ab: "a = length (filter (\<lambda>p. (snd p < ?B) = True) g)"
      "b = length (filter (\<lambda>p. (snd p < ?B) = False) g)"
    and mem: "\<forall>(j, q) \<in> set g. if q < ?B then (q, j) \<in> set hh
        else (q, j) \<in> set hc \<and> (- q, j) \<in> set hm"
    by (simp_all add: queue_ok_def)
  have mem': "if q < ?B then (q, j) \<in> set (pushed_hot i sc hh)
      else (q, j) \<in> set (pushed_catchup i sc hc) \<and> (- q, j) \<in> set (pushed_max i sc ?g hm)"
    if "(j, q) \<in> set ?g" for j q
    using that mem in_pushed_max [OF that, of hm i sc]
    by (auto simp: set_update_dict [OF wf] set_pushed_hot set_pushed_catchup split: if_splits)
  have bands: "\<forall>(q, j) \<in> set (pushed_hot i sc hh). q < ?B"
      "\<forall>(q, j) \<in> set (pushed_catchup i sc hc). ?B \<le> q"
    using assms by (auto simp: queue_ok_def set_pushed_hot set_pushed_catchup)
  have "\<forall>(j, q) \<in> set ?g. if q < ?B then (q, j) \<in> set (pushed_hot i sc hh)
      else (q, j) \<in> set (pushed_catchup i sc hc) \<and> (- q, j) \<in> set (pushed_max i sc ?g hm)"
    using mem' by blast
  then show ?thesis
    using assms bands counted_set [OF wf, of sc True i] counted_set [OF wf, of sc False i] ab
    unfolding queue_ok_def by (simp only: dict_wf_update sorted_pushed) simp
qed

lemma queue_ok_delete:
  assumes "queue_ok g hh hc hm a b" "map_of g i = Some old"
  shows "queue_ok (AList.delete i g) hh hc hm (counted_dec (Some old) True a) (counted_dec (Some old) False b)"
proof -
  from assms have wf: "dict_wf g" by (simp add: queue_ok_def)
  from assms(1) show ?thesis
    using counted_del [OF wf assms(2), of True] counted_del [OF wf assms(2), of False]
    by (auto simp: queue_ok_def dict_wf_delete set_delete_dict)
qed

lemma queue_ok_stale:
  assumes "queue_ok g hh hc hm a b"
  shows "hh = (sc, i) # h \<Longrightarrow> map_of g i \<noteq> Some sc \<Longrightarrow> queue_ok g h hc hm a b"
    and "hc = (sc, i) # h \<Longrightarrow> map_of g i \<noteq> Some sc \<Longrightarrow> queue_ok g hh h hm a b"
    and "hm = (- sc, i) # h \<Longrightarrow> map_of g i \<noteq> Some sc \<Longrightarrow> queue_ok g hh hc h a b"
  using assms by (auto simp: queue_ok_def split: if_splits)

subsection \<open>Claims, leases and lists\<close>

lemma kinds_simps [simp]:
  "JOB_KIND_INGEST \<in> set JOB_KINDS_ALL" "JOB_KIND_INGEST \<notin> set JOB_KINDS_LIST"
  "k \<in> set JOB_KINDS_LIST \<Longrightarrow> k \<in> set JOB_KINDS_ALL" "k \<in> set JOB_KINDS_LIST \<Longrightarrow> k \<noteq> JOB_KIND_INGEST"
  by (auto simp: JOB_KINDS_ALL_def JOB_KINDS_LIST_def kind_name_defs)

lemma claims_ok_drop:
  "claims_ok g ls pd infl leases \<Longrightarrow>
   claims_ok g ls pd (infl(k := AList.delete i (infl k))) (AList.delete (k, i) leases)"
  by (simp add: claims_ok_def dict_wf_delete dict_simps)

lemma claims_ok_drop_ingest:
  "claims_ok g ls pd infl leases \<Longrightarrow> claims_ok (AList.delete i g) ls pd infl leases"
  by (simp add: claims_ok_def dict_simps)

lemma claims_ok_set_ingest:
  "claims_ok g ls pd infl leases \<Longrightarrow> map_of (infl JOB_KIND_INGEST) i = None \<Longrightarrow>
   claims_ok (AList.update i sc g) ls pd infl leases"
  by (simp add: claims_ok_def dict_simps)

lemma claims_ok_push:
  "claims_ok g ls pd infl leases \<Longrightarrow> k \<in> set JOB_KINDS_LIST \<Longrightarrow> i \<notin> set (ls k) \<Longrightarrow>
   map_of (infl k) i = None \<Longrightarrow>
   claims_ok g (ls(k := ls k @ [i])) (pd(k := insert i (pd k))) infl leases"
  by (auto simp: claims_ok_def)

lemma claims_ok_pop:
  assumes "claims_ok g ls pd infl leases" "ls k = i # q"
  shows "claims_ok g (ls(k := q)) (pd(k := pd k - {i})) infl leases"
proof -
  have "distinct (i # q)" "pd k = set (i # q)" "\<forall>j \<in> set (i # q). map_of (infl k) j = None"
    "k \<in> set JOB_KINDS_LIST"
    using assms unfolding claims_ok_def by (metis list.distinct(1))+
  with assms show ?thesis by (simp add: claims_ok_def)
qed

lemma claims_ok_claim:
  assumes "claims_ok g ls pd infl leases" "k \<in> set JOB_KINDS_ALL" "i \<notin> set (ls k)"
    "k = JOB_KIND_INGEST \<longrightarrow> map_of g i = None"
  shows "claims_ok g ls pd (infl(k := AList.update i (d, ow, x) (infl k))) (AList.update (k, i) ow leases)"
  using assms by (auto simp: claims_ok_def dict_wf_update dict_simps)

lemma claims_ok_kind: "claims_ok g ls pd infl leases \<Longrightarrow> map_of (infl k) i = Some e \<Longrightarrow> k \<in> set JOB_KINDS_ALL"
  unfolding claims_ok_def by force

lemma claims_ok_deadline:
  assumes "claims_ok g ls pd infl leases" "map_of (infl k) i = Some (d, ow, x)"
  shows "claims_ok g ls pd (infl(k := AList.update i (d', ow, x) (infl k))) leases"
    "claims_ok g ls pd (infl(k := AList.update i (d', ow, x) (infl k))) (AList.update (k, i) ow leases)"
proof -
  have "i \<notin> set (ls k)" "k = JOB_KIND_INGEST \<longrightarrow> map_of g i = None"
    using assms unfolding claims_ok_def by force+
  with assms claims_ok_kind [OF assms]
  show "claims_ok g ls pd (infl(k := AList.update i (d', ow, x) (infl k))) leases"
    "claims_ok g ls pd (infl(k := AList.update i (d', ow, x) (infl k))) (AList.update (k, i) ow leases)"
    by (auto simp: claims_ok_def dict_wf_update dict_simps)
qed

lemma claims_ok_reorder:
  assumes "claims_ok g ls pd infl leases" "sort xs = sort (ls k)" "k \<in> set JOB_KINDS_LIST"
  shows "claims_ok g (ls(k := xs)) pd infl leases"
proof -
  have "mset xs = mset (ls k)" using assms(2) by (metis mset_sort)
  then have "set xs = set (ls k)" "distinct xs = distinct (ls k)"
    using mset_eq_setD mset_eq_imp_distinct_iff by blast+
  with assms show ?thesis by (auto simp: claims_ok_def)
qed

subsection \<open>Payload rows\<close>

lemma payloads_ok_sync:
  assumes "dict_wf pay" "dict_wf spay" "\<And>k row. map_of pay k = Some row \<Longrightarrow> dict_wf row"
    "\<And>k i. (k, i) \<noteq> (k0, i0) \<Longrightarrow>
      map_of spay (k, i) = (if queued_in g pd k i then map_of pay (k, i) else None)"
  shows "payloads_ok g pd pay (case map_of pay (k0, i0) of
      Some row \<Rightarrow> if queued_in g pd k0 i0 then AList.update (k0, i0) row spay
        else AList.delete (k0, i0) spay
    | None \<Rightarrow> AList.delete (k0, i0) spay)"
  using assms unfolding payloads_ok_def
  by (auto simp: dict_wf_update dict_wf_delete dict_simps simp del: map_of_eq_Some_iff split: option.splits)

lemma payloads_ok_unqueue:
  assumes "payloads_ok g pd pay spay"
    and "\<And>k i. queued_in g' pd' k i \<longleftrightarrow> queued_in g pd k i \<and> (k, i) \<noteq> (k0, i0)"
  shows "payloads_ok g' pd' pay (AList.delete (k0, i0) spay)"
  using assms unfolding payloads_ok_def by (auto simp: dict_wf_delete dict_simps simp del: map_of_eq_Some_iff)

lemma payloads_ok_forget:
  assumes "payloads_ok g pd pay spay" "\<not> queued_in g pd k0 i0"
  shows "payloads_ok g pd (AList.delete (k0, i0) pay) spay"
  using assms unfolding payloads_ok_def by (auto simp: dict_wf_delete dict_simps simp del: map_of_eq_Some_iff)

lemma payloads_ok_write:
  assumes "payloads_ok g pd pay spay" "\<not> queued_in g pd k0 i0" "dict_wf row"
  shows "payloads_ok g pd (AList.update (k0, i0) row pay) spay"
  using assms unfolding payloads_ok_def by (auto simp: dict_wf_update dict_simps simp del: map_of_eq_Some_iff)

subsection \<open>The internal mutations keep the invariant\<close>

lemma js_inv_writer [simp]: "js_inv (s\<lparr>js_writer := w\<rparr>) = js_inv s"
  by (simp add: js_inv_def shadow_inv_def)

lemma js_inv_mark_dirty [simp]: "js_inv (mark_dirty s) = js_inv s"
  by (simp add: mark_dirty_def)

lemma synced_payloads_eq:
  "synced_payloads k i s = (case map_of (js_payloads s) (k, i) of
      Some row \<Rightarrow> if queued_in (js_ingest s) (js_pending s) k i
        then AList.update (k, i) row (js_shadow_payloads s)
        else AList.delete (k, i) (js_shadow_payloads s)
    | None \<Rightarrow> AList.delete (k, i) (js_shadow_payloads s))"
  unfolding synced_payloads_def identity_is_queued_eq ..

lemma queued_in_update: "(k, j) \<noteq> (JOB_KIND_INGEST, i) \<Longrightarrow>
    queued_in (AList.update i sc g) pd k j = queued_in g pd k j"
  by (auto simp: queued_in_def)

lemma js_inv_ingest_set:
  assumes "js_inv s" "map_of (js_inflight s JOB_KIND_INGEST) i = None"
  shows "js_inv (ingest_set i sc s)"
proof -
  note inv = js_invD [OF assms(1)]
  let ?t = "set_state i sc s"
  have "payloads_ok (js_ingest ?t) (js_pending ?t) (js_payloads ?t) (synced_payloads JOB_KIND_INGEST i ?t)"
    using inv(3) unfolding synced_payloads_eq
    by (intro payloads_ok_sync)
      (auto simp: shadow_inv_def payloads_ok_def queued_in_update set_state_def Let_def
        simp del: map_of_eq_Some_iff)
  then show ?thesis
    using inv queue_ok_set [OF inv(1), of i sc] claims_ok_set_ingest [OF inv(2) assms(2), of sc]
    by (simp add: js_inv_def shadow_inv_def ingest_set_eq set_state_def Let_def)
qed

lemma js_inv_ingest_pop:
  assumes "js_inv s" "map_of (js_ingest s) i = Some old"
  shows "js_inv (snd (ingest_pop i s))"
proof -
  note inv = js_invD [OF assms(1)]
  have "payloads_ok (AList.delete i (js_ingest s)) (js_pending s) (js_payloads s)
      (AList.delete (JOB_KIND_INGEST, i) (js_shadow_payloads s))"
    using inv(3) by (intro payloads_ok_unqueue [of "js_ingest s" "js_pending s"])
      (auto simp: shadow_inv_def queued_in_def)
  then show ?thesis
    using inv queue_ok_delete [OF inv(1) assms(2)] claims_ok_drop_ingest [OF inv(2), of i]
    by (simp add: js_inv_def shadow_inv_def ingest_pop_eq [OF assms(2)])
qed

lemma js_inv_list_push:
  assumes "js_inv s" "k \<in> set JOB_KINDS_LIST" "i \<notin> set (js_lists s k)" "map_of (js_inflight s k) i = None"
  shows "js_inv (list_push k i s)"
proof -
  note inv = js_invD [OF assms(1)]
  let ?t = "s\<lparr>js_lists := (js_lists s)(k := js_lists s k @ [i]),
          js_pending := (js_pending s)(k := insert i (js_pending s k)),
          js_shadow_lists := (js_shadow_lists s)(k := js_shadow_lists s k @ [i]),
          js_shadow_pending := (js_shadow_pending s)(k := insert i (js_shadow_pending s k))\<rparr>"
  have "payloads_ok (js_ingest ?t) (js_pending ?t) (js_payloads ?t) (synced_payloads k i ?t)"
    using inv(3) unfolding synced_payloads_eq
    by (intro payloads_ok_sync) (auto simp: shadow_inv_def payloads_ok_def queued_in_def simp del: map_of_eq_Some_iff)
  then show ?thesis
    using inv claims_ok_push [OF inv(2) assms(2-4)]
    by (simp add: js_inv_def shadow_inv_def list_push_def shadow_sync_eq)
qed

lemma js_inv_drop_inflight: "js_inv s \<Longrightarrow> js_inv (drop_inflight k i s)"
  by (simp add: js_inv_def shadow_inv_def drop_inflight_def claims_ok_drop)

lemma js_inv_payload_set:
  assumes "js_inv s"
  shows "js_inv (if identity_is_queued k i (payload_set k i n v s)
     then shadow_sync_payload k i (payload_set k i n v s) else payload_set k i n v s)"
proof -
  note inv = js_invD [OF assms]
  let ?t = "payload_set k i n v s"
  have q: "identity_is_queued k i ?t = queued_in (js_ingest s) (js_pending s) k i"
    by (simp add: identity_is_queued_eq payload_set_def)
  have row: "dict_wf (AList.update n v (case map_of (js_payloads s) (k, i) of None \<Rightarrow> [] | Some f \<Rightarrow> f))"
    using inv(3) by (auto simp: shadow_inv_def payloads_ok_def intro!: dict_wf_update split: option.split)
  have "payloads_ok (js_ingest ?t) (js_pending ?t) (js_payloads ?t) (synced_payloads k i ?t)"
    using inv(3) unfolding synced_payloads_eq
    by (intro payloads_ok_sync)
      (auto simp: shadow_inv_def payloads_ok_def payload_set_def dict_wf_update dict_simps row
        simp del: map_of_eq_Some_iff split: if_splits)
  moreover have "\<not> identity_is_queued k i ?t \<Longrightarrow>
      payloads_ok (js_ingest ?t) (js_pending ?t) (js_payloads ?t) (js_shadow_payloads ?t)"
    using inv(3) row unfolding q by (simp add: shadow_inv_def payload_set_def payloads_ok_write)
  ultimately show ?thesis
    using inv by (simp add: js_inv_def shadow_inv_def shadow_sync_eq payload_set_def)
qed

lemma js_inv_forget:
  assumes "js_inv s" "\<not> identity_is_queued k i s"
  shows "js_inv (s\<lparr>js_payloads := AList.delete (k, i) (js_payloads s)\<rparr>)"
  using assms by (simp add: js_inv_def shadow_inv_def identity_is_queued_eq payloads_ok_forget)

lemma js_inv_set_deadline: "js_inv s \<Longrightarrow> js_inv (set_deadline k i d s)"
  by (auto simp: js_inv_def shadow_inv_def set_deadline_def claims_ok_deadline split: option.split)

lemma inflight_facts:
  assumes "js_inv s" "map_of (js_inflight s k) i = Some e"
  shows "k \<in> set JOB_KINDS_ALL" "i \<notin> set (js_lists s k)" "k \<noteq> JOB_KIND_INGEST \<Longrightarrow> k \<in> set JOB_KINDS_LIST"
    "k = JOB_KIND_INGEST \<Longrightarrow> map_of (js_ingest s) i = None" "\<not> identity_is_queued k i s"
proof -
  have c: "claims_inv s" using js_invD [OF assms(1)] by simp
  show k: "k \<in> set JOB_KINDS_ALL" using claims_ok_kind [OF c assms(2)] .
  show l: "i \<notin> set (js_lists s k)" and g: "k = JOB_KIND_INGEST \<Longrightarrow> map_of (js_ingest s) i = None"
    using c assms(2) unfolding claims_ok_def by force+
  show "k \<noteq> JOB_KIND_INGEST \<Longrightarrow> k \<in> set JOB_KINDS_LIST" using k by (simp add: JOB_KINDS_ALL_def)
  have "js_pending s k = set (js_lists s k)" using c by (simp add: claims_ok_def)
  then show "\<not> identity_is_queued k i s"
    using l g by (simp add: identity_is_queued_def map_of_None_iff)
qed

lemma drop_inflight_sel [simp]:
  "js_ingest (drop_inflight k i s) = js_ingest s" "js_lists (drop_inflight k i s) = js_lists s"
  "js_pending (drop_inflight k i s) = js_pending s" "js_payloads (drop_inflight k i s) = js_payloads s"
  "js_inflight (drop_inflight k i s) = (js_inflight s)(k := AList.delete i (js_inflight s k))"
  "js_leases (drop_inflight k i s) = AList.delete (k, i) (js_leases s)"
  by (simp_all add: drop_inflight_def)

text \<open>A claim goes back to its queue: the common part of requeue and reap.\<close>

definition return_job :: "string \<Rightarrow> string \<Rightarrow> rat \<Rightarrow> job_store \<Rightarrow> job_store" where
  "return_job k i sc s =
     (if k = JOB_KIND_INGEST then ingest_set i sc (drop_inflight k i s)
      else list_push k i (drop_inflight k i s))"

lemma js_inv_return_job:
  assumes "js_inv s" "map_of (js_inflight s k) i = Some e"
  shows "js_inv (return_job k i sc s)"
  using assms inflight_facts [OF assms]
  by (auto simp: return_job_def dict_simps intro: js_inv_ingest_set js_inv_list_push js_inv_drop_inflight)

lemma update_twice: "AList.update k v (AList.update k v d) = AList.update k v d"
  by (induction d) auto

lemma shadow_sync_twice [simp]:
  "shadow_sync_payload JOB_KIND_INGEST i (ingest_set i sc s) = ingest_set i sc s"
proof -
  let ?t = "set_state i sc s"
  have "synced_payloads k i (t\<lparr>js_shadow_payloads := synced_payloads k i t\<rparr>) = synced_payloads k i t" for k t
    by (simp add: synced_payloads_eq AList.delete_idem update_twice split: option.split)
  then show ?thesis by (simp add: ingest_set_eq shadow_sync_eq)
qed

lemma holds_claim_iff:
  "holds_claim k i ow s \<longleftrightarrow> (\<exists>d x. map_of (js_inflight s k) i = Some (d, ow, x))"
  by (auto simp: holds_claim_def split: option.splits)

lemma requeue_eq:
  "requeue k i ow sc s =
     (if ow = [] \<or> \<not> holds_claim k i ow s then (False, s)
      else (True, mark_dirty (return_job k i (case sc of None \<Rightarrow> of_int CATCHUP_SCORE_BASE | Some x \<Rightarrow> x) s)))"
  by (simp add: requeue_def return_job_def Let_def)

section \<open>The operations keep the invariant\<close>

named_theorems js_pres \<open>operations that keep the invariant of the store\<close>

lemma js_inv_requeue [js_pres]: "js_inv s \<Longrightarrow> js_inv (snd (requeue k i ow sc s))"
  by (auto simp: requeue_eq holds_claim_iff intro: js_inv_return_job)

lemma js_inv_ack [js_pres]:
  assumes "js_inv s"
  shows "js_inv (snd (ack k i ow s))"
proof (cases "ow = [] \<or> \<not> holds_claim k i ow s")
  case True
  then show ?thesis using assms by (auto simp: ack_def)
next
  case False
  then obtain d x where e: "map_of (js_inflight s k) i = Some (d, ow, x)" by (auto simp: holds_claim_iff)
  note f = inflight_facts [OF assms e]
  have "js_pending s k = set (js_lists s k)" using js_invD(2) [OF assms] by (simp add: claims_ok_def)
  then have pd: "(js_pending s)(k := js_pending s k - {i}) = js_pending s"
    using f by (intro fun_upd_idem) auto
  have "js_inv ((drop_inflight k i s)\<lparr>js_payloads := AList.delete (k, i) (js_payloads s)\<rparr>)"
    using js_inv_forget [of "drop_inflight k i s" k i] f assms
    by (simp add: js_inv_drop_inflight identity_is_queued_eq)
  then show ?thesis using False pd by (simp add: ack_def Let_def js_inv_def shadow_inv_def)
qed

lemma js_inv_zadd [js_pres]:
  assumes "js_inv s"
  shows "js_inv (snd (zadd_ingest cfg i sc fp over_cap s))"
proof -
  have "js_inv (ingest_set i sc s)" if "i \<notin> dict_keys (js_inflight s JOB_KIND_INGEST)"
    using that assms by (simp add: js_inv_ingest_set map_of_None_iff)
  moreover have "js_inv (shadow_sync_payload JOB_KIND_INGEST i (payload_set JOB_KIND_INGEST i n v (ingest_set i sc s)))"
    if "js_inv (ingest_set i sc s)" for n v
  proof -
    have "identity_is_queued JOB_KIND_INGEST i (payload_set JOB_KIND_INGEST i n v (ingest_set i sc s))"
      by (simp add: identity_is_queued_def payload_set_def ingest_set_eq set_state_def Let_def)
    with js_inv_payload_set [OF that, of JOB_KIND_INGEST i n v] show ?thesis by simp
  qed
  ultimately show ?thesis
    using assms by (auto simp: zadd_ingest_def Let_def split: option.split)
qed

lemma js_inv_evict_pop:
  assumes "js_inv (s\<lparr>js_heap_catchup_max := (- sc, i) # h\<rparr>)" "map_of (js_ingest s) i = Some sc"
  defines "u \<equiv> snd (ingest_pop i (s\<lparr>js_heap_catchup_max := h\<rparr>))"
  shows "js_inv (u\<lparr>js_payloads := AList.delete (JOB_KIND_INGEST, i) (js_payloads u)\<rparr>)"
proof (rule js_inv_forget)
  let ?s = "s\<lparr>js_heap_catchup_max := (- sc, i) # h\<rparr>"
  have eq: "u = (snd (ingest_pop i ?s))\<lparr>js_heap_catchup_max := h\<rparr>"
    using assms(2) by (simp add: u_def ingest_pop_eq)
  have "js_inv (snd (ingest_pop i ?s))" by (rule js_inv_ingest_pop [OF assms(1)]) (simp add: assms(2))
  moreover from js_invD(1) [OF this] have "queue_inv u"
    unfolding eq using assms(2)
    by (simp add: ingest_pop_eq) (rule queue_ok_stale(3), assumption, auto simp: dict_simps)
  ultimately show "js_inv u" unfolding eq by (simp add: js_inv_def shadow_inv_def)
  show "\<not> identity_is_queued JOB_KIND_INGEST i u"
    using assms(2) by (simp add: u_def identity_is_queued_def ingest_pop_eq)
qed

lemma js_inv_evict_loop:
  "js_inv (s\<lparr>js_heap_catchup_max := h\<rparr>) \<Longrightarrow> js_inv (snd (evict_loop day h s))"
proof (induction h)
  case Nil
  then show ?case by simp
next
  case (Cons p h)
  obtain ns i where p: "p = (ns, i)" by (cases p)
  show ?case
  proof (cases "map_of (js_ingest s) i = Some (- ns)")
    case False
    have "queue_ok (js_ingest s) (js_heap_hot s) (js_heap_catchup s) h (js_hot_n s) (js_catchup_n s)"
      using queue_ok_stale(3) [OF js_invD(1) [OF Cons.prems], where sc = "- ns" and i = i and h = h]
        False p by simp
    then have "js_inv (s\<lparr>js_heap_catchup_max := h\<rparr>)"
      using Cons.prems by (simp add: js_inv_def shadow_inv_def)
    with False p Cons.IH show ?thesis by simp
  next
    case True
    from Cons.prems p have top: "js_inv (s\<lparr>js_heap_catchup_max := (ns, i) # h\<rparr>)" by simp
    from js_inv_evict_pop [where s = s and sc = "- ns" and i = i and h = h] True top
    have pop: "js_inv ((snd (ingest_pop i (s\<lparr>js_heap_catchup_max := h\<rparr>)))\<lparr>js_payloads := AList.delete (JOB_KIND_INGEST, i)
        (js_payloads (snd (ingest_pop i (s\<lparr>js_heap_catchup_max := h\<rparr>))))\<rparr>)" by simp
    show ?thesis
      unfolding p evict_loop.simps Let_def using True top pop
      by (auto simp del: map_of_eq_Some_iff split: option.split)
  qed
qed

lemma js_inv_evict [js_pres]: "js_inv s \<Longrightarrow> js_inv (snd (evict_youngest_catchup_ingest day s))"
  by (simp add: evict_youngest_catchup_ingest_def js_inv_evict_loop)

lemma js_inv_enqueue [js_pres]:
  assumes "js_inv s" "enqueue_list cfg k i True s = Inr (n, t)"
  shows "js_inv t"
proof -
  have pd: "js_pending s k = set (js_lists s k)"
    using js_invD(2) [OF assms(1)] by (simp add: claims_ok_def)
  have "js_inv (list_push k i s)"
    if "k \<in> set JOB_KINDS_LIST" "i \<notin> js_pending s k" "i \<notin> dict_keys (js_inflight s k)"
    using that assms(1) pd by (intro js_inv_list_push) (auto simp: map_of_None_iff)
  then show ?thesis
    using assms by (auto simp: enqueue_list_def Let_def split: if_splits)
qed

lemma js_inv_claim_list_loop:
  "js_inv s \<Longrightarrow> js_lists s k = q \<Longrightarrow> js_inv (snd (claim_list_loop k ow d q s))"
proof (induction q arbitrary: s)
  case Nil
  then show ?case by (simp add: js_inv_def shadow_inv_def fun_upd_idem)
next
  case (Cons i q)
  let ?t = "s\<lparr>js_lists := (js_lists s)(k := q), js_pending := (js_pending s)(k := js_pending s k - {i}),
      js_shadow_lists := (js_shadow_lists s)(k := shadow_list_drop i (js_shadow_lists s k)),
      js_shadow_pending := (js_shadow_pending s)(k := js_shadow_pending s k - {i}),
      js_shadow_payloads := AList.delete (k, i) (js_shadow_payloads s)\<rparr>"
  note inv = js_invD [OF Cons.prems(1)]
  have free: "map_of (js_inflight s k) i = None" "k \<in> set JOB_KINDS_LIST" "i \<notin> set q"
    using inv(2) Cons.prems(2) unfolding claims_ok_def
    by (metis list.set_intros(1), metis list.distinct(1), metis distinct.simps(2))
  have "payloads_ok (js_ingest s) ((js_pending s)(k := js_pending s k - {i})) (js_payloads s)
      (AList.delete (k, i) (js_shadow_payloads s))"
    using inv(3) free(2) by (intro payloads_ok_unqueue [of "js_ingest s" "js_pending s"])
      (auto simp: shadow_inv_def queued_in_def)
  then have t: "js_inv ?t"
    using inv claims_ok_pop [OF inv(2) Cons.prems(2)] Cons.prems(2)
    by (simp add: js_inv_def shadow_inv_def shadow_list_drop_def)
  have "js_inv (?t\<lparr>js_inflight := (js_inflight ?t)(k := AList.update i (d, ow, None) (js_inflight ?t k)),
      js_leases := AList.update (k, i) ow (js_leases ?t)\<rparr>)"
    using t claims_ok_claim [OF js_invD(2) [OF t], of k i d ow None] free
    by (simp add: js_inv_def shadow_inv_def)
  with free show ?case by (simp add: Let_def map_of_None_iff)
qed

lemma js_inv_claim_list [js_pres]:
  "js_inv s \<Longrightarrow> claim_list cfg now k ow ttl s = Inr (j, t) \<Longrightarrow> js_inv t"
  using js_inv_claim_list_loop [of s k _ ow "now + of_int (claim_ttl cfg ttl)"]
  by (auto simp: claim_list_def split: if_splits)

lemma js_inv_reorder [js_pres]: "js_inv s \<Longrightarrow> js_inv (snd (reorder_list k xs s))"
  by (auto simp: reorder_list_def Let_def mark_dirty_def js_inv_def shadow_inv_def claims_ok_reorder)

lemma js_inv_extend [js_pres]: "js_inv s \<Longrightarrow> js_inv (snd (extend_inflight_deadline now k i x s))"
  by (simp add: extend_inflight_deadline_def js_inv_set_deadline)

lemma js_inv_renew [js_pres]: "js_inv s \<Longrightarrow> js_inv (snd (renew_job_lease cfg now k i ow ttl s))"
  by (auto simp: renew_job_lease_def Let_def holds_claim_iff set_deadline_def js_inv_def shadow_inv_def
      claims_ok_deadline)

lemma js_inv_sync_if_queued: "js_inv s \<Longrightarrow> js_inv (sync_if_queued k i (payload_set k i n v s))"
  using js_inv_payload_set [of s k i n v] by (simp add: sync_if_queued_def split: if_splits)

lemma js_inv_write_fingerprint [js_pres]: "js_inv s \<Longrightarrow> js_inv (write_job_fingerprint k i fp s)"
  by (simp add: write_job_fingerprint_def js_inv_sync_if_queued)

lemma js_inv_write_field [js_pres]: "js_inv s \<Longrightarrow> js_inv (write_job_payload_field k i n v s)"
  using js_inv_payload_set [of s k i n v] by (simp add: write_job_payload_field_def Let_def)

lemma js_inv_bump [js_pres]: "js_inv s \<Longrightarrow> bump_job_attempt k i s = Inr (m, t) \<Longrightarrow> js_inv t"
  by (auto simp: bump_job_attempt_def Let_def js_inv_sync_if_queued split: option.splits)

lemma reap_loop_Cons:
  "reap_loop k cutoff want ((i, d, ow, sc) # items) out s =
     (if length out \<ge> want then (out, s)
      else if d > cutoff then reap_loop k cutoff want items out s
      else reap_loop k cutoff want items (out @ [i])
        (mark_dirty (return_job k i (penalize_ingest_score sc) s)))"
  by (simp add: return_job_def Let_def)

lemma return_job_inflight:
  "js_inflight (return_job k i sc s) = (js_inflight s)(k := AList.delete i (js_inflight s k))"
  by (simp add: return_job_def ingest_set_eq set_state_def Let_def list_push_def shadow_sync_eq)

lemma mark_dirty_sel [simp]:
  "js_inflight (mark_dirty s) = js_inflight s" "js_ingest (mark_dirty s) = js_ingest s"
  "js_lists (mark_dirty s) = js_lists s" "js_payloads (mark_dirty s) = js_payloads s"
  "js_leases (mark_dirty s) = js_leases s" "js_pending (mark_dirty s) = js_pending s"
  "js_archive_dir (mark_dirty s) = js_archive_dir s"
  by (simp_all add: mark_dirty_def)

lemma js_inv_reap_loop:
  assumes "js_inv s" "dict_wf items" "\<And>i e. map_of items i = Some e \<Longrightarrow> map_of (js_inflight s k) i = Some e"
  shows "js_inv (snd (reap_loop k cutoff want items out s))"
  using assms
proof (induction items arbitrary: out s)
  case Nil
  then show ?case by simp
next
  case (Cons p items)
  obtain i d ow sc where p: "p = (i, d, ow, sc)" by (cases p) auto
  let ?t = "mark_dirty (return_job k i (penalize_ingest_score sc) s)"
  have "map_of (js_inflight s k) i = Some (d, ow, sc)" using Cons.prems(3) [of i] p by simp
  then have t: "js_inv ?t" using Cons.prems(1) by (simp add: js_inv_return_job)
  have neq: "map_of items j \<noteq> None \<Longrightarrow> j \<noteq> i" for j
    using Cons.prems(2) p by (auto simp: map_of_None_iff)
  have rest: "map_of (js_inflight s k) j = Some e" "j \<noteq> i" if "map_of items j = Some e" for j e
    using that neq [of j] Cons.prems(3) [of j e] p by auto
  have "js_inv (snd (reap_loop k cutoff want items o' s))" for o'
    using Cons.prems rest by (intro Cons.IH) auto
  moreover have "js_inv (snd (reap_loop k cutoff want items o' ?t))" for o'
    using t Cons.prems(2) rest by (intro Cons.IH) (auto simp: return_job_inflight dict_simps)
  ultimately show ?case
    using Cons.prems(1) unfolding p reap_loop_Cons by simp
qed

lemma js_inv_reap [js_pres]: "js_inv s \<Longrightarrow> js_inv (snd (reap_expired_inflight now k m s))"
  using js_inv_reap_loop [of s "js_inflight s k" k "now - INFLIGHT_REAP_GRACE_FLOOR_S" "nat (max 1 m)" "[]"]
  by (auto simp: reap_expired_inflight_def persist_lazy_def claims_ok_def dest: js_invD(2) split: prod.split)

lemma js_inv_steal_loop: "js_inv s \<Longrightarrow> js_inv (snd (steal_loop env h b items n s))"
proof (induction items arbitrary: n s)
  case (Cons p items)
  obtain k i ow where "p = ((k, i), ow)" by (metis prod.exhaust)
  then show ?case
    using Cons js_inv_requeue [OF Cons.prems, of k i ow None] by (auto split: prod.split)
qed simp

lemma js_inv_steal [js_pres]: "js_inv s \<Longrightarrow> js_inv (snd (steal_dead_owner_leases env h b s))"
  by (simp add: steal_dead_owner_leases_def js_inv_steal_loop)

lemma js_inv_reconcile_loop: "js_inv s \<Longrightarrow> js_inv (snd (reconcile_loop k known ow items n s))"
proof (induction items arbitrary: n s)
  case (Cons p items)
  obtain i d o' sc where "p = (i, d, o', sc)" by (metis prod.exhaust)
  then show ?case
    using Cons js_inv_requeue [OF Cons.prems, of k i o' sc] by (auto split: prod.split)
qed simp

lemma js_inv_reconcile [js_pres]: "js_inv s \<Longrightarrow> js_inv (snd (reconcile_this_owner_orphan_leases k local ow s))"
  by (simp add: reconcile_this_owner_orphan_leases_def js_inv_reconcile_loop)

text \<open>A lease is never left behind without its claim, so the last branch is not reached.\<close>

lemma steal_one_eq:
  assumes "js_inv s"
  shows "steal_job_lease_if_owner_dead env k i h b s =
     (case map_of (js_leases s) (k, i) of
        None \<Rightarrow> (False, s)
      | Some ow \<Rightarrow> if ow = [] \<or> \<not> owner_is_dead env h b ow then (False, s) else requeue k i ow None s)"
proof (cases "map_of (js_leases s) (k, i)")
  case None
  then show ?thesis by (simp add: steal_job_lease_if_owner_dead_def)
next
  case (Some ow)
  then have "holds_claim k i ow s"
    using js_invD(2) [OF assms] by (auto simp: claims_ok_def holds_claim_iff)
  with Some show ?thesis by (simp add: steal_job_lease_if_owner_dead_def requeue_eq)
qed

lemma js_inv_steal_one [js_pres]:
  "js_inv s \<Longrightarrow> js_inv (snd (steal_job_lease_if_owner_dead env k i h b s))"
  by (simp add: steal_one_eq js_inv_requeue split: option.split)

end
