(* ===== verification/Job_Board.thy ===== *)
theory Job_Board
  imports Job_Store_Inv
begin

text \<open>
  The abstract specification of the job store: a board of queued scores, FIFO lists, in-flight
  claims and payload rows, without heaps, counters, leases, dedupe sets or shadow. \<open>board\<close> reads a
  store as a board. Shown here: the claim loop over the lazy heap terminates and takes exactly the
  least queued jobs of its band; the operations of a claim's owner (ack, requeue, renew) refine
  their effect on the board and refuse every other token (locale \<open>owner_guarded\<close>).
\<close>

section \<open>The abstract board\<close>

record job_board =
  jb_ingest :: "string \<rightharpoonup> rat"
  jb_lists :: "string \<Rightarrow> string list"
  jb_inflight :: "job_key \<rightharpoonup> inflight_entry"
  jb_payloads :: "job_key \<rightharpoonup> payload_fields"

definition board :: "job_store \<Rightarrow> job_board" where
  "board s = \<lparr>jb_ingest = map_of (js_ingest s), jb_lists = js_lists s,
     jb_inflight = (\<lambda>(k, i). map_of (js_inflight s k) i), jb_payloads = map_of (js_payloads s)\<rparr>"

definition in_band :: "string \<Rightarrow> rat \<Rightarrow> bool" where
  "in_band band sc = (decode_ingest_band sc = band)"

definition ranked :: "string \<Rightarrow> (string \<rightharpoonup> rat) \<Rightarrow> (rat \<times> string) list" where
  "ranked band m = sorted_list_of_set {(sc, i). m i = Some sc \<and> in_band band sc}"

definition board_take :: "string \<Rightarrow> rat \<Rightarrow> rat \<times> string \<Rightarrow> job_board \<Rightarrow> job_board" where
  "board_take ow d p b = b\<lparr>jb_ingest := (jb_ingest b)(snd p := None),
     jb_inflight := (jb_inflight b)((JOB_KIND_INGEST, snd p) \<mapsto> (d, ow, Some (fst p)))\<rparr>"

definition board_field :: "job_board \<Rightarrow> job_key \<Rightarrow> string \<Rightarrow> string" where
  "board_field b k n = (case jb_payloads b k of None \<Rightarrow> []
     | Some row \<Rightarrow> (case map_of row n of None \<Rightarrow> [] | Some v \<Rightarrow> v))"

definition board_claim :: "string \<Rightarrow> rat \<Rightarrow> job_board \<Rightarrow> rat \<times> string \<Rightarrow> claimed_job" where
  "board_claim ow d b p = \<lparr>cj_kind = JOB_KIND_INGEST, cj_identity = snd p, cj_owner_token = ow,
     cj_deadline = d, cj_score = Some (fst p),
     cj_fingerprint = board_field b (JOB_KIND_INGEST, snd p) ''fingerprint'',
     cj_emit = board_field b (JOB_KIND_INGEST, snd p) ''emit''\<rparr>"

section \<open>The claim loop is an exact priority queue\<close>

lemma finite_ranked: "finite (dom m) \<Longrightarrow> finite {(sc, i). m i = Some sc \<and> P sc}"
  by (rule finite_subset [of _ "(\<lambda>i. (the (m i), i)) ` dom m"]) force+

lemma ranked_Cons:
  assumes "finite (dom m)" "m i = Some sc" "in_band band sc"
    and least: "\<And>sc' j. m j = Some sc' \<Longrightarrow> in_band band sc' \<Longrightarrow> (sc, i) \<le> (sc', j)"
  shows "ranked band m = (sc, i) # ranked band (m(i := None))"
proof -
  let ?A = "{(sc, i). m i = Some sc \<and> in_band band sc}"
  have fin: "finite ?A" by (rule finite_ranked [OF assms(1)])
  have mem: "(sc, i) \<in> ?A" using assms by simp
  have min: "Min ?A = (sc, i)"
  proof (rule Min_eqI [OF fin _ mem])
    fix p assume "p \<in> ?A"
    then obtain sc' j where "p = (sc', j)" "m j = Some sc'" "in_band band sc'" by blast
    then show "(sc, i) \<le> p" using least by blast
  qed
  have del: "?A - {(sc, i)} = {(sc', j). (m(i := None)) j = Some sc' \<and> in_band band sc'}"
  proof (rule set_eqI)
    fix p show "p \<in> ?A - {(sc, i)} \<longleftrightarrow> p \<in> {(sc', j). (m(i := None)) j = Some sc' \<and> in_band band sc'}"
      using assms(2) by (cases p) (cases "snd p = i"; simp)
  qed
  have "?A \<noteq> {}" using mem by blast
  from sorted_list_of_set_nonempty [OF fin this] show ?thesis
    unfolding ranked_def min del .
qed

lemma ranked_empty: "(\<And>i sc. m i = Some sc \<Longrightarrow> \<not> in_band band sc) \<Longrightarrow> ranked band m = []"
proof -
  assume "\<And>i sc. m i = Some sc \<Longrightarrow> \<not> in_band band sc"
  then have "{(sc, i). m i = Some sc \<and> in_band band sc} = {}" by blast
  then show ?thesis unfolding ranked_def by (simp only: sorted_list_of_set_empty)
qed

text \<open>The weight of a heap entry that a claim will have to re-arm is two.\<close>

definition entry_weight :: "(string \<rightharpoonup> rat) \<Rightarrow> rat \<times> string \<Rightarrow> nat" where
  "entry_weight m p = (case m (snd p) of None \<Rightarrow> 1 | Some live \<Rightarrow> if live = fst p then 1 else 2)"

definition heap_weight :: "(string \<rightharpoonup> rat) \<Rightarrow> (rat \<times> string) list \<Rightarrow> nat" where
  "heap_weight m h = sum_list (map (entry_weight m) h)"

lemma heap_weight_push: "heap_weight m (heappush p h) = entry_weight m p + heap_weight m h"
proof -
  have "mset (map (entry_weight m) (heappush p h)) = mset (map (entry_weight m) (p # h))"
    by (simp add: heappush_def)
  then show ?thesis unfolding heap_weight_def by (metis list.map(2) sum_list.Cons sum_mset_sum_list)
qed

lemma heap_weight_Cons: "heap_weight m (p # h) = entry_weight m p + heap_weight m h"
  by (simp add: heap_weight_def)

lemma heap_weight_del: "heap_weight (m(i := None)) h \<le> heap_weight m h"
  unfolding heap_weight_def by (rule sum_list_mono) (auto simp: entry_weight_def split: option.split)

lemma entry_weight_pos: "0 < entry_weight m p"
  by (auto simp: entry_weight_def split: option.split)

lemma band_heap_stale:
  assumes "js_inv s" "ingest_heap_for_band band s = (sc, i) # h" "map_of (js_ingest s) i \<noteq> Some sc"
  shows "js_inv (set_heap_for_band band h s)"
  using assms queue_ok_stale(1) [OF js_invD(1) [OF assms(1)], of sc i h]
    queue_ok_stale(2) [OF js_invD(1) [OF assms(1)], of sc i h]
  by (auto simp: js_inv_def shadow_inv_def set_heap_for_band_def ingest_heap_for_band_def split: if_splits)

lemma set_heap_sel [simp]:
  "js_ingest (set_heap_for_band band h s) = js_ingest s" "js_inflight (set_heap_for_band band h s) = js_inflight s"
  "js_lists (set_heap_for_band band h s) = js_lists s" "js_payloads (set_heap_for_band band h s) = js_payloads s"
  "ingest_heap_for_band band (set_heap_for_band band h s) = h"
  by (simp_all add: set_heap_for_band_def ingest_heap_for_band_def)

lemma queue_ok_rearm:
  assumes "queue_ok g hh hc hm a b" "map_of g i = Some sc"
  shows "queue_ok g (pushed_hot i sc hh) (pushed_catchup i sc hc) (pushed_max i sc g hm) a b"
proof -
  have "\<forall>(j, q) \<in> set g. if q < of_int CATCHUP_SCORE_BASE then (q, j) \<in> set (pushed_hot i sc hh)
      else (q, j) \<in> set (pushed_catchup i sc hc) \<and> (- q, j) \<in> set (pushed_max i sc g hm)"
    using assms(1) in_pushed_max [of _ _ g hm i sc]
    by (fastforce simp: queue_ok_def set_pushed_hot set_pushed_catchup)
  moreover have "\<forall>(q, j) \<in> set (pushed_hot i sc hh). q < of_int CATCHUP_SCORE_BASE"
      "\<forall>(q, j) \<in> set (pushed_catchup i sc hc). of_int CATCHUP_SCORE_BASE \<le> q"
    using assms(1) by (auto simp: queue_ok_def set_pushed_hot set_pushed_catchup)
  ultimately show ?thesis
    using assms(1) unfolding queue_ok_def by (simp only: sorted_pushed)
qed

lemma js_inv_rearm:
  "js_inv s \<Longrightarrow> map_of (js_ingest s) i = Some sc \<Longrightarrow> js_inv (ingest_heap_push i sc s)"
  by (simp add: js_inv_def shadow_inv_def ingest_heap_push_eq queue_ok_rearm)

definition score_integral :: "rat \<Rightarrow> bool" where
  "score_integral sc \<longleftrightarrow> sc = of_int \<lfloor>sc\<rfloor>"

lemma score_integral_of_int [simp]: "score_integral (of_int n)"
  by (simp add: score_integral_def)

definition scores_integral :: "job_store \<Rightarrow> bool" where
  "scores_integral s \<longleftrightarrow> list_all (\<lambda>(i, sc). score_integral sc) (js_ingest s)"

lemma scores_integralD: "scores_integral s \<Longrightarrow> map_of (js_ingest s) i = Some sc \<Longrightarrow> score_integral sc"
  by (auto simp: scores_integral_def list_all_iff dest: map_of_SomeD)

lemma band_heap_iff:
  assumes "js_inv s" "band \<in> {''hot'', ''catchup''}"
  shows "map_of (js_ingest s) i = Some sc \<Longrightarrow> in_band band sc \<Longrightarrow> (sc, i) \<in> set (ingest_heap_for_band band s)"
    and "(sc, i) \<in> set (ingest_heap_for_band band s) \<Longrightarrow> in_band band sc"
    and "sorted (ingest_heap_for_band band s)"
proof -
  note q = js_invD(1) [OF assms(1)]
  show "map_of (js_ingest s) i = Some sc \<Longrightarrow> in_band band sc \<Longrightarrow> (sc, i) \<in> set (ingest_heap_for_band band s)"
    using q assms(2) by (fastforce simp: queue_ok_def ingest_heap_for_band_def in_band_def dest: map_of_SomeD)
  show "(sc, i) \<in> set (ingest_heap_for_band band s) \<Longrightarrow> in_band band sc"
    using q assms(2) by (fastforce simp: queue_ok_def ingest_heap_for_band_def in_band_def)
  show "sorted (ingest_heap_for_band band s)"
    using q by (simp add: queue_ok_def ingest_heap_for_band_def)
qed

lemma band_in_range:
  assumes "ingest_score_range band = Inr (lo, hi)" "band \<in> {''hot'', ''catchup''}" "in_band band sc" "score_integral sc"
  shows "bound_le lo sc \<and> le_bound sc hi"
proof -
  have "sc \<le> of_int CATCHUP_SCORE_BASE - 1" if "sc < of_int CATCHUP_SCORE_BASE"
  proof -
    have "of_int \<lfloor>sc\<rfloor> < (of_int CATCHUP_SCORE_BASE :: rat)"
      using that assms(4) by (simp add: score_integral_def)
    then have "\<lfloor>sc\<rfloor> \<le> CATCHUP_SCORE_BASE - 1" by simp
    then have "of_int \<lfloor>sc\<rfloor> \<le> (of_int (CATCHUP_SCORE_BASE - 1) :: rat)" by (simp only: of_int_le_iff)
    then show ?thesis using assms(4) by (simp add: score_integral_def)
  qed
  with assms show ?thesis by (auto simp: ingest_score_range_def in_band_def)
qed

lemma claim_one_spec:
  fixes ow :: string and d :: rat
  assumes "js_inv s" "band \<in> {''hot'', ''catchup''}"
    and h: "ingest_heap_for_band band s = (sc, i) # h" and live: "map_of (js_ingest s) i = Some sc"
  defines "c \<equiv> claim_one i ow d sc (set_heap_for_band band h s)"
  shows "fst c = board_claim ow d (board s) (sc, i)" "board (snd c) = board_take ow d (sc, i) (board s)"
    "js_inv (snd c)" "ingest_heap_for_band band (snd c) = h"
    "js_ingest (snd c) = AList.delete i (js_ingest s)"
proof -
  let ?s0 = "set_heap_for_band band h s"
  have live0: "map_of (js_ingest ?s0) i = Some sc" using live by simp
  note pop = ingest_pop_eq [OF live0]
  show "fst c = board_claim ow d (board s) (sc, i)"
    by (simp add: c_def claim_one_def Let_def pop board_claim_def board_field_def board_def payload_text_def)
  show "board (snd c) = board_take ow d (sc, i) (board s)"
    by (auto simp: c_def claim_one_def Let_def pop board_take_def board_def dict_simps fun_eq_iff)
  show "ingest_heap_for_band band (snd c) = h"
    unfolding c_def claim_one_def Let_def pop
    by (simp add: ingest_heap_for_band_def set_heap_for_band_def)
  show "js_ingest (snd c) = AList.delete i (js_ingest s)"
    by (simp add: c_def claim_one_def Let_def pop)
  let ?t = "snd (ingest_pop i s)"
  have t: "js_inv ?t" by (rule js_inv_ingest_pop [OF assms(1) live])
  have ht: "ingest_heap_for_band band ?t = (sc, i) # h"
    using h by (simp add: ingest_pop_eq [OF live] ingest_heap_for_band_def split: if_splits)
  have u: "js_inv (set_heap_for_band band h ?t)"
    using band_heap_stale [OF t ht] by (simp add: ingest_pop_eq [OF live] dict_simps)
  have eq: "snd (ingest_pop i ?s0) = set_heap_for_band band h ?t"
    unfolding pop by (simp add: ingest_pop_eq [OF live] set_heap_for_band_def)
  let ?u = "set_heap_for_band band h ?t"
  have "js_lists s JOB_KIND_INGEST = []"
    using js_invD(2) [OF assms(1)] by (simp add: claims_ok_def)
  then have "js_inv (?u\<lparr>js_inflight := (js_inflight ?u)(JOB_KIND_INGEST :=
      AList.update i (d, ow, Some sc) (js_inflight ?u JOB_KIND_INGEST)),
      js_leases := AList.update (JOB_KIND_INGEST, i) ow (js_leases ?u)\<rparr>)"
    using u claims_ok_claim [OF js_invD(2) [OF u], of JOB_KIND_INGEST i d ow "Some sc"]
    by (simp add: js_inv_def shadow_inv_def ingest_pop_eq [OF live] dict_simps)
  then show "js_inv (snd c)" unfolding c_def claim_one_def Let_def eq snd_conv .
qed

lemma board_heap_cong:
  "board (set_heap_for_band band h s) = board s" "board (ingest_heap_push i sc s) = board s"
  by (simp_all add: board_def ingest_heap_push_eq)

lemma heap_weight_rearm:
  assumes "band \<in> {''hot'', ''catchup''}" "map_of (js_ingest s) i = Some live" "live \<noteq> sc"
    "ingest_heap_for_band band s = (sc, i) # h"
  defines "t \<equiv> ingest_heap_push i live (set_heap_for_band band h s)"
  shows "heap_weight (map_of (js_ingest t)) (ingest_heap_for_band band t) <
    heap_weight (map_of (js_ingest s)) (ingest_heap_for_band band s)"
proof -
  let ?m = "map_of (js_ingest s)"
  have "ingest_heap_for_band band t = h \<or> ingest_heap_for_band band t = heappush (live, i) h"
    using assms(1) by (auto simp: t_def ingest_heap_push_eq ingest_heap_for_band_def
        set_heap_for_band_def pushed_hot_def pushed_catchup_def)
  moreover have "js_ingest t = js_ingest s" by (simp add: t_def ingest_heap_push_eq)
  moreover have "entry_weight ?m (sc, i) = 2" "entry_weight ?m (live, i) = 1"
    using assms(2,3) by (simp_all add: entry_weight_def)
  ultimately show ?thesis
    unfolding assms(4) by (auto simp: heap_weight_Cons heap_weight_push)
qed

lemma take_Suc_diff: "n < m \<Longrightarrow> take (m - n) (x # xs) = x # take (m - Suc n) xs"
  by (simp add: Suc_diff_Suc [symmetric])

text \<open>One round of the loop: a dead head is dropped, a stale one re-armed, a live one claimed.\<close>

lemma loop_dead:
  assumes "ingest_heap_for_band band s = (sc, i) # h" "length claimed < want" "map_of (js_ingest s) i = None"
  shows "claim_ingest_loop band lo hi ow d want claimed s =
    claim_ingest_loop band lo hi ow d want claimed (set_heap_for_band band h s)"
  using assms by (subst claim_ingest_loop.simps) (simp add: Let_def)

lemma queued_not_inflight:
  "js_inv s \<Longrightarrow> map_of (js_ingest s) i = Some live \<Longrightarrow> i \<notin> dict_keys (js_inflight s JOB_KIND_INGEST)"
  using js_invD(2) [of s] unfolding claims_ok_def map_of_None_iff [symmetric] by simp

lemma loop_rearm:
  assumes "js_inv s" "ingest_heap_for_band band s = (sc, i) # h" "length claimed < want"
    "map_of (js_ingest s) i = Some live" "live \<noteq> sc"
  shows "claim_ingest_loop band lo hi ow d want claimed s =
    claim_ingest_loop band lo hi ow d want claimed (ingest_heap_push i live (set_heap_for_band band h s))"
  using assms queued_not_inflight [OF assms(1,4)] by (subst claim_ingest_loop.simps) (simp add: Let_def)

lemma loop_take:
  fixes ow :: string and d :: rat
  assumes "js_inv s" "scores_integral s" "band \<in> {''hot'', ''catchup''}"
    "ingest_score_range band = Inr (lo, hi)"
    and heap: "ingest_heap_for_band band s = (sc, i) # h" and "length claimed < want"
    and live: "map_of (js_ingest s) i = Some sc"
  defines "c \<equiv> claim_one i ow d sc (set_heap_for_band band h s)"
  shows "claim_ingest_loop band lo hi ow d want claimed s =
    claim_ingest_loop band lo hi ow d want (claimed @ [fst c]) (snd c)"
proof -
  have "in_band band sc" using band_heap_iff(2) [OF assms(1,3), of sc i] heap by simp
  then have "bound_le lo sc \<and> le_bound sc hi"
    using band_in_range [OF assms(4,3)] scores_integralD [OF assms(2) live] by simp
  then show ?thesis
    using assms(5-8) queued_not_inflight [OF assms(1) live]
    by (subst claim_ingest_loop.simps) (simp add: Let_def del: map_of_eq_Some_iff)
qed

lemma ranked_head:
  assumes "js_inv s" "band \<in> {''hot'', ''catchup''}" "ingest_heap_for_band band s = (sc, i) # h"
    and live: "map_of (js_ingest s) i = Some sc"
  shows "ranked band (map_of (js_ingest s)) = (sc, i) # ranked band ((map_of (js_ingest s))(i := None))"
proof (rule ranked_Cons [OF finite_dom_map_of live])
  show "in_band band sc" using band_heap_iff(2) [OF assms(1,2), of sc i] assms(3) by simp
  fix sc' j assume "map_of (js_ingest s) j = Some sc'" "in_band band sc'"
  then have "(sc', j) \<in> set (ingest_heap_for_band band s)"
    by (rule band_heap_iff(1) [OF assms(1,2)])
  then show "(sc, i) \<le> (sc', j)"
    using band_heap_iff(3) [OF assms(1,2)] unfolding assms(3) by auto
qed

lemma board_claim_take [simp]: "board_claim ow d (board_take ow d p b) = board_claim ow d b"
  by (simp add: fun_eq_iff board_claim_def board_field_def board_take_def)

lemma jb_ingest_board [simp]: "jb_ingest (board s) = map_of (js_ingest s)"
  by (simp add: board_def)

lemma claim_loop_spec:
  assumes "js_inv s" "scores_integral s" and band: "band \<in> {''hot'', ''catchup''}"
    and range: "ingest_score_range band = Inr (lo, hi)"
  shows "\<exists>s'. claim_ingest_loop band lo hi ow d want claimed s =
      Some (claimed @ map (board_claim ow d (board s))
        (take (want - length claimed) (ranked band (map_of (js_ingest s)))), s') \<and>
      js_inv s' \<and> board s' = fold (board_take ow d)
        (take (want - length claimed) (ranked band (map_of (js_ingest s)))) (board s)"
  using assms(1,2)
proof (induction "heap_weight (map_of (js_ingest s)) (ingest_heap_for_band band s)"
    arbitrary: s claimed rule: less_induct)
  case less
  note inv = less.prems(1) and int = less.prems(2)
  consider "\<not> length claimed < want" | "ingest_heap_for_band band s = []"
    | sc i h where "length claimed < want" "ingest_heap_for_band band s = (sc, i) # h"
    by (metis list.exhaust surj_pair)
  then show ?case
  proof cases
    case 1
    then show ?thesis using inv by (subst claim_ingest_loop.simps) simp
  next
    case 2
    then have "ranked band (map_of (js_ingest s)) = []"
      using band_heap_iff(1) [OF inv band] by (intro ranked_empty) force
    with 2 inv show ?thesis by (subst claim_ingest_loop.simps) simp
  next
    case (3 sc i h)
    note room = 3(1) and heap = 3(2)
    let ?m = "map_of (js_ingest s)" and ?s0 = "set_heap_for_band band h s"
    have lt0: "heap_weight ?m h < heap_weight ?m (ingest_heap_for_band band s)"
      using entry_weight_pos [of ?m "(sc, i)"] by (simp add: heap heap_weight_Cons)
    consider "?m i = None" | live where "?m i = Some live" "live \<noteq> sc" | "?m i = Some sc" by fastforce
    then show ?thesis
    proof cases
      case 1
      then have "js_inv ?s0" using band_heap_stale [OF inv heap] by simp
      then show ?thesis
        using less.hyps [of ?s0 claimed] lt0 int loop_dead [OF heap room 1]
        by (simp add: board_heap_cong scores_integral_def)
    next
      case (2 live)
      let ?t = "ingest_heap_push i live ?s0"
      have "js_inv ?t" using band_heap_stale [OF inv heap] 2 by (simp add: js_inv_rearm)
      moreover have "js_ingest ?t = js_ingest s" by (simp add: ingest_heap_push_eq)
      ultimately show ?thesis
        using less.hyps [OF heap_weight_rearm [OF band 2 heap], of claimed] int
        by (simp add: loop_rearm [OF inv heap room 2] board_heap_cong scores_integral_def)
    next
      case live: 3
      let ?c = "claim_one i ow d sc ?s0"
      note c = claim_one_spec [OF inv band heap live, of ow d]
      have "scores_integral (snd ?c)"
        using int by (auto simp: scores_integral_def c(5) list_all_iff set_delete_dict)
      moreover have "heap_weight (map_of (js_ingest (snd ?c))) (ingest_heap_for_band band (snd ?c)) <
          heap_weight ?m (ingest_heap_for_band band s)"
        using lt0 heap_weight_del [of ?m i h] by (simp add: c(4,5) dict_simps)
      ultimately show ?thesis
        using less.hyps [of "snd ?c" "claimed @ [fst ?c]"] c(3)
        unfolding loop_take [OF inv int band range heap room live] ranked_head [OF inv band heap live]
          take_Suc_diff [OF room] c(1,2)
        by (simp add: c(5) dict_simps)
    qed
  qed
qed

section \<open>The operations on the board\<close>

lemma board_mark_dirty [simp]: "board (mark_dirty s) = board s"
  by (simp add: board_def)

definition board_owner :: "job_board \<Rightarrow> job_key \<Rightarrow> string option" where
  "board_owner b k = map_option (fst \<circ> snd) (jb_inflight b k)"

definition board_release :: "job_key \<Rightarrow> job_board \<Rightarrow> job_board" where
  "board_release k b = b\<lparr>jb_inflight := (jb_inflight b)(k := None)\<rparr>"

definition board_queue :: "job_key \<Rightarrow> rat \<Rightarrow> job_board \<Rightarrow> job_board" where
  "board_queue k sc b =
     (if fst k = JOB_KIND_INGEST then b\<lparr>jb_ingest := (jb_ingest b)(snd k \<mapsto> sc)\<rparr>
      else b\<lparr>jb_lists := (jb_lists b)(fst k := jb_lists b (fst k) @ [snd k])\<rparr>)"

definition board_forget :: "job_key \<Rightarrow> job_board \<Rightarrow> job_board" where
  "board_forget k b = b\<lparr>jb_payloads := (jb_payloads b)(k := None)\<rparr>"

definition board_deadline :: "job_key \<Rightarrow> rat \<Rightarrow> job_board \<Rightarrow> job_board" where
  "board_deadline k d b = b\<lparr>jb_inflight := (jb_inflight b)(k := map_option (\<lambda>(_, ow, x). (d, ow, x)) (jb_inflight b k))\<rparr>"

lemma holds_claim_board: "holds_claim k i ow s \<longleftrightarrow> board_owner (board s) (k, i) = Some ow"
  by (auto simp: holds_claim_iff board_owner_def board_def)

lemma board_ingest_set: "board (ingest_set i sc s) = board_queue (JOB_KIND_INGEST, i) sc (board s)"
  by (simp add: board_def ingest_set_eq set_state_def Let_def board_queue_def AList.update_conv')

lemma board_list_push: "k \<noteq> JOB_KIND_INGEST \<Longrightarrow> board (list_push k i s) = board_queue (k, i) sc (board s)"
  by (simp add: board_def list_push_def shadow_sync_eq board_queue_def)

lemma board_drop_inflight: "board (drop_inflight k i s) = board_release (k, i) (board s)"
  by (auto simp: board_def board_release_def fun_eq_iff AList.delete_conv')

lemma board_return_job: "board (return_job k i sc s) = board_queue (k, i) sc (board_release (k, i) (board s))"
  by (simp add: return_job_def board_ingest_set board_list_push [where sc = sc] board_drop_inflight)

lemma board_set_deadline: "board (set_deadline k i d s) = board_deadline (k, i) d (board s)"
  by (auto simp: board_def board_deadline_def set_deadline_def fun_eq_iff AList.update_conv'
      split: option.split)

lemma board_leases: "board (s\<lparr>js_leases := l\<rparr>) = board s"
  by (simp add: board_def)

lemma board_ack:
  "ow \<noteq> [] \<Longrightarrow> holds_claim k i ow s \<Longrightarrow>
   board (snd (ack k i ow s)) = board_forget (k, i) (board_release (k, i) (board s))"
  by (auto simp: ack_def Let_def board_def board_release_def board_forget_def drop_inflight_def
      fun_eq_iff AList.delete_conv')

text \<open>
  The operations of a claim's owner: an empty token or one that does not hold the claim gets
  \<open>False\<close> and changes nothing; the holder's token is accepted and has its effect on the board.
\<close>

locale owner_guarded =
  fixes op :: "string \<Rightarrow> string \<Rightarrow> string \<Rightarrow> job_store \<Rightarrow> bool \<times> job_store"
    and effect :: "job_key \<Rightarrow> job_board \<Rightarrow> job_board"
  assumes refused: "ow = [] \<or> \<not> holds_claim k i ow s \<Longrightarrow> op k i ow s = (False, s)"
    and accepted: "ow \<noteq> [] \<Longrightarrow> holds_claim k i ow s \<Longrightarrow>
      fst (op k i ow s) \<and> board (snd (op k i ow s)) = effect (k, i) (board s)"
begin

lemma success_iff: "fst (op k i ow s) \<longleftrightarrow> ow \<noteq> [] \<and> board_owner (board s) (k, i) = Some ow"
  using refused [of ow k i s] accepted [of ow k i s] unfolding holds_claim_board by (metis fst_conv)

lemma one_owner: "fst (op k i ow s) \<Longrightarrow> fst (op k i ow' s) \<Longrightarrow> ow = ow'"
  by (simp add: success_iff)

lemma refines:
  "board (snd (op k i ow s)) =
     (if ow \<noteq> [] \<and> board_owner (board s) (k, i) = Some ow then effect (k, i) (board s) else board s)"
  using refused [of ow k i s] accepted [of ow k i s] by (auto simp: holds_claim_board)

lemma failure_unchanged: "\<not> fst (op k i ow s) \<Longrightarrow> snd (op k i ow s) = s"
  using refused [of ow k i s] accepted [of ow k i s] by fastforce

end

interpretation own_ack: owner_guarded ack "\<lambda>k b. board_forget k (board_release k b)"
  by unfold_locales (auto simp: board_ack, auto simp: ack_def Let_def)

interpretation own_requeue: owner_guarded "\<lambda>k i ow. requeue k i ow sc"
    "\<lambda>k b. board_queue k (case sc of None \<Rightarrow> of_int CATCHUP_SCORE_BASE | Some x \<Rightarrow> x) (board_release k b)"
  for sc
  by unfold_locales (auto simp: requeue_eq board_return_job)

interpretation own_renew: owner_guarded "\<lambda>k i ow. renew_job_lease cfg now k i ow ttl"
    "\<lambda>k. board_deadline k (now + of_int (claim_ttl cfg ttl))"
  for cfg now ttl
proof
  fix ow k i s assume "ow \<noteq> []" "holds_claim k i ow s"
  then show "fst (renew_job_lease cfg now k i ow ttl s) \<and>
      board (snd (renew_job_lease cfg now k i ow ttl s)) =
        board_deadline (k, i) (now + of_int (claim_ttl cfg ttl)) (board s)"
    using board_leases by (simp add: renew_job_lease_def Let_def board_set_deadline)
qed (auto simp: renew_job_lease_def)

end
