(* ===== verification/Job_Ops.thy ===== *)
theory Job_Ops
  imports Job_Board
begin

text \<open>
  What the other operations of the store do on the board: claims of list jobs, the reaper, the
  eviction of the youngest catchup job, and the return of dead owners' claims.
\<close>

section \<open>List jobs\<close>

definition board_pull :: "string \<Rightarrow> string \<Rightarrow> rat \<Rightarrow> string \<Rightarrow> job_board \<Rightarrow> job_board" where
  "board_pull k ow d i b = b\<lparr>jb_lists := (jb_lists b)(k := tl (jb_lists b k)),
     jb_inflight := (jb_inflight b)((k, i) \<mapsto> (d, ow, None))\<rparr>"

definition list_claim :: "string \<Rightarrow> string \<Rightarrow> rat \<Rightarrow> string \<Rightarrow> claimed_job" where
  "list_claim k ow d i = \<lparr>cj_kind = k, cj_identity = i, cj_owner_token = ow, cj_deadline = d,
     cj_score = None, cj_fingerprint = [], cj_emit = []\<rparr>"

lemma claim_list_spec:
  fixes now :: rat and cfg :: job_cfg and ttl :: "int option"
  assumes "js_inv s" "k \<in> set JOB_KINDS_LIST" "ow \<noteq> []"
  defines "d \<equiv> now + of_int (claim_ttl cfg ttl)"
  shows "\<exists>t. claim_list cfg now k ow ttl s =
      Inr (case js_lists s k of [] \<Rightarrow> None | i # _ \<Rightarrow> Some (list_claim k ow d i), t) \<and>
    board t = (case js_lists s k of [] \<Rightarrow> board s | i # _ \<Rightarrow> board_pull k ow d i (board s))"
proof (cases "js_lists s k")
  case Nil
  with assms show ?thesis by (simp add: claim_list_def board_def fun_upd_idem)
next
  case (Cons i q)
  have "i \<notin> dict_keys (js_inflight s k)"
    using js_invD(2) [OF assms(1)] Cons unfolding claims_ok_def map_of_None_iff [symmetric] by simp
  with Cons assms show ?thesis
    by (auto simp: claim_list_def Let_def list_claim_def board_pull_def board_def fun_eq_iff AList.update_conv')
qed

section \<open>Recovery of expired claims\<close>

definition expired :: "rat \<Rightarrow> (string, inflight_entry) dict \<Rightarrow> (string, inflight_entry) dict" where
  "expired now items = filter (\<lambda>(i, d, ow, sc). d + INFLIGHT_REAP_GRACE_FLOOR_S \<le> now) items"

definition board_reap :: "string \<Rightarrow> string \<times> inflight_entry \<Rightarrow> job_board \<Rightarrow> job_board" where
  "board_reap k p b = board_queue (k, fst p) (penalize_ingest_score (snd (snd (snd p)))) (board_release (k, fst p) b)"

lemma reap_loop_spec:
  "fst (reap_loop k (now - INFLIGHT_REAP_GRACE_FLOOR_S) want items out s) =
     out @ map fst (take (want - length out) (expired now items)) \<and>
   board (snd (reap_loop k (now - INFLIGHT_REAP_GRACE_FLOOR_S) want items out s)) =
     fold (board_reap k) (take (want - length out) (expired now items)) (board s)"
proof (induction items arbitrary: out s)
  case Nil
  then show ?case by (simp add: expired_def)
next
  case (Cons p items)
  obtain i d ow sc where p: "p = (i, d, ow, sc)" by (cases p) auto
  show ?case
  proof (cases "length out < want")
    case True
    then show ?thesis
      using Cons.IH [of out s] Cons.IH [of "out @ [i]" "mark_dirty (return_job k i (penalize_ingest_score sc) s)"]
      unfolding p reap_loop_Cons
      by (auto simp: expired_def take_Suc_diff board_return_job board_reap_def algebra_simps)
  qed (simp add: p reap_loop_Cons)
qed

lemma reap_spec:
  "fst (reap_expired_inflight now k m s) = map fst (take (nat (max 1 m)) (expired now (js_inflight s k)))"
  "board (snd (reap_expired_inflight now k m s)) =
     fold (board_reap k) (take (nat (max 1 m)) (expired now (js_inflight s k))) (board s)"
  using reap_loop_spec [of k now "nat (max 1 m)" "js_inflight s k" "[]" s]
  by (auto simp: reap_expired_inflight_def persist_lazy_def split: prod.split)

section \<open>Eviction\<close>

definition board_evict :: "string \<Rightarrow> job_board \<Rightarrow> job_board" where
  "board_evict i b = board_forget (JOB_KIND_INGEST, i) (b\<lparr>jb_ingest := (jb_ingest b)(i := None)\<rparr>)"

text \<open>The youngest catchup job: the greatest score, and the least name among equal scores.\<close>

definition youngest :: "(string \<rightharpoonup> rat) \<Rightarrow> string \<Rightarrow> rat \<Rightarrow> bool" where
  "youngest m i sc \<longleftrightarrow> m i = Some sc \<and> in_band ''catchup'' sc \<and>
     (\<forall>j q. m j = Some q \<and> in_band ''catchup'' q \<longrightarrow> (- sc, i) \<le> (- q, j))"

lemma youngest_unique: "youngest m i sc \<Longrightarrow> youngest m j q \<Longrightarrow> j = i \<and> q = sc"
proof -
  assume "youngest m i sc" "youngest m j q"
  then have "(- sc, i) \<le> (- q, j)" "(- q, j) \<le> (- sc, i)" unfolding youngest_def by blast+
  then have "(- q, j) = (- sc, i)" by (rule order_antisym [rotated])
  then show ?thesis by simp
qed

lemma max_head_youngest:
  assumes "js_inv (s\<lparr>js_heap_catchup_max := (- sc, i) # h\<rparr>)" "map_of (js_ingest s) i = Some sc"
    "in_band ''catchup'' sc"
  shows "youngest (map_of (js_ingest s)) i sc"
  unfolding youngest_def
proof (intro conjI allI impI assms(2,3))
  fix j q assume j: "map_of (js_ingest s) j = Some q \<and> in_band ''catchup'' q"
  then have "(j, q) \<in> set (js_ingest s)" "\<not> q < of_int CATCHUP_SCORE_BASE"
    by (auto simp: in_band_def dest: map_of_SomeD)
  then have "(- q, j) \<in> set ((- sc, i) # h)" "sorted ((- sc, i) # h)"
    using js_invD(1) [OF assms(1)] by (auto simp: queue_ok_def)
  then show "(- sc, i) \<le> (- q, j)" by (metis order_refl set_ConsD sorted_simps(2))
qed

definition evict_post :: "date \<Rightarrow> job_store \<Rightarrow> string option \<times> job_store \<Rightarrow> bool" where
  "evict_post day s r = (case fst r of
      None \<Rightarrow> board (snd r) = board s \<and>
        (\<forall>i sc dd. youngest (map_of (js_ingest s)) i sc \<longrightarrow> decode_catchup_calendar_day sc = Some dd \<longrightarrow> dd \<le> day)
    | Some i \<Rightarrow> board (snd r) = board_evict i (board s) \<and>
        (\<exists>sc dd. youngest (map_of (js_ingest s)) i sc \<and> decode_catchup_calendar_day sc = Some dd \<and> day < dd))"

lemma evict_post_live:
  assumes "js_inv (s\<lparr>js_heap_catchup_max := (- sc, i) # h\<rparr>)" "map_of (js_ingest s) i = Some sc"
  shows "evict_post day s (evict_loop day ((- sc, i) # h) s)"
proof (cases "decode_catchup_calendar_day sc")
  case None
  have "dd \<le> day" if "youngest (map_of (js_ingest s)) j q" "decode_catchup_calendar_day q = Some dd" for j q dd
  proof -
    have "in_band ''catchup'' q" using that by (simp add: youngest_def)
    show ?thesis
    proof (cases "in_band ''catchup'' sc")
      case True
      from youngest_unique [OF max_head_youngest [OF assms True] that(1)] that(2) None show ?thesis by simp
    next
      case False
      then have "sc < q" using \<open>in_band ''catchup'' q\<close> by (simp add: in_band_def)
      have "(- q, j) \<in> set ((- sc, i) # h)" "sorted ((- sc, i) # h)"
        using js_invD(1) [OF assms(1)] that(1)
        by (auto simp: queue_ok_def youngest_def in_band_def dest!: map_of_SomeD)
      then have "(- sc, i) \<le> (- q, j)" by (metis order_refl set_ConsD sorted_simps(2))
      with \<open>sc < q\<close> show ?thesis by simp
    qed
  qed
  with None assms(2) show ?thesis by (simp add: evict_post_def board_def del: map_of_eq_Some_iff)
next
  case (Some dd)
  then have "in_band ''catchup'' sc"
    by (simp add: decode_catchup_calendar_day_def in_band_def split: if_splits)
  note y = max_head_youngest [OF assms this]
  show ?thesis
  proof (cases "dd \<le> day")
    case True
    have "dd' \<le> day" if "youngest (map_of (js_ingest s)) j q" "decode_catchup_calendar_day q = Some dd'" for j q dd'
      using youngest_unique [OF y that(1)] that(2) Some True by simp
    with Some True assms(2) show ?thesis by (simp add: evict_post_def board_def del: map_of_eq_Some_iff)
  next
    case False
    let ?u = "snd (ingest_pop i (s\<lparr>js_heap_catchup_max := h\<rparr>))"
    have "board (?u\<lparr>js_payloads := AList.delete (JOB_KIND_INGEST, i) (js_payloads ?u)\<rparr>) = board_evict i (board s)"
      using assms(2) by (simp add: ingest_pop_eq board_def board_evict_def board_forget_def AList.delete_conv')
    with Some False assms(2) y show ?thesis
      by (simp add: evict_post_def Let_def del: map_of_eq_Some_iff) fastforce
  qed
qed

lemma evict_loop_spec:
  "js_inv (s\<lparr>js_heap_catchup_max := h\<rparr>) \<Longrightarrow> evict_post day s (evict_loop day h s)"
proof (induction h)
  case Nil
  have "\<not> youngest (map_of (js_ingest s)) i sc" for i sc
    using js_invD(1) [OF Nil] by (auto simp: queue_ok_def youngest_def in_band_def dest!: map_of_SomeD)
  then show ?case by (simp add: evict_post_def board_def)
next
  case (Cons p h)
  obtain ns i where p: "p = (ns, i)" by (cases p)
  show ?case
  proof (cases "map_of (js_ingest s) i = Some (- ns)")
    case False
    have "js_inv (s\<lparr>js_heap_catchup_max := h\<rparr>)"
      using Cons.prems False p queue_ok_stale(3) [OF js_invD(1) [OF Cons.prems], where sc = "- ns" and i = i and h = h]
      by (simp add: js_inv_def shadow_inv_def)
    with Cons.IH False p show ?thesis by simp
  next
    case True
    with evict_post_live [where sc = "- ns" and i = i and h = h and s = s and day = day] Cons.prems p
    show ?thesis by simp
  qed
qed

section \<open>Stealing from dead owners\<close>

definition board_steal :: "job_key \<times> string \<Rightarrow> job_board \<Rightarrow> job_board" where
  "board_steal p b = board_queue (fst p) (of_int CATCHUP_SCORE_BASE) (board_release (fst p) b)"

definition dead_leases :: "proc_env \<Rightarrow> string option \<Rightarrow> string option \<Rightarrow> (job_key, string) dict \<Rightarrow> (job_key, string) dict" where
  "dead_leases env h b items = filter (\<lambda>(k, ow). owner_is_dead env h b ow) items"

lemma owner_is_dead_Nil: "\<not> owner_is_dead env h b []"
  by (simp add: owner_is_dead_def Let_def parse_lease_owner_def)

lemma steal_loop_spec:
  assumes "js_inv s" "dict_wf items" "\<And>k i ow. ((k, i), ow) \<in> set items \<Longrightarrow> holds_claim k i ow s"
  shows "fst (steal_loop env h b items n s) = n + length (dead_leases env h b items) \<and>
    board (snd (steal_loop env h b items n s)) = fold board_steal (dead_leases env h b items) (board s)"
  using assms
proof (induction items arbitrary: n s)
  case Nil
  then show ?case by (simp add: dead_leases_def)
next
  case (Cons p items)
  obtain k i ow where p: "p = ((k, i), ow)" by (metis prod.exhaust)
  have rest: "holds_claim k' i' ow' s" "(k', i') \<noteq> (k, i)" if "((k', i'), ow') \<in> set items" for k' i' ow'
    using that Cons.prems(2,3) p by (force, force simp: image_iff)
  show ?case
  proof (cases "owner_is_dead env h b ow")
    case False
    with Cons.IH [OF Cons.prems(1), of n] Cons.prems(2) rest p show ?thesis
      by (simp add: dead_leases_def)
  next
    case True
    then have "ow \<noteq> []" using owner_is_dead_Nil by metis
    moreover have "holds_claim k i ow s" using Cons.prems(3) p by simp
    ultimately have r: "requeue k i ow None s = (True, mark_dirty (return_job k i (of_int CATCHUP_SCORE_BASE) s))"
      by (simp add: requeue_eq)
    let ?t = "mark_dirty (return_job k i (of_int CATCHUP_SCORE_BASE) s)"
    have t: "js_inv ?t" using js_inv_requeue [OF Cons.prems(1), of k i ow None] by (simp add: r)
    have h: "holds_claim k' i' ow' ?t" if "((k', i'), ow') \<in> set items" for k' i' ow'
      using rest [OF that] by (auto simp: holds_claim_iff return_job_inflight AList.delete_conv')
    have "dict_wf items" using Cons.prems(2) by simp
    from Cons.IH [OF t this h, of "Suc n"] show ?thesis
      using True p r by (simp add: dead_leases_def board_return_job board_steal_def)
  qed
qed

lemma steal_spec:
  assumes "js_inv s"
  shows "fst (steal_dead_owner_leases env h b s) = length (dead_leases env h b (js_leases s))"
    "board (snd (steal_dead_owner_leases env h b s)) = fold board_steal (dead_leases env h b (js_leases s)) (board s)"
proof -
  have wf: "dict_wf (js_leases s)" using js_invD(2) [OF assms] by (simp add: claims_ok_def)
  have "holds_claim k i ow s" if "((k, i), ow) \<in> set (js_leases s)" for k i ow
  proof -
    have "map_of (js_leases s) (k, i) = Some ow" using wf that by simp
    with js_invD(2) [OF assms] show ?thesis
      by (auto simp: claims_ok_def holds_claim_iff simp del: map_of_eq_Some_iff)
  qed
  with steal_loop_spec [OF assms wf, of env h b 0]
  show "fst (steal_dead_owner_leases env h b s) = length (dead_leases env h b (js_leases s))"
    "board (snd (steal_dead_owner_leases env h b s)) = fold board_steal (dead_leases env h b (js_leases s)) (board s)"
    by (simp_all add: steal_dead_owner_leases_def)
qed

end
