(* ===== verification/Job_Steps.thy ===== *)
theory Job_Steps
  imports Job_Ops
begin

text \<open>
  The store as a transition system: one step per operation, labelled with the job it admits,
  finishes or evicts. Every step keeps the invariant and accounts for every job, whatever the order
  of the operations.
\<close>

section \<open>Jobs on the board\<close>

definition queued_on :: "job_board \<Rightarrow> job_key \<Rightarrow> bool" where
  "queued_on b p = (if fst p = JOB_KIND_INGEST then jb_ingest b (snd p) \<noteq> None
     else fst p \<in> set JOB_KINDS_LIST \<and> snd p \<in> set (jb_lists b (fst p)))"

definition board_jobs :: "job_board \<Rightarrow> job_key set" where
  "board_jobs b = {p. queued_on b p \<or> jb_inflight b p \<noteq> None}"

lemma board_jobs_payloads [simp]: "board_jobs (b\<lparr>jb_payloads := p\<rparr>) = board_jobs b"
  by (simp add: board_jobs_def queued_on_def)

lemma board_jobs_forget [simp]: "board_jobs (board_forget k b) = board_jobs b"
  by (simp add: board_forget_def)

lemma queued_on_queue:
  "fst k \<in> set JOB_KINDS_ALL \<Longrightarrow> queued_on (board_queue k sc b) p \<longleftrightarrow> p = k \<or> queued_on b p"
  by (cases p; cases k) (auto simp: queued_on_def board_queue_def JOB_KINDS_ALL_def)

lemma board_jobs_queue:
  "fst k \<in> set JOB_KINDS_ALL \<Longrightarrow> board_jobs (board_queue k sc b) = insert k (board_jobs b)"
  by (simp add: board_jobs_def queued_on_queue set_eq_iff) (simp add: board_queue_def)

lemma board_jobs_insert_release: "insert k (board_jobs (board_release k b)) = insert k (board_jobs b)"
  by (simp add: board_jobs_def board_release_def queued_on_def set_eq_iff)

lemma board_jobs_return:
  "fst k \<in> set JOB_KINDS_ALL \<Longrightarrow> jb_inflight b k \<noteq> None \<Longrightarrow>
   board_jobs (board_queue k sc (board_release k b)) = board_jobs b"
proof -
  assume "fst k \<in> set JOB_KINDS_ALL" "jb_inflight b k \<noteq> None"
  moreover from this have "k \<in> board_jobs b" by (simp add: board_jobs_def)
  ultimately show ?thesis
    by (simp only: board_jobs_queue board_jobs_insert_release insert_absorb)
qed

lemma board_jobs_take: "board_jobs (board_take ow d p b) = insert (JOB_KIND_INGEST, snd p) (board_jobs b)"
  by (auto simp: board_jobs_def board_take_def queued_on_def set_eq_iff prod_eq_iff)

lemma board_jobs_takes:
  "board_jobs (fold (board_take ow d) ps b) = (\<lambda>p. (JOB_KIND_INGEST, snd p)) ` set ps \<union> board_jobs b"
  by (induction ps arbitrary: b) (auto simp: board_jobs_take)

lemma board_jobs_pull:
  "jb_lists b k = i # q \<Longrightarrow> k \<in> set JOB_KINDS_LIST \<Longrightarrow> board_jobs (board_pull k ow d i b) = board_jobs b"
  by (auto simp: board_jobs_def board_pull_def queued_on_def set_eq_iff prod_eq_iff)

lemma board_jobs_deadline: "board_jobs (board_deadline k d b) = board_jobs b"
  by (auto simp: board_jobs_def board_deadline_def queued_on_def set_eq_iff)

lemma board_jobs_release:
  "\<not> queued_on b k \<Longrightarrow> board_jobs (board_release k b) = board_jobs b - {k}"
  by (auto simp: board_jobs_def board_release_def queued_on_def set_eq_iff)

lemma board_jobs_evict:
  "jb_inflight b (JOB_KIND_INGEST, i) = None \<Longrightarrow> board_jobs (board_evict i b) = board_jobs b - {(JOB_KIND_INGEST, i)}"
  by (auto simp: board_jobs_def board_evict_def board_forget_def queued_on_def set_eq_iff prod_eq_iff)

abbreviation jobs :: "job_store \<Rightarrow> job_key set" where
  "jobs s \<equiv> board_jobs (board s)"

lemma jb_inflight_board [simp]: "jb_inflight (board s) (k, i) = map_of (js_inflight s k) i"
  by (simp add: board_def)

lemma jb_lists_board [simp]: "jb_lists (board s) = js_lists s"
  by (simp add: board_def)

lemma jobs_requeue: "js_inv s \<Longrightarrow> jobs (snd (requeue k i ow sc s)) = jobs s"
  by (auto simp: requeue_eq holds_claim_iff board_return_job intro!: board_jobs_return dest: inflight_facts(1))

lemma jobs_steal_loop: "js_inv s \<Longrightarrow> jobs (snd (steal_loop env h b items n s)) = jobs s"
proof (induction items arbitrary: n s)
  case (Cons p items)
  obtain k i ow where "p = ((k, i), ow)" by (metis prod.exhaust)
  then show ?case
    using Cons js_inv_requeue [OF Cons.prems, of k i ow None] jobs_requeue [OF Cons.prems, of k i ow None]
    by (auto split: prod.split)
qed simp

lemma jobs_reconcile_loop: "js_inv s \<Longrightarrow> jobs (snd (reconcile_loop k known ow items n s)) = jobs s"
proof (induction items arbitrary: n s)
  case (Cons p items)
  obtain i d o' sc where "p = (i, d, o', sc)" by (metis prod.exhaust)
  then show ?case
    using Cons js_inv_requeue [OF Cons.prems, of k i o' sc] jobs_requeue [OF Cons.prems, of k i o' sc]
    by (auto split: prod.split)
qed simp

lemma jobs_reap_fold:
  assumes "k \<in> set JOB_KINDS_ALL" "dict_wf ps" "\<And>p. p \<in> set ps \<Longrightarrow> jb_inflight b (k, fst p) \<noteq> None"
  shows "board_jobs (fold (board_reap k) ps b) = board_jobs b"
  using assms(2,3)
proof (induction ps arbitrary: b)
  case (Cons p ps)
  let ?b = "board_reap k p b"
  have "board_jobs ?b = board_jobs b"
    using assms(1) Cons.prems(2) [of p] by (simp add: board_reap_def board_jobs_return)
  moreover have "jb_inflight ?b (k, fst q) = jb_inflight b (k, fst q)" if "q \<in> set ps" for q
    using Cons.prems(1) that by (auto simp: board_reap_def board_queue_def board_release_def image_iff)
  ultimately show ?case
    using Cons.IH [of ?b] Cons.prems by simp
qed simp

lemma jobs_reap:
  assumes "js_inv s"
  shows "jobs (snd (reap_expired_inflight now k m s)) = jobs s"
proof (cases "js_inflight s k = []")
  case True
  then show ?thesis by (simp add: reap_spec expired_def)
next
  case False
  let ?ps = "take (nat (max 1 m)) (expired now (js_inflight s k))"
  have c: "claims_inv s" using js_invD(2) [OF assms] .
  then have k: "k \<in> set JOB_KINDS_ALL" and wf: "dict_wf (js_inflight s k)"
    using False by (auto simp: claims_ok_def)
  have sub: "p \<in> set (js_inflight s k)" if "p \<in> set ?ps" for p
    using set_take_subset [of "nat (max 1 m)"] that by (fastforce simp: expired_def)
  have "dict_wf (expired now (js_inflight s k))"
    using wf by (simp add: expired_def distinct_map_filter)
  then have "dict_wf ?ps" by (simp add: take_map [symmetric] distinct_take)
  then show ?thesis
    unfolding reap_spec(2) using k sub by (intro jobs_reap_fold) (auto simp: map_of_eq_None_iff image_iff)
qed

section \<open>Persisting\<close>

lemma queued_identities_iff:
  "js_inv s \<Longrightarrow> (k, i) \<in> queued_identities s \<longleftrightarrow> queued_in (js_ingest s) (js_pending s) k i"
  using js_invD(2) [of s] by (auto simp: queued_identities_def queued_in_def claims_ok_def)

lemma persist_write_state:
  "fst (persist_write io s fs) = (if js_archive_dir s = [] then s
     else s\<lparr>js_payloads := dict_filter (\<lambda>k. k \<in> queued_identities s \<union> inflight_identities s) (js_payloads s),
            js_shadow_payloads := dict_filter (\<lambda>k. k \<in> queued_identities s) (js_shadow_payloads s)\<rparr>)"
  by (simp add: persist_write_def Let_def prune_shadow_payloads_def prune_orphan_payloads_def)

lemma js_inv_persist_write [js_pres]:
  assumes "js_inv s"
  shows "js_inv (fst (persist_write io s fs))"
proof -
  note inv = js_invD [OF assms]
  let ?q = "queued_identities s"
  have "payloads_ok (js_ingest s) (js_pending s)
      (dict_filter (\<lambda>k. k \<in> ?q \<union> inflight_identities s) (js_payloads s))
      (dict_filter (\<lambda>k. k \<in> ?q) (js_shadow_payloads s))"
    using inv(3) by (auto simp: payloads_ok_def shadow_inv_def dict_wf_filter queued_identities_iff [OF assms]
        simp del: map_of_eq_Some_iff split: if_splits)
  with inv show ?thesis unfolding persist_write_state by (simp add: js_inv_def shadow_inv_def)
qed

lemma jobs_persist_write: "jobs (fst (persist_write io s fs)) = jobs s"
  unfolding persist_write_state by (simp add: board_def board_jobs_def queued_on_def)

section \<open>The store as a transition system\<close>

datatype job_event = Admit job_key | Finish job_key | Evict job_key | Internal

inductive job_step :: "job_cfg \<Rightarrow> job_event \<Rightarrow> job_store \<Rightarrow> job_store \<Rightarrow> bool" for cfg where
  zadd_new: "zadd_ingest cfg i (of_int n) fp over s = (1, t) \<Longrightarrow> job_step cfg (Admit (JOB_KIND_INGEST, i)) s t"
| zadd_old: "zadd_ingest cfg i (of_int n) fp over s = (0, t) \<Longrightarrow> job_step cfg Internal s t"
| enqueue_new: "enqueue_list cfg k i True s = Inr (Suc n, t) \<Longrightarrow> job_step cfg (Admit (k, i)) s t"
| enqueue_old: "enqueue_list cfg k i True s = Inr (0, t) \<Longrightarrow> job_step cfg Internal s t"
| evict_some: "evict_youngest_catchup_ingest day s = (Some i, t) \<Longrightarrow> job_step cfg (Evict (JOB_KIND_INGEST, i)) s t"
| evict_none: "evict_youngest_catchup_ingest day s = (None, t) \<Longrightarrow> job_step cfg Internal s t"
| claim_hot: "claim_ingest cfg now ''hot'' ow ttl m s = Some (Inr (js, t)) \<Longrightarrow> job_step cfg Internal s t"
| claim_catchup: "claim_ingest cfg now ''catchup'' ow ttl m s = Some (Inr (js, t)) \<Longrightarrow> job_step cfg Internal s t"
| claim_list: "claim_list cfg now k ow ttl s = Inr (j, t) \<Longrightarrow> job_step cfg Internal s t"
| ack: "ack k i ow s = (True, t) \<Longrightarrow> job_step cfg (Finish (k, i)) s t"
| ack_refused: "ack k i ow s = (False, t) \<Longrightarrow> job_step cfg Internal s t"
| requeue: "requeue k i ow (map_option of_int n) s = (r, t) \<Longrightarrow> job_step cfg Internal s t"
| renew: "renew_job_lease cfg now k i ow ttl s = (r, t) \<Longrightarrow> job_step cfg Internal s t"
| extend: "extend_inflight_deadline now k i x s = (r, t) \<Longrightarrow> job_step cfg Internal s t"
| reorder: "reorder_list k xs s = (r, t) \<Longrightarrow> job_step cfg Internal s t"
| fingerprint: "job_step cfg Internal s (write_job_fingerprint k i fp s)"
| field: "job_step cfg Internal s (write_job_payload_field k i n v s)"
| bump: "bump_job_attempt k i s = Inr (m, t) \<Longrightarrow> job_step cfg Internal s t"
| reap: "reap_expired_inflight now k m s = (out, t) \<Longrightarrow> job_step cfg Internal s t"
| steal: "steal_dead_owner_leases env h b s = (n, t) \<Longrightarrow> job_step cfg Internal s t"
| steal_one: "steal_job_lease_if_owner_dead env k i h b s = (r, t) \<Longrightarrow> job_step cfg Internal s t"
| reconcile: "reconcile_this_owner_orphan_leases k known ow s = (n, t) \<Longrightarrow> job_step cfg Internal s t"
| persist: "persist_write io s fs = (t, r) \<Longrightarrow> job_step cfg Internal s t"
| writer: "job_step cfg Internal s (s\<lparr>js_writer := w\<rparr>)"

text \<open>Integral scores, on the board: queued scores and the scores a claim remembers.\<close>

definition board_integral :: "job_board \<Rightarrow> bool" where
  "board_integral b \<longleftrightarrow> (\<forall>i sc. jb_ingest b i = Some sc \<longrightarrow> score_integral sc) \<and>
     (\<forall>k d ow sc. jb_inflight b k = Some (d, ow, Some sc) \<longrightarrow> score_integral sc)"

lemma scores_integral_board: "js_inv s \<Longrightarrow> board_integral (board s) \<Longrightarrow> scores_integral s"
  using js_invD(1) [of s]
  by (auto simp: scores_integral_def list_all_iff board_integral_def board_def queue_ok_def)

lemma board_integral_payloads [simp]: "board_integral (b\<lparr>jb_payloads := p\<rparr>) = board_integral b"
  by (simp add: board_integral_def)

lemma board_integral_forget [simp]: "board_integral (board_forget k b) = board_integral b"
  by (simp add: board_forget_def)

lemma board_integral_queue: "board_integral b \<Longrightarrow> score_integral sc \<Longrightarrow> board_integral (board_queue k sc b)"
  by (auto simp: board_integral_def board_queue_def)

lemma board_integral_release: "board_integral b \<Longrightarrow> board_integral (board_release k b)"
  by (auto simp: board_integral_def board_release_def)

lemma board_integral_pull: "board_integral b \<Longrightarrow> board_integral (board_pull k ow d i b)"
  by (auto simp: board_integral_def board_pull_def)

lemma board_integral_deadline: "board_integral b \<Longrightarrow> board_integral (board_deadline k d b)"
  by (auto simp: board_integral_def board_deadline_def split: prod.splits)

lemma board_integral_evict: "board_integral b \<Longrightarrow> board_integral (board_evict i b)"
  by (auto simp: board_integral_def board_evict_def board_forget_def)

lemma board_integral_take: "board_integral b \<Longrightarrow> score_integral (fst p) \<Longrightarrow> board_integral (board_take ow d p b)"
  by (auto simp: board_integral_def board_take_def)

lemma board_integral_takes:
  "board_integral b \<Longrightarrow> (\<And>p. p \<in> set ps \<Longrightarrow> score_integral (fst p)) \<Longrightarrow>
   board_integral (fold (board_take ow d) ps b)"
  by (induction ps arbitrary: b) (auto simp: board_integral_take)

lemma score_integral_penalize [simp]: "score_integral (penalize_ingest_score sc)"
  using penalize_Ints [of sc] by auto

lemma board_integral_reap1: "board_integral b \<Longrightarrow> board_integral (board_reap k p b)"
  by (simp add: board_reap_def board_integral_queue board_integral_release)

lemma board_integral_reap: "board_integral b \<Longrightarrow> board_integral (fold (board_reap k) ps b)"
  by (induction ps arbitrary: b) (simp_all add: board_integral_reap1)

lemma ranked_mem:
  "finite (dom m) \<Longrightarrow> (sc, i) \<in> set (ranked band m) \<longleftrightarrow> m i = Some sc \<and> in_band band sc"
  using finite_ranked [of m "in_band band"] by (simp add: ranked_def)

definition job_inv :: "job_store \<Rightarrow> bool" where
  "job_inv s \<longleftrightarrow> js_inv s \<and> board_integral (board s)"

fun jobs_after :: "job_event \<Rightarrow> job_key set \<Rightarrow> job_key set" where
  "jobs_after (Admit k) J = insert k J"
| "jobs_after (Finish k) J = J - {k}"
| "jobs_after (Evict k) J = J - {k}"
| "jobs_after Internal J = J"

fun event_ok :: "job_event \<Rightarrow> job_key set \<Rightarrow> bool" where
  "event_ok (Admit k) J = (k \<notin> J)"
| "event_ok (Finish k) J = (k \<in> J)"
| "event_ok (Evict k) J = (k \<in> J)"
| "event_ok Internal J = True"

definition step_ok :: "job_event \<Rightarrow> job_store \<Rightarrow> job_store \<Rightarrow> bool" where
  "step_ok ev s t \<longleftrightarrow> js_inv t \<and> board_integral (board t) \<and> event_ok ev (jobs s) \<and> jobs t = jobs_after ev (jobs s)"

lemma step_okI:
  "js_inv t \<Longrightarrow> board_integral (board t) \<Longrightarrow> event_ok ev (jobs s) \<Longrightarrow> jobs t = jobs_after ev (jobs s) \<Longrightarrow>
   step_ok ev s t"
  by (simp add: step_ok_def)

text \<open>What an admission does: refused, re-scored or new.\<close>

definition board_write :: "job_key \<Rightarrow> string \<Rightarrow> string \<Rightarrow> job_board \<Rightarrow> job_board" where
  "board_write k n v b = b\<lparr>jb_payloads := (jb_payloads b)(k \<mapsto>
     AList.update n v (case jb_payloads b k of None \<Rightarrow> [] | Some row \<Rightarrow> row))\<rparr>"

definition board_fingerprint :: "string \<Rightarrow> string option \<Rightarrow> job_board \<Rightarrow> job_board" where
  "board_fingerprint i fp b = (case fp of None \<Rightarrow> b
     | Some v \<Rightarrow> if v = [] then b else board_write (JOB_KIND_INGEST, i) ''fingerprint'' v b)"

definition ingest_refused :: "job_cfg \<Rightarrow> string \<Rightarrow> rat \<Rightarrow> bool \<Rightarrow> job_store \<Rightarrow> bool" where
  "ingest_refused cfg i sc over s \<longleftrightarrow> jb_inflight (board s) (JOB_KIND_INGEST, i) \<noteq> None \<or>
     jb_ingest (board s) i = None \<and> \<not> over \<and> discover_ingest_capacity_limit cfg \<le> int (length (js_ingest s)) \<and>
     in_band ''catchup'' sc"

lemma board_shadow_sync [simp]: "board (shadow_sync_payload k i s) = board s"
  by (simp add: shadow_sync_eq board_def)

lemma board_payload_set: "board (payload_set k i n v s) = board_write (k, i) n v (board s)"
  by (simp add: board_def payload_set_def board_write_def AList.update_conv')

lemma zadd_spec:
  "fst (zadd_ingest cfg i sc fp over s) =
     (if ingest_refused cfg i sc over s \<or> jb_ingest (board s) i \<noteq> None then 0 else 1)"
  "board (snd (zadd_ingest cfg i sc fp over s)) =
     (if ingest_refused cfg i sc over s then board s
      else board_fingerprint i fp (board_queue (JOB_KIND_INGEST, i) sc (board s)))"
proof -
  have ref: "ingest_refused cfg i sc over s \<longleftrightarrow> i \<in> dict_keys (js_inflight s JOB_KIND_INGEST) \<or>
      i \<notin> dict_keys (js_ingest s) \<and> \<not> over \<and> \<not> has_capacity JOB_KIND_INGEST (discover_ingest_capacity_limit cfg) s \<and>
      decode_ingest_band sc \<noteq> ''hot''"
    by (simp add: ingest_refused_def has_capacity_def in_band_def map_of_None_iff not_less del: not_None_eq)
  show "fst (zadd_ingest cfg i sc fp over s) =
     (if ingest_refused cfg i sc over s \<or> jb_ingest (board s) i \<noteq> None then 0 else 1)"
    unfolding ref zadd_ingest_def Let_def by (simp add: map_of_None_iff del: not_None_eq)
  show "board (snd (zadd_ingest cfg i sc fp over s)) =
     (if ingest_refused cfg i sc over s then board s
      else board_fingerprint i fp (board_queue (JOB_KIND_INGEST, i) sc (board s)))"
    unfolding ref zadd_ingest_def Let_def
    by (simp add: board_fingerprint_def board_payload_set board_ingest_set split: option.split)
qed

lemma enqueue_spec:
  assumes "js_inv s" "k \<in> set JOB_KINDS_LIST"
  shows "\<exists>n t. enqueue_list cfg k i True s = Inr (n, t) \<and>
    (if queued_on (board s) (k, i) \<or> jb_inflight (board s) (k, i) \<noteq> None \<or>
        queue_capacity_limit cfg \<le> int (length (js_lists s k))
     then n = 0 \<and> t = s
     else n = Suc (length (js_lists s k)) \<and> board t = board_queue (k, i) 0 (board s))"
proof -
  have "js_pending s k = set (js_lists s k)" using js_invD(2) [OF assms(1)] by (simp add: claims_ok_def)
  moreover have "k \<noteq> JOB_KIND_INGEST" using assms(2) by simp
  moreover have "js_lists (list_push k i s) k = js_lists s k @ [i]"
    by (simp add: list_push_def shadow_sync_eq)
  ultimately show ?thesis
    using assms(2) by (auto simp: enqueue_list_def Let_def queued_on_def has_capacity_def
        board_list_push [where sc = 0] map_of_None_iff simp del: not_None_eq)
qed

lemma board_write_simps [simp]:
  "board_jobs (board_write k n v b) = board_jobs b" "board_integral (board_write k n v b) = board_integral b"
  by (simp_all add: board_write_def)

lemma board_fingerprint_simps [simp]:
  "board_jobs (board_fingerprint i fp b) = board_jobs b"
  "board_integral (board_fingerprint i fp b) = board_integral b"
  by (auto simp: board_fingerprint_def split: option.split)

lemma ingest_not_in_jobs:
  "jb_ingest (board s) i = None \<Longrightarrow> jb_inflight (board s) (JOB_KIND_INGEST, i) = None \<Longrightarrow>
   (JOB_KIND_INGEST, i) \<notin> jobs s"
  by (simp add: board_jobs_def queued_on_def)

lemma step_zadd:
  assumes "job_inv s" "zadd_ingest cfg i (of_int n) fp over s = (m, t)"
  shows "step_ok (if m = 1 then Admit (JOB_KIND_INGEST, i) else Internal) s t"
proof -
  have z: "m = fst (zadd_ingest cfg i (of_int n) fp over s)" "t = snd (zadd_ingest cfg i (of_int n) fp over s)"
    using assms(2) by simp_all
  have inv: "js_inv t" using assms(1) js_inv_zadd by (auto simp: z job_inv_def)
  show ?thesis
  proof (cases "ingest_refused cfg i (of_int n) over s")
    case True
    with inv assms(1) show ?thesis
      by (intro step_okI) (simp_all add: z zadd_spec job_inv_def)
  next
    case False
    then have fly: "jb_inflight (board s) (JOB_KIND_INGEST, i) = None"
      by (simp add: ingest_refused_def del: not_None_eq)
    have int: "board_integral (board t)" and J: "jobs t = insert (JOB_KIND_INGEST, i) (jobs s)"
      using False assms(1) by (simp_all add: z zadd_spec job_inv_def board_integral_queue board_jobs_queue)
    show ?thesis
    proof (cases "jb_ingest (board s) i = None")
      case True
      then show ?thesis
        using inv int J False ingest_not_in_jobs [OF True fly] by (simp add: step_ok_def z zadd_spec)
    next
      case present: False
      then have "(JOB_KIND_INGEST, i) \<in> jobs s" by (simp add: board_jobs_def queued_on_def)
      with present inv int J False show ?thesis by (simp add: step_ok_def z zadd_spec insert_absorb)
    qed
  qed
qed

lemma step_enqueue:
  assumes "job_inv s" "enqueue_list cfg k i True s = Inr (m, t)"
  shows "step_ok (if m = 0 then Internal else Admit (k, i)) s t"
proof -
  have k: "k \<in> set JOB_KINDS_LIST" using assms(2) by (auto simp: enqueue_list_def split: if_splits)
  have inv: "js_inv s" "js_inv t" using assms js_inv_enqueue by (auto simp: job_inv_def)
  let ?full = "(k, i) \<in> jobs s \<or> queue_capacity_limit cfg \<le> int (length (js_lists s k))"
  have "if ?full then m = 0 \<and> t = s
      else m = Suc (length (js_lists s k)) \<and> board t = board_queue (k, i) 0 (board s)"
    using enqueue_spec [OF inv(1) k, of cfg i] assms(2) by (simp add: board_jobs_def disj_assoc del: not_None_eq)
  then show ?thesis
    using k inv assms(1)
    by (cases ?full) (simp_all add: step_ok_def job_inv_def board_jobs_queue board_integral_queue score_integral_def)
qed

lemma step_evict:
  assumes "job_inv s" "evict_youngest_catchup_ingest day s = (r, t)"
  shows "step_ok (case r of None \<Rightarrow> Internal | Some i \<Rightarrow> Evict (JOB_KIND_INGEST, i)) s t"
proof -
  have inv: "js_inv s" "js_inv t" using assms js_inv_evict [of s day] by (auto simp: job_inv_def)
  have "evict_post day s (r, t)"
    using evict_loop_spec [where s = s and h = "js_heap_catchup_max s" and day = day] assms(2) inv(1)
    by (simp add: evict_youngest_catchup_ingest_def)
  then show ?thesis
  proof (cases r)
    case None
    with \<open>evict_post day s (r, t)\<close> inv assms(1) show ?thesis
      by (simp add: step_ok_def evict_post_def job_inv_def)
  next
    case (Some i)
    with \<open>evict_post day s (r, t)\<close> obtain sc where i: "map_of (js_ingest s) i = Some sc"
        and b: "board t = board_evict i (board s)"
      by (auto simp: evict_post_def youngest_def)
    have "map_of (js_inflight s JOB_KIND_INGEST) i = None"
      using queued_not_inflight [OF inv(1) i] by (simp add: map_of_None_iff)
    with i b Some inv assms(1) show ?thesis
      by (simp add: step_ok_def board_jobs_evict board_integral_evict job_inv_def)
        (simp add: board_jobs_def queued_on_def)
  qed
qed

lemma claim_ingest_spec:
  fixes now :: rat and cfg :: job_cfg and ttl :: "int option"
  assumes "js_inv s" "scores_integral s" "band \<in> {''hot'', ''catchup''}" "ow \<noteq> []" "1 \<le> m"
  defines "ps \<equiv> take (nat m) (ranked band (map_of (js_ingest s)))"
    and "d \<equiv> now + of_int (claim_ttl cfg ttl)"
  shows "\<exists>t. claim_ingest cfg now band ow ttl m s = Some (Inr (map (board_claim ow d (board s)) ps, t)) \<and>
    js_inv t \<and> board t = fold (board_take ow d) ps (board s)"
proof -
  obtain lo hi where r: "ingest_score_range band = Inr (lo, hi)"
    using assms(3) by (auto simp: ingest_score_range_def)
  from claim_loop_spec [OF assms(1-3) r, of ow d "nat m" "[]"]
  obtain t where "claim_ingest_loop band lo hi ow d (nat m) [] s = Some (map (board_claim ow d (board s)) ps, t)"
      "js_inv t" "board t = fold (board_take ow d) ps (board s)"
    by (auto simp: ps_def)
  with r assms(4,5) show ?thesis by (auto simp: claim_ingest_def d_def)
qed

lemma step_claim:
  assumes "job_inv s" "claim_ingest cfg now band ow ttl m s = Some (Inr (js, t))" "band \<in> {''hot'', ''catchup''}"
  shows "step_ok Internal s t"
proof -
  have inv: "js_inv s" and int: "board_integral (board s)" using assms(1) by (auto simp: job_inv_def)
  have "ow \<noteq> []" "1 \<le> m" using assms(2) by (auto simp: claim_ingest_def split: if_splits)
  from claim_ingest_spec [OF inv scores_integral_board [OF inv int] assms(3) this, of cfg now ttl] assms(2)
  obtain d where t: "js_inv t"
      and b: "board t = fold (board_take ow d) (take (nat m) (ranked band (map_of (js_ingest s)))) (board s)"
    by auto
  have mem: "map_of (js_ingest s) (snd p) = Some (fst p)" if "p \<in> set (take (nat m) (ranked band (map_of (js_ingest s))))" for p
    using in_set_takeD [OF that] ranked_mem [OF finite_dom_map_of, of "fst p" "snd p" band "js_ingest s"] by simp
  have "board_integral (board t)"
    unfolding b using mem int by (intro board_integral_takes) (auto simp: board_integral_def)
  moreover have "jobs t = jobs s"
    unfolding b board_jobs_takes using mem by (auto simp: board_jobs_def queued_on_def)
  ultimately show ?thesis using t by (simp add: step_ok_def)
qed

lemma step_claim_list:
  assumes "job_inv s" "claim_list cfg now k ow ttl s = Inr (j, t)"
  shows "step_ok Internal s t"
proof -
  have inv: "js_inv s" "js_inv t" using assms js_inv_claim_list by (auto simp: job_inv_def)
  have k: "k \<in> set JOB_KINDS_LIST" "ow \<noteq> []" using assms(2) by (auto simp: claim_list_def split: if_splits)
  from claim_list_spec [OF inv(1) k, of cfg now ttl] assms(2)
  have "board t = (case js_lists s k of [] \<Rightarrow> board s
      | i # _ \<Rightarrow> board_pull k ow (now + of_int (claim_ttl cfg ttl)) i (board s))"
    by simp
  then show ?thesis
    using inv assms(1) k(1)
    by (cases "js_lists s k") (auto simp: step_ok_def job_inv_def board_integral_pull board_jobs_pull)
qed

lemma step_ack:
  assumes "job_inv s" "ack k i ow s = (r, t)"
  shows "step_ok (if r then Finish (k, i) else Internal) s t"
proof (cases r)
  case False
  then have "t = s" using own_ack.failure_unchanged [of k i ow s] assms(2) by simp
  with False assms(1) show ?thesis by (simp add: step_ok_def job_inv_def)
next
  case True
  then have own: "ow \<noteq> [] \<and> board_owner (board s) (k, i) = Some ow"
    using own_ack.success_iff [of k i ow s] assms(2) by simp
  then have b: "board t = board_forget (k, i) (board_release (k, i) (board s))"
    using own_ack.refines [of k i ow s] assms(2) by simp
  from own obtain e where e: "map_of (js_inflight s k) i = Some e" by (auto simp: board_owner_def)
  have inv: "js_inv s" "js_inv t" using assms js_inv_ack [of s k i ow] by (auto simp: job_inv_def)
  have "\<not> queued_on (board s) (k, i)" using inflight_facts [OF inv(1) e] by (auto simp: queued_on_def)
  then show ?thesis
    using True inv assms(1) e
    by (simp add: step_ok_def job_inv_def b board_jobs_release board_integral_release)
      (simp add: board_jobs_def del: not_None_eq)
qed

lemma step_requeue:
  assumes "job_inv s" "\<And>x. sc = Some x \<Longrightarrow> score_integral x"
  shows "step_ok Internal s (snd (requeue k i ow sc s))"
  using assms jobs_requeue [of s k i ow sc] js_inv_requeue [of s k i ow sc]
  by (auto simp: step_ok_def job_inv_def own_requeue.refines intro!: board_integral_queue board_integral_release
      split: option.split)

lemma step_ok_trans:
  "step_ok Internal s t \<Longrightarrow> step_ok Internal t u \<Longrightarrow> step_ok Internal s u"
  by (simp add: step_ok_def)

lemma step_ok_refl: "job_inv s \<Longrightarrow> step_ok Internal s s"
  by (simp add: step_ok_def job_inv_def)

lemma step_okD: "step_ok ev s t \<Longrightarrow> job_inv t"
  by (simp add: step_ok_def job_inv_def)

lemma step_steal_loop: "job_inv s \<Longrightarrow> step_ok Internal s (snd (steal_loop env h b items n s))"
proof (induction items arbitrary: n s)
  case (Cons p items)
  obtain k i ow where p: "p = ((k, i), ow)" by (metis prod.exhaust)
  have r: "step_ok Internal s (snd (requeue k i ow None s))" by (rule step_requeue [OF Cons.prems]) simp
  show ?case
    using Cons.IH [OF Cons.prems] step_ok_trans [OF r Cons.IH [OF step_okD [OF r]]] p
    by (auto split: prod.split)
qed (simp add: step_ok_refl)

lemma step_reconcile_loop:
  assumes "job_inv s" "\<And>i d ow x. (i, d, ow, Some x) \<in> set items \<Longrightarrow> score_integral x"
  shows "step_ok Internal s (snd (reconcile_loop k known o1 items n s))"
  using assms
proof (induction items arbitrary: n s)
  case (Cons p items)
  obtain i d ow sc where p: "p = (i, d, ow, sc)" by (metis prod.exhaust)
  have r: "step_ok Internal s (snd (requeue k i ow sc s))"
    using Cons.prems p by (intro step_requeue) auto
  have rest: "\<And>i d ow x. (i, d, ow, Some x) \<in> set items \<Longrightarrow> score_integral x"
    using Cons.prems(2) by (meson list.set_intros(2))
  show ?case
    using Cons.IH [OF Cons.prems(1) rest] step_ok_trans [OF r Cons.IH [OF step_okD [OF r] rest]] p
    by (auto split: prod.split)
qed (simp add: step_ok_refl)

lemma step_same_board:
  "job_inv s \<Longrightarrow> js_inv t \<Longrightarrow> jobs t = jobs s \<Longrightarrow> board_integral (board t) = board_integral (board s) \<Longrightarrow> step_ok Internal s t"
  by (simp add: step_ok_def job_inv_def)

lemma board_sync_if_queued: "board (sync_if_queued k i (payload_set k i n v s)) = board_write (k, i) n v (board s)"
  by (simp add: sync_if_queued_def board_payload_set)

lemma step_payload:
  assumes "job_inv s"
  shows "step_ok Internal s (write_job_fingerprint k i fp s)"
    "step_ok Internal s (write_job_payload_field k i n v s)"
    "bump_job_attempt k i s = Inr (m, t) \<Longrightarrow> step_ok Internal s t"
proof -
  have inv: "js_inv s" using assms by (simp add: job_inv_def)
  show "step_ok Internal s (write_job_fingerprint k i fp s)"
    using js_inv_write_fingerprint [OF inv, of k i fp]
    by (intro step_same_board [OF assms]) (simp_all add: write_job_fingerprint_def board_sync_if_queued)
  show "step_ok Internal s (write_job_payload_field k i n v s)"
    using js_inv_write_field [OF inv, of k i n v]
    by (intro step_same_board [OF assms]) (simp_all add: write_job_payload_field_def Let_def board_payload_set)
  show "step_ok Internal s t" if "bump_job_attempt k i s = Inr (m, t)"
    using js_inv_bump [OF inv that] that
    by (intro step_same_board [OF assms])
      (auto simp: bump_job_attempt_def Let_def board_sync_if_queued split: option.splits)
qed

lemma step_deadlines:
  assumes "job_inv s"
  shows "step_ok Internal s (snd (renew_job_lease cfg now k i ow ttl s))"
    "step_ok Internal s (snd (extend_inflight_deadline now k i x s))"
  using assms js_inv_renew [of s cfg now k i ow ttl] js_inv_extend [of s now k i x]
  by (auto simp: step_ok_def job_inv_def own_renew.refines board_jobs_deadline board_integral_deadline
      extend_inflight_deadline_def board_set_deadline)

lemma step_reorder:
  assumes "job_inv s"
  shows "step_ok Internal s (snd (reorder_list k xs s))"
proof -
  have eq: "set xs = set (js_lists s k)" if "sort (js_lists s k) = sort xs"
    using that by (metis set_sort)
  have "queued_on (board (s\<lparr>js_lists := (js_lists s)(k := xs), js_shadow_lists := l\<rparr>)) p = queued_on (board s) p"
    if "sort (js_lists s k) = sort xs" for l p
    using eq [OF that] by (auto simp: queued_on_def board_def)
  then have "jobs (s\<lparr>js_lists := (js_lists s)(k := xs), js_shadow_lists := l\<rparr>) = jobs s"
    if "sort (js_lists s k) = sort xs" for l
    using that by (simp add: board_jobs_def) (simp add: board_def)
  moreover have "board_integral (board (s\<lparr>js_lists := ls, js_shadow_lists := l\<rparr>)) = board_integral (board s)" for ls l
    by (simp add: board_integral_def board_def)
  ultimately show ?thesis
    using assms js_inv_reorder [of s k xs]
    by (auto simp: job_inv_def reorder_list_def Let_def step_ok_def)
qed

lemma step_recovery:
  assumes "job_inv s"
  shows "step_ok Internal s (snd (reap_expired_inflight now k m s))"
    "step_ok Internal s (snd (steal_dead_owner_leases env h b s))"
    "step_ok Internal s (snd (steal_job_lease_if_owner_dead env k i h b s))"
    "step_ok Internal s (snd (reconcile_this_owner_orphan_leases k known ow s))"
proof -
  have inv: "js_inv s" "board_integral (board s)" using assms by (simp_all add: job_inv_def)
  show "step_ok Internal s (snd (reap_expired_inflight now k m s))"
    using inv js_inv_reap [OF inv(1), of now k m] jobs_reap [OF inv(1), of now k m]
    by (simp add: step_ok_def reap_spec board_integral_reap)
  show "step_ok Internal s (snd (steal_dead_owner_leases env h b s))"
    by (simp add: steal_dead_owner_leases_def step_steal_loop assms)
  show "step_ok Internal s (snd (steal_job_lease_if_owner_dead env k i h b s))"
    using step_requeue [OF assms, of None] step_ok_refl [OF assms]
    by (simp add: steal_one_eq [OF inv(1)] split: option.split)
  have "score_integral x" if "(j, d, w, Some x) \<in> set (js_inflight s k)" for j d w x
  proof -
    have "dict_wf (js_inflight s k)" using js_invD(2) [OF inv(1)] by (simp add: claims_ok_def)
    with that have "jb_inflight (board s) (k, j) = Some (d, w, Some x)" by simp
    with inv(2) show ?thesis unfolding board_integral_def by blast
  qed
  then show "step_ok Internal s (snd (reconcile_this_owner_orphan_leases k known ow s))"
    by (simp add: reconcile_this_owner_orphan_leases_def read_inflight_entries_def step_reconcile_loop assms)
qed

lemma job_step_ok: "job_step cfg ev s t \<Longrightarrow> job_inv s \<Longrightarrow> step_ok ev s t"
proof (induction rule: job_step.induct)
  case (zadd_new i n fp over s t)
  then show ?case using step_zadd [OF zadd_new.prems zadd_new.hyps] by simp
next
  case (zadd_old i n fp over s t)
  then show ?case using step_zadd [OF zadd_old.prems zadd_old.hyps] by simp
next
  case (enqueue_new k i s n t)
  then show ?case using step_enqueue [OF enqueue_new.prems enqueue_new.hyps] by simp
next
  case (enqueue_old k i s t)
  then show ?case using step_enqueue [OF enqueue_old.prems enqueue_old.hyps] by simp
next
  case (evict_some day s i t)
  then show ?case using step_evict [OF evict_some.prems evict_some.hyps] by simp
next
  case (evict_none day s t)
  then show ?case using step_evict [OF evict_none.prems evict_none.hyps] by simp
next
  case (ack k i ow s t)
  then show ?case using step_ack [OF ack.prems ack.hyps] by simp
next
  case (ack_refused k i ow s t)
  then show ?case using step_ack [OF ack_refused.prems ack_refused.hyps] by simp
next
  case (requeue k i ow n s r t)
  have "step_ok Internal s (snd (requeue k i ow (map_option of_int n) s))"
    by (rule step_requeue [OF requeue.prems]) auto
  with requeue.hyps show ?case by simp
next
  case (renew now k i ow ttl s r t)
  then show ?case using step_deadlines(1) [OF renew.prems, of cfg now k i ow ttl] by simp
next
  case (extend now k i x s r t)
  then show ?case using step_deadlines(2) [OF extend.prems, of now k i x] by simp
next
  case (reorder k xs s r t)
  then show ?case using step_reorder [OF reorder.prems, of k xs] by simp
next
  case (reap now k m s out t)
  then show ?case using step_recovery(1) [OF reap.prems, of now k m] by simp
next
  case (steal env h b s n t)
  then show ?case using step_recovery(2) [OF steal.prems, of env h b] by simp
next
  case (steal_one env k i h b s r t)
  then show ?case using step_recovery(3) [OF steal_one.prems, of env k i h b] by simp
next
  case (reconcile k known ow s n t)
  then show ?case using step_recovery(4) [OF reconcile.prems, of k known ow] by simp
next
  case (persist io s fs t r)
  then show ?case
    using js_inv_persist_write [of s io fs] jobs_persist_write [of io s fs] persist_write_state [of io s fs]
    by (intro step_same_board) (auto simp: job_inv_def board_integral_def board_def)
next
  case (writer s w)
  then show ?case by (intro step_same_board) (simp_all add: job_inv_def board_def)
qed (use step_claim step_claim_list step_payload in auto)

lemma job_inv_empty: "job_inv (js_empty dir)"
  by (simp add: job_inv_def js_inv_def queue_ok_def claims_ok_def shadow_inv_def payloads_ok_def
      js_empty_def board_integral_def board_def)

inductive job_run :: "job_cfg \<Rightarrow> job_event list \<Rightarrow> job_store \<Rightarrow> job_store \<Rightarrow> bool" for cfg where
  run_start: "job_run cfg [] s s"
| run_step: "job_run cfg es s t \<Longrightarrow> job_step cfg ev t u \<Longrightarrow> job_run cfg (es @ [ev]) s u"

definition admits :: "job_key \<Rightarrow> job_event list \<Rightarrow> nat" where
  "admits k es = length (filter (\<lambda>ev. ev = Admit k) es)"

definition removals :: "job_key \<Rightarrow> job_event list \<Rightarrow> nat" where
  "removals k es = length (filter (\<lambda>ev. ev = Finish k \<or> ev = Evict k) es)"

lemma job_run_count:
  assumes "job_run cfg es s t" "job_inv s" "jobs s = {}"
  shows "job_inv t \<and> admits k es = removals k es + (if k \<in> jobs t then 1 else 0)"
  using assms
proof (induction rule: job_run.induct)
  case run_start
  then show ?case by (simp add: admits_def removals_def)
next
  case (run_step es s t ev u)
  then have IH: "job_inv t" "admits k es = removals k es + (if k \<in> jobs t then 1 else 0)" by simp_all
  have ok: "step_ok ev t u" using job_step_ok [OF run_step.hyps(2)] IH by simp
  show ?case
    using IH(2) ok step_okD [OF ok] by (cases ev) (auto simp: step_ok_def admits_def removals_def)
qed

end
