(* ===== verification/Job_Restart.thy ===== *)
theory Job_Restart
  imports Job_Steps
begin

text \<open>
  Restart: what \<open>_persist_write\<close> saves, a new store loads. The heaps and counters are rebuilt from
  the score map, the JSON document with sorted keys reads back to the same maps, and the queued
  work with its payload fields is restored while in-flight claims are gone.
\<close>

section \<open>Rebuilding the heaps and counters\<close>

definition heaps_hold ::
    "(string, rat) dict \<Rightarrow> (rat \<times> string) list \<Rightarrow> (rat \<times> string) list \<Rightarrow> (rat \<times> string) list \<Rightarrow> bool" where
  "heaps_hold items hot catchup cmax \<longleftrightarrow> sorted hot \<and> sorted catchup \<and> sorted cmax \<and>
     (\<forall>(sc, i) \<in> set hot. sc < of_int CATCHUP_SCORE_BASE) \<and>
     (\<forall>(sc, i) \<in> set catchup. of_int CATCHUP_SCORE_BASE \<le> sc) \<and>
     (\<forall>(i, sc) \<in> set items. if sc < of_int CATCHUP_SCORE_BASE then (sc, i) \<in> set hot
        else (sc, i) \<in> set catchup \<and> (- sc, i) \<in> set cmax)"

abbreviation store_heaps_hold :: "(string, rat) dict \<Rightarrow> job_store \<Rightarrow> bool" where
  "store_heaps_hold items s \<equiv> heaps_hold items (js_heap_hot s) (js_heap_catchup s) (js_heap_catchup_max s)"

lemma heaps_hold_push:
  assumes "heaps_hold items hh hc hm" "set items \<subseteq> set g" "(i, sc) \<in> set g"
  shows "heaps_hold (items @ [(i, sc)]) (pushed_hot i sc hh) (pushed_catchup i sc hc) (pushed_max i sc g hm)"
proof -
  let ?B = "of_int CATCHUP_SCORE_BASE :: rat"
  have "\<forall>(j, q) \<in> set (items @ [(i, sc)]). if q < ?B then (q, j) \<in> set (pushed_hot i sc hh)
      else (q, j) \<in> set (pushed_catchup i sc hc) \<and> (- q, j) \<in> set (pushed_max i sc g hm)"
  proof (rule ballI)
    fix p assume p: "p \<in> set (items @ [(i, sc)])"
    obtain j q where jq: "p = (j, q)" by (cases p)
    have g: "(j, q) \<in> set g" using p jq assms(2,3) by auto
    have old: "if q < ?B then (q, j) \<in> set hh else (q, j) \<in> set hc \<and> (- q, j) \<in> set hm" if "(j, q) \<in> set items"
      using assms(1) that unfolding heaps_hold_def by blast
    have "(j, q) \<in> set items \<or> (j = i \<and> q = sc)" using p jq by auto
    then show "case p of (j, q) \<Rightarrow> if q < ?B then (q, j) \<in> set (pushed_hot i sc hh)
        else (q, j) \<in> set (pushed_catchup i sc hc) \<and> (- q, j) \<in> set (pushed_max i sc g hm)"
      using old in_pushed_max [OF g, of hm i sc] unfolding jq
      by (auto simp: set_pushed_hot set_pushed_catchup split: if_splits)
  qed
  moreover have "\<forall>(q, j) \<in> set (pushed_hot i sc hh). q < ?B"
      "\<forall>(q, j) \<in> set (pushed_catchup i sc hc). ?B \<le> q"
    using assms(1) by (auto simp: heaps_hold_def set_pushed_hot set_pushed_catchup)
  ultimately show ?thesis
    using assms(1) unfolding heaps_hold_def by (simp only: sorted_pushed)
qed

lemma heaps_hold_fold:
  "store_heaps_hold items s \<Longrightarrow> set items \<union> set xs \<subseteq> set (js_ingest s) \<Longrightarrow>
   store_heaps_hold (items @ xs) (fold (\<lambda>(i, sc). ingest_heap_push i sc) xs s)"
proof (induction xs arbitrary: items s)
  case (Cons p xs)
  obtain i sc where p: "p = (i, sc)" by (cases p)
  let ?t = "ingest_heap_push i sc s"
  have "store_heaps_hold (items @ [p]) ?t"
    using Cons.prems p heaps_hold_push [OF Cons.prems(1), of "js_ingest s" i sc]
    by (simp add: ingest_heap_push_eq)
  moreover have "js_ingest ?t = js_ingest s" by (simp add: ingest_heap_push_eq)
  ultimately show ?case using Cons.IH [of "items @ [p]" ?t] Cons.prems p by simp
qed simp

lemma fold_push_frame:
  "\<exists>a b c. fold (\<lambda>(i, sc). ingest_heap_push i sc) xs s =
     s\<lparr>js_heap_hot := a, js_heap_catchup := b, js_heap_catchup_max := c\<rparr>"
proof (induction xs arbitrary: s)
  case Nil
  have "s = s\<lparr>js_heap_hot := js_heap_hot s, js_heap_catchup := js_heap_catchup s,
      js_heap_catchup_max := js_heap_catchup_max s\<rparr>" by simp
  then show ?case by (metis fold_simps(1))
next
  case (Cons p xs)
  obtain i sc where p: "p = (i, sc)" by (cases p)
  from Cons.IH [of "ingest_heap_push i sc s"] show ?case
    unfolding p by (auto simp: ingest_heap_push_eq)
qed

lemma rebuild_heaps_spec:
  assumes "s' = ingest_rebuild_heaps s"
  shows "store_heaps_hold (js_ingest s) s'" "\<exists>a b c. s' = s\<lparr>js_heap_hot := a, js_heap_catchup := b, js_heap_catchup_max := c\<rparr>"
proof -
  let ?s0 = "s\<lparr>js_heap_hot := [], js_heap_catchup := [], js_heap_catchup_max := []\<rparr>"
  have "store_heaps_hold [] ?s0" by (simp add: heaps_hold_def)
  from heaps_hold_fold [OF this, of "js_ingest s"] show "store_heaps_hold (js_ingest s) s'"
    by (simp add: assms ingest_rebuild_heaps_def)
  show "\<exists>a b c. s' = s\<lparr>js_heap_hot := a, js_heap_catchup := b, js_heap_catchup_max := c\<rparr>"
    using fold_push_frame [of "js_ingest s" ?s0] by (auto simp: assms ingest_rebuild_heaps_def)
qed

lemma band_counts_fold:
  "fold (\<lambda>(i, sc) (hot, catchup). if decode_ingest_band sc = ''hot'' then (Suc hot, catchup) else (hot, Suc catchup))
     xs (a, b) =
   (a + length (filter (\<lambda>p. snd p < of_int CATCHUP_SCORE_BASE) xs),
    b + length (filter (\<lambda>p. \<not> snd p < of_int CATCHUP_SCORE_BASE) xs))"
  by (induction xs arbitrary: a b) auto

lemma rebuild_counts_eq:
  "rebuild_ingest_band_counts s =
     s\<lparr>js_hot_n := length (filter (\<lambda>p. snd p < of_int CATCHUP_SCORE_BASE) (js_ingest s)),
       js_catchup_n := length (filter (\<lambda>p. \<not> snd p < of_int CATCHUP_SCORE_BASE) (js_ingest s))\<rparr>"
  unfolding rebuild_ingest_band_counts_def band_counts_fold by simp

text \<open>What a load installs, for a document whose lists have no duplicates and match its dedupe sets.\<close>

lemma install_snapshot_spec:
  fixes s :: job_store
  assumes g: "dict_wf g" and l: "\<And>k. distinct (kind_table ls k)" "\<And>k. k \<notin> set JOB_KINDS_LIST \<Longrightarrow> kind_table ls k = []"
    and p: "\<And>k. set (kind_table pd k) = set (kind_table ls k)"
    and y: "dict_wf pay" "\<And>k row. map_of pay k = Some row \<Longrightarrow> dict_wf row"
  defines "t \<equiv> install_snapshot g ls pd pay s"
  shows "js_inv t" "js_ingest t = g" "js_lists t = kind_table ls" "js_inflight t = (\<lambda>_. [])"
    "js_payloads t = dict_filter (\<lambda>k. k \<in> queued_identities t) pay" "js_archive_dir t = js_archive_dir s"
proof -
  let ?s1 = "ingest_rebuild_heaps (s\<lparr>js_ingest := g\<rparr>)"
  obtain a b c where s1: "?s1 = s\<lparr>js_ingest := g, js_heap_hot := a, js_heap_catchup := b, js_heap_catchup_max := c\<rparr>"
    using rebuild_heaps_spec(2) [OF refl, of "s\<lparr>js_ingest := g\<rparr>"] by auto
  have hold: "heaps_hold g a b c"
    using rebuild_heaps_spec(1) [OF refl, of "s\<lparr>js_ingest := g\<rparr>"] unfolding s1 by simp
  note t = t_def install_snapshot_def Let_def s1 prune_orphan_payloads_def rebuild_shadow_def rebuild_counts_eq
  show 1: "js_ingest t = g" "js_lists t = kind_table ls" "js_inflight t = (\<lambda>_. [])" "js_archive_dir t = js_archive_dir s"
    by (simp_all add: t)
  have q: "queued_identities t = Pair JOB_KIND_INGEST ` dict_keys g \<union> (\<Union>k \<in> set JOB_KINDS_LIST. Pair k ` set (kind_table ls k))"
    by (simp add: queued_identities_def 1)
  show pay: "js_payloads t = dict_filter (\<lambda>k. k \<in> queued_identities t) pay"
    unfolding q by (simp add: t queued_identities_def)
  show "js_inv t"
  proof
    show "queue_inv t" using hold g by (simp add: t queue_ok_def heaps_hold_def)
    show "claims_inv t" using l p by (simp add: t claims_ok_def)
    have "queued_in (js_ingest t) (js_pending t) k i = ((k, i) \<in> queued_identities t)" for k i
      unfolding q using p l(2) by (auto simp: queued_in_def t)
    then have "payloads_ok (js_ingest t) (js_pending t) (js_payloads t) (dict_filter (\<lambda>k. k \<in> queued_identities t) (js_payloads t))"
      using y unfolding payloads_ok_def pay by (auto simp: dict_wf_filter simp del: map_of_eq_Some_iff split: if_splits)
    moreover have "js_shadow_payloads t = dict_filter (\<lambda>k. k \<in> queued_identities t) (js_payloads t)"
      unfolding q by (simp add: t queued_identities_def)
    ultimately show "shadow_inv t" by (simp add: shadow_inv_def) (simp add: t)
  qed
qed

section \<open>Reading back what was written\<close>

fun num_of :: "json \<Rightarrow> rat" where
  "num_of (JNum r) = r"
| "num_of _ = 0"

lemma built_ingest_sorted:
  assumes "dict_wf g"
  shows "\<exists>h. built_ingest cv (json_sort_keys (JObj (map (\<lambda>(i, sc). (i, JNum sc)) g))) = Inr h \<and>
    dict_wf h \<and> map_of h = map_of g"
proof -
  let ?m = "map (\<lambda>(i, sc). (i, JNum sc)) g"
  define L where "L = sort_key fst ?m"
  have m: "map (map_prod id json_sort_keys) ?m = ?m" by (simp add: map_prod_def split_def)
  have mwf: "dict_wf ?m" using assms by (simp add: comp_def split_def)
  have wf: "dict_wf L" unfolding L_def dict_wf_sort by (rule mwf)
  have look: "map_of L = map_of ?m" unfolding L_def by (rule map_of_sort_key [OF mwf])
  have num: "json_float cv (snd p) = Inr (num_of (snd p))" if "p \<in> set L" for p
    using that unfolding L_def by auto
  let ?h = "map (\<lambda>p. (fst p, num_of (snd p))) L"
  have "sum_map (\<lambda>(i, sc). case json_float cv sc of Inl e \<Rightarrow> Inl e | Inr r \<Rightarrow> Inr (i, r)) L = Inr ?h"
    using num by (intro sum_map_Inr) (auto simp: split_def)
  moreover have "dict_wf ?h" using wf by (simp add: comp_def)
  moreover have "map_of ?h = map_of g"
  proof
    fix i
    have "map_of ?h i = map_option num_of (map_of L i)"
      using map_of_map [of "num_of" L] by (simp add: split_def)
    also have "\<dots> = map_of g i"
      unfolding look using map_of_map [of JNum g] by (simp add: option.map_comp comp_def option.map_ident split_def)
    finally show "map_of ?h i = map_of g i" .
  qed
  moreover have "json_sort_keys (JObj ?m) = JObj L" by (simp only: json_sort_keys.simps m L_def)
  ultimately show ?thesis
    unfolding built_ingest_def json_items_def by (auto simp: dict_of_wf simp del: json_sort_keys.simps)
qed

lemma built_lists_sorted:
  "built_lists cv (json_sort_keys (JObj (map (\<lambda>k. (k, JList (map JStr (f k)))) JOB_KINDS_LIST))) =
     Inr (map (\<lambda>k. (k, f k)) JOB_KINDS_LIST)"
proof -
  let ?d = "map (\<lambda>k. (k, JList (map JStr (f k)))) JOB_KINDS_LIST"
  have wf: "dict_wf ?d" by (simp add: JOB_KINDS_LIST_def kind_name_defs)
  have get: "jget (jobj_items (json_sort_keys (JObj ?d))) k = JList (map JStr (f k))"
    if "k \<in> set JOB_KINDS_LIST" for k
  proof -
    have "jget ?d k = JList (map JStr (f k))"
      using that by (auto simp: jget_def JOB_KINDS_LIST_def kind_name_defs)
    with jget_sort [OF wf, of k] show ?thesis by (simp add: comp_def)
  qed
  have items: "json_items (json_sort_keys (JObj ?d)) = Inr (jobj_items (json_sort_keys (JObj ?d)))"
    by (simp add: json_items_def)
  have "json_list (json_or (JList (map JStr xs)) (JList [])) = Inr (map JStr xs)" for xs
    by (cases xs) (simp_all add: json_or_def)
  then show ?thesis
    unfolding built_lists_def items
    by (intro sum_map_Inr) (simp add: get comp_def del: json_sort_keys.simps)
qed

lemma kind_table_map: "kind_table (map (\<lambda>k. (k, f k)) JOB_KINDS_LIST) k = (if k \<in> set JOB_KINDS_LIST then f k else [])"
  by (auto simp: kind_table_def JOB_KINDS_LIST_def)

definition row_json :: "payload_fields \<Rightarrow> json" where
  "row_json row = JObj (map (\<lambda>(n, v). (n, JStr v)) row)"

definition row_back :: "json_conv \<Rightarrow> json \<Rightarrow> payload_fields" where
  "row_back cv j = dict_of (map (\<lambda>(n, v). (n, json_str cv v)) (jobj_items j))"

lemma row_back_sorted:
  assumes "dict_wf row"
  shows "dict_wf (row_back cv (json_sort_keys (row_json row)))"
    "map_of (row_back cv (json_sort_keys (row_json row))) = map_of row"
proof -
  let ?m = "map (\<lambda>(n, v). (n, JStr v)) row"
  have m: "map (map_prod id json_sort_keys) ?m = ?m" by (simp add: map_prod_def split_def)
  have j: "json_sort_keys (row_json row) = JObj (sort_key fst ?m)"
    by (simp only: row_json_def json_sort_keys.simps m)
  have mwf: "dict_wf ?m" using assms by (simp add: comp_def split_def)
  have wf: "dict_wf (sort_key fst ?m)" unfolding dict_wf_sort by (rule mwf)
  let ?h = "map (\<lambda>(n, v). (n, json_str cv v)) (sort_key fst ?m)"
  have h: "dict_wf ?h" using wf by (simp add: comp_def split_def)
  then have rb: "row_back cv (json_sort_keys (row_json row)) = ?h"
    by (simp add: row_back_def j dict_of_wf)
  show "dict_wf (row_back cv (json_sort_keys (row_json row)))" unfolding rb by (rule h)
  have "map_of ?h n = map_option (json_str cv) (map_of ?m n)" for n
    using map_of_map [of "json_str cv" "sort_key fst ?m"] map_of_sort_key [OF mwf] by (simp add: split_def)
  moreover have "map_option (json_str cv) (map_of ?m n) = map_of row n" for n
    using map_of_map [of JStr row] by (simp add: option.map_comp comp_def option.map_ident split_def)
  ultimately show "map_of (row_back cv (json_sort_keys (row_json row))) = map_of row"
    unfolding rb by auto
qed

lemma payload_key_split: "CHR ''|'' \<notin> set (fst k) \<Longrightarrow> py_split1 (CHR ''|'') (payload_key k) = k"
  by (simp add: payload_key_def py_split1_append)

definition payload_items :: "(job_key, payload_fields) dict \<Rightarrow> (string, json) dict" where
  "payload_items pay = map (\<lambda>(k, row). (payload_key k, row_json row)) pay"

lemma payload_items_wf:
  assumes "dict_wf pay" "\<And>k. k \<in> dict_keys pay \<Longrightarrow> CHR ''|'' \<notin> set (fst k)"
  shows "dict_wf (payload_items pay)"
proof -
  have "inj_on payload_key (dict_keys pay)"
    by (rule inj_on_inverseI [of _ "py_split1 (CHR ''|'')"]) (rule payload_key_split, rule assms(2))
  moreover have "map fst (payload_items pay) = map payload_key (map fst pay)"
    by (simp add: payload_items_def comp_def split_def)
  ultimately show ?thesis using assms(1) by (simp add: distinct_map comp_inj_on)
qed

definition item_back :: "json_conv \<Rightarrow> string \<times> json \<Rightarrow> job_key \<times> payload_fields" where
  "item_back cv p = (py_split1 (CHR ''|'') (fst p), row_back cv (snd p))"

lemma built_payloads_all:
  assumes "\<And>p. p \<in> set L \<Longrightarrow> is_jobj (snd p) \<and> CHR ''|'' \<in> set (fst p)"
  shows "built_payloads cv (JObj L) = dict_of (map (item_back cv) L)"
proof -
  have "filter (\<lambda>(key, row). is_jobj row \<and> CHR ''|'' \<in> set key) L = L"
    using assms by (intro filter_True) (simp add: split_def)
  then show ?thesis by (simp add: built_payloads_def item_back_def [abs_def] row_back_def split_def)
qed

lemma item_back_items:
  assumes "\<And>k. k \<in> dict_keys pay \<Longrightarrow> CHR ''|'' \<notin> set (fst k)"
  shows "map (item_back cv) (map (map_prod id json_sort_keys) (payload_items pay)) =
    map (\<lambda>p. (fst p, row_back cv (json_sort_keys (row_json (snd p))))) pay"
proof -
  have "py_split1 (CHR ''|'') (payload_key (fst p)) = fst p" if "p \<in> set pay" for p
    using that by (intro payload_key_split assms) simp
  then show ?thesis by (simp add: payload_items_def item_back_def split_def)
qed

lemma built_payloads_sorted:
  fixes cv :: json_conv
  assumes "dict_wf pay" "\<And>k. k \<in> dict_keys pay \<Longrightarrow> CHR ''|'' \<notin> set (fst k)"
  defines "R \<equiv> map (\<lambda>p. (fst p, row_back cv (json_sort_keys (row_json (snd p))))) pay"
    and "B \<equiv> built_payloads cv (json_sort_keys (JObj (dict_of (payload_items pay))))"
  shows "dict_wf B" "map_of B = map_of R"
proof -
  let ?S = "map (map_prod id json_sort_keys) (payload_items pay)"
  let ?L = "sort_key fst ?S"
  have "is_jobj (snd p) \<and> CHR ''|'' \<in> set (fst p)" if "p \<in> set ?L" for p
    using that by (auto simp: payload_items_def payload_key_def row_json_def)
  then have L: "built_payloads cv (JObj ?L) = dict_of (map (item_back cv) ?L)" by (rule built_payloads_all)
  have wf: "dict_wf (payload_items pay)" using assms(1,2) by (rule payload_items_wf)
  have B: "B = dict_of (map (item_back cv) ?L)"
    unfolding B_def dict_of_wf [OF wf] json_sort_keys.simps L ..
  then show "dict_wf B" by simp
  have "mset (map (item_back cv) ?L) = mset (map (item_back cv) ?S)" by (simp only: mset_map mset_sort)
  also have "map (item_back cv) ?S = R" unfolding R_def using assms(2) by (rule item_back_items)
  finally have perm: "mset (map (item_back cv) ?L) = mset R" .
  have Rwf: "dict_wf R" using assms(1) by (simp add: R_def comp_def)
  have "mset (map fst (map (item_back cv) ?L)) = mset (map fst R)" using perm by (metis mset_map)
  then have Lwf: "dict_wf (map (item_back cv) ?L)" using Rwf mset_eq_imp_distinct_iff by blast
  show "map_of B = map_of R"
    unfolding B dict_of_wf [OF Lwf]
    using map_of_inject_set [OF Lwf Rwf] mset_eq_setD [OF perm] by blast
qed

lemma map_of_rows: "map_of (map (\<lambda>p. (fst p, f (snd p))) d) k = map_option f (map_of d k)"
  by (induction d) auto

section \<open>Restart\<close>

definition snapshot_path :: "string \<Rightarrow> string" where
  "snapshot_path dir = py_path_join dir ''.sync_timedb_job_store.json''"

lemma artifact_path_snapshot: "artifact_path dir JOB_STORE_SNAPSHOT_KIND = Inr (snapshot_path dir)"
  by (simp add: artifact_path_def snapshot_path_def JOB_STORE_SNAPSHOT_KIND_def PERSISTENCE_ARTIFACT_REGISTRY_def)

lemma snapshot_path_nonempty: "snapshot_path dir \<noteq> []"
  by (simp add: snapshot_path_def py_path_join_def)

text \<open>The four parts of the document that a store with the invariant writes.\<close>

lemma snapshot_payload_parts:
  assumes "js_inv s"
  shows "jget (snapshot_payload s) ''ingest'' = JObj (map (\<lambda>(i, sc). (i, JNum sc)) (js_ingest s))"
    "jget (snapshot_payload s) ''lists'' = JObj (map (\<lambda>k. (k, JList (map JStr (js_lists s k)))) JOB_KINDS_LIST)"
    "jget (snapshot_payload s) ''pending'' =
       JObj (map (\<lambda>k. (k, JList (map JStr (sorted_list_of_set (set (js_lists s k)))))) JOB_KINDS_LIST)"
    "jget (snapshot_payload s) ''payloads'' =
       JObj (dict_of (payload_items (js_shadow_payloads s)))"
proof -
  have "js_pending s k = set (js_lists s k)" for k
    using js_invD(2) [OF assms] by (simp add: claims_ok_def)
  then show "jget (snapshot_payload s) ''ingest'' = JObj (map (\<lambda>(i, sc). (i, JNum sc)) (js_ingest s))"
    "jget (snapshot_payload s) ''lists'' = JObj (map (\<lambda>k. (k, JList (map JStr (js_lists s k)))) JOB_KINDS_LIST)"
    "jget (snapshot_payload s) ''pending'' =
       JObj (map (\<lambda>k. (k, JList (map JStr (sorted_list_of_set (set (js_lists s k)))))) JOB_KINDS_LIST)"
    "jget (snapshot_payload s) ''payloads'' =
       JObj (dict_of (payload_items (js_shadow_payloads s)))"
    using js_invD(3) [OF assms]
    by (simp_all add: snapshot_payload_def jget_def shadow_inv_def row_json_def payload_items_def)
qed

lemma shadow_keys_plain:
  assumes "js_inv s" "k \<in> dict_keys (js_shadow_payloads s)"
  shows "CHR ''|'' \<notin> set (fst k)"
proof -
  have "map_of (js_shadow_payloads s) (fst k, snd k) \<noteq> None" using assms(2) by (simp add: map_of_eq_None_iff)
  then have "queued_in (js_ingest s) (js_pending s) (fst k) (snd k)"
    using js_invD(3) [OF assms(1)] unfolding shadow_inv_def payloads_ok_def by metis
  then show ?thesis by (auto simp: queued_in_def JOB_KINDS_LIST_def kind_name_defs split: if_splits)
qed

lemma queued_identities_board: "(k, i) \<in> queued_identities s \<longleftrightarrow> queued_on (board s) (k, i)"
proof (cases "k = JOB_KIND_INGEST")
  case True
  then show ?thesis
    using map_of_None_iff [of "js_ingest s" i] by (auto simp: queued_identities_def queued_on_def)
next
  case False
  then show ?thesis by (auto simp: queued_identities_def queued_on_def)
qed

lemma jget_Cons: "jget ((a, v) # d) k = (if a = k then v else jget d k)"
  by (simp add: jget_def)

lemma load_store_doc:
  assumes "js_archive_dir s \<noteq> []" "artifact_path (js_archive_dir s) JOB_STORE_SNAPSHOT_KIND = Inr path"
    "load_persistence_document fs path ''job_store_snapshot'' (JObj []) = JObj d"
    "built_ingest cv (json_or (jget d ''ingest'') (JObj [])) = Inr g"
    "built_lists cv (json_or (jget d ''lists'') (JObj [])) = Inr ls"
    "built_lists cv (json_or (jget d ''pending'') (JObj [])) = Inr pd"
    "built_payloads cv (json_or (jget d ''payloads'') (JObj [])) = pay"
  shows "load_store cv fs s = Inr (install_snapshot g ls pd pay s)"
  using assms by (simp add: load_store_def JOB_STORE_SNAPSHOT_KIND_def Let_def)

text \<open>A store that loads the document of \<open>s\<close>.\<close>

lemma load_snapshot:
  assumes inv: "js_inv s" and dir: "js_archive_dir s \<noteq> []"
    and doc: "load_persistence_document fs (snapshot_path (js_archive_dir s)) ''job_store_snapshot'' (JObj []) =
      JObj (map (\<lambda>k. (k, json_sort_keys (jget (snapshot_payload s) k))) [''ingest'', ''lists'', ''pending'', ''payloads''])"
  shows "\<exists>t. load_store cv fs (js_empty (js_archive_dir s)) = Inr t \<and> js_inv t \<and>
    map_of (js_ingest t) = map_of (js_ingest s) \<and> js_lists t = js_lists s \<and> (\<forall>k. js_inflight t k = []) \<and>
    (\<forall>k i n. payload_text k i n t = (if queued_on (board s) (k, i) then payload_text k i n s else []))"
proof -
  note parts = snapshot_payload_parts [OF inv]
  have c: "claims_inv s" and q: "queue_inv s" and sh: "shadow_inv s" using js_invD [OF inv] by simp_all
  let ?pd = "map (\<lambda>k. (k, sorted_list_of_set (set (js_lists s k)))) JOB_KINDS_LIST"
  let ?ls = "map (\<lambda>k. (k, js_lists s k)) JOB_KINDS_LIST"
  let ?pay = "built_payloads cv (json_sort_keys (jget (snapshot_payload s) ''payloads''))"
  obtain g where g: "built_ingest cv (json_sort_keys (jget (snapshot_payload s) ''ingest'')) = Inr g"
      "dict_wf g" "map_of g = map_of (js_ingest s)"
    using built_ingest_sorted [of "js_ingest s" cv] q parts(1) by (auto simp: queue_ok_def)
  have l: "built_lists cv (json_sort_keys (jget (snapshot_payload s) ''lists'')) = Inr ?ls"
      "built_lists cv (json_sort_keys (jget (snapshot_payload s) ''pending'')) = Inr ?pd"
    unfolding parts by (rule built_lists_sorted)+
  have spwf: "dict_wf (js_shadow_payloads s)" using sh by (simp add: shadow_inv_def payloads_ok_def)
  have pay: "dict_wf ?pay" "\<And>k. map_of ?pay k =
      map_option (\<lambda>row. row_back cv (json_sort_keys (row_json row))) (map_of (js_shadow_payloads s) k)"
    unfolding parts(4)
    using built_payloads_sorted [OF spwf, of cv] shadow_keys_plain [OF inv]
      map_of_rows [of "\<lambda>row. row_back cv (json_sort_keys (row_json row))" "js_shadow_payloads s"]
    by simp_all
  have rows: "dict_wf row" if "map_of (js_shadow_payloads s) k = Some row" for k row
    using sh that by (cases k) (auto simp: shadow_inv_def payloads_ok_def simp del: map_of_eq_Some_iff split: if_splits)
  let ?t = "install_snapshot g ?ls ?pd ?pay (js_empty (js_archive_dir s))"
  have lists: "kind_table ?ls = js_lists s"
    using c by (auto simp: fun_eq_iff kind_table_map claims_ok_def)
  have t: "js_inv ?t" "js_ingest ?t = g" "js_lists ?t = kind_table ?ls" "js_inflight ?t = (\<lambda>_. [])"
      "js_payloads ?t = dict_filter (\<lambda>k. k \<in> queued_identities ?t) ?pay"
    using g(2) c pay rows
    by (intro install_snapshot_spec;
        auto simp: kind_table_map claims_ok_def row_back_sorted simp del: map_of_eq_Some_iff)+
  have obj: "json_or (json_sort_keys (jget (snapshot_payload s) k)) (JObj []) = json_sort_keys (jget (snapshot_payload s) k)"
    if "k \<in> set [''ingest'', ''lists'', ''pending'', ''payloads'']" for k
    using that parts by (auto simp: json_or_def)
  have "load_store cv fs (js_empty (js_archive_dir s)) = Inr ?t"
  proof (rule load_store_doc [OF _ _ doc])
    show "js_archive_dir (js_empty (js_archive_dir s)) \<noteq> []"
      "artifact_path (js_archive_dir (js_empty (js_archive_dir s))) JOB_STORE_SNAPSHOT_KIND =
         Inr (snapshot_path (js_archive_dir s))"
      using dir by (simp_all add: js_empty_def artifact_path_snapshot)
  qed (simp_all add: jget_Cons obj g(1) l)
  moreover have "payload_text k i n ?t = (if queued_on (board s) (k, i) then payload_text k i n s else [])" for k i n
  proof -
    have "(k, i) \<in> queued_identities ?t \<longleftrightarrow> queued_on (board s) (k, i)"
      using g(3) lists t(2,3) by (simp add: queued_identities_board queued_on_def)
    moreover have "map_of (js_shadow_payloads s) (k, i) =
        (if queued_on (board s) (k, i) then map_of (js_payloads s) (k, i) else None)"
      using sh queued_identities_iff [OF inv, of k i] unfolding queued_identities_board
      by (simp add: shadow_inv_def payloads_ok_def)
    ultimately have "map_of (js_payloads ?t) (k, i) = (if queued_on (board s) (k, i)
        then map_option (\<lambda>row. row_back cv (json_sort_keys (row_json row))) (map_of (js_payloads s) (k, i)) else None)"
      unfolding t(5) by (simp add: pay(2))
    moreover have "map_of (row_back cv (json_sort_keys (row_json row))) = map_of row"
      if "map_of (js_payloads s) (k, i) = Some row" for row
      using sh that by (intro row_back_sorted(2)) (auto simp: shadow_inv_def payloads_ok_def)
    ultimately show ?thesis
      by (auto simp: payload_text_def simp del: map_of_eq_Some_iff split: option.split)
  qed
  ultimately show ?thesis using t g(3) lists by auto
qed

lemma persist_write_document:
  assumes "js_archive_dir s \<noteq> []"
  shows "snd (persist_write io s fs) = save_persistence_document io (snapshot_path (js_archive_dir s))
    ''job_store_snapshot'' (JObj (snapshot_payload (fst (persist_write io s fs)))) True fs"
  using assms by (simp add: persist_write_def Let_def artifact_path_snapshot) (simp add: JOB_STORE_SNAPSHOT_KIND_def)

lemma payload_text_writer [simp]: "payload_text k i n (s\<lparr>js_writer := w\<rparr>) = payload_text k i n s"
  by (simp add: payload_text_def)

lemma persisted_payload_text:
  assumes "js_inv s"
  shows "queued_on (board s) (k, i) \<Longrightarrow> payload_text k i n (fst (persist_write io s fs)) = payload_text k i n s"
  unfolding persist_write_state by (simp add: payload_text_def queued_identities_board)

lemma restart_spec:
  assumes inv: "js_inv s" and dir: "js_archive_dir s \<noteq> []"
    and io: "can_write io (snapshot_path (js_archive_dir s))"
  shows "\<exists>fs' t. snd (persist_write io s fs) = Inr fs' \<and> new_store cv now fs' (js_archive_dir s) = Inr t \<and> js_inv t \<and>
    map_of (js_ingest t) = map_of (js_ingest s) \<and> js_lists t = js_lists s \<and> (\<forall>k. js_inflight t k = []) \<and>
    (\<forall>k i n. payload_text k i n t = (if queued_on (board s) (k, i) then payload_text k i n s else []))"
proof -
  let ?s = "fst (persist_write io s fs)"
  have s: "js_inv ?s" by (rule js_inv_persist_write [OF inv])
  have same: "js_archive_dir ?s = js_archive_dir s" "js_ingest ?s = js_ingest s" "js_lists ?s = js_lists s"
    by (simp_all add: persist_write_state)
  have obj: "\<forall>k \<in> set [''ingest'', ''lists'', ''pending'', ''payloads'']. is_jobj (jget (snapshot_payload ?s) k)"
    using snapshot_payload_parts [OF s] by simp
  obtain fs' where fs': "snd (persist_write io s fs) = Inr fs'"
      "load_persistence_document fs' (snapshot_path (js_archive_dir s)) ''job_store_snapshot'' (JObj []) =
        JObj (map (\<lambda>k. (k, json_sort_keys (jget (snapshot_payload ?s) k))) [''ingest'', ''lists'', ''pending'', ''payloads''])"
    using load_saved_snapshot [OF snapshot_path_nonempty io obj, of fs "JObj []"]
    unfolding persist_write_document [OF dir] by blast
  from load_snapshot [OF s, unfolded same, OF dir fs'(2), of cv]
  obtain t where t: "load_store cv fs' (js_empty (js_archive_dir s)) = Inr t" "js_inv t"
      "map_of (js_ingest t) = map_of (js_ingest s)" "js_lists t = js_lists s" "\<forall>k. js_inflight t k = []"
      "\<forall>k i n. payload_text k i n t = (if queued_on (board ?s) (k, i) then payload_text k i n ?s else [])"
    by blast
  have "queued_on (board ?s) p = queued_on (board s) p" for p by (simp add: queued_on_def same)
  then have "\<forall>k i n. payload_text k i n t = (if queued_on (board s) (k, i) then payload_text k i n s else [])"
    using t(6) persisted_payload_text [OF inv] by simp
  with t fs'(1) dir show ?thesis
    by (intro exI [of _ fs'] exI [of _ "t\<lparr>js_writer := wb_start now (js_writer t)\<rparr>"]) (simp add: new_store_def)
qed

section \<open>All the ways the state of the queues changes\<close>

text \<open>
  A step is an operation of the live store or a restart of the process: the writer's last
  successful snapshot is loaded into a new store.
\<close>

inductive world_step :: "job_cfg \<Rightarrow> job_store \<Rightarrow> job_store \<Rightarrow> bool" for cfg where
  operate: "job_step cfg ev s t \<Longrightarrow> world_step cfg s t"
| restart: "js_archive_dir s \<noteq> [] \<Longrightarrow> persist_write io s fs = (s', Inr fs') \<Longrightarrow>
    new_store cv now fs' (js_archive_dir s) = Inr t \<Longrightarrow> world_step cfg s t"

lemma save_needs_write: "save_persistence_document io path kind j c fs = Inr fs' \<Longrightarrow> can_write io path"
  by (auto simp: save_persistence_document_def save_json_atomic_def split: sum.splits if_splits)

lemma job_inv_world_step: "world_step cfg s t \<Longrightarrow> job_inv s \<Longrightarrow> job_inv t"
proof (induction rule: world_step.induct)
  case (operate ev s t)
  then show ?case using job_step_ok step_okD by blast
next
  case (restart s io fs s' fs' cv now t)
  have inv: "js_inv s" "board_integral (board s)" using restart.prems by (simp_all add: job_inv_def)
  have "can_write io (snapshot_path (js_archive_dir s))"
    using persist_write_document [OF restart.hyps(1), of io fs] restart.hyps(2)
    by (intro save_needs_write [where fs' = fs']) simp
  from restart_spec [OF inv(1) restart.hyps(1) this, of fs cv now] restart.hyps(2,3)
  show ?case using inv(2) by (auto simp: job_inv_def board_integral_def board_def)
qed

interpretation world: invariant_system "\<lambda>s. \<exists>dir. s = js_empty dir" "world_step cfg" job_inv
  for cfg
  by unfold_locales (auto simp: job_inv_empty intro: job_inv_world_step)

definition reachable :: "job_cfg \<Rightarrow> job_store \<Rightarrow> bool" where
  "reachable cfg s \<longleftrightarrow> (\<exists>dir. (world_step cfg)\<^sup>*\<^sup>* (js_empty dir) s)"

lemma reachable_inv:
  assumes "reachable cfg s"
  shows "js_inv s" "scores_integral s"
proof -
  from assms have "job_inv s" unfolding reachable_def using world.inv_reachable by blast
  then show "js_inv s" "scores_integral s" by (simp_all add: job_inv_def scores_integral_board)
qed

lemma reachable_empty: "reachable cfg (js_empty dir)"
  unfolding reachable_def by blast

lemma reachable_step: "reachable cfg s \<Longrightarrow> job_step cfg ev s t \<Longrightarrow> reachable cfg t"
  unfolding reachable_def by (meson rtranclp.rtrancl_into_rtrancl world_step.operate)

end
