(* ===== verification/Job_Props.thy ===== *)
theory Job_Props
  imports Job_Restart
begin

text \<open>
  The properties of the job store, over every state that operations and restarts can reach from
  an empty store (integral scores, list jobs enqueued with \<open>dedupe=True\<close>, as every caller does),
  each with an application to a small concrete store.
\<close>

section \<open>Concrete stores\<close>

text \<open>The token holds the claim.\<close>

definition owns :: "job_store \<Rightarrow> string \<Rightarrow> string \<Rightarrow> string \<Rightarrow> bool" where
  "owns s k i ow \<longleftrightarrow> ow \<noteq> [] \<and> board_owner (board s) (k, i) = Some ow"

definition demo_cfg :: job_cfg where
  "demo_cfg = \<lparr>get_sync_ingest_per_file_timeout_max_s = None, get_sync_job_queue_max_members = None,
     get_sync_ingest_queue_max_size = Some 2, get_sync_archive_retry_max_attempts = None\<rparr>"

definition demo_one :: job_store where
  "demo_one = snd (zadd_ingest demo_cfg ''/raw/a'' (of_int 7) (Some ''10|20'') False (js_empty ''/d''))"

definition demo_queue :: job_store where
  "demo_queue = snd (zadd_ingest demo_cfg ''/raw/b'' (of_int 5) None False demo_one)"

definition demo_token :: string where "demo_token = ''n:host:boot:7''"

definition demo_append :: job_store where
  "demo_append = (case enqueue_list demo_cfg ''append'' ''t1'' True (js_empty ''/d'') of
     Inr (n, s) \<Rightarrow> s | Inl e \<Rightarrow> js_empty ''/d'')"

definition demo_claimed :: job_store where
  "demo_claimed = (case claim_list demo_cfg 100 ''append'' demo_token (Some 60) demo_append of
     Inr (j, s) \<Rightarrow> s | Inl e \<Rightarrow> js_empty ''/d'')"

definition demo_env :: proc_env where
  "demo_env = \<lparr>pe_gethostname = Some ''host'', pe_boot = ''boot'', pe_alive = (\<lambda>pid. pid \<noteq> 7)\<rparr>"

definition demo_io :: io_env where
  "demo_io = \<lparr>can_write = (\<lambda>_. True), can_unlink = (\<lambda>_. True)\<rparr>"

definition demo_conv :: json_conv where
  "demo_conv = \<lparr>jc_repr = (\<lambda>_. []), jc_parse_float = (\<lambda>_. None)\<rparr>"

definition demo_catchup :: job_store where
  "demo_catchup = snd (zadd_ingest demo_cfg ''/raw/c'' (of_int 1000000739000005) None False (js_empty ''/d''))"

definition demo_dup :: job_store where
  "demo_dup = (case enqueue_list demo_cfg ''append'' ''t1'' False demo_claimed of
     Inr (n, s) \<Rightarrow> snd (ack ''append'' ''t1'' demo_token s) | Inl e \<Rightarrow> js_empty ''/d'')"

lemma demo_admit:
  "zadd_ingest demo_cfg ''/raw/a'' (of_int 7) (Some ''10|20'') False (js_empty ''/d'') = (1, demo_one)"
  "zadd_ingest demo_cfg ''/raw/b'' (of_int 5) None False demo_one = (1, demo_queue)"
  "zadd_ingest demo_cfg ''/raw/c'' (of_int 1000000739000005) None False (js_empty ''/d'') = (1, demo_catchup)"
  unfolding demo_queue_def demo_catchup_def by (rule prod_eqI; simp add: demo_one_def; code_simp)+

lemma demo_reachable: "reachable demo_cfg demo_one" "reachable demo_cfg demo_queue" "reachable demo_cfg demo_catchup"
proof -
  show "reachable demo_cfg demo_catchup"
    by (rule reachable_step [OF reachable_empty job_step.zadd_new [OF demo_admit(3)]])
  show 1: "reachable demo_cfg demo_one"
    by (rule reachable_step [OF reachable_empty job_step.zadd_new [OF demo_admit(1)]])
  show "reachable demo_cfg demo_queue"
    by (rule reachable_step [OF 1 job_step.zadd_new [OF demo_admit(2)]])
qed

lemma demo_append_eq: "enqueue_list demo_cfg ''append'' ''t1'' True (js_empty ''/d'') = Inr (1, demo_append)"
  by (simp add: demo_append_def enqueue_list_def JOB_KINDS_LIST_def kind_name_defs js_empty_def has_capacity_def
      queue_capacity_limit_def QUEUE_MAX_MEMBERS_FLOOR_def list_push_def shadow_sync_payload_def)

lemma demo_claimed_eq:
  "\<exists>j. claim_list demo_cfg 100 ''append'' demo_token (Some 60) demo_append = Inr (j, demo_claimed)"
  by (simp add: demo_claimed_def claim_list_def JOB_KINDS_LIST_def kind_name_defs demo_token_def split: prod.split)

lemma demo_claimed_reachable: "reachable demo_cfg demo_append" "reachable demo_cfg demo_claimed"
proof -
  have "enqueue_list demo_cfg ''append'' ''t1'' True (js_empty ''/d'') = Inr (Suc 0, demo_append)"
    using demo_append_eq by simp
  then show 1: "reachable demo_cfg demo_append"
    by (rule reachable_step [OF reachable_empty job_step.enqueue_new])
  from demo_claimed_eq obtain j where
    "claim_list demo_cfg 100 ''append'' demo_token (Some 60) demo_append = Inr (j, demo_claimed)" ..
  then show "reachable demo_cfg demo_claimed" by (rule reachable_step [OF 1 job_step.claim_list])
qed

section \<open>Claims\<close>

text \<open>C13: in every reachable state, \<open>claim_ingest\<close> on a band returns (the loop over the lazy heap ends)
  and claims exactly the \<open>max_n\<close> queued jobs of the band that are least by score and name, in that
  order, each with its score and payload fields; on the board these jobs move from the queue to
  the in-flight table under the caller's token and deadline, and nothing else changes.\<close>

theorem claim_ingest_takes_least:
  assumes "reachable cfg s" "band \<in> {''hot'', ''catchup''}" "ow \<noteq> []" "1 \<le> m"
  shows "\<exists>t. claim_ingest cfg now band ow ttl m s =
      Some (Inr (map (board_claim ow (now + of_int (claim_ttl cfg ttl)) (board s))
        (take (nat m) (ranked band (jb_ingest (board s)))), t)) \<and>
    board t = fold (board_take ow (now + of_int (claim_ttl cfg ttl)))
      (take (nat m) (ranked band (jb_ingest (board s)))) (board s)"
  using claim_ingest_spec [OF reachable_inv [OF assms(1)] assms(2-4), where cfg = cfg and ttl = ttl and now = now]
  by auto

theorem claim_ingest_takes_least_witness:
  "\<exists>t. claim_ingest demo_cfg 0 ''hot'' demo_token None 1 demo_queue =
      Some (Inr (map (board_claim demo_token (0 + of_int (claim_ttl demo_cfg None)) (board demo_queue))
        (take (nat 1) (ranked ''hot'' (jb_ingest (board demo_queue)))), t)) \<and>
    board t = fold (board_take demo_token (0 + of_int (claim_ttl demo_cfg None)))
      (take (nat 1) (ranked ''hot'' (jb_ingest (board demo_queue)))) (board demo_queue)"
  by (rule claim_ingest_takes_least [OF demo_reachable(2)]) (simp_all add: demo_token_def)

text \<open>in every reachable state, \<open>claim_list\<close> takes the oldest queued identity of its kind: the
  head of the deque goes in flight under the caller's token, the rest keeps its order, and an empty
  queue gives \<open>None\<close>.\<close>

theorem claim_list_fifo:
  assumes "reachable cfg s" "k \<in> set JOB_KINDS_LIST" "ow \<noteq> []"
  shows "\<exists>t. claim_list cfg now k ow ttl s =
      Inr (case js_lists s k of [] \<Rightarrow> None
           | i # _ \<Rightarrow> Some (list_claim k ow (now + of_int (claim_ttl cfg ttl)) i), t) \<and>
    board t = (case js_lists s k of [] \<Rightarrow> board s
      | i # _ \<Rightarrow> board_pull k ow (now + of_int (claim_ttl cfg ttl)) i (board s))"
  using claim_list_spec [OF reachable_inv(1) [OF assms(1)] assms(2,3)] .

theorem claim_list_fifo_witness:
  "\<exists>t. claim_list demo_cfg 0 ''append'' demo_token None demo_append =
      Inr (case js_lists demo_append ''append'' of [] \<Rightarrow> None
           | i # _ \<Rightarrow> Some (list_claim ''append'' demo_token (0 + of_int (claim_ttl demo_cfg None)) i), t) \<and>
    board t = (case js_lists demo_append ''append'' of [] \<Rightarrow> board demo_append
      | i # _ \<Rightarrow> board_pull ''append'' demo_token (0 + of_int (claim_ttl demo_cfg None)) i (board demo_append))"
  by (rule claim_list_fifo [OF demo_claimed_reachable(1)])
    (simp_all add: demo_token_def JOB_KINDS_LIST_def kind_name_defs)

text \<open>C14: only the holder of a claim can end or extend it. \<open>ack\<close>, \<open>requeue\<close> and \<open>renew_job_lease\<close>
  succeed exactly for the non-empty token that holds the claim; then ack releases the claim and
  forgets its payload, requeue puts the job back (an ingest job with the given score, or the
  catchup base), renew moves the deadline; for every other token the board is unchanged.\<close>

theorem owner_operations_refine:
  "fst (ack k i ow s) = owns s k i ow \<and>
   board (snd (ack k i ow s)) =
     (if owns s k i ow then board_forget (k, i) (board_release (k, i) (board s)) else board s) \<and>
   fst (requeue k i ow sc s) = owns s k i ow \<and>
   board (snd (requeue k i ow sc s)) = (if owns s k i ow
     then board_queue (k, i) (case sc of None \<Rightarrow> of_int CATCHUP_SCORE_BASE | Some x \<Rightarrow> x)
       (board_release (k, i) (board s)) else board s) \<and>
   fst (renew_job_lease cfg now k i ow ttl s) = owns s k i ow \<and>
   board (snd (renew_job_lease cfg now k i ow ttl s)) = (if owns s k i ow
     then board_deadline (k, i) (now + of_int (claim_ttl cfg ttl)) (board s) else board s)"
  unfolding owns_def
  by (intro conjI own_ack.success_iff own_ack.refines own_requeue.success_iff own_requeue.refines
      own_renew.success_iff own_renew.refines)

section \<open>Placement and accounting\<close>

text \<open>C2: in every reachable state a job is in one place only: what is queued is not in flight, no
  list holds an identity twice, the dedupe sets are the members of the lists, and the lease table
  names exactly the owner that the in-flight table names.\<close>

theorem placement_exclusive:
  assumes "reachable cfg s"
  shows "\<not> (identity_is_queued k i s \<and> inflight_contains k i s) \<and> distinct (js_lists s k) \<and>
    js_pending s k = set (js_lists s k) \<and>
    lease_token k i s = map_option (\<lambda>(d, ow, sc). ow) (read_inflight_entry k i s)"
proof -
  have inv: "js_inv s" by (rule reachable_inv [OF assms])
  have "\<not> identity_is_queued k i s" if "inflight_contains k i s"
    using that inflight_facts(5) [OF inv] key_map_of unfolding inflight_contains_def by metis
  moreover have "(\<lambda>(d :: rat, ow :: string, sc :: rat option). ow) = fst \<circ> snd" by auto
  ultimately show ?thesis
    using js_invD(2) [OF inv] by (auto simp: claims_ok_def lease_token_def read_inflight_entry_def)
qed

theorem placement_exclusive_witness:
  "\<not> (identity_is_queued ''append'' ''t1'' demo_claimed \<and> inflight_contains ''append'' ''t1'' demo_claimed) \<and>
    distinct (js_lists demo_claimed ''append'') \<and>
    js_pending demo_claimed ''append'' = set (js_lists demo_claimed ''append'') \<and>
    lease_token ''append'' ''t1'' demo_claimed =
      map_option (\<lambda>(d, ow, sc). ow) (read_inflight_entry ''append'' ''t1'' demo_claimed)"
  by (rule placement_exclusive [OF demo_claimed_reachable(2)])

text \<open>C1: no job is lost or duplicated. Over any sequence of operations from an empty store, in any
  order, each job key has been admitted as often as it was finished (acked) or evicted, plus one
  if it is still queued or in flight; claims, requeues, reaping, stealing, reconciling, reordering,
  renewals and snapshots neither add nor remove jobs.\<close>

theorem jobs_conserved:
  assumes "job_run cfg es (js_empty dir) t"
  shows "admits k es = removals k es + (if k \<in> board_jobs (board t) then 1 else 0)"
proof -
  have "board_jobs (board (js_empty dir)) = {}"
    by (simp add: board_jobs_def queued_on_def board_def js_empty_def)
  with job_run_count [OF assms job_inv_empty] show ?thesis by blast
qed

theorem jobs_conserved_witness:
  "admits (''ingest'', ''/raw/b'') [Admit (''ingest'', ''/raw/a''), Admit (''ingest'', ''/raw/b'')] =
    removals (''ingest'', ''/raw/b'') [Admit (''ingest'', ''/raw/a''), Admit (''ingest'', ''/raw/b'')] +
    (if (''ingest'', ''/raw/b'') \<in> board_jobs (board demo_queue) then 1 else 0)"
proof -
  have "job_step demo_cfg (Admit (''ingest'', ''/raw/a'')) (js_empty ''/d'') demo_one"
    "job_step demo_cfg (Admit (''ingest'', ''/raw/b'')) demo_one demo_queue"
    using job_step.zadd_new [OF demo_admit(1)] job_step.zadd_new [OF demo_admit(2)]
    by (simp_all add: kind_name_defs)
  then have "job_run demo_cfg (([] @ [Admit (''ingest'', ''/raw/a'')]) @ [Admit (''ingest'', ''/raw/b'')])
      (js_empty ''/d'') demo_queue"
    by (meson run_start run_step)
  from jobs_conserved [OF this, of "(''ingest'', ''/raw/b'')"] show ?thesis by simp
qed

text \<open>in every reachable state the O(1) band counters are exact: the census reports the number of
  queued hot jobs, of queued catchup jobs and of all queued ingest jobs, and the first two add up
  to the third.\<close>

theorem census_exact:
  assumes "reachable cfg s"
  shows "ingest_queue_census s =
      (length (filter (\<lambda>(i, sc). decode_ingest_band sc = ''hot'') (js_ingest s)),
       length (filter (\<lambda>(i, sc). decode_ingest_band sc = ''catchup'') (js_ingest s)),
       length (js_ingest s)) \<and>
    fst (ingest_queue_census s) + fst (snd (ingest_queue_census s)) = snd (snd (ingest_queue_census s))"
proof -
  have q: "queue_inv s" using js_invD(1) [OF reachable_inv(1) [OF assms]] .
  have "js_hot_n s + js_catchup_n s = length (js_ingest s)"
    using q sum_length_filter_compl [of "\<lambda>p. snd p < of_int CATCHUP_SCORE_BASE" "js_ingest s"]
    by (simp add: queue_ok_def)
  then show ?thesis
    using q by (simp add: ingest_queue_census_def ingest_count_in_score_range_def ingest_score_range_def
        queued_count_def queue_ok_def split_def not_less)
qed

theorem census_exact_witness:
  "ingest_queue_census demo_queue =
      (length (filter (\<lambda>(i, sc). decode_ingest_band sc = ''hot'') (js_ingest demo_queue)),
       length (filter (\<lambda>(i, sc). decode_ingest_band sc = ''catchup'') (js_ingest demo_queue)),
       length (js_ingest demo_queue)) \<and>
    fst (ingest_queue_census demo_queue) + fst (snd (ingest_queue_census demo_queue)) =
      snd (snd (ingest_queue_census demo_queue))"
  by (rule census_exact [OF demo_reachable(2)])

section \<open>Admission, eviction and recovery\<close>

text \<open>\<open>zadd_ingest\<close> on every branch. A job in flight is refused; a new catchup job is refused at
  the discover cap unless \<open>over_cap\<close>; everything else is queued with the new score (a queued job
  is re-scored) and a non-empty fingerprint is stored. The result is 1 exactly for a job that was
  not queued before and was not refused.\<close>

theorem zadd_ingest_admission:
  "fst (zadd_ingest cfg i sc fp over s) =
     (if ingest_refused cfg i sc over s then 0 else if jb_ingest (board s) i = None then 1 else 0) \<and>
   board (snd (zadd_ingest cfg i sc fp over s)) =
     (if ingest_refused cfg i sc over s then board s
      else board_fingerprint i fp (board_queue (JOB_KIND_INGEST, i) sc (board s)))"
  using zadd_spec(1) [of cfg i sc fp over s] by (intro conjI zadd_spec(2)) (simp split: if_splits)

text \<open>in every reachable state, \<open>enqueue_list\<close> with \<open>dedupe\<close> skips an identity that is queued or
  in flight and a full queue, and otherwise appends it and returns the new depth.\<close>

theorem enqueue_dedupe:
  assumes "reachable cfg s" "k \<in> set JOB_KINDS_LIST"
  shows "\<exists>n t. enqueue_list cfg k i True s = Inr (n, t) \<and>
    (if queued_on (board s) (k, i) \<or> jb_inflight (board s) (k, i) \<noteq> None \<or>
        queue_capacity_limit cfg \<le> int (length (js_lists s k))
     then n = 0 \<and> t = s
     else n = Suc (length (js_lists s k)) \<and> board t = board_queue (k, i) 0 (board s))"
  by (rule enqueue_spec [OF reachable_inv(1) [OF assms(1)] assms(2)])

theorem enqueue_dedupe_witness:
  "\<exists>n t. enqueue_list demo_cfg ''append'' ''t2'' True demo_claimed = Inr (n, t) \<and>
    (if queued_on (board demo_claimed) (''append'', ''t2'') \<or> jb_inflight (board demo_claimed) (''append'', ''t2'') \<noteq> None \<or>
        queue_capacity_limit demo_cfg \<le> int (length (js_lists demo_claimed ''append''))
     then n = 0 \<and> t = demo_claimed
     else n = Suc (length (js_lists demo_claimed ''append'')) \<and>
       board t = board_queue (''append'', ''t2'') 0 (board demo_claimed))"
  by (rule enqueue_dedupe [OF demo_claimed_reachable(2)]) (simp add: JOB_KINDS_LIST_def kind_name_defs)

text \<open>in every reachable state, \<open>evict_youngest_catchup_ingest\<close> removes the queued catchup job with
  the greatest score, and only if its day is younger than the given one; it never touches hot or
  in-flight work; when it removes nothing the board is unchanged and the youngest queued day is not
  younger than the given one.\<close>

theorem evict_removes_youngest:
  assumes "reachable cfg s" "evict_youngest_catchup_ingest day s = (r, t)"
  shows "case r of
      None \<Rightarrow> board t = board s \<and> (\<forall>i sc dd. youngest (jb_ingest (board s)) i sc \<longrightarrow>
        decode_catchup_calendar_day sc = Some dd \<longrightarrow> dd \<le> day)
    | Some i \<Rightarrow> board t = board_evict i (board s) \<and> (\<exists>sc dd. youngest (jb_ingest (board s)) i sc \<and>
        decode_catchup_calendar_day sc = Some dd \<and> day < dd)"
proof -
  have "evict_post day s (r, t)"
    using evict_loop_spec [where s = s and h = "js_heap_catchup_max s" and day = day] assms(2)
      reachable_inv(1) [OF assms(1)] by (simp add: evict_youngest_catchup_ingest_def)
  then show ?thesis by (cases r) (simp_all add: evict_post_def)
qed

theorem evict_removes_youngest_witness:
  "case fst (evict_youngest_catchup_ingest 5 demo_queue) of
      None \<Rightarrow> board (snd (evict_youngest_catchup_ingest 5 demo_queue)) = board demo_queue \<and>
        (\<forall>i sc dd. youngest (jb_ingest (board demo_queue)) i sc \<longrightarrow>
          decode_catchup_calendar_day sc = Some dd \<longrightarrow> dd \<le> 5)
    | Some i \<Rightarrow> board (snd (evict_youngest_catchup_ingest 5 demo_queue)) = board_evict i (board demo_queue) \<and>
        (\<exists>sc dd. youngest (jb_ingest (board demo_queue)) i sc \<and> decode_catchup_calendar_day sc = Some dd \<and> 5 < dd)"
  by (rule evict_removes_youngest [OF demo_reachable(2)]) simp

text \<open>\<open>reap_expired_inflight\<close> returns exactly the first \<open>limit\<close> claims (at least one) whose
  deadline passed by the grace time, in table order; each goes back to its queue, an ingest job
  with its score deferred inside its day; claims that did not expire stay.\<close>

theorem reap_exact:
  "fst (reap_expired_inflight now k m s) = map fst (take (nat (max 1 m)) (expired now (js_inflight s k))) \<and>
   board (snd (reap_expired_inflight now k m s)) =
     fold (board_reap k) (take (nat (max 1 m)) (expired now (js_inflight s k))) (board s)"
  by (intro conjI reap_spec)

text \<open>in every reachable state, \<open>steal_dead_owner_leases\<close> returns exactly the claims whose owner
  token names this host and boot and a dead PID, and reports their number; every other claim is
  untouched.\<close>

theorem steal_exact:
  assumes "reachable cfg s"
  shows "fst (steal_dead_owner_leases env h b s) = length (dead_leases env h b (js_leases s)) \<and>
    board (snd (steal_dead_owner_leases env h b s)) =
      fold board_steal (dead_leases env h b (js_leases s)) (board s)"
  using steal_spec [OF reachable_inv(1) [OF assms]] by simp

theorem steal_exact_witness:
  "fst (steal_dead_owner_leases demo_env None None demo_claimed) =
      length (dead_leases demo_env None None (js_leases demo_claimed)) \<and>
    board (snd (steal_dead_owner_leases demo_env None None demo_claimed)) =
      fold board_steal (dead_leases demo_env None None (js_leases demo_claimed)) (board demo_claimed)"
  by (rule steal_exact [OF demo_claimed_reachable(2)])

text \<open>C15: restart. In every reachable state of a store with an archive directory, when the sidecar can
  be written, the snapshot is written, and a new store that loads it has the same queued ingest
  jobs with the same scores, the same lists in the same order, no job in flight, and the payload
  fields (fingerprint, attempt, emit) of exactly the queued jobs; the invariant holds again.\<close>

theorem restart_restores_queues:
  assumes "reachable cfg s" "js_archive_dir s \<noteq> []" "can_write io (snapshot_path (js_archive_dir s))"
  shows "\<exists>fs' t. snd (persist_write io s fs) = Inr fs' \<and> new_store cv now fs' (js_archive_dir s) = Inr t \<and>
    js_inv t \<and> map_of (js_ingest t) = map_of (js_ingest s) \<and> js_lists t = js_lists s \<and>
    (\<forall>k. js_inflight t k = []) \<and>
    (\<forall>k i n. payload_text k i n t = (if queued_on (board s) (k, i) then payload_text k i n s else []))"
  by (rule restart_spec [OF reachable_inv(1) [OF assms(1)] assms(2,3)])

theorem restart_restores_queues_witness:
  "\<exists>fs' t. snd (persist_write demo_io demo_queue (\<lambda>_. None)) = Inr fs' \<and>
    new_store demo_conv 0 fs' (js_archive_dir demo_queue) = Inr t \<and>
    js_inv t \<and> map_of (js_ingest t) = map_of (js_ingest demo_queue) \<and> js_lists t = js_lists demo_queue \<and>
    (\<forall>k. js_inflight t k = []) \<and>
    (\<forall>k i n. payload_text k i n t = (if queued_on (board demo_queue) (k, i) then payload_text k i n demo_queue else []))"
  by (rule restart_restores_queues [OF demo_reachable(2)])
    (simp_all add: demo_io_def demo_queue_def demo_one_def zadd_ingest_def Let_def ingest_set_eq set_state_def
      js_empty_def shadow_sync_eq payload_set_def mark_dirty_def)

text \<open>the attempt counter of a job. A bump on a readable counter returns the next number and a
  later read gives it back; it survives a claim and a requeue of the job, so the retry limit counts
  over requeues.\<close>

theorem attempt_counter:
  assumes "payload_text k i ''attempt'' s = show_int a \<or> (payload_text k i ''attempt'' s = [] \<and> a = 0)"
  shows "\<exists>t. bump_job_attempt k i s = Inr (a + 1, t) \<and> read_job_attempt k i t = a + 1 \<and>
    read_job_attempt k i (snd (requeue k i ow sc t)) = a + 1"
proof -
  have ne: "show_int b \<noteq> []" for b by (simp add: show_int_def)
  let ?t = "sync_if_queued k i (payload_set k i ''attempt'' (show_int (a + 1)) s)"
  have pay: "payload_text k' i' n t = board_field (board t) (k', i') n" for k' i' n t
    by (simp add: payload_text_def board_field_def board_def)
  have b: "bump_job_attempt k i s = Inr (a + 1, ?t)"
    using assms ne not_sym [OF ne] by (auto simp: bump_job_attempt_def Let_def)
  have r: "read_job_attempt k i u = a + 1" if "board_field (board u) (k, i) ''attempt'' = show_int (a + 1)" for u
    using that ne by (simp add: read_job_attempt_def pay)
  have w: "board_field (board ?t) (k, i) ''attempt'' = show_int (a + 1)"
    by (simp add: board_sync_if_queued board_field_def board_write_def AList.update_conv')
  moreover have "board_field (board (snd (requeue k i ow sc ?t))) (k, i) ''attempt'' =
      board_field (board ?t) (k, i) ''attempt''"
    by (simp add: own_requeue.refines board_field_def board_queue_def board_release_def)
  ultimately show ?thesis using b r by auto
qed

theorem attempt_counter_witness:
  "\<exists>t. bump_job_attempt ''append'' ''t1'' demo_claimed = Inr (0 + 1, t) \<and>
    read_job_attempt ''append'' ''t1'' t = 0 + 1 \<and>
    read_job_attempt ''append'' ''t1'' (snd (requeue ''append'' ''t1'' demo_token None t)) = 0 + 1"
  by (rule attempt_counter) code_simp

section \<open>Where the code falls short\<close>

lemma queue_ok_max_rearm:
  assumes "queue_ok g hh hc hm a b" "map_of g i = Some sc"
  shows "queue_ok g hh hc (pushed_max i sc g hm) a b"
proof -
  have "\<forall>(j, q) \<in> set g. if q < of_int CATCHUP_SCORE_BASE then (q, j) \<in> set hh
      else (q, j) \<in> set hc \<and> (- q, j) \<in> set (pushed_max i sc g hm)"
    using assms(1) in_pushed_max [of _ _ g hm i sc] by (fastforce simp: queue_ok_def)
  with assms(1) sorted_pushed(3) show ?thesis unfolding queue_ok_def by blast
qed

text \<open>
  A band name that the score range accepts after stripping and lower-casing, but that is not
  literally \<open>hot\<close>, is served from the catchup heap with the hot range: a queued catchup job is
  popped and pushed back for ever.
\<close>

definition stuck :: "job_store \<Rightarrow> bool" where
  "stuck s \<longleftrightarrow> js_inv s \<and> (\<exists>i sc. map_of (js_ingest s) i = Some sc \<and> of_int CATCHUP_SCORE_BASE \<le> sc)"

lemma stuck_push_back:
  assumes "stuck s" "js_heap_catchup s = (sc, i) # h" "map_of (js_ingest s) i = Some sc"
  shows "stuck (ingest_heap_push i sc (s\<lparr>js_heap_catchup := h\<rparr>))"
proof -
  have inv: "js_inv s" using assms(1) by (simp add: stuck_def)
  note q = js_invD(1) [OF inv]
  have hc: "sorted ((sc, i) # h)" "of_int CATCHUP_SCORE_BASE \<le> sc"
    using q unfolding queue_ok_def assms(2) by auto
  then have "heappush (sc, i) h = (sc, i) # h"
    unfolding heappush_def by (cases h) auto
  then have "js_inv (ingest_heap_push i sc (s\<lparr>js_heap_catchup := h\<rparr>))"
    using queue_ok_max_rearm [OF q assms(3)] inv hc(2)
    by (simp add: js_inv_def shadow_inv_def ingest_heap_push_eq pushed_hot_def pushed_catchup_def assms(2))
  moreover have "js_ingest (ingest_heap_push i sc (s\<lparr>js_heap_catchup := h\<rparr>)) = js_ingest s"
    by (simp add: ingest_heap_push_eq)
  ultimately show ?thesis using assms(1) unfolding stuck_def by metis
qed

definition out_of_reach :: "string \<Rightarrow> bound \<Rightarrow> nat \<Rightarrow> claimed_job list \<Rightarrow> job_store \<Rightarrow> bool" where
  "out_of_reach band hi want claimed s \<longleftrightarrow> band \<noteq> ''hot'' \<and> hi = Fin (of_int CATCHUP_SCORE_BASE - 1) \<and>
     claimed = [] \<and> 0 < want \<and> stuck s"

lemma loop_hangs:
  assumes "claim_ingest_loop band lo hi ow d want claimed s = Some y"
  shows "\<not> out_of_reach band hi want claimed s"
proof (rule claim_ingest_loop.raw_induct [OF _ assms, where P = "\<lambda>band lo hi ow d want claimed s y. \<not> out_of_reach band hi want claimed s"])
  fix loop band lo hi ow d want claimed s y
  assume hyp: "\<And>band lo hi ow d want claimed s y. loop band lo hi ow d want claimed s = Some y \<Longrightarrow>
      \<not> out_of_reach band hi want claimed s"
    and step: "(if length claimed < want then
        (case ingest_heap_for_band band s of
           [] \<Rightarrow> Some (claimed, s)
         | (snap_score, ident) # h \<Rightarrow>
             (let s0 = set_heap_for_band band h s in
              if ident \<in> dict_keys (js_inflight s0 JOB_KIND_INGEST)
              then loop band lo hi ow d want claimed s0
              else (case map_of (js_ingest s0) ident of
                  None \<Rightarrow> loop band lo hi ow d want claimed s0
                | Some live \<Rightarrow>
                    if live \<noteq> snap_score
                    then loop band lo hi ow d want claimed (ingest_heap_push ident live s0)
                    else if \<not> (bound_le lo live \<and> le_bound live hi)
                    then loop band lo hi ow d want claimed (ingest_heap_push ident live s0)
                    else loop band lo hi ow d want
                           (claimed @ [fst (claim_one ident ow d live s0)])
                           (snd (claim_one ident ow d live s0)))))
      else Some (claimed, s)) = Some y"
  show "\<not> out_of_reach band hi want claimed s"
  proof
    assume "out_of_reach band hi want claimed s"
    then have b: "band \<noteq> ''hot''" and hi: "hi = Fin (of_int CATCHUP_SCORE_BASE - 1)" and c: "claimed = []"
      and w: "0 < want" and st: "stuck s"
      by (simp_all add: out_of_reach_def)
    then have inv: "js_inv s" by (simp add: stuck_def)
    obtain j q where j: "map_of (js_ingest s) j = Some q" "of_int CATCHUP_SCORE_BASE \<le> q"
      using st by (auto simp: stuck_def)
    have "(q, j) \<in> set (js_heap_catchup s)"
      using band_heap_iff(1) [OF inv, of "''catchup''" j q] j by (simp add: ingest_heap_for_band_def in_band_def)
    then obtain sc i h where heap: "js_heap_catchup s = (sc, i) # h" by (cases "js_heap_catchup s") auto
    have IH: "loop band lo hi ow d want [] t = Some y \<Longrightarrow> \<not> stuck t" for t
      using hyp [of band lo hi ow d want "[]" t y] b hi w by (simp add: out_of_reach_def)
    note round = step [unfolded c ingest_heap_for_band_def set_heap_for_band_def Let_def]
    show False
    proof (cases "map_of (js_ingest s) i")
      case None
      have "js_inv (s\<lparr>js_heap_catchup := h\<rparr>)"
        using queue_ok_stale(2) [OF js_invD(1) [OF inv] heap] None inv by (simp add: js_inv_def shadow_inv_def)
      then have "stuck (s\<lparr>js_heap_catchup := h\<rparr>)" using j unfolding stuck_def by auto
      with IH None round b w heap show ?thesis by (simp split: if_splits)
    next
      case (Some live)
      have free: "i \<notin> dict_keys (js_inflight s JOB_KIND_INGEST)" by (rule queued_not_inflight [OF inv Some])
      show ?thesis
      proof (cases "live = sc")
        case True
        have "of_int CATCHUP_SCORE_BASE \<le> sc"
          using js_invD(1) [OF inv] heap by (auto simp: queue_ok_def)
        then have "\<not> le_bound live hi" using True hi by simp
        then show ?thesis
          using IH round b w heap free Some True stuck_push_back [OF st heap] by simp
      next
        case False
        have "js_inv (s\<lparr>js_heap_catchup := h\<rparr>)"
          using queue_ok_stale(2) [OF js_invD(1) [OF inv] heap] Some False inv by (simp add: js_inv_def shadow_inv_def)
        then have "js_inv (ingest_heap_push i live (s\<lparr>js_heap_catchup := h\<rparr>))"
          using js_inv_rearm Some by simp
        then have "stuck (ingest_heap_push i live (s\<lparr>js_heap_catchup := h\<rparr>))"
          using j by (auto simp: stuck_def ingest_heap_push_eq)
        then show ?thesis using IH round b w heap free Some False by simp
      qed
    qed
  qed
qed

text \<open>the score range of a band is looked up after stripping and lower-casing the name, but the heap
  is chosen by the literal name: \<open>claim_ingest\<close> with a name such as \<open>HOT\<close> never returns in any
  reachable state that has a queued catchup job, and keeps the store's lock for ever.\<close>

theorem claim_ingest_band_name_hangs:
  assumes "reachable cfg s" "band \<noteq> ''hot''" "band_text band = ''hot''" "ow \<noteq> []" "1 \<le> m"
    "map_of (js_ingest s) i = Some sc" "decode_ingest_band sc = ''catchup''"
  shows "claim_ingest cfg now band ow ttl m s = None"
proof -
  have "stuck s" using reachable_inv(1) [OF assms(1)] assms(6,7) unfolding stuck_def by auto
  then have "out_of_reach band (Fin (of_int CATCHUP_SCORE_BASE - 1)) (nat m) [] s"
    using assms(2,5) by (simp add: out_of_reach_def)
  then have "claim_ingest_loop band NegInf (Fin (of_int CATCHUP_SCORE_BASE - 1)) ow
      (now + of_int (claim_ttl cfg ttl)) (nat m) [] s = None"
    using loop_hangs by (metis option.exhaust)
  with assms(3-5) show ?thesis by (simp add: claim_ingest_def ingest_score_range_def)
qed

theorem claim_ingest_band_name_hangs_witness:
  "claim_ingest demo_cfg 0 ''HOT'' demo_token None 1 demo_catchup = None"
  by (rule claim_ingest_band_name_hangs [OF demo_reachable(3), where i = "''/raw/c''" and sc = "of_int 1000000739000005"])
    (code_simp+)

text \<open>a claim taken back from a dead owner loses its score: \<open>steal_job_lease_if_owner_dead\<close> requeues
  the job at the catchup base whatever its score was, so a hot job falls into the catchup band with
  no calendar day, although the in-flight entry still holds the score.\<close>

theorem steal_drops_score:
  assumes "reachable cfg s" "read_inflight_entry JOB_KIND_INGEST i s = Some (d, ow, Some sc)"
    "owner_is_dead env h b ow"
  shows "fst (steal_job_lease_if_owner_dead env JOB_KIND_INGEST i h b s) \<and>
    ingest_score i (snd (steal_job_lease_if_owner_dead env JOB_KIND_INGEST i h b s)) = Some (of_int CATCHUP_SCORE_BASE) \<and>
    decode_ingest_band (of_int CATCHUP_SCORE_BASE) = ''catchup'' \<and>
    decode_catchup_calendar_day (of_int CATCHUP_SCORE_BASE) = None"
proof -
  have inv: "js_inv s" by (rule reachable_inv [OF assms(1)])
  have e: "map_of (js_inflight s JOB_KIND_INGEST) i = Some (d, ow, Some sc)"
    using assms(2) by (simp add: read_inflight_entry_def)
  have ow: "ow \<noteq> []" using assms(3) owner_is_dead_Nil by metis
  have own: "board_owner (board s) (JOB_KIND_INGEST, i) = Some ow" by (simp add: board_owner_def e)
  have "map_of (js_leases s) (JOB_KIND_INGEST, i) = Some ow"
    using js_invD(2) [OF inv] e by (simp add: claims_ok_def)
  then have st: "steal_job_lease_if_owner_dead env JOB_KIND_INGEST i h b s = requeue JOB_KIND_INGEST i ow None s"
    using ow assms(3) by (simp add: steal_one_eq [OF inv])
  have "jb_ingest (board (snd (requeue JOB_KIND_INGEST i ow None s))) i = Some (of_int CATCHUP_SCORE_BASE)"
    using ow own by (simp only: own_requeue.refines) (simp add: board_queue_def)
  moreover have "fst (requeue JOB_KIND_INGEST i ow None s)"
    using ow own by (simp add: own_requeue.success_iff)
  ultimately show ?thesis
    unfolding st by (simp add: ingest_score_def decode_catchup_calendar_day_def date_fromordinal_def date_ok_def)
qed

lemma demo_one_claimed:
  "\<exists>s. reachable demo_cfg s \<and> read_inflight_entry JOB_KIND_INGEST ''/raw/a'' s = Some (60, demo_token, Some 7)"
proof -
  have g: "js_ingest demo_one = [(''/raw/a'', 7)]"
    by (simp add: demo_one_def zadd_ingest_def Let_def ingest_set_eq set_state_def js_empty_def shadow_sync_eq
        payload_set_def mark_dirty_def has_capacity_def CATCHUP_SCORE_BASE_def)
  have "{(sc, i). map_of [(''/raw/a'', 7)] i = Some sc \<and> in_band ''hot'' sc} = {(7 :: rat, ''/raw/a'')}"
    by (auto simp: in_band_def CATCHUP_SCORE_BASE_def split: if_splits)
  then have rank: "ranked ''hot'' (map_of (js_ingest demo_one)) = [(7, ''/raw/a'')]"
    unfolding ranked_def g by simp
  have d: "(0 :: rat) + of_int (claim_ttl demo_cfg (Some 60)) = 60" by (simp add: claim_ttl_def)
  obtain t where t: "claim_ingest demo_cfg 0 ''hot'' demo_token (Some 60) 1 demo_one =
        Some (Inr (map (board_claim demo_token 60 (board demo_one)) [(7, ''/raw/a'')], t))"
      "board t = fold (board_take demo_token 60) [(7, ''/raw/a'')] (board demo_one)"
    using claim_ingest_spec [OF reachable_inv [OF demo_reachable(1)], where band = "''hot''" and ow = demo_token
        and m = 1 and now = 0 and cfg = demo_cfg and ttl = "Some 60"]
    unfolding rank d by (auto simp: demo_token_def)
  have "reachable demo_cfg t" by (rule reachable_step [OF demo_reachable(1) job_step.claim_hot [OF t(1)]])
  moreover have "jb_inflight (board t) (JOB_KIND_INGEST, ''/raw/a'') = Some (60, demo_token, Some 7)"
    unfolding t(2) by (simp add: board_take_def)
  ultimately show ?thesis by (auto simp: read_inflight_entry_def)
qed

theorem steal_drops_score_witness:
  "\<exists>s. read_inflight_entry JOB_KIND_INGEST ''/raw/a'' s = Some (60, demo_token, Some 7) \<and>
    fst (steal_job_lease_if_owner_dead demo_env JOB_KIND_INGEST ''/raw/a'' None None s) \<and>
    ingest_score ''/raw/a'' (snd (steal_job_lease_if_owner_dead demo_env JOB_KIND_INGEST ''/raw/a'' None None s)) =
      Some (of_int CATCHUP_SCORE_BASE)"
proof -
  from demo_one_claimed obtain s where s: "reachable demo_cfg s"
    "read_inflight_entry JOB_KIND_INGEST ''/raw/a'' s = Some (60, demo_token, Some 7)" by blast
  have "owner_is_dead demo_env None None demo_token" by code_simp
  from steal_drops_score [OF s this] s(2) show ?thesis by blast
qed

text \<open>\<open>ack\<close> clears the dedupe mark of an identity that was queued again without \<open>dedupe\<close> while it
  was in flight, although that copy is still in the list: the next \<open>enqueue_list\<close> with \<open>dedupe\<close> adds
  a second copy.\<close>

theorem ack_clears_dedupe_of_queued:
  "js_lists demo_dup ''append'' = [''t1''] \<and>
   (case enqueue_list demo_cfg ''append'' ''t1'' True demo_dup of
      Inr (n, t) \<Rightarrow> n = 2 \<and> js_lists t ''append'' = [''t1'', ''t1''] | Inl e \<Rightarrow> False)"
  by code_simp

end
