(* ===== verification/Calendar.thy ===== *)
theory Calendar
  imports Py_Prelude
begin

text \<open>
  Calendar days as Python's \<open>datetime.date\<close> gives them: a day is its proleptic Gregorian ordinal
  (\<open>Py_Prelude\<close>), built from year, month and day, taken apart again, printed by \<open>isoformat\<close> and read by
  \<open>fromisoformat\<close> and by \<open>strptime(text, "%Y-%m-%d")\<close>. Of \<open>fromisoformat\<close> the extended calendar format is
  modelled; the basic and the week formats, which no file of the program uses, are an argument.
  Then the days of a range (\<open>daterange\<close> of \<open>dbload/lib/date_utils.py\<close>) for \<open>date\<close> bounds.
\<close>

section \<open>Days, months and years\<close>

definition is_leap :: "int \<Rightarrow> bool" where
  "is_leap y \<longleftrightarrow> y mod 4 = 0 \<and> (y mod 100 \<noteq> 0 \<or> y mod 400 = 0)"

definition days_before_year :: "int \<Rightarrow> int" where
  "days_before_year y = (let p = y - 1 in p * 365 + p div 4 - p div 100 + p div 400)"

definition month_lengths :: "int \<Rightarrow> int list" where
  "month_lengths y = [31, if is_leap y then 29 else 28, 31, 30, 31, 30, 31, 31, 30, 31, 30, 31]"

definition days_before_month :: "int \<Rightarrow> int \<Rightarrow> int" where
  "days_before_month y m = sum_list (take (nat (m - 1)) (month_lengths y))"

definition date_new :: "int \<Rightarrow> int \<Rightarrow> int \<Rightarrow> py_error + date" where
  "date_new y m d =
     (if 1 \<le> y \<and> y \<le> 9999 \<and> 1 \<le> m \<and> m \<le> 12 \<and> 1 \<le> d \<and> d \<le> month_lengths y ! nat (m - 1)
      then Inr (days_before_year y + days_before_month y m + d) else Inl ValueError)"

lemma days_before_year_Suc: "days_before_year (y + 1) = days_before_year y + (if is_leap y then 366 else 365)"
proof -
  have step: "y div k = (y - 1) div k + (if y mod k = 0 then 1 else 0)" if "k > 0" for k :: int
  proof -
    have y: "y = k * (y div k) + y mod k" "0 \<le> y mod k" "y mod k < k" using that by simp_all
    show ?thesis
    proof (cases "y mod k = 0")
      case True
      then have "y - 1 = k * (y div k - 1) + (k - 1)" using y(1) by (simp add: algebra_simps)
      from int_div_pos_eq [OF this] that have "(y - 1) div k = y div k - 1" by simp
      with True show ?thesis by simp
    next
      case False
      then have "y - 1 = k * (y div k) + (y mod k - 1)" "0 \<le> y mod k - 1" "y mod k - 1 < k" using y by linarith+
      from int_div_pos_eq [OF this] False show ?thesis by simp
    qed
  qed
  have leap: "y mod 4 = 0" if "y mod 100 = 0"
    using dvd_trans [of 4 100 y] that unfolding dvd_eq_mod_eq_0 by simp
  have leap4: "y mod 100 = 0" if "y mod 400 = 0"
    using dvd_trans [of 100 400 y] that unfolding dvd_eq_mod_eq_0 by simp
  have sum: "A = B + 365 + i - j + k"
    if "A = y * 365 + p - q + r" "B = (y - 1) * 365 + p' - q' + r'" "p = p' + i" "q = q' + j" "r = r' + k"
    for A B p q r p' q' r' i j k :: int using that by simp
  have total: "days_before_year (y + 1) = days_before_year y + 365 + (if y mod 4 = 0 then 1 else 0) -
      (if y mod 100 = 0 then 1 else 0) + (if y mod 400 = 0 then 1 else 0)"
    by (rule sum [OF _ _ step step step]) (simp_all only: days_before_year_def Let_def add_diff_cancel_right' zero_less_numeral)
  have cases: "A = B + (if b4 \<and> (\<not> b100 \<or> b400) then 366 else 365)"
    if "A = B + 365 + (if b4 then 1 else 0) - (if b100 then 1 else 0) + (if b400 then 1 else 0)"
      "b100 \<Longrightarrow> b4" "b400 \<Longrightarrow> b100" for A B :: int and b4 b100 b400
    using that by (cases b4; cases b100; cases b400; simp)
  show ?thesis unfolding is_leap_def by (rule cases [OF total leap leap4])
qed

function year_from :: "int \<Rightarrow> int \<Rightarrow> int" where
  "year_from y n = (if days_before_year (y + 1) < n then year_from (y + 1) n else y)"
  by pat_completeness auto
termination
proof (relation "measure (\<lambda>(y, n). nat (n - days_before_year (y + 1)))")
  show "((y + 1, n), (y, n)) \<in> measure (\<lambda>(y, n). nat (n - days_before_year (y + 1)))"
    if "days_before_year (y + 1) < n" for y n
    using that days_before_year_Suc [of "y + 1"] by (auto split: if_splits)
qed simp

declare year_from.simps [simp del]

fun month_split :: "int list \<Rightarrow> int \<Rightarrow> int \<Rightarrow> int \<times> int" where
  "month_split [] m r = (m, r)"
| "month_split (l # ls) m r = (if r \<le> l then (m, r) else month_split ls (m + 1) (r - l))"

text \<open>Year, month and day of an ordinal; the search for the year starts below it.\<close>

definition date_ymd :: "date \<Rightarrow> int \<times> int \<times> int" where
  "date_ymd n = (let y = year_from ((n - 1) div 366 + 1) n in
     (y, month_split (month_lengths y) 1 (n - days_before_year y)))"

section \<open>Text\<close>

definition pad2 :: "int \<Rightarrow> string" where
  "pad2 n = [digit_char (nat (n div 10 mod 10)), digit_char (nat (n mod 10))]"

definition isoformat :: "date \<Rightarrow> string" where
  "isoformat n = (case date_ymd n of (y, m, d) \<Rightarrow>
     pad2 (y div 100) @ pad2 (y mod 100) @ ''-'' @ pad2 m @ ''-'' @ pad2 d)"

fun read2 :: "string \<Rightarrow> int option" where
  "read2 [a, b] = (case (digit_value a, digit_value b) of
      (Some x, Some y) \<Rightarrow> Some (int (10 * x + y)) | _ \<Rightarrow> None)"
| "read2 _ = None"

text \<open>\<open>YYYY-MM-DD\<close>: the three numbers when the text has that form.\<close>

definition ymd_text :: "string \<Rightarrow> (int \<times> int \<times> int) option" where
  "ymd_text s =
     (if length s = 10 \<and> s ! 4 = CHR ''-'' \<and> s ! 7 = CHR ''-'' then
        (case (read2 (take 2 s), read2 (take 2 (drop 2 s)), read2 (take 2 (drop 5 s)), read2 (drop 8 s)) of
           (Some c, Some y, Some m, Some d) \<Rightarrow> Some (100 * c + y, m, d) | _ \<Rightarrow> None)
      else None)"

definition date_fromisoformat :: "(string \<Rightarrow> py_error + date) \<Rightarrow> string \<Rightarrow> py_error + date" where
  "date_fromisoformat other s =
     (case ymd_text s of Some (y, m, d) \<Rightarrow> date_new y m d | None \<Rightarrow> other s)"

text \<open>
  \<open>strptime(s, "%Y-%m-%d")\<close> of a text of ten characters: its regular expression needs four digits of
  the year and leaves two characters each for month and day; the day may be a space and a digit.
\<close>

definition date_strptime10 :: "string \<Rightarrow> py_error + date" where
  "date_strptime10 s =
     (let t = (if length s = 10 \<and> s ! 8 = CHR '' '' \<and> s ! 9 \<noteq> CHR ''0'' then s[8 := CHR ''0''] else s) in
      case ymd_text t of Some (y, m, d) \<Rightarrow> date_new y m d | None \<Rightarrow> Inl ValueError)"

text \<open>\<open>start_date + timedelta(n)\<close> for every \<open>n\<close> below the number of days.\<close>

definition daterange :: "date \<Rightarrow> date \<Rightarrow> bool \<Rightarrow> date list" where
  "daterange start_date end_date inclusive_end =
     (let days = end_date - start_date + (if inclusive_end then 1 else 0)
      in map (\<lambda>n. start_date + int n) [0..<nat (max 0 days)])"

section \<open>Lemmas\<close>

lemma daterange_upto: "daterange s e incl = [s..(if incl then e else e - 1)]"
proof -
  have "map (\<lambda>n. s + int n) [0..<nat (max 0 (t - s))] = [s..t - 1]" for t
    by (rule nth_equalityI) auto
  from this [of "if incl then e + 1 else e"] show ?thesis by (cases incl) (simp_all add: daterange_def algebra_simps)
qed

lemma year_from_spec:
  assumes "days_before_year y < n"
  shows "days_before_year (year_from y n) < n \<and> n \<le> days_before_year (year_from y n + 1) \<and> y \<le> year_from y n"
  using assms
proof (induction y n rule: year_from.induct)
  case (1 y n)
  then show ?case by (subst (1 2 3) year_from.simps) (auto simp: not_less)
qed

lemma days_before_year_le: "1 \<le> y \<Longrightarrow> days_before_year y \<le> (y - 1) * 366"
proof -
  assume "1 \<le> y"
  then have "(y - 1) div 4 \<le> y - 1" "(y - 1) div 400 \<le> (y - 1) div 100"
    using zdiv_mono2 [of "y - 1" 1 4] zdiv_mono2 [of "y - 1" 100 400] by simp_all
  moreover have "p * 365 + a - b + c \<le> p * 366" if "a \<le> p" "c \<le> b" for p a b c :: int using that by simp
  ultimately show ?thesis unfolding days_before_year_def Let_def by blast
qed

lemma days_before_year_mono: "y \<le> z \<Longrightarrow> days_before_year y \<le> days_before_year z"
proof (induction "nat (z - y)" arbitrary: z)
  case (Suc k)
  then have "days_before_year y \<le> days_before_year (z - 1)" by (intro Suc.hyps) auto
  also have "\<dots> \<le> days_before_year z" using days_before_year_Suc [of "z - 1"] by simp
  finally show ?case .
qed simp

lemma month_split_spec:
  assumes "1 \<le> r" "r \<le> sum_list ls" "\<forall>l \<in> set ls. 0 \<le> l" "month_split ls m r = (m', d)"
  shows "m \<le> m' \<and> m' < m + int (length ls) \<and> 1 \<le> d \<and> d \<le> ls ! nat (m' - m) \<and>
    sum_list (take (nat (m' - m)) ls) + d = r"
  using assms
proof (induction ls arbitrary: m r)
  case (Cons l ls)
  show ?case
  proof (cases "r \<le> l")
    case False
    then have "m + 1 \<le> m' \<and> m' < m + 1 + int (length ls) \<and> 1 \<le> d \<and> d \<le> ls ! nat (m' - (m + 1)) \<and>
        sum_list (take (nat (m' - (m + 1))) ls) + d = r - l"
      using Cons.prems by (intro Cons.IH) auto
    moreover from this have "m + 1 \<le> m'" by blast
    then have "nat (m' - m) = Suc (nat (m' - (m + 1)))" by (simp add: Suc_nat_eq_nat_zadd1)
    ultimately show ?thesis by simp
  qed (use Cons.prems in auto)
qed simp

lemma year_length: "sum_list (month_lengths y) = (if is_leap y then 366 else 365)"
  by (simp add: month_lengths_def)

lemma length_month_lengths: "length (month_lengths y) = 12" "\<forall>l \<in> set (month_lengths y). 0 \<le> l"
  by (simp_all add: month_lengths_def)

text \<open>Taking a day apart and putting it together again.\<close>

lemma date_new_ymd:
  assumes "date_ok n" "date_ymd n = (y, m, d)"
  shows "date_new y m d = Inr n \<and> 1 \<le> y \<and> y \<le> 9999 \<and> 1 \<le> m \<and> m \<le> 12 \<and> 1 \<le> d \<and> d \<le> 31"
proof -
  let ?y = "(n - 1) div 366 + 1"
  have n: "1 \<le> n" "n \<le> 3652059" using assms(1) by (simp_all add: date_ok_def)
  have "(n - 1) div 366 * 366 \<le> n - 1" by simp
  moreover have "0 \<le> (n - 1) div 366" using n by (simp add: pos_imp_zdiv_nonneg_iff)
  ultimately have "days_before_year ?y < n" using days_before_year_le [of ?y] by simp
  note yf = year_from_spec [OF this]
  have y: "y = year_from ?y n" and md: "month_split (month_lengths y) 1 (n - days_before_year y) = (m, d)"
    using assms(2) by (auto simp: date_ymd_def Let_def)
  have y1: "1 \<le> y" using yf y \<open>0 \<le> (n - 1) div 366\<close> by linarith
  have y2: "y \<le> 9999"
  proof (rule ccontr)
    assume "\<not> y \<le> 9999"
    then have "days_before_year 10000 \<le> days_before_year y" by (intro days_before_year_mono) simp
    then show False using yf n y by (simp add: days_before_year_def)
  qed
  have r: "1 \<le> n - days_before_year y" "n - days_before_year y \<le> sum_list (month_lengths y)"
    using yf days_before_year_Suc [of y] by (simp_all add: y year_length)
  from month_split_spec [OF r length_month_lengths(2) md] length_month_lengths(1) [of y]
  have *: "1 \<le> m" "m \<le> 12" "1 \<le> d" "d \<le> month_lengths y ! nat (m - 1)" "days_before_month y m + d = n - days_before_year y"
    by (auto simp: days_before_month_def)
  have "month_lengths y ! nat (m - 1) \<in> set (month_lengths y)"
    using *(1,2) length_month_lengths(1) [of y] by (intro nth_mem) simp
  then have "d \<le> 31" using *(4) by (auto simp: month_lengths_def split: if_splits)
  then show ?thesis using * y1 y2 by (simp add: date_new_def)
qed

lemma read_pad2:
  assumes "0 \<le> n" "n < 100"
  shows "read2 (pad2 n) = Some n"
proof -
  have n: "0 \<le> n div 10" "n div 10 < 10" "n = 10 * (n div 10) + n mod 10" "0 \<le> n mod 10" "n mod 10 < 10"
    using assms by (simp_all add: pos_imp_zdiv_nonneg_iff)
  then show ?thesis by (simp add: pad2_def nat_less_iff)
qed

lemma length_pad2 [simp]: "length (pad2 n) = 2"
  by (simp add: pad2_def)

lemma isoformat_ymd_text:
  assumes "date_ok n"
  shows "ymd_text (isoformat n) = Some (date_ymd n)"
proof -
  obtain y m d where ymd: "date_ymd n = (y, m, d)" by (metis prod_cases3)
  note b = date_new_ymd [OF assms ymd]
  have "0 \<le> y div 100" "y div 100 < 100" using b by linarith+
  then have "read2 (pad2 (y div 100)) = Some (y div 100)" "read2 (pad2 (y mod 100)) = Some (y mod 100)"
    "read2 (pad2 m) = Some m" "read2 (pad2 d) = Some d"
    using b by (simp_all add: read_pad2 pos_imp_zdiv_nonneg_iff)
  then show ?thesis
    by (simp add: ymd_text_def isoformat_def ymd nth_append numeral_eq_Suc)
qed

lemma fromisoformat_isoformat: "date_ok n \<Longrightarrow> date_fromisoformat other (isoformat n) = Inr n"
  using isoformat_ymd_text [of n] date_new_ymd [of n]
  by (cases "date_ymd n") (auto simp: date_fromisoformat_def)

lemma length_isoformat [simp]: "length (isoformat n) = 10"
  by (simp add: isoformat_def split: prod.split)

end
