(* ===== verification/Stats_Find.thy ===== *)
theory Stats_Find
  imports Lease_Owner Calendar
begin

text \<open>
  \<open>dbload/lib/sync_timedb_stats_find.py\<close>: the records that \<open>fd -X stat --printf\<close> prints for the raw
  files, read from the output as it arrives in chunks; the map of the open \<open>current\<close> files; the
  fingerprint caches; the filter and order of the records of a date range; the files around a job's
  window. Not here: the command lines and the subprocesses, whose output is the argument.
  \<^item> Output bytes are characters below 256; \<open>os.fsdecode\<close> is the identity on the ASCII paths the
    archive has.
  \<^item> \<open>float(...)\<close> reads decimal numerals exactly; the words for infinity and NaN, which \<open>stat\<close> never
    prints, are not read.
  \<^item> \<open>datetime.fromtimestamp\<close> depends on the machine's time zone: it is an argument that gives
    the local time in seconds from the first day of year 1, or the error it raises.
  Lemmas: a stream gives the same records and the same error however it is cut into chunks, and reads
  back what the format prints; the window keeps exactly the files in it with the neighbours on each
  side; one host's part of a scan is that host's own window.
\<close>

section \<open>Paths and numerals\<close>

definition py_basename :: "string \<Rightarrow> string" where
  "py_basename p = rev (takeWhile (\<lambda>c. c \<noteq> CHR ''/'') (rev p))"

definition py_dirname :: "string \<Rightarrow> string" where
  "py_dirname p =
     (let head = rev (dropWhile (\<lambda>c. c \<noteq> CHR ''/'') (rev p)) in
      if list_all (\<lambda>c. c = CHR ''/'') head then head
      else rev (dropWhile (\<lambda>c. c = CHR ''/'') (rev head)))"

definition starts_with :: "string \<Rightarrow> string \<Rightarrow> bool" where
  "starts_with p s \<longleftrightarrow> take (length p) s = p"

definition ends_with :: "string \<Rightarrow> string \<Rightarrow> bool" where
  "ends_with p s \<longleftrightarrow> starts_with (rev p) (rev s)"

lemma ends_with_drop: "ends_with p s \<longleftrightarrow> length p \<le> length s \<and> drop (length s - length p) s = p"
  by (auto simp: ends_with_def starts_with_def take_rev dest: arg_cong [where f = length])

text \<open>\<open>int(b)\<close> and \<open>float(b)\<close> of bytes: as for a \<open>str\<close>, but only ASCII white space is stripped.\<close>

definition ascii_spaced :: "string \<Rightarrow> bool" where
  "ascii_spaced s \<longleftrightarrow> list_all (\<lambda>c. py_isspace c \<longrightarrow> (of_char c :: nat) \<le> 13 \<or> c = CHR '' '') s"

definition int_of_bytes :: "string \<Rightarrow> int option" where
  "int_of_bytes b = (if ascii_spaced b then py_int b else None)"

definition read_sign :: "string \<Rightarrow> bool \<times> string" where
  "read_sign s = (case s of
      c # cs \<Rightarrow> if c = CHR ''-'' then (True, cs) else if c = CHR ''+'' then (False, cs) else (False, s)
    | [] \<Rightarrow> (False, s))"

definition read_part :: "string \<Rightarrow> nat option" where
  "read_part ds = (if ds = [] then Some 0 else read_digits False 0 ds)"

definition read_exponent :: "string option \<Rightarrow> rat option" where
  "read_exponent ex = (case ex of
      None \<Rightarrow> Some 1
    | Some t \<Rightarrow> (case read_sign t of (neg, ds) \<Rightarrow>
        map_option (\<lambda>n. if neg then 1 / 10 ^ n else 10 ^ n) (read_digits False 0 ds)))"

definition py_float :: "string \<Rightarrow> rat option" where
  "py_float s =
     (case read_sign (py_strip s) of (neg, u) \<Rightarrow>
        let mant = takeWhile (\<lambda>c. c \<notin> set ''eE'') u;
            ex = (if length mant < length u then Some (drop (Suc (length mant)) u) else None);
            ip = takeWhile (\<lambda>c. c \<noteq> CHR ''.'') mant;
            fp = drop (Suc (length ip)) mant
        in if ip = [] \<and> fp = [] then None
           else (case (read_part ip, read_part fp, read_exponent ex) of
               (Some i, Some f, Some e) \<Rightarrow>
                 let m = (of_nat i + of_nat f / 10 ^ length (filter (\<lambda>c. c \<noteq> CHR ''_'') fp)) * e
                 in Some (if neg then - m else m)
             | _ \<Rightarrow> None))"

definition float_of_bytes :: "string \<Rightarrow> rat option" where
  "float_of_bytes b = (if ascii_spaced b then py_float b else None)"

section \<open>Records\<close>

record find_stats_record =
  fr_path :: string
  fr_mtime :: rat
  fr_size :: int
  fr_inode :: int

definition host_dir_is_internal_for_stats_discovery :: "string \<Rightarrow> bool" where
  "host_dir_is_internal_for_stats_discovery host_dir =
     (let base = py_basename (py_normpath host_dir) in
      if base = [] \<or> base = ''.'' \<or> base = ''..'' then True else starts_with ''.'' base)"

definition is_internal_archive_stats_path :: "string \<Rightarrow> bool" where
  "is_internal_archive_stats_path path =
     (if path = [] then False else host_dir_is_internal_for_stats_discovery (py_dirname path))"

definition is_lock_name :: "string \<Rightarrow> bool" where
  "is_lock_name name \<longleftrightarrow> ends_with ''.fnctl.lock'' name \<or> ends_with ''.lock'' name"

subsection \<open>The output of stat, as a stream\<close>

abbreviation NUL :: char where "NUL \<equiv> CHR 0x00"

definition read_record :: "string list \<Rightarrow> py_error + find_stats_record" where
  "read_record flds =
     (case flds of
        [path_b, mtime_b, size_b, inode_b] \<Rightarrow>
          (case (float_of_bytes mtime_b, int_of_bytes size_b, int_of_bytes inode_b) of
             (Some mtime, Some sz, Some inode) \<Rightarrow>
               Inr \<lparr>fr_path = path_b, fr_mtime = mtime, fr_size = sz, fr_inode = inode\<rparr>
           | _ \<Rightarrow> Inl FindStatsDiscoveryError)
      | _ \<Rightarrow> Inl FindStatsDiscoveryError)"

text \<open>The inner \<open>while\<close> loop: the records it yields, the error it raises, and what it leaves of
  \<open>buf\<close> and \<open>fields\<close>.\<close>

function drain_buffer ::
    "string \<Rightarrow> string list \<Rightarrow> find_stats_record list \<times> py_error option \<times> string \<times> string list" where
  "drain_buffer buf flds =
     (if NUL \<notin> set buf then ([], None, buf, flds)
      else let nul = length (takeWhile (\<lambda>c. c \<noteq> NUL) buf);
               flds1 = flds @ [take nul buf];
               buf1 = drop (Suc nul) buf
           in if length flds1 < 4 then drain_buffer buf1 flds1
              else (case read_record flds1 of
                  Inl e \<Rightarrow> ([], Some e, buf1, [])
                | Inr r \<Rightarrow> (case drain_buffer buf1 [] of (rs, e, b, f) \<Rightarrow> (r # rs, e, b, f))))"
  by pat_completeness auto
termination by (relation "measure (\<lambda>(buf, flds). length buf)") (auto intro!: diff_less simp: length_pos_if_in_set)

declare drain_buffer.simps [simp del]

fun stream_chunks :: "string \<Rightarrow> string list \<Rightarrow> string list \<Rightarrow> find_stats_record list \<times> py_error option" where
  "stream_chunks buf flds [] =
     (if flds \<noteq> [] \<or> buf \<noteq> [] then ([], Some FindStatsDiscoveryError) else ([], None))"
| "stream_chunks buf flds (chunk # chunks) =
     (case drain_buffer (buf @ chunk) flds of
        (rs, Some e, _, _) \<Rightarrow> (rs, Some e)
      | (rs, None, buf1, flds1) \<Rightarrow>
          (case stream_chunks buf1 flds1 chunks of (rs1, e) \<Rightarrow> (rs @ rs1, e)))"

definition iter_find_printf_records_streaming :: "string list \<Rightarrow> find_stats_record list \<times> py_error option" where
  "iter_find_printf_records_streaming chunks = stream_chunks [] [] chunks"

definition parse_find_printf_records :: "string \<Rightarrow> py_error + find_stats_record list" where
  "parse_find_printf_records data =
     (case iter_find_printf_records_streaming (if data \<noteq> [] then [data] else []) of
        (rs, None) \<Rightarrow> Inr rs | (_, Some e) \<Rightarrow> Inl e)"

fun inode_pairs :: "string list \<Rightarrow> (string, int) dict \<Rightarrow> py_error + (string, int) dict" where
  "inode_pairs (path # inode # parts) out =
     (case int_of_bytes inode of
        None \<Rightarrow> Inl ValueError
      | Some n \<Rightarrow> inode_pairs parts (AList.update (py_dirname (py_normpath path)) n out))"
| "inode_pairs _ out = Inr out"

definition parse_current_inode_records :: "string \<Rightarrow> py_error + (string, int) dict" where
  "parse_current_inode_records data =
     (if data = [] then Inr []
      else let parts = rev (dropWhile (\<lambda>p. p = []) (rev (py_split NUL data))) in
           if length parts mod 2 \<noteq> 0 then Inl FindStatsDiscoveryError else inode_pairs parts [])"

subsection \<open>Fingerprint caches\<close>

record fp_caches =
  path_fp_cache :: "(string, int \<times> int) dict"
  host_fp_cache :: "(string, int \<times> int) dict"

definition clear_fingerprint_caches :: "fp_caches \<Rightarrow> fp_caches" where
  "clear_fingerprint_caches c = c\<lparr>path_fp_cache := [], host_fp_cache := []\<rparr>"

definition lookup_path_fingerprint :: "fp_caches \<Rightarrow> string \<Rightarrow> (int \<times> int) option" where
  "lookup_path_fingerprint c path = map_of (path_fp_cache c) (py_normpath path)"

definition lookup_host_dir_fingerprint :: "fp_caches \<Rightarrow> string \<Rightarrow> (int \<times> int) option" where
  "lookup_host_dir_fingerprint c host_dir = map_of (host_fp_cache c) (py_normpath host_dir)"

definition dict_append :: "'k \<Rightarrow> 'v \<Rightarrow> ('k, 'v list) dict \<Rightarrow> ('k, 'v list) dict" where
  "dict_append k v d = AList.update k ((case map_of d k of None \<Rightarrow> [] | Some vs \<Rightarrow> vs) @ [v]) d"

definition host_fingerprint :: "find_stats_record list \<Rightarrow> int \<times> int" where
  "host_fingerprint recs =
     ((case map (\<lambda>r. py_trunc (fr_mtime r)) recs of [] \<Rightarrow> 0 | t # ts \<Rightarrow> fold max ts t), int (length recs))"

definition update_fingerprint_caches_from_records :: "find_stats_record list \<Rightarrow> fp_caches \<Rightarrow> fp_caches" where
  "update_fingerprint_caches_from_records records c =
     (let paths = fold (\<lambda>rec. AList.update (py_normpath (fr_path rec))
            (py_trunc (fr_mtime rec), fr_size rec)) records [];
          host_agg = fold (\<lambda>rec. dict_append (py_dirname (py_normpath (fr_path rec))) rec) records []
      in c\<lparr>path_fp_cache := paths,
           host_fp_cache := fold (\<lambda>(host_dir, recs). AList.update host_dir (host_fingerprint recs)) host_agg []\<rparr>)"

section \<open>Selecting records\<close>

text \<open>\<open>startdate\<close> is a word or a \<open>datetime\<close>, in seconds of local time from year 1.\<close>

datatype start_date = StartWord string | StartAt rat

definition in_range :: "rat \<Rightarrow> rat \<Rightarrow> rat option \<Rightarrow> py_error + bool" where
  "in_range startdate enddate ts =
     (case ts of
        None \<Rightarrow> Inr False
      | Some t \<Rightarrow> if startdate - 86400 < 0 then Inl OverflowError
                  else Inr (\<not> (t \<le> startdate - 86400 \<or> t > enddate)))"

definition name_epoch ::
    "(int \<Rightarrow> py_error + rat) \<Rightarrow> string \<Rightarrow> rat \<Rightarrow> py_error + (rat option \<times> int)" where
  "name_epoch fromtimestamp name mtime =
     (case py_int name of
        None \<Rightarrow> Inr (None, py_trunc mtime)
      | Some e \<Rightarrow> (case fromtimestamp e of
            Inr t \<Rightarrow> Inr (Some t, e)
          | Inl er \<Rightarrow> if er = TypeError \<or> er = ValueError then Inr (None, py_trunc mtime) else Inl er))"

text \<open>One turn of the loop of \<open>filter_and_sort_find_records\<close>: the sort key of a kept record.\<close>

definition select_record ::
    "(int \<Rightarrow> py_error + rat) \<Rightarrow> string \<Rightarrow> start_date \<Rightarrow> rat \<Rightarrow> (string, int) dict \<Rightarrow> find_stats_record
     \<Rightarrow> py_error + int option" where
  "select_record fromtimestamp suffix startdate enddate current_inodes rec =
     (let path = fr_path rec; name = py_basename path; host_dir = py_dirname path;
          host_base = py_basename host_dir
      in if host_dir_is_internal_for_stats_discovery host_dir then Inr None
         else if \<not> ends_with suffix host_base then Inr None
         else if starts_with ''.'' name \<or> starts_with ''current'' name then Inr None
         else if is_lock_name name then Inr None
         else if map_of current_inodes host_dir = Some (fr_inode rec) then Inr None
         else (case fromtimestamp (py_trunc (fr_mtime rec)) of
             Inl e \<Rightarrow> Inl e
           | Inr fdate_mtime \<Rightarrow>
               (case name_epoch fromtimestamp name (fr_mtime rec) of
                  Inl e \<Rightarrow> Inl e
                | Inr (fdate_name, sort_epoch) \<Rightarrow>
                    (case startdate of
                       StartWord w \<Rightarrow>
                         if w \<in> set [''all'', ''backlog'', ''current''] then Inr (Some sort_epoch) else Inl TypeError
                     | StartAt d \<Rightarrow>
                         (case in_range d enddate (Some fdate_mtime) of
                            Inl e \<Rightarrow> Inl e
                          | Inr True \<Rightarrow> Inr (Some sort_epoch)
                          | Inr False \<Rightarrow> (case in_range d enddate fdate_name of
                                Inl e \<Rightarrow> Inl e
                              | Inr b \<Rightarrow> Inr (if b then Some sort_epoch else None)))))))"

fun select_records ::
    "(find_stats_record \<Rightarrow> py_error + int option) \<Rightarrow> find_stats_record list
     \<Rightarrow> py_error + (find_stats_record \<times> int) list" where
  "select_records sel [] = Inr []"
| "select_records sel (rec # recs) =
     (case sel rec of
        Inl e \<Rightarrow> Inl e
      | Inr k \<Rightarrow> (case select_records sel recs of
            Inl e \<Rightarrow> Inl e
          | Inr rest \<Rightarrow> Inr (case k of None \<Rightarrow> rest | Some ep \<Rightarrow> (rec, ep) # rest)))"

definition filter_and_sort_find_records ::
    "(int \<Rightarrow> py_error + rat) \<Rightarrow> find_stats_record list \<Rightarrow> string \<Rightarrow> start_date \<Rightarrow> rat \<Rightarrow> (string, int) dict \<Rightarrow> bool
     \<Rightarrow> py_error + find_stats_record list" where
  "filter_and_sort_find_records fromtimestamp records host_name_ext startdate enddate current_inodes newest_first =
     (let suffix = py_strip host_name_ext in
      if suffix = [] then Inr []
      else (case select_records (select_record fromtimestamp suffix startdate enddate current_inodes) records of
          Inl e \<Rightarrow> Inl e
        | Inr selected \<Rightarrow>
            let ordered = sort_key snd selected
            in Inr (map fst (if newest_first then rev ordered else ordered))))"

subsection \<open>The window of a job\<close>

text \<open>The loop that looks for the files on both sides of an empty window.\<close>

fun scan_gap :: "rat \<Rightarrow> rat \<Rightarrow> nat \<Rightarrow> nat option \<Rightarrow> int list \<Rightarrow> nat option \<times> nat option" where
  "scan_gap start_ts end_ts i last_before [] = (last_before, None)"
| "scan_gap start_ts end_ts i last_before (ep # eps) =
     (if of_int ep < start_ts then scan_gap start_ts end_ts (Suc i) (Some i) eps
      else if of_int ep > end_ts then (last_before, Some i)
      else scan_gap start_ts end_ts (Suc i) last_before eps)"

definition window_indices :: "nat \<Rightarrow> rat \<Rightarrow> rat \<Rightarrow> int list \<Rightarrow> nat list" where
  "window_indices n start_ts end_ts epochs =
     (let core_idxs = filter (\<lambda>i. start_ts \<le> of_int (epochs ! i) \<and> of_int (epochs ! i) \<le> end_ts) [0..<length epochs]
      in case core_idxs of
           lo0 # los \<Rightarrow>
             let lo = fold min los lo0; hi = fold max los lo0
             in [lo..<Suc hi] @
                concat (map (\<lambda>k. (if k \<le> lo then [lo - k] else []) @
                                 (if hi + k < length epochs then [hi + k] else [])) [1..<Suc n])
         | [] \<Rightarrow>
             (case scan_gap start_ts end_ts 0 None epochs of (last_before, first_after) \<Rightarrow>
                (case last_before of None \<Rightarrow> [] | Some i \<Rightarrow> [i]) @
                (case first_after of None \<Rightarrow> [] | Some i \<Rightarrow> [i])))"

text \<open>\<open>window\<close>: the two \<open>timestamp()\<close> values, \<open>None\<close> when one of them raises an error the code catches.\<close>

definition expand_sorted_records_with_window_neighbors ::
    "(find_stats_record \<times> int) list \<Rightarrow> (rat \<times> rat) option \<Rightarrow> int \<Rightarrow> find_stats_record list" where
  "expand_sorted_records_with_window_neighbors sorted_items window neighbor_files =
     (if sorted_items = [] then []
      else case window of
          None \<Rightarrow> []
        | Some (start_ts, end_ts) \<Rightarrow>
            map (\<lambda>i. fst (sorted_items ! i))
              (sort (remdups (window_indices (nat neighbor_files) start_ts end_ts (map snd sorted_items)))))"

definition record_epoch :: "find_stats_record \<Rightarrow> int" where
  "record_epoch rec = (case py_int (py_basename (fr_path rec)) of Some e \<Rightarrow> e | None \<Rightarrow> py_trunc (fr_mtime rec))"

definition host_record_kept :: "string set \<Rightarrow> (string, int) dict \<Rightarrow> find_stats_record \<Rightarrow> bool" where
  "host_record_kept allow current_inodes rec =
     (let path = fr_path rec; name = py_basename path; host_dir = py_dirname path;
          host_base = py_basename host_dir
      in \<not> host_dir_is_internal_for_stats_discovery host_dir \<and> host_base \<in> allow \<and>
         \<not> (starts_with ''.'' name \<or> starts_with ''current'' name) \<and> \<not> is_lock_name name \<and>
         map_of current_inodes host_dir \<noteq> Some (fr_inode rec))"

definition record_host :: "find_stats_record \<Rightarrow> string" where
  "record_host rec = py_basename (py_dirname (fr_path rec))"

definition allowed_hosts :: "string list \<Rightarrow> string set" where
  "allowed_hosts host_fqdns = set (filter (\<lambda>h. h \<noteq> []) (map py_strip host_fqdns))"

definition filter_host_scoped_window_records ::
    "find_stats_record list \<Rightarrow> string list \<Rightarrow> (rat \<times> rat) option \<Rightarrow> (string, int) dict \<Rightarrow> int
     \<Rightarrow> find_stats_record list" where
  "filter_host_scoped_window_records records host_fqdns window current_inodes neighbor_files =
     (let allow = allowed_hosts host_fqdns in
      if allow = {} then []
      else let by_host = fold (\<lambda>rec. dict_append (record_host rec) (rec, record_epoch rec))
                 (filter (host_record_kept allow current_inodes) records) [];
               selected = concat (map (\<lambda>(host_base, items).
                   map (\<lambda>rec. (rec, record_epoch rec))
                     (expand_sorted_records_with_window_neighbors (sort_key snd items) window neighbor_files)) by_host)
           in map fst (sort_key snd selected))"

section \<open>Lemmas\<close>

subsection \<open>Chunks\<close>

text \<open>The reference reading of a whole output: cut it at the NULs, take the fields in fours.\<close>

fun read_groups :: "string list \<Rightarrow> find_stats_record list \<times> py_error option \<times> string list" where
  "read_groups (a # b # c # d # ts) =
     (case read_record [a, b, c, d] of
        Inl e \<Rightarrow> ([], Some e, [])
      | Inr r \<Rightarrow> (case read_groups ts of (rs, e, f) \<Rightarrow> (r # rs, e, f)))"
| "read_groups ts = ([], None, ts)"

definition records_of_output :: "string \<Rightarrow> find_stats_record list \<times> py_error option" where
  "records_of_output data =
     (case read_groups (butlast (py_split NUL data)) of
        (rs, Some e, _) \<Rightarrow> (rs, Some e)
      | (rs, None, left) \<Rightarrow>
          (rs, if left = [] \<and> last (py_split NUL data) = [] then None else Some FindStatsDiscoveryError))"

lemma at_nul:
  assumes "NUL \<in> set buf"
  obtains a b where "buf = a @ NUL # b" "NUL \<notin> set a"
  using assms by (meson split_list_first)

lemma takeWhile_nul: "NUL \<notin> set a \<Longrightarrow> takeWhile (\<lambda>c. c \<noteq> NUL) (a @ NUL # b) = a"
  by (induction a) auto

lemma drain_step:
  assumes "NUL \<notin> set a"
  shows "drain_buffer (a @ NUL # b) flds =
     (if length flds < 3 then drain_buffer b (flds @ [a])
      else (case read_record (flds @ [a]) of
          Inl e \<Rightarrow> ([], Some e, b, [])
        | Inr r \<Rightarrow> (case drain_buffer b [] of (rs, e, b', f) \<Rightarrow> (r # rs, e, b', f))))"
  by (subst drain_buffer.simps) (simp add: takeWhile_nul [OF assms] Let_def Suc_diff_le split: sum.split)

lemma drain_end: "NUL \<notin> set buf \<Longrightarrow> drain_buffer buf flds = ([], None, buf, flds)"
  by (simp add: drain_buffer.simps)

lemma drain_append:
  "drain_buffer (buf @ buf2) flds =
     (case drain_buffer buf flds of
        (rs, Some e, b, f) \<Rightarrow> (rs, Some e, b @ buf2, f)
      | (rs, None, b, f) \<Rightarrow> (case drain_buffer (b @ buf2) f of (rs', e, b', f') \<Rightarrow> (rs @ rs', e, b', f')))"
proof (induction buf flds rule: drain_buffer.induct)
  case (1 buf flds)
  show ?case
  proof (cases "NUL \<in> set buf")
    case True
    then obtain a b where ab: "buf = a @ NUL # b" "NUL \<notin> set a" by (rule at_nul)
    note tw = takeWhile_nul [OF ab(2), of b]
    show ?thesis
    proof (cases "length flds < 3")
      case True
      then show ?thesis using "1.IH"(1) ab tw by (simp add: drain_step [OF ab(2)])
    next
      case False
      then show ?thesis using "1.IH"(2) ab tw
        by (auto simp: drain_step [OF ab(2)] split: sum.splits prod.splits option.splits)
    qed
  qed (auto simp: drain_end split: prod.split)
qed

lemma drain_leftover: "drain_buffer buf flds = (rs, None, b, f) \<Longrightarrow> NUL \<notin> set b"
proof (induction buf flds arbitrary: rs rule: drain_buffer.induct)
  case (1 buf flds)
  show ?case
  proof (cases "NUL \<in> set buf")
    case True
    then obtain a c where ab: "buf = a @ NUL # c" "NUL \<notin> set a" by (rule at_nul)
    then show ?thesis using 1 takeWhile_nul [OF ab(2), of c]
      by (auto simp: drain_step [OF ab(2)] split: if_splits sum.splits prod.splits)
  qed (use "1.prems" in \<open>auto simp: drain_end\<close>)
qed

lemma stream_chunks_concat:
  assumes "NUL \<notin> set buf"
  shows "stream_chunks buf flds chunks =
     (case drain_buffer (buf @ concat chunks) flds of
        (rs, Some e, _, _) \<Rightarrow> (rs, Some e)
      | (rs, None, b, f) \<Rightarrow> (rs, if f \<noteq> [] \<or> b \<noteq> [] then Some FindStatsDiscoveryError else None))"
  using assms
proof (induction chunks arbitrary: buf flds)
  case (Cons chunk chunks)
  obtain rs eo b f where d: "drain_buffer (buf @ chunk) flds = (rs, eo, b, f)" by (metis prod_cases4)
  show ?case
  proof (cases eo)
    case None
    then have "NUL \<notin> set b" using d drain_leftover by blast
    from Cons.IH [OF this, of f] show ?thesis
      using drain_append [of "buf @ chunk" "concat chunks" flds] d None by (auto split: prod.splits option.splits)
  qed (use drain_append [of "buf @ chunk" "concat chunks" flds] d in simp)
qed (simp add: drain_end)

lemma split_at_nul: "NUL \<notin> set a \<Longrightarrow> butlast (py_split NUL (a @ NUL # b)) = a # butlast (py_split NUL b)"
  "NUL \<notin> set a \<Longrightarrow> last (py_split NUL (a @ NUL # b)) = last (py_split NUL b)"
  by (simp_all add: py_split_append)

lemma drain_groups:
  assumes "length flds < 4"
  shows "case drain_buffer buf flds of
      (rs, Some e, _, _) \<Rightarrow> (\<exists>left. read_groups (flds @ butlast (py_split NUL buf)) = (rs, Some e, left))
    | (rs, None, b, f) \<Rightarrow> read_groups (flds @ butlast (py_split NUL buf)) = (rs, None, f) \<and> b = last (py_split NUL buf)"
  using assms
proof (induction buf flds rule: drain_buffer.induct)
  case (1 buf flds)
  show ?case
  proof (cases "NUL \<in> set buf")
    case True
    then obtain a c where ab: "buf = a @ NUL # c" "NUL \<notin> set a" by (rule at_nul)
    note tw = takeWhile_nul [OF ab(2), of c]
    show ?thesis
    proof (cases "length flds < 3")
      case True
      then show ?thesis using "1.IH"(1) ab tw
        by (auto simp: drain_step [OF ab(2)] split_at_nul [OF ab(2)] split: prod.splits option.splits)
    next
      case False
      with "1.prems" have "length flds = 3" by simp
      then obtain x y z where "flds = [x, y, z]" by (auto simp: numeral_eq_Suc length_Suc_conv)
      then show ?thesis using "1.IH"(2) ab tw
        by (auto simp: drain_step [OF ab(2)] split_at_nul [OF ab(2)] split: sum.splits prod.splits option.splits)
    qed
  next
    case False
    moreover from "1.prems" have "read_groups flds = ([], None, flds)"
      by (cases flds rule: read_groups.cases) auto
    ultimately show ?thesis by (simp add: drain_end py_split_notin)
  qed
qed

lemma streaming_whole: "iter_find_printf_records_streaming chunks = records_of_output (concat chunks)"
  using drain_groups [of "[]" "concat chunks"] stream_chunks_concat [of "[]" "[]" chunks]
  by (auto simp: iter_find_printf_records_streaming_def records_of_output_def split: prod.splits option.splits)

text \<open>The records a scan yields, and the error it ends in, depend only on the bytes of the output and
  not on the chunks in which they arrive: they are those of the whole output cut at its NULs and taken
  in fours, where a field that does not read or a rest of fewer than four fields or of bytes without a
  NUL is an error.\<close>

theorem streaming_equals_whole_output:
  "iter_find_printf_records_streaming chunks = records_of_output (concat chunks)"
  by (rule streaming_whole)


subsection \<open>What the format prints is read back\<close>

lemma show_nat_range: "c \<in> set (show_nat n) \<Longrightarrow> 48 \<le> (of_char c :: nat) \<and> (of_char c :: nat) \<le> 57"
  using of_char_digit by (fastforce dest: show_nat_digits)

lemma show_nat_notin: "(of_char c :: nat) < 48 \<or> 57 < (of_char c :: nat) \<Longrightarrow> c \<notin> set (show_nat n)"
  using show_nat_range [of c n] by auto

lemma nul_notin_digits [simp]: "NUL \<notin> set (show_int i)"
  by (simp add: show_int_def show_nat_notin)

lemma show_int_not_space: "c \<in> set (show_int i) \<Longrightarrow> \<not> py_isspace c"
  using show_nat_no_space by (auto simp: show_int_def py_isspace_def split: if_splits)

lemma ascii_spaced_show_int [simp]: "ascii_spaced (show_int i)"
  using show_int_not_space by (auto simp: ascii_spaced_def list_all_iff)

lemma int_of_bytes_show_int [simp]: "int_of_bytes (show_int i) = Some i"
  by (simp add: int_of_bytes_def)

lemma plain_digits:
  "takeWhile (\<lambda>c. c \<notin> set ''eE'') (show_nat n) = show_nat n"
  "takeWhile (\<lambda>c. c \<noteq> CHR ''.'') (show_nat n) = show_nat n"
  using show_nat_range by (fastforce simp: takeWhile_eq_all_conv)+

lemma read_sign_show_int: "read_sign (show_int i) = (i < 0, show_nat (nat \<bar>i\<bar>))"
  using show_nat_notin [of "CHR ''-''" "nat i"] show_nat_notin [of "CHR ''+''" "nat i"]
  by (cases "show_nat (nat i)") (auto simp: show_int_def read_sign_def)

lemma py_float_show_int: "py_float (show_int i) = Some (of_int i)"
  by (simp add: py_float_def py_strip_id show_int_not_space read_sign_show_int plain_digits read_part_def
      read_exponent_def read_show_nat Let_def del: set_simps)

lemma float_of_bytes_show_int [simp]: "float_of_bytes (show_int i) = Some (of_int i)"
  by (simp add: float_of_bytes_def py_float_show_int)

definition stat_output :: "string \<times> int \<times> int \<times> int \<Rightarrow> string" where
  "stat_output = (\<lambda>(path, mtime, sz, inode).
     path @ NUL # show_int mtime @ NUL # show_int sz @ NUL # show_int inode @ [NUL])"

lemma split_stat_output:
  assumes "NUL \<notin> set path"
  shows "butlast (py_split NUL (stat_output (path, mtime, sz, inode) @ rest)) =
      path # show_int mtime # show_int sz # show_int inode # butlast (py_split NUL rest)"
    "last (py_split NUL (stat_output (path, mtime, sz, inode) @ rest)) = last (py_split NUL rest)"
  using assms by (simp_all add: stat_output_def split_at_nul)

lemma records_of_stat_output:
  assumes "\<forall>f \<in> set files. NUL \<notin> set (fst f)"
  shows "records_of_output (concat (map stat_output files)) =
     (map (\<lambda>(path, mtime, sz, inode).
        \<lparr>fr_path = path, fr_mtime = of_int mtime, fr_size = sz, fr_inode = inode\<rparr>) files, None)"
  using assms
proof (induction files)
  case (Cons f files)
  obtain path mtime sz inode where f: "f = (path, mtime, sz, inode)" by (metis prod_cases4)
  with Cons.prems have "NUL \<notin> set path" by simp
  note sp = split_stat_output [OF this, of mtime sz inode]
  from Cons show ?case
    by (auto simp: f records_of_output_def sp read_record_def split: prod.splits option.splits if_splits)
qed (simp add: records_of_output_def)

lemma parse_whole:
  "parse_find_printf_records data = (case records_of_output data of (rs, None) \<Rightarrow> Inr rs | (_, Some e) \<Rightarrow> Inl e)"
  by (cases "data = []") (simp_all add: parse_find_printf_records_def streaming_whole)

text \<open>The output of \<open>stat --printf "%n\0%Y\0%s\0%i\0"\<close> for a list of files is read back as
  exactly these files, in order, whatever their names (without NUL), times, sizes and inodes are.\<close>

theorem stat_output_roundtrip:
  assumes "\<forall>f \<in> set files. NUL \<notin> set (fst f)"
  shows "parse_find_printf_records (concat (map stat_output files)) =
     Inr (map (\<lambda>(path, mtime, sz, inode).
        \<lparr>fr_path = path, fr_mtime = of_int mtime, fr_size = sz, fr_inode = inode\<rparr>) files)"
  by (simp add: parse_whole records_of_stat_output [OF assms])


theorem stat_output_roundtrip_witness:
  "parse_find_printf_records (stat_output (''/a/h/17'', 1700000000, 42, 9)) =
     Inr [\<lparr>fr_path = ''/a/h/17'', fr_mtime = 1700000000, fr_size = 42, fr_inode = 9\<rparr>]"
  using stat_output_roundtrip [of "[(''/a/h/17'', 1700000000, 42, 9)]"] by simp

subsection \<open>Windows\<close>

text \<open>A sorted list falls into the items before, in and after a window.\<close>

lemma sorted_window_parts:
  assumes "sorted (map snd items)" "s \<le> e"
  shows "items = filter (\<lambda>p. rat_of_int (snd p) < s) items @ filter (\<lambda>p. s \<le> of_int (snd p) \<and> of_int (snd p) \<le> e) items @
    filter (\<lambda>p. e < of_int (snd p)) items"
  using assms
proof (induction items)
  case (Cons p items)
  let ?x = "rat_of_int (snd p)"
  have *: "?x \<le> of_int (snd q)" if "q \<in> set items" for q using Cons.prems that by auto
  consider "?x < s" | "s \<le> ?x" "?x \<le> e" | "e < ?x" by linarith
  then show ?case
  proof cases
    case 2
    then have "filter (\<lambda>p. rat_of_int (snd p) < s) items = []" using * by (fastforce simp: filter_empty_conv)
    then show ?thesis using Cons 2 by simp
  next
    case 3
    then have "filter (\<lambda>p. rat_of_int (snd p) < s) items = []"
      "filter (\<lambda>p. s \<le> of_int (snd p) \<and> rat_of_int (snd p) \<le> e) items = []"
      using * Cons.prems(2) by (fastforce simp: filter_empty_conv)+
    then show ?thesis using Cons 3 by simp
  qed (use Cons in simp)
qed simp

lemma filter_upt_middle:
  assumes "\<And>x. x \<in> set B \<Longrightarrow> \<not> P x" "\<And>x. x \<in> set C \<Longrightarrow> P x" "\<And>x. x \<in> set A \<Longrightarrow> \<not> P x"
  shows "filter (\<lambda>i. P ((B @ C @ A) ! i)) [0..<length (B @ C @ A)] = [length B..<length B + length C]"
proof -
  have "[0..<length (B @ C @ A)] = [0..<length B] @ [length B..<length B + length C] @
      [length B + length C..<length B + length C + length A]"
    using upt_add_eq_append [of 0 "length B" "length C + length A"]
      upt_add_eq_append [of "length B" "length B + length C" "length A"] by (simp add: add.assoc)
  moreover have "filter (\<lambda>i. P ((B @ C @ A) ! i)) [0..<length B] = []"
    using assms(1) by (auto simp: filter_empty_conv nth_append)
  moreover have "filter (\<lambda>i. P ((B @ C @ A) ! i)) [length B + length C..<length B + length C + length A] = []"
    using assms(3) by (auto simp: filter_empty_conv nth_append)
  moreover have "filter (\<lambda>i. P ((B @ C @ A) ! i)) [length B..<length B + length C] = [length B..<length B + length C]"
    using assms(2) by (intro filter_True) (auto simp: nth_append)
  ultimately show ?thesis by simp
qed

lemma scan_gap_parts:
  assumes "\<forall>x \<in> set B. of_int x < s" "\<forall>x \<in> set A. e < of_int x" "s \<le> e"
  shows "scan_gap s e i lb (B @ A) =
     (if B = [] then lb else Some (i + length B - 1), if A = [] then None else Some (i + length B))"
  using assms by (induction B arbitrary: i lb) (cases A, auto)

lemma sort_remdups_interval: "set xs = {l..<h} \<Longrightarrow> sort (remdups xs) = [l..<h]" for l :: nat
  by (intro sorted_distinct_set_unique) auto

lemma map_nth_interval: "h \<le> length xs \<Longrightarrow> map (\<lambda>i. f (xs ! i)) [l..<h] = map f (take (h - l) (drop l xs))"
  by (rule nth_equalityI) auto

lemma extremes_upt:
  assumes "[b..<b + c] = x # xs"
  shows "fold min xs x = b" "fold max xs x = b + c - 1"
proof -
  have "0 < c" using assms by (cases c) auto
  have "set (x # xs) = {b..<b + c}" by (metis assms set_upt)
  then have "fold min xs x = Min {b..<b + c}" "fold max xs x = Max {b..<b + c}"
    by (metis Min.set_eq_fold, metis Max.set_eq_fold)
  moreover have "Min {b..<b + c} = b" using \<open>0 < c\<close> by (intro Min_eqI) auto
  moreover have "Max {b..<b + c} = b + c - 1" using \<open>0 < c\<close> by (intro Max_eqI) auto
  ultimately show "fold min xs x = b" "fold max xs x = b + c - 1" by simp_all
qed

lemma neighbor_set:
  assumes "0 < c"
  shows "{b..<Suc (b + c - 1)} \<union>
     (\<Union>k \<in> {1..<Suc n}. set ((if k \<le> b then [b - k] else []) @
        (if b + c - 1 + k < b + c + a then [b + c - 1 + k] else []))) =
     {b - n..<min (b + c + a) (b + c + n)}" (is "?L = ?R")
proof (rule set_eqI)
  fix x :: nat
  have "x \<in> ?L \<longleftrightarrow> (b \<le> x \<and> x < b + c) \<or> (\<exists>k \<in> {1..<Suc n}. (k \<le> b \<and> x = b - k) \<or> (k \<le> a \<and> x = b + c - 1 + k))"
    using assms by (cases c) (fastforce simp: less_Suc_eq_le)+
  moreover have "\<dots> \<longleftrightarrow> x \<in> ?R"
  proof
    assume R: "x \<in> ?R"
    consider "x < b" | "b \<le> x" "x < b + c" | "b + c \<le> x" by linarith
    then show "(b \<le> x \<and> x < b + c) \<or> (\<exists>k \<in> {1..<Suc n}. (k \<le> b \<and> x = b - k) \<or> (k \<le> a \<and> x = b + c - 1 + k))"
    proof cases
      case 1
      then show ?thesis using R by (intro disjI2 bexI [of _ "b - x"] disjI1) auto
    next
      case 3
      then show ?thesis using R assms by (intro disjI2 bexI [of _ "x - (b + c - 1)"] disjI2) auto
    qed simp
  qed (use assms in auto)
  ultimately show "x \<in> ?L \<longleftrightarrow> x \<in> ?R" by blast
qed

lemma window_index_set:
  assumes "\<forall>x \<in> set B. rat_of_int x < s" "\<forall>x \<in> set C. s \<le> of_int x \<and> rat_of_int x \<le> e"
    "\<forall>x \<in> set A. e < rat_of_int x" "s \<le> e" and k: "k = (if C = [] then 1 else n)"
  shows "set (window_indices n s e (B @ C @ A)) =
     {length B - k..<min (length (B @ C @ A)) (length B + length C + k)}"
proof -
  let ?b = "length B" and ?c = "length C"
  have core: "filter (\<lambda>i. s \<le> rat_of_int ((B @ C @ A) ! i) \<and> rat_of_int ((B @ C @ A) ! i) \<le> e) [0..<length (B @ C @ A)]
      = [?b..<?b + ?c]"
    using assms(1-4) by (intro filter_upt_middle) fastforce+
  show ?thesis
  proof (cases "C = []")
    case True
    then show ?thesis using scan_gap_parts [OF assms(1,3,4), of 0 None] core
      by (cases B; cases A) (auto simp: window_indices_def k)
  next
    case False
    then obtain x xs where "[?b..<?b + ?c] = x # xs" by (cases "[?b..<?b + ?c]") auto
    note x = extremes_upt [OF this] this
    have "set (window_indices n s e (B @ C @ A)) =
        {?b..<Suc (?b + ?c - 1)} \<union> (\<Union>k \<in> {1..<Suc n}. set ((if k \<le> ?b then [?b - k] else []) @
          (if ?b + ?c - 1 + k < length (B @ C @ A) then [?b + ?c - 1 + k] else [])))"
      unfolding window_indices_def Let_def core x(3) list.case x(1,2) set_append set_concat set_map image_image set_upt ..
    also have "\<dots> = {?b - n..<min (?b + ?c + length A) (?b + ?c + n)}"
      using neighbor_set [where c = ?c and b = ?b and n = n and a = "length A"] False by (simp add: add.assoc)
    finally show ?thesis using False k by (simp add: add.assoc)
  qed
qed


definition window_parts ::
    "(find_stats_record \<times> int) list \<Rightarrow> rat \<Rightarrow> rat \<Rightarrow> nat \<Rightarrow> (find_stats_record \<times> int) list" where
  "window_parts items s e n =
     (let before = filter (\<lambda>p. of_int (snd p) < s) items;
          core = filter (\<lambda>p. s \<le> of_int (snd p) \<and> of_int (snd p) \<le> e) items;
          after = filter (\<lambda>p. e < of_int (snd p)) items;
          k = (if core = [] then 1 else n)
      in drop (length before - k) before @ core @ take k after)"

lemma slice_parts:
  "take (min (length (B @ C @ A)) (length B + length C + k) - (length B - k)) (drop (length B - k) (B @ C @ A)) =
   drop (length B - k) B @ C @ take k A"
proof -
  have "min (length (B @ C @ A)) (length B + length C + k) - (length B - k) =
      length (drop (length B - k) B) + length C + min (length A) k" by (auto simp: min_def)
  moreover have "take (min (length A) k) A = take k A" by (simp add: min_def)
  moreover have "length B - (length B - k) \<le> length B + length C + min (length A) k - (length B - k)"
    by (intro diff_le_mono) simp
  ultimately show ?thesis by simp
qed

lemma expand_window_parts:
  assumes "sorted (map snd items)" "s \<le> e"
  shows "expand_sorted_records_with_window_neighbors items (Some (s, e)) n = map fst (window_parts items s e (nat n))"
proof (cases "items = []")
  case False
  define B C A where "B = filter (\<lambda>p. rat_of_int (snd p) < s) items"
    and "C = filter (\<lambda>p. s \<le> of_int (snd p) \<and> rat_of_int (snd p) \<le> e) items"
    and "A = filter (\<lambda>p. e < rat_of_int (snd p)) items"
  define k where "k = (if C = [] then 1 else nat n)"
  have items: "items = B @ C @ A" using sorted_window_parts [OF assms] by (simp add: B_def C_def A_def)
  have "set (window_indices (nat n) s e (map snd B @ map snd C @ map snd A)) =
      {length (map snd B) - k..<min (length (map snd B @ map snd C @ map snd A)) (length (map snd B) + length (map snd C) + k)}"
    using assms(2) by (intro window_index_set) (auto simp: B_def C_def A_def k_def)
  from sort_remdups_interval [OF this] have
    "sort (remdups (window_indices (nat n) s e (map snd items))) =
      [length B - k..<min (length items) (length B + length C + k)]"
    by (simp add: items)
  then have "expand_sorted_records_with_window_neighbors items (Some (s, e)) n =
      map fst (take (min (length items) (length B + length C + k) - (length B - k)) (drop (length B - k) items))"
    using False map_nth_interval [of "min (length items) (length B + length C + k)" items fst "length B - k"]
    by (simp add: expand_sorted_records_with_window_neighbors_def)
  also have "\<dots> = map fst (drop (length B - k) B @ C @ take k A)"
    unfolding items slice_parts ..
  finally show ?thesis
    unfolding window_parts_def Let_def k_def B_def C_def A_def .
qed (simp add: expand_sorted_records_with_window_neighbors_def window_parts_def)

subsection \<open>Hosts\<close>

lemma insort_tagged: "insort_key snd (x, f x) (map (\<lambda>r. (r, f r)) ys) = map (\<lambda>r. (r, f r)) (insort_key f x ys)"
  by (induction ys) auto

lemma map_sort_tagged: "sort_key snd (map (\<lambda>r. (r, f r)) xs) = map (\<lambda>r. (r, f r)) (sort_key f xs)"
  by (induction xs) (simp_all add: insort_tagged)

lemma map_of_dict_append:
  "map_of (dict_append k v d) h =
     (if h = k then Some ((case map_of d k of None \<Rightarrow> [] | Some vs \<Rightarrow> vs) @ [v]) else map_of d h)"
  by (simp add: dict_append_def AList.update_conv')

lemma fold_dict_append:
  "map_of (fold (\<lambda>r. dict_append (key r) (val r)) rs []) h =
     (let xs = map val (filter (\<lambda>r. key r = h) rs) in if xs = [] then None else Some xs)"
  by (induction rs rule: rev_induct) (auto simp: map_of_dict_append Let_def)

lemma dict_wf_fold_append: "dict_wf d \<Longrightarrow> dict_wf (fold (\<lambda>r. dict_append (key r) (val r)) rs d)"
  by (induction rs arbitrary: d) (auto simp: dict_append_def AList.distinct_update)

lemma concat_only:
  assumes "dict_wf d" "\<And>k vs. (k, vs) \<in> set d \<Longrightarrow> k \<noteq> h \<Longrightarrow> filter P (f vs) = []"
  shows "filter P (concat (map (\<lambda>(k, vs). f vs) d)) =
     (case map_of d h of None \<Rightarrow> [] | Some vs \<Rightarrow> filter P (f vs))"
  using assms
proof (induction d)
  case (Cons p d)
  obtain k vs where p: "p = (k, vs)" by force
  have IH: "filter P (concat (map (\<lambda>(k, vs). f vs) d)) = (case map_of d h of None \<Rightarrow> [] | Some vs \<Rightarrow> filter P (f vs))"
    using Cons.prems by (intro Cons.IH) auto
  show ?case
  proof (cases "k = h")
    case True
    then have "map_of d h = None" using Cons.prems(1) p by (simp add: map_of_None_iff)
    then show ?thesis using IH True p by simp
  qed (use IH p Cons.prems(2) [of k vs] in simp)
qed simp


lemma scan_gap_bounds:
  "scan_gap s e i lb eps = (a, b) \<Longrightarrow>
     (case a of None \<Rightarrow> True | Some x \<Rightarrow> lb = Some x \<or> x < i + length eps) \<and> (case b of None \<Rightarrow> True | Some x \<Rightarrow> x < i + length eps)"
  by (induction s e i lb eps rule: scan_gap.induct) (auto split: if_splits option.splits)

lemma window_indices_bounds: "set (window_indices n s e eps) \<subseteq> {..<length eps}"
proof (cases "filter (\<lambda>i. s \<le> rat_of_int (eps ! i) \<and> rat_of_int (eps ! i) \<le> e) [0..<length eps]")
  case Nil
  then show ?thesis using scan_gap_bounds [of s e 0 None eps]
    by (cases "scan_gap s e 0 None eps") (auto simp: window_indices_def split: option.splits)
next
  case (Cons x xs)
  then have "set (x # xs) \<subseteq> {..<length eps}"
    by (metis (no_types, lifting) atLeastLessThan_iff filter_is_subset lessThan_iff set_upt subset_iff)
  moreover have "Max (set (x # xs)) \<in> set (x # xs)" "Min (set (x # xs)) \<in> set (x # xs)"
    by (intro Max_in Min_in; simp)+
  ultimately have "fold max xs x < length eps" "fold min xs x < length eps"
    by (metis Max.set_eq_fold lessThan_iff subsetD, metis Min.set_eq_fold lessThan_iff subsetD)
  then show ?thesis using Cons by (auto simp: window_indices_def Let_def split: if_splits)
qed

lemma set_expand: "set (expand_sorted_records_with_window_neighbors items w n) \<subseteq> fst ` set items"
  using window_indices_bounds [of "nat n" _ _ "map snd items"]
  by (auto simp: expand_sorted_records_with_window_neighbors_def split: option.splits
      intro!: imageI nth_mem dest!: subsetD)

definition host_items :: "string \<Rightarrow> find_stats_record list \<Rightarrow> (find_stats_record \<times> int) list" where
  "host_items h recs = sort_key snd (map (\<lambda>r. (r, record_epoch r)) (filter (\<lambda>r. record_host r = h) recs))"

lemma sorted_map_nth:
  assumes "sorted idxs" "sorted xs" "set idxs \<subseteq> {..<length xs}"
  shows "sorted (map (\<lambda>i. xs ! i) idxs)"
  using assms by (induction idxs) (auto intro: sorted_nth_mono)

lemma sorted_expand:
  assumes "\<And>p. p \<in> set items \<Longrightarrow> snd p = record_epoch (fst p)" "sorted (map snd items)"
  shows "sorted (map record_epoch (expand_sorted_records_with_window_neighbors items w n))"
proof (cases "items = [] \<or> w = None")
  case False
  then obtain s e where w: "w = Some (s, e)" by auto
  let ?idxs = "sort (remdups (window_indices (nat n) s e (map snd items)))"
  have b: "set ?idxs \<subseteq> {..<length items}" using window_indices_bounds [of "nat n" s e "map snd items"] by simp
  have "record_epoch (fst (items ! i)) = map snd items ! i" if "i \<in> set ?idxs" for i
    using that b assms(1) [of "items ! i"] by (metis lessThan_iff nth_map nth_mem subsetD)
  then have "map record_epoch (expand_sorted_records_with_window_neighbors items w n) = map (\<lambda>i. map snd items ! i) ?idxs"
    using False w by (simp add: expand_sorted_records_with_window_neighbors_def)
  then show ?thesis using sorted_map_nth [of ?idxs "map snd items"] assms(2) b by simp
qed (auto simp: expand_sorted_records_with_window_neighbors_def)

lemma host_items_props:
  "p \<in> set (host_items h recs) \<Longrightarrow> snd p = record_epoch (fst p) \<and> record_host (fst p) = h"
  "sorted (map snd (host_items h recs))"
  by (auto simp: host_items_def)

lemma by_host_lookup:
  "(case map_of (fold (\<lambda>r. dict_append (record_host r) (r, record_epoch r)) recs []) h of
      None \<Rightarrow> [] | Some items \<Rightarrow> F (sort_key snd items)) = F (host_items h recs)"
  if "F [] = []" for F :: "_ \<Rightarrow> 'b list"
  using that by (simp add: fold_dict_append host_items_def Let_def)

lemma by_host_items:
  assumes "(k, items) \<in> set (fold (\<lambda>r. dict_append (record_host r) (r, record_epoch r)) recs [])"
  shows "sort_key snd items = host_items k recs"
proof -
  let ?d = "fold (\<lambda>r. dict_append (record_host r) (r, record_epoch r)) recs []"
  have "map_of ?d k = Some items" using assms dict_wf_fold_append [of "[]"] by (intro map_of_is_SomeI) auto
  then show ?thesis
    by (auto simp: fold_dict_append host_items_def Let_def split: if_splits)
qed

lemma host_window_part:
  assumes "h \<in> allowed_hosts hosts"
  shows "filter (\<lambda>r. record_host r = h) (filter_host_scoped_window_records records hosts w inodes n) =
     expand_sorted_records_with_window_neighbors
       (host_items h (filter (host_record_kept (allowed_hosts hosts) inodes) records)) w n"
proof -
  let ?recs = "filter (host_record_kept (allowed_hosts hosts) inodes) records"
  let ?d = "fold (\<lambda>r. dict_append (record_host r) (r, record_epoch r)) ?recs []"
  let ?tag = "map (\<lambda>r. (r, record_epoch r))"
  let ?ex = "\<lambda>items. expand_sorted_records_with_window_neighbors items w n"
  let ?P = "\<lambda>p. record_host (fst p) = h"
  have host: "record_host r = k" if "r \<in> set (?ex (host_items k ?recs))" for r k
    using that set_expand [of "host_items k ?recs" w n] host_items_props(1) by blast
  have "filter ?P (concat (map (\<lambda>(k, items). ?tag (?ex (sort_key snd items))) ?d)) =
      (case map_of ?d h of None \<Rightarrow> [] | Some items \<Rightarrow> filter ?P (?tag (?ex (sort_key snd items))))"
    using host by (intro concat_only dict_wf_fold_append) (auto simp: filter_empty_conv by_host_items)
  also have "\<dots> = filter ?P (?tag (?ex (host_items h ?recs)))"
    by (intro by_host_lookup) (simp add: expand_sorted_records_with_window_neighbors_def)
  also have "\<dots> = ?tag (?ex (host_items h ?recs))" using host by (intro filter_True) auto
  finally have sel: "filter ?P (concat (map (\<lambda>(k, items). ?tag (?ex (sort_key snd items))) ?d)) =
      ?tag (?ex (host_items h ?recs))" .
  have "sorted (map snd (?tag (?ex (host_items h ?recs))))"
    using sorted_expand [of "host_items h ?recs"] host_items_props by (simp add: o_def)
  then have "sort_key snd (?tag (?ex (host_items h ?recs))) = ?tag (?ex (host_items h ?recs))"
    by (rule sort_key_id_if_sorted)
  with sel have "map fst (filter ?P (sort_key snd (concat (map (\<lambda>(k, items). ?tag (?ex (sort_key snd items))) ?d)))) =
      ?ex (host_items h ?recs)"
    by (simp add: filter_sort o_def)
  then show ?thesis using assms
    by (auto simp: filter_host_scoped_window_records_def Let_def filter_map o_def)
qed

text \<open>One host's part of a job's scan is that host's own window, whatever other hosts have: of its closed
  files in order of their epochs, all those in the window, with \<open>n\<close> files before the first and \<open>n\<close>
  after the last of them (one on each side when no file is in the window).\<close>

theorem host_window_independent:
  assumes "h \<in> allowed_hosts hosts" "s \<le> e"
  shows "filter (\<lambda>r. record_host r = h) (filter_host_scoped_window_records records hosts (Some (s, e)) inodes n) =
     map fst (window_parts (host_items h (filter (host_record_kept (allowed_hosts hosts) inodes) records)) s e (nat n))"
  using host_window_part [OF assms(1)] expand_window_parts [OF host_items_props(2) assms(2)] by simp


text \<open>Three files of one host and one of another; the window holds the second.\<close>

definition demo_records :: "find_stats_record list" where
  "demo_records =
     [\<lparr>fr_path = ''/a/h.x/300'', fr_mtime = 300, fr_size = 1, fr_inode = 1\<rparr>,
      \<lparr>fr_path = ''/a/h.x/100'', fr_mtime = 100, fr_size = 1, fr_inode = 2\<rparr>,
      \<lparr>fr_path = ''/a/g.x/250'', fr_mtime = 250, fr_size = 1, fr_inode = 3\<rparr>,
      \<lparr>fr_path = ''/a/h.x/200'', fr_mtime = 200, fr_size = 1, fr_inode = 4\<rparr>]"

theorem host_window_independent_witness:
  "map fr_path (filter (\<lambda>r. record_host r = ''h.x'')
      (filter_host_scoped_window_records demo_records ['' h.x'', ''g.x''] (Some (150, 240)) [] 1)) =
   [''/a/h.x/100'', ''/a/h.x/200'', ''/a/h.x/300'']"
proof -
  have "''h.x'' \<in> allowed_hosts ['' h.x'', ''g.x'']" by code_simp
  note h = host_window_independent [OF this, of 150 240 demo_records "[]" 1]
  have "map fr_path (map fst (window_parts (host_items ''h.x''
      (filter (host_record_kept (allowed_hosts ['' h.x'', ''g.x'']) []) demo_records)) 150 240 (nat 1))) =
    [''/a/h.x/100'', ''/a/h.x/200'', ''/a/h.x/300'']"
    by code_simp
  with h show ?thesis by simp
qed

subsection \<open>Ranges\<close>

text \<open>A record the range scan may take: a closed raw file of a matching host.\<close>

definition closed_raw_record :: "string \<Rightarrow> (string, int) dict \<Rightarrow> find_stats_record \<Rightarrow> bool" where
  "closed_raw_record suffix current_inodes r \<longleftrightarrow>
     \<not> host_dir_is_internal_for_stats_discovery (py_dirname (fr_path r)) \<and> ends_with suffix (record_host r) \<and>
     \<not> starts_with ''.'' (py_basename (fr_path r)) \<and> \<not> starts_with ''current'' (py_basename (fr_path r)) \<and>
     \<not> is_lock_name (py_basename (fr_path r)) \<and> map_of current_inodes (py_dirname (fr_path r)) \<noteq> Some (fr_inode r)"

definition record_in_range :: "(int \<Rightarrow> rat) \<Rightarrow> rat \<Rightarrow> rat \<Rightarrow> find_stats_record \<Rightarrow> bool" where
  "record_in_range loc d e r \<longleftrightarrow>
     (let inside = (\<lambda>t. d - 86400 < loc t \<and> loc t \<le> e) in
      inside (py_trunc (fr_mtime r)) \<or>
      (case py_int (py_basename (fr_path r)) of None \<Rightarrow> False | Some t \<Rightarrow> inside t))"

lemma select_record_range:
  assumes "\<And>t. ft t = Inr (loc t)" "86400 \<le> d"
  shows "select_record ft suffix (StartAt d) e inodes r =
     Inr (if closed_raw_record suffix inodes r \<and> record_in_range loc d e r then Some (record_epoch r) else None)"
  using assms
  by (auto simp: select_record_def closed_raw_record_def record_in_range_def record_epoch_def
      record_host_def name_epoch_def in_range_def Let_def not_le split: option.splits bool.splits)

lemma select_records_Inr:
  assumes "\<And>r. r \<in> set recs \<Longrightarrow> sel r = Inr (if P r then Some (key r) else None)"
  shows "select_records sel recs = Inr (map (\<lambda>r. (r, key r)) (filter P recs))"
  using assms by (induction recs) auto

text \<open>A scan of a date range keeps exactly the closed raw files of the matching hosts whose
  modification time or whose name lies after the day before \<open>startdate\<close> and not after \<open>enddate\<close>, in stable
  order of their epochs, or in the reverse of it.\<close>

theorem range_scan_exact:
  assumes "\<And>t. fromtimestamp t = Inr (loc t)" "86400 \<le> startdate" "py_strip ext \<noteq> []"
  shows "filter_and_sort_find_records fromtimestamp records ext (StartAt startdate) enddate inodes newest_first =
     Inr ((if newest_first then rev else id)
       (sort_key record_epoch
         (filter (\<lambda>r. closed_raw_record (py_strip ext) inodes r \<and> record_in_range loc startdate enddate r) records)))"
proof -
  have "select_records (select_record fromtimestamp (py_strip ext) (StartAt startdate) enddate inodes) records =
      Inr (map (\<lambda>r. (r, record_epoch r))
        (filter (\<lambda>r. closed_raw_record (py_strip ext) inodes r \<and> record_in_range loc startdate enddate r) records))"
    by (intro select_records_Inr select_record_range assms(1,2))
  then show ?thesis using assms(3)
    by (simp add: filter_and_sort_find_records_def map_sort_tagged rev_map [symmetric] o_def)
qed

theorem range_scan_exact_witness:
  "\<exists>rs. filter_and_sort_find_records (\<lambda>t. Inr (of_int t + 1000000)) demo_records ''.x'' (StartAt 1086500) 1000250 [] False = Inr rs \<and>
     map fr_path rs = [''/a/h.x/200'', ''/a/g.x/250'']"
proof -
  have "map fr_path (sort_key record_epoch (filter (\<lambda>r. closed_raw_record (py_strip ''.x'') [] r \<and>
      record_in_range (\<lambda>t. of_int t + 1000000) 1086500 1000250 r) demo_records)) = [''/a/h.x/200'', ''/a/g.x/250'']"
    by code_simp
  moreover have "py_strip ''.x'' \<noteq> []" by code_simp
  ultimately show ?thesis
    using range_scan_exact [of "\<lambda>t. Inr (of_int t + 1000000)" "\<lambda>t. of_int t + 1000000" 1086500 "''.x''" demo_records 1000250 "[]" False]
    by simp
qed

text \<open>A raw file whose name is a number that \<open>datetime.fromtimestamp\<close> rejects with an
  \<open>OverflowError\<close> stops the whole scan with that error: only \<open>TypeError\<close> and \<open>ValueError\<close> fall back
  to the modification time.\<close>

theorem huge_name_stops_scan:
  assumes "closed_raw_record (py_strip ext) inodes r" "py_strip ext \<noteq> []"
    "fromtimestamp (py_trunc (fr_mtime r)) = Inr t"
    "py_int (py_basename (fr_path r)) = Some e" "fromtimestamp e = Inl OverflowError"
  shows "filter_and_sort_find_records fromtimestamp (r # records) ext startdate enddate inodes newest_first = Inl OverflowError"
  using assms
  by (auto simp: filter_and_sort_find_records_def select_record_def closed_raw_record_def
      record_host_def name_epoch_def Let_def)

theorem huge_name_stops_scan_witness:
  "filter_and_sort_find_records (\<lambda>t. if t < 10 ^ 18 then Inr (of_int t) else Inl OverflowError)
     [\<lparr>fr_path = ''/a/h.x/99999999999999999999'', fr_mtime = 300, fr_size = 1, fr_inode = 1\<rparr>] ''.x'' (StartWord ''all'') 0 [] False
   = Inl OverflowError"
proof -
  let ?r = "\<lparr>fr_path = ''/a/h.x/99999999999999999999'', fr_mtime = 300, fr_size = 1, fr_inode = 1\<rparr> :: find_stats_record"
  have "py_basename (fr_path ?r) = show_int 99999999999999999999"
    by (simp add: py_basename_def show_int_def show_nat.simps digit_char_def char_of_def bit_simps)
  then have "py_int (py_basename (fr_path ?r)) = Some 99999999999999999999" by simp
  moreover have "closed_raw_record (py_strip ''.x'') [] ?r" "py_strip ''.x'' \<noteq> []" "py_trunc (fr_mtime ?r) = 300"
    by code_simp+
  ultimately show ?thesis
    by (intro huge_name_stops_scan [where t = 300 and e = 99999999999999999999]) simp_all
qed

subsection \<open>Caches\<close>

lemma fold_update_last:
  "map_of (fold (\<lambda>r. AList.update (key r) (val r)) rs d) k =
     (case filter (\<lambda>r. key r = k) rs of [] \<Rightarrow> map_of d k | xs \<Rightarrow> Some (val (last xs)))"
  by (induction rs arbitrary: d) (auto simp: AList.update_conv' split: list.splits)

lemma host_agg_lookup:
  "map_of (fold (\<lambda>(h, recs). AList.update h (f recs)) d []) k = map_option f (map_of d k)" if "dict_wf d"
proof -
  have "fold (\<lambda>(h, recs). AList.update h (f recs)) d [] = dict_of (map (\<lambda>(h, recs). (h, f recs)) d)"
    by (simp add: dict_of_def fold_map o_def case_prod_beta')
  also have "\<dots> = map (\<lambda>(h, recs). (h, f recs)) d"
    using that by (intro dict_of_wf) (simp add: o_def case_prod_beta')
  finally show ?thesis by (simp add: map_of_map)
qed

lemma host_fingerprint_max:
  "rs \<noteq> [] \<Longrightarrow> host_fingerprint rs = (Max ((\<lambda>r. py_trunc (fr_mtime r)) ` set rs), int (length rs))"
  by (cases rs) (simp_all add: host_fingerprint_def flip: Max.set_eq_fold)

text \<open>After a refresh the caches hold, whatever they held before, the time and size of the last
  record of each normalized path, and for each directory the greatest time and the number of its
  records.\<close>

theorem fingerprint_caches_exact:
  "lookup_path_fingerprint (update_fingerprint_caches_from_records recs c) p =
     (case filter (\<lambda>r. py_normpath (fr_path r) = py_normpath p) recs of
        [] \<Rightarrow> None | rs \<Rightarrow> Some (py_trunc (fr_mtime (last rs)), fr_size (last rs))) \<and>
   lookup_host_dir_fingerprint (update_fingerprint_caches_from_records recs c) d =
     (let rs = filter (\<lambda>r. py_dirname (py_normpath (fr_path r)) = py_normpath d) recs in
      if rs = [] then None else Some (Max ((\<lambda>r. py_trunc (fr_mtime r)) ` set rs), int (length rs)))"
  by (simp add: lookup_path_fingerprint_def lookup_host_dir_fingerprint_def update_fingerprint_caches_from_records_def
      fold_update_last host_agg_lookup dict_wf_fold_append fold_dict_append host_fingerprint_max Let_def split: list.split)

end
