(* ===== verification/Append_Days.thy ===== *)
theory Append_Days
  imports Job_Store Stats_Find
begin

text \<open>
  \<open>dbload/lib/sync_timedb_append_day_lists.py\<close>: the append claims of the coordinator, parked by calendar
  day (\<open>AppendDayClaimLists\<close>), and the number of ingest and append jobs each day still has
  (\<open>_DAY_INGEST_LEFT\<close>, \<open>_DAY_APPEND_LEFT\<close>), with the day of a job from
  \<open>_derive_stats_path_date\<close> of \<open>sync_timedb_archive_helpers.py\<close>. A method under \<open>_lock\<close> is one step.
  \<open>os.path.getsize\<close> and \<open>os.path.getmtime\<close> (\<open>None\<close>: \<open>OSError\<close>) and the local date of a timestamp
  (\<open>None\<close>: an error that is caught) are arguments.
  Lemmas: each day is a first-in first-out queue that no operation on another day touches and no
  claim is lost or doubled; the size cache holds parked files only; rebuilding the remainders counts
  exactly the jobs that are queued or in flight.
\<close>

section \<open>Parked claims\<close>

record append_lists =
  al_days :: "(string, claimed_job list) dict"
  al_sizes :: "(string, int) dict"

definition al_init :: append_lists where
  "al_init = \<lparr>al_days = [], al_sizes = []\<rparr>"

definition al_add :: "string \<Rightarrow> claimed_job \<Rightarrow> append_lists \<Rightarrow> append_lists" where
  "al_add day claim l =
     (if day = [] then l
      else let bucket = (case map_of (al_days l) day of None \<Rightarrow> [] | Some b \<Rightarrow> b)
           in l\<lparr>al_days := AList.update day (bucket @ [claim]) (al_days l)\<rparr>)"

fun pop_loop :: "nat \<Rightarrow> claimed_job list \<Rightarrow> (string, int) dict \<Rightarrow> claimed_job list \<times> claimed_job list \<times> (string, int) dict" where
  "pop_loop (Suc n) (claim # bucket) sizes =
     (case pop_loop n bucket (AList.delete (cj_identity claim) sizes) of
        (out, bucket1, sizes1) \<Rightarrow> (claim # out, bucket1, sizes1))"
| "pop_loop _ bucket sizes = ([], bucket, sizes)"

definition pop_batch :: "string \<Rightarrow> int \<Rightarrow> append_lists \<Rightarrow> claimed_job list \<times> append_lists" where
  "pop_batch day n l =
     (if day = [] \<or> n \<le> 0 then ([], l)
      else case map_of (al_days l) day of
          None \<Rightarrow> ([], l)
        | Some bucket \<Rightarrow>
            (case pop_loop (nat n) bucket (al_sizes l) of
               (out, bucket1, sizes1) \<Rightarrow>
                 (out, l\<lparr>al_days := (if bucket1 = [] then AList.delete day (al_days l)
                                     else AList.update day bucket1 (al_days l)),
                         al_sizes := sizes1\<rparr>)))"

definition peek_len :: "string \<Rightarrow> append_lists \<Rightarrow> nat" where
  "peek_len day l = (case map_of (al_days l) day of None \<Rightarrow> 0 | Some bucket \<Rightarrow> length bucket)"

definition peek_batch :: "string \<Rightarrow> int \<Rightarrow> append_lists \<Rightarrow> claimed_job list" where
  "peek_batch day n l = (case map_of (al_days l) day of None \<Rightarrow> [] | Some bucket \<Rightarrow> take (nat n) bucket)"

definition batch_bytes :: "(string \<Rightarrow> int option) \<Rightarrow> string \<Rightarrow> int \<Rightarrow> append_lists \<Rightarrow> int \<times> append_lists" where
  "batch_bytes getsize day n l =
     (let idents = map cj_identity (peek_batch day n l);
          known = filter (\<lambda>i. i \<in> dict_keys (al_sizes l)) (remdups idents);
          read = filter (\<lambda>(i, sz). sz \<noteq> None)
            (map (\<lambda>i. (i, getsize i)) (filter (\<lambda>i. i \<notin> set known) (remdups idents)));
          sizes1 = fold (\<lambda>(i, sz). AList.update i (the sz)) read (al_sizes l)
      in (sum_list (map (\<lambda>i. case map_of sizes1 i of None \<Rightarrow> 0 | Some sz \<Rightarrow> sz) idents),
          l\<lparr>al_sizes := sizes1\<rparr>))"

definition peek_first :: "string \<Rightarrow> append_lists \<Rightarrow> claimed_job option" where
  "peek_first day l =
     (case map_of (al_days l) day of None \<Rightarrow> None | Some [] \<Rightarrow> None | Some (claim # _) \<Rightarrow> Some claim)"

definition day_keys :: "append_lists \<Rightarrow> string list" where
  "day_keys l = map fst (al_days l)"

definition claim_identities :: "append_lists \<Rightarrow> string list" where
  "claim_identities l =
     filter (\<lambda>i. i \<noteq> []) (map cj_identity (concat (map snd (al_days l))))"

definition al_clear :: "append_lists \<Rightarrow> append_lists" where
  "al_clear l = l\<lparr>al_days := [], al_sizes := []\<rparr>"

section \<open>Remainders\<close>

record remainders =
  rm_append :: "(string, int) dict"
  rm_ingest :: "(string, int) dict"

definition rm_empty :: remainders where
  "rm_empty = \<lparr>rm_append = [], rm_ingest = []\<rparr>"

definition moved :: "string \<Rightarrow> int \<Rightarrow> (string, int) dict \<Rightarrow> (string, int) dict" where
  "moved key delta bucket =
     (let cur = (case map_of bucket key of None \<Rightarrow> 0 | Some n \<Rightarrow> n) + delta
      in if cur \<le> 0 then AList.delete key bucket else AList.update key cur bucket)"

definition note_day_remainder :: "string \<Rightarrow> string \<Rightarrow> int \<Rightarrow> remainders \<Rightarrow> remainders" where
  "note_day_remainder kind day delta r =
     (if day = [] \<or> kind \<notin> set [''ingest'', ''append''] \<or> delta = 0 then r
      else if kind = ''append'' then r\<lparr>rm_append := moved day delta (rm_append r)\<rparr>
      else r\<lparr>rm_ingest := moved day delta (rm_ingest r)\<rparr>)"

definition day_remainder :: "string \<Rightarrow> string \<Rightarrow> remainders \<Rightarrow> int" where
  "day_remainder kind day r =
     (if day = [] \<or> kind \<notin> set [''ingest'', ''append''] then 0
      else (case map_of (if kind = ''append'' then rm_append r else rm_ingest r) day of
          None \<Rightarrow> 0 | Some n \<Rightarrow> n))"

text \<open>The day of a raw file: of the epoch in its name, else of its modification time.\<close>

record day_env =
  de_local_date :: "rat \<Rightarrow> date option"
  de_getmtime :: "string \<Rightarrow> int option"

definition derive_stats_path_date :: "day_env \<Rightarrow> string \<Rightarrow> rat option \<Rightarrow> date option" where
  "derive_stats_path_date env stats_path first_ts =
     (case Option.bind first_ts (de_local_date env) of
        Some d \<Rightarrow> Some d
      | None \<Rightarrow>
          (case Option.bind (py_int (py_basename stats_path)) (\<lambda>e. de_local_date env (of_int e)) of
             Some d \<Rightarrow> Some d
           | None \<Rightarrow> Option.bind (de_getmtime env stats_path) (\<lambda>t. de_local_date env (of_int t))))"

text \<open>\<open>text.rsplit("|", 2)[0]\<close>: what stands before the last two bars.\<close>

fun join_bars :: "string list \<Rightarrow> string" where
  "join_bars [] = []"
| "join_bars [p] = p"
| "join_bars (p # ps) = p @ ''|'' @ join_bars ps"

definition rsplit_bars :: "string \<Rightarrow> string" where
  "rsplit_bars t = (let ps = py_split CHR ''|'' t in join_bars (take (max 1 (length ps - 2)) ps))"

definition remainder_day_for_identity :: "day_env \<Rightarrow> string \<Rightarrow> string option" where
  "remainder_day_for_identity env identity =
     (let path = (if CHR ''|'' \<in> set identity then rsplit_bars identity else identity) in
      if path = [] then None else map_option isoformat (derive_stats_path_date env path None))"

definition count_seen :: "day_env \<Rightarrow> string \<Rightarrow> string list \<Rightarrow> int \<times> remainders \<Rightarrow> int \<times> remainders" where
  "count_seen env kind seen nr =
     fold (\<lambda>ident (n, r). case remainder_day_for_identity env ident of
         None \<Rightarrow> (n, r)
       | Some day \<Rightarrow> if day \<noteq> [] then (n + 1, note_day_remainder kind day 1 r) else (n, r)) seen nr"

definition active_jobs :: "string \<Rightarrow> job_store \<Rightarrow> string list" where
  "active_jobs kind s =
     remdups ((if kind = JOB_KIND_INGEST then ingest_identities s else list_slice kind 0 (-1) s) @
       map fst (js_inflight s kind))"

definition rebuild_day_remainders_from_job_store ::
    "day_env \<Rightarrow> job_store option \<Rightarrow> remainders \<Rightarrow> (int \<times> int) \<times> remainders" where
  "rebuild_day_remainders_from_job_store env job_store_opt r =
     (case job_store_opt of
        None \<Rightarrow> ((0, 0), rm_empty)
      | Some s \<Rightarrow>
          (case count_seen env ''ingest'' (active_jobs ''ingest'' s) (0, rm_empty) of
             (ingest, r1) \<Rightarrow>
               (case count_seen env ''append'' (active_jobs ''append'' s) (0, r1) of
                  (append_n, r2) \<Rightarrow> ((ingest, append_n), r2))))"

section \<open>Lemmas\<close>

subsection \<open>Parked claims\<close>

definition parked :: "append_lists \<Rightarrow> string \<Rightarrow> claimed_job list" where
  "parked l day = (case map_of (al_days l) day of None \<Rightarrow> [] | Some b \<Rightarrow> b)"

text \<open>No day is empty or keyed twice, and the size cache holds parked files only.\<close>

definition al_inv :: "append_lists \<Rightarrow> bool" where
  "al_inv l \<longleftrightarrow> dict_wf (al_days l) \<and> (\<forall>d b. map_of (al_days l) d = Some b \<longrightarrow> b \<noteq> [] \<and> d \<noteq> []) \<and>
     (\<forall>i \<in> dict_keys (al_sizes l). \<exists>d. i \<in> cj_identity ` set (parked l d))"

lemma pop_loop_eq:
  "pop_loop n bucket sizes =
     (take n bucket, drop n bucket, fold (\<lambda>c. AList.delete (cj_identity c)) (take n bucket) sizes)"
  by (induction n bucket sizes rule: pop_loop.induct) auto

lemma keys_fold_delete: "dict_keys (fold (\<lambda>c. AList.delete (f c)) cs d) = dict_keys d - f ` set cs"
  by (induction cs arbitrary: d) auto

text \<open>The uses of the lists in order, with the batches that are popped.\<close>

datatype al_op = OpAdd string claimed_job | OpPop string int | OpBytes "string \<Rightarrow> int option" string int

fun al_step :: "al_op \<Rightarrow> append_lists \<Rightarrow> (string \<times> claimed_job list) list \<times> append_lists" where
  "al_step (OpAdd day claim) l = ([], al_add day claim l)"
| "al_step (OpPop day n) l = (case pop_batch day n l of (out, l1) \<Rightarrow> ([(day, out)], l1))"
| "al_step (OpBytes getsize day n) l = ([], snd (batch_bytes getsize day n l))"

fun al_run :: "al_op list \<Rightarrow> append_lists \<Rightarrow> (string \<times> claimed_job list) list \<times> append_lists" where
  "al_run [] l = ([], l)"
| "al_run (op # ops) l =
     (case al_step op l of (outs, l1) \<Rightarrow> (case al_run ops l1 of (outs1, l2) \<Rightarrow> (outs @ outs1, l2)))"

definition popped_of :: "string \<Rightarrow> (string \<times> claimed_job list) list \<Rightarrow> claimed_job list" where
  "popped_of day outs = concat (map snd (filter (\<lambda>p. fst p = day) outs))"

fun added_to :: "string \<Rightarrow> al_op list \<Rightarrow> claimed_job list" where
  "added_to day (OpAdd d c # ops) = (if d = day \<and> day \<noteq> [] then c # added_to day ops else added_to day ops)"
| "added_to day (_ # ops) = added_to day ops"
| "added_to day [] = []"

lemma parked_add: "parked (al_add day c l) d = (if d = day \<and> day \<noteq> [] then parked l d @ [c] else parked l d)"
  by (simp add: parked_def al_add_def dict_simps)

lemma pop_batch_eq:
  assumes "dict_wf (al_days l)"
  shows "day \<noteq> [] \<Longrightarrow> fst (pop_batch day n l) = take (nat n) (parked l day)"
    "parked (snd (pop_batch day n l)) d = (if d = day \<and> day \<noteq> [] then drop (nat n) (parked l d) else parked l d)"
  by (auto simp: pop_batch_def parked_def pop_loop_eq dict_simps split: option.splits)

lemma parked_bytes: "parked (snd (batch_bytes getsize day n l)) d = parked l d"
  by (simp add: batch_bytes_def parked_def Let_def)

lemma al_inv_add: "al_inv l \<Longrightarrow> al_inv (al_add day c l)"
  unfolding al_inv_def
proof (intro conjI ballI)
  assume l: "dict_wf (al_days l) \<and> (\<forall>d b. map_of (al_days l) d = Some b \<longrightarrow> b \<noteq> [] \<and> d \<noteq> []) \<and>
     (\<forall>i \<in> dict_keys (al_sizes l). \<exists>d. i \<in> cj_identity ` set (parked l d))"
  then show "dict_wf (al_days (al_add day c l))" by (simp add: al_add_def dict_wf_update)
  from l have "\<forall>d b. map_of (al_days l) d = Some b \<longrightarrow> b \<noteq> [] \<and> d \<noteq> []" by blast
  then show "\<forall>d b. map_of (al_days (al_add day c l)) d = Some b \<longrightarrow> b \<noteq> [] \<and> d \<noteq> []"
    by (auto simp: al_add_def dict_simps)
  fix i assume "i \<in> dict_keys (al_sizes (al_add day c l))"
  then have "i \<in> dict_keys (al_sizes l)" by (simp add: al_add_def split: if_splits)
  with l obtain d where "i \<in> cj_identity ` set (parked l d)" by blast
  then show "\<exists>d. i \<in> cj_identity ` set (parked (al_add day c l) d)" by (intro exI [of _ d]) (auto simp: parked_add)
qed

lemma al_inv_pop:
  assumes "al_inv l"
  shows "al_inv (snd (pop_batch day n l))"
proof -
  have wf: "dict_wf (al_days l)" and nonempty: "\<forall>d b. map_of (al_days l) d = Some b \<longrightarrow> b \<noteq> [] \<and> d \<noteq> []"
    and sizes: "\<forall>i \<in> dict_keys (al_sizes l). \<exists>d. i \<in> cj_identity ` set (parked l d)"
    using assms by (auto simp: al_inv_def)
  have "\<exists>d. i \<in> cj_identity ` set (parked (snd (pop_batch day n l)) d)"
    if i: "i \<in> dict_keys (al_sizes (snd (pop_batch day n l)))" for i
  proof -
    have 1: "i \<in> dict_keys (al_sizes l)" "day \<noteq> [] \<Longrightarrow> i \<notin> cj_identity ` set (take (nat n) (parked l day))"
      using i by (auto simp: pop_batch_def parked_def pop_loop_eq keys_fold_delete split: if_splits option.splits)
    then obtain d c where c: "c \<in> set (parked l d)" "i = cj_identity c" using sizes by blast
    have "c \<in> set (take (nat n) (parked l d)) \<or> c \<in> set (drop (nat n) (parked l d))"
      using c(1) by (metis Un_iff append_take_drop_id set_append)
    then show ?thesis using 1 c by (intro exI [of _ d]) (auto simp: pop_batch_eq(2) [OF wf])
  qed
  moreover have "dict_wf (al_days (snd (pop_batch day n l)))"
    using wf by (simp add: pop_batch_def dict_wf_update dict_wf_delete split: option.split prod.split)
  moreover have "\<forall>d b. map_of (al_days (snd (pop_batch day n l))) d = Some b \<longrightarrow> b \<noteq> [] \<and> d \<noteq> []"
    using nonempty by (auto simp: pop_batch_def dict_simps split: option.splits prod.splits if_splits)
  ultimately show ?thesis by (auto simp: al_inv_def)
qed

lemma keys_fold_update: "dict_keys (fold (\<lambda>(i, v). AList.update i (f v)) kvs d) = dict_keys d \<union> fst ` set kvs"
  by (induction kvs arbitrary: d) (auto simp del: image_iff simp: dict_keys_update case_prod_beta')

lemma al_inv_bytes:
  assumes "al_inv l"
  shows "al_inv (snd (batch_bytes getsize day n l))"
proof -
  have "set (peek_batch day n l) \<subseteq> set (parked l day)"
    by (cases "map_of (al_days l) day") (simp_all add: peek_batch_def parked_def set_take_subset)
  then have "dict_keys (al_sizes (snd (batch_bytes getsize day n l))) \<subseteq>
      dict_keys (al_sizes l) \<union> cj_identity ` set (parked l day)"
    by (simp add: batch_bytes_def Let_def keys_fold_update) auto
  moreover have "\<exists>d. i \<in> cj_identity ` set (parked l d)" if "i \<in> dict_keys (al_sizes l)" for i
    using assms that unfolding al_inv_def by blast
  ultimately have "\<forall>i \<in> dict_keys (al_sizes (snd (batch_bytes getsize day n l))). \<exists>d. i \<in> cj_identity ` set (parked l d)"
    by blast
  moreover have "al_days (snd (batch_bytes getsize day n l)) = al_days l" by (simp add: batch_bytes_def Let_def)
  ultimately show ?thesis using assms unfolding al_inv_def parked_bytes by metis
qed

lemma al_step_fifo:
  assumes "al_inv l"
  shows "popped_of d (fst (al_step op l)) @ parked (snd (al_step op l)) d = parked l d @ added_to d [op] \<and> al_inv (snd (al_step op l))"
proof (cases op)
  case (OpPop day n)
  have wf: "dict_wf (al_days l)" using assms by (simp add: al_inv_def)
  have "fst (pop_batch [] n l) = []" by (simp add: pop_batch_def)
  then have "popped_of d [(day, fst (pop_batch day n l))] @ parked (snd (pop_batch day n l)) d = parked l d"
    using pop_batch_eq [OF wf, of day n] by (cases "day = []") (auto simp: popped_of_def)
  then show ?thesis using OpPop al_inv_pop [OF assms, of day n] by (simp add: case_prod_beta')
qed (use assms in \<open>simp_all add: popped_of_def parked_add parked_bytes al_inv_add al_inv_bytes\<close>)

lemma popped_append: "popped_of d (xs @ ys) = popped_of d xs @ popped_of d ys"
  by (simp add: popped_of_def)

lemma added_Cons: "added_to d (op # ops) = added_to d [op] @ added_to d ops"
  by (cases op) auto

lemma al_run_fifo:
  assumes "al_inv l"
  shows "popped_of d (fst (al_run ops l)) @ parked (snd (al_run ops l)) d = parked l d @ added_to d ops \<and> al_inv (snd (al_run ops l))"
  using assms
proof (induction ops arbitrary: l)
  case (Cons op ops)
  let ?l1 = "snd (al_step op l)"
  from al_step_fifo [OF Cons.prems, of d op] Cons.IH [of ?l1]
  have 1: "popped_of d (fst (al_run ops ?l1)) @ parked (snd (al_run ops ?l1)) d = parked ?l1 d @ added_to d ops"
    and inv: "al_inv (snd (al_run ops ?l1))"
    and 2: "popped_of d (fst (al_step op l)) @ parked ?l1 d = parked l d @ added_to d [op]" by blast+
  have "popped_of d (fst (al_step op l)) @ popped_of d (fst (al_run ops ?l1)) @ parked (snd (al_run ops ?l1)) d =
      (popped_of d (fst (al_step op l)) @ parked ?l1 d) @ added_to d ops" by (simp only: 1 append.assoc)
  also have "\<dots> = parked l d @ added_to d (op # ops)" by (simp only: 2 append.assoc added_Cons [of d op ops])
  finally show ?case using inv by (simp add: case_prod_beta' popped_append del: added_to.simps)
qed (simp add: popped_of_def)

text \<open>However claims are parked, popped and measured, every day is a queue: what was popped of
  it, followed by what is still parked, is what was parked under it, in order, so no claim is lost,
  doubled or moved to another day. No day is left empty, and the size cache holds the sizes of parked
  files only.\<close>

theorem append_lists_fifo:
  "popped_of day (fst (al_run ops al_init)) @ parked (snd (al_run ops al_init)) day = added_to day ops \<and>
   al_inv (snd (al_run ops al_init))"
proof -
  have "al_inv al_init" "parked al_init day = []" by (simp_all add: al_init_def al_inv_def parked_def)
  then show ?thesis using al_run_fifo [of al_init day ops] by simp
qed

subsection \<open>Remainders\<close>

text \<open>The jobs of a kind that are queued or in flight, and what the remainders should say of them.\<close>

definition active_set :: "string \<Rightarrow> job_store \<Rightarrow> string set" where
  "active_set kind s =
     (if kind = JOB_KIND_INGEST then dict_keys (js_ingest s) else set (js_lists s kind)) \<union> dict_keys (js_inflight s kind)"

definition left_of :: "day_env \<Rightarrow> string set \<Rightarrow> string \<Rightarrow> nat" where
  "left_of env jobs day = card {i \<in> jobs. remainder_day_for_identity env i = Some day}"

definition rem_exact :: "day_env \<Rightarrow> job_store \<Rightarrow> remainders \<Rightarrow> bool" where
  "rem_exact env s r \<longleftrightarrow> (\<forall>day. map_of (rm_ingest r) day =
       (let n = left_of env (active_set JOB_KIND_INGEST s) day in if n = 0 then None else Some (int n))) \<and>
     (\<forall>day. map_of (rm_append r) day =
       (let n = left_of env (active_set JOB_KIND_APPEND s) day in if n = 0 then None else Some (int n)))"

lemma isoformat_nonempty [simp]: "isoformat d \<noteq> []"
  using length_isoformat [of d] by fastforce

lemma remainder_day_nonempty: "remainder_day_for_identity env i = Some day \<Longrightarrow> day \<noteq> []"
  by (auto simp: remainder_day_for_identity_def Let_def split: if_splits)

lemma list_slice_all [simp]: "list_slice kind 0 (-1) s = js_lists s kind"
  by (auto simp: list_slice_def Let_def nat_add_distrib)

lemma set_active_jobs: "set (active_jobs kind s) = active_set kind s"
  by (auto simp: active_jobs_def active_set_def ingest_identities_def)

definition tally :: "(string \<Rightarrow> nat) \<Rightarrow> (string, int) dict \<Rightarrow> bool" where
  "tally f d \<longleftrightarrow> (\<forall>day. map_of d day = (if f day = 0 then None else Some (int (f day))))"

lemma tally_up: "tally f d \<Longrightarrow> tally (f(day := Suc (f day))) (moved day 1 d)"
  by (auto simp: tally_def moved_def dict_simps)

lemma tally_down: "tally f d \<Longrightarrow> tally (f(day := f day - 1)) (moved day (- 1) d)"
  by (auto simp: tally_def moved_def dict_simps)

lemma left_of_insert:
  assumes "finite A" "i \<notin> A"
  shows "left_of env (insert i A) = (case remainder_day_for_identity env i of
      None \<Rightarrow> left_of env A | Some day \<Rightarrow> (left_of env A)(day := Suc (left_of env A day)))"
proof
  fix day
  have "{j \<in> insert i A. remainder_day_for_identity env j = Some day} =
      (if remainder_day_for_identity env i = Some day then insert i {j \<in> A. remainder_day_for_identity env j = Some day}
       else {j \<in> A. remainder_day_for_identity env j = Some day})" by auto
  then show "left_of env (insert i A) day = (case remainder_day_for_identity env i of
      None \<Rightarrow> left_of env A | Some day \<Rightarrow> (left_of env A)(day := Suc (left_of env A day))) day"
    using assms by (auto simp: left_of_def split: option.split)
qed

lemma left_of_remove:
  assumes "finite A" "i \<in> A"
  shows "left_of env (A - {i}) = (case remainder_day_for_identity env i of
      None \<Rightarrow> left_of env A | Some day \<Rightarrow> (left_of env A)(day := left_of env A day - 1))"
proof -
  have "left_of env A = left_of env (insert i (A - {i}))" using assms by (simp add: insert_absorb)
  also have "\<dots> = (case remainder_day_for_identity env i of None \<Rightarrow> left_of env (A - {i})
      | Some day \<Rightarrow> (left_of env (A - {i}))(day := Suc (left_of env (A - {i}) day)))"
    using assms by (intro left_of_insert) auto
  finally show ?thesis by (auto split: option.splits)
qed

lemma rem_exact_tally:
  "rem_exact env s r \<longleftrightarrow> tally (left_of env (active_set JOB_KIND_INGEST s)) (rm_ingest r) \<and>
     tally (left_of env (active_set JOB_KIND_APPEND s)) (rm_append r)"
  by (simp add: rem_exact_def tally_def Let_def)

text \<open>One job more or less, noted under its day.\<close>

definition note_job :: "day_env \<Rightarrow> string \<Rightarrow> string \<Rightarrow> int \<Rightarrow> remainders \<Rightarrow> remainders" where
  "note_job env kind i delta r =
     (case remainder_day_for_identity env i of None \<Rightarrow> r | Some day \<Rightarrow> note_day_remainder kind day delta r)"

lemma note_job_fields:
  assumes "delta \<noteq> 0"
  shows "rm_ingest (note_job env ''ingest'' i delta r) = (case remainder_day_for_identity env i of
      None \<Rightarrow> rm_ingest r | Some day \<Rightarrow> moved day delta (rm_ingest r))"
    "rm_append (note_job env ''ingest'' i delta r) = rm_append r"
    "rm_append (note_job env ''append'' i delta r) = (case remainder_day_for_identity env i of
      None \<Rightarrow> rm_append r | Some day \<Rightarrow> moved day delta (rm_append r))"
    "rm_ingest (note_job env ''append'' i delta r) = rm_ingest r"
  using assms remainder_day_nonempty by (auto simp: note_job_def note_day_remainder_def split: option.splits)

lemma tally_note_up:
  assumes "tally (left_of env A) d" "finite A" "i \<notin> A"
  shows "tally (left_of env (insert i A))
    (case remainder_day_for_identity env i of None \<Rightarrow> d | Some day \<Rightarrow> moved day 1 d)"
  using assms by (auto simp: left_of_insert tally_up split: option.split)

lemma tally_note_down:
  assumes "tally (left_of env A) d" "finite A" "i \<in> A"
  shows "tally (left_of env (A - {i}))
    (case remainder_day_for_identity env i of None \<Rightarrow> d | Some day \<Rightarrow> moved day (- 1) d)"
  using assms tally_down [OF assms(1)] by (simp add: left_of_remove split: option.split)

lemma count_seen_tally:
  assumes "distinct seen" "tally (left_of env A) (sel r)" "finite A" "A \<inter> set seen = {}"
    and sel: "\<And>i r. sel (note_job env kind i 1 r) =
      (case remainder_day_for_identity env i of None \<Rightarrow> sel r | Some day \<Rightarrow> moved day 1 (sel r))"
    and other: "\<And>i r. oth (note_job env kind i 1 r) = oth r"
  shows "tally (left_of env (A \<union> set seen)) (sel (snd (count_seen env kind seen (n, r)))) \<and>
    oth (snd (count_seen env kind seen (n, r))) = oth r \<and>
    fst (count_seen env kind seen (n, r)) = n + int (length (filter (\<lambda>i. remainder_day_for_identity env i \<noteq> None) seen))"
  using assms(1-4)
proof (induction seen arbitrary: A n r)
  case (Cons i seen)
  let ?d = "remainder_day_for_identity env i"
  have step: "count_seen env kind (i # seen) (n, r) =
      count_seen env kind seen (if ?d = None then n else n + 1, note_job env kind i 1 r)"
    using remainder_day_nonempty [of env i] by (cases ?d) (auto simp: count_seen_def note_job_def)
  have "tally (left_of env (insert i A)) (sel (note_job env kind i 1 r))"
    unfolding sel using Cons.prems by (intro tally_note_up) auto
  from Cons.IH [OF _ this, of "if ?d = None then n else n + 1"] Cons.prems show ?case
    unfolding step by (auto simp: other insert_commute)
qed (simp add: count_seen_def)

lemma length_filter_card: "distinct xs \<Longrightarrow> length (filter P xs) = card {x \<in> set xs. P x}"
  by (metis distinct_card distinct_filter set_filter)

text \<open>Rebuilding the remainders from the job store leaves, for ingest and for append and for every day,
  exactly the number of distinct jobs that are queued or in flight and belong to the day, whatever the
  remainders said before, and reports how many jobs of each kind have a day.\<close>

theorem rebuild_remainders_exact:
  "rem_exact env s (snd (rebuild_day_remainders_from_job_store env (Some s) r)) \<and>
   fst (rebuild_day_remainders_from_job_store env (Some s) r) =
     (int (card {i \<in> active_set JOB_KIND_INGEST s. remainder_day_for_identity env i \<noteq> None}),
      int (card {i \<in> active_set JOB_KIND_APPEND s. remainder_day_for_identity env i \<noteq> None}))"
  proof -
  define ci where "ci = count_seen env ''ingest'' (active_jobs ''ingest'' s) (0, rm_empty)"
  define ca where "ca = count_seen env ''append'' (active_jobs ''append'' s) (0, snd ci)"
  have 0: "tally (left_of env {}) []" by (simp add: tally_def left_of_def)
  have kinds: "''ingest'' = JOB_KIND_INGEST" "''append'' = JOB_KIND_APPEND" by (simp_all add: kind_name_defs)
  have d: "distinct (active_jobs kind s)" for kind by (simp add: active_jobs_def)
  have i: "tally (left_of env (active_set ''ingest'' s)) (rm_ingest (snd ci)) \<and> rm_append (snd ci) = rm_append rm_empty \<and>
      fst ci = int (card {i \<in> active_set ''ingest'' s. remainder_day_for_identity env i \<noteq> None})"
    using count_seen_tally [where A = "{}" and sel = rm_ingest and oth = rm_append and kind = "''ingest''" and
        r = rm_empty and seen = "active_jobs ''ingest'' s" and n = 0 and env = env, OF d] 0
    by (simp add: note_job_fields rm_empty_def set_active_jobs length_filter_card d ci_def split: option.split)
  have a: "tally (left_of env (active_set ''append'' s)) (rm_append (snd ca)) \<and> rm_ingest (snd ca) = rm_ingest (snd ci) \<and>
      fst ca = int (card {i \<in> active_set ''append'' s. remainder_day_for_identity env i \<noteq> None})"
    using count_seen_tally [where A = "{}" and sel = rm_append and oth = rm_ingest and kind = "''append''" and
        r = "snd ci" and seen = "active_jobs ''append'' s" and n = 0 and env = env, OF d] 0 i
    by (simp add: note_job_fields rm_empty_def set_active_jobs length_filter_card d ca_def split: option.split)
  have "rebuild_day_remainders_from_job_store env (Some s) r = ((fst ci, fst ca), snd ca)"
    by (simp add: rebuild_day_remainders_from_job_store_def ci_def ca_def case_prod_beta')
  then show ?thesis using i a by (simp add: rem_exact_tally kinds)
qed

end
