(* ===== verification/Dead_Letter.thy ===== *)
theory Dead_Letter
  imports Persistence
begin

text \<open>
  The dead letters of \<open>dbload/lib/sync_timedb_job_store.py\<close>: jobs that exhausted their retries, with
  a cooldown per give-up and a terminal state after the last one. The sidecar is its list of
  entries; an entry is a record whose fields are \<open>None\<close> where the JSON object has no such key or a
  null, which the code reads alike (a \<open>cycle\<close> that is present and null is never written; that the
  list survives the file is \<open>Persistence\<close>). \<open>x or y\<close> takes \<open>y\<close> for a zero as
  well as for a missing value. The index cache keeps the modification time it was built for. The
  clock, the cooldown schedules of the INI file and whether the file can be written are arguments.
\<close>

section \<open>State\<close>

record dl_entry =
  dl_kind :: "string option"
  dl_identity :: "string option"
  dl_attempt :: "int option"
  dl_reason :: "string option"
  dl_recorded_at :: "rat option"
  dl_first_recorded_at :: "rat option"
  dl_cycle :: "int option"
  dl_env :: bool
  dl_terminal :: bool
  dl_readmit_at :: "rat option"
  dl_readmitted_at :: "rat option"

type_synonym dl_key = "string \<times> string"

record dl_cfg =
  get_sync_dead_letter_readmit_backoff_s :: "rat list"
  get_sync_dead_letter_env_backoff_s :: "rat list"

text \<open>The sidecar (\<open>None\<close> when there is no file), its modification time, and the cached index.\<close>

record dl_state =
  ds_entries :: "dl_entry list option"
  ds_mtime :: int
  ds_cache :: "(int \<times> (dl_key, dl_entry) dict) option"

definition QUEUE_DEAD_LETTER_KIND :: string where
  "QUEUE_DEAD_LETTER_KIND = ''queue_dead_letter''"

definition NON_FATAL_DEAD_LETTER_REASONS :: "string list" where
  "NON_FATAL_DEAD_LETTER_REASONS = [''skip_cgroup_headroom'', ''skip_budget_bytes'',
     ''skip_file_cache_pressure'', ''skip_fp'', ''fp_refresh'']"

definition num_or :: "rat option \<Rightarrow> rat \<Rightarrow> rat" where
  "num_or x y = (case x of None \<Rightarrow> y | Some r \<Rightarrow> if r = 0 then y else r)"

definition opt_or :: "rat option \<Rightarrow> rat option \<Rightarrow> rat option" where
  "opt_or x y = (case x of None \<Rightarrow> y | Some r \<Rightarrow> if r = 0 then y else Some r)"

definition text_or_empty :: "string option \<Rightarrow> string" where
  "text_or_empty x = (case x of None \<Rightarrow> [] | Some t \<Rightarrow> t)"

text \<open>\<open>xs[i]\<close>: a negative index counts from the end.\<close>

definition py_index :: "'a list \<Rightarrow> int \<Rightarrow> py_error + 'a" where
  "py_index xs i =
     (let j = (if i < 0 then int (length xs) + i else i) in
      if 0 \<le> j \<and> j < int (length xs) then Inr (xs ! nat j) else Inl IndexError)"

section \<open>Operations\<close>

definition queue_dead_letter_path :: "string \<Rightarrow> py_error + string" where
  "queue_dead_letter_path archive_data_dir = artifact_path archive_data_dir QUEUE_DEAD_LETTER_KIND"

definition dead_letter_schedule :: "dl_cfg \<Rightarrow> bool \<Rightarrow> rat list" where
  "dead_letter_schedule cfg env =
     (if env then get_sync_dead_letter_env_backoff_s cfg else get_sync_dead_letter_readmit_backoff_s cfg)"

definition env_reason :: "string \<Rightarrow> bool" where
  "env_reason reason = prefix ''env:'' reason"

definition normalize_dead_letter_entry :: "dl_cfg \<Rightarrow> dl_entry \<Rightarrow> py_error + dl_entry" where
  "normalize_dead_letter_entry cfg e =
     (if dl_cycle e \<noteq> None then Inr e
      else
        let recorded = num_or (dl_recorded_at e) 0;
            reason = text_or_empty (dl_reason e);
            e1 = e\<lparr>dl_cycle := Some 1, dl_terminal := False, dl_env := env_reason reason\<rparr>
        in if reason \<in> set NON_FATAL_DEAD_LETTER_REASONS then Inr (e1\<lparr>dl_readmit_at := Some recorded\<rparr>)
           else (case py_index (dead_letter_schedule cfg (dl_env e1)) 0 of
               Inl x \<Rightarrow> Inl x
             | Inr b \<Rightarrow> Inr (e1\<lparr>dl_readmit_at := Some (recorded + b)\<rparr>)))"

definition load_dead_letter_entries :: "dl_cfg \<Rightarrow> dl_state \<Rightarrow> py_error + dl_entry list" where
  "load_dead_letter_entries cfg st =
     sum_map (normalize_dead_letter_entry cfg) (case ds_entries st of None \<Rightarrow> [] | Some es \<Rightarrow> es)"

definition entry_key :: "dl_entry \<Rightarrow> dl_key" where
  "entry_key e = (text_or_empty (dl_kind e), text_or_empty (dl_identity e))"

definition is_entry_of :: "dl_key \<Rightarrow> dl_entry \<Rightarrow> bool" where
  "is_entry_of key e \<longleftrightarrow> dl_kind e = Some (fst key) \<and> dl_identity e = Some (snd key)"

definition dead_letter_index :: "dl_cfg \<Rightarrow> dl_state \<Rightarrow> py_error + (dl_key, dl_entry) dict \<times> dl_state" where
  "dead_letter_index cfg st =
     (if ds_entries st = None then Inr ([], st)
      else if (case ds_cache st of None \<Rightarrow> False | Some c \<Rightarrow> fst c = ds_mtime st)
      then Inr (snd (the (ds_cache st)), st)
      else (case load_dead_letter_entries cfg st of
          Inl x \<Rightarrow> Inl x
        | Inr es \<Rightarrow>
            let index = dict_of (map (\<lambda>e. (entry_key e, e)) es)
            in Inr (index, st\<lparr>ds_cache := Some (ds_mtime st, index)\<rparr>)))"

definition save_dead_letter_entries :: "bool \<Rightarrow> int \<Rightarrow> dl_entry list \<Rightarrow> dl_state \<Rightarrow> bool \<times> dl_state" where
  "save_dead_letter_entries writable mtime es st =
     (if writable then (True, st\<lparr>ds_entries := Some es, ds_mtime := mtime, ds_cache := None\<rparr>) else (False, st))"

text \<open>The first \<open>n\<close> terminal entries are dropped; \<open>entries[-m:]\<close> is everything for \<open>m = 0\<close>.\<close>

fun drop_terminal :: "nat \<Rightarrow> dl_entry list \<Rightarrow> dl_entry list" where
  "drop_terminal n [] = []"
| "drop_terminal n (e # es) =
     (if dl_terminal e \<and> 0 < n then drop_terminal (n - 1) es else e # drop_terminal n es)"

definition slice_last :: "int \<Rightarrow> 'a list \<Rightarrow> 'a list" where
  "slice_last m xs = (if 0 < m then drop (length xs - nat m) xs else drop (nat (- m)) xs)"

definition trim_dead_letters :: "int \<Rightarrow> dl_entry list \<Rightarrow> dl_entry list" where
  "trim_dead_letters max_entries es =
     (if int (length es) > max_entries then
        let es1 = drop_terminal (nat (int (length es) - max_entries)) es
        in if int (length es1) > max_entries then slice_last max_entries es1 else es1
      else es)"

text \<open>\<open>entries\<close> without the first entry of the key.\<close>

definition prior_entry :: "dl_key \<Rightarrow> dl_entry list \<Rightarrow> dl_entry option" where
  "prior_entry key es = find (is_entry_of key) es"

fun without_prior :: "dl_key \<Rightarrow> dl_entry list \<Rightarrow> dl_entry list" where
  "without_prior key [] = []"
| "without_prior key (e # es) = (if is_entry_of key e then es else e # without_prior key es)"

definition next_entry ::
    "dl_cfg \<Rightarrow> dl_key \<Rightarrow> int \<Rightarrow> string \<Rightarrow> bool \<Rightarrow> rat \<Rightarrow> dl_entry option \<Rightarrow> py_error + dl_entry" where
  "next_entry cfg key attempt reason env ts prior =
     (let cycle = (case prior of None \<Rightarrow> 0 | Some p \<Rightarrow> (case dl_cycle p of None \<Rightarrow> 0 | Some c \<Rightarrow> c)) + 1;
          is_env = (env \<or> env_reason reason);
          schedule = dead_letter_schedule cfg is_env;
          terminal = (cycle > int (length schedule));
          e = \<lparr>dl_kind = Some (fst key), dl_identity = Some (snd key), dl_attempt = Some attempt,
               dl_reason = Some (take 500 reason), dl_recorded_at = Some ts,
               dl_first_recorded_at =
                 (case prior of None \<Rightarrow> Some ts
                  | Some p \<Rightarrow> Some (num_or (opt_or (dl_first_recorded_at p) (dl_recorded_at p)) ts)),
               dl_cycle = Some cycle, dl_env = is_env, dl_terminal = terminal,
               dl_readmit_at = None, dl_readmitted_at = None\<rparr>
      in if terminal then Inr e
         else (case py_index schedule (cycle - 1) of
             Inl x \<Rightarrow> Inl x
           | Inr b \<Rightarrow> Inr (e\<lparr>dl_readmit_at := Some (ts + b)\<rparr>)))"

definition upsert_queue_dead_letter ::
    "dl_cfg \<Rightarrow> bool \<Rightarrow> int \<Rightarrow> dl_key \<Rightarrow> int \<Rightarrow> string \<Rightarrow> bool \<Rightarrow> rat \<Rightarrow> int \<Rightarrow> dl_state \<Rightarrow>
     py_error + dl_entry option \<times> dl_state" where
  "upsert_queue_dead_letter cfg writable mtime key attempt reason env ts max_entries st =
     (case load_dead_letter_entries cfg st of
        Inl x \<Rightarrow> Inl x
      | Inr es \<Rightarrow>
          (case next_entry cfg key attempt reason env ts (prior_entry key es) of
             Inl x \<Rightarrow> Inl x
           | Inr e \<Rightarrow>
               (case save_dead_letter_entries writable mtime
                       (trim_dead_letters max_entries (without_prior key es @ [e])) st of
                  (ok, st1) \<Rightarrow> Inr (if ok then Some e else None, st1))))"

definition append_queue_dead_letter ::
    "dl_cfg \<Rightarrow> bool \<Rightarrow> int \<Rightarrow> dl_key \<Rightarrow> int \<Rightarrow> string \<Rightarrow> rat \<Rightarrow> int \<Rightarrow> dl_state \<Rightarrow> py_error + bool \<times> dl_state" where
  "append_queue_dead_letter cfg writable mtime key attempt reason now max_entries st =
     (case upsert_queue_dead_letter cfg writable mtime key attempt reason False now max_entries st of
        Inl x \<Rightarrow> Inl x | Inr (r, st1) \<Rightarrow> Inr (r \<noteq> None, st1))"

definition entry_blocks :: "rat \<Rightarrow> dl_entry \<Rightarrow> bool" where
  "entry_blocks ts e \<longleftrightarrow> (if dl_terminal e then True else ts < num_or (dl_readmit_at e) 0)"

definition dead_letter_blocked ::
    "dl_cfg \<Rightarrow> string \<Rightarrow> dl_key \<Rightarrow> rat \<Rightarrow> dl_state \<Rightarrow> py_error + bool \<times> dl_state" where
  "dead_letter_blocked cfg archive_data_dir key ts st =
     (if archive_data_dir = [] \<or> snd key = [] then Inr (False, st)
      else (case dead_letter_index cfg st of
          Inl x \<Rightarrow> Inl x
        | Inr (index, st1) \<Rightarrow>
            Inr (case map_of index key of None \<Rightarrow> False | Some e \<Rightarrow> entry_blocks ts e, st1)))"

definition remove_queue_dead_letter ::
    "dl_cfg \<Rightarrow> bool \<Rightarrow> int \<Rightarrow> string \<Rightarrow> dl_key \<Rightarrow> dl_state \<Rightarrow> py_error + bool \<times> dl_state" where
  "remove_queue_dead_letter cfg writable mtime archive_data_dir key st =
     (if archive_data_dir = [] \<or> snd key = [] then Inr (False, st)
      else (case dead_letter_index cfg st of
          Inl x \<Rightarrow> Inl x
        | Inr (index, st1) \<Rightarrow>
            if key \<notin> dict_keys index then Inr (False, st1)
            else (case load_dead_letter_entries cfg st1 of
                Inl x \<Rightarrow> Inl x
              | Inr es \<Rightarrow>
                  Inr (save_dead_letter_entries writable mtime (filter (\<lambda>e. \<not> is_entry_of key e) es) st1))))"

definition entry_due :: "rat \<Rightarrow> dl_entry \<Rightarrow> bool" where
  "entry_due ts e \<longleftrightarrow> \<not> dl_terminal e \<and> num_or (dl_readmit_at e) 0 \<le> ts \<and>
     num_or (dl_readmitted_at e) (- 1) < num_or (dl_readmit_at e) 0"

definition due_dead_letter_readmissions ::
    "dl_cfg \<Rightarrow> string \<Rightarrow> rat \<Rightarrow> int \<Rightarrow> dl_state \<Rightarrow> py_error + dl_entry list \<times> dl_state" where
  "due_dead_letter_readmissions cfg archive_data_dir ts limit st =
     (if archive_data_dir = [] then Inr ([], st)
      else (case dead_letter_index cfg st of
          Inl x \<Rightarrow> Inl x
        | Inr (index, st1) \<Rightarrow>
            Inr (take (nat (max 0 limit))
              (sort_key (\<lambda>e. num_or (dl_readmit_at e) 0) (filter (entry_due ts) (map snd index))), st1)))"

definition mark_dead_letters_readmitted ::
    "dl_cfg \<Rightarrow> bool \<Rightarrow> int \<Rightarrow> dl_key list \<Rightarrow> rat \<Rightarrow> dl_state \<Rightarrow> py_error + bool \<times> dl_state" where
  "mark_dead_letters_readmitted cfg writable mtime keys ts st =
     (if keys = [] then Inr (True, st)
      else (case load_dead_letter_entries cfg st of
          Inl x \<Rightarrow> Inl x
        | Inr es \<Rightarrow>
            Inr (save_dead_letter_entries writable mtime
              (map (\<lambda>e. if list_ex (\<lambda>key. is_entry_of key e) keys then e\<lparr>dl_readmitted_at := Some ts\<rparr> else e) es) st)))"

section \<open>Invariant\<close>

definition stored :: "dl_state \<Rightarrow> dl_entry list" where
  "stored st = (case ds_entries st of None \<Rightarrow> [] | Some es \<Rightarrow> es)"

definition entry_ok :: "dl_entry \<Rightarrow> bool" where
  "entry_ok e \<longleftrightarrow> dl_kind e \<noteq> None \<and> dl_identity e \<noteq> None \<and> (\<exists>c. dl_cycle e = Some c \<and> 1 \<le> c)"

definition index_of :: "dl_entry list \<Rightarrow> (dl_key, dl_entry) dict" where
  "index_of es = map (\<lambda>e. (entry_key e, e)) es"

definition dl_inv :: "dl_state \<Rightarrow> bool" where
  "dl_inv st \<longleftrightarrow> (\<forall>e \<in> set (stored st). entry_ok e) \<and> dict_wf (index_of (stored st)) \<and>
     (\<forall>m idx. ds_cache st = Some (m, idx) \<longrightarrow> idx = index_of (stored st))"

definition letters :: "dl_state \<Rightarrow> dl_key \<rightharpoonup> dl_entry" where
  "letters st = map_of (index_of (stored st))"

lemma is_entry_of_key: "entry_ok e \<Longrightarrow> is_entry_of key e \<longleftrightarrow> entry_key e = key"
  by (cases key) (auto simp: entry_ok_def is_entry_of_def entry_key_def text_or_empty_def)

lemma load_inv: "dl_inv st \<Longrightarrow> load_dead_letter_entries cfg st = Inr (stored st)"
proof -
  assume "dl_inv st"
  then have "normalize_dead_letter_entry cfg e = Inr (id e)" if "e \<in> set (stored st)" for e
    using that by (force simp: normalize_dead_letter_entry_def dl_inv_def entry_ok_def)
  then have "sum_map (normalize_dead_letter_entry cfg) (stored st) = Inr (map id (stored st))"
    by (rule sum_map_Inr)
  then show ?thesis by (simp add: load_dead_letter_entries_def stored_def)
qed

lemma index_of_simps [simp]:
  "index_of [] = []" "index_of (e # es) = (entry_key e, e) # index_of es"
  "index_of (es @ es') = index_of es @ index_of es'"
  by (simp_all add: index_of_def)

lemma index_inv:
  assumes "dl_inv st"
  shows "\<exists>st'. dead_letter_index cfg st = Inr (index_of (stored st), st') \<and> ds_entries st' = ds_entries st \<and>
    ds_mtime st' = ds_mtime st \<and> dl_inv st'"
proof -
  have "dict_of (map (\<lambda>e. (entry_key e, e)) (stored st)) = index_of (stored st)"
    using assms dict_of_wf [of "index_of (stored st)"] by (simp add: dl_inv_def index_of_def)
  then show ?thesis
    using assms load_inv [OF assms, of cfg]
    by (cases "ds_entries st"; cases "ds_cache st") (auto simp: dead_letter_index_def Let_def dl_inv_def stored_def)
qed

lemma without_prior_spec:
  "\<forall>e \<in> set es. entry_ok e \<Longrightarrow> dict_wf (index_of es) \<Longrightarrow> without_prior key es = filter (\<lambda>e. entry_key e \<noteq> key) es"
proof (induction es)
  case (Cons e es)
  have "filter (\<lambda>e. entry_key e \<noteq> key) es = es" if "entry_key e = key"
    using that Cons.prems by (intro filter_True) (auto simp: index_of_def image_iff)
  with Cons show ?case by (auto simp: is_entry_of_key)
qed simp

lemma map_of_index_filter:
  "map_of (index_of (filter (\<lambda>e. entry_key e \<noteq> key) es)) = (map_of (index_of es))(key := None)"
  by (induction es) auto

lemma prior_entry_spec:
  "\<forall>e \<in> set es. entry_ok e \<Longrightarrow> prior_entry key es = map_of (index_of es) key"
  by (induction es) (auto simp: prior_entry_def is_entry_of_key)

lemma wf_index_filter: "dict_wf (index_of es) \<Longrightarrow> dict_wf (index_of (filter P es))"
  by (induction es) (auto simp: index_of_def)

lemma drop_terminal_sub: "set (drop_terminal n es) \<subseteq> set es"
  by (induction n es rule: drop_terminal.induct) auto

lemma drop_terminal_wf: "dict_wf (index_of es) \<Longrightarrow> dict_wf (index_of (drop_terminal n es))"
proof (induction n es rule: drop_terminal.induct)
  case (2 n e es)
  then show ?case using drop_terminal_sub [of n es] by (auto simp: index_of_def)
qed simp

lemma wf_index_drop: "dict_wf (index_of es) \<Longrightarrow> dict_wf (index_of (drop n es))"
  by (simp add: index_of_def drop_map [symmetric] distinct_drop)

lemma trim_sub: "set (trim_dead_letters m es) \<subseteq> set es"
proof -
  have "set (slice_last m xs) \<subseteq> set xs" for xs :: "dl_entry list"
    by (simp add: slice_last_def set_drop_subset)
  then show ?thesis
    using drop_terminal_sub [of "nat (int (length es) - m)" es] by (auto simp: trim_dead_letters_def Let_def)
qed

lemma trim_wf: "dict_wf (index_of es) \<Longrightarrow> dict_wf (index_of (trim_dead_letters m es))"
  by (auto simp: trim_dead_letters_def Let_def slice_last_def intro!: wf_index_drop drop_terminal_wf)

lemma trim_length: "1 \<le> m \<Longrightarrow> int (length (trim_dead_letters m es)) \<le> m"
  by (auto simp: trim_dead_letters_def Let_def slice_last_def)

lemma trim_room: "int (length es) \<le> m \<Longrightarrow> trim_dead_letters m es = es"
  by (simp add: trim_dead_letters_def)

subsection \<open>The operations\<close>

lemma dl_inv_save:
  assumes "\<forall>e \<in> set es. entry_ok e" "dict_wf (index_of es)"
  shows "dl_inv (st\<lparr>ds_entries := Some es, ds_mtime := m, ds_cache := None\<rparr>)"
  using assms by (simp add: dl_inv_def stored_def)

definition give_up_cycle :: "dl_key \<Rightarrow> dl_state \<Rightarrow> int" where
  "give_up_cycle key st = (case letters st key of None \<Rightarrow> 0
     | Some p \<Rightarrow> (case dl_cycle p of None \<Rightarrow> 0 | Some c \<Rightarrow> c)) + 1"

lemma letters_entry_ok: "dl_inv st \<Longrightarrow> letters st key = Some e \<Longrightarrow> entry_ok e \<and> entry_key e = key"
  by (auto simp: dl_inv_def letters_def index_of_def dest!: map_of_SomeD)

lemma give_up_cycle_pos: "dl_inv st \<Longrightarrow> 1 \<le> give_up_cycle key st"
  using letters_entry_ok [of st key] by (fastforce simp: give_up_cycle_def entry_ok_def split: option.split)

text \<open>The entry a give-up writes.\<close>

definition give_up_entry ::
    "dl_cfg \<Rightarrow> dl_key \<Rightarrow> int \<Rightarrow> string \<Rightarrow> bool \<Rightarrow> rat \<Rightarrow> dl_state \<Rightarrow> dl_entry \<Rightarrow> bool" where
  "give_up_entry cfg key attempt reason env ts st e \<longleftrightarrow>
     (let sched = dead_letter_schedule cfg (env \<or> env_reason reason); c = give_up_cycle key st in
      entry_key e = key \<and> dl_cycle e = Some c \<and> dl_attempt e = Some attempt \<and> dl_recorded_at e = Some ts \<and>
      dl_reason e = Some (take 500 reason) \<and> dl_env e = (env \<or> env_reason reason) \<and> dl_readmitted_at e = None \<and>
      dl_terminal e = (c > int (length sched)) \<and>
      dl_readmit_at e = (if c > int (length sched) then None else Some (ts + sched ! nat (c - 1))))"

lemma next_entry_spec:
  assumes "dl_inv st"
  shows "\<exists>e. next_entry cfg key attempt reason env ts (letters st key) = Inr e \<and> entry_ok e \<and>
    give_up_entry cfg key attempt reason env ts st e"
  using give_up_cycle_pos [OF assms, of key]
  by (auto simp: next_entry_def give_up_entry_def give_up_cycle_def Let_def py_index_def entry_ok_def entry_key_def
      text_or_empty_def)

lemma upsert_spec:
  assumes "dl_inv st"
  shows "\<exists>e. entry_ok e \<and> give_up_entry cfg key attempt reason env ts st e \<and>
    upsert_queue_dead_letter cfg writable mtime key attempt reason env ts m st =
      Inr (if writable then Some e else None,
        if writable then st\<lparr>ds_entries := Some (trim_dead_letters m (filter (\<lambda>e. entry_key e \<noteq> key) (stored st) @ [e])),
          ds_mtime := mtime, ds_cache := None\<rparr> else st)"
proof -
  have ok: "\<forall>e \<in> set (stored st). entry_ok e" "dict_wf (index_of (stored st))"
    using assms by (simp_all add: dl_inv_def)
  have "prior_entry key (stored st) = letters st key" by (simp add: prior_entry_spec [OF ok(1)] letters_def)
  with next_entry_spec [OF assms, of cfg key attempt reason env ts] show ?thesis
    by (auto simp: upsert_queue_dead_letter_def load_inv [OF assms] without_prior_spec [OF ok] save_dead_letter_entries_def)
qed

lemma dl_inv_upsert:
  assumes "dl_inv st" "upsert_queue_dead_letter cfg writable mtime key attempt reason env ts m st = Inr (r, st')"
  shows "dl_inv st'"
proof -
  from upsert_spec [OF assms(1), of cfg key attempt reason env ts writable mtime m] assms(2)
  obtain e where e: "entry_ok e" "entry_key e = key"
      "st' = (if writable then st\<lparr>ds_entries := Some (trim_dead_letters m (filter (\<lambda>e. entry_key e \<noteq> key) (stored st) @ [e])),
          ds_mtime := mtime, ds_cache := None\<rparr> else st)"
    by (auto simp: give_up_entry_def Let_def split: if_splits)
  let ?es = "filter (\<lambda>e. entry_key e \<noteq> key) (stored st) @ [e]"
  have ok: "\<forall>e \<in> set (stored st). entry_ok e" "dict_wf (index_of (stored st))"
    using assms(1) by (simp_all add: dl_inv_def)
  have "dict_wf (index_of ?es)"
    using wf_index_filter [OF ok(2)] e(2) by (auto simp: index_of_def)
  moreover have "\<forall>e \<in> set ?es. entry_ok e" using ok(1) e(1) by auto
  ultimately have "dl_inv (st\<lparr>ds_entries := Some (trim_dead_letters m ?es), ds_mtime := mtime, ds_cache := None\<rparr>)"
    using trim_sub [of m ?es] by (intro dl_inv_save trim_wf) auto
  with e(3) assms(1) show ?thesis by simp
qed

abbreviation others :: "dl_key \<Rightarrow> dl_state \<Rightarrow> dl_entry list" where
  "others key st \<equiv> filter (\<lambda>e. entry_key e \<noteq> key) (stored st)"

lemma letters_upsert:
  assumes "dl_inv st" "int (length (others key st)) < m"
  shows "\<exists>e st'. upsert_queue_dead_letter cfg True mtime key attempt reason env ts m st = Inr (Some e, st') \<and>
    give_up_entry cfg key attempt reason env ts st e \<and> dl_inv st' \<and> letters st' = (letters st)(key \<mapsto> e) \<and>
    others key st' = others key st"
proof -
  from upsert_spec [OF assms(1), of cfg key attempt reason env ts True mtime m]
  obtain e where e: "entry_ok e" "give_up_entry cfg key attempt reason env ts st e"
    "upsert_queue_dead_letter cfg True mtime key attempt reason env ts m st =
      Inr (Some e, st\<lparr>ds_entries := Some (trim_dead_letters m (others key st @ [e])), ds_mtime := mtime, ds_cache := None\<rparr>)"
    by auto
  have t: "trim_dead_letters m (others key st @ [e]) = others key st @ [e]"
    using assms(2) by (intro trim_room) simp
  have k: "entry_key e = key" using e(2) by (simp add: give_up_entry_def Let_def)
  have "map_of (index_of (others key st @ [e])) = (map_of (index_of (stored st)))(key \<mapsto> e)"
    using map_of_index_filter [of key "stored st"] k by (auto simp: map_of_append fun_eq_iff map_add_def split: option.split)
  with e(2,3) t k dl_inv_upsert [OF assms(1) e(3)] show ?thesis by (auto simp: letters_def stored_def)
qed

lemma blocked_spec:
  assumes "dl_inv st" "dir \<noteq> []" "snd key \<noteq> []"
  shows "\<exists>st'. dead_letter_blocked cfg dir key ts st =
      Inr (case letters st key of None \<Rightarrow> False | Some e \<Rightarrow> dl_terminal e \<or> ts < num_or (dl_readmit_at e) 0, st') \<and>
    ds_entries st' = ds_entries st \<and> dl_inv st'"
  using index_inv [OF assms(1), of cfg] assms(2,3)
  by (auto simp: dead_letter_blocked_def letters_def entry_blocks_def split: option.split)

lemma remove_spec:
  assumes "dl_inv st" "dir \<noteq> []" "snd key \<noteq> []"
  shows "\<exists>st'. remove_queue_dead_letter cfg True mtime dir key st = Inr (letters st key \<noteq> None, st') \<and>
    letters st' = (letters st)(key := None) \<and> dl_inv st'"
proof -
  obtain st1 where i: "dead_letter_index cfg st = Inr (index_of (stored st), st1)" "ds_entries st1 = ds_entries st" "dl_inv st1"
    using index_inv [OF assms(1), of cfg] by auto
  have s: "stored st1 = stored st" using i(2) by (simp add: stored_def)
  have ok: "\<forall>e \<in> set (stored st). entry_ok e" "dict_wf (index_of (stored st))" using assms(1) by (simp_all add: dl_inv_def)
  have f: "filter (\<lambda>e. \<not> is_entry_of key e) (stored st) = others key st"
    using ok(1) by (intro filter_cong) (auto simp: is_entry_of_key)
  show ?thesis
  proof (cases "key \<in> dict_keys (index_of (stored st))")
    case False
    then have "letters st key = None" by (simp add: letters_def map_of_None_iff)
    with False i assms(2,3) s show ?thesis
      by (auto simp: remove_queue_dead_letter_def letters_def fun_upd_idem)
  next
    case True
    then have "letters st key \<noteq> None" by (simp add: letters_def map_of_None_iff del: not_None_eq)
    moreover have "dl_inv (st1\<lparr>ds_entries := Some (others key st), ds_mtime := mtime, ds_cache := None\<rparr>)"
      using ok wf_index_filter by (intro dl_inv_save) auto
    moreover have "letters (st1\<lparr>ds_entries := Some (others key st), ds_mtime := mtime, ds_cache := None\<rparr>) = (letters st)(key := None)"
      using map_of_index_filter [of key "stored st"] by (simp add: letters_def stored_def)
    ultimately show ?thesis
      using True i assms(2,3) load_inv [OF i(3), of cfg]
      by (auto simp: remove_queue_dead_letter_def save_dead_letter_entries_def s f)
  qed
qed

definition stamp :: "dl_key list \<Rightarrow> rat \<Rightarrow> dl_entry \<Rightarrow> dl_entry" where
  "stamp keys ts e = (if entry_key e \<in> set keys then e\<lparr>dl_readmitted_at := Some ts\<rparr> else e)"

lemma stamp_key [simp]: "entry_key (stamp keys ts e) = entry_key e" "entry_ok (stamp keys ts e) = entry_ok e"
  by (simp_all add: stamp_def entry_key_def entry_ok_def)

lemma index_of_stamp: "index_of (map (stamp keys ts) es) = map (\<lambda>(k, e). (k, stamp keys ts e)) (index_of es)"
  by (induction es) auto

lemma mark_spec:
  assumes "dl_inv st" "keys \<noteq> []"
  shows "\<exists>st'. mark_dead_letters_readmitted cfg True mtime keys ts st = Inr (True, st') \<and> dl_inv st' \<and>
    (\<forall>key. letters st' key = map_option (stamp keys ts) (letters st key))"
proof -
  have ok: "\<forall>e \<in> set (stored st). entry_ok e" "dict_wf (index_of (stored st))" using assms(1) by (simp_all add: dl_inv_def)
  have m: "map (\<lambda>e. if list_ex (\<lambda>key. is_entry_of key e) keys then e\<lparr>dl_readmitted_at := Some ts\<rparr> else e) (stored st) =
      map (stamp keys ts) (stored st)"
    using ok(1) by (intro map_cong) (auto simp: stamp_def list_ex_iff is_entry_of_key)
  have wf: "dict_wf (index_of (map (stamp keys ts) (stored st)))"
    using ok(2) by (simp add: index_of_def comp_def)
  let ?st = "st\<lparr>ds_entries := Some (map (stamp keys ts) (stored st)), ds_mtime := mtime, ds_cache := None\<rparr>"
  have "dl_inv ?st" using ok(1) wf by (intro dl_inv_save) auto
  moreover have "letters ?st key = map_option (stamp keys ts) (letters st key)" for key
    using map_of_map [of "stamp keys ts" "index_of (stored st)"] by (simp add: letters_def stored_def index_of_stamp)
  ultimately show ?thesis
    using assms by (simp add: mark_dead_letters_readmitted_def load_inv save_dead_letter_entries_def m)
qed

lemma due_spec:
  assumes "dl_inv st" "dir \<noteq> []"
  shows "\<exists>st'. due_dead_letter_readmissions cfg dir ts n st =
      Inr (take (nat (max 0 n)) (sort_key (\<lambda>e. num_or (dl_readmit_at e) 0) (filter (entry_due ts) (stored st))), st') \<and>
    ds_entries st' = ds_entries st \<and> dl_inv st'"
proof -
  have "map snd (index_of (stored st)) = stored st" by (simp add: index_of_def comp_def)
  with index_inv [OF assms(1), of cfg] assms(2) show ?thesis
    by (auto simp: due_dead_letter_readmissions_def)
qed

subsection \<open>As a transition system\<close>

inductive dl_step :: "dl_cfg \<Rightarrow> dl_state \<Rightarrow> dl_state \<Rightarrow> bool" for cfg where
  upsert: "upsert_queue_dead_letter cfg w mt key a reason env ts m st = Inr (r, st') \<Longrightarrow> dl_step cfg st st'"
| append: "append_queue_dead_letter cfg w mt key a reason ts m st = Inr (b, st') \<Longrightarrow> dl_step cfg st st'"
| blocked: "dead_letter_blocked cfg dir key ts st = Inr (b, st') \<Longrightarrow> dl_step cfg st st'"
| remove: "remove_queue_dead_letter cfg w mt dir key st = Inr (b, st') \<Longrightarrow> dl_step cfg st st'"
| due: "due_dead_letter_readmissions cfg dir ts n st = Inr (es, st') \<Longrightarrow> dl_step cfg st st'"
| mark: "mark_dead_letters_readmitted cfg w mt keys ts st = Inr (b, st') \<Longrightarrow> dl_step cfg st st'"

lemma remove_unwritable:
  "dl_inv st \<Longrightarrow> remove_queue_dead_letter cfg False mt dir key st = Inr (b, st') \<Longrightarrow> dl_inv st'"
  using index_inv [of st cfg] load_inv
  by (fastforce simp: remove_queue_dead_letter_def save_dead_letter_entries_def split: if_splits sum.splits)

lemma dl_inv_step: "dl_step cfg st st' \<Longrightarrow> dl_inv st \<Longrightarrow> dl_inv st'"
proof (induction rule: dl_step.induct)
  case (upsert w mt key a reason env ts m st r st')
  then show ?case using dl_inv_upsert by blast
next
  case (append w mt key a reason ts m st b st')
  then show ?case by (auto simp: append_queue_dead_letter_def dest: dl_inv_upsert split: sum.splits)
next
  case (blocked dir key ts st b st')
  then show ?case
    using blocked_spec [of st dir key cfg ts] by (cases "dir = [] \<or> snd key = []") (auto simp: dead_letter_blocked_def)
next
  case (remove w mt dir key st b st')
  show ?case
  proof (cases "w \<and> dir \<noteq> [] \<and> snd key \<noteq> []")
    case True
    with remove_spec [OF remove.prems, of dir key cfg mt] remove.hyps show ?thesis by auto
  next
    case False
    then consider "\<not> w" | "dir = [] \<or> snd key = []" by blast
    then show ?thesis
      using remove remove_unwritable by cases (auto simp: remove_queue_dead_letter_def)
  qed
next
  case (due dir ts n st es st')
  then show ?case
    using due_spec [of st dir cfg ts n] by (cases "dir = []") (auto simp: due_dead_letter_readmissions_def)
next
  case (mark w mt keys ts st b st')
  show ?case
  proof (cases "w \<and> keys \<noteq> []")
    case True
    with mark_spec [OF mark.prems, of keys cfg mt ts] mark.hyps show ?thesis by auto
  next
    case False
    with mark show ?thesis
      by (auto simp: mark_dead_letters_readmitted_def save_dead_letter_entries_def load_inv split: if_splits)
  qed
qed

interpretation letter_box: invariant_system "\<lambda>st. ds_entries st = None \<and> ds_cache st = None" "dl_step cfg" dl_inv
  for cfg
proof
  show "dl_inv st" if "ds_entries st = None \<and> ds_cache st = None" for st
    using that by (simp add: dl_inv_def stored_def)
  show "dl_inv st'" if "dl_inv st" "dl_step cfg st st'" for st st'
    using that dl_inv_step by blast
qed

definition dl_reachable :: "dl_cfg \<Rightarrow> dl_state \<Rightarrow> bool" where
  "dl_reachable cfg st \<longleftrightarrow> (\<exists>m. (dl_step cfg)\<^sup>*\<^sup>* \<lparr>ds_entries = None, ds_mtime = m, ds_cache = None\<rparr> st)"

lemma dl_reachable_inv: "dl_reachable cfg st \<Longrightarrow> dl_inv st"
proof -
  assume "dl_reachable cfg st"
  then obtain m where r: "(dl_step cfg)\<^sup>*\<^sup>* \<lparr>ds_entries = None, ds_mtime = m, ds_cache = None\<rparr> st"
    unfolding dl_reachable_def ..
  show ?thesis by (rule letter_box.inv_reachable [OF _ r]) simp
qed

text \<open>A series of give-ups of one job, each with its attempt count, reason, time and file time.\<close>

fun give_ups :: "dl_cfg \<Rightarrow> dl_key \<Rightarrow> int \<Rightarrow> (int \<times> string \<times> rat \<times> int) list \<Rightarrow> dl_state \<Rightarrow> py_error + dl_state" where
  "give_ups cfg key m [] st = Inr st"
| "give_ups cfg key m ((a, reason, ts, mt) # gs) st =
     (case upsert_queue_dead_letter cfg True mt key a reason False ts m st of
        Inl x \<Rightarrow> Inl x | Inr (r, st1) \<Rightarrow> give_ups cfg key m gs st1)"

definition demo_dl_cfg :: dl_cfg where
  "demo_dl_cfg = \<lparr>get_sync_dead_letter_readmit_backoff_s = [3600, 21600],
     get_sync_dead_letter_env_backoff_s = [21600]\<rparr>"

definition no_letters :: dl_state where
  "no_letters = \<lparr>ds_entries = None, ds_mtime = 0, ds_cache = None\<rparr>"

definition upserted :: "dl_key \<Rightarrow> rat \<Rightarrow> int \<Rightarrow> dl_state \<Rightarrow> dl_state" where
  "upserted key ts m st =
     (case upsert_queue_dead_letter demo_dl_cfg True 1 key 5 ''boom'' False ts m st of
        Inr (r, st1) \<Rightarrow> st1 | Inl x \<Rightarrow> st)"

lemma dl_reachable_none: "dl_reachable cfg no_letters"
  unfolding dl_reachable_def no_letters_def by blast

lemma dl_reachable_upserted: "dl_reachable demo_dl_cfg st \<Longrightarrow> dl_reachable demo_dl_cfg (upserted key ts m st)"
proof -
  assume r: "dl_reachable demo_dl_cfg st"
  obtain e st1 where u: "upsert_queue_dead_letter demo_dl_cfg True 1 key 5 ''boom'' False ts m st = Inr (e, st1)"
    using upsert_spec [OF dl_reachable_inv [OF r], of demo_dl_cfg key 5 "''boom''" False ts True 1 m] by auto
  then have "upserted key ts m st = st1" by (simp add: upserted_def)
  with dl_step.upsert [OF u] r show ?thesis
    unfolding dl_reachable_def by (meson rtranclp.rtrancl_into_rtrancl)
qed

text \<open>An entry at a step of the ladder, last written at \<open>ts\<close>.\<close>

definition on_ladder :: "rat list \<Rightarrow> int \<Rightarrow> rat \<Rightarrow> dl_entry \<Rightarrow> bool" where
  "on_ladder sched c ts e \<longleftrightarrow> dl_cycle e = Some c \<and> dl_terminal e = (c > int (length sched)) \<and>
     dl_readmit_at e = (if c > int (length sched) then None else Some (ts + sched ! nat (c - 1)))"

lemma give_ups_ladder:
  assumes "dl_inv st" "int (length (others key st)) < m" "\<forall>g \<in> set gs. \<not> env_reason (fst (snd g))" "gs \<noteq> []"
  shows "\<exists>st' e. give_ups cfg key m gs st = Inr st' \<and> letters st' = (letters st)(key \<mapsto> e) \<and>
    on_ladder (get_sync_dead_letter_readmit_backoff_s cfg) (give_up_cycle key st + int (length gs) - 1)
      (fst (snd (snd (last gs)))) e"
  using assms
proof (induction gs arbitrary: st)
  case (Cons g gs)
  obtain a reason ts mt where g: "g = (a, reason, ts, mt)" by (metis prod.exhaust)
  obtain e st1 where u: "upsert_queue_dead_letter cfg True mt key a reason False ts m st = Inr (Some e, st1)"
      "give_up_entry cfg key a reason False ts st e" "dl_inv st1" "letters st1 = (letters st)(key \<mapsto> e)"
      "others key st1 = others key st"
    using letters_upsert [OF Cons.prems(1,2), of cfg mt a reason False ts] by blast
  have l: "on_ladder (get_sync_dead_letter_readmit_backoff_s cfg) (give_up_cycle key st) ts e"
    using u(2) Cons.prems(3) g by (simp add: give_up_entry_def Let_def on_ladder_def dead_letter_schedule_def)
  show ?case
  proof (cases "gs = []")
    case True
    with g u l show ?thesis by (intro exI [of _ st1] exI [of _ e]) simp
  next
    case False
    have "give_up_cycle key st1 = give_up_cycle key st + 1"
      using l unfolding give_up_cycle_def [of key st1] u(4) by (simp add: on_ladder_def)
    moreover have "int (length (others key st1)) < m" using u(5) Cons.prems(2) by simp
    ultimately have "\<exists>st' e. give_ups cfg key m gs st1 = Inr st' \<and> letters st' = (letters st1)(key \<mapsto> e) \<and>
        on_ladder (get_sync_dead_letter_readmit_backoff_s cfg) (give_up_cycle key st + int (length gs))
          (fst (snd (snd (last gs)))) e"
      using Cons.IH [OF u(3) _ _ False] Cons.prems(3) by (simp add: fun_upd_def)
    then obtain st' e' where "give_ups cfg key m gs st1 = Inr st'" "letters st' = (letters st1)(key \<mapsto> e')"
        "on_ladder (get_sync_dead_letter_readmit_backoff_s cfg) (give_up_cycle key st + int (length gs))
          (fst (snd (snd (last gs)))) e'"
      by blast
    with g u(1,4) False show ?thesis by (intro exI [of _ st'] exI [of _ e']) simp
  qed
qed simp

section \<open>Properties\<close>

text \<open>the cooldown ladder. From a reachable sidecar without an entry for the job and with room, a
  series of non-environment give-ups of the job leaves one entry whose cycle is the number of
  give-ups; it is terminal exactly when there were more give-ups than cooldowns, and otherwise its
  readmission time is the last give-up plus the cooldown of its cycle; other entries are untouched.\<close>

theorem cooldown_ladder:
  assumes "dl_reachable cfg st" "letters st key = None" "int (length (stored st)) < m"
    "\<forall>g \<in> set gs. \<not> env_reason (fst (snd g))" "gs \<noteq> []"
  shows "\<exists>st' e. give_ups cfg key m gs st = Inr st' \<and> letters st' = (letters st)(key \<mapsto> e) \<and>
    on_ladder (get_sync_dead_letter_readmit_backoff_s cfg) (int (length gs)) (fst (snd (snd (last gs)))) e"
proof -
  have "int (length (others key st)) < m"
    using assms(3) length_filter_le [of "\<lambda>e. entry_key e \<noteq> key" "stored st"] by linarith
  from give_ups_ladder [OF dl_reachable_inv [OF assms(1)] this assms(4,5), of cfg] assms(2) show ?thesis
    by (simp add: give_up_cycle_def)
qed

theorem cooldown_ladder_witness:
  "\<exists>st' e. give_ups demo_dl_cfg (''ingest'', ''/a'') 10 [(5, ''boom'', 100, 1), (5, ''boom'', 9000, 2)] no_letters = Inr st' \<and>
    letters st' = (letters no_letters)((''ingest'', ''/a'') \<mapsto> e) \<and>
    on_ladder (get_sync_dead_letter_readmit_backoff_s demo_dl_cfg)
      (int (length [(5 :: int, ''boom'', 100 :: rat, 1 :: int), (5, ''boom'', 9000, 2)]))
      (fst (snd (snd (last [(5 :: int, ''boom'', 100 :: rat, 1 :: int), (5, ''boom'', 9000, 2)])))) e"
  by (rule cooldown_ladder [OF dl_reachable_none])
    (simp_all add: no_letters_def letters_def stored_def env_reason_def)

text \<open>in every reachable sidecar, \<open>dead_letter_blocked\<close> holds for a job exactly while it has an
  entry that is terminal or whose readmission time has not come; the answer comes from the current
  file although the index is cached.\<close>

theorem blocked_until_readmission:
  assumes "dl_reachable cfg st" "dir \<noteq> []" "snd key \<noteq> []"
  shows "\<exists>st'. dead_letter_blocked cfg dir key ts st =
      Inr (case letters st key of None \<Rightarrow> False | Some e \<Rightarrow> dl_terminal e \<or> ts < num_or (dl_readmit_at e) 0, st') \<and>
    ds_entries st' = ds_entries st \<and> dl_inv st'"
  by (rule blocked_spec [OF dl_reachable_inv [OF assms(1)] assms(2,3)])

theorem blocked_until_readmission_witness:
  "\<exists>st'. dead_letter_blocked demo_dl_cfg ''/d'' (''ingest'', ''/a'') 200 (upserted (''ingest'', ''/a'') 100 10 no_letters) =
      Inr (case letters (upserted (''ingest'', ''/a'') 100 10 no_letters) (''ingest'', ''/a'') of
          None \<Rightarrow> False | Some e \<Rightarrow> dl_terminal e \<or> 200 < num_or (dl_readmit_at e) 0, st') \<and>
    ds_entries st' = ds_entries (upserted (''ingest'', ''/a'') 100 10 no_letters) \<and> dl_inv st'"
  by (rule blocked_until_readmission [OF dl_reachable_upserted [OF dl_reachable_none]]) simp_all

text \<open>readmission happens once per cycle. In every reachable sidecar, the due entries are the
  non-terminal ones whose time has come, oldest first, at most \<open>limit\<close>; after their keys are marked
  at a non-zero time that is not before the readmission times, no marked job is due at any later
  time, and every other job's entry is unchanged.\<close>

theorem readmitted_once:
  assumes "dl_reachable cfg st" "dir \<noteq> []" "ts \<noteq> 0"
    "due_dead_letter_readmissions cfg dir ts n st = Inr (es, st1)" "es \<noteq> []"
  shows "\<exists>st2. mark_dead_letters_readmitted cfg True mtime (map entry_key es) ts st1 = Inr (True, st2) \<and>
    (\<forall>e \<in> set es. \<forall>e2. letters st2 (entry_key e) = Some e2 \<longrightarrow> (\<forall>ts2. \<not> entry_due ts2 e2)) \<and>
    (\<forall>key. key \<notin> set (map entry_key es) \<longrightarrow> letters st2 key = letters st key)"
proof -
  have inv: "dl_inv st" by (rule dl_reachable_inv [OF assms(1)])
  have es: "es = take (nat (max 0 n)) (sort_key (\<lambda>e. num_or (dl_readmit_at e) 0) (filter (entry_due ts) (stored st)))"
      "ds_entries st1 = ds_entries st" "dl_inv st1"
    using due_spec [OF inv assms(2), of cfg ts n] assms(4) by auto
  have l: "letters st1 = letters st" using es(2) by (simp add: letters_def stored_def)
  have mem: "e \<in> set (stored st) \<and> entry_due ts e" if "e \<in> set es" for e
    using that es(1) by (auto dest: in_set_takeD)
  obtain st2 where m: "mark_dead_letters_readmitted cfg True mtime (map entry_key es) ts st1 = Inr (True, st2)"
      "\<And>key. letters st2 key = map_option (stamp (map entry_key es) ts) (letters st1 key)"
    using mark_spec [OF es(3), of "map entry_key es" cfg mtime ts] assms(5) by auto
  have "\<not> entry_due ts2 e2" if "e \<in> set es" "letters st2 (entry_key e) = Some e2" for e e2 ts2
  proof -
    have "map_of (index_of (stored st)) (entry_key e) = Some e"
      using inv mem [OF that(1)] by (intro map_of_is_SomeI) (auto simp: dl_inv_def index_of_def)
    then have "e2 = e\<lparr>dl_readmitted_at := Some ts\<rparr>"
      using that m(2) l by (simp add: letters_def stamp_def)
    moreover have "num_or (dl_readmit_at e) 0 \<le> ts" using mem [OF that(1)] by (simp add: entry_due_def)
    ultimately show ?thesis using assms(3) by (simp add: entry_due_def num_or_def)
  qed
  moreover have "letters st2 key = letters st key" if "key \<notin> set (map entry_key es)" for key
  proof (cases "letters st key")
    case (Some e)
    then have "entry_key e = key" using letters_entry_ok [OF inv] by blast
    with that Some show ?thesis by (simp add: m(2) l stamp_def)
  qed (simp add: m(2) l)
  ultimately show ?thesis using m(1) by auto
qed

theorem readmitted_once_witness:
  "\<exists>es st1 st2. due_dead_letter_readmissions demo_dl_cfg ''/d'' 5000 5 (upserted (''ingest'', ''/a'') 100 10 no_letters) = Inr (es, st1) \<and>
    es \<noteq> [] \<and> mark_dead_letters_readmitted demo_dl_cfg True 2 (map entry_key es) 5000 st1 = Inr (True, st2) \<and>
    (\<forall>e \<in> set es. \<forall>e2. letters st2 (entry_key e) = Some e2 \<longrightarrow> (\<forall>ts2. \<not> entry_due ts2 e2))"
proof -
  let ?st = "upserted (''ingest'', ''/a'') 100 10 no_letters"
  have r: "dl_reachable demo_dl_cfg ?st" by (rule dl_reachable_upserted [OF dl_reachable_none])
  obtain es st1 where d: "due_dead_letter_readmissions demo_dl_cfg ''/d'' 5000 5 ?st = Inr (es, st1)"
      "es = take (nat (max 0 5)) (sort_key (\<lambda>e. num_or (dl_readmit_at e) 0) (filter (entry_due 5000) (stored ?st)))"
    using due_spec [OF dl_reachable_inv [OF r], of "''/d''" demo_dl_cfg 5000 5] by auto
  have "length (filter (entry_due 5000) (stored ?st)) = 1" by code_simp
  then have ne: "es \<noteq> []" using d(2) by (cases "filter (entry_due 5000) (stored ?st)") auto
  from readmitted_once [OF r _ _ d(1) ne, of 2] d(1) ne show ?thesis by auto
qed

text \<open>in every reachable sidecar, \<open>remove_queue_dead_letter\<close> with a writable file removes exactly the
  job's entry and reports whether there was one.\<close>

theorem remove_exact:
  assumes "dl_reachable cfg st" "dir \<noteq> []" "snd key \<noteq> []"
  shows "\<exists>st'. remove_queue_dead_letter cfg True mtime dir key st = Inr (letters st key \<noteq> None, st') \<and>
    letters st' = (letters st)(key := None) \<and> dl_inv st'"
  by (rule remove_spec [OF dl_reachable_inv [OF assms(1)] assms(2,3)])

theorem remove_exact_witness:
  "\<exists>st'. remove_queue_dead_letter demo_dl_cfg True 2 ''/d'' (''ingest'', ''/a'') (upserted (''ingest'', ''/a'') 100 10 no_letters) =
      Inr (letters (upserted (''ingest'', ''/a'') 100 10 no_letters) (''ingest'', ''/a'') \<noteq> None, st') \<and>
    letters st' = (letters (upserted (''ingest'', ''/a'') 100 10 no_letters))((''ingest'', ''/a'') := None) \<and> dl_inv st'"
  by (rule remove_exact [OF dl_reachable_upserted [OF dl_reachable_none]]) simp_all

text \<open>in every reachable sidecar, a written upsert with a cap of at least one keeps at most that many
  entries, one per job.\<close>

theorem upsert_bounded:
  assumes "dl_reachable cfg st" "1 \<le> m"
    "upsert_queue_dead_letter cfg True mtime key attempt reason env ts m st = Inr (r, st')"
  shows "int (length (stored st')) \<le> m \<and> distinct (map entry_key (stored st'))"
proof -
  have inv: "dl_inv st" by (rule dl_reachable_inv [OF assms(1)])
  obtain es where "stored st' = trim_dead_letters m es"
    using upsert_spec [OF inv, of cfg key attempt reason env ts True mtime m] assms(3) by (auto simp: stored_def)
  moreover have "distinct (map entry_key (stored st'))"
    using dl_inv_upsert [OF inv assms(3)] by (simp add: dl_inv_def index_of_def comp_def)
  ultimately show ?thesis using trim_length [OF assms(2)] by simp
qed

theorem upsert_bounded_witness:
  "int (length (stored (upserted (''ingest'', ''/b'') 200 1 (upserted (''ingest'', ''/a'') 100 1 no_letters)))) \<le> 1 \<and>
    distinct (map entry_key (stored (upserted (''ingest'', ''/b'') 200 1 (upserted (''ingest'', ''/a'') 100 1 no_letters))))"
proof -
  let ?st = "upserted (''ingest'', ''/a'') 100 1 no_letters"
  have r: "dl_reachable demo_dl_cfg ?st" by (rule dl_reachable_upserted [OF dl_reachable_none])
  obtain e where "upsert_queue_dead_letter demo_dl_cfg True 1 (''ingest'', ''/b'') 5 ''boom'' False 200 1 ?st =
      Inr (e, upserted (''ingest'', ''/b'') 200 1 ?st)"
    using upsert_spec [OF dl_reachable_inv [OF r], of demo_dl_cfg "(''ingest'', ''/b'')" 5 "''boom''" False 200 True 1 1]
    by (auto simp: upserted_def)
  from upsert_bounded [OF r _ this] show ?thesis by simp
qed

text \<open>at the cap a live cooldown is dropped without a trace: with a cap of one, a give-up of a second
  job evicts the first job's entry, which is not terminal, so the first job is no longer blocked
  although its cooldown runs.\<close>

theorem trim_drops_live_cooldown:
  "letters (upserted (''ingest'', ''/a'') 100 1 no_letters) (''ingest'', ''/a'') \<noteq> None \<and>
   letters (upserted (''ingest'', ''/b'') 200 1 (upserted (''ingest'', ''/a'') 100 1 no_letters)) (''ingest'', ''/a'') = None \<and>
   \<not> dl_terminal (the (letters (upserted (''ingest'', ''/a'') 100 1 no_letters) (''ingest'', ''/a'')))"
  by code_simp

text \<open>at the cap the entry that has just become terminal is itself dropped and still returned as the
  stored entry: the job is not blocked and can be queued again.\<close>

theorem trim_drops_returned_terminal:
  "(case upsert_queue_dead_letter demo_dl_cfg True 9 (''ingest'', ''/a'') 5 ''boom'' False 90000 1
       (upserted (''ingest'', ''/b'') 300 2 (upserted (''ingest'', ''/a'') 200 2 (upserted (''ingest'', ''/a'') 100 2 no_letters))) of
      Inr (Some e, st) \<Rightarrow> dl_terminal e \<and> letters st (''ingest'', ''/a'') = None
    | _ \<Rightarrow> False)"
  by code_simp

end
