(* ===== verification/Reconstruct.thy ===== *)
theory Reconstruct
  imports Append_Days Dead_Letter Job_Steps
begin

text \<open>
  \<open>dbload/lib/sync_timedb_job_reconstruct.py\<close>: what is still to be done for a closed raw file or a day,
  decided from the disk and the marks, and the jobs queued for it. The predicates the functions take
  as callables (marks, database, tar members) are arguments, and so are the file system
  (\<open>isfile\<close>, \<open>samefile\<close>; \<open>None\<close>: \<open>OSError\<close>), the clocks and the INI values. The store, the
  remainders and the dead letters are one state; a function gives the new state and its result or the
  error it raises. A \<open>datetime\<close> is its seconds of wall clock from the first day of year 1.
  Not here: \<open>discover_raw_needs_tar_append\<close> and \<open>discover_append_is_complete\<close>, which ask the tar layer.
  Lemmas: a file's plan asks for at most one job, ingest before append, and for none while the file is
  internal or open; what is reported as queued for ingest is queued or in flight; every path keeps the
  store's invariant and the remainders exact; a day is closed only when its files and its age allow it.
\<close>

section \<open>Completeness\<close>

definition DAY_CLOSE_MIN_AGE_HOURS_DEFAULT :: rat where "DAY_CLOSE_MIN_AGE_HOURS_DEFAULT = 32"
definition DEFAULT_INGEST_HOT_DAYS :: int where "DEFAULT_INGEST_HOT_DAYS = 8"

definition ingest_is_complete ::
    "bool \<Rightarrow> bool option \<Rightarrow> (string \<Rightarrow> bool) \<Rightarrow> (string \<Rightarrow> bool) \<Rightarrow> (string \<Rightarrow> bool) \<Rightarrow> string \<Rightarrow> bool" where
  "ingest_is_complete default_listend listend_enabled has_file_complete_fn has_zero_host_fn head_tail_ready_fn path =
     (let t = py_strip path in
      if t = [] then False
      else if has_file_complete_fn t \<or> has_zero_host_fn t then True
      else if (case listend_enabled of Some b \<Rightarrow> b | None \<Rightarrow> default_listend) then False
      else head_tail_ready_fn t)"

definition append_is_complete :: "(string \<Rightarrow> string \<Rightarrow> bool) \<Rightarrow> string \<Rightarrow> string \<Rightarrow> bool" where
  "append_is_complete needs_append_fn path tgz_archive_dir =
     (let t = py_strip path; archive = py_strip tgz_archive_dir in
      if t = [] \<or> archive = [] then False else \<not> needs_append_fn t archive)"

definition discover_ingest_is_complete ::
    "bool \<Rightarrow> (string \<Rightarrow> bool) \<Rightarrow> (string \<Rightarrow> bool) \<Rightarrow> (string \<Rightarrow> bool) \<Rightarrow> string \<Rightarrow> bool" where
  "discover_ingest_is_complete default_listend has_file_complete has_zero_host head_ingested path =
     ingest_is_complete default_listend (Some True) has_file_complete has_zero_host head_ingested path"

definition select_ingest_band :: "date \<Rightarrow> date \<Rightarrow> int \<Rightarrow> string" where
  "select_ingest_band day today hot_days =
     (let age = today - day in
      if age < 0 then ''hot'' else if age < max 1 hot_days then ''hot'' else ''catchup'')"

definition datetime_ok :: "rat \<Rightarrow> bool" where
  "datetime_ok t \<longleftrightarrow> 0 \<le> t \<and> t < 3652059 * 86400"

definition day_close_min_age_elapsed :: "date \<Rightarrow> rat \<Rightarrow> rat \<Rightarrow> py_error + bool" where
  "day_close_min_age_elapsed day now min_age_hours =
     (let day_end = of_int day * 86400; due = day_end + min_age_hours * 3600 in
      if \<not> datetime_ok day_end \<or> \<not> datetime_ok due then Inl OverflowError else Inr (due \<le> now))"

definition tar_stem :: "string \<Rightarrow> string" where
  "tar_stem base = (if ends_with ''.tar'' base then take (length base - 4) base else base)"

text \<open>\<open>filesystem_complete\<close> is the argument when it is given and else what \<open>filesystem_complete_fn\<close> says of
  the tar; \<open>iso_other\<close> reads the ISO formats that \<open>Calendar\<close> leaves out.\<close>

definition day_close_is_complete ::
    "(string \<Rightarrow> py_error + date) \<Rightarrow> (string \<Rightarrow> bool) \<Rightarrow> rat \<Rightarrow> rat \<Rightarrow> string \<Rightarrow> date option \<Rightarrow> bool option \<Rightarrow> bool option
     \<Rightarrow> py_error + bool" where
  "day_close_is_complete iso_other filesystem_complete_fn now min_age_hours tar_path calendar_day
     filesystem_complete min_age_elapsed =
     (let tar_norm = py_normpath tar_path in
      if tar_norm = [] then Inr False
      else if \<not> (case filesystem_complete of Some b \<Rightarrow> b | None \<Rightarrow> filesystem_complete_fn tar_norm) then Inr False
      else (case min_age_elapsed of
          Some b \<Rightarrow> Inr b
        | None \<Rightarrow>
            (case calendar_day of
               Some day \<Rightarrow> day_close_min_age_elapsed day now min_age_hours
             | None \<Rightarrow>
                 (case date_fromisoformat iso_other (tar_stem (py_basename tar_norm)) of
                    Inl ValueError \<Rightarrow> Inr False
                  | Inl e \<Rightarrow> Inl e
                  | Inr day \<Rightarrow> day_close_min_age_elapsed day now min_age_hours))))"

section \<open>Plans\<close>

record closed_path_plan =
  pl_path :: string
  pl_identity :: string
  pl_needs_ingest :: bool
  pl_needs_append :: bool
  pl_calendar_day :: "date option"
  pl_tar_path :: "string option"
  pl_fingerprint :: string

definition kinds_to_enqueue :: "closed_path_plan \<Rightarrow> string list" where
  "kinds_to_enqueue p =
     (if pl_needs_ingest p then [JOB_KIND_INGEST] else if pl_needs_append p then [JOB_KIND_APPEND] else [])"

record file_env =
  fe_isfile :: "string \<Rightarrow> bool"
  fe_samefile :: "string \<Rightarrow> string \<Rightarrow> bool option"
  fe_ingest_complete :: "string \<Rightarrow> bool"
  fe_append_complete :: "string \<Rightarrow> string \<Rightarrow> bool"

definition stats_file_is_active_segment :: "file_env \<Rightarrow> string \<Rightarrow> bool" where
  "stats_file_is_active_segment env stats_path =
     (let current_path = py_path_join (py_dirname stats_path) ''current'' in
      if \<not> fe_isfile env current_path then False
      else (case fe_samefile env stats_path current_path of None \<Rightarrow> False | Some b \<Rightarrow> b))"

definition classify_closed_raw_path ::
    "file_env \<Rightarrow> string \<Rightarrow> int \<Rightarrow> int \<Rightarrow> date option \<Rightarrow> string option \<Rightarrow> string \<Rightarrow> py_error + closed_path_plan" where
  "classify_closed_raw_path env tgz_archive_dir sz mtime_ns calendar_day tar_path path =
     (let norm = py_normpath path in
      case ingest_identity norm of
        Inl e \<Rightarrow> Inl e
      | Inr identity \<Rightarrow>
          if is_internal_archive_stats_path norm \<or> stats_file_is_active_segment env norm then
            Inr \<lparr>pl_path = norm, pl_identity = identity, pl_needs_ingest = False, pl_needs_append = False,
                 pl_calendar_day = calendar_day, pl_tar_path = tar_path,
                 pl_fingerprint = ingest_fingerprint sz mtime_ns\<rparr>
          else
            let archive = py_strip tgz_archive_dir;
                complete_ingest = fe_ingest_complete env norm;
                complete_append = (if \<not> complete_ingest then False else fe_append_complete env norm archive);
                resolved_tar = (case (tar_path, calendar_day) of
                    (None, Some day) \<Rightarrow>
                      if archive \<noteq> [] then Some (py_normpath (py_path_join archive (isoformat day @ ''.tar''))) else None
                  | _ \<Rightarrow> tar_path)
            in Inr \<lparr>pl_path = norm, pl_identity = identity, pl_needs_ingest = \<not> complete_ingest,
                    pl_needs_append = \<not> complete_append, pl_calendar_day = calendar_day,
                    pl_tar_path = resolved_tar, pl_fingerprint = ingest_fingerprint sz mtime_ns\<rparr>)"

section \<open>Jobs for a closed file\<close>

record recon_state =
  rc_store :: job_store
  rc_rem :: remainders
  rc_dl :: dl_state

record recon_env =
  rv_cfg :: job_cfg
  rv_dl_cfg :: dl_cfg
  rv_sha1 :: "string \<Rightarrow> nat list"
  rv_days :: day_env
  rv_files :: file_env
  rv_today :: date
  rv_hot_days :: int
  rv_archive_data_dir :: string
  rv_tgz_archive_dir :: string
  rv_min_age_hours :: rat
  rv_iso_other :: "string \<Rightarrow> py_error + date"

definition ingest_queued :: "string \<Rightarrow> job_store \<Rightarrow> bool" where
  "ingest_queued identity s \<longleftrightarrow> ingest_score identity s \<noteq> None \<or> inflight_contains JOB_KIND_INGEST identity s"

text \<open>\<open>root and dead_letter_blocked(root, kind, identity)\<close>, read at time \<open>ts\<close>.\<close>

definition blocked_under ::
    "recon_env \<Rightarrow> string \<Rightarrow> job_key \<Rightarrow> rat \<Rightarrow> recon_state \<Rightarrow> recon_state \<times> (py_error + bool)" where
  "blocked_under env base_dir key ts st =
     (if base_dir = [] then (st, Inr False)
      else (case dead_letter_blocked (rv_dl_cfg env) base_dir key ts (rc_dl st) of
          Inl e \<Rightarrow> (st, Inl e) | Inr (b, dl1) \<Rightarrow> (st\<lparr>rc_dl := dl1\<rparr>, Inr b)))"

definition enqueue_ingest_of_plan ::
    "recon_env \<Rightarrow> rat \<Rightarrow> bool \<Rightarrow> closed_path_plan \<Rightarrow> recon_state \<Rightarrow> recon_state \<times> (py_error + bool)" where
  "enqueue_ingest_of_plan env ts over_cap p st =
     (case blocked_under env (py_strip (rv_archive_data_dir env)) (JOB_KIND_INGEST, pl_identity p) ts st of
        (st1, Inl e) \<Rightarrow> (st1, Inl e)
      | (st1, Inr True) \<Rightarrow> (st1, Inr False)
      | (st1, Inr False) \<Rightarrow>
          (case pl_calendar_day p of
             None \<Rightarrow> (st1, Inr False)
           | Some day \<Rightarrow>
               let band = select_ingest_band day (rv_today env) (rv_hot_days env) in
               (case encode_ingest_score (rv_sha1 env) band day (rv_today env) (pl_identity p) of
                  Inl e \<Rightarrow> (st1, Inl e)
                | Inr score \<Rightarrow>
                    (case zadd_ingest (rv_cfg env) (pl_identity p) (of_int score)
                        (if pl_fingerprint p \<noteq> [] then Some (pl_fingerprint p) else None) over_cap (rc_store st1) of
                       (added, s1) \<Rightarrow>
                         (st1\<lparr>rc_store := s1,
                              rc_rem := (case remainder_day_for_identity (rv_days env) (pl_identity p) of
                                  Some remainder_day \<Rightarrow>
                                    if added \<noteq> 0 \<and> remainder_day \<noteq> []
                                    then note_day_remainder JOB_KIND_INGEST remainder_day 1 (rc_rem st1) else rc_rem st1
                                | None \<Rightarrow> rc_rem st1)\<rparr>,
                          Inr (added \<noteq> 0 \<or> ingest_queued (pl_identity p) s1))))))"

definition enqueue_append_of_plan ::
    "recon_env \<Rightarrow> rat \<Rightarrow> closed_path_plan \<Rightarrow> recon_state \<Rightarrow> recon_state \<times> (py_error + bool)" where
  "enqueue_append_of_plan env ts p st =
     (case blocked_under env (py_strip (rv_archive_data_dir env)) (JOB_KIND_APPEND, pl_path p) ts st of
        (st1, Inl e) \<Rightarrow> (st1, Inl e)
      | (st1, Inr True) \<Rightarrow> (st1, Inr False)
      | (st1, Inr False) \<Rightarrow>
          (case enqueue_list (rv_cfg env) JOB_KIND_APPEND (pl_path p) True (rc_store st1) of
             Inl e \<Rightarrow> (st1, Inl e)
           | Inr (added, s1) \<Rightarrow>
               (st1\<lparr>rc_store := s1,
                    rc_rem := (case (if added \<noteq> 0 then remainder_day_for_identity (rv_days env) (pl_path p) else None) of
                        Some remainder_day \<Rightarrow>
                          if remainder_day \<noteq> []
                          then note_day_remainder JOB_KIND_APPEND remainder_day 1 (rc_rem st1) else rc_rem st1
                      | None \<Rightarrow> rc_rem st1)\<rparr>,
                Inr True)))"

text \<open>\<open>(ingest, append)\<close> of the dictionary \<open>enqueued\<close>.\<close>

definition enqueue_reconstruct_jobs_for_closed_path ::
    "recon_env \<Rightarrow> rat \<Rightarrow> bool \<Rightarrow> closed_path_plan \<Rightarrow> recon_state \<Rightarrow> recon_state \<times> (py_error + bool \<times> bool)" where
  "enqueue_reconstruct_jobs_for_closed_path env ts over_cap p st =
     (if pl_needs_ingest p then
        (case enqueue_ingest_of_plan env ts over_cap p st of
           (st1, Inl e) \<Rightarrow> (st1, Inl e) | (st1, Inr b) \<Rightarrow> (st1, Inr (b, False)))
      else if pl_needs_append p then
        (case enqueue_append_of_plan env ts p st of
           (st1, Inl e) \<Rightarrow> (st1, Inl e) | (st1, Inr b) \<Rightarrow> (st1, Inr (False, b)))
      else (st, Inr (False, False)))"

section \<open>Jobs for a day\<close>

definition enqueue_day_close_if_needed ::
    "recon_env \<Rightarrow> (string \<Rightarrow> bool) \<Rightarrow> rat \<Rightarrow> string \<Rightarrow> date option \<Rightarrow> bool option \<Rightarrow> bool option \<Rightarrow> job_store
     \<Rightarrow> py_error + bool \<times> job_store" where
  "enqueue_day_close_if_needed env filesystem_complete_fn now tar_path calendar_day filesystem_complete min_age_elapsed s =
     (case day_close_is_complete (rv_iso_other env) filesystem_complete_fn now DAY_CLOSE_MIN_AGE_HOURS_DEFAULT tar_path
         calendar_day filesystem_complete min_age_elapsed of
        Inl e \<Rightarrow> Inl e
      | Inr True \<Rightarrow> Inr (False, s)
      | Inr False \<Rightarrow>
          (case enqueue_list (rv_cfg env) JOB_KIND_DAY_CLOSE (py_normpath tar_path) True s of
             Inl e \<Rightarrow> Inl e | Inr (_, s1) \<Rightarrow> Inr (True, s1)))"

definition enqueue_cheap_day_close_if_needed ::
    "recon_env \<Rightarrow> rat \<Rightarrow> string \<Rightarrow> date option \<Rightarrow> bool option \<Rightarrow> job_store \<Rightarrow> py_error + bool \<times> job_store" where
  "enqueue_cheap_day_close_if_needed env now tar_path calendar_day min_age_elapsed s =
     (let stem = tar_stem (py_basename (py_normpath tar_path));
          named = (case calendar_day of
              Some day \<Rightarrow> Inr (Some day)
            | None \<Rightarrow>
                if length stem \<ge> 10 then
                  (case date_fromisoformat (rv_iso_other env) (take 10 stem) of
                     Inr day \<Rightarrow> Inr (Some day) | Inl ValueError \<Rightarrow> Inr None | Inl e \<Rightarrow> Inl e)
                else Inr None)
      in case named of
        Inl e \<Rightarrow> Inl e
      | Inr cal \<Rightarrow>
          (case (case (min_age_elapsed, cal) of
                (None, Some day) \<Rightarrow>
                  (case day_close_min_age_elapsed day now (rv_min_age_hours env) of Inl e \<Rightarrow> Inl e | Inr b \<Rightarrow> Inr (Some b))
              | _ \<Rightarrow> Inr min_age_elapsed) of
             Inl e \<Rightarrow> Inl e
           | Inr elapsed \<Rightarrow>
               if elapsed = Some False then Inr (False, s)
               else enqueue_day_close_if_needed env (\<lambda>_. False) now tar_path cal (Some False) elapsed s))"

section \<open>Lemmas\<close>

subsection \<open>One state\<close>

definition rc_inv :: "recon_env \<Rightarrow> recon_state \<Rightarrow> bool" where
  "rc_inv env st \<longleftrightarrow> job_inv (rc_store st) \<and> rem_exact (rv_days env) (rc_store st) (rc_rem st) \<and> dl_inv (rc_dl st)"

lemma active_set_jobs:
  "kind \<in> {JOB_KIND_INGEST, JOB_KIND_APPEND} \<Longrightarrow> active_set kind s = {i. (kind, i) \<in> jobs s}"
  by (auto simp: active_set_def board_jobs_def queued_on_def board_def map_of_None_iff JOB_KINDS_LIST_def kind_name_defs
      simp del: not_None_eq)

lemma finite_active_set: "finite (active_set kind s)"
  by (simp add: active_set_def)

lemma rem_exact_same:
  assumes "\<And>k i. k \<in> {JOB_KIND_INGEST, JOB_KIND_APPEND} \<Longrightarrow> (k, i) \<in> jobs t \<longleftrightarrow> (k, i) \<in> jobs s"
  shows "rem_exact env t r = rem_exact env s r"
  using assms by (simp add: rem_exact_tally active_set_jobs)

lemma rem_exact_insert:
  assumes "rem_exact env s r" "k \<in> {JOB_KIND_INGEST, JOB_KIND_APPEND}" "(k, i) \<notin> jobs s" "jobs t = insert (k, i) (jobs s)"
  shows "rem_exact env t (note_job env k i 1 r)"
proof -
  have "active_set k t = insert i (active_set k s)" "i \<notin> active_set k s"
    using assms by (auto simp: active_set_jobs)
  moreover have "active_set k' t = active_set k' s" if "k' \<in> {JOB_KIND_INGEST, JOB_KIND_APPEND}" "k' \<noteq> k" for k'
    using assms that by (auto simp: active_set_jobs)
  ultimately show ?thesis
    using assms(1,2) by (auto simp: rem_exact_tally note_job_fields kind_name_defs tally_note_up finite_active_set)
qed

lemma rem_exact_delete:
  assumes "rem_exact env s r" "(JOB_KIND_INGEST, i) \<in> jobs s" "jobs t = jobs s - {(JOB_KIND_INGEST, i)}"
  shows "rem_exact env t (note_job env JOB_KIND_INGEST i (- 1) r)"
proof -
  have "active_set JOB_KIND_INGEST t = active_set JOB_KIND_INGEST s - {i}" "i \<in> active_set JOB_KIND_INGEST s"
    "active_set JOB_KIND_APPEND t = active_set JOB_KIND_APPEND s"
    using assms by (auto simp: active_set_jobs kind_name_defs)
  then show ?thesis
    using assms(1) by (simp add: rem_exact_tally note_job_fields kind_name_defs tally_note_down finite_active_set)
qed

lemma ingest_queued_jobs: "ingest_queued i s \<longleftrightarrow> (JOB_KIND_INGEST, i) \<in> jobs s"
  by (auto simp: ingest_queued_def ingest_score_def inflight_contains_def board_jobs_def queued_on_def board_def
      map_of_None_iff simp del: not_None_eq)

subsection \<open>Dead letters\<close>

definition letter_blocks :: "(dl_key \<rightharpoonup> dl_entry) \<Rightarrow> dl_key \<Rightarrow> rat \<Rightarrow> bool" where
  "letter_blocks L key ts = (case L key of None \<Rightarrow> False | Some e \<Rightarrow> entry_blocks ts e)"

lemma blocked_under_spec:
  assumes "dl_inv (rc_dl st)"
  shows "\<exists>dl. blocked_under env dir key ts st =
     (st\<lparr>rc_dl := dl\<rparr>, Inr (dir \<noteq> [] \<and> snd key \<noteq> [] \<and> letter_blocks (letters (rc_dl st)) key ts)) \<and>
     letters dl = letters (rc_dl st) \<and> dl_inv dl"
proof (cases "dir = [] \<or> snd key = []")
  case True
  then have "blocked_under env dir key ts st = (st\<lparr>rc_dl := rc_dl st\<rparr>, Inr False)"
    by (auto simp: blocked_under_def dead_letter_blocked_def)
  then show ?thesis using assms True by (intro exI [of _ "rc_dl st"]) auto
next
  case False
  have "(case letters (rc_dl st) key of None \<Rightarrow> False | Some e \<Rightarrow> dl_terminal e \<or> ts < num_or (dl_readmit_at e) 0) =
      letter_blocks (letters (rc_dl st)) key ts"
    by (auto simp: letter_blocks_def entry_blocks_def split: option.split)
  with False obtain dl where "dead_letter_blocked (rv_dl_cfg env) dir key ts (rc_dl st) =
      Inr (letter_blocks (letters (rc_dl st)) key ts, dl)" "ds_entries dl = ds_entries (rc_dl st)" "dl_inv dl"
    using blocked_spec [OF assms, of dir key "rv_dl_cfg env" ts]
    by auto
  then show ?thesis using False
    by (intro exI [of _ dl]) (simp add: blocked_under_def letters_def stored_def)
qed

subsection \<open>Queueing a closed file\<close>

lemma select_band_cases: "select_ingest_band day today hot = ''hot'' \<or> select_ingest_band day today hot = ''catchup''"
  by (simp add: select_ingest_band_def Let_def)

lemma encode_selected: "\<exists>n. encode_ingest_score sha1 (select_ingest_band day today hot) day today i = Inr n"
  using select_band_cases [of day today hot]
  by (auto simp: encode_ingest_score_def Let_def band_text_def py_strip_def py_lower_def py_lower_char_def py_isspace_def)

lemma note_job_nonzero:
  "(case remainder_day_for_identity env i of
      Some day \<Rightarrow> if b \<and> day \<noteq> [] then note_day_remainder k day d r else r | None \<Rightarrow> r) = (if b then note_job env k i d r else r)"
  using remainder_day_nonempty [of env i] by (auto simp: note_job_def split: option.split)

lemma note_job_if:
  "(case if b then remainder_day_for_identity env i else None of
      Some day \<Rightarrow> if day \<noteq> [] then note_day_remainder k day d r else r | None \<Rightarrow> r) = (if b then note_job env k i d r else r)"
  using remainder_day_nonempty [of env i] by (auto simp: note_job_def split: option.split)

text \<open>What a call may change: the jobs grow by the named job at most, the dead letters stay.\<close>

definition grows :: "recon_env \<Rightarrow> job_key set \<Rightarrow> recon_state \<Rightarrow> recon_state \<Rightarrow> bool" where
  "grows env K st st' \<longleftrightarrow> rc_inv env st' \<and> letters (rc_dl st') = letters (rc_dl st) \<and>
     jobs (rc_store st) \<subseteq> jobs (rc_store st') \<and> jobs (rc_store st') \<subseteq> jobs (rc_store st) \<union> K"

lemma rc_inv_dl: "rc_inv env st \<Longrightarrow> dl_inv dl \<Longrightarrow> rc_inv env (st\<lparr>rc_dl := dl\<rparr>)"
  by (simp add: rc_inv_def)

lemma zadd_grows:
  assumes "rc_inv env st" "zadd_ingest (rv_cfg env) i (of_int n) fp over (rc_store st) = (m, s)"
  shows "grows env {(JOB_KIND_INGEST, i)} st
    (st\<lparr>rc_store := s, rc_rem := (if m \<noteq> 0 then note_job (rv_days env) JOB_KIND_INGEST i 1 (rc_rem st) else rc_rem st)\<rparr>)"
proof -
  let ?k = "(JOB_KIND_INGEST, i)"
  have inv: "job_inv (rc_store st)" "rem_exact (rv_days env) (rc_store st) (rc_rem st)" "dl_inv (rc_dl st)"
    using assms(1) by (auto simp: rc_inv_def)
  have m: "m = 0 \<or> m = 1" using zadd_spec(1) [of "rv_cfg env" i "of_int n" fp over "rc_store st"] assms(2) by (simp split: if_splits)
  have ok: "step_ok (if m = 1 then Admit ?k else Internal) (rc_store st) s" using step_zadd [OF inv(1) assms(2)] .
  show ?thesis
  proof (cases "m = 0")
    case True
    then have "jobs s = jobs (rc_store st)" using ok by (simp add: step_ok_def)
    with True show ?thesis
      using inv step_okD [OF ok] rem_exact_same [of s "rc_store st"] by (auto simp: grows_def rc_inv_def)
  next
    case False
    then have "jobs s = insert ?k (jobs (rc_store st))" "?k \<notin> jobs (rc_store st)" using ok m by (simp_all add: step_ok_def)
    with False show ?thesis
      using inv step_okD [OF ok] rem_exact_insert [OF inv(2), of JOB_KIND_INGEST i s] by (auto simp: grows_def rc_inv_def)
  qed
qed

lemma enqueue_ingest_spec:
  assumes "rc_inv env st"
  shows "\<exists>st' b. enqueue_ingest_of_plan env ts over p st = (st', Inr b) \<and> grows env {(JOB_KIND_INGEST, pl_identity p)} st st' \<and>
     (b \<longrightarrow> (JOB_KIND_INGEST, pl_identity p) \<in> jobs (rc_store st'))"
proof -
  let ?k = "(JOB_KIND_INGEST, pl_identity p)"
  let ?dir = "py_strip (rv_archive_data_dir env)"
  have "dl_inv (rc_dl st)" using assms by (simp add: rc_inv_def)
  from blocked_under_spec [OF this, of env ?dir ?k ts] obtain dl where
    dl: "blocked_under env ?dir ?k ts st = (st\<lparr>rc_dl := dl\<rparr>, Inr (?dir \<noteq> [] \<and> snd ?k \<noteq> [] \<and> letter_blocks (letters (rc_dl st)) ?k ts))"
      "letters dl = letters (rc_dl st)" "dl_inv dl" by blast
  have inv: "rc_inv env (st\<lparr>rc_dl := dl\<rparr>)" using rc_inv_dl [OF assms dl(3)] .
  show ?thesis
  proof (cases "?dir \<noteq> [] \<and> snd ?k \<noteq> [] \<and> letter_blocks (letters (rc_dl st)) ?k ts \<or> pl_calendar_day p = None")
    case True
    then have "enqueue_ingest_of_plan env ts over p st = (st\<lparr>rc_dl := dl\<rparr>, Inr False)"
      using dl(1) by (auto simp: enqueue_ingest_of_plan_def split: bool.split)
    then show ?thesis using inv dl(2) by (auto simp: grows_def)
  next
    case False
    then obtain day where day: "pl_calendar_day p = Some day" by auto
    have bl: "blocked_under env ?dir ?k ts st = (st\<lparr>rc_dl := dl\<rparr>, Inr False)" using False dl(1) by auto
    obtain n where n: "encode_ingest_score (rv_sha1 env) (select_ingest_band day (rv_today env) (rv_hot_days env)) day
        (rv_today env) (pl_identity p) = Inr n" using encode_selected by blast
    obtain m s where z: "zadd_ingest (rv_cfg env) (pl_identity p) (of_int n)
        (if pl_fingerprint p \<noteq> [] then Some (pl_fingerprint p) else None) over (rc_store st) = (m, s)" by force
    let ?st = "st\<lparr>rc_dl := dl, rc_store := s,
      rc_rem := (if m \<noteq> 0 then note_job (rv_days env) JOB_KIND_INGEST (pl_identity p) 1 (rc_rem st) else rc_rem st)\<rparr>"
    have "enqueue_ingest_of_plan env ts over p st = (?st, Inr (m \<noteq> 0 \<or> ingest_queued (pl_identity p) s))"
      using bl day n z by (simp add: enqueue_ingest_of_plan_def note_job_nonzero Let_def)
    moreover have "grows env {?k} (st\<lparr>rc_dl := dl\<rparr>) ?st"
      using zadd_grows [OF inv, of "pl_identity p" n _ over m s] z by (cases "m = 0") simp_all
    then have "grows env {?k} st ?st" using dl(2) by (simp add: grows_def)
    moreover have "?k \<in> jobs s" if "m \<noteq> 0"
    proof -
      have "m = 1" using that zadd_spec(1) [of "rv_cfg env" "pl_identity p" "of_int n"] z by (metis fst_conv)
      moreover have "job_inv (rc_store st)" using assms by (simp add: rc_inv_def)
      ultimately show ?thesis using step_zadd [OF _ z] by (simp add: step_ok_def)
    qed
    ultimately show ?thesis by (auto simp: ingest_queued_jobs)
  qed
qed

lemma enqueue_list_grows:
  assumes "rc_inv env st" "enqueue_list (rv_cfg env) k i True (rc_store st) = Inr (m, s)" "k \<noteq> JOB_KIND_INGEST"
  shows "grows env {(k, i)} st (st\<lparr>rc_store := s,
      rc_rem := (if k = JOB_KIND_APPEND \<and> m \<noteq> 0 then note_job (rv_days env) k i 1 (rc_rem st) else rc_rem st)\<rparr>)"
proof -
  have inv: "job_inv (rc_store st)" "rem_exact (rv_days env) (rc_store st) (rc_rem st)" "dl_inv (rc_dl st)"
    using assms(1) by (auto simp: rc_inv_def)
  have ok: "step_ok (if m = 0 then Internal else Admit (k, i)) (rc_store st) s" using step_enqueue [OF inv(1) assms(2)] .
  then have J: "jobs s = (if m = 0 then jobs (rc_store st) else insert (k, i) (jobs (rc_store st)))"
    "m \<noteq> 0 \<Longrightarrow> (k, i) \<notin> jobs (rc_store st)" by (simp_all add: step_ok_def split: if_splits)
  have "rem_exact (rv_days env) s
      (if k = JOB_KIND_APPEND \<and> m \<noteq> 0 then note_job (rv_days env) k i 1 (rc_rem st) else rc_rem st)"
  proof (cases "k = JOB_KIND_APPEND \<and> m \<noteq> 0")
    case True
    then show ?thesis using rem_exact_insert [OF inv(2), of k i s] J by simp
  next
    case False
    then have "rem_exact (rv_days env) s (rc_rem st) = rem_exact (rv_days env) (rc_store st) (rc_rem st)"
      using J assms(3) by (intro rem_exact_same) (auto split: if_splits)
    then show ?thesis using inv(2) by (simp only: False if_False)
  qed
  then show ?thesis using inv step_okD [OF ok] J(1) by (auto simp: grows_def rc_inv_def)
qed

lemma enqueue_append_spec:
  assumes "rc_inv env st"
  shows "\<exists>st' b. enqueue_append_of_plan env ts p st = (st', Inr b) \<and> grows env {(JOB_KIND_APPEND, pl_path p)} st st'"
proof -
  let ?k = "(JOB_KIND_APPEND, pl_path p)"
  let ?dir = "py_strip (rv_archive_data_dir env)"
  have "dl_inv (rc_dl st)" using assms by (simp add: rc_inv_def)
  from blocked_under_spec [OF this, of env ?dir ?k ts] obtain dl where
    dl: "blocked_under env ?dir ?k ts st = (st\<lparr>rc_dl := dl\<rparr>, Inr (?dir \<noteq> [] \<and> snd ?k \<noteq> [] \<and> letter_blocks (letters (rc_dl st)) ?k ts))"
      "letters dl = letters (rc_dl st)" "dl_inv dl" by blast
  have inv: "rc_inv env (st\<lparr>rc_dl := dl\<rparr>)" using rc_inv_dl [OF assms dl(3)] .
  show ?thesis
  proof (cases "?dir \<noteq> [] \<and> snd ?k \<noteq> [] \<and> letter_blocks (letters (rc_dl st)) ?k ts")
    case True
    then have "enqueue_append_of_plan env ts p st = (st\<lparr>rc_dl := dl\<rparr>, Inr False)"
      using dl(1) by (simp add: enqueue_append_of_plan_def)
    then show ?thesis using inv dl(2) by (auto simp: grows_def)
  next
    case False
    then have bl: "blocked_under env ?dir ?k ts st = (st\<lparr>rc_dl := dl\<rparr>, Inr False)" using dl(1) by auto
    have "js_inv (rc_store st)" "JOB_KIND_APPEND \<in> set JOB_KINDS_LIST" "JOB_KIND_APPEND \<noteq> JOB_KIND_INGEST"
      using assms by (simp_all add: rc_inv_def job_inv_def JOB_KINDS_LIST_def kind_name_defs)
    moreover from this obtain m s where z: "enqueue_list (rv_cfg env) JOB_KIND_APPEND (pl_path p) True (rc_store st) = Inr (m, s)"
      using enqueue_spec [of "rc_store st" JOB_KIND_APPEND "rv_cfg env" "pl_path p"] by blast
    ultimately have "grows env {?k} (st\<lparr>rc_dl := dl\<rparr>) (st\<lparr>rc_dl := dl, rc_store := s,
        rc_rem := (if m \<noteq> 0 then note_job (rv_days env) JOB_KIND_APPEND (pl_path p) 1 (rc_rem st) else rc_rem st)\<rparr>)"
      using enqueue_list_grows [OF inv, of JOB_KIND_APPEND "pl_path p" m s] by (cases "m = 0") simp_all
    moreover have "enqueue_append_of_plan env ts p st = (st\<lparr>rc_dl := dl, rc_store := s,
        rc_rem := (if m \<noteq> 0 then note_job (rv_days env) JOB_KIND_APPEND (pl_path p) 1 (rc_rem st) else rc_rem st)\<rparr>, Inr True)"
      by (simp add: enqueue_append_of_plan_def bl z note_job_if [where b = "m \<noteq> 0", simplified])
    ultimately show ?thesis using dl(2) by (auto simp: grows_def)
  qed
qed

lemma enqueue_reconstruct_spec:
  assumes "rc_inv env st"
  shows "\<exists>st' i a. enqueue_reconstruct_jobs_for_closed_path env ts over p st = (st', Inr (i, a)) \<and>
     grows env {(JOB_KIND_INGEST, pl_identity p), (JOB_KIND_APPEND, pl_path p)} st st' \<and>
     (i \<longrightarrow> (JOB_KIND_INGEST, pl_identity p) \<in> jobs (rc_store st')) \<and> \<not> (i \<and> a) \<and>
     (\<not> pl_needs_ingest p \<and> \<not> pl_needs_append p \<longrightarrow> st' = st)"
proof -
  have weaken: "grows env K' st st'" if "grows env K st st'" "K \<subseteq> K'" for K K' st'
    using that by (auto simp: grows_def)
  show ?thesis
  proof (cases "pl_needs_ingest p")
    case True
    from enqueue_ingest_spec [OF assms, of ts over p] obtain st' b where
      "enqueue_ingest_of_plan env ts over p st = (st', Inr b)" "grows env {(JOB_KIND_INGEST, pl_identity p)} st st'"
      "b \<longrightarrow> (JOB_KIND_INGEST, pl_identity p) \<in> jobs (rc_store st')" by blast
    with True show ?thesis
      using weaken [of "{(JOB_KIND_INGEST, pl_identity p)}" st'] by (auto simp: enqueue_reconstruct_jobs_for_closed_path_def)
  next
    case ingest: False
    show ?thesis
    proof (cases "pl_needs_append p")
      case True
      from enqueue_append_spec [OF assms, of ts p] obtain st' b where
        "enqueue_append_of_plan env ts p st = (st', Inr b)" "grows env {(JOB_KIND_APPEND, pl_path p)} st st'" by blast
      with True ingest show ?thesis
        using weaken [of "{(JOB_KIND_APPEND, pl_path p)}" st'] by (auto simp: enqueue_reconstruct_jobs_for_closed_path_def)
    next
      case False
      with ingest show ?thesis using assms by (auto simp: enqueue_reconstruct_jobs_for_closed_path_def grows_def)
    qed
  qed
qed

text \<open>Only the cap of the ingest queue keeps a file that may be queued out of it.\<close>

lemma zadd_admits:
  assumes "job_inv s" "\<not> (discover_ingest_capacity_limit cfg \<le> int (length (js_ingest s)) \<and> in_band ''catchup'' sc \<and> \<not> over)"
  shows "(JOB_KIND_INGEST, i) \<in> jobs (snd (zadd_ingest cfg i sc fp over s))"
proof (cases "ingest_refused cfg i sc over s")
  case True
  then have "jb_inflight (board s) (JOB_KIND_INGEST, i) \<noteq> None" using assms(2) by (auto simp: ingest_refused_def)
  then show ?thesis using True by (simp add: zadd_spec(2) board_jobs_def)
next
  case False
  then show ?thesis by (simp add: zadd_spec(2) board_jobs_queue JOB_KINDS_ALL_def)
qed

lemma enqueue_ingest_admits:
  assumes "rc_inv env st" "pl_calendar_day p = Some day"
    "py_strip (rv_archive_data_dir env) = [] \<or> \<not> letter_blocks (letters (rc_dl st)) (JOB_KIND_INGEST, pl_identity p) ts"
    "over \<or> int (length (js_ingest (rc_store st))) < discover_ingest_capacity_limit (rv_cfg env)"
  shows "\<exists>st'. enqueue_ingest_of_plan env ts over p st = (st', Inr True)"
proof -
  let ?k = "(JOB_KIND_INGEST, pl_identity p)"
  let ?dir = "py_strip (rv_archive_data_dir env)"
  have inv: "dl_inv (rc_dl st)" "job_inv (rc_store st)" using assms(1) by (simp_all add: rc_inv_def)
  from blocked_under_spec [OF inv(1), of env ?dir ?k ts] assms(3) obtain dl where
    bl: "blocked_under env ?dir ?k ts st = (st\<lparr>rc_dl := dl\<rparr>, Inr False)" by auto
  obtain n where n: "encode_ingest_score (rv_sha1 env) (select_ingest_band day (rv_today env) (rv_hot_days env)) day
      (rv_today env) (pl_identity p) = Inr n" using encode_selected by blast
  have "?k \<in> jobs (snd (zadd_ingest (rv_cfg env) (pl_identity p) (of_int n)
      (if pl_fingerprint p \<noteq> [] then Some (pl_fingerprint p) else None) over (rc_store st)))"
    using assms(4) by (intro zadd_admits inv) auto
  then show ?thesis
    by (simp add: enqueue_ingest_of_plan_def bl assms(2) n Let_def ingest_queued_jobs case_prod_beta')
qed

lemma classify_eq:
  fixes env :: file_env and path :: string
  assumes "ingest_identity (py_normpath path) = Inr i"
  defines "skip \<equiv> is_internal_archive_stats_path (py_normpath path) \<or> stats_file_is_active_segment env (py_normpath path)"
  shows "classify_closed_raw_path env tgz sz mtime_ns day tar path =
     Inr \<lparr>pl_path = py_normpath path, pl_identity = i, pl_needs_ingest = (\<not> skip \<and> \<not> fe_ingest_complete env (py_normpath path)),
       pl_needs_append = (\<not> skip \<and> \<not> (fe_ingest_complete env (py_normpath path) \<and> fe_append_complete env (py_normpath path) (py_strip tgz))),
       pl_calendar_day = day,
       pl_tar_path = (case (tar, day) of
          (None, Some d) \<Rightarrow>
            if \<not> skip \<and> py_strip tgz \<noteq> [] then Some (py_normpath (py_path_join (py_strip tgz) (isoformat d @ ''.tar''))) else None
        | _ \<Rightarrow> tar),
       pl_fingerprint = ingest_fingerprint sz mtime_ns\<rparr>"
proof (cases skip)
  case True
  then show ?thesis
    unfolding classify_closed_raw_path_def Let_def assms(1)
    by (simp add: skip_def [symmetric] split: option.split)
next
  case False
  then show ?thesis
    unfolding classify_closed_raw_path_def Let_def assms(1)
    by (simp add: skip_def [symmetric] split: option.split)
qed

lemma classify_error: "ingest_identity (py_normpath path) = Inl e \<Longrightarrow>
    classify_closed_raw_path env tgz sz mtime_ns day tar path = Inl e"
  by (simp add: classify_closed_raw_path_def)

lemma active_segment_append [simp]:
  "stats_file_is_active_segment (env\<lparr>fe_append_complete := f\<rparr>) = stats_file_is_active_segment env"
  by (simp add: fun_eq_iff stats_file_is_active_segment_def)

section \<open>A small archive\<close>

text \<open>One host, no open file, nothing ingested; the local date of an epoch is counted in UTC.\<close>

definition demo_day_env :: day_env where
  "demo_day_env = \<lparr>de_local_date = (\<lambda>t. date_fromordinal (719163 + \<lfloor>t\<rfloor> div 86400)), de_getmtime = (\<lambda>_. None)\<rparr>"

definition demo_file_env :: file_env where
  "demo_file_env = \<lparr>fe_isfile = (\<lambda>_. False), fe_samefile = (\<lambda>_ _. None), fe_ingest_complete = (\<lambda>p. p = ''/a/h.x/1700000000''),
     fe_append_complete = (\<lambda>_ _. False)\<rparr>"

definition demo_recon_env :: recon_env where
  "demo_recon_env = \<lparr>rv_cfg = \<lparr>get_sync_ingest_per_file_timeout_max_s = None, get_sync_job_queue_max_members = Some 1000,
       get_sync_ingest_queue_max_size = Some 1, get_sync_archive_retry_max_attempts = None\<rparr>,
     rv_dl_cfg = demo_dl_cfg, rv_sha1 = (\<lambda>_. [0, 0, 0, 1]), rv_days = demo_day_env, rv_files = demo_file_env,
     rv_today = 739000, rv_hot_days = 8, rv_archive_data_dir = [], rv_tgz_archive_dir = ''/t'', rv_min_age_hours = 32,
     rv_iso_other = (\<lambda>_. Inl ValueError)\<rparr>"

definition demo_recon :: recon_state where
  "demo_recon = \<lparr>rc_store = js_empty ''/d'', rc_rem = rm_empty, rc_dl = no_letters\<rparr>"

lemma active_set_empty [simp]: "active_set k (js_empty d) = {}"
  by (simp add: active_set_def js_empty_def)

lemma rc_inv_demo: "rc_inv demo_recon_env demo_recon"
  by (simp add: rc_inv_def demo_recon_def job_inv_empty rem_exact_tally tally_def left_of_def rm_empty_def
      dl_inv_def no_letters_def stored_def index_of_def)

definition demo_plan :: closed_path_plan where
  "demo_plan = \<lparr>pl_path = ''/a/h.x/1600000000'', pl_identity = ''/a/h.x/1600000000'', pl_needs_ingest = True, pl_needs_append = True,
     pl_calendar_day = Some 737681, pl_tar_path = None, pl_fingerprint = []\<rparr>"

text \<open>An append queue at its capacity.\<close>

definition full_append :: "string list \<Rightarrow> job_store" where
  "full_append xs = (js_empty ''/d'')\<lparr>js_lists := (\<lambda>_. [])(JOB_KIND_APPEND := xs),
     js_pending := (\<lambda>_. {})(JOB_KIND_APPEND := set xs), js_shadow_lists := (\<lambda>_. [])(JOB_KIND_APPEND := xs),
     js_shadow_pending := (\<lambda>_. {})(JOB_KIND_APPEND := set xs)\<rparr>"

lemma job_inv_full_append: "distinct xs \<Longrightarrow> job_inv (full_append xs)"
  by (simp add: full_append_def job_inv_def js_inv_def queue_ok_def claims_ok_def shadow_inv_def payloads_ok_def
      js_empty_def board_integral_def board_def JOB_KINDS_LIST_def)

lemma full_append_list [simp]: "js_lists (full_append xs) JOB_KIND_APPEND = xs"
  by (simp add: full_append_def)

lemma distinct_show_nats: "distinct (map show_nat [0..<n])"
  by (auto simp: distinct_map intro!: inj_onI) (metis option.inject read_show_nat)

section \<open>Properties\<close>

text \<open>What a closed file needs is decided in order: nothing while it lies under a dot directory or is the
  open file of its host, ingest while it is not ingested, append once it is ingested and not in the
  tar, and never two jobs at once. The tar is not looked at before the file is ingested.\<close>

theorem classify_ingest_before_append:
  assumes "classify_closed_raw_path env tgz sz mtime_ns day tar path = Inr p"
  shows "kinds_to_enqueue p =
     (let norm = py_normpath path in
      if is_internal_archive_stats_path norm \<or> stats_file_is_active_segment env norm then []
      else if \<not> fe_ingest_complete env norm then [JOB_KIND_INGEST]
      else if \<not> fe_append_complete env norm (py_strip tgz) then [JOB_KIND_APPEND] else []) \<and>
    (pl_needs_ingest p \<longrightarrow>
      classify_closed_raw_path (env\<lparr>fe_append_complete := f\<rparr>) tgz sz mtime_ns day tar path = Inr p)"
proof (cases "ingest_identity (py_normpath path)")
  case (Inr i)
  note c = classify_eq [where path = path and tgz = tgz and sz = sz and mtime_ns = mtime_ns and day = day and tar = tar, OF Inr]
  from assms c [of env] show ?thesis by (auto simp: c kinds_to_enqueue_def Let_def split: option.split)
qed (use assms classify_error in auto)

theorem classify_ingest_before_append_witness:
  "\<exists>p. classify_closed_raw_path demo_file_env ''/t'' 10 20 (Some 737681) None ''/a/h.x/./1600000000'' = Inr p \<and>
     kinds_to_enqueue p = [JOB_KIND_INGEST]"
proof -
  have "ingest_identity (py_normpath ''/a/h.x/./1600000000'') = Inr ''/a/h.x/1600000000''"
    by code_simp
  from classify_eq [OF this] obtain p where p: "classify_closed_raw_path demo_file_env ''/t'' 10 20 (Some 737681) None ''/a/h.x/./1600000000'' = Inr p"
    by metis
  have "\<not> is_internal_archive_stats_path (py_normpath ''/a/h.x/./1600000000'')"
    "\<not> stats_file_is_active_segment demo_file_env (py_normpath ''/a/h.x/./1600000000'')"
    "\<not> fe_ingest_complete demo_file_env (py_normpath ''/a/h.x/./1600000000'')"
    by code_simp+
  then show ?thesis using classify_ingest_before_append [OF p] p by (simp add: Let_def)
qed

text \<open>C32: Queueing the jobs of a closed file never raises and keeps the state in order: the store keeps its
  invariant, the remainders stay the exact counts of each day, the dead letters stay as they are, no
  job leaves the store, and no job but this file's enters it. Ingest and append are never both
  reported, and what is reported for ingest is queued or in flight; a file that needs ingest, has a day
  and no blocking dead letter is reported unless the queue is full.\<close>

theorem reconstruct_enqueue_exact:
  assumes "rc_inv env st" "enqueue_reconstruct_jobs_for_closed_path env ts over_cap p st = (st', res)"
  shows "\<exists>i a. res = Inr (i, a) \<and> rc_inv env st' \<and> letters (rc_dl st') = letters (rc_dl st) \<and>
     jobs (rc_store st) \<subseteq> jobs (rc_store st') \<and>
     jobs (rc_store st') \<subseteq> jobs (rc_store st) \<union> {(JOB_KIND_INGEST, pl_identity p), (JOB_KIND_APPEND, pl_path p)} \<and>
     (i \<longrightarrow> (JOB_KIND_INGEST, pl_identity p) \<in> jobs (rc_store st')) \<and> \<not> (i \<and> a) \<and>
     (pl_needs_ingest p \<and> pl_calendar_day p \<noteq> None \<and>
      (over_cap \<or> int (length (js_ingest (rc_store st))) < discover_ingest_capacity_limit (rv_cfg env)) \<and>
      (py_strip (rv_archive_data_dir env) = [] \<or> \<not> letter_blocks (letters (rc_dl st)) (JOB_KIND_INGEST, pl_identity p) ts)
      \<longrightarrow> i)"
proof -
  from enqueue_reconstruct_spec [OF assms(1), of ts over_cap p] assms(2) obtain i a where
    r: "res = Inr (i, a)" "grows env {(JOB_KIND_INGEST, pl_identity p), (JOB_KIND_APPEND, pl_path p)} st st'"
      "i \<longrightarrow> (JOB_KIND_INGEST, pl_identity p) \<in> jobs (rc_store st')" "\<not> (i \<and> a)" by auto
  have "i" if h: "pl_needs_ingest p" "pl_calendar_day p \<noteq> None"
      "over_cap \<or> int (length (js_ingest (rc_store st))) < discover_ingest_capacity_limit (rv_cfg env)"
      "py_strip (rv_archive_data_dir env) = [] \<or> \<not> letter_blocks (letters (rc_dl st)) (JOB_KIND_INGEST, pl_identity p) ts"
  proof -
    obtain day where "pl_calendar_day p = Some day" using h(2) by blast
    from enqueue_ingest_admits [OF assms(1) this h(4) h(3)] obtain st1 where
      "enqueue_ingest_of_plan env ts over_cap p st = (st1, Inr True)" by blast
    then show ?thesis using assms(2) r(1) h(1) by (simp add: enqueue_reconstruct_jobs_for_closed_path_def)
  qed
  with r show ?thesis unfolding grows_def by blast
qed

theorem reconstruct_enqueue_exact_witness:
  "\<exists>st'. enqueue_reconstruct_jobs_for_closed_path demo_recon_env 0 False demo_plan demo_recon = (st', Inr (True, False)) \<and>
     rc_inv demo_recon_env st' \<and> (JOB_KIND_INGEST, ''/a/h.x/1600000000'') \<in> jobs (rc_store st')"
proof -
  obtain st' res where e: "enqueue_reconstruct_jobs_for_closed_path demo_recon_env 0 False demo_plan demo_recon = (st', res)"
    by force
  have "int (length (js_ingest (rc_store demo_recon))) < discover_ingest_capacity_limit (rv_cfg demo_recon_env)"
    "py_strip (rv_archive_data_dir demo_recon_env) = []"
    by code_simp+
  with reconstruct_enqueue_exact [OF rc_inv_demo e] have
    "\<exists>i a. res = Inr (i, a) \<and> rc_inv demo_recon_env st' \<and> (JOB_KIND_INGEST, ''/a/h.x/1600000000'') \<in> jobs (rc_store st') \<and> i \<and> \<not> a"
    by (auto simp: demo_plan_def)
  with e show ?thesis by auto
qed

text \<open>A day is complete only when its files are and the day ended at least the configured hours
  before: no recorded phase and no argument that leaves the day open can close it earlier.\<close>

theorem day_complete_needs_age:
  assumes "day_close_is_complete other fs_fn now hours tar (Some day) fs None = Inr True"
  shows "(case fs of Some b \<Rightarrow> b | None \<Rightarrow> fs_fn (py_normpath tar)) \<and> (of_int day * 86400 + hours * 3600 \<le> now)"
  using assms by (auto simp: day_close_is_complete_def day_close_min_age_elapsed_def Let_def split: if_splits option.splits)

theorem day_complete_needs_age_witness:
  "day_close_is_complete (\<lambda>_. Inl ValueError) (\<lambda>_. True) 63120000000 32 ''/t/x.tar'' (Some 730000) None None = Inr True \<and>
   730000 * 86400 + 32 * 3600 \<le> (63120000000 :: rat)"
proof -
  have "day_close_is_complete (\<lambda>_. Inl ValueError) (\<lambda>_. True) 63120000000 32 ''/t/x.tar'' (Some 730000) None None = Inr True"
    by (simp add: day_close_is_complete_def py_normpath_def Let_def day_close_min_age_elapsed_def datetime_ok_def
        initial_slashes_def)
  with day_complete_needs_age [OF this] show ?thesis by simp
qed

text \<open>The cheap check queues a day's close exactly when the day is old enough; then the job is in the
  store unless its queue is full, and a second check changes nothing.\<close>

theorem cheap_day_close_when_due:
  assumes "job_inv s" "datetime_ok (of_int day * 86400)" "datetime_ok (of_int day * 86400 + rv_min_age_hours env * 3600)"
  shows "\<exists>s'. enqueue_cheap_day_close_if_needed env now tar (Some day) None s =
       Inr (of_int day * 86400 + rv_min_age_hours env * 3600 \<le> now, s') \<and> job_inv s' \<and>
     (if of_int day * 86400 + rv_min_age_hours env * 3600 \<le> now
      then ((JOB_KIND_DAY_CLOSE, py_normpath tar) \<in> jobs s' \<or>
          queue_capacity_limit (rv_cfg env) \<le> int (length (js_lists s JOB_KIND_DAY_CLOSE))) \<and>
        enqueue_cheap_day_close_if_needed env now tar (Some day) None s' = Inr (True, s')
      else s' = s)"
proof (cases "of_int day * 86400 + rv_min_age_hours env * 3600 \<le> now")
  case True
  let ?k = "(JOB_KIND_DAY_CLOSE, py_normpath tar)"
  have kd: "JOB_KIND_DAY_CLOSE \<in> set JOB_KINDS_LIST" by (simp add: JOB_KINDS_LIST_def)
  have step: "enqueue_cheap_day_close_if_needed env now tar (Some day) None u =
      (case enqueue_list (rv_cfg env) JOB_KIND_DAY_CLOSE (py_normpath tar) True u of Inl e \<Rightarrow> Inl e | Inr (_, u1) \<Rightarrow> Inr (True, u1))" for u
    using True assms(2,3)
    by (simp add: enqueue_cheap_day_close_if_needed_def enqueue_day_close_if_needed_def day_close_is_complete_def
        day_close_min_age_elapsed_def Let_def)
  have inv: "js_inv s" using assms(1) by (simp add: job_inv_def)
  from enqueue_spec [OF inv kd, of "rv_cfg env" "py_normpath tar"] obtain m t where
    e: "enqueue_list (rv_cfg env) JOB_KIND_DAY_CLOSE (py_normpath tar) True s = Inr (m, t)" by blast
  have ok: "step_ok (if m = 0 then Internal else Admit ?k) s t" using step_enqueue [OF assms(1) e] .
  then have invt: "job_inv t" by (rule step_okD)
  have full: "?k \<in> jobs t \<or> queue_capacity_limit (rv_cfg env) \<le> int (length (js_lists t JOB_KIND_DAY_CLOSE)) \<and> t = s"
    using enqueue_spec [OF inv kd, of "rv_cfg env" "py_normpath tar"] e ok
    by (auto simp: step_ok_def board_jobs_def split: if_splits)
  then have "enqueue_list (rv_cfg env) JOB_KIND_DAY_CLOSE (py_normpath tar) True t = Inr (0, t)"
    using enqueue_spec [of t JOB_KIND_DAY_CLOSE "rv_cfg env" "py_normpath tar", OF _ kd] invt
    by (auto simp: job_inv_def board_jobs_def split: if_splits)
  then show ?thesis using True e full invt by (auto simp: step)
qed (use assms in \<open>simp add: enqueue_cheap_day_close_if_needed_def day_close_min_age_elapsed_def Let_def\<close>)

theorem cheap_day_close_when_due_witness:
  "\<exists>s'. enqueue_cheap_day_close_if_needed demo_recon_env 64000000000 ''/t/x.tar'' (Some 730000) None (js_empty ''/d'') = Inr (True, s') \<and>
     (JOB_KIND_DAY_CLOSE, py_normpath ''/t/x.tar'') \<in> jobs s'"
  using cheap_day_close_when_due [OF job_inv_empty, where day = 730000 and env = demo_recon_env and now = 64000000000 and
      tar = "''/t/x.tar''", of "''/d''"]
  by (simp add: datetime_ok_def demo_recon_env_def js_empty_def queue_capacity_limit_def QUEUE_MAX_MEMBERS_FLOOR_def)
    blast

text \<open>The append job of a file is reported as enqueued even when the store refused it because the
  append queue is full: nothing was queued, and the remainders did not count it.\<close>

theorem append_reported_when_refused:
  assumes "job_inv (rc_store st)" "pl_needs_append p" "\<not> pl_needs_ingest p" "py_strip (rv_archive_data_dir env) = []"
    "queue_capacity_limit (rv_cfg env) \<le> int (length (js_lists (rc_store st) JOB_KIND_APPEND))"
  shows "enqueue_reconstruct_jobs_for_closed_path env ts over_cap p st = (st, Inr (False, True))"
proof -
  have "js_inv (rc_store st)" "JOB_KIND_APPEND \<in> set JOB_KINDS_LIST"
    using assms(1) by (simp_all add: job_inv_def JOB_KINDS_LIST_def)
  then have "enqueue_list (rv_cfg env) JOB_KIND_APPEND (pl_path p) True (rc_store st) = Inr (0, rc_store st)"
    using enqueue_spec [of "rc_store st" JOB_KIND_APPEND "rv_cfg env" "pl_path p"] assms(5) by auto
  then show ?thesis
    using assms(2-4) by (simp add: enqueue_reconstruct_jobs_for_closed_path_def enqueue_append_of_plan_def blocked_under_def)
qed

theorem append_reported_when_refused_witness:
  "enqueue_reconstruct_jobs_for_closed_path demo_recon_env 0 False (demo_plan\<lparr>pl_needs_ingest := False\<rparr>)
     (demo_recon\<lparr>rc_store := full_append (map show_nat [0..<1000])\<rparr>) =
   (demo_recon\<lparr>rc_store := full_append (map show_nat [0..<1000])\<rparr>, Inr (False, True))"
  by (rule append_reported_when_refused)
    (simp_all add: job_inv_full_append distinct_show_nats demo_plan_def demo_recon_env_def py_strip_def
      queue_capacity_limit_def QUEUE_MAX_MEMBERS_FLOOR_def)

end
