(* ===== verification/Discover.thy ===== *)
theory Discover
  imports Reconstruct
begin

text \<open>
  \<open>dbload/lib/sync_timedb_job_discover.py\<close>: the walk over the raw files that queues the jobs they still
  need. Old days (backfill) share a bounded queue: at the cap an older file pushes out the youngest
  queued one, and a file that finds no room lowers the frontier, the day from which on a later walk has
  to look again. A record comes with the clock readings the code takes while it handles it. The walk's
  counters, its frontier and the files it pushed out are one record around the state of \<open>Reconstruct\<close>;
  an error ends the walk and leaves that state as it is. Progress reporting is not modelled.
  Lemmas: the loop that makes room ends; a walk keeps the store's invariant and the remainders exact,
  also when it ends in an error; below the frontier every file that needs ingest is queued or in flight.
\<close>

section \<open>Days of records\<close>

record streaming_discover_stats =
  sd_seen :: nat
  sd_enqueued_ingest :: nat
  sd_enqueued_append :: nat
  sd_skipped_complete :: nat
  sd_enqueued_day_close :: nat
  sd_stopped_at_capacity :: bool
  sd_dropped_at_capacity :: nat
  sd_frontier_day :: "date option"

text \<open>\<open>round\<close> takes a tie to the even neighbour.\<close>

definition py_round :: "rat \<Rightarrow> int" where
  "py_round r =
     (let f = \<lfloor>r\<rfloor>; d = r - of_int f in
      if d < 1 / 2 then f else if d > 1 / 2 then f + 1 else if even f then f else f + 1)"

definition find_record_mtime_ns :: "rat \<Rightarrow> int" where
  "find_record_mtime_ns mtime = py_round (mtime * 1000000000)"

text \<open>\<open>str.isdigit\<close> also takes the superscripts, which \<open>int\<close> rejects.\<close>

definition py_isdigit :: "string \<Rightarrow> bool" where
  "py_isdigit s \<longleftrightarrow> s \<noteq> [] \<and>
     list_all (\<lambda>c. digit_value c \<noteq> None \<or> (of_char c :: nat) \<in> {178, 179, 185}) s"

definition basename_date :: "day_env \<Rightarrow> string \<Rightarrow> date option" where
  "basename_date env path =
     (let name = py_basename path in
      if ends_with ''.json'' name then None
      else (case (if length name \<ge> 10 then date_strptime10 (take 10 name) else Inl ValueError) of
          Inr d \<Rightarrow> Some d
        | Inl _ \<Rightarrow>
            if \<not> py_isdigit name then None
            else (case py_int name of
                None \<Rightarrow> None
              | Some epoch \<Rightarrow> if epoch < 1000000000 then None else de_local_date env (of_int epoch))))"

definition calendar_day_from_find_record :: "day_env \<Rightarrow> find_stats_record \<Rightarrow> date option" where
  "calendar_day_from_find_record env rec = basename_date env (fr_path rec)"

text \<open>A bound of the range: a \<open>datetime\<close>, a \<open>date\<close> or anything else.\<close>

datatype filter_date = FDatetime rat | FDate date | FOther

fun coerce_filter_date :: "filter_date option \<Rightarrow> date option" where
  "coerce_filter_date (Some (FDatetime t)) = Some (\<lfloor>t / 86400\<rfloor> + 1)"
| "coerce_filter_date (Some (FDate d)) = Some d"
| "coerce_filter_date _ = None"

definition filter_find_records_for_date_range ::
    "day_env \<Rightarrow> filter_date option \<Rightarrow> filter_date option \<Rightarrow> find_stats_record list \<Rightarrow> find_stats_record list" where
  "filter_find_records_for_date_range env startdate enddate records =
     (let start_d = coerce_filter_date startdate; end_d = coerce_filter_date enddate in
      if start_d = None \<and> end_d = None then records
      else filter (\<lambda>rec. case basename_date env (fr_path rec) of
          None \<Rightarrow> False
        | Some rec_day \<Rightarrow>
            (case start_d of None \<Rightarrow> True | Some d \<Rightarrow> \<not> rec_day < d) \<and>
            (case end_d of None \<Rightarrow> True | Some d \<Rightarrow> \<not> rec_day > d)) records)"

section \<open>The walk\<close>

record walk =
  wk_st :: recon_state
  wk_seen :: nat
  wk_enqueued_ingest :: nat
  wk_enqueued_append :: nat
  wk_skipped_complete :: nat
  wk_enqueued_day_close :: nat
  wk_day_close_seen :: "string list"
  wk_stopped :: bool
  wk_dropped :: nat
  wk_frontier :: "date option"
  wk_evicted :: "string list"

definition walk_start :: "recon_state \<Rightarrow> walk" where
  "walk_start st = \<lparr>wk_st = st, wk_seen = 0, wk_enqueued_ingest = 0, wk_enqueued_append = 0, wk_skipped_complete = 0,
     wk_enqueued_day_close = 0, wk_day_close_seen = [], wk_stopped = False, wk_dropped = 0, wk_frontier = None,
     wk_evicted = []\<rparr>"

text \<open>The clocks read for one record: by the dead-letter checks and by the day-close check.\<close>

record tick =
  tk_enqueue :: rat
  tk_after :: rat
  tk_now :: rat

definition lowered :: "date \<Rightarrow> date option \<Rightarrow> date option" where
  "lowered cal frontier = Some (case frontier of None \<Rightarrow> cal | Some f \<Rightarrow> min f cal)"

definition has_ingest_room :: "recon_env \<Rightarrow> recon_state \<Rightarrow> bool" where
  "has_ingest_room env st =
     queue_has_capacity (rv_cfg env) JOB_KIND_INGEST (Some (discover_ingest_capacity_limit (rv_cfg env))) (rc_store st)"

definition evict_younger :: "recon_env \<Rightarrow> date \<Rightarrow> recon_state \<Rightarrow> string option \<times> recon_state" where
  "evict_younger env day st =
     (case evict_youngest_catchup_ingest day (rc_store st) of
        (gone, s1) \<Rightarrow>
          (gone, st\<lparr>rc_store := s1,
             rc_rem := (case gone of
                 None \<Rightarrow> rc_rem st
               | Some g \<Rightarrow> (case (if g \<noteq> [] then remainder_day_for_identity (rv_days env) g else None) of
                     Some remainder_day \<Rightarrow>
                       if remainder_day \<noteq> [] then note_day_remainder JOB_KIND_INGEST remainder_day (- 1) (rc_rem st)
                       else rc_rem st
                   | None \<Rightarrow> rc_rem st))\<rparr>))"

lemma evict_loop_shrinks:
  "evict_loop day h s = (Some g, t) \<Longrightarrow> length (js_ingest t) < length (js_ingest s)"
proof (induction day h s rule: evict_loop.induct)
  case (2 day ns i h s)
  show ?case
  proof (cases "map_of (js_ingest s) i = Some (- ns)")
    case True
    then have "length (AList.delete i (js_ingest s)) < length (js_ingest s)"
      unfolding AList.delete_eq by (intro length_filter_less [of "(i, - ns)"]) (auto dest: map_of_SomeD)
    with True 2(2) show ?thesis
      by (auto simp: Let_def ingest_pop_def ingest_band_dec_def mark_dirty_def maybe_persist_def persist_lazy_def
          split: option.splits if_splits)
  qed (use 2 in auto)
qed simp

lemma evict_younger_shrinks:
  "evict_younger env day st = (Some g, st1) \<Longrightarrow> length (js_ingest (rc_store st1)) < length (js_ingest (rc_store st))"
  using evict_loop_shrinks by (auto simp: evict_younger_def evict_youngest_catchup_ingest_def split: prod.splits)

text \<open>The \<open>while\<close> loop: push out younger files until this one fits or nothing younger is left.\<close>

function make_room :: "recon_env \<Rightarrow> date \<Rightarrow> bool \<Rightarrow> closed_path_plan \<Rightarrow> walk \<Rightarrow> closed_path_plan \<times> walk" where
  "make_room env cal has_cap p w =
     (if has_cap \<or> \<not> pl_needs_ingest p \<or> ingest_queued (pl_identity p) (rc_store (wk_st w)) then (p, w)
      else (case evict_younger env cal (wk_st w) of
          (None, st) \<Rightarrow>
            (p\<lparr>pl_needs_ingest := False, pl_needs_append := False\<rparr>,
             w\<lparr>wk_st := st, wk_frontier := lowered cal (wk_frontier w), wk_dropped := Suc (wk_dropped w)\<rparr>)
        | (Some gone, st) \<Rightarrow>
            make_room env cal (has_ingest_room env st) p (w\<lparr>wk_st := st, wk_evicted := wk_evicted w @ [gone]\<rparr>)))"
  by pat_completeness auto
termination
  by (relation "measure (\<lambda>(env, cal, has_cap, p, w). length (js_ingest (rc_store (wk_st w))))")
    (auto dest: evict_younger_shrinks [OF sym])

declare make_room.simps [simp del]

text \<open>The end of a record: the counters and the close of its day.\<close>

definition walk_count ::
    "recon_env \<Rightarrow> tick \<Rightarrow> closed_path_plan \<Rightarrow> bool \<Rightarrow> bool \<Rightarrow> walk \<Rightarrow> walk \<times> py_error option" where
  "walk_count env tk p ingest app w =
     (let w1 = w\<lparr>wk_enqueued_ingest := wk_enqueued_ingest w + (if ingest then 1 else 0),
              wk_enqueued_append := wk_enqueued_append w + (if app then 1 else 0),
              wk_skipped_complete := wk_skipped_complete w + (if ingest \<or> app then 0 else 1)\<rparr>;
          tar = py_strip (case pl_tar_path p of None \<Rightarrow> [] | Some t \<Rightarrow> t)
      in if tar \<noteq> [] \<and> tar \<notin> set (wk_day_close_seen w1) then
           (case enqueue_cheap_day_close_if_needed env (tk_now tk) tar (pl_calendar_day p) None (rc_store (wk_st w1)) of
              Inl e \<Rightarrow> (w1, Some e)
            | Inr (queued, s) \<Rightarrow>
                let w2 = w1\<lparr>wk_st := (wk_st w1)\<lparr>rc_store := s\<rparr>\<rparr>
                in (if queued then w2\<lparr>wk_day_close_seen := wk_day_close_seen w2 @ [tar],
                        wk_enqueued_day_close := Suc (wk_enqueued_day_close w2)\<rparr> else w2, None))
         else (w1, None))"

text \<open>A backfill file that was not queued: its day stays open unless a dead letter holds it back.\<close>

definition walk_after ::
    "recon_env \<Rightarrow> tick \<Rightarrow> date option \<Rightarrow> closed_path_plan \<Rightarrow> bool \<Rightarrow> bool \<Rightarrow> walk \<Rightarrow> walk \<times> py_error option" where
  "walk_after env tk backfill_day p ingest app w =
     (case backfill_day of
        Some cal \<Rightarrow>
          if pl_needs_ingest p \<and> \<not> ingest then
            (case blocked_under env (rv_archive_data_dir env) (JOB_KIND_INGEST, pl_identity p) (tk_after tk) (wk_st w) of
               (st, Inl e) \<Rightarrow> (w\<lparr>wk_st := st\<rparr>, Some e)
             | (st, Inr True) \<Rightarrow> walk_count env tk p ingest app (w\<lparr>wk_st := st\<rparr>)
             | (st, Inr False) \<Rightarrow>
                 walk_count env tk p False False
                   (w\<lparr>wk_st := st, wk_frontier := lowered cal (wk_frontier w), wk_dropped := Suc (wk_dropped w)\<rparr>))
          else walk_count env tk p ingest app w
      | None \<Rightarrow> walk_count env tk p ingest app w)"

text \<open>From the plan of a record to the end of its turn.\<close>

definition walk_plan ::
    "recon_env \<Rightarrow> tick \<Rightarrow> date option \<Rightarrow> bool \<Rightarrow> closed_path_plan \<Rightarrow> walk \<Rightarrow> walk \<times> py_error option" where
  "walk_plan env tk backfill_day has_cap p w =
     (case (case backfill_day of Some d \<Rightarrow> make_room env d has_cap p w | None \<Rightarrow> (p, w)) of
        (p1, w2) \<Rightarrow>
          (case enqueue_reconstruct_jobs_for_closed_path env (tk_enqueue tk) False p1 (wk_st w2) of
             (st, Inl e) \<Rightarrow> (w2\<lparr>wk_st := st\<rparr>, Some e)
           | (st, Inr (ingest, app)) \<Rightarrow> walk_after env tk backfill_day p1 ingest app (w2\<lparr>wk_st := st\<rparr>)))"

text \<open>One turn of the \<open>for\<close> loop. \<open>backfill_day\<close> is the record's day when it is a backfill day.\<close>

definition backfill_of :: "recon_env \<Rightarrow> date option \<Rightarrow> date option" where
  "backfill_of env cal = (case cal of
      Some d \<Rightarrow> if select_ingest_band d (rv_today env) (rv_hot_days env) \<noteq> ''hot'' then Some d else None
    | None \<Rightarrow> None)"

definition past_frontier :: "date option \<Rightarrow> date option \<Rightarrow> bool" where
  "past_frontier frontier cal = (case (frontier, cal) of (Some f, Some d) \<Rightarrow> f \<le> d | _ \<Rightarrow> False)"

definition walk_record ::
    "recon_env \<Rightarrow> (find_stats_record \<Rightarrow> date option) \<Rightarrow> tick \<Rightarrow> find_stats_record \<Rightarrow> walk \<Rightarrow> walk \<times> py_error option" where
  "walk_record env day_fn tk rec w =
     (if is_internal_archive_stats_path (fr_path rec) then (w, None)
      else if is_lock_name (py_basename (fr_path rec)) then (w, None)
      else
        let has_cap = has_ingest_room env (wk_st w);
            w1 = w\<lparr>wk_stopped := (wk_stopped w \<or> \<not> has_cap), wk_seen := Suc (wk_seen w)\<rparr>;
            cal = day_fn rec;
            backfill_day = backfill_of env cal
        in if past_frontier (wk_frontier w1) backfill_day then (w1\<lparr>wk_dropped := Suc (wk_dropped w1)\<rparr>, None)
           else (case classify_closed_raw_path (rv_files env) (rv_tgz_archive_dir env) (fr_size rec)
                   (find_record_mtime_ns (fr_mtime rec)) cal None (fr_path rec) of
               Inl e \<Rightarrow> (w1, Some e)
             | Inr p \<Rightarrow> walk_plan env tk backfill_day has_cap p w1))"

fun walk_loop ::
    "recon_env \<Rightarrow> (find_stats_record \<Rightarrow> date option) \<Rightarrow> (find_stats_record \<times> tick) list \<Rightarrow> walk \<Rightarrow> walk \<times> py_error option" where
  "walk_loop env day_fn [] w = (w, None)"
| "walk_loop env day_fn ((rec, tk) # recs) w =
     (case walk_record env day_fn tk rec w of
        (w1, Some e) \<Rightarrow> (w1, Some e) | (w1, None) \<Rightarrow> walk_loop env day_fn recs w1)"

text \<open>A pushed-out file that the walk did not queue again leaves its day open.\<close>

definition close_frontier :: "recon_env \<Rightarrow> walk \<Rightarrow> date option" where
  "close_frontier env w =
     fold (\<lambda>gone frontier. case basename_date (rv_days env) (rsplit_bars gone) of
         Some gone_day \<Rightarrow> if \<not> ingest_queued gone (rc_store (wk_st w)) then lowered gone_day frontier else frontier
       | None \<Rightarrow> frontier) (wk_evicted w) (wk_frontier w)"

definition walk_stats :: "recon_env \<Rightarrow> walk \<Rightarrow> streaming_discover_stats" where
  "walk_stats env w = \<lparr>sd_seen = wk_seen w, sd_enqueued_ingest = wk_enqueued_ingest w,
     sd_enqueued_append = wk_enqueued_append w, sd_skipped_complete = wk_skipped_complete w,
     sd_enqueued_day_close = wk_enqueued_day_close w, sd_stopped_at_capacity = wk_stopped w,
     sd_dropped_at_capacity = wk_dropped w, sd_frontier_day = close_frontier env w\<rparr>"

definition range_records ::
    "day_env \<Rightarrow> filter_date option \<Rightarrow> filter_date option \<Rightarrow> find_stats_record list \<Rightarrow> find_stats_record list" where
  "range_records env startdate enddate records =
     (if startdate \<noteq> None \<or> enddate \<noteq> None
      then filter_find_records_for_date_range env startdate enddate records else records)"

text \<open>The walk over the records an iterator yields before it ends or raises \<open>tail_error\<close>.\<close>

definition stream_walk ::
    "recon_env \<Rightarrow> (find_stats_record \<Rightarrow> date option) option \<Rightarrow> filter_date option \<Rightarrow> filter_date option \<Rightarrow> (nat \<Rightarrow> tick)
     \<Rightarrow> find_stats_record list \<Rightarrow> py_error option \<Rightarrow> recon_state \<Rightarrow> recon_state \<times> (py_error + streaming_discover_stats)" where
  "stream_walk env calendar_day_fn startdate enddate clock records tail_error st =
     (let day_fn = (case calendar_day_fn of Some f \<Rightarrow> f | None \<Rightarrow> calendar_day_from_find_record (rv_days env));
          recs = range_records (rv_days env) startdate enddate records
      in case walk_loop env day_fn (zip recs (map clock [0..<length recs])) (walk_start st) of
           (w, Some e) \<Rightarrow> (wk_st w, Inl e)
         | (w, None) \<Rightarrow>
             (wk_st w, case tail_error of Some e \<Rightarrow> Inl e | None \<Rightarrow> Inr (walk_stats env w)))"

definition stream_enqueue_ingest_from_find_records ::
    "recon_env \<Rightarrow> (find_stats_record \<Rightarrow> date option) option \<Rightarrow> filter_date option \<Rightarrow> filter_date option \<Rightarrow> (nat \<Rightarrow> tick)
     \<Rightarrow> find_stats_record list \<Rightarrow> recon_state \<Rightarrow> recon_state \<times> (py_error + streaming_discover_stats)" where
  "stream_enqueue_ingest_from_find_records env calendar_day_fn startdate enddate clock records st =
     stream_walk env calendar_day_fn startdate enddate clock records None st"

definition stream_enqueue_ingest_from_find_stdout_chunks ::
    "recon_env \<Rightarrow> (find_stats_record \<Rightarrow> date option) option \<Rightarrow> filter_date option \<Rightarrow> filter_date option \<Rightarrow> (nat \<Rightarrow> tick)
     \<Rightarrow> string list \<Rightarrow> recon_state \<Rightarrow> recon_state \<times> (py_error + streaming_discover_stats)" where
  "stream_enqueue_ingest_from_find_stdout_chunks env calendar_day_fn startdate enddate clock chunks st =
     (case iter_find_printf_records_streaming chunks of
        (records, tail_error) \<Rightarrow> stream_walk env calendar_day_fn startdate enddate clock records tail_error st)"

section \<open>Lemmas\<close>

subsection \<open>What a part of the walk keeps\<close>

definition wk_inv :: "recon_env \<Rightarrow> (dl_key \<rightharpoonup> dl_entry) \<Rightarrow> walk \<Rightarrow> bool" where
  "wk_inv env L w \<longleftrightarrow> rc_inv env (wk_st w) \<and> letters (rc_dl (wk_st w)) = L"

abbreviation ingest_jobs :: "walk \<Rightarrow> string set" where
  "ingest_jobs w \<equiv> {i. (JOB_KIND_INGEST, i) \<in> jobs (rc_store (wk_st w))}"

definition at_or_below :: "date option \<Rightarrow> date \<Rightarrow> bool" where
  "at_or_below frontier d \<longleftrightarrow> (case frontier of None \<Rightarrow> False | Some f \<Rightarrow> f \<le> d)"

text \<open>The walk goes on from \<open>w\<close> to \<open>w'\<close>: the frontier falls, and a job that leaves the store is noted as
  pushed out.\<close>

definition goes_on :: "walk \<Rightarrow> walk \<Rightarrow> bool" where
  "goes_on w w' \<longleftrightarrow> (\<forall>d. at_or_below (wk_frontier w) d \<longrightarrow> at_or_below (wk_frontier w') d) \<and>
     set (wk_evicted w) \<subseteq> set (wk_evicted w') \<and> ingest_jobs w \<subseteq> ingest_jobs w' \<union> set (wk_evicted w')"

lemma goes_on_refl [simp]: "goes_on w w"
  by (auto simp: goes_on_def)

lemma goes_on_trans: "goes_on w w1 \<Longrightarrow> goes_on w1 w2 \<Longrightarrow> goes_on w w2"
  unfolding goes_on_def by blast

lemma at_or_below_lowered [simp]: "at_or_below (lowered c f) d \<longleftrightarrow> c \<le> d \<or> at_or_below f d"
  by (auto simp: at_or_below_def lowered_def split: option.splits)

lemma evict_younger_spec:
  assumes "rc_inv env st" "evict_younger env day st = (gone, st1)"
  shows "rc_inv env st1 \<and> rc_dl st1 = rc_dl st \<and>
     jobs (rc_store st1) = jobs (rc_store st) - (case gone of None \<Rightarrow> {} | Some g \<Rightarrow> {(JOB_KIND_INGEST, g)})"
proof -
  obtain s1 where e: "evict_youngest_catchup_ingest day (rc_store st) = (gone, s1)"
    using assms(2) by (cases "evict_youngest_catchup_ingest day (rc_store st)") (auto simp: evict_younger_def)
  have inv: "job_inv (rc_store st)" "rem_exact (rv_days env) (rc_store st) (rc_rem st)" "dl_inv (rc_dl st)"
    using assms(1) by (auto simp: rc_inv_def)
  note ok = step_evict [OF inv(1) e]
  show ?thesis
  proof (cases gone)
    case None
    then have "jobs s1 = jobs (rc_store st)" using ok by (simp add: step_ok_def)
    then show ?thesis using None assms(2) e inv step_okD [OF ok] rem_exact_same [of s1 "rc_store st"]
      by (auto simp: evict_younger_def rc_inv_def)
  next
    case (Some g)
    then have J: "jobs s1 = jobs (rc_store st) - {(JOB_KIND_INGEST, g)}" "(JOB_KIND_INGEST, g) \<in> jobs (rc_store st)"
      using ok by (simp_all add: step_ok_def)
    have empty: "remainder_day_for_identity (rv_days env) [] = None" by (simp add: remainder_day_for_identity_def)
    have "st1 = st\<lparr>rc_store := s1, rc_rem := note_job (rv_days env) JOB_KIND_INGEST g (- 1) (rc_rem st)\<rparr>"
      using assms(2) e Some note_job_if [where b = "g \<noteq> []"] empty
      by (auto simp: evict_younger_def note_job_def)
    then show ?thesis using Some J inv step_okD [OF ok] rem_exact_delete [OF inv(2) J(2,1)] by (simp add: rc_inv_def)
  qed
qed

lemma make_room_spec:
  assumes "wk_inv env L w" "make_room env cal has_cap p w = (p', w')"
  shows "wk_inv env L w' \<and> goes_on w w' \<and>
     (p' = p \<or> p' = p\<lparr>pl_needs_ingest := False, pl_needs_append := False\<rparr> \<and> at_or_below (wk_frontier w') cal)"
  using assms
proof (induction env cal has_cap p w rule: make_room.induct)
  case (1 env cal has_cap p w)
  obtain gone st where e: "evict_younger env cal (wk_st w) = (gone, st)" by force
  have inv: "rc_inv env (wk_st w)" "letters (rc_dl (wk_st w)) = L" using "1.prems"(1) by (auto simp: wk_inv_def)
  note ev = evict_younger_spec [OF inv(1) e]
  note mr = make_room.simps [of env cal has_cap p w]
  show ?case
  proof (cases "has_cap \<or> \<not> pl_needs_ingest p \<or> ingest_queued (pl_identity p) (rc_store (wk_st w))")
    case True
    then show ?thesis using "1.prems" mr by auto
  next
    case False
    show ?thesis
    proof (cases gone)
      case None
      then show ?thesis using "1.prems"(2) False e ev inv mr by (auto simp: wk_inv_def goes_on_def)
    next
      case (Some g)
      let ?w = "w\<lparr>wk_st := st, wk_evicted := wk_evicted w @ [g]\<rparr>"
      have w: "wk_inv env L ?w" "goes_on w ?w" using ev inv Some by (auto simp: wk_inv_def goes_on_def)
      have "make_room env cal (has_ingest_room env st) p ?w = (p', w')"
        using "1.prems"(2) False e Some mr by auto
      from "1.IH" [OF False e [symmetric] Some w(1) this] goes_on_trans [OF w(2)] show ?thesis by blast
    qed
  qed
qed

lemma day_close_store:
  assumes "rc_inv env st" "enqueue_cheap_day_close_if_needed env now tar cal el (rc_store st) = Inr (b, s)"
  shows "rc_inv env (st\<lparr>rc_store := s\<rparr>) \<and> (\<forall>i. (JOB_KIND_INGEST, i) \<in> jobs s \<longleftrightarrow> (JOB_KIND_INGEST, i) \<in> jobs (rc_store st))"
proof -
  have "s = rc_store st \<or> (\<exists>m. enqueue_list (rv_cfg env) JOB_KIND_DAY_CLOSE (py_normpath tar) True (rc_store st) = Inr (m, s))"
    using assms(2)
    by (auto simp: enqueue_cheap_day_close_if_needed_def enqueue_day_close_if_needed_def Let_def
        split: sum.splits option.splits if_splits bool.splits prod.splits)
  moreover have "JOB_KIND_DAY_CLOSE \<noteq> JOB_KIND_INGEST" "JOB_KIND_DAY_CLOSE \<noteq> JOB_KIND_APPEND" by (simp_all add: kind_name_defs)
  ultimately show ?thesis
    using assms(1) enqueue_list_grows [OF assms(1), of JOB_KIND_DAY_CLOSE "py_normpath tar" _ s]
    by (auto simp: grows_def dest!: subsetD [of "jobs s"])
qed

lemma walk_count_spec:
  assumes "wk_inv env L w" "walk_count env tk p i a w = (w', eo)"
  shows "wk_inv env L w' \<and> goes_on w w'"
proof -
  let ?tar = "py_strip (case pl_tar_path p of None \<Rightarrow> [] | Some t \<Rightarrow> t)"
  let ?r = "enqueue_cheap_day_close_if_needed env (tk_now tk) ?tar (pl_calendar_day p) None (rc_store (wk_st w))"
  have "(wk_st w' = wk_st w \<or> (\<exists>b s. ?r = Inr (b, s) \<and> wk_st w' = (wk_st w)\<lparr>rc_store := s\<rparr>)) \<and>
      wk_frontier w' = wk_frontier w \<and> wk_evicted w' = wk_evicted w"
    using assms(2) by (auto simp: walk_count_def Let_def split: if_splits sum.splits)
  then show ?thesis
    using assms(1) day_close_store [of env "wk_st w"] by (auto simp: wk_inv_def goes_on_def)
qed

lemma walk_after_spec:
  assumes "wk_inv env L w" "walk_after env tk bd p i a w = (w', eo)"
  shows "wk_inv env L w' \<and> goes_on w w' \<and>
    (\<forall>cal. bd = Some cal \<and> pl_needs_ingest p \<and> \<not> i \<and>
       (rv_archive_data_dir env = [] \<or> \<not> letter_blocks L (JOB_KIND_INGEST, pl_identity p) (tk_after tk))
     \<longrightarrow> at_or_below (wk_frontier w') cal)"
proof (cases "\<exists>cal. bd = Some cal \<and> pl_needs_ingest p \<and> \<not> i")
  case False
  then have "walk_count env tk p i a w = (w', eo)"
    using assms(2) by (auto simp: walk_after_def split: option.splits if_splits)
  from walk_count_spec [OF assms(1) this] False show ?thesis by blast
next
  case True
  then obtain cal where cal: "bd = Some cal" "pl_needs_ingest p" "\<not> i" by blast
  have inv: "rc_inv env (wk_st w)" "dl_inv (rc_dl (wk_st w))" "letters (rc_dl (wk_st w)) = L"
    using assms(1) by (auto simp: wk_inv_def rc_inv_def)
  let ?b = "rv_archive_data_dir env \<noteq> [] \<and> pl_identity p \<noteq> [] \<and> letter_blocks L (JOB_KIND_INGEST, pl_identity p) (tk_after tk)"
  from blocked_under_spec [OF inv(2), of env "rv_archive_data_dir env" "(JOB_KIND_INGEST, pl_identity p)" "tk_after tk"]
  obtain dl where dl: "blocked_under env (rv_archive_data_dir env) (JOB_KIND_INGEST, pl_identity p) (tk_after tk) (wk_st w) =
      ((wk_st w)\<lparr>rc_dl := dl\<rparr>, Inr ?b)" "letters dl = L" "dl_inv dl" by (auto simp: inv(3))
  let ?w = "w\<lparr>wk_st := (wk_st w)\<lparr>rc_dl := dl\<rparr>\<rparr>"
  let ?v = "?w\<lparr>wk_frontier := lowered cal (wk_frontier w), wk_dropped := Suc (wk_dropped w)\<rparr>"
  have w: "wk_inv env L ?w" "goes_on w ?w" "wk_inv env L ?v" "goes_on w ?v"
    using inv(1) dl rc_inv_dl [OF inv(1) dl(3)] by (auto simp: wk_inv_def goes_on_def)
  show ?thesis
  proof (cases ?b)
    case True
    then have "walk_count env tk p i a ?w = (w', eo)" using assms(2) cal dl(1) by (simp add: walk_after_def)
    from walk_count_spec [OF w(1) this] goes_on_trans [OF w(2)] True show ?thesis by blast
  next
    case False
    then have "blocked_under env (rv_archive_data_dir env) (JOB_KIND_INGEST, pl_identity p) (tk_after tk) (wk_st w) =
        ((wk_st w)\<lparr>rc_dl := dl\<rparr>, Inr False)" using dl(1) by auto
    then have "walk_count env tk p False False ?v = (w', eo)" using assms(2) cal by (simp add: walk_after_def)
    from walk_count_spec [OF w(3) this] have r: "wk_inv env L w'" "goes_on ?v w'" by auto
    have "at_or_below (wk_frontier ?v) cal" by simp
    then have "at_or_below (wk_frontier w') cal" using r(2) unfolding goes_on_def by blast
    then show ?thesis using r goes_on_trans [OF w(4)] cal(1) by blast
  qed
qed

subsection \<open>Files the walk must not lose\<close>

text \<open>A backfill file that needs ingest, with its identity and its day; no dead letter blocks it at the
  time the walk looks.\<close>

definition wanted ::
    "recon_env \<Rightarrow> (dl_key \<rightharpoonup> dl_entry) \<Rightarrow> (find_stats_record \<Rightarrow> date option) \<Rightarrow> find_stats_record \<Rightarrow> tick \<Rightarrow> string \<Rightarrow> date \<Rightarrow> bool" where
  "wanted env L day_fn rec tk i cal \<longleftrightarrow>
     \<not> is_internal_archive_stats_path (fr_path rec) \<and> \<not> is_lock_name (py_basename (fr_path rec)) \<and>
     backfill_of env (day_fn rec) = Some cal \<and> ingest_identity (py_normpath (fr_path rec)) = Inr i \<and>
     \<not> is_internal_archive_stats_path (py_normpath (fr_path rec)) \<and>
     \<not> stats_file_is_active_segment (rv_files env) (py_normpath (fr_path rec)) \<and>
     \<not> fe_ingest_complete (rv_files env) (py_normpath (fr_path rec)) \<and>
     (rv_archive_data_dir env = [] \<or> \<not> letter_blocks L (JOB_KIND_INGEST, i) (tk_after tk))"

definition covered :: "walk \<Rightarrow> string \<Rightarrow> date \<Rightarrow> bool" where
  "covered w i cal \<longleftrightarrow> at_or_below (wk_frontier w) cal \<or> i \<in> ingest_jobs w \<or> i \<in> set (wk_evicted w)"

lemma covered_on: "covered w i cal \<Longrightarrow> goes_on w w' \<Longrightarrow> covered w' i cal"
  unfolding covered_def goes_on_def by blast

lemma room_spec:
  assumes "wk_inv env L w" "(case bd of Some d \<Rightarrow> make_room env d has_cap p w | None \<Rightarrow> (p, w)) = (p', w')"
  shows "wk_inv env L w' \<and> goes_on w w' \<and>
     (p' = p \<or> p' = p\<lparr>pl_needs_ingest := False, pl_needs_append := False\<rparr> \<and> at_or_below (wk_frontier w') (the bd))"
  using assms make_room_spec [of env L w] by (cases bd) auto

lemma walk_plan_spec:
  assumes "wk_inv env L w" "walk_plan env tk bd has_cap p w = (w', eo)"
  shows "wk_inv env L w' \<and> goes_on w w' \<and>
    (\<forall>cal. bd = Some cal \<and> pl_needs_ingest p \<and>
       (rv_archive_data_dir env = [] \<or> \<not> letter_blocks L (JOB_KIND_INGEST, pl_identity p) (tk_after tk))
     \<longrightarrow> covered w' (pl_identity p) cal)"
proof -
  obtain p1 w2 where room: "(case bd of Some d \<Rightarrow> make_room env d has_cap p w | None \<Rightarrow> (p, w)) = (p1, w2)" by force
  note r = room_spec [OF assms(1) room]
  then have inv2: "rc_inv env (wk_st w2)" "letters (rc_dl (wk_st w2)) = L" by (auto simp: wk_inv_def)
  from enqueue_reconstruct_spec [OF inv2(1), of "tk_enqueue tk" False p1] obtain st i a where
    e: "enqueue_reconstruct_jobs_for_closed_path env (tk_enqueue tk) False p1 (wk_st w2) = (st, Inr (i, a))"
      "grows env {(JOB_KIND_INGEST, pl_identity p1), (JOB_KIND_APPEND, pl_path p1)} (wk_st w2) st"
      "i \<longrightarrow> (JOB_KIND_INGEST, pl_identity p1) \<in> jobs (rc_store st)" by blast
  let ?w3 = "w2\<lparr>wk_st := st\<rparr>"
  have w3: "wk_inv env L ?w3" "goes_on w2 ?w3" using e(2) inv2 by (auto simp: grows_def wk_inv_def goes_on_def)
  have "walk_after env tk bd p1 i a ?w3 = (w', eo)" using assms(2) room e(1) by (simp add: walk_plan_def)
  note aft = walk_after_spec [OF w3(1) this]
  then have on: "goes_on w2 w'" "goes_on ?w3 w'" using goes_on_trans [OF w3(2)] by blast+
  have "covered w' (pl_identity p) cal" if cal: "bd = Some cal" "pl_needs_ingest p"
      "rv_archive_data_dir env = [] \<or> \<not> letter_blocks L (JOB_KIND_INGEST, pl_identity p) (tk_after tk)" for cal
  proof (cases "p1 = p")
    case True
    show ?thesis
    proof (cases i)
      case True
      then have "covered ?w3 (pl_identity p) cal" using e(3) \<open>p1 = p\<close> by (simp add: covered_def)
      then show ?thesis using covered_on on(2) by blast
    next
      case False
      then show ?thesis using aft cal \<open>p1 = p\<close> by (auto simp: covered_def)
    qed
  next
    case False
    then have "covered w2 (pl_identity p) cal" using r cal(1) by (auto simp: covered_def)
    then show ?thesis using covered_on on(1) by blast
  qed
  then show ?thesis using aft r goes_on_trans on(1) by blast
qed

lemma walk_record_spec:
  assumes "wk_inv env L w" "walk_record env day_fn tk rec w = (w', eo)"
  shows "wk_inv env L w' \<and> goes_on w w' \<and> (eo = None \<longrightarrow> (\<forall>i cal. wanted env L day_fn rec tk i cal \<longrightarrow> covered w' i cal))"
proof (cases "is_internal_archive_stats_path (fr_path rec) \<or> is_lock_name (py_basename (fr_path rec))")
  case True
  then have "walk_record env day_fn tk rec w = (w, None)" by (auto simp: walk_record_def)
  then show ?thesis using assms True by (auto simp: wanted_def)
next
  case False
  let ?hc = "has_ingest_room env (wk_st w)" and ?bd = "backfill_of env (day_fn rec)"
  let ?w1 = "w\<lparr>wk_stopped := (wk_stopped w \<or> \<not> ?hc), wk_seen := Suc (wk_seen w)\<rparr>"
  let ?c = "classify_closed_raw_path (rv_files env) (rv_tgz_archive_dir env) (fr_size rec)
      (find_record_mtime_ns (fr_mtime rec)) (day_fn rec) None (fr_path rec)"
  have w1: "wk_inv env L ?w1" "goes_on w ?w1" using assms(1) by (auto simp: wk_inv_def goes_on_def)
  have wr: "walk_record env day_fn tk rec w =
      (if past_frontier (wk_frontier w) ?bd then (?w1\<lparr>wk_dropped := Suc (wk_dropped w)\<rparr>, None)
       else (case ?c of Inl e \<Rightarrow> (?w1, Some e) | Inr p \<Rightarrow> walk_plan env tk ?bd ?hc p ?w1))"
    using False by (simp add: walk_record_def Let_def)
  show ?thesis
  proof (cases "past_frontier (wk_frontier w) ?bd")
    case True
    then have "wk_inv env L w' \<and> goes_on w w' \<and> wk_frontier w' = wk_frontier w"
      using assms wr by (auto simp: wk_inv_def goes_on_def)
    then show ?thesis using True
      by (auto simp: wanted_def covered_def past_frontier_def at_or_below_def split: option.splits)
  next
    case np: False
    show ?thesis
    proof (cases ?c)
      case (Inl e)
      then show ?thesis using np assms(2) wr w1 by auto
    next
      case (Inr p)
      then have "walk_plan env tk ?bd ?hc p ?w1 = (w', eo)" using np assms(2) wr by simp
      note pl = walk_plan_spec [OF w1(1) this]
      have "pl_identity p = i \<and> pl_needs_ingest p" if "wanted env L day_fn rec tk i cal" for i cal
        using that Inr classify_eq [of "fr_path rec" i "rv_files env"] by (auto simp: wanted_def)
      then show ?thesis using pl goes_on_trans [OF w1(2)] unfolding wanted_def by blast
    qed
  qed
qed

lemma walk_loop_spec:
  assumes "wk_inv env L w" "walk_loop env day_fn recs w = (w', eo)"
  shows "wk_inv env L w' \<and> goes_on w w' \<and>
    (eo = None \<longrightarrow> (\<forall>(rec, tk) \<in> set recs. \<forall>i cal. wanted env L day_fn rec tk i cal \<longrightarrow> covered w' i cal))"
  using assms
proof (induction env day_fn recs w rule: walk_loop.induct)
  case (2 env day_fn rec tk recs w)
  obtain w1 eo1 where w1: "walk_record env day_fn tk rec w = (w1, eo1)" by force
  note r = walk_record_spec [OF "2.prems"(1) w1]
  show ?case
  proof (cases eo1)
    case None
    then have l: "walk_loop env day_fn recs w1 = (w', eo)" using "2.prems"(2) w1 by simp
    have "wk_inv env L w1" using r by blast
    note IH = "2.IH" [OF w1 [symmetric] None this l]
    have "covered w' i cal" if "wanted env L day_fn rec tk i cal" for i cal
      using that r None covered_on IH by blast
    then show ?thesis using IH r goes_on_trans by auto
  next
    case (Some e)
    then show ?thesis using "2.prems"(2) w1 r by auto
  qed
qed simp

lemma frontier_fold_keeps:
  "at_or_below f d \<Longrightarrow> at_or_below (fold (\<lambda>gone frontier. case B gone of
      Some day \<Rightarrow> if P gone then lowered day frontier else frontier | None \<Rightarrow> frontier) gs f) d"
  by (induction gs arbitrary: f) (auto split: option.split)

lemma frontier_fold_gone:
  "gone \<in> set gs \<Longrightarrow> B gone = Some d \<Longrightarrow> P gone \<Longrightarrow> at_or_below (fold (\<lambda>gone frontier. case B gone of
      Some day \<Rightarrow> if P gone then lowered day frontier else frontier | None \<Rightarrow> frontier) gs f) d"
proof (induction gs arbitrary: f)
  case (Cons g gs)
  show ?case
  proof (cases "gone = g")
    case True
    with Cons.prems show ?thesis by (simp add: frontier_fold_keeps)
  next
    case False
    with Cons show ?thesis by simp
  qed
qed simp

lemma walk_start_inv: "rc_inv env st \<Longrightarrow> wk_inv env (letters (rc_dl st)) (walk_start st)"
  by (simp add: wk_inv_def walk_start_def)

lemma stream_walk_inv:
  assumes "rc_inv env st"
  shows "rc_inv env (fst (stream_walk env df sd ed clock records te st)) \<and>
    letters (rc_dl (fst (stream_walk env df sd ed clock records te st))) = letters (rc_dl st)"
proof -
  have "wk_inv env (letters (rc_dl st)) (fst (walk_loop env day_fn recs (walk_start st)))" for day_fn recs
    using walk_loop_spec [OF walk_start_inv [OF assms]] by (metis prod.collapse)
  then show ?thesis
    by (auto simp: stream_walk_def Let_def wk_inv_def split: prod.splits option.splits) (metis fst_conv)+
qed

section \<open>A small walk\<close>

text \<open>Two old files of one host, the younger one first, and room for one.\<close>

definition demo_younger :: find_stats_record where
  "demo_younger = \<lparr>fr_path = ''/a/h.x/2020-09-14'', fr_mtime = 0, fr_size = 1, fr_inode = 1\<rparr>"

definition demo_older :: find_stats_record where
  "demo_older = \<lparr>fr_path = ''/a/h.x/2020-09-13'', fr_mtime = 0, fr_size = 1, fr_inode = 2\<rparr>"

definition demo_clock :: "nat \<Rightarrow> tick" where
  "demo_clock n = \<lparr>tk_enqueue = 0, tk_after = 0, tk_now = 64000000000\<rparr>"

definition demo_walk :: "find_stats_record list \<Rightarrow> recon_env \<Rightarrow> recon_state \<Rightarrow> recon_state \<times> (py_error + streaming_discover_stats)" where
  "demo_walk recs env st = stream_enqueue_ingest_from_find_records env None None None demo_clock recs st"

definition demo_letter :: dl_state where
  "demo_letter = \<lparr>ds_entries = Some [\<lparr>dl_kind = Some ''ingest'', dl_identity = Some ''/a/h.x/2020-09-13'', dl_attempt = Some 5,
     dl_reason = Some ''boom'', dl_recorded_at = None, dl_first_recorded_at = None, dl_cycle = Some 3, dl_env = False, dl_terminal = True,
     dl_readmit_at = None, dl_readmitted_at = None\<rparr>], ds_mtime = 1, ds_cache = None\<rparr>"

section \<open>Properties\<close>

text \<open>C12: However a walk ends, also when the output breaks off or a day cannot be computed, the job store
  keeps its invariant and the remainders are still the exact number of jobs of each day.\<close>

theorem walk_keeps_state_exact:
  assumes "rc_inv env st"
  shows "rc_inv env (fst (stream_enqueue_ingest_from_find_stdout_chunks env day_fn startdate enddate clock chunks st))"
  using stream_walk_inv [OF assms]
  by (simp add: stream_enqueue_ingest_from_find_stdout_chunks_def split: prod.split)

theorem walk_keeps_state_exact_witness:
  "rc_inv demo_recon_env (fst (stream_enqueue_ingest_from_find_stdout_chunks demo_recon_env None None None demo_clock
     [''/a/h.x/17'', [NUL], ''x''] demo_recon))"
  using walk_keeps_state_exact [OF rc_inv_demo] .

text \<open>C7: A walk that returns has queued, or left in flight, every backfill file that it saw, that needs
  ingest, that no dead letter blocks and whose day lies before the reported frontier (every such file,
  when no frontier is reported): files pushed out of the full queue and files that found no room are
  all at or after the frontier, so the next walk may start there.\<close>

theorem frontier_covers_older_files:
  assumes "rc_inv env st"
    "stream_enqueue_ingest_from_find_records env None startdate enddate clock records st = (st', Inr stats)"
    "n < length (range_records (rv_days env) startdate enddate records)"
    "fr_path (range_records (rv_days env) startdate enddate records ! n) = path"
    "path \<noteq> []" "py_normpath path = path" "py_strip path = path" "CHR ''|'' \<notin> set path"
    "\<not> is_internal_archive_stats_path path" "\<not> is_lock_name (py_basename path)"
    "\<not> stats_file_is_active_segment (rv_files env) path" "\<not> fe_ingest_complete (rv_files env) path"
    "\<not> letter_blocks (letters (rc_dl st)) (JOB_KIND_INGEST, path) (tk_after (clock n))"
    "backfill_of env (basename_date (rv_days env) path) = Some cal"
    "\<not> at_or_below (sd_frontier_day stats) cal"
  shows "(JOB_KIND_INGEST, path) \<in> jobs (rc_store st')"
proof -
  let ?recs = "range_records (rv_days env) startdate enddate records"
  let ?day = "calendar_day_from_find_record (rv_days env)"
  obtain w eo where w: "walk_loop env ?day (zip ?recs (map clock [0..<length ?recs])) (walk_start st) = (w, eo)" by force
  have eo: "eo = None" "st' = wk_st w" "sd_frontier_day stats = close_frontier env w"
    using assms(2) w by (auto simp: stream_enqueue_ingest_from_find_records_def stream_walk_def walk_stats_def split: option.splits)
  have "(?recs ! n, clock n) \<in> set (zip ?recs (map clock [0..<length ?recs]))"
    using assms(3) by (auto simp: set_zip intro!: exI [of _ n])
  moreover have "wanted env (letters (rc_dl st)) ?day (?recs ! n) (clock n) path cal"
    using assms(4-14) by (simp add: wanted_def calendar_day_from_find_record_def ingest_identity_def)
  ultimately have cov: "covered w path cal"
    using walk_loop_spec [OF walk_start_inv [OF assms(1)] w] eo(1) by fast
  have split: "rsplit_bars path = path" using assms(8) by (simp add: rsplit_bars_def py_split_notin)
  have cal: "basename_date (rv_days env) path = Some cal"
    using assms(14) by (auto simp: backfill_of_def split: option.splits if_splits)
  show ?thesis
  proof (rule ccontr)
    assume n: "(JOB_KIND_INGEST, path) \<notin> jobs (rc_store st')"
    with cov eo(2) have "at_or_below (wk_frontier w) cal \<or> path \<in> set (wk_evicted w)" by (auto simp: covered_def)
    then have "at_or_below (close_frontier env w) cal"
      using n eo(2) frontier_fold_keeps frontier_fold_gone [where gone = path and d = cal and gs = "wk_evicted w" and
          f = "wk_frontier w" and B = "\<lambda>g. basename_date (rv_days env) (rsplit_bars g)" and
          P = "\<lambda>g. \<not> ingest_queued g (rc_store (wk_st w))"]
      by (auto simp: close_frontier_def ingest_queued_jobs split cal)
    then show False using assms(15) eo(3) by simp
  qed
qed

theorem frontier_covers_older_files_witness:
  "\<exists>st' stats. demo_walk [demo_younger, demo_older] demo_recon_env demo_recon = (st', Inr stats) \<and>
     sd_frontier_day stats = Some 737682 \<and> (JOB_KIND_INGEST, ''/a/h.x/2020-09-13'') \<in> jobs (rc_store st')"
proof -
  have "(case snd (demo_walk [demo_younger, demo_older] demo_recon_env demo_recon) of
      Inl e \<Rightarrow> None | Inr stats \<Rightarrow> Some (sd_frontier_day stats)) = Some (Some 737682)"
    by code_simp
  then obtain st' stats where w: "demo_walk [demo_younger, demo_older] demo_recon_env demo_recon = (st', Inr stats)"
    and f: "sd_frontier_day stats = Some 737682"
    by (cases "demo_walk [demo_younger, demo_older] demo_recon_env demo_recon") (auto split: sum.splits)
  let ?p = "''/a/h.x/2020-09-13''"
  have p: "py_normpath ?p = ?p" "py_strip ?p = ?p" "CHR ''|'' \<notin> set ?p" "\<not> is_internal_archive_stats_path ?p"
    "\<not> is_lock_name (py_basename ?p)" "\<not> stats_file_is_active_segment (rv_files demo_recon_env) ?p"
    "\<not> fe_ingest_complete (rv_files demo_recon_env) ?p"
    "backfill_of demo_recon_env (basename_date (rv_days demo_recon_env) ?p) = Some 737681"
    by code_simp+
  have d: "\<not> letter_blocks (letters (rc_dl demo_recon)) (JOB_KIND_INGEST, ?p) (tk_after (demo_clock 1))"
    by (simp add: letter_blocks_def letters_def demo_recon_def no_letters_def stored_def index_of_def)
  have "(JOB_KIND_INGEST, ?p) \<in> jobs (rc_store st')"
    by (rule frontier_covers_older_files [OF rc_inv_demo w [unfolded demo_walk_def], where n = 1 and cal = 737681])
      (use p d in \<open>simp_all add: range_records_def demo_older_def f at_or_below_def\<close>)
  then show ?thesis using w f by blast
qed

text \<open>At the cap a backfill file that a dead letter holds back still pushes out the youngest queued
  file before it is refused: here the only queued job leaves the queue and nothing takes its place. Its
  day becomes the frontier, so a later walk finds it again.\<close>

theorem blocked_file_pushes_out_queued:
  "(let st1 = fst (demo_walk [demo_younger] demo_recon_env demo_recon);
        r = demo_walk [demo_older] (demo_recon_env\<lparr>rv_archive_data_dir := ''/d''\<rparr>) (st1\<lparr>rc_dl := demo_letter\<rparr>)
    in map fst (js_ingest (rc_store st1)) = [''/a/h.x/2020-09-14''] \<and> js_ingest (rc_store (fst r)) = [] \<and>
       (case snd r of Inl e \<Rightarrow> None | Inr stats \<Rightarrow> Some (sd_frontier_day stats)) = Some (Some 737682))"
  by code_simp

end
