(* ===== verification/Sample_Lines.thy ===== *)
theory Sample_Lines
  imports Stats_Find
begin

text \<open>
  \<open>dbload/lib/sync_timedb_parsing.py\<close>, the part that looks for sample headers: the lines of a raw file
  that start with a digit, "unix time, job, host". The first and the last header of a file, the place
  where processing starts after the samples the database already has, and the window at the end of
  the file that is compared with the database.
  \<^item> A raw file is its bytes, ASCII, so that both decoders of the code are the identity; a missing file
    is \<open>None\<close>. The read locks, the progress marks and the idle-stall check are not modelled.
  \<^item> \<open>float(...)\<close> of a text gives a finite number (read exactly), an infinity or NaN; a
    numeral beyond the binary64 range gives an infinity.
  Lemmas: reading the file backwards in blocks finds what a scan of its lines finds; the duplicate
  scan starts at the last known header before the first unknown one; the window at the end never
  contradicts the scan.
\<close>

section \<open>Text\<close>

definition py_lstrip :: "string \<Rightarrow> string" where
  "py_lstrip s = dropWhile py_isspace s"

definition is_digit :: "char \<Rightarrow> bool" where
  "is_digit c \<longleftrightarrow> digit_value c \<noteq> None"

definition is_alpha :: "char \<Rightarrow> bool" where
  "is_alpha c \<longleftrightarrow> (let n = of_char c :: nat in (65 \<le> n \<and> n \<le> 90) \<or> (97 \<le> n \<and> n \<le> 122))"

abbreviation NL :: char where "NL \<equiv> CHR 0x0A"

text \<open>\<open>s.split()\<close> and \<open>s.split(maxsplit=n)\<close>: words between runs of white space; the rest after the
  last cut keeps its trailing white space.\<close>

function py_words :: "string \<Rightarrow> string list" where
  "py_words s =
     (let t = py_lstrip s in
      if t = [] then []
      else takeWhile (\<lambda>c. \<not> py_isspace c) t # py_words (dropWhile (\<lambda>c. \<not> py_isspace c) t))"
  by pat_completeness auto
termination
proof (relation "measure length")
  fix s x :: string
  assume "x = py_lstrip s" "x \<noteq> []"
  then have "\<not> py_isspace (hd x)" "length x \<le> length s"
    using hd_dropWhile [of py_isspace s] length_dropWhile_le [of py_isspace s]
    by (auto simp: py_lstrip_def)
  moreover obtain c cs where "x = c # cs" using \<open>x \<noteq> []\<close> by (cases x) auto
  ultimately show "(dropWhile (\<lambda>c. \<not> py_isspace c) x, s) \<in> measure length"
    using length_dropWhile_le [of "\<lambda>c. \<not> py_isspace c" cs] by simp
qed simp

declare py_words.simps [simp del]

fun py_words_max :: "nat \<Rightarrow> string \<Rightarrow> string list" where
  "py_words_max n s =
     (case py_lstrip s of
        [] \<Rightarrow> []
      | c # cs \<Rightarrow>
          (case n of
             0 \<Rightarrow> [c # cs]
           | Suc m \<Rightarrow> takeWhile (\<lambda>c. \<not> py_isspace c) (c # cs) #
                      py_words_max m (dropWhile (\<lambda>c. \<not> py_isspace c) (c # cs))))"

declare py_words_max.simps [simp del]

subsection \<open>Floats\<close>

datatype py_num = Finite rat | Infinity bool | NaN

text \<open>The least magnitude that rounds to infinity in binary64.\<close>

definition float_limit :: rat where
  "float_limit = 2 ^ 1024 - 2 ^ 970"

lemma float_limit_code [code]: "float_limit = 179769313486231580793728971405303415079934132710037826936173778980444968292764750946649017977587207096330286416692887910946555547851940402630657488671505820681908902000708383676273854845817711531764475730270069855571366959622842914819860834936475292719074168444365510704342711559699508093042880177904174497792"
  by (simp add: float_limit_def)

definition round_float :: "rat \<Rightarrow> py_num" where
  "round_float r = (if r \<ge> float_limit then Infinity False else if r \<le> - float_limit then Infinity True else Finite r)"

definition py_float_text :: "string \<Rightarrow> py_num option" where
  "py_float_text s =
     (case read_sign (py_strip s) of (neg, u) \<Rightarrow>
        if py_lower u = ''inf'' \<or> py_lower u = ''infinity'' then Some (Infinity neg)
        else if py_lower u = ''nan'' then Some NaN
        else map_option round_float (py_float s))"

definition int_of_num :: "py_num \<Rightarrow> py_error + int" where
  "int_of_num x = (case x of Finite r \<Rightarrow> Inr (py_trunc r) | Infinity _ \<Rightarrow> Inl OverflowError | NaN \<Rightarrow> Inl ValueError)"

section \<open>Lines of a raw file\<close>

text \<open>\<open>readline\<close> of the binary file: every line but the last keeps its line feed.\<close>

fun file_lines :: "string \<Rightarrow> string list" where
  "file_lines [] = []"
| "file_lines (c # cs) =
     (if c = NL then [NL] # file_lines cs
      else (case file_lines cs of [] \<Rightarrow> [[c]] | l # ls \<Rightarrow> (c # l) # ls))"

definition STREAM_PARSE_LINE_BATCH :: nat where
  "STREAM_PARSE_LINE_BATCH = 50000"

definition read_stats_line_batch :: "nat \<Rightarrow> string list \<Rightarrow> string list \<times> string list" where
  "read_stats_line_batch batch_size ls = (take batch_size ls, drop batch_size ls)"

function line_batches :: "nat \<Rightarrow> string list \<Rightarrow> string list list" where
  "line_batches batch_size ls =
     (case read_stats_line_batch batch_size ls of (batch, rest) \<Rightarrow>
        if batch = [] then [] else batch # line_batches batch_size rest)"
  by pat_completeness auto
termination by (relation "measure (length o snd)") (auto simp: read_stats_line_batch_def)

declare line_batches.simps [simp del]

definition iter_stats_file_lines :: "string option \<Rightarrow> string list" where
  "iter_stats_file_lines file = (case file of None \<Rightarrow> [] | Some content \<Rightarrow>
     concat (line_batches STREAM_PARSE_LINE_BATCH (file_lines content)))"

section \<open>Sample headers\<close>

definition digit_line_identity :: "string \<Rightarrow> (string \<times> string \<times> string) option" where
  "digit_line_identity s = (case py_words s of a # b # c # _ \<Rightarrow> Some (a, b, c) | _ \<Rightarrow> None)"

definition digit_line_unix_second :: "string \<Rightarrow> py_error + int option" where
  "digit_line_unix_second s =
     (case digit_line_identity s of
        None \<Rightarrow> Inr None
      | Some (t, _, _) \<Rightarrow>
          (case py_float_text t of
             None \<Rightarrow> Inr None
           | Some x \<Rightarrow> (case int_of_num x of
                 Inr n \<Rightarrow> Inr (Some n)
               | Inl e \<Rightarrow> if e = TypeError \<or> e = ValueError then Inr None else Inl e)))"

text \<open>The tests the loops share: the line without leading white space, when it starts with a digit.\<close>

definition digit_line :: "string \<Rightarrow> string option" where
  "digit_line l = (case py_lstrip l of [] \<Rightarrow> None | c # cs \<Rightarrow> if is_digit c then Some (c # cs) else None)"

fun parse_first_timestamp_line :: "string list \<Rightarrow> (string \<times> string \<times> string) option" where
  "parse_first_timestamp_line [] = None"
| "parse_first_timestamp_line (l # ls) =
     (case digit_line l of
        None \<Rightarrow> parse_first_timestamp_line ls
      | Some s \<Rightarrow> (case digit_line_identity s of
            None \<Rightarrow> parse_first_timestamp_line ls
          | Some p \<Rightarrow> Some p))"

definition parse_last_timestamp_line :: "string list \<Rightarrow> (string \<times> string \<times> string) option" where
  "parse_last_timestamp_line ls = parse_first_timestamp_line (rev ls)"

definition parse_first_timestamp_line_streaming :: "string option \<Rightarrow> (string \<times> string \<times> string) option" where
  "parse_first_timestamp_line_streaming file = parse_first_timestamp_line (iter_stats_file_lines file)"

subsection \<open>Reading backwards\<close>

text \<open>The blocks of the file from its end, each with its offset.\<close>

function tail_pieces :: "nat \<Rightarrow> string \<Rightarrow> nat \<Rightarrow> (nat \<times> string) list" where
  "tail_pieces tail_read_bytes content offset =
     (if offset > 0 then
        let read_size = min (max 4096 tail_read_bytes) offset;
            offset1 = offset - read_size
        in (offset1, take read_size (drop offset1 content)) # tail_pieces tail_read_bytes content offset1
      else [])"
  by pat_completeness auto
termination by (relation "measure (\<lambda>(_, _, off). off)") auto

declare tail_pieces.simps [simp del]

definition cut_piece :: "nat \<Rightarrow> string \<Rightarrow> string \<times> string list" where
  "cut_piece offset block =
     (let parts = py_split NL block in if offset > 0 then (hd parts, tl parts) else ([], parts))"

fun scan_pieces :: "string \<Rightarrow> (nat \<times> string) list \<Rightarrow> (string \<times> string \<times> string) option" where
  "scan_pieces carry [] = None"
| "scan_pieces carry ((offset, raw_block) # pieces) =
     (case cut_piece offset (raw_block @ carry) of (carry1, parts) \<Rightarrow>
        (case parse_first_timestamp_line (rev parts) of
           Some p \<Rightarrow> Some p
         | None \<Rightarrow> scan_pieces carry1 pieces))"

definition parse_last_timestamp_line_streaming ::
    "string option \<Rightarrow> nat \<Rightarrow> (string \<times> string \<times> string) option" where
  "parse_last_timestamp_line_streaming file tail_read_bytes =
     (case file of
        None \<Rightarrow> None
      | Some content \<Rightarrow>
          if length content = 0 then None
          else scan_pieces [] (tail_pieces tail_read_bytes content (length content)))"

fun take_digit_lines :: "nat \<Rightarrow> string list \<Rightarrow> string list \<Rightarrow> string list" where
  "take_digit_lines max_lines collected [] = collected"
| "take_digit_lines max_lines collected (raw # raws) =
     (if length collected \<ge> max_lines then collected
      else case digit_line raw of
          None \<Rightarrow> take_digit_lines max_lines collected raws
        | Some _ \<Rightarrow> take_digit_lines max_lines (collected @ [raw]) raws)"

fun collect_pieces :: "nat \<Rightarrow> string list \<Rightarrow> string \<Rightarrow> (nat \<times> string) list \<Rightarrow> string list" where
  "collect_pieces max_lines collected carry [] = collected"
| "collect_pieces max_lines collected carry ((offset, raw_block) # pieces) =
     (if length collected \<ge> max_lines then collected
      else case cut_piece offset (raw_block @ carry) of (carry1, parts) \<Rightarrow>
          collect_pieces max_lines (take_digit_lines max_lines collected (rev parts)) carry1 pieces)"

definition collect_tail_timestamp_lines :: "string option \<Rightarrow> int \<Rightarrow> nat \<Rightarrow> string list" where
  "collect_tail_timestamp_lines file max_lines tail_read_bytes =
     (case file of
        None \<Rightarrow> []
      | Some content \<Rightarrow>
          if length content = 0 \<or> max_lines \<le> 0 then []
          else collect_pieces (nat max_lines) [] [] (tail_pieces tail_read_bytes content (length content)))"

subsection \<open>Samples the database has\<close>

definition timestamp_present_for_duplicate :: "int set \<Rightarrow> (int \<Rightarrow> bool) option \<Rightarrow> int \<Rightarrow> bool" where
  "timestamp_present_for_duplicate itimes_set timestamp_present unix_second =
     (case timestamp_present of Some f \<Rightarrow> f unix_second | None \<Rightarrow> unix_second \<in> itimes_set)"

fun start_scan :: "(int \<Rightarrow> bool) \<Rightarrow> int \<Rightarrow> int \<Rightarrow> string list \<Rightarrow> py_error + int" where
  "start_scan present i last_idx [] = Inr (-1)"
| "start_scan present i last_idx (l # ls) =
     (case digit_line l of
        None \<Rightarrow> start_scan present (i + 1) last_idx ls
      | Some s \<Rightarrow> (case digit_line_unix_second s of
            Inl e \<Rightarrow> Inl e
          | Inr None \<Rightarrow> start_scan present (i + 1) last_idx ls
          | Inr (Some unix_sec) \<Rightarrow>
              if \<not> present unix_sec then Inr last_idx else start_scan present (i + 1) i ls))"

definition find_processing_start_index ::
    "string list \<Rightarrow> int set \<Rightarrow> (int \<Rightarrow> bool) option \<Rightarrow> py_error + int \<times> bool" where
  "find_processing_start_index ls itimes_set timestamp_present =
     (case start_scan (timestamp_present_for_duplicate itimes_set timestamp_present) 0 0 ls of
        Inl e \<Rightarrow> Inl e | Inr start_idx \<Rightarrow> Inr (start_idx, True))"

definition find_processing_start_index_streaming ::
    "string option \<Rightarrow> int set \<Rightarrow> (int \<Rightarrow> bool) option \<Rightarrow> py_error + int \<times> bool" where
  "find_processing_start_index_streaming file itimes_set timestamp_present =
     (case start_scan (timestamp_present_for_duplicate itimes_set timestamp_present) 0 0
        (iter_stats_file_lines file) of
        Inl e \<Rightarrow> Inl e | Inr start_idx \<Rightarrow> Inr (start_idx, True))"

fun window_all_present :: "(int \<Rightarrow> bool) \<Rightarrow> string list \<Rightarrow> py_error + bool" where
  "window_all_present present [] = Inr True"
| "window_all_present present (l # ls) =
     (case digit_line l of
        None \<Rightarrow> window_all_present present ls
      | Some s \<Rightarrow> (case digit_line_unix_second s of
            Inl e \<Rightarrow> Inl e
          | Inr None \<Rightarrow> window_all_present present ls
          | Inr (Some unix_sec) \<Rightarrow>
              if \<not> present unix_sec then Inr False else window_all_present present ls))"

definition tail_window_timestamps_all_present_streaming ::
    "string option \<Rightarrow> int set \<Rightarrow> (int \<Rightarrow> bool) option \<Rightarrow> int option \<Rightarrow> int \<Rightarrow> py_error + bool" where
  "tail_window_timestamps_all_present_streaming file itimes_set timestamp_present max_lines cfg_lines =
     (let n = (case max_lines of None \<Rightarrow> cfg_lines | Some m \<Rightarrow> m);
          ls = collect_tail_timestamp_lines file n 65536
      in if ls = [] then Inr False
         else window_all_present (timestamp_present_for_duplicate itimes_set timestamp_present) ls)"

section \<open>Lemmas\<close>

subsection \<open>Words and lines\<close>

lemma py_lstrip_append:
  "py_lstrip (s @ w) = (if py_lstrip s = [] then py_lstrip w else py_lstrip s @ w)"
  by (induction s) (auto simp: py_lstrip_def)

lemma py_lstrip_space: "(\<And>c. c \<in> set w \<Longrightarrow> py_isspace c) \<Longrightarrow> py_lstrip w = []"
  by (simp add: py_lstrip_def)

lemma py_words_blank: "py_lstrip s = [] \<Longrightarrow> py_words s = []"
  by (subst py_words.simps) simp

lemma py_words_Nil: "py_words [] = []"
  by (rule py_words_blank) (simp add: py_lstrip_def)

lemma py_lstrip_NL [simp]: "py_lstrip [NL] = []"
  by (rule py_lstrip_space) (simp add: py_isspace_def)

lemma py_words_append_space:
  assumes "\<And>c. c \<in> set w \<Longrightarrow> py_isspace c"
  shows "py_words (s @ w) = py_words s"
proof (induction s rule: py_words.induct)
  case (1 s)
  let ?ns = "\<lambda>c. \<not> py_isspace c"
  define t where "t = py_lstrip s"
  have w: "py_lstrip w = []" using assms by (rule py_lstrip_space)
  show ?case
  proof (cases "t = []")
    case True
    then show ?thesis by (simp add: py_words_blank py_lstrip_append w t_def)
  next
    case False
    have "py_words (s @ w) = takeWhile ?ns (t @ w) # py_words (dropWhile ?ns (t @ w))"
      using False by (subst py_words.simps) (simp add: py_lstrip_append t_def Let_def)
    moreover have "takeWhile ?ns (t @ w) = takeWhile ?ns t"
      using assms by (cases w) (auto simp: takeWhile_append takeWhile_eq_all_conv [THEN iffD2])
    moreover have "py_words (dropWhile ?ns (t @ w)) = py_words (dropWhile ?ns t)"
    proof (cases "\<forall>c \<in> set t. ?ns c")
      case True
      moreover have "dropWhile ?ns w = w" using assms by (cases w) auto
      moreover have "dropWhile ?ns t = []" using True by simp
      ultimately have "dropWhile ?ns (t @ w) = w" "dropWhile ?ns t = []" by (simp_all add: dropWhile_append)
      then show ?thesis by (simp only: py_words_blank [OF w] py_words_Nil)
    next
      case False
      then have "dropWhile ?ns (t @ w) = dropWhile ?ns t @ w" by (auto simp: dropWhile_append)
      then show ?thesis using 1 [OF t_def] \<open>t \<noteq> []\<close> by simp
    qed
    ultimately show ?thesis
      using False by (subst (2) py_words.simps) (simp add: t_def Let_def)
  qed
qed

lemma space_NL [simp]: "py_isspace NL"
  by (simp add: py_isspace_def)

lemma digit_line_NL: "digit_line (l @ [NL]) = map_option (\<lambda>s. s @ [NL]) (digit_line l)"
  by (auto simp: digit_line_def py_lstrip_append split: list.splits)

lemma identity_NL [simp]: "digit_line_identity (s @ [NL]) = digit_line_identity s"
  unfolding digit_line_identity_def by (subst py_words_append_space) simp_all

lemma second_NL [simp]: "digit_line_unix_second (s @ [NL]) = digit_line_unix_second s"
  by (simp add: digit_line_unix_second_def)

lemma file_lines_split:
  "file_lines c = map (\<lambda>l. l @ [NL]) (butlast (py_split NL c)) @
     (if last (py_split NL c) = [] then [] else [last (py_split NL c)])"
proof (induction c)
  case (Cons x c)
  obtain p ps where "py_split NL c = p # ps" by (cases "py_split NL c") auto
  with Cons show ?case by (cases ps) auto
qed simp

lemma concat_line_batches: "0 < n \<Longrightarrow> concat (line_batches n ls) = ls"
proof (induction n ls rule: line_batches.induct)
  case (1 n ls)
  then show ?case
    by (subst line_batches.simps) (auto simp: read_stats_line_batch_def)
qed

lemma iter_stats_file_lines_eq [simp]: "iter_stats_file_lines (Some content) = file_lines content"
  by (simp add: iter_stats_file_lines_def concat_line_batches STREAM_PARSE_LINE_BATCH_def)

lemma iter_stats_file_lines_None [simp]: "iter_stats_file_lines None = []"
  by (simp add: iter_stats_file_lines_def)

subsection \<open>Reading backwards\<close>

definition header_of :: "string \<Rightarrow> (string \<times> string \<times> string) option" where
  "header_of l = Option.bind (digit_line l) digit_line_identity"

lemma header_of_NL [simp]: "header_of (l @ [NL]) = header_of l"
  by (cases "digit_line l") (auto simp: header_of_def digit_line_NL)

lemma header_of_Nil [simp]: "header_of [] = None"
  by (simp add: header_of_def digit_line_def py_lstrip_def)

lemma parse_first_Cons [simp]:
  "parse_first_timestamp_line (l # ls) =
     (case header_of l of None \<Rightarrow> parse_first_timestamp_line ls | Some p \<Rightarrow> Some p)"
  by (auto simp: header_of_def split: option.splits)

declare parse_first_timestamp_line.simps(2) [simp del]

lemma parse_first_append:
  "parse_first_timestamp_line (xs @ ys) =
     (case parse_first_timestamp_line xs of None \<Rightarrow> parse_first_timestamp_line ys | Some p \<Rightarrow> Some p)"
  by (induction xs) (auto split: option.splits)

lemma parse_first_map_NL: "parse_first_timestamp_line (map (\<lambda>l. l @ [NL]) ls) = parse_first_timestamp_line ls"
  by (induction ls) (auto split: option.splits)

lemma parse_last_file_lines:
  "parse_last_timestamp_line (file_lines c) = parse_first_timestamp_line (rev (py_split NL c))"
proof -
  let ?b = "butlast (py_split NL c)" and ?l = "last (py_split NL c)"
  have "parse_first_timestamp_line (rev (py_split NL c)) = parse_first_timestamp_line (?l # rev ?b)"
    by (metis append_butlast_last_id py_split_nonempty rev_eq_Cons_iff rev_rev_ident)
  moreover have "parse_last_timestamp_line (file_lines c) = parse_first_timestamp_line (?l # rev ?b)"
    by (auto simp: parse_last_timestamp_line_def file_lines_split rev_map parse_first_map_NL
        split: option.split)
  ultimately show ?thesis by simp
qed

lemma py_split_hd_notin: "c \<notin> set (hd (py_split c s))"
  by (induction s) (auto split: list.splits)

lemma py_split_carry: "py_split c (a @ b) = py_split c (a @ hd (py_split c b)) @ tl (py_split c b)"
proof (induction a)
  case Nil
  then show ?case by (simp add: py_split_notin py_split_hd_notin)
next
  case (Cons x a)
  obtain p ps where "py_split c (a @ hd (py_split c b)) = p # ps"
    by (cases "py_split c (a @ hd (py_split c b))") auto
  with Cons show ?case by auto
qed

lemma tail_block:
  assumes "0 < off" "off \<le> length content"
  obtains o1 block where "o1 < off" "take off content = take o1 content @ block"
    "tail_pieces k content off = (o1, block) # tail_pieces k content o1"
proof
  let ?r = "min (max 4096 k) off"
  show "off - ?r < off" using assms by auto
  show "take off content = take (off - ?r) content @ take ?r (drop (off - ?r) content)"
    by (metis le_add_diff_inverse2 min.cobounded2 take_add)
  show "tail_pieces k content off =
      (off - ?r, take ?r (drop (off - ?r) content)) # tail_pieces k content (off - ?r)"
    using assms by (subst tail_pieces.simps) (simp add: Let_def)
qed

lemma tail_pieces_0 [simp]: "tail_pieces k content 0 = []"
  by (simp add: tail_pieces.simps)

text \<open>The blocks scanned so far and the carried piece are the end of the file.\<close>

lemma scan_pieces_lines:
  "0 < off \<Longrightarrow> off \<le> length content \<Longrightarrow>
   scan_pieces carry (tail_pieces k content off) =
     parse_first_timestamp_line (rev (py_split NL (take off content @ carry)))"
proof (induction off arbitrary: carry rule: less_induct)
  case (less off)
  obtain o1 block where b: "o1 < off" "take off content = take o1 content @ block"
    "tail_pieces k content off = (o1, block) # tail_pieces k content o1"
    using tail_block less.prems by blast
  show ?case
  proof (cases "o1 = 0")
    case True
    with b show ?thesis by (simp add: cut_piece_def split: option.splits)
  next
    case False
    let ?ps = "py_split NL (block @ carry)"
    have "scan_pieces (hd ?ps) (tail_pieces k content o1) =
        parse_first_timestamp_line (rev (py_split NL (take o1 content @ hd ?ps)))"
      using less b False by simp
    moreover have "py_split NL (take off content @ carry) = py_split NL (take o1 content @ hd ?ps) @ tl ?ps"
      using b py_split_carry [of NL "take o1 content" "block @ carry"] by simp
    ultimately show ?thesis
      using b False by (simp add: cut_piece_def parse_first_append Let_def split: option.split)
  qed
qed

lemma take_digit_lines_eq:
  "length acc \<le> n \<Longrightarrow>
   take_digit_lines n acc ls = acc @ take (n - length acc) (filter (\<lambda>l. digit_line l \<noteq> None) ls)"
proof (induction ls arbitrary: acc)
  case (Cons l ls)
  show ?case
  proof (cases "length acc = n")
    case False
    then have "n - length acc = Suc (n - Suc (length acc))" using Cons.prems by simp
    with Cons False show ?thesis by (auto split: option.splits)
  qed simp
qed simp

lemma collect_pieces_full: "n \<le> length acc \<Longrightarrow> collect_pieces n acc carry ps = acc"
  by (induction ps arbitrary: carry) auto

lemma collect_pieces_lines:
  "0 < off \<Longrightarrow> off \<le> length content \<Longrightarrow> length acc \<le> n \<Longrightarrow>
   collect_pieces n acc carry (tail_pieces k content off) =
     acc @ take (n - length acc)
       (filter (\<lambda>l. digit_line l \<noteq> None) (rev (py_split NL (take off content @ carry))))"
proof (induction off arbitrary: carry acc rule: less_induct)
  case (less off)
  let ?f = "filter (\<lambda>l. digit_line l \<noteq> None)"
  obtain o1 block where b: "o1 < off" "take off content = take o1 content @ block"
    "tail_pieces k content off = (o1, block) # tail_pieces k content o1"
    using tail_block less.prems by blast
  let ?ps = "py_split NL (block @ carry)"
  show ?case
  proof (cases "length acc = n")
    case True
    then show ?thesis by (simp add: collect_pieces_full)
  next
    case False
    show ?thesis
    proof (cases "o1 = 0")
      case True
      with b False less.prems show ?thesis
        by (simp add: cut_piece_def take_digit_lines_eq)
    next
      case pos: False
      let ?acc = "take_digit_lines n acc (rev (tl ?ps))"
      have acc: "?acc = acc @ take (n - length acc) (?f (rev (tl ?ps)))"
        using less.prems by (simp add: take_digit_lines_eq)
      have "collect_pieces n ?acc (hd ?ps) (tail_pieces k content o1) =
          ?acc @ take (n - length ?acc) (?f (rev (py_split NL (take o1 content @ hd ?ps))))"
        using less b pos acc by simp
      moreover have "py_split NL (take off content @ carry) = py_split NL (take o1 content @ hd ?ps) @ tl ?ps"
        using b py_split_carry [of NL "take o1 content" "block @ carry"] by simp
      moreover have "n - length ?acc = n - length acc - length (?f (rev (tl ?ps)))"
        using less.prems acc by simp
      ultimately show ?thesis
        using b pos False less.prems acc by (simp add: cut_piece_def Let_def)
    qed
  qed
qed

lemma collect_tail_lines:
  assumes "0 < m"
  shows "collect_tail_timestamp_lines (Some content) m k =
    take (nat m) (filter (\<lambda>l. digit_line l \<noteq> None) (rev (py_split NL content)))"
  using assms
  by (auto simp: collect_tail_timestamp_lines_def collect_pieces_lines digit_line_def py_lstrip_def)

subsection \<open>The duplicate scan\<close>

text \<open>The headers of a list of lines with a readable time: their line numbers, and the unix second or
  the error that reading it raises.\<close>

definition line_second :: "string \<Rightarrow> (py_error + int) option" where
  "line_second l = (case digit_line l of None \<Rightarrow> None | Some s \<Rightarrow>
     (case digit_line_unix_second s of Inl e \<Rightarrow> Some (Inl e) | Inr None \<Rightarrow> None | Inr (Some u) \<Rightarrow> Some (Inr u)))"

fun header_seconds :: "int \<Rightarrow> string list \<Rightarrow> (int \<times> (py_error + int)) list" where
  "header_seconds i [] = []"
| "header_seconds i (l # ls) =
     (case line_second l of
        None \<Rightarrow> header_seconds (i + 1) ls
      | Some x \<Rightarrow> (i, x) # header_seconds (i + 1) ls)"

definition known :: "(int \<Rightarrow> bool) \<Rightarrow> int \<times> (py_error + int) \<Rightarrow> bool" where
  "known present h = (case snd h of Inl _ \<Rightarrow> False | Inr u \<Rightarrow> present u)"

text \<open>Where processing starts, read off the headers: nowhere when all are known, at the last known
  header before the first unknown one, at the start of the file when there is none.\<close>

definition start_of_new :: "(int \<Rightarrow> bool) \<Rightarrow> int \<Rightarrow> (int \<times> (py_error + int)) list \<Rightarrow> py_error + int" where
  "start_of_new present origin hs =
     (case dropWhile (known present) hs of
        [] \<Rightarrow> Inr (-1)
      | (_, Inl e) # _ \<Rightarrow> Inl e
      | (_, Inr _) # _ \<Rightarrow> Inr (last (origin # map fst (takeWhile (known present) hs))))"

lemma start_of_new_Nil [simp]: "start_of_new p a [] = Inr (-1)"
  by (simp add: start_of_new_def)

lemma start_of_new_Cons [simp]:
  "start_of_new p a ((i, x) # hs) =
     (case x of Inl e \<Rightarrow> Inl e | Inr u \<Rightarrow> if p u then start_of_new p i hs else Inr a)"
proof (cases "known p (i, x)")
  case True
  then obtain u where "x = Inr u" "p u" by (auto simp: known_def split: sum.splits)
  moreover define d where "d = dropWhile (known p) hs"
  ultimately show ?thesis
    using True by (cases d) (auto simp: start_of_new_def d_def [symmetric] split: sum.split)
next
  case False
  then show ?thesis by (auto simp: start_of_new_def known_def split: sum.splits)
qed

lemma start_scan_Cons:
  "start_scan p i last_idx (l # ls) =
     (case line_second l of
        None \<Rightarrow> start_scan p (i + 1) last_idx ls
      | Some (Inl e) \<Rightarrow> Inl e
      | Some (Inr u) \<Rightarrow> if p u then start_scan p (i + 1) i ls else Inr last_idx)"
  by (auto simp: line_second_def split: option.splits sum.splits)

lemma start_scan_headers: "start_scan p i last_idx ls = start_of_new p last_idx (header_seconds i ls)"
  by (induction ls arbitrary: i last_idx)
    (auto simp: start_scan_Cons simp del: start_scan.simps(2) split: option.splits sum.splits)

lemma window_Cons:
  "window_all_present p (l # ls) =
     (case line_second l of
        None \<Rightarrow> window_all_present p ls
      | Some (Inl e) \<Rightarrow> Inl e
      | Some (Inr u) \<Rightarrow> if p u then window_all_present p ls else Inr False)"
  by (auto simp: line_second_def split: option.splits sum.splits)

text \<open>Of the window only the seconds count, and the first one that is not known decides.\<close>

definition all_known :: "(int \<Rightarrow> bool) \<Rightarrow> (py_error + int) list \<Rightarrow> py_error + bool" where
  "all_known present xs =
     (case dropWhile (\<lambda>x. known present (0, x)) xs of
        [] \<Rightarrow> Inr True | Inl e # _ \<Rightarrow> Inl e | Inr _ # _ \<Rightarrow> Inr False)"

lemma all_known_Cons [simp]:
  "all_known p (x # xs) = (case x of Inl e \<Rightarrow> Inl e | Inr u \<Rightarrow> if p u then all_known p xs else Inr False)"
  by (auto simp: all_known_def known_def split: sum.splits)

lemma window_all_known: "window_all_present p ls = all_known p (List.map_filter line_second ls)"
proof (induction ls)
  case Nil
  show ?case by (simp add: all_known_def map_filter_simps)
next
  case (Cons l ls)
  then show ?case
    by (auto simp: window_Cons map_filter_simps simp del: window_all_present.simps(2)
        split: option.splits sum.splits)
qed

lemma all_known_True: "all_known p xs = Inr True \<longleftrightarrow> (\<forall>x \<in> set xs. \<exists>u. x = Inr u \<and> p u)"
  by (induction xs) (auto simp: all_known_def known_def split: sum.splits)

lemma line_second_NL [simp]: "line_second (l @ [NL]) = line_second l"
  by (auto simp: line_second_def digit_line_NL split: option.splits)

lemma header_seconds_from: "(j, x) \<in> set (header_seconds i ls) \<Longrightarrow> i \<le> j"
  by (induction ls arbitrary: i) (fastforce split: option.splits)+

lemma header_seconds_line:
  "(j, x) \<in> set (header_seconds i ls) \<longleftrightarrow> i \<le> j \<and> j < i + int (length ls) \<and> line_second (ls ! nat (j - i)) = Some x"
proof (induction ls arbitrary: i)
  case (Cons l ls)
  have nth: "(l # ls) ! nat (j - i) = ls ! nat (j - (i + 1))" if "i < j"
    using that by (simp add: nth_Cons' nat_diff_distrib [of 1 "j - i", simplified, symmetric] diff_diff_eq)
  show ?case
  proof (cases "j = i")
    case True
    then show ?thesis by (auto split: option.splits dest: header_seconds_from)
  next
    case False
    then have "(j, x) \<in> set (header_seconds i (l # ls)) \<longleftrightarrow> (j, x) \<in> set (header_seconds (i + 1) ls)"
      by (auto split: option.splits)
    with False nth show ?thesis by (auto simp: Cons)
  qed
qed simp

text \<open>What a start index promises: it lies in the file, and a header with an unknown second is at
  or after it; without a start index every header is known.\<close>

lemma start_of_new_bound:
  "start_of_new p a hs = Inr k \<Longrightarrow> sorted (a # map fst hs) \<Longrightarrow> (i, x) \<in> set hs \<Longrightarrow> \<not> known p (i, x) \<Longrightarrow>
   a \<le> k \<and> k \<le> i"
proof (induction hs arbitrary: a)
  case (Cons h hs)
  obtain j y where h: "h = (j, y)" by (cases h)
  have *: "a \<le> j" "sorted (j # map fst hs)" "a \<le> i"
    using Cons.prems h by auto
  show ?case
  proof (cases "known p h")
    case True
    then have "start_of_new p j hs = Inr k" "(i, x) \<in> set hs"
      using Cons.prems h by (auto simp: known_def split: sum.splits if_splits)
    with Cons.IH [of j] Cons.prems(4) * show ?thesis by simp
  next
    case False
    then have "k = a" using Cons.prems(1) h by (auto simp: known_def split: sum.splits if_splits)
    with * show ?thesis by simp
  qed
qed simp

lemma start_of_new_none:
  "start_of_new p a hs = Inr (-1) \<Longrightarrow> 0 \<le> a \<Longrightarrow> \<forall>h \<in> set hs. 0 \<le> fst h \<Longrightarrow> \<forall>h \<in> set hs. known p h"
proof (induction hs arbitrary: a)
  case (Cons g hs)
  show ?case
    using Cons.prems Cons.IH [of "fst g"]
    by (cases g) (auto simp: known_def split: sum.splits if_splits)
qed simp

lemma sorted_header_seconds: "a \<le> i \<Longrightarrow> sorted (a # map fst (header_seconds i ls))"
proof (induction ls arbitrary: a i)
  case (Cons l ls)
  have "sorted (i # map fst (header_seconds (i + 1) ls))" "sorted (a # map fst (header_seconds (i + 1) ls))"
    using Cons.IH [of i "i + 1"] Cons.IH [of a "i + 1"] Cons.prems by auto
  with Cons.prems show ?case by (cases "line_second l") auto
qed simp

lemma set_file_lines_second:
  "l \<in> set (py_split NL content) \<Longrightarrow> line_second l = Some x \<Longrightarrow>
   \<exists>k \<in> set (file_lines content). line_second k = Some x"
proof -
  assume l: "l \<in> set (py_split NL content)" "line_second l = Some x"
  let ?ps = "py_split NL content"
  have "l \<noteq> []" using l by (auto simp: line_second_def digit_line_def py_lstrip_def)
  moreover have "set ?ps = set (butlast ?ps) \<union> {last ?ps}"
    by (metis Un_insert_right append_butlast_last_id list.set(1,2) py_split_nonempty set_append)
  ultimately show ?thesis
    using l by (auto simp: file_lines_split)
qed

lemma file_lines_digit:
  "l \<in> set (file_lines content) \<Longrightarrow> digit_line l \<noteq> None \<Longrightarrow>
   \<exists>k \<in> set (py_split NL content). digit_line k \<noteq> None"
proof -
  assume l: "l \<in> set (file_lines content)" "digit_line l \<noteq> None"
  let ?ps = "py_split NL content"
  from l(1) consider (head) k where "k \<in> set (butlast ?ps)" "l = k @ [NL]" | (tail) "l = last ?ps"
    by (auto simp: file_lines_split split: if_splits)
  then show ?thesis
  proof cases
    case head
    with l(2) show ?thesis by (auto simp: digit_line_NL dest: in_set_butlastD)
  next
    case tail
    with l(2) show ?thesis by (metis last_in_set py_split_nonempty)
  qed
qed

lemma tail_window_exact:
  assumes "0 < max_lines"
  shows "tail_window_timestamps_all_present_streaming (Some content) itimes_set timestamp_present
      (Some max_lines) cfg_lines =
    (let w = take (nat max_lines) (filter (\<lambda>l. digit_line l \<noteq> None) (rev (py_split NL content)))
     in if w = [] then Inr False
        else all_known (timestamp_present_for_duplicate itimes_set timestamp_present)
               (List.map_filter line_second w))"
  using assms
  by (simp add: tail_window_timestamps_all_present_streaming_def collect_tail_lines window_all_known Let_def)

section \<open>Properties\<close>

text \<open>C18: Reading a raw file backwards in blocks, whatever the block size, finds the same last
  sample header as scanning its lines.\<close>

theorem tail_scan_equals_line_scan:
  "parse_last_timestamp_line_streaming (Some content) tail_read_bytes =
     parse_last_timestamp_line (file_lines content)"
  by (auto simp: parse_last_timestamp_line_streaming_def parse_last_file_lines scan_pieces_lines)

text \<open>The duplicate scan, over the lines or streaming the file, starts at the last known
  header before the first unknown one (at line 0 without one, nowhere when all are known).\<close>

theorem duplicate_scan_exact:
  "find_processing_start_index_streaming (Some content) itimes_set timestamp_present =
     find_processing_start_index (file_lines content) itimes_set timestamp_present \<and>
   find_processing_start_index ls itimes_set timestamp_present =
     (case start_of_new (timestamp_present_for_duplicate itimes_set timestamp_present) 0 (header_seconds 0 ls) of
        Inl e \<Rightarrow> Inl e | Inr k \<Rightarrow> Inr (k, True))"
  by (simp add: find_processing_start_index_def find_processing_start_index_streaming_def start_scan_headers)

text \<open>C16: No sample that the database does not have lies before the line where processing starts:
  when the scan returns, a header with an unknown second is at or after the start index, which is
  then not negative; so with no start index every header is known.\<close>

theorem new_samples_after_start:
  assumes "find_processing_start_index ls itimes_set timestamp_present = Inr (k, need_archival)"
    and "i < length ls" "line_second (ls ! i) = Some (Inr u)"
    and "\<not> timestamp_present_for_duplicate itimes_set timestamp_present u"
  shows "0 \<le> k \<and> k \<le> int i"
proof -
  let ?p = "timestamp_present_for_duplicate itimes_set timestamp_present"
  have "start_of_new ?p 0 (header_seconds 0 ls) = Inr k"
    using assms(1) by (auto simp: find_processing_start_index_def start_scan_headers split: sum.splits)
  moreover have "(int i, Inr u) \<in> set (header_seconds 0 ls)"
    using assms(2,3) by (simp add: header_seconds_line)
  ultimately show ?thesis
    using start_of_new_bound sorted_header_seconds [of 0 0 ls] assms(4) by (fastforce simp: known_def)
qed

theorem new_samples_after_start_witness:
  "find_processing_start_index [''10 7 h'', ''20 7 h''] {10} None = Inr (0, True) \<and> (0::int) \<le> int 1"
proof -
  let ?ls = "[''10 7 h'', ''20 7 h'']"
  have scan: "find_processing_start_index ?ls {10} None = Inr (0, True)" by code_simp
  have "line_second (?ls ! 1) = Some (Inr 20)" by code_simp
  moreover have "\<not> timestamp_present_for_duplicate {10} None 20" by code_simp
  ultimately show ?thesis using new_samples_after_start [OF scan, of 1 20] scan by simp
qed

text \<open>The window at the end of the file agrees with the scan of the whole file: when the scan
  finds every sample known and some line starts with a digit, the last \<open>max_lines\<close> such lines are
  found complete.\<close>

theorem tail_window_agrees:
  assumes "0 < max_lines" "l \<in> set (file_lines content)" "digit_line l \<noteq> None"
    and "find_processing_start_index (file_lines content) itimes_set timestamp_present = Inr (-1, True)"
  shows "tail_window_timestamps_all_present_streaming (Some content) itimes_set timestamp_present
      (Some max_lines) cfg_lines = Inr True"
proof -
  let ?p = "timestamp_present_for_duplicate itimes_set timestamp_present"
  let ?w = "take (nat max_lines) (filter (\<lambda>l. digit_line l \<noteq> None) (rev (py_split NL content)))"
  have "start_of_new ?p 0 (header_seconds 0 (file_lines content)) = Inr (-1)"
    using assms(4) by (auto simp: find_processing_start_index_def start_scan_headers split: sum.splits)
  moreover have "\<forall>h \<in> set (header_seconds 0 (file_lines content)). 0 \<le> fst h"
    by (auto dest: header_seconds_from)
  ultimately have all: "\<forall>h \<in> set (header_seconds 0 (file_lines content)). known ?p h"
    using start_of_new_none [of ?p 0] by blast
  have "\<exists>u. x = Inr u \<and> ?p u" if "k \<in> set (file_lines content)" "line_second k = Some x" for k x
  proof -
    obtain i where "i < length (file_lines content)" "file_lines content ! i = k"
      using \<open>k \<in> _\<close> by (metis in_set_conv_nth)
    then have "(int i, x) \<in> set (header_seconds 0 (file_lines content))"
      using that(2) by (simp add: header_seconds_line)
    with all have "known ?p (int i, x)" by blast
    then show ?thesis by (auto simp: known_def split: sum.splits)
  qed
  then have "all_known ?p (List.map_filter line_second ?w) = Inr True"
    using set_file_lines_second
    by (fastforce simp: all_known_True map_filter_def dest: in_set_takeD)
  moreover have "?w \<noteq> []"
    using assms(1) file_lines_digit [OF assms(2,3)] by (auto simp: filter_empty_conv)
  ultimately show ?thesis using tail_window_exact [OF assms(1)] by (simp add: Let_def)
qed

theorem tail_window_agrees_witness:
  "tail_window_timestamps_all_present_streaming (Some (''10 7 h'' @ [NL] @ ''x'')) {10} None (Some 1) 64 =
     Inr True"
proof (rule tail_window_agrees [where l = "''10 7 h'' @ [NL]"])
  show "''10 7 h'' @ [NL] \<in> set (file_lines (''10 7 h'' @ [NL] @ ''x''))" by code_simp
  show "digit_line (''10 7 h'' @ [NL]) \<noteq> None" by code_simp
  show "find_processing_start_index (file_lines (''10 7 h'' @ [NL] @ ''x'')) {10} None = Inr (-1, True)"
    by code_simp
qed simp

text \<open>A sample header whose time is beyond the range of a float makes the duplicate scan raise
  \<open>OverflowError\<close>, which nothing in it catches, although the parser drops such a sample.\<close>

theorem infinite_time_stops_scan:
  "find_processing_start_index (''1e309 7 h'' # ls) itimes_set timestamp_present = Inl OverflowError"
proof -
  have "line_second ''1e309 7 h'' = Some (Inl OverflowError)" by code_simp
  then show ?thesis
    by (simp add: find_processing_start_index_def start_scan_Cons del: start_scan.simps)
qed

end
