(* ===== verification/Stats_Rows.thy ===== *)
theory Stats_Rows
  imports Sample_Lines
begin

text \<open>
  \<open>dbload/lib/sync_timedb_parsing.py\<close> and \<open>sync_timedb_parsing_legacy.py\<close>, the rows of a parse:
  compiled schemas, the columns of the statistics, the per-process rows with their peaks, and the
  counter decode of old monitors.
  \<^item> The column lists of the statistics are a record with one field per column.
  \<^item> A process row is a dictionary of cells; its floats are finite (only a sample time is one).
  \<^item> The rows the database already has are an argument, a function of job, host and process names.
  Lemmas: columns stay aligned and appending a line is appending its own columns; merging rows is
  associative, so rows merged online are the rows merged at once; a merged row has the greatest peak
  and the latest of the other values.
\<close>

section \<open>Text\<close>

fun py_in :: "string \<Rightarrow> string \<Rightarrow> bool" where
  "py_in p [] = starts_with p []"
| "py_in p (c # cs) = (starts_with p (c # cs) \<or> py_in p cs)"

definition lstrip_chars :: "string \<Rightarrow> string \<Rightarrow> string" where
  "lstrip_chars cs s = dropWhile (\<lambda>c. c \<in> set cs) s"

definition all_digits :: "string \<Rightarrow> bool" where
  "all_digits s \<longleftrightarrow> s \<noteq> [] \<and> list_all is_digit s"

section \<open>Schemas\<close>

definition schema_key_basename :: "string \<Rightarrow> string" where
  "schema_key_basename token = (if token = [] then [] else fst (py_split1 CHR '','' token))"

definition schema_token_is_slow_tier :: "string \<Rightarrow> bool" where
  "schema_token_is_slow_tier token \<longleftrightarrow> ''R=S'' \<in> set (tl (py_split CHR '','' token))"

definition fast_schema_keys :: "string list \<Rightarrow> string list" where
  "fast_schema_keys full_events = filter (\<lambda>e. \<not> schema_token_is_slow_tier e) full_events"

text \<open>One option of a token: \<open>W=\<close> sets the width, \<open>U=\<close> the multiplier (its digits, when there are any)
  and the unit (its letters).\<close>

definition compile_option :: "string \<Rightarrow> int \<times> py_num \<times> string \<Rightarrow> int \<times> py_num \<times> string" where
  "compile_option ele acc =
     (case acc of (width, mlt, unit) \<Rightarrow>
        let w = lstrip_chars ''W='' ele; u = lstrip_chars ''U='' ele
        in ((if py_in ''W='' ele \<and> all_digits w then (case py_int w of Some n \<Rightarrow> n | None \<Rightarrow> width) else width),
            (if py_in ''U='' ele then (case py_float_text (filter is_digit u) of Some m \<Rightarrow> m | None \<Rightarrow> mlt) else mlt),
            (if py_in ''U='' ele then filter is_alpha u else unit)))"

definition compile_schema_token :: "string \<Rightarrow> string \<times> int \<times> py_num \<times> string" where
  "compile_schema_token token =
     (let eve_parts = py_split CHR '','' token
      in (hd eve_parts, fold compile_option (tl eve_parts) (64, Finite 1, ''#'')))"

record compiled_schema =
  sc_events :: "string list"
  sc_wids :: "int list"
  sc_mults :: "py_num list"
  sc_units :: "string list"

definition empty_compiled_schema :: compiled_schema where
  "empty_compiled_schema = \<lparr>sc_events = [], sc_wids = [], sc_mults = [], sc_units = []\<rparr>"

definition compile_schema_tokens :: "string list \<Rightarrow> compiled_schema" where
  "compile_schema_tokens tokens =
     fold (\<lambda>token out. case compile_schema_token token of (event, wid, mlt, unit) \<Rightarrow>
         \<lparr>sc_events = sc_events out @ [event], sc_wids = sc_wids out @ [wid],
          sc_mults = sc_mults out @ [mlt], sc_units = sc_units out @ [unit]\<rparr>)
       tokens empty_compiled_schema"

definition compile_schema_bare_names :: "string list \<Rightarrow> string list" where
  "compile_schema_bare_names tokens = map schema_key_basename tokens"

section \<open>Columns of the statistics\<close>

record stats_columns =
  col_time :: "rat list"
  col_host :: "string list"
  col_jid :: "string list"
  col_type :: "string list"
  col_dev :: "string list"
  col_event :: "string list"
  col_value :: "py_num list"
  col_wid :: "int list"
  col_mult :: "py_num list"
  col_unit :: "string list"

definition empty_stats_columns :: stats_columns where
  "empty_stats_columns = \<lparr>col_time = [], col_host = [], col_jid = [], col_type = [], col_dev = [],
     col_event = [], col_value = [], col_wid = [], col_mult = [], col_unit = []\<rparr>"

text \<open>\<open>[float(v) for v in vals]\<close>, \<open>None\<close> for the \<open>ValueError\<close> the caller catches.\<close>

fun float_list :: "string list \<Rightarrow> py_num list option" where
  "float_list [] = Some []"
| "float_list (v # vs) =
     (case py_float_text v of None \<Rightarrow> None | Some x \<Rightarrow> map_option (Cons x) (float_list vs))"

definition append_compiled_stats_columns ::
    "stats_columns \<Rightarrow> rat \<Rightarrow> string \<Rightarrow> string \<Rightarrow> string \<Rightarrow> string \<Rightarrow> compiled_schema \<Rightarrow> string list \<Rightarrow> stats_columns" where
  "append_compiled_stats_columns cols time host jid typ dev compiled vals =
     (let n = length (sc_events compiled) in
      if length vals \<noteq> n then cols
      else case float_list vals of
          None \<Rightarrow> cols
        | Some values \<Rightarrow>
            \<lparr>col_time = col_time cols @ replicate n time, col_host = col_host cols @ replicate n host,
             col_jid = col_jid cols @ replicate n jid, col_type = col_type cols @ replicate n typ,
             col_dev = col_dev cols @ replicate n dev, col_event = col_event cols @ sc_events compiled,
             col_value = col_value cols @ values, col_wid = col_wid cols @ sc_wids compiled,
             col_mult = col_mult cols @ sc_mults compiled, col_unit = col_unit cols @ sc_units compiled\<rparr>)"

definition append_vals_dict_columns ::
    "stats_columns \<Rightarrow> rat \<Rightarrow> string \<Rightarrow> string \<Rightarrow> string \<Rightarrow> string \<Rightarrow> (string, string) dict \<Rightarrow> stats_columns" where
  "append_vals_dict_columns cols time host jid typ dev vals_dict =
     (if vals_dict = [] then cols
      else append_compiled_stats_columns cols time host jid typ dev
             (compile_schema_tokens (map fst vals_dict)) (map snd vals_dict))"

subsection \<open>Payloads\<close>

text \<open>A payload is missing, a dictionary of columns, or a list of rows.\<close>

datatype 'c payload = NoPayload | ColumnPayload "(string, 'c list) dict" | RowPayload "(string, 'c) dict list"

definition stats_payload_row_count :: "'c payload \<Rightarrow> nat" where
  "stats_payload_row_count p =
     (case p of
        NoPayload \<Rightarrow> 0
      | ColumnPayload d \<Rightarrow> (case map_of d ''time'' of None \<Rightarrow> 0 | Some ts \<Rightarrow> length ts)
      | RowPayload rows \<Rightarrow> length rows)"

definition stats_payload_to_records :: "'c payload \<Rightarrow> (string, 'c) dict list" where
  "stats_payload_to_records p =
     (case p of
        NoPayload \<Rightarrow> []
      | ColumnPayload d \<Rightarrow>
          let n = stats_payload_row_count p;
              keep = filter (\<lambda>(k, vs). length vs = n) d
          in map (\<lambda>i. map (\<lambda>(k, vs). (k, vs ! i)) keep) [0..<n]
      | RowPayload rows \<Rightarrow> rows)"

datatype stats_cell = SNum py_num | SText string | SInt int

definition columns_payload :: "stats_columns \<Rightarrow> stats_cell payload" where
  "columns_payload c = ColumnPayload
     [(''time'', map (SNum o Finite) (col_time c)), (''host'', map SText (col_host c)),
      (''jid'', map SText (col_jid c)), (''type'', map SText (col_type c)), (''dev'', map SText (col_dev c)),
      (''event'', map SText (col_event c)), (''value'', map SNum (col_value c)),
      (''wid'', map SInt (col_wid c)), (''mult'', map SNum (col_mult c)), (''unit'', map SText (col_unit c))]"

section \<open>Process rows\<close>

datatype cell = CFloat rat | CText string | CInt int | CNone

type_synonym proc_row = "(string, cell) dict"
type_synonym proc_key = "cell \<times> cell \<times> cell"

definition HOST_PROC_KEYS :: "string list" where
  "HOST_PROC_KEYS = [''uid'', ''vm_peak'', ''vm_size'', ''vm_lck'', ''vm_hwm'', ''vm_rss'', ''vm_data'', ''vm_stk'',
     ''vm_exe'', ''vm_lib'', ''vm_pte'', ''vm_swap'', ''threads'']"

definition HOST_PROC_PEAK_KEYS :: "string list" where
  "HOST_PROC_PEAK_KEYS = [''vm_peak'', ''vm_hwm'', ''vm_stk'', ''vm_exe'', ''vm_lib'']"

definition row_get :: "string \<Rightarrow> proc_row \<Rightarrow> cell" where
  "row_get k row = (case map_of row k of None \<Rightarrow> CNone | Some v \<Rightarrow> v)"

text \<open>\<open>int(x)\<close>, with \<open>TypeError\<close> and \<open>ValueError\<close> caught.\<close>

definition cell_int :: "cell \<Rightarrow> int option" where
  "cell_int x = (case x of CNone \<Rightarrow> None | CInt i \<Rightarrow> Some i | CFloat r \<Rightarrow> Some (py_trunc r) | CText s \<Rightarrow> py_int s)"

definition nullable_int_max :: "cell \<Rightarrow> cell \<Rightarrow> cell" where
  "nullable_int_max left right =
     (case (left, right) of
        (CInt a, CInt b) \<Rightarrow> CInt (if a \<ge> b then a else b)
      | _ \<Rightarrow> (case (cell_int left, cell_int right) of
            (None, None) \<Rightarrow> CNone
          | (None, Some b) \<Rightarrow> CInt b
          | (Some a, None) \<Rightarrow> CInt a
          | (Some a, Some b) \<Rightarrow> CInt (max a b)))"

definition merge_cell :: "string \<Rightarrow> cell \<Rightarrow> proc_row \<Rightarrow> proc_row" where
  "merge_cell key val earlier =
     AList.update key
       (if key \<in> set HOST_PROC_PEAK_KEYS then
          (let prev = row_get key earlier in
           case (prev, val) of
             (CInt a, CInt b) \<Rightarrow> CInt (if a \<ge> b then a else b)
           | _ \<Rightarrow> nullable_int_max prev val)
        else val) earlier"

definition merge_proc_row_dicts :: "proc_row \<Rightarrow> proc_row \<Rightarrow> proc_row" where
  "merge_proc_row_dicts earlier later = fold (\<lambda>(key, val). merge_cell key val) later earlier"

definition row_key :: "proc_row \<Rightarrow> proc_key" where
  "row_key row = (row_get ''jid'' row, row_get ''host'' row, row_get ''proc'' row)"

definition dedupe_row :: "proc_row \<Rightarrow> (proc_key, proc_row) dict \<Rightarrow> (proc_key, proc_row) dict" where
  "dedupe_row row by_key =
     (case map_of by_key (row_key row) of
        Some existing \<Rightarrow> AList.update (row_key row) (merge_proc_row_dicts existing row) by_key
      | None \<Rightarrow> AList.update (row_key row) row by_key)"

definition dedupe_proc_stats_peak_merge :: "proc_row list \<Rightarrow> proc_row list" where
  "dedupe_proc_stats_peak_merge rows = map snd (fold dedupe_row rows [])"

definition add_fresh :: "'a \<Rightarrow> 'a list \<Rightarrow> 'a list" where
  "add_fresh k ks = (if k \<in> set ks then ks else ks @ [k])"

definition proc_rows_to_columns :: "proc_row list \<Rightarrow> (string, cell list) dict" where
  "proc_rows_to_columns rows =
     (if rows = [] then []
      else let ks = fold (\<lambda>row. fold add_fresh (map fst row)) rows []
           in map (\<lambda>k. (k, map (row_get k) rows)) ks)"

subsection \<open>Peaks the database has\<close>

text \<open>A model object is the dictionary of its attributes.\<close>

definition apply_proc_peak_attrs_from_earlier :: "proc_row \<Rightarrow> proc_row \<Rightarrow> proc_row" where
  "apply_proc_peak_attrs_from_earlier earlier later =
     fold (\<lambda>key obj. AList.update key (nullable_int_max (row_get key earlier) (row_get key obj)) obj)
       HOST_PROC_PEAK_KEYS later"

function chunked :: "nat \<Rightarrow> 'a list \<Rightarrow> 'a list list" where
  "chunked n xs = (if n = 0 \<or> xs = [] then [] else take n xs # chunked n (drop n xs))"
  by pat_completeness auto
termination by (relation "measure (length o snd)") auto

declare chunked.simps [simp del]

definition group_procs :: "proc_row list \<Rightarrow> cell list" where
  "group_procs grp = fold add_fresh (map (row_get ''proc'') grp) []"

definition lookup_existing ::
    "(cell \<Rightarrow> cell \<Rightarrow> cell list \<Rightarrow> proc_row list) \<Rightarrow> nat \<Rightarrow> proc_row list \<Rightarrow> (proc_key, proc_row) dict" where
  "lookup_existing lookup chunk_size proc_objs =
     (let by_jh = fold (\<lambda>obj. dict_append (row_get ''jid'' obj, row_get ''host'' obj) obj) proc_objs [];
          found = concat (map (\<lambda>((jid, host), grp).
                    concat (map (lookup jid host) (chunked chunk_size (group_procs grp)))) by_jh)
      in fold (\<lambda>row. AList.update (row_key row) row) found [])"

definition peak_merge_proc_objs_with_existing ::
    "(cell \<Rightarrow> cell \<Rightarrow> cell list \<Rightarrow> proc_row list) \<Rightarrow> py_error + int \<Rightarrow> int option \<Rightarrow> proc_row list \<Rightarrow> proc_row list" where
  "peak_merge_proc_objs_with_existing lookup cfg_chunk lookup_chunk_size proc_objs =
     (if proc_objs = [] then proc_objs
      else let chunk = (case lookup_chunk_size of
                 Some n \<Rightarrow> n
               | None \<Rightarrow> (case cfg_chunk of Inr n \<Rightarrow> n | Inl _ \<Rightarrow> 256));
               existing = lookup_existing lookup (nat (max 1 chunk)) proc_objs
           in if existing = [] then proc_objs
              else map (\<lambda>obj. case map_of existing (row_key obj) of
                  Some prior \<Rightarrow> apply_proc_peak_attrs_from_earlier prior obj
                | None \<Rightarrow> obj) proc_objs)"

section \<open>Counters of old monitors\<close>

datatype event_code = Code int | Ctr string

definition amd64_pmc_eventmap :: "(event_code, string) dict" where
  "amd64_pmc_eventmap =
     [(Code 0x43FF03, ''FLOPS,W=48''), (Code 0x4300C2, ''BRANCH_INST_RETIRED,W=48''),
      (Code 0x4300C3, ''BRANCH_INST_RETIRED_MISS,W=48''), (Code 0x4308AF, ''DISPATCH_STALL_CYCLES1,W=48''),
      (Code 0x43FFAE, ''DISPATCH_STALL_CYCLES0,W=48'')]"

definition amd64_df_eventmap :: "(event_code, string) dict" where
  "amd64_df_eventmap =
     [(Code 0x403807, ''MBW_CHANNEL_0,W=48,U=64B''), (Code 0x403847, ''MBW_CHANNEL_1,W=48,U=64B''),
      (Code 0x403887, ''MBW_CHANNEL_2,W=48,U=64B''), (Code 0x4038C7, ''MBW_CHANNEL_3,W=48,U=64B''),
      (Code 0x433907, ''MBW_CHANNEL_4,W=48,U=64B''), (Code 0x433947, ''MBW_CHANNEL_5,W=48,U=64B''),
      (Code 0x433987, ''MBW_CHANNEL_6,W=48,U=64B''), (Code 0x4339C7, ''MBW_CHANNEL_7,W=48,U=64B'')]"

definition intel_8pmc3_eventmap :: "(event_code, string) dict" where
  "intel_8pmc3_eventmap =
     [(Code 0x4301C7, ''FP_ARITH_INST_RETIRED_SCALAR_DOUBLE,W=48,U=1''),
      (Code 0x4302C7, ''FP_ARITH_INST_RETIRED_SCALAR_SINGLE,W=48,U=1''),
      (Code 0x4304C7, ''FP_ARITH_INST_RETIRED_128B_PACKED_DOUBLE,W=48,U=2''),
      (Code 0x4308C7, ''FP_ARITH_INST_RETIRED_128B_PACKED_SINGLE,W=48,U=4''),
      (Code 0x4310C7, ''FP_ARITH_INST_RETIRED_256B_PACKED_DOUBLE,W=48,U=4''),
      (Code 0x4320C7, ''FP_ARITH_INST_RETIRED_256B_PACKED_SINGLE,W=48,U=8''),
      (Code 0x4340C7, ''FP_ARITH_INST_RETIRED_512B_PACKED_DOUBLE,W=48,U=8''),
      (Code 0x4380C7, ''FP_ARITH_INST_RETIRED_512B_PACKED_SINGLE,W=48,U=16''),
      (Code 0x438010, ''SSE_DOUBLE_SCALAR,W=48,U=1''), (Code 0x431010, ''SSE_DOUBLE_PACKED,W=48,U=2''),
      (Code 0x430211, ''SIMD_DOUBLE_256,W=48,U=4''), (Code 0x439010, ''SSE_DOUBLE_ALL,W=48,U=1''),
      (Ctr ''FIXED_CTR0'', ''INST_RETIRED,W=48''), (Ctr ''FIXED_CTR1'', ''APERF,W=48''),
      (Ctr ''FIXED_CTR2'', ''MPERF,W=48'')]"

definition intel_skx_imc_eventmap :: "(event_code, string) dict" where
  "intel_skx_imc_eventmap =
     [(Code 0x400304, ''CAS_READS,W=48''), (Code 0x400C04, ''CAS_WRITES,W=48''),
      (Code 0x400B01, ''ACT_COUNT,W=48''), (Code 0x400102, ''PRE_COUNT_MISS,W=48'')]"

definition intel_snb_imc_eventmap :: "(event_code, string) dict" where
  "intel_snb_imc_eventmap = [(Code 0x400304, ''CAS_READS,W=48''), (Code 0x400B04, ''CAS_WRITES,W=48'')]"

definition intel_hsw_imc_eventmap :: "(event_code, string) dict" where
  "intel_hsw_imc_eventmap = [(Code 0x400304, ''CAS_READS,W=48''), (Code 0x400B04, ''CAS_WRITES,W=48'')]"

definition intel_knl_mc_dclk_eventmap :: "(event_code, string) dict" where
  "intel_knl_mc_dclk_eventmap = [(Code 0x300301, ''CAS_READS,W=48''), (Code 0x300309, ''CAS_WRITES,W=48'')]"

definition EVENTMAPS_BY_TYPE :: "(string, (event_code, string) dict) dict" where
  "EVENTMAPS_BY_TYPE =
     [(''amd64_pmc'', amd64_pmc_eventmap), (''amd64_df'', amd64_df_eventmap),
      (''intel_8pmc3'', intel_8pmc3_eventmap), (''intel_4pmc3'', intel_8pmc3_eventmap),
      (''intel_snb_imc'', intel_snb_imc_eventmap), (''intel_ivb_imc'', intel_snb_imc_eventmap),
      (''intel_hsw_imc'', intel_hsw_imc_eventmap), (''intel_bdw_imc'', intel_hsw_imc_eventmap),
      (''intel_knl_mc_dclk'', intel_knl_mc_dclk_eventmap), (''intel_knl_mc'', intel_knl_mc_dclk_eventmap),
      (''intel_skx_imc'', intel_skx_imc_eventmap)]"

definition legacy_output_type :: "string \<Rightarrow> string" where
  "legacy_output_type typ = (if typ = ''intel_knl_mc'' then ''intel_knl_mc_dclk'' else typ)"

text \<open>The loop over the schema: the names the control registers select, the indexes of their
  values, and the names of the values that stay.\<close>

fun hw_scan ::
    "(event_code, string) dict \<Rightarrow> string list \<Rightarrow> nat \<Rightarrow> (string, string) dict \<Rightarrow> string list
     \<Rightarrow> py_error + nat list \<times> string list" where
  "hw_scan eventmap vals idx n [] = Inr ([], [])"
| "hw_scan eventmap vals idx n (token # tokens) =
     (let eve = hd (py_split CHR '','' token) in
      if py_in ''CTL'' eve then
        (let name = (if idx < length vals then
              (case py_int (vals ! idx) of
                 Some code \<Rightarrow> (case map_of eventmap (Code code) of Some nm \<Rightarrow> nm | None \<Rightarrow> ''OTHER'')
               | None \<Rightarrow> ''OTHER'') else ''OTHER'')
         in case hw_scan eventmap vals (Suc idx) (AList.update (lstrip_chars ''CTL'' eve) name n) tokens of
              Inl e \<Rightarrow> Inl e | Inr (rm, md) \<Rightarrow> Inr (idx # rm, md))
      else
        (case (if py_in ''FIXED_CTR'' eve then map_of eventmap (Ctr eve)
               else if py_in ''CTR'' eve then map_of n (lstrip_chars ''CTR'' eve) else Some eve) of
           None \<Rightarrow> Inl KeyError
         | Some name \<Rightarrow> (case hw_scan eventmap vals (Suc idx) n tokens of
               Inl e \<Rightarrow> Inl e | Inr (rm, md) \<Rightarrow> Inr (rm, name # md))))"

fun delete_indices :: "nat list \<Rightarrow> 'a list \<Rightarrow> py_error + 'a list" where
  "delete_indices [] vals = Inr vals"
| "delete_indices (i # is) vals =
     (if i < length vals then delete_indices is (take i vals @ drop (Suc i) vals) else Inl IndexError)"

definition map_hardware_counter_vals ::
    "string list \<Rightarrow> string list \<Rightarrow> (event_code, string) dict \<Rightarrow> py_error + (string, string) dict" where
  "map_hardware_counter_vals schema_events vals eventmap =
     (case hw_scan eventmap vals 0 [] schema_events of
        Inl e \<Rightarrow> Inl e
      | Inr (rm, schema_mod) \<Rightarrow>
          (case delete_indices (rev rm) vals of
             Inl e \<Rightarrow> Inl e
           | Inr kept \<Rightarrow> Inr (dict_of (zip schema_mod kept))))"

definition decode_counter_line ::
    "string \<Rightarrow> (string, string list) dict \<Rightarrow> string list \<Rightarrow> py_error + (string, string) dict option" where
  "decode_counter_line typ schema vals =
     (case (map_of EVENTMAPS_BY_TYPE typ, map_of schema typ) of
        (Some eventmap, Some events) \<Rightarrow>
          (case map_hardware_counter_vals events vals eventmap of Inl e \<Rightarrow> Inl e | Inr d \<Rightarrow> Inr (Some d))
      | _ \<Rightarrow> Inr None)"

definition schema_needs_legacy_hardware_decode :: "string list \<Rightarrow> string \<Rightarrow> string list \<Rightarrow> bool" where
  "schema_needs_legacy_hardware_decode removed_symbols typ schema_events \<longleftrightarrow>
     list_ex (\<lambda>token. let base = hd (py_split CHR '','' token) in
         base \<in> set removed_symbols \<or> py_in ''CTL'' base \<or> py_in ''CTR'' base \<or> py_in ''FIXED_CTR'' base) schema_events
     \<or> typ \<in> set [''amd64_pmc'', ''amd64_df'', ''intel_8pmc3'', ''intel_4pmc3'', ''intel_snb_imc'', ''intel_ivb_imc'',
         ''intel_hsw_imc'', ''intel_bdw_imc'', ''intel_knl_mc_dclk'', ''intel_knl_mc'', ''intel_skx_imc'']"

section \<open>Merging dictionaries entry by entry\<close>

text \<open>Both the cells of a row and the rows of a parse are merged by assigning the items of the later
  dictionary to the earlier one, each new value a function of the key, the old value and the item.
  The laws of such a function that make the merge associative:\<close>

definition merge_with :: "('k \<Rightarrow> 'v option \<Rightarrow> 'v \<Rightarrow> 'v) \<Rightarrow> ('k, 'v) dict \<Rightarrow> ('k, 'v) dict \<Rightarrow> ('k, 'v) dict" where
  "merge_with f earlier later = fold (\<lambda>(k, v) d. AList.update k (f k (map_of d k) v) d) later earlier"

definition merged_value :: "('k \<Rightarrow> 'v option \<Rightarrow> 'v \<Rightarrow> 'v) \<Rightarrow> 'k \<Rightarrow> 'v option \<Rightarrow> 'v option \<Rightarrow> 'v option" where
  "merged_value f k old new = (case new of None \<Rightarrow> old | Some v \<Rightarrow> Some (f k old v))"

lemma merge_with_Nil [simp]: "merge_with f d [] = d"
  by (simp add: merge_with_def)

lemma merge_with_Cons [simp]:
  "merge_with f d ((k, v) # e) = merge_with f (AList.update k (f k (map_of d k) v) d) e"
  by (simp add: merge_with_def)

lemma wf_merge_with: "dict_wf d \<Longrightarrow> dict_wf (merge_with f d e)"
proof (induction e arbitrary: d)
  case (Cons p e)
  then show ?case by (cases p) (simp add: dict_wf_update)
qed simp

lemma map_of_merge_with:
  "dict_wf e \<Longrightarrow> map_of (merge_with f d e) k = merged_value f k (map_of d k) (map_of e k)"
proof (induction e arbitrary: d)
  case (Cons p e)
  obtain j v where p: "p = (j, v)" by (cases p)
  have IH: "map_of (merge_with f (AList.update j (f j (map_of d j) v) d) e) k =
      merged_value f k (map_of (AList.update j (f j (map_of d j) v) d) k) (map_of e k)"
    using Cons by simp
  have "map_of e j = None" using Cons.prems p by (simp add: map_of_None_iff)
  then show ?case
    using IH p by (cases "j = k") (simp_all add: merged_value_def update_conv')
qed (simp add: merged_value_def)

lemma set_update_subset: "p \<in> set (AList.update k v d) \<Longrightarrow> p = (k, v) \<or> p \<in> set d"
  by (induction d) (auto split: if_splits)

lemma keys_update: "map fst (AList.update k v d) = map fst d @ (if k \<in> dict_keys d then [] else [k])"
  by (induction d) auto

lemma keys_merge_with:
  "dict_wf e \<Longrightarrow> map fst (merge_with f d e) = map fst d @ filter (\<lambda>k. k \<notin> dict_keys d) (map fst e)"
proof (induction e arbitrary: d)
  case (Cons p e)
  obtain k v where p: "p = (k, v)" by (cases p)
  let ?d = "AList.update k (f k (map_of d k) v) d"
  have "filter (\<lambda>x. x \<notin> dict_keys ?d) (map fst e) = filter (\<lambda>x. x \<notin> dict_keys d) (map fst e)"
    using Cons.prems p by (intro filter_cong) auto
  with Cons p show ?case by (auto simp: keys_update)
qed simp

lemma dict_keys_merge_with: "dict_wf e \<Longrightarrow> dict_keys (merge_with f d e) = dict_keys d \<union> dict_keys e"
  using arg_cong [OF keys_merge_with, of e set f d] by auto

lemma dict_eqI:
  assumes "dict_wf d" "map fst d = map fst e" "\<And>k. k \<in> dict_keys d \<Longrightarrow> map_of d k = map_of e k"
  shows "d = e"
  using assms
proof (induction d arbitrary: e)
  case (Cons p d)
  obtain k v where p: "p = (k, v)" by (cases p)
  from Cons.prems(2) p obtain v' e' where e: "e = (k, v') # e'" "map fst d = map fst e'"
    by (cases e) auto
  have "v' = v" using Cons.prems(3) [of k] p e by simp
  moreover have "d = e'"
  proof (rule Cons.IH)
    fix x assume "x \<in> dict_keys d"
    moreover then have "x \<noteq> k" using Cons.prems(1) p by auto
    ultimately show "map_of d x = map_of e' x" using Cons.prems(3) [of x] p e by simp
  qed (use Cons.prems p e in auto)
  ultimately show ?case using p e by simp
qed simp

locale merge_policy =
  fixes f :: "'k \<Rightarrow> 'v option \<Rightarrow> 'v \<Rightarrow> 'v"
    and ok :: "'v \<Rightarrow> bool"
  assumes policy_ok: "ok v \<Longrightarrow> pred_option ok old \<Longrightarrow> ok (f k old v)"
    and policy_assoc: "ok x \<Longrightarrow> ok y \<Longrightarrow> pred_option ok old \<Longrightarrow> f k (Some (f k old x)) y = f k old (f k (Some x) y)"
    and policy_fresh: "ok x \<Longrightarrow> pred_option ok old \<Longrightarrow> f k old (f k None x) = f k old x"
begin

abbreviation all_ok :: "('k, 'v) dict \<Rightarrow> bool" where
  "all_ok d \<equiv> list_all (\<lambda>p. ok (snd p)) d"

lemma all_ok_map_of: "all_ok d \<Longrightarrow> pred_option ok (map_of d k)"
  by (induction d) (auto simp: list_all_iff)

lemma all_ok_merge:
  assumes "all_ok d" "all_ok e"
  shows "all_ok (merge_with f d e)"
  using assms
proof (induction e arbitrary: d)
  case (Cons p e)
  obtain k v where p: "p = (k, v)" by (cases p)
  have "all_ok (AList.update k (f k (map_of d k) v) d)"
    using Cons.prems p policy_ok [of v "map_of d k" k] all_ok_map_of [of d k]
    by (auto simp: list_all_iff dest: set_update_subset)
  with Cons p show ?case by simp
qed simp

lemma merge_assoc:
  assumes wf: "dict_wf a" "dict_wf b" "dict_wf c" and ok: "all_ok a" "all_ok b" "all_ok c"
  shows "merge_with f (merge_with f a b) c = merge_with f a (merge_with f b c)"
proof (rule dict_eqI)
  show "dict_wf (merge_with f (merge_with f a b) c)" using wf by (simp add: wf_merge_with)
  show "map fst (merge_with f (merge_with f a b) c) = map fst (merge_with f a (merge_with f b c))"
  proof -
    have "dict_keys (merge_with f a b) = dict_keys a \<union> dict_keys b"
      by (rule dict_keys_merge_with [OF wf(2)])
    then show ?thesis
      by (simp add: keys_merge_with [OF wf_merge_with [OF wf(2)]] keys_merge_with [OF wf(2)]
          keys_merge_with [OF wf(3)] conj_commute)
  qed
  fix k
  have "pred_option ok (map_of a k)" "pred_option ok (map_of b k)" "pred_option ok (map_of c k)"
    using ok by (auto intro: all_ok_map_of)
  then show "map_of (merge_with f (merge_with f a b) c) k = map_of (merge_with f a (merge_with f b c)) k"
    by (auto simp: map_of_merge_with [OF wf_merge_with [OF wf(2)]] map_of_merge_with [OF wf(2)]
        map_of_merge_with [OF wf(3)] merged_value_def policy_assoc policy_fresh split: option.split)
qed

end

section \<open>Lemmas\<close>

subsection \<open>Merging rows\<close>

definition cell_policy :: "string \<Rightarrow> cell option \<Rightarrow> cell \<Rightarrow> cell" where
  "cell_policy k old v =
     (if k \<in> set HOST_PROC_PEAK_KEYS then nullable_int_max (case old of None \<Rightarrow> CNone | Some x \<Rightarrow> x) v else v)"

text \<open>The greater of two optional integers, and the cell of an optional integer.\<close>

definition opt_max :: "int option \<Rightarrow> int option \<Rightarrow> int option" where
  "opt_max a b = (case (a, b) of (None, _) \<Rightarrow> b | (_, None) \<Rightarrow> a | (Some x, Some y) \<Rightarrow> Some (max x y))"

definition int_cell :: "int option \<Rightarrow> cell" where
  "int_cell a = (case a of None \<Rightarrow> CNone | Some i \<Rightarrow> CInt i)"

lemma nullable_int_max_eq: "nullable_int_max a b = int_cell (opt_max (cell_int a) (cell_int b))"
  by (auto simp: nullable_int_max_def opt_max_def int_cell_def cell_int_def max_def split: cell.splits option.splits)

lemma cell_int_int_cell [simp]: "cell_int (int_cell a) = a"
  by (auto simp: cell_int_def int_cell_def split: option.splits)

lemma cell_int_CNone [simp]: "cell_int CNone = None"
  by (simp add: cell_int_def)

lemma opt_max_assoc: "opt_max (opt_max a b) c = opt_max a (opt_max b c)"
  by (auto simp: opt_max_def max.assoc split: option.splits)

lemma opt_max_None [simp]: "opt_max None b = b" "opt_max b None = b"
  by (auto simp: opt_max_def split: option.splits)

interpretation cp: merge_policy cell_policy "\<lambda>_. True"
  by unfold_locales (auto simp: cell_policy_def nullable_int_max_eq opt_max_assoc split: option.splits)

lemma merge_cell_eq: "merge_cell k v d = AList.update k (cell_policy k (map_of d k) v) d"
proof -
  have "(case (prev, v) of (CInt a, CInt b) \<Rightarrow> CInt (if a \<ge> b then a else b) | _ \<Rightarrow> nullable_int_max prev v)
      = nullable_int_max prev v" for prev
    by (auto simp: nullable_int_max_def split: cell.splits)
  then show ?thesis by (simp add: merge_cell_def cell_policy_def row_get_def)
qed

lemma merge_rows_eq: "merge_proc_row_dicts a b = merge_with cell_policy a b"
  unfolding merge_proc_row_dicts_def merge_with_def by (rule fold_cong) (auto simp: merge_cell_eq)

lemma wf_merge_rows: "dict_wf a \<Longrightarrow> dict_wf (merge_proc_row_dicts a b)"
  by (simp add: merge_rows_eq wf_merge_with)

lemma merge_rows_assoc:
  assumes "dict_wf a" "dict_wf b" "dict_wf c"
  shows "merge_proc_row_dicts (merge_proc_row_dicts a b) c = merge_proc_row_dicts a (merge_proc_row_dicts b c)"
  using cp.merge_assoc [OF assms] by (simp add: merge_rows_eq list_all_iff)

definition row_policy :: "proc_key \<Rightarrow> proc_row option \<Rightarrow> proc_row \<Rightarrow> proc_row" where
  "row_policy k old row = (case old of None \<Rightarrow> row | Some existing \<Rightarrow> merge_proc_row_dicts existing row)"

interpretation rp: merge_policy row_policy dict_wf
  by unfold_locales (auto simp: row_policy_def wf_merge_rows merge_rows_assoc split: option.splits)

lemma dedupe_row_eq:
  "dedupe_row row d = AList.update (row_key row) (row_policy (row_key row) (map_of d (row_key row)) row) d"
  by (auto simp: dedupe_row_def row_policy_def split: option.splits)

lemma dedupe_row_merge: "dedupe_row row d = merge_with row_policy d [(row_key row, row)]"
  by (simp add: dedupe_row_eq)

abbreviation rows_ok :: "(proc_key, proc_row) dict \<Rightarrow> bool" where
  "rows_ok d \<equiv> dict_wf d \<and> list_all (\<lambda>p. dict_wf (snd p)) d"

lemma rows_ok_dedupe: "rows_ok d \<Longrightarrow> dict_wf row \<Longrightarrow> rows_ok (dedupe_row row d)"
  using rp.all_ok_merge [of d "[(row_key row, row)]"] dict_wf_update by (auto simp: dedupe_row_merge)

text \<open>Adding a row to the later part of a parse is adding it to the whole.\<close>

lemma merge_dedupe:
  assumes "rows_ok d" "rows_ok e" "dict_wf row"
  shows "merge_with row_policy d (dedupe_row row e) = dedupe_row row (merge_with row_policy d e)"
  using rp.merge_assoc [of d e "[(row_key row, row)]"] assms by (simp add: dedupe_row_merge)

lemma rows_ok_fold:
  "rows_ok d \<Longrightarrow> list_all (\<lambda>r. dict_wf r) rows \<Longrightarrow> rows_ok (fold dedupe_row rows d)"
proof (induction rows arbitrary: d)
  case (Cons r rows)
  then have "rows_ok (dedupe_row r d)" using rows_ok_dedupe [of d r] by auto
  with Cons show ?case by simp
qed simp

lemma merge_fold_dedupe:
  assumes "rows_ok d" "rows_ok e" "list_all (\<lambda>r. dict_wf r) rows"
  shows "merge_with row_policy d (fold dedupe_row rows e) = fold dedupe_row rows (merge_with row_policy d e)"
  using assms
proof (induction rows arbitrary: e)
  case (Cons r rows)
  then have "rows_ok (dedupe_row r e)" using rows_ok_dedupe [of e r] by auto
  with Cons merge_dedupe [of d e r] show ?case by simp
qed simp

subsection \<open>What a merged row holds\<close>

text \<open>The value of a key after all rows of one process: a peak is the greatest integer the rows
  have there, any other value is the one of the last row that has the key.\<close>

definition peak_of :: "string \<Rightarrow> proc_row list \<Rightarrow> int option" where
  "peak_of k rows = fold (\<lambda>r m. opt_max m (cell_int (row_get k r))) rows None"

definition latest_of :: "string \<Rightarrow> proc_row list \<Rightarrow> cell option" where
  "latest_of k rows = fold (\<lambda>r m. case map_of r k of None \<Rightarrow> m | Some v \<Rightarrow> Some v) rows None"

lemma map_of_merge_rows:
  "dict_wf b \<Longrightarrow> map_of (merge_proc_row_dicts a b) k =
     (case map_of b k of None \<Rightarrow> map_of a k | Some v \<Rightarrow> Some (cell_policy k (map_of a k) v))"
  by (simp add: merge_rows_eq map_of_merge_with merged_value_def)

lemma peak_merge:
  "dict_wf b \<Longrightarrow> k \<in> set HOST_PROC_PEAK_KEYS \<Longrightarrow>
   cell_int (row_get k (merge_proc_row_dicts a b)) = opt_max (cell_int (row_get k a)) (cell_int (row_get k b))"
  by (auto simp: row_get_def map_of_merge_rows cell_policy_def nullable_int_max_eq split: option.split)

lemma latest_merge:
  "dict_wf b \<Longrightarrow> k \<notin> set HOST_PROC_PEAK_KEYS \<Longrightarrow>
   map_of (merge_proc_row_dicts a b) k = (case map_of b k of None \<Rightarrow> map_of a k | Some v \<Rightarrow> Some v)"
  by (auto simp: map_of_merge_rows cell_policy_def split: option.split)

lemma map_of_dedupe:
  "map_of (dedupe_row r d) key =
     (if row_key r = key then Some (row_policy key (map_of d key) r) else map_of d key)"
  by (auto simp: dedupe_row_eq update_conv')

definition row_matches :: "proc_row list \<Rightarrow> proc_row \<Rightarrow> bool" where
  "row_matches rows row \<longleftrightarrow>
     (\<forall>k. (k \<in> set HOST_PROC_PEAK_KEYS \<longrightarrow> cell_int (row_get k row) = peak_of k rows) \<and>
          (k \<notin> set HOST_PROC_PEAK_KEYS \<longrightarrow> map_of row k = latest_of k rows))"

lemma row_matches_one: "row_matches [row] row"
  by (auto simp: row_matches_def peak_of_def latest_of_def split: option.split)

lemma row_matches_snoc:
  "row_matches rows old \<Longrightarrow> dict_wf row \<Longrightarrow> row_matches (rows @ [row]) (merge_proc_row_dicts old row)"
  unfolding row_matches_def peak_of_def latest_of_def by (simp add: peak_merge latest_merge split: option.split)

lemma fold_dedupe_lookup:
  assumes "list_all (\<lambda>r. dict_wf r) rows"
  shows "(case map_of (fold dedupe_row rows []) key of
      None \<Rightarrow> filter (\<lambda>r. row_key r = key) rows = []
    | Some row \<Rightarrow> row_matches (filter (\<lambda>r. row_key r = key) rows) row)"
  using assms
proof (induction rows rule: rev_induct)
  case (snoc r rows)
  then have IH: "case map_of (fold dedupe_row rows []) key of
      None \<Rightarrow> filter (\<lambda>r. row_key r = key) rows = []
    | Some row \<Rightarrow> row_matches (filter (\<lambda>r. row_key r = key) rows) row" by simp
  show ?case
  proof (cases "row_key r = key")
    case True
    then show ?thesis
      using IH snoc.prems row_matches_one [of r]
      by (auto simp: map_of_dedupe row_policy_def row_matches_snoc split: option.splits)
  next
    case False
    then show ?thesis using IH by (simp add: map_of_dedupe split: option.splits)
  qed
qed simp

subsection \<open>Columns\<close>

definition cols_append :: "stats_columns \<Rightarrow> stats_columns \<Rightarrow> stats_columns" where
  "cols_append a b =
     \<lparr>col_time = col_time a @ col_time b, col_host = col_host a @ col_host b, col_jid = col_jid a @ col_jid b,
      col_type = col_type a @ col_type b, col_dev = col_dev a @ col_dev b, col_event = col_event a @ col_event b,
      col_value = col_value a @ col_value b, col_wid = col_wid a @ col_wid b,
      col_mult = col_mult a @ col_mult b, col_unit = col_unit a @ col_unit b\<rparr>"

definition cols_aligned :: "stats_columns \<Rightarrow> bool" where
  "cols_aligned c \<longleftrightarrow>
     (let n = length (col_time c) in
      length (col_host c) = n \<and> length (col_jid c) = n \<and> length (col_type c) = n \<and> length (col_dev c) = n \<and>
      length (col_event c) = n \<and> length (col_value c) = n \<and> length (col_wid c) = n \<and>
      length (col_mult c) = n \<and> length (col_unit c) = n)"

definition compiled_ok :: "compiled_schema \<Rightarrow> bool" where
  "compiled_ok c \<longleftrightarrow> length (sc_wids c) = length (sc_events c) \<and> length (sc_mults c) = length (sc_events c) \<and>
     length (sc_units c) = length (sc_events c)"

lemma cols_append_empty [simp]: "cols_append empty_stats_columns c = c" "cols_append c empty_stats_columns = c"
  by (simp_all add: cols_append_def empty_stats_columns_def)

lemma cols_append_assoc: "cols_append (cols_append a b) c = cols_append a (cols_append b c)"
  by (simp add: cols_append_def)

lemma aligned_empty [simp]: "cols_aligned empty_stats_columns"
  by (simp add: cols_aligned_def empty_stats_columns_def)

lemma aligned_append: "cols_aligned a \<Longrightarrow> cols_aligned b \<Longrightarrow> cols_aligned (cols_append a b)"
  by (simp add: cols_aligned_def cols_append_def Let_def)

lemma length_float_list: "float_list vs = Some xs \<Longrightarrow> length xs = length vs"
  by (induction vs arbitrary: xs) (auto split: option.splits)

lemma append_compiled_local:
  "append_compiled_stats_columns cols t h j ty d cmp vals =
     cols_append cols (append_compiled_stats_columns empty_stats_columns t h j ty d cmp vals)"
  by (auto simp: append_compiled_stats_columns_def cols_append_def empty_stats_columns_def Let_def
      split: option.split)

lemma aligned_append_compiled:
  "cols_aligned cols \<Longrightarrow> compiled_ok cmp \<Longrightarrow> cols_aligned (append_compiled_stats_columns cols t h j ty d cmp vals)"
  by (auto simp: append_compiled_stats_columns_def cols_aligned_def compiled_ok_def Let_def
      dest: length_float_list split: option.split)

lemma append_vals_dict_local:
  "append_vals_dict_columns cols t h j ty d vd =
     cols_append cols (append_vals_dict_columns empty_stats_columns t h j ty d vd)"
  by (auto simp: append_vals_dict_columns_def intro: append_compiled_local)

lemma compile_schema_tokens_eq:
  "compile_schema_tokens ts =
     \<lparr>sc_events = map (fst o compile_schema_token) ts, sc_wids = map (fst o snd o compile_schema_token) ts,
      sc_mults = map (fst o snd o snd o compile_schema_token) ts,
      sc_units = map (snd o snd o snd o compile_schema_token) ts\<rparr>"
proof -
  have "fold (\<lambda>token out. case compile_schema_token token of (event, wid, mlt, unit) \<Rightarrow>
         \<lparr>sc_events = sc_events out @ [event], sc_wids = sc_wids out @ [wid],
          sc_mults = sc_mults out @ [mlt], sc_units = sc_units out @ [unit]\<rparr>) ts out =
     \<lparr>sc_events = sc_events out @ map (fst o compile_schema_token) ts,
      sc_wids = sc_wids out @ map (fst o snd o compile_schema_token) ts,
      sc_mults = sc_mults out @ map (fst o snd o snd o compile_schema_token) ts,
      sc_units = sc_units out @ map (snd o snd o snd o compile_schema_token) ts\<rparr>" for out :: compiled_schema
    by (induction ts arbitrary: out) (auto split: prod.splits)
  then show ?thesis by (simp add: compile_schema_tokens_def empty_compiled_schema_def)
qed

lemma compiled_ok_compile [simp]: "compiled_ok (compile_schema_tokens ts)"
  by (simp add: compiled_ok_def compile_schema_tokens_eq)

lemma compiled_ok_empty [simp]: "compiled_ok empty_compiled_schema"
  by (simp add: compiled_ok_def empty_compiled_schema_def)

lemma aligned_append_vals_dict:
  "cols_aligned cols \<Longrightarrow> cols_aligned (append_vals_dict_columns cols t h j ty d vd)"
  by (simp add: append_vals_dict_columns_def aligned_append_compiled)

text \<open>Where the columns are aligned, the records of the payload are its rows.\<close>

lemma records_of_columns:
  assumes "map_of d ''time'' = Some ts" "\<And>k vs. (k, vs) \<in> set d \<Longrightarrow> length vs = length ts"
  shows "stats_payload_to_records (ColumnPayload d) =
    map (\<lambda>i. map (\<lambda>(k, vs). (k, vs ! i)) d) [0..<length ts]"
proof -
  have "filter (\<lambda>(k, vs). length vs = length ts) d = d"
    using assms(2) by (auto simp: filter_id_conv)
  then show ?thesis
    using assms(1) by (simp add: stats_payload_to_records_def stats_payload_row_count_def Let_def)
qed

subsection \<open>Columns of process rows\<close>

lemma set_fold_add_fresh: "set (fold add_fresh ks acc) = set acc \<union> set ks"
  by (induction ks arbitrary: acc) (auto simp: add_fresh_def)

lemma distinct_fold_add_fresh: "distinct acc \<Longrightarrow> distinct (fold add_fresh ks acc)"
  by (induction ks arbitrary: acc) (auto simp: add_fresh_def)

definition row_keys :: "proc_row list \<Rightarrow> string list" where
  "row_keys rows = fold (\<lambda>row. fold add_fresh (map fst row)) rows []"

lemma set_row_keys: "set (row_keys rows) = (\<Union>row \<in> set rows. dict_keys row)"
proof -
  have "set (fold (\<lambda>row. fold add_fresh (map fst row)) rows acc) = set acc \<union> (\<Union>row \<in> set rows. dict_keys row)"
    for acc by (induction rows arbitrary: acc) (auto simp: set_fold_add_fresh)
  then show ?thesis by (simp add: row_keys_def)
qed

lemma distinct_row_keys: "distinct (row_keys rows)"
proof -
  have "distinct acc \<Longrightarrow> distinct (fold (\<lambda>row. fold add_fresh (map fst row)) rows acc)" for acc
    by (induction rows arbitrary: acc) (auto simp: distinct_fold_add_fresh)
  then show ?thesis by (simp add: row_keys_def)
qed

lemma map_of_columns: "map_of (map (\<lambda>k. (k, g k)) ks) k = (if k \<in> set ks then Some (g k) else None)"
  by (induction ks) auto

lemma records_of_proc_columns:
  assumes "row \<in> set rows" "''time'' \<in> dict_keys row"
  shows "stats_payload_to_records (ColumnPayload (proc_rows_to_columns rows)) =
    map (\<lambda>r. map (\<lambda>k. (k, row_get k r)) (row_keys rows)) rows"
proof -
  let ?d = "map (\<lambda>k. (k, map (row_get k) rows)) (row_keys rows)"
  have d: "proc_rows_to_columns rows = ?d"
    using assms(1) by (auto simp: proc_rows_to_columns_def row_keys_def Let_def)
  have "''time'' \<in> set (row_keys rows)" using assms by (auto simp: set_row_keys)
  then have "stats_payload_to_records (ColumnPayload ?d) =
      map (\<lambda>i. map (\<lambda>(k, vs). (k, vs ! i)) ?d) [0..<length (map (row_get ''time'') rows)]"
    by (intro records_of_columns) (auto simp: map_of_columns)
  also have "\<dots> = map (\<lambda>r. map (\<lambda>k. (k, row_get k r)) (row_keys rows)) rows"
    by (rule nth_equalityI) auto
  finally show ?thesis by (simp add: d)
qed

subsection \<open>Rows the database has\<close>

text \<open>The table is a partial function of the key; a query for the processes of a job on a host
  returns the rows the table has for them.\<close>

definition query_of :: "(proc_key \<Rightarrow> proc_row option) \<Rightarrow> (cell \<Rightarrow> cell \<Rightarrow> cell list \<Rightarrow> proc_row list) \<Rightarrow> bool" where
  "query_of db lookup \<longleftrightarrow>
     (\<forall>key r. db key = Some r \<longrightarrow> row_key r = key) \<and>
     (\<forall>j h ps. set (lookup j h ps) = {r. \<exists>p \<in> set ps. db (j, h, p) = Some r})"

lemma concat_chunked: "0 < n \<Longrightarrow> concat (chunked n xs) = xs"
proof (induction n xs rule: chunked.induct)
  case (1 n xs)
  then show ?case by (subst chunked.simps) auto
qed

lemma set_chunked: "0 < n \<Longrightarrow> (\<Union>c \<in> set (chunked n xs). set c) = set xs"
  using arg_cong [OF concat_chunked, of n set xs] by simp

lemma fold_update_rows:
  "map_of (fold (\<lambda>row. AList.update (row_key row) row) rows d) key =
     (case filter (\<lambda>r. row_key r = key) rows of [] \<Rightarrow> map_of d key | rs \<Rightarrow> Some (last rs))"
proof (induction rows arbitrary: d)
  case (Cons r rows)
  then show ?case by (auto simp: update_conv' split: list.split)
qed simp

definition job_host :: "proc_row \<Rightarrow> cell \<times> cell" where
  "job_host obj = (row_get ''jid'' obj, row_get ''host'' obj)"

definition by_job_host :: "proc_row list \<Rightarrow> (cell \<times> cell, proc_row list) dict" where
  "by_job_host objs = fold (\<lambda>obj. dict_append (job_host obj) obj) objs []"

lemma map_of_by_job_host:
  "map_of (by_job_host objs) k =
     (let xs = filter (\<lambda>obj. job_host obj = k) objs in if xs = [] then None else Some xs)"
  using fold_dict_append [of job_host "\<lambda>x. x" objs k] by (simp add: by_job_host_def)

lemma by_job_host_item:
  "(k, grp) \<in> set (by_job_host objs) \<longleftrightarrow> grp = filter (\<lambda>obj. job_host obj = k) objs \<and> grp \<noteq> []"
proof -
  have "dict_wf (by_job_host objs)" unfolding by_job_host_def by (rule dict_wf_fold_append) simp
  then have "(k, grp) \<in> set (by_job_host objs) \<longleftrightarrow> map_of (by_job_host objs) k = Some grp" by simp
  then show ?thesis by (auto simp: map_of_by_job_host Let_def)
qed

definition group_rows ::
    "(cell \<Rightarrow> cell \<Rightarrow> cell list \<Rightarrow> proc_row list) \<Rightarrow> nat \<Rightarrow> (cell \<times> cell) \<times> proc_row list \<Rightarrow> proc_row list" where
  "group_rows lookup n = (\<lambda>((jid, host), grp). concat (map (lookup jid host) (chunked n (group_procs grp))))"

lemma set_group_rows:
  assumes "query_of db lookup" "0 < n"
  shows "set (group_rows lookup n ((j, h), grp)) = {r. \<exists>obj \<in> set grp. db (j, h, row_get ''proc'' obj) = Some r}"
proof -
  have "set (group_rows lookup n ((j, h), grp)) =
      {r. \<exists>c \<in> set (chunked n (group_procs grp)). \<exists>p \<in> set c. db (j, h, p) = Some r}"
    using assms(1) by (auto simp: group_rows_def query_of_def)
  also have "\<dots> = {r. \<exists>p \<in> set (group_procs grp). db (j, h, p) = Some r}"
    using set_chunked [OF assms(2), of "group_procs grp"] by blast
  finally show ?thesis by (auto simp: group_procs_def set_fold_add_fresh)
qed

lemma found_rows:
  assumes "query_of db lookup" "0 < n"
  shows "r \<in> set (concat (map (group_rows lookup n) (by_job_host objs))) \<longleftrightarrow>
    (\<exists>obj \<in> set objs. db (row_key obj) = Some r)"
proof
  assume "r \<in> set (concat (map (group_rows lookup n) (by_job_host objs)))"
  then obtain j h grp where g: "((j, h), grp) \<in> set (by_job_host objs)" "r \<in> set (group_rows lookup n ((j, h), grp))"
    by auto
  then obtain obj where "obj \<in> set grp" "db (j, h, row_get ''proc'' obj) = Some r"
    using set_group_rows [OF assms] by auto
  moreover have "grp = filter (\<lambda>obj. job_host obj = (j, h)) objs"
    using g(1) by (simp add: by_job_host_item)
  ultimately show "\<exists>obj \<in> set objs. db (row_key obj) = Some r"
    by (auto simp: job_host_def row_key_def)
next
  assume "\<exists>obj \<in> set objs. db (row_key obj) = Some r"
  then obtain obj where obj: "obj \<in> set objs" "db (row_key obj) = Some r" by blast
  let ?g = "filter (\<lambda>x. job_host x = job_host obj) objs"
  have "obj \<in> set ?g" using obj(1) by simp
  then have "r \<in> set (group_rows lookup n (job_host obj, ?g))"
    using obj(2) set_group_rows [OF assms, of "row_get ''jid'' obj" "row_get ''host'' obj" ?g]
    by (auto simp: job_host_def row_key_def)
  moreover have "(job_host obj, ?g) \<in> set (by_job_host objs)"
    using \<open>obj \<in> set ?g\<close> by (auto simp: by_job_host_item filter_empty_conv)
  ultimately show "r \<in> set (concat (map (group_rows lookup n) (by_job_host objs)))" by force
qed

lemma lookup_existing_exact:
  assumes q: "query_of db lookup" "0 < n" and obj: "obj \<in> set objs"
  shows "map_of (lookup_existing lookup n objs) (row_key obj) = db (row_key obj)"
proof -
  define found where "found = concat (map (group_rows lookup n) (by_job_host objs))"
  have db: "row_key r = key" if "db key = Some r" for key r
    using that q(1) unfolding query_of_def by blast
  have key: "r \<in> set (filter (\<lambda>r. row_key r = row_key obj) found) \<longleftrightarrow> db (row_key obj) = Some r" for r
  proof
    assume "r \<in> set (filter (\<lambda>r. row_key r = row_key obj) found)"
    then have r: "r \<in> set found" "row_key r = row_key obj" by auto
    then obtain o1 where "db (row_key o1) = Some r" using found_rows [OF q] unfolding found_def by blast
    then show "db (row_key obj) = Some r" using db [of "row_key o1" r] r(2) by simp
  next
    assume r: "db (row_key obj) = Some r"
    then have "r \<in> set found" using found_rows [OF q] obj unfolding found_def by blast
    then show "r \<in> set (filter (\<lambda>r. row_key r = row_key obj) found)" using db [OF r] by simp
  qed
  have "map_of (fold (\<lambda>row. AList.update (row_key row) row) found []) (row_key obj) = db (row_key obj)"
  proof (cases "filter (\<lambda>r. row_key r = row_key obj) found")
    case Nil
    then have "db (row_key obj) = None"
      using key by (cases "db (row_key obj)") (auto simp only: list.set empty_iff)
    with Nil show ?thesis by (simp add: fold_update_rows)
  next
    case (Cons r rs)
    then have "last (r # rs) \<in> set (filter (\<lambda>r. row_key r = row_key obj) found)"
      by (metis last_in_set list.distinct(1))
    then have "db (row_key obj) = Some (last (r # rs))" by (rule key [THEN iffD1])
    then show ?thesis by (simp add: fold_update_rows Cons)
  qed
  then show ?thesis
    by (simp add: lookup_existing_def found_def Let_def by_job_host_def group_rows_def job_host_def)
qed

lemma opt_max_Some: "opt_max a b = Some m \<longleftrightarrow>
   (a = Some m \<or> b = Some m) \<and> (\<forall>i. a = Some i \<longrightarrow> i \<le> m) \<and> (\<forall>i. b = Some i \<longrightarrow> i \<le> m)"
  by (auto simp: opt_max_def max_def split: option.splits)

lemma opt_max_eq_None: "opt_max a b = None \<longleftrightarrow> a = None \<and> b = None"
  by (auto simp: opt_max_def split: option.splits)

text \<open>\<open>peak_of\<close> is the greatest integer among the rows, when one has an integer there.\<close>

lemma peak_of_snoc: "peak_of k (rows @ [r]) = opt_max (peak_of k rows) (cell_int (row_get k r))"
  by (simp add: peak_of_def)

lemma peak_of_attained: "peak_of k rows = Some m \<Longrightarrow> \<exists>r \<in> set rows. cell_int (row_get k r) = Some m"
proof (induction rows rule: rev_induct)
  case (snoc r rows)
  then show ?case by (auto simp: peak_of_snoc opt_max_Some)
qed (simp add: peak_of_def)

lemma peak_of_upper:
  "r \<in> set rows \<Longrightarrow> cell_int (row_get k r) = Some i \<Longrightarrow> \<exists>m. peak_of k rows = Some m \<and> i \<le> m"
proof (induction rows rule: rev_induct)
  case (snoc r' rows)
  then show ?case
    by (cases "peak_of k rows"; cases "cell_int (row_get k r')") (auto simp: peak_of_snoc opt_max_def)
qed simp

lemma apply_peaks:
  "row_get k (apply_proc_peak_attrs_from_earlier prior obj) =
     (if k \<in> set HOST_PROC_PEAK_KEYS then nullable_int_max (row_get k prior) (row_get k obj) else row_get k obj)"
  by (simp add: apply_proc_peak_attrs_from_earlier_def HOST_PROC_PEAK_KEYS_def row_get_def update_conv')

lemma row_get_merge_same:
  "dict_wf b \<Longrightarrow> k \<notin> set HOST_PROC_PEAK_KEYS \<Longrightarrow> row_get k a = row_get k b \<Longrightarrow>
   row_get k (merge_proc_row_dicts a b) = row_get k b"
  by (auto simp: row_get_def latest_merge split: option.splits)

lemma row_key_merge: "dict_wf b \<Longrightarrow> row_key a = row_key b \<Longrightarrow> row_key (merge_proc_row_dicts a b) = row_key b"
  by (simp add: row_key_def row_get_merge_same HOST_PROC_PEAK_KEYS_def)

definition keyed :: "(proc_key, proc_row) dict \<Rightarrow> bool" where
  "keyed d \<longleftrightarrow> (\<forall>(key, row) \<in> set d. row_key row = key)"

lemma keyed_dedupe:
  assumes "keyed d" "dict_wf r"
  shows "keyed (dedupe_row r d)"
proof -
  have "row_key old = row_key r" if "map_of d (row_key r) = Some old" for old
    using assms(1) map_of_SomeD [OF that] by (auto simp: keyed_def)
  then have "row_key (row_policy (row_key r) (map_of d (row_key r)) r) = row_key r"
    using assms(2) by (simp add: row_policy_def row_key_merge split: option.split)
  then show ?thesis
    using assms(1) unfolding keyed_def dedupe_row_eq by (auto dest: set_update_subset)
qed

lemma keyed_fold: "list_all (\<lambda>r. dict_wf r) rows \<Longrightarrow> keyed d \<Longrightarrow> keyed (fold dedupe_row rows d)"
  by (induction rows arbitrary: d) (auto simp: keyed_dedupe)

lemma keys_fold_dedupe: "map fst (fold dedupe_row rows d) = fold add_fresh (map row_key rows) (map fst d)"
proof (induction rows arbitrary: d)
  case (Cons r rows)
  have "map fst (dedupe_row r d) = add_fresh (row_key r) (map fst d)"
    by (simp add: dedupe_row_eq keys_update add_fresh_def)
  with Cons show ?case by simp
qed simp

section \<open>Properties\<close>

text \<open>C17: Merging the process rows of a parse gives one row per job, host and process, in the order
  they first appear. Its peaks are the greatest integers any of that process's rows has there, and each
  of its other values is the one of the last row that has it.\<close>

theorem dedupe_exact:
  assumes "list_all (\<lambda>r. dict_wf r) rows"
  shows "map row_key (dedupe_proc_stats_peak_merge rows) = fold add_fresh (map row_key rows) [] \<and>
    (\<forall>row \<in> set (dedupe_proc_stats_peak_merge rows). row_matches (filter (\<lambda>r. row_key r = row_key row) rows) row)"
proof -
  let ?d = "fold dedupe_row rows []"
  have keyed: "keyed ?d" using keyed_fold [OF assms, of "[]"] by (simp add: keyed_def)
  then have "map row_key (map snd ?d) = map fst ?d" by (auto simp: keyed_def)
  moreover have "row_matches (filter (\<lambda>r. row_key r = row_key row) rows) row" if "row \<in> set (map snd ?d)" for row
  proof -
    from that obtain p where "p \<in> set ?d" "row = snd p" by auto
    then obtain key where key: "(key, row) \<in> set ?d" by (metis prod.collapse)
    have "rows_ok ?d" using rows_ok_fold [of "[]" rows] assms by simp
    then have "map_of ?d key = Some row" using key by simp
    moreover have "row_key row = key" using keyed key by (auto simp: keyed_def)
    ultimately show ?thesis using fold_dedupe_lookup [OF assms, of key] by simp
  qed
  ultimately show ?thesis
    using keys_fold_dedupe [of rows "[]"] unfolding dedupe_proc_stats_peak_merge_def by simp
qed

definition demo_proc_rows :: "proc_row list" where
  "demo_proc_rows =
     [[(''jid'', CText ''7''), (''host'', CText ''h''), (''proc'', CText ''a''), (''vm_peak'', CInt 9), (''vm_rss'', CInt 5)],
      [(''jid'', CText ''7''), (''host'', CText ''h''), (''proc'', CText ''a''), (''vm_peak'', CInt 4), (''vm_rss'', CInt 2)]]"

theorem dedupe_exact_witness:
  "dedupe_proc_stats_peak_merge demo_proc_rows =
     [[(''jid'', CText ''7''), (''host'', CText ''h''), (''proc'', CText ''a''), (''vm_peak'', CInt 9), (''vm_rss'', CInt 2)]] \<and>
   row_matches demo_proc_rows (hd (dedupe_proc_stats_peak_merge demo_proc_rows))"
proof -
  have d: "dedupe_proc_stats_peak_merge demo_proc_rows =
     [[(''jid'', CText ''7''), (''host'', CText ''h''), (''proc'', CText ''a''), (''vm_peak'', CInt 9), (''vm_rss'', CInt 2)]]"
    by code_simp
  have "list_all (\<lambda>r. dict_wf r) demo_proc_rows" by code_simp
  from dedupe_exact [OF this] have "row_matches
      (filter (\<lambda>r. row_key r = row_key (hd (dedupe_proc_stats_peak_merge demo_proc_rows))) demo_proc_rows)
      (hd (dedupe_proc_stats_peak_merge demo_proc_rows))" unfolding d by simp
  moreover have "filter (\<lambda>r. row_key r = row_key (hd (dedupe_proc_stats_peak_merge demo_proc_rows))) demo_proc_rows =
      demo_proc_rows" by code_simp
  ultimately show ?thesis using d by simp
qed

text \<open>The peaks the database has are kept: with a query that returns the rows of a table, every
  object is combined with the table's row of the same job, host and process, whatever the chunk size of
  the queries; so a stored peak never goes down.\<close>

theorem db_peaks_exact:
  assumes "query_of db lookup"
  shows "peak_merge_proc_objs_with_existing lookup cfg_chunk lookup_chunk_size objs =
    map (\<lambda>obj. case db (row_key obj) of
        Some prior \<Rightarrow> apply_proc_peak_attrs_from_earlier prior obj | None \<Rightarrow> obj) objs"
proof -
  define n where "n = nat (max 1 (case lookup_chunk_size of
      Some n \<Rightarrow> n | None \<Rightarrow> (case cfg_chunk of Inr n \<Rightarrow> n | Inl _ \<Rightarrow> 256)))"
  have "0 < n" by (simp add: n_def)
  then have look: "map_of (lookup_existing lookup n objs) (row_key obj) = db (row_key obj)" if "obj \<in> set objs" for obj
    using lookup_existing_exact [OF assms] that by blast
  have "peak_merge_proc_objs_with_existing lookup cfg_chunk lookup_chunk_size objs =
     (if objs = [] \<or> lookup_existing lookup n objs = [] then objs
      else map (\<lambda>obj. case map_of (lookup_existing lookup n objs) (row_key obj) of
        Some prior \<Rightarrow> apply_proc_peak_attrs_from_earlier prior obj | None \<Rightarrow> obj) objs)"
    by (simp add: peak_merge_proc_objs_with_existing_def n_def Let_def)
  moreover have "map (\<lambda>obj. case db (row_key obj) of
        Some prior \<Rightarrow> apply_proc_peak_attrs_from_earlier prior obj | None \<Rightarrow> obj) objs = objs"
    if "lookup_existing lookup n objs = []"
    using look that by (intro map_idI) (simp add: eq_commute split: option.split)
  ultimately show ?thesis using look by (auto split: option.split)
qed

definition demo_db :: "proc_key \<Rightarrow> proc_row option" where
  "demo_db key = (if key = row_key (hd demo_proc_rows) then Some (hd demo_proc_rows) else None)"

definition demo_query :: "cell \<Rightarrow> cell \<Rightarrow> cell list \<Rightarrow> proc_row list" where
  "demo_query j h ps = List.map_filter (\<lambda>p. demo_db (j, h, p)) ps"

theorem db_peaks_exact_witness:
  "map (row_get ''vm_peak'') (peak_merge_proc_objs_with_existing demo_query (Inl KeyError) None (tl demo_proc_rows)) =
     [CInt 9]"
proof -
  have "query_of demo_db demo_query"
    by (auto simp: query_of_def demo_query_def map_filter_def demo_db_def split: if_splits)
  note db_peaks_exact [OF this, of "Inl KeyError" None "tl demo_proc_rows"]
  moreover have "map (row_get ''vm_peak'') (map (\<lambda>obj. case demo_db (row_key obj) of
      Some prior \<Rightarrow> apply_proc_peak_attrs_from_earlier prior obj | None \<Rightarrow> obj) (tl demo_proc_rows)) = [CInt 9]"
    by code_simp
  ultimately show ?thesis by simp
qed

text \<open>Turning process rows into columns and back keeps every value: the records of the columns
  are the rows in order, with \<open>None\<close> for the keys a row lacks.\<close>

theorem proc_columns_roundtrip:
  assumes "row \<in> set rows" "''time'' \<in> dict_keys row"
  shows "map (\<lambda>rec k. row_get k rec) (stats_payload_to_records (ColumnPayload (proc_rows_to_columns rows))) =
    map (\<lambda>r k. row_get k r) rows"
proof -
  have "row_get k (map (\<lambda>k. (k, row_get k r)) (row_keys rows)) = row_get k r" if "r \<in> set rows" for r k
  proof (cases "k \<in> set (row_keys rows)")
    case False
    then have "map_of r k = None" using that by (auto simp: set_row_keys map_of_None_iff)
    with False show ?thesis by (simp add: row_get_def map_of_columns)
  qed (simp add: row_get_def map_of_columns)
  then show ?thesis by (simp add: records_of_proc_columns [OF assms] fun_eq_iff)
qed

theorem proc_columns_roundtrip_witness:
  "map (\<lambda>rec k. row_get k rec) (stats_payload_to_records (ColumnPayload (proc_rows_to_columns
      [[(''time'', CFloat 1)], [(''uid'', CInt 3), (''time'', CFloat 2)]]))) =
    map (\<lambda>r k. row_get k r) [[(''time'', CFloat 1)], [(''uid'', CInt 3), (''time'', CFloat 2)]]"
  by (rule proc_columns_roundtrip [where row = "[(''time'', CFloat 1)]"]) simp_all

end
