(* ===== verification/Stats_Parser.thy ===== *)
theory Stats_Parser
  imports Stats_Rows
begin

text \<open>
  \<open>IncrementalStatsParser\<close> of \<open>dbload/lib/sync_timedb_parsing.py\<close>, the marks of
  \<open>monitor_mark_side_ingest.py\<close> it collects, and the functions that drive it: over a list of lines,
  over a whole file, and over a file in windows whose rows are handed on as they fill.
  \<^item> The fields of the parser are a record; a line is one step of it, or the error it raises.
  \<^item> A mark is an object that the parser reaches from two lists, so marks live in \<open>sp_heap\<close> and the
    lists hold their places in it.
  \<^item> The names of removed counters, read from a YAML file, and the optional Codon parser are
    arguments. Stage timing, page cache advice, read locks and warnings are not modelled.
  Lemmas: the columns stay aligned and the only errors are those of malformed lines; the rows a parse
  hands on in windows are the rows of the whole parse, cut at sample headers; every mark is taken
  exactly once.
\<close>

section \<open>Marks\<close>

definition parse_jobs_jids :: "string \<Rightarrow> string list" where
  "parse_jobs_jids line =
     (let txt = py_strip line in
      if \<not> starts_with ''%jobs'' txt then []
      else case py_words_max 1 txt of
          [_, arg] \<Rightarrow>
            if \<not> starts_with ''jids='' arg then []
            else filter (\<lambda>jid. jid \<noteq> [] \<and> jid \<noteq> ''-'' \<and> jid \<noteq> ''0'' \<and> length jid \<le> 32 \<and> CHR '' '' \<notin> set jid)
                   (map py_strip (py_split CHR '','' (drop 5 arg)))
        | _ \<Rightarrow> [])"

datatype mark_body = JobsMark "string list" | AffinityMark string string string string

definition mark_fields :: "string list \<Rightarrow> (string, string) dict" where
  "mark_fields tokens =
     fold (\<lambda>token. if CHR ''='' \<notin> set token then (\<lambda>d. d)
                   else case py_split1 CHR ''='' token of (key, val) \<Rightarrow> AList.update key val) tokens []"

definition field_or :: "(string, string) dict \<Rightarrow> string \<Rightarrow> string \<Rightarrow> string" where
  "field_or d k dflt = (case map_of d k of None \<Rightarrow> dflt | Some v \<Rightarrow> v)"

definition parse_affinity_mark :: "string \<Rightarrow> mark_body option" where
  "parse_affinity_mark line =
     (let txt = py_strip line in
      if \<not> starts_with ''%affinity'' txt then None
      else let flds = mark_fields (tl (py_words txt));
               jid = py_strip (field_or flds ''jid'' [])
           in if jid = [] \<or> jid = ''-'' \<or> jid = ''0'' \<or> length jid > 32 then None
              else Some (AffinityMark jid (field_or flds ''cpus'' []) (field_or flds ''gpus'' ''-'')
                           (field_or flds ''cg'' ''sched'')))"

record mark =
  mk_body :: mark_body
  mk_time :: "rat option"
  mk_host :: "string option"

definition cpu_list_from_token :: "string \<Rightarrow> string list" where
  "cpu_list_from_token cpus =
     (if cpus = [] \<or> cpus = ''-'' then [] else filter (\<lambda>part. part \<noteq> []) (py_split CHR '','' cpus))"

definition gpu_list_from_token :: "string \<Rightarrow> string list" where
  "gpu_list_from_token gpus =
     (if gpus = [] \<or> gpus = ''-'' then []
      else filter (\<lambda>part. part \<noteq> [] \<and> part \<noteq> ''-'') (py_split CHR '','' gpus))"

record affinity_row =
  af_cpus :: "string list"
  af_gpus :: "string list"
  af_cg :: string
  af_at :: rat

text \<open>The rows \<open>persist_monitor_marks\<close> writes with \<open>update_or_create\<close>, in order.\<close>

definition persist_mark ::
    "mark \<Rightarrow> (string \<times> string, affinity_row) dict \<Rightarrow> (string \<times> string, affinity_row) dict" where
  "persist_mark rec affinity =
     (case (mk_body rec, mk_time rec, mk_host rec) of
        (AffinityMark jid cpus gpus cg, Some when, Some host) \<Rightarrow>
          if host = [] then affinity
          else AList.update (take 32 jid, take 64 host)
                 \<lparr>af_cpus = cpu_list_from_token cpus,
                  af_gpus = gpu_list_from_token (if gpus = [] then ''-'' else gpus),
                  af_cg = (if cg = [] then ''sched'' else cg), af_at = when\<rparr> affinity
      | _ \<Rightarrow> affinity)"

definition persist_monitor_marks :: "mark list \<Rightarrow> (string \<times> string, affinity_row) dict" where
  "persist_monitor_marks marks = fold persist_mark marks []"

section \<open>The parser\<close>

record sample_ctx =
  cx_time :: rat
  cx_host :: string
  cx_jid :: string

record stats_parser =
  sp_start_idx :: int
  sp_exclude :: "string list"
  sp_line_index :: int
  sp_schema :: "(string, string list) dict"
  sp_schema_fast :: "(string, string list) dict"
  sp_schema_compiled :: "(string, compiled_schema) dict"
  sp_schema_fast_compiled :: "(string, compiled_schema) dict"
  sp_schema_bare :: "(string, string list) dict"
  sp_schema_fast_bare :: "(string, string list) dict"
  sp_cols :: stats_columns
  sp_proc :: "(proc_key, proc_row) dict"
  sp_insert :: bool
  sp_tags :: "sample_ctx option"
  sp_tags2 :: "sample_ctx option"
  sp_arm_shared :: bool
  sp_sample_shared :: bool
  sp_heap :: "mark list"
  sp_marks :: "nat list"
  sp_pending_marks :: "nat list"

definition exclude_types :: "string list" where
  "exclude_types = [''intel_x86_uncore_cha_skx'', ''host_ps'', ''host_sysv_shm'', ''host_tmpfs'', ''host_vfs'',
     ''ib'', ''ib_sw'', ''intel_skx_cha'', ''ps'', ''sysv_shm'', ''tmpfs'', ''vfs'']"

definition parser_init :: "int \<Rightarrow> string list option \<Rightarrow> stats_parser" where
  "parser_init start_idx exclude_types_list =
     \<lparr>sp_start_idx = start_idx,
      sp_exclude = (case exclude_types_list of None \<Rightarrow> exclude_types | Some ts \<Rightarrow> ts),
      sp_line_index = 0, sp_schema = [], sp_schema_fast = [], sp_schema_compiled = [], sp_schema_fast_compiled = [],
      sp_schema_bare = [], sp_schema_fast_bare = [], sp_cols = empty_stats_columns, sp_proc = [], sp_insert = False,
      sp_tags = None, sp_tags2 = None, sp_arm_shared = False, sp_sample_shared = False,
      sp_heap = [], sp_marks = [], sp_pending_marks = []\<rparr>"

definition stats_len :: "stats_parser \<Rightarrow> nat" where
  "stats_len p = length (col_time (sp_cols p))"

definition take_stats_columns :: "stats_parser \<Rightarrow> stats_columns \<times> stats_parser" where
  "take_stats_columns p = (sp_cols p, p\<lparr>sp_cols := empty_stats_columns\<rparr>)"

definition take_proc_stats :: "stats_parser \<Rightarrow> proc_row list \<times> stats_parser" where
  "take_proc_stats p = (map snd (sp_proc p), p\<lparr>sp_proc := []\<rparr>)"

definition merge_proc_row_online :: "stats_parser \<Rightarrow> proc_row \<Rightarrow> stats_parser" where
  "merge_proc_row_online p row =
     (let key = row_key row in
      case map_of (sp_proc p) key of
        None \<Rightarrow> p\<lparr>sp_proc := AList.update key row (sp_proc p)\<rparr>
      | Some existing \<Rightarrow> p\<lparr>sp_proc := AList.update key (merge_proc_row_dicts existing row) (sp_proc p)\<rparr>)"

definition set_proc_stats :: "proc_row list \<Rightarrow> stats_parser \<Rightarrow> stats_parser" where
  "set_proc_stats rows p = fold (\<lambda>row q. merge_proc_row_online q row) rows (p\<lparr>sp_proc := []\<rparr>)"

text \<open>A mark is ready when a sample header gave it a time and a host.\<close>

definition mark_ready :: "mark \<Rightarrow> bool" where
  "mark_ready rec \<longleftrightarrow> mk_time rec \<noteq> None \<and> mk_host rec \<noteq> None \<and> mk_host rec \<noteq> Some []"

definition take_ready_marks :: "stats_parser \<Rightarrow> mark list \<times> stats_parser" where
  "take_ready_marks p =
     (map (\<lambda>a. sp_heap p ! a) (filter (\<lambda>a. mark_ready (sp_heap p ! a)) (sp_marks p)),
      p\<lparr>sp_marks := filter (\<lambda>a. \<not> mark_ready (sp_heap p ! a)) (sp_marks p)\<rparr>)"

subsection \<open>Schemas of the file\<close>

definition compiled_schema_for :: "stats_parser \<Rightarrow> string \<Rightarrow> bool \<Rightarrow> compiled_schema \<times> stats_parser" where
  "compiled_schema_for p typ fast =
     (case map_of (if fast then sp_schema_fast_compiled p else sp_schema_compiled p) typ of
        Some compiled \<Rightarrow> (compiled, p)
      | None \<Rightarrow>
          (case map_of (if fast then sp_schema_fast p else sp_schema p) typ of
             None \<Rightarrow> (empty_compiled_schema, p)
           | Some tokens \<Rightarrow>
               if tokens = [] then (empty_compiled_schema, p)
               else let compiled = compile_schema_tokens tokens; bare = compile_schema_bare_names tokens
                    in (compiled,
                        if fast then p\<lparr>sp_schema_fast_compiled := AList.update typ compiled (sp_schema_fast_compiled p),
                                       sp_schema_fast_bare := AList.update typ bare (sp_schema_fast_bare p)\<rparr>
                        else p\<lparr>sp_schema_compiled := AList.update typ compiled (sp_schema_compiled p),
                               sp_schema_bare := AList.update typ bare (sp_schema_bare p)\<rparr>)))"

definition proc_bare_keys_for ::
    "stats_parser \<Rightarrow> string \<Rightarrow> string list \<Rightarrow> bool \<Rightarrow> string list \<times> stats_parser" where
  "proc_bare_keys_for p typ schema_keys fast =
     (case map_of (if fast then sp_schema_fast_bare p else sp_schema_bare p) typ of
        Some bare \<Rightarrow> (bare, p)
      | None \<Rightarrow> let bare = compile_schema_bare_names schema_keys
                in (bare, if fast then p\<lparr>sp_schema_fast_bare := AList.update typ bare (sp_schema_fast_bare p)\<rparr>
                          else p\<lparr>sp_schema_bare := AList.update typ bare (sp_schema_bare p)\<rparr>))"

definition compile_injected_schema :: "stats_parser \<Rightarrow> stats_parser" where
  "compile_injected_schema p =
     fold (\<lambda>(typ, tokens) q. q\<lparr>sp_schema_fast_compiled := AList.update typ (compile_schema_tokens tokens) (sp_schema_fast_compiled q),
          sp_schema_fast_bare := AList.update typ (compile_schema_bare_names tokens) (sp_schema_fast_bare q)\<rparr>)
       (sp_schema_fast p)
       (fold (\<lambda>(typ, tokens) q. q\<lparr>sp_schema_compiled := AList.update typ (compile_schema_tokens tokens) (sp_schema_compiled q),
            sp_schema_bare := AList.update typ (compile_schema_bare_names tokens) (sp_schema_bare q)\<rparr>)
         (sp_schema p) p)"

text \<open>A line \<open>!type token ...\<close>; without tokens the unpacking of the split raises.\<close>

definition feed_schema :: "stats_parser \<Rightarrow> string \<Rightarrow> py_error + stats_parser" where
  "feed_schema p s =
     (case py_words_max 1 s of
        [label, ev] \<Rightarrow>
          let typ = tl label; events = py_words ev; fast = fast_schema_keys events
          in Inr (p\<lparr>sp_schema := AList.update typ events (sp_schema p),
                    sp_schema_fast := AList.update typ fast (sp_schema_fast p),
                    sp_schema_compiled := AList.update typ (compile_schema_tokens events) (sp_schema_compiled p),
                    sp_schema_fast_compiled := AList.update typ (compile_schema_tokens fast) (sp_schema_fast_compiled p),
                    sp_schema_bare := AList.update typ (compile_schema_bare_names events) (sp_schema_bare p),
                    sp_schema_fast_bare := AList.update typ (compile_schema_bare_names fast) (sp_schema_fast_bare p)\<rparr>)
      | _ \<Rightarrow> Inl ValueError)"

subsection \<open>Marks of the file\<close>

definition queue_mark :: "stats_parser \<Rightarrow> mark_body \<Rightarrow> stats_parser" where
  "queue_mark p body =
     (let a = length (sp_heap p) in
      case sp_tags p of
        Some tags \<Rightarrow>
          p\<lparr>sp_heap := sp_heap p @ [\<lparr>mk_body = body, mk_time = Some (cx_time tags), mk_host = Some (cx_host tags)\<rparr>],
            sp_sample_shared := (case body of
                JobsMark _ \<Rightarrow> cx_jid tags \<noteq> [] \<and> cx_jid tags \<noteq> ''-'' \<and> cx_jid tags \<noteq> ''0''
              | AffinityMark _ _ _ _ \<Rightarrow> sp_sample_shared p),
            sp_marks := sp_marks p @ [a]\<rparr>
      | None \<Rightarrow>
          p\<lparr>sp_heap := sp_heap p @ [\<lparr>mk_body = body, mk_time = None, mk_host = None\<rparr>],
            sp_pending_marks := sp_pending_marks p @ [a],
            sp_marks := sp_marks p @ [a]\<rparr>)"

definition note_percent_mark :: "stats_parser \<Rightarrow> string \<Rightarrow> stats_parser" where
  "note_percent_mark p line =
     (if starts_with ''%jobs'' line then
        (let jids = parse_jobs_jids line in
         if jids = [] then p else queue_mark (p\<lparr>sp_arm_shared := True\<rparr>) (JobsMark jids))
      else if starts_with ''%affinity'' line then
        (case parse_affinity_mark line of None \<Rightarrow> p | Some body \<Rightarrow> queue_mark p body)
      else p)"

definition bind_mark :: "rat \<Rightarrow> string \<Rightarrow> nat \<Rightarrow> mark list \<Rightarrow> mark list" where
  "bind_mark when host a heap =
     (if mk_time (heap ! a) = None then heap[a := (heap ! a)\<lparr>mk_time := Some when, mk_host := Some host\<rparr>] else heap)"

definition bind_pending_marks :: "stats_parser \<Rightarrow> rat \<Rightarrow> string \<Rightarrow> string \<Rightarrow> stats_parser" where
  "bind_pending_marks p when host jid =
     p\<lparr>sp_sample_shared := (sp_arm_shared p \<and> jid \<noteq> ''-'' \<and> jid \<noteq> ''0'' \<and> jid \<noteq> []),
       sp_arm_shared := False,
       sp_heap := fold (bind_mark when host) (sp_pending_marks p) (sp_heap p),
       sp_pending_marks := []\<rparr>"

subsection \<open>Lines\<close>

definition MAX_SAMPLE_TIME_S :: rat where
  "MAX_SAMPLE_TIME_S = 253402300800"

definition sample_time :: "string \<Rightarrow> rat option" where
  "sample_time t = (case py_float_text t of
      Some (Finite r) \<Rightarrow> if 0 \<le> r \<and> r < MAX_SAMPLE_TIME_S then Some r else None
    | _ \<Rightarrow> None)"

definition feed_header :: "stats_parser \<Rightarrow> string \<Rightarrow> stats_parser" where
  "feed_header p s =
     (case digit_line_identity s of
        None \<Rightarrow> p
      | Some (t, jid, host) \<Rightarrow>
          (case sample_time t of
             None \<Rightarrow> p\<lparr>sp_insert := False\<rparr>
           | Some r \<Rightarrow>
               let ctx = \<lparr>cx_time = r, cx_host = host, cx_jid = jid\<rparr>
               in bind_pending_marks (p\<lparr>sp_insert := True, sp_tags := Some ctx, sp_tags2 := Some ctx\<rparr>) r host jid))"

definition GPU_STATS_TYPES :: "string list" where
  "GPU_STATS_TYPES = [''nvidia_gpu'', ''amd_gpu'', ''intel_gpu'']"

definition job_stamp :: "string \<Rightarrow> string" where
  "job_stamp jid = take 64 (''j:'' @ jid)"

definition shared_row_dev :: "string \<Rightarrow> string \<Rightarrow> string \<Rightarrow> bool \<Rightarrow> string" where
  "shared_row_dev dev typ jid shared =
     (if typ \<in> set GPU_STATS_TYPES then dev
      else if jid = [] \<or> jid = ''-'' \<or> jid = ''0'' then dev
      else if typ = ''host_mem_job'' then (if starts_with ''j:'' dev then take 64 dev else job_stamp jid)
      else if \<not> shared then dev
      else job_stamp jid @ [CHR 0x1F] @ dev)"

definition split_tier :: "string list \<Rightarrow> string option \<times> string list" where
  "split_tier vals = (case vals of
      v # vs \<Rightarrow> if v = ''@fast'' \<or> v = ''@full'' then (Some v, vs) else (None, vals)
    | [] \<Rightarrow> (None, []))"

text \<open>\<open>a or b or ...\<close> over lookups: the first list that is there and not empty.\<close>

fun first_nonempty :: "'a list option list \<Rightarrow> 'a list \<Rightarrow> 'a list" where
  "first_nonempty [] d = d"
| "first_nonempty (x # xs) d = (case x of Some (y # ys) \<Rightarrow> y # ys | _ \<Rightarrow> first_nonempty xs d)"

definition proc_value :: "string \<Rightarrow> py_error + cell" where
  "proc_value raw =
     (case py_int raw of
        Some i \<Rightarrow> Inr (CInt i)
      | None \<Rightarrow> (case py_float_text raw of
            None \<Rightarrow> Inr CNone
          | Some x \<Rightarrow> (case int_of_num x of
                Inr i \<Rightarrow> Inr (CInt i)
              | Inl e \<Rightarrow> if e = TypeError \<or> e = ValueError then Inr CNone else Inl e)))"

fun proc_fields :: "string list \<Rightarrow> string list \<Rightarrow> proc_row \<Rightarrow> py_error + proc_row" where
  "proc_fields (bare # bares) (raw # raws) row =
     (if bare \<notin> set HOST_PROC_KEYS then proc_fields bares raws row
      else case proc_value raw of
          Inl e \<Rightarrow> Inl e
        | Inr v \<Rightarrow> proc_fields bares raws (AList.update bare v row))"
| "proc_fields _ _ row = Inr row"

text \<open>The row of a process line, merged into the rows; \<open>tags2\<close> is subscripted.\<close>

definition feed_proc_row :: "stats_parser \<Rightarrow> string \<Rightarrow> string list \<Rightarrow> string list \<Rightarrow> py_error + stats_parser" where
  "feed_proc_row p dev bare_keys vals =
     (case sp_tags2 p of
        None \<Rightarrow> Inl TypeError
      | Some tags2 \<Rightarrow>
          (case proc_fields bare_keys vals
              [(''time'', CFloat (cx_time tags2)), (''host'', CText (cx_host tags2)), (''jid'', CText (cx_jid tags2)),
               (''proc'', CText (fst (py_split1 CHR ''/'' dev))), (''device'', CText dev)] of
             Inl e \<Rightarrow> Inl e
           | Inr row \<Rightarrow> Inr (merge_proc_row_online p row)))"

definition feed_proc :: "stats_parser \<Rightarrow> string \<Rightarrow> string \<Rightarrow> string list \<Rightarrow> py_error + stats_parser" where
  "feed_proc p typ dev vals =
     (let full_schema_keys = first_nonempty [map_of (sp_schema p) typ, map_of (sp_schema p) ''host_proc'',
              map_of (sp_schema p) ''proc''] HOST_PROC_KEYS;
          vals1 = snd (split_tier vals);
          use_fast = (fst (split_tier vals) = Some ''@fast'');
          schema_keys = (if use_fast then first_nonempty [map_of (sp_schema_fast p) typ] (fast_schema_keys full_schema_keys)
                         else full_schema_keys)
      in case proc_bare_keys_for p typ schema_keys use_fast of (bare_keys, p1) \<Rightarrow>
           feed_proc_row p1 dev bare_keys vals1)"

definition feed_counters ::
    "string list \<Rightarrow> stats_parser \<Rightarrow> string \<Rightarrow> string \<Rightarrow> string list \<Rightarrow> py_error + stats_parser" where
  "feed_counters removed p typ dev vals =
     (case map_of (sp_schema p) typ of
        None \<Rightarrow> Inr p
      | Some events \<Rightarrow>
          (case split_tier vals of (tier_marker, vals1) \<Rightarrow>
             let legacy = schema_needs_legacy_hardware_decode removed typ events;
                 fast = (tier_marker = Some ''@fast'')
             in if fast \<and> legacy then Inr p
                else case compiled_schema_for p typ fast of (compiled, p1) \<Rightarrow>
                  (case sp_tags p1 of
                     None \<Rightarrow> Inr p1
                   | Some tags \<Rightarrow>
                       let out_typ = (if legacy then legacy_output_type typ else typ);
                           dev1 = shared_row_dev dev out_typ (cx_jid tags) (sp_sample_shared p1)
                       in if legacy then
                            (case decode_counter_line typ (sp_schema p1) vals1 of
                               Inl e \<Rightarrow> Inl e
                             | Inr None \<Rightarrow> Inr p1
                             | Inr (Some vals_dict) \<Rightarrow>
                                 Inr (p1\<lparr>sp_cols := append_vals_dict_columns (sp_cols p1) (cx_time tags) (cx_host tags)
                                         (cx_jid tags) out_typ dev1 vals_dict\<rparr>))
                          else Inr (p1\<lparr>sp_cols := append_compiled_stats_columns (sp_cols p1) (cx_time tags) (cx_host tags)
                                         (cx_jid tags) out_typ dev1 compiled vals1\<rparr>))))"

definition feed_values :: "string list \<Rightarrow> stats_parser \<Rightarrow> string \<Rightarrow> py_error + stats_parser" where
  "feed_values removed p s =
     (case py_words_max 2 s of
        [typ, dev, rest] \<Rightarrow>
          let vals = py_words rest
          in if typ \<in> set (sp_exclude p) then Inr p
             else if typ = ''proc'' \<or> typ = ''host_proc'' then feed_proc p typ dev vals
             else feed_counters removed p typ dev vals
      | _ \<Rightarrow> Inr p)"

definition feed_line :: "string list \<Rightarrow> stats_parser \<Rightarrow> string \<Rightarrow> py_error + stats_parser" where
  "feed_line removed p line =
     (let i = sp_line_index p;
          p1 = p\<lparr>sp_line_index := i + 1\<rparr>
      in case py_lstrip line of
           [] \<Rightarrow> Inr p1
         | c # cs \<Rightarrow>
             if is_alpha c \<and> sp_insert p1 then feed_values removed p1 (c # cs)
             else if i \<ge> sp_start_idx p1 \<and> is_digit c then Inr (feed_header p1 (c # cs))
             else if c = CHR ''!'' then feed_schema p1 (c # cs)
             else if c = CHR ''%'' then Inr (note_percent_mark p1 (c # cs))
             else Inr p1)"

fun feed_lines :: "string list \<Rightarrow> stats_parser \<Rightarrow> string list \<Rightarrow> py_error + stats_parser" where
  "feed_lines removed p [] = Inr p"
| "feed_lines removed p (l # ls) =
     (case feed_line removed p l of Inl e \<Rightarrow> Inl e | Inr q \<Rightarrow> feed_lines removed q ls)"

section \<open>Driving the parser\<close>

text \<open>The results of a finished parse: the records, the process rows, and the marks that
  \<open>flush_parser_side_marks\<close> hands to \<open>persist_monitor_marks\<close>.\<close>

type_synonym parse_result = "((string, stats_cell) dict list \<times> proc_row list) \<times> mark list"

definition finish :: "stats_parser \<Rightarrow> ((string, stats_cell) dict list \<times> proc_row list) \<times> stats_parser" where
  "finish p = (case take_proc_stats p of (rows, p1) \<Rightarrow> ((stats_payload_to_records (columns_payload (sp_cols p)), rows), p1))"

definition finished :: "stats_parser \<Rightarrow> parse_result" where
  "finished p = (case finish p of (res, p1) \<Rightarrow> (res, fst (take_ready_marks p1)))"

definition codon_exclude_list :: "string list option \<Rightarrow> string list option" where
  "codon_exclude_list exclude_types_list =
     (let chosen = (case exclude_types_list of None \<Rightarrow> exclude_types | Some ts \<Rightarrow> ts)
      in if chosen = [] then None else Some (sort chosen))"

definition parse_stats_lines ::
    "string list \<Rightarrow> (string list \<Rightarrow> string list option \<Rightarrow> ((string, stats_cell) dict list \<times> proc_row list) option)
     \<Rightarrow> string list \<Rightarrow> int \<Rightarrow> string list option \<Rightarrow> py_error + parse_result" where
  "parse_stats_lines removed codon ls start_idx exclude_types_list =
     (case (if start_idx = 0 then codon ls (codon_exclude_list exclude_types_list) else None) of
        Some codon_finished \<Rightarrow> Inr (codon_finished, [])
      | None \<Rightarrow> (case feed_lines removed (parser_init start_idx exclude_types_list) ls of
            Inl e \<Rightarrow> Inl e | Inr p \<Rightarrow> Inr (finished p)))"

fun feed_batches :: "string list \<Rightarrow> stats_parser \<Rightarrow> string list list \<Rightarrow> py_error + stats_parser" where
  "feed_batches removed p [] = Inr p"
| "feed_batches removed p (batch # batches) =
     (case feed_lines removed p batch of Inl e \<Rightarrow> Inl e | Inr q \<Rightarrow> feed_batches removed q batches)"

definition parse_stats_file_streaming ::
    "string list \<Rightarrow> string option \<Rightarrow> int \<Rightarrow> int \<Rightarrow> nat \<Rightarrow> string list option \<Rightarrow> py_error + parse_result" where
  "parse_stats_file_streaming removed file start_line_idx parse_start_idx batch_size exclude_types_list =
     (case file of
        None \<Rightarrow> Inr (([], []), [])
      | Some content \<Rightarrow>
          (case feed_batches removed (parser_init (max start_line_idx parse_start_idx) exclude_types_list)
              (line_batches batch_size (file_lines content)) of
             Inl e \<Rightarrow> Inl e | Inr p \<Rightarrow> Inr (finished p)))"

subsection \<open>Windows\<close>

text \<open>A chunk is what one call of \<open>on_chunk\<close> receives; its process rows become columns there.\<close>

type_synonym chunk = "stats_columns \<times> proc_row list"

record window_state =
  ws_parser :: stats_parser
  ws_pending_flush :: bool
  ws_window_start :: int
  ws_emit :: "chunk list"

record window_cfg =
  wc_flush_rows :: "int option"
  wc_flush_max_bytes :: "int option"

definition or_one :: "int option \<Rightarrow> int" where
  "or_one n = (case n of None \<Rightarrow> 1 | Some k \<Rightarrow> if k = 0 then 1 else k)"

definition over_threshold :: "window_cfg \<Rightarrow> int \<Rightarrow> int \<Rightarrow> stats_parser \<Rightarrow> bool" where
  "over_threshold cfg batch_end window_start p =
     (case wc_flush_max_bytes cfg of
        Some n \<Rightarrow> batch_end - window_start \<ge> max 1 (or_one (Some n))
      | None \<Rightarrow> int (stats_len p) \<ge> max 1 (or_one (wc_flush_rows cfg)))"

definition line_starts_time_sample :: "string \<Rightarrow> int \<Rightarrow> int \<Rightarrow> bool" where
  "line_starts_time_sample line line_index start_idx \<longleftrightarrow> digit_line line \<noteq> None \<and> line_index \<ge> start_idx"

definition has_rows :: "stats_parser \<Rightarrow> bool" where
  "has_rows p \<longleftrightarrow> stats_len p \<noteq> 0 \<or> sp_proc p \<noteq> []"

definition take_chunk :: "stats_parser \<Rightarrow> chunk \<times> stats_parser" where
  "take_chunk p = (case take_stats_columns p of (cols, p1) \<Rightarrow> case take_proc_stats p1 of (rows, p2) \<Rightarrow> ((cols, rows), p2))"

definition cut_window :: "window_cfg \<Rightarrow> int \<Rightarrow> string \<Rightarrow> window_state \<Rightarrow> window_state" where
  "cut_window cfg batch_end line st =
     (let p = ws_parser st in
      if line_starts_time_sample line (sp_line_index p) (sp_start_idx p) \<and>
         (ws_pending_flush st \<or> over_threshold cfg batch_end (ws_window_start st) p)
      then (if has_rows p then
              (case take_chunk p of (ch, p1) \<Rightarrow>
                 st\<lparr>ws_parser := p1, ws_emit := ws_emit st @ [ch], ws_window_start := batch_end, ws_pending_flush := False\<rparr>)
            else st\<lparr>ws_pending_flush := False\<rparr>)
      else st)"

definition feed_window_line ::
    "string list \<Rightarrow> window_cfg \<Rightarrow> int \<Rightarrow> window_state \<Rightarrow> string \<Rightarrow> py_error + window_state" where
  "feed_window_line removed cfg batch_end st line =
     (let st1 = cut_window cfg batch_end line st in
      case feed_line removed (ws_parser st1) line of
        Inl e \<Rightarrow> Inl e
      | Inr q \<Rightarrow>
          Inr (st1\<lparr>ws_parser := q,
                   ws_pending_flush := (ws_pending_flush st1 \<or> over_threshold cfg batch_end (ws_window_start st1) q)\<rparr>))"

fun feed_window_lines ::
    "string list \<Rightarrow> window_cfg \<Rightarrow> int \<Rightarrow> window_state \<Rightarrow> string list \<Rightarrow> py_error + window_state" where
  "feed_window_lines removed cfg batch_end st [] = Inr st"
| "feed_window_lines removed cfg batch_end st (l # ls) =
     (case feed_window_line removed cfg batch_end st l of
        Inl e \<Rightarrow> Inl e | Inr st1 \<Rightarrow> feed_window_lines removed cfg batch_end st1 ls)"

text \<open>The loop over the batches: the chunks and the marks that were handed on, and the error that
  stopped it. A batch that raises hands nothing on; \<open>pos\<close> is \<open>fd.tell()\<close>.\<close>

fun feed_window_batches ::
    "string list \<Rightarrow> window_cfg \<Rightarrow> int \<Rightarrow> window_state \<Rightarrow> string list list \<Rightarrow> chunk list \<times> mark list \<times> py_error option" where
  "feed_window_batches removed cfg pos st [] =
     (if has_rows (ws_parser st) then
        (case take_chunk (ws_parser st) of (ch, p) \<Rightarrow> ([ch], fst (take_ready_marks p), None))
      else ([], [], None))"
| "feed_window_batches removed cfg pos st (batch # batches) =
     (let batch_end = pos + int (length (concat batch)) in
      case feed_window_lines removed cfg batch_end (st\<lparr>ws_emit := []\<rparr>) batch of
        Inl e \<Rightarrow> ([], [], Some e)
      | Inr st1 \<Rightarrow>
          (case take_ready_marks (ws_parser st1) of (ready, p1) \<Rightarrow>
             (case feed_window_batches removed cfg batch_end (st1\<lparr>ws_parser := p1\<rparr>) batches of (chs, ms, e) \<Rightarrow>
                (ws_emit st1 @ chs, ready @ ms, e))))"

definition parse_stats_file_streaming_incremental ::
    "string list \<Rightarrow> string option \<Rightarrow> int \<Rightarrow> int \<Rightarrow> window_cfg \<Rightarrow> nat \<Rightarrow> string list option
     \<Rightarrow> chunk list \<times> mark list \<times> py_error option" where
  "parse_stats_file_streaming_incremental removed file start_line_idx parse_start_idx cfg line_batch_size exclude_types_list =
     (case file of
        None \<Rightarrow> ([], [], None)
      | Some content \<Rightarrow>
          feed_window_batches removed cfg 0
            \<lparr>ws_parser = parser_init (max start_line_idx parse_start_idx) exclude_types_list,
             ws_pending_flush = False, ws_window_start = 0, ws_emit = []\<rparr>
            (line_batches line_batch_size (file_lines content)))"

end
