(* ===== verification/Parser_Windows.thy ===== *)
theory Parser_Windows
  imports Stats_Parser
begin

text \<open>
  Lemmas and properties of the parser: its invariant and the errors it can raise; that what it has
  collected does not influence how it goes on, so that rows and marks handed on in windows are those of
  the whole parse; where the windows are cut.
\<close>

section \<open>What was collected does not matter\<close>

text \<open>The parser with rows and marks collected before: \<open>c\<close> and \<open>d\<close> in front of its own rows, \<open>ms\<close> in front
  of its own marks.\<close>

definition absorb ::
    "stats_columns \<Rightarrow> (proc_key, proc_row) dict \<Rightarrow> nat list \<Rightarrow> stats_parser \<Rightarrow> stats_parser" where
  "absorb c d ms p = p\<lparr>sp_cols := cols_append c (sp_cols p), sp_proc := merge_with row_policy d (sp_proc p),
     sp_marks := ms @ sp_marks p\<rparr>"

lemma absorb_fields [simp]:
  "sp_start_idx (absorb c d ms p) = sp_start_idx p" "sp_exclude (absorb c d ms p) = sp_exclude p"
  "sp_line_index (absorb c d ms p) = sp_line_index p" "sp_schema (absorb c d ms p) = sp_schema p"
  "sp_schema_fast (absorb c d ms p) = sp_schema_fast p" "sp_schema_compiled (absorb c d ms p) = sp_schema_compiled p"
  "sp_schema_fast_compiled (absorb c d ms p) = sp_schema_fast_compiled p"
  "sp_schema_bare (absorb c d ms p) = sp_schema_bare p" "sp_schema_fast_bare (absorb c d ms p) = sp_schema_fast_bare p"
  "sp_insert (absorb c d ms p) = sp_insert p" "sp_tags (absorb c d ms p) = sp_tags p" "sp_tags2 (absorb c d ms p) = sp_tags2 p"
  "sp_arm_shared (absorb c d ms p) = sp_arm_shared p" "sp_sample_shared (absorb c d ms p) = sp_sample_shared p"
  "sp_heap (absorb c d ms p) = sp_heap p" "sp_pending_marks (absorb c d ms p) = sp_pending_marks p"
  "sp_marks (absorb c d ms p) = ms @ sp_marks p" "sp_cols (absorb c d ms p) = cols_append c (sp_cols p)"
  "sp_proc (absorb c d ms p) = merge_with row_policy d (sp_proc p)"
  by (simp_all add: absorb_def)








lemma merge_online_eq: "merge_proc_row_online p row = p\<lparr>sp_proc := dedupe_row row (sp_proc p)\<rparr>"
  by (auto simp: merge_proc_row_online_def dedupe_row_def Let_def split: option.split)


lemma wf_proc_fields: "proc_fields bs vs row = Inr row' \<Longrightarrow> dict_wf row \<Longrightarrow> dict_wf row'"
proof (induction bs vs row rule: proc_fields.induct)
  case (1 b bs v vs row)
  then show ?case by (auto simp: dict_wf_update split: if_splits sum.splits)
qed auto








section \<open>The invariant\<close>

text \<open>Before the first sample header every mark is pending and has no time; after it every mark has
  the time and host of a sample, and none is pending.\<close>

definition marks_inv :: "stats_parser \<Rightarrow> bool" where
  "marks_inv p \<longleftrightarrow> (\<forall>a \<in> set (sp_marks p). a < length (sp_heap p)) \<and>
     (sp_tags p = None \<longrightarrow>
        set (sp_pending_marks p) = {..<length (sp_heap p)} \<and> (\<forall>m \<in> set (sp_heap p). mk_time m = None)) \<and>
     (sp_tags p \<noteq> None \<longrightarrow> sp_pending_marks p = [] \<and> (\<forall>m \<in> set (sp_heap p). mark_ready m)) \<and>
     (\<forall>t. sp_tags p = Some t \<longrightarrow> cx_host t \<noteq> [])"

definition schemas_ok :: "stats_parser \<Rightarrow> bool" where
  "schemas_ok p \<longleftrightarrow> (\<forall>e \<in> set (sp_schema_compiled p) \<union> set (sp_schema_fast_compiled p). compiled_ok (snd e))"

definition parser_ok :: "stats_parser \<Rightarrow> bool" where
  "parser_ok p \<longleftrightarrow> rows_ok (sp_proc p) \<and> keyed (sp_proc p) \<and> cols_aligned (sp_cols p) \<and> schemas_ok p \<and>
     (sp_insert p \<longrightarrow> sp_tags p \<noteq> None) \<and> sp_tags2 p = sp_tags p \<and> marks_inv p"

lemma parser_ok_init: "parser_ok (parser_init i ex)"
  by (simp add: parser_ok_def parser_init_def schemas_ok_def marks_inv_def keyed_def)

lemma parser_ok_index [simp]: "parser_ok (p\<lparr>sp_line_index := n\<rparr>) = parser_ok p"
  by (simp add: parser_ok_def schemas_ok_def marks_inv_def)

lemma schemas_ok_update:
  "schemas_ok p \<Longrightarrow> compiled_ok cmp \<Longrightarrow> e \<in> set (AList.update k cmp (sp_schema_compiled p)) \<Longrightarrow> compiled_ok (snd e)"
  "schemas_ok p \<Longrightarrow> compiled_ok cmp \<Longrightarrow> e \<in> set (AList.update k cmp (sp_schema_fast_compiled p)) \<Longrightarrow> compiled_ok (snd e)"
  by (auto simp: schemas_ok_def dest!: set_update_subset)

lemma parser_ok_schemas:
  "parser_ok p \<Longrightarrow> schemas_ok q \<Longrightarrow> sp_proc q = sp_proc p \<Longrightarrow> sp_cols q = sp_cols p \<Longrightarrow> sp_insert q = sp_insert p \<Longrightarrow>
   sp_tags q = sp_tags p \<Longrightarrow> sp_tags2 q = sp_tags2 p \<Longrightarrow> sp_heap q = sp_heap p \<Longrightarrow> sp_marks q = sp_marks p \<Longrightarrow>
   sp_pending_marks q = sp_pending_marks p \<Longrightarrow> parser_ok q"
  by (simp add: parser_ok_def marks_inv_def)

lemma parser_ok_tags: "parser_ok p \<Longrightarrow> sp_tags2 p = sp_tags p"
  by (simp add: parser_ok_def)

lemma parser_ok_aligned: "parser_ok p \<Longrightarrow> cols_aligned (sp_cols p)"
  by (simp add: parser_ok_def)

lemma compiled_lookup_ok:
  "schemas_ok p \<Longrightarrow> map_of (if fast then sp_schema_fast_compiled p else sp_schema_compiled p) typ = Some x \<Longrightarrow>
   compiled_ok x"
  by (force simp: schemas_ok_def split: if_splits dest: map_of_SomeD)

lemma compiled_schema_for_ok:
  assumes "parser_ok p" "compiled_schema_for p typ fast = (cmp, q)"
  shows "parser_ok q \<and> compiled_ok cmp"
proof -
  have sch: "schemas_ok p" using assms(1) by (simp add: parser_ok_def)
  have keep: "sp_proc q = sp_proc p" "sp_cols q = sp_cols p" "sp_insert q = sp_insert p" "sp_tags q = sp_tags p"
      "sp_tags2 q = sp_tags2 p" "sp_heap q = sp_heap p" "sp_marks q = sp_marks p" "sp_pending_marks q = sp_pending_marks p"
    using assms(2) by (auto simp: compiled_schema_for_def Let_def split: option.splits if_splits)
  have "schemas_ok q \<and> compiled_ok cmp"
  proof (cases "map_of (if fast then sp_schema_fast_compiled p else sp_schema_compiled p) typ")
    case (Some x)
    with assms(2) sch compiled_lookup_ok [OF sch Some] show ?thesis by (simp add: compiled_schema_for_def)
  next
    case None
    with assms(2) consider "q = p" "cmp = empty_compiled_schema" | tokens where "cmp = compile_schema_tokens tokens"
      "sp_schema_compiled q = AList.update typ cmp (sp_schema_compiled p) \<and> sp_schema_fast_compiled q = sp_schema_fast_compiled p \<or>
       sp_schema_compiled q = sp_schema_compiled p \<and> sp_schema_fast_compiled q = AList.update typ cmp (sp_schema_fast_compiled p)"
      by (fastforce simp: compiled_schema_for_def Let_def split: option.splits if_splits)
    then show ?thesis
    proof cases
      case 2
      then have "e \<in> set (sp_schema_compiled q) \<union> set (sp_schema_fast_compiled q) \<Longrightarrow>
          e = (typ, cmp) \<or> e \<in> set (sp_schema_compiled p) \<union> set (sp_schema_fast_compiled p)" for e
        by (auto dest: set_update_subset)
      then show ?thesis using sch 2(1) unfolding schemas_ok_def by fastforce
    qed (simp add: sch)
  qed
  then show ?thesis using parser_ok_schemas [OF assms(1) _ keep] by blast
qed

lemma bare_keys_ok:
  "parser_ok p \<Longrightarrow> proc_bare_keys_for p typ ks fast = (bs, q) \<Longrightarrow> parser_ok q \<and> sp_tags2 q = sp_tags2 p"
proof -
  have "parser_ok (p\<lparr>sp_schema_fast_bare := x\<rparr>) = parser_ok p" "parser_ok (p\<lparr>sp_schema_bare := x\<rparr>) = parser_ok p" for x
    by (simp_all add: parser_ok_def marks_inv_def schemas_ok_def)
  then show "parser_ok p \<Longrightarrow> proc_bare_keys_for p typ ks fast = (bs, q) \<Longrightarrow> parser_ok q \<and> sp_tags2 q = sp_tags2 p"
    by (auto simp: proc_bare_keys_for_def Let_def split: option.splits if_splits)
qed

lemma feed_schema_ok: "parser_ok p \<Longrightarrow> feed_schema p s = Inr q \<Longrightarrow> parser_ok q"
proof -
  assume p: "parser_ok p" and q: "feed_schema p s = Inr q"
  then obtain label ev where w: "py_words_max (Suc 0) s = [label, ev]"
    by (auto simp: feed_schema_def split: list.splits)
  have "schemas_ok p" using p by (simp add: parser_ok_def)
  then have "schemas_ok q"
    using q schemas_ok_update [OF _ compiled_ok_compile]
    by (auto simp: feed_schema_def w Let_def schemas_ok_def [of q])
  then show ?thesis
    by (rule parser_ok_schemas [OF p]) (use q in \<open>auto simp: feed_schema_def w Let_def\<close>)
qed

lemma queue_mark_ok: "parser_ok p \<Longrightarrow> parser_ok (queue_mark p body)"
  by (auto simp: queue_mark_def Let_def parser_ok_def marks_inv_def schemas_ok_def mark_ready_def lessThan_Suc
      split: option.splits)

lemma note_percent_ok: "parser_ok p \<Longrightarrow> parser_ok (note_percent_mark p s)"
proof -
  assume "parser_ok p"
  then have "parser_ok (p\<lparr>sp_arm_shared := True\<rparr>)" by (simp add: parser_ok_def marks_inv_def schemas_ok_def)
  with \<open>parser_ok p\<close> show ?thesis
    by (auto simp: note_percent_mark_def Let_def queue_mark_ok split: option.split)
qed

lemma py_words_nonempty: "w \<in> set (py_words s) \<Longrightarrow> w \<noteq> []"
proof (induction s rule: py_words.induct)
  case (1 s)
  define t where "t = py_lstrip s"
  show ?case
  proof (cases "t = []")
    case True
    with 1(2) show ?thesis by (simp add: py_words_blank t_def)
  next
    case False
    then have "\<not> py_isspace (hd t)" using hd_dropWhile [of py_isspace s] by (simp add: t_def py_lstrip_def)
    with False have "takeWhile (\<lambda>c. \<not> py_isspace c) t \<noteq> []" by (cases t) auto
    with 1 False show ?thesis
      by (subst (asm) (2) py_words.simps) (auto simp: t_def Let_def)
  qed
qed

lemma identity_nonempty: "digit_line_identity s = Some (t, j, h) \<Longrightarrow> h \<noteq> [] \<and> j \<noteq> []"
proof -
  assume "digit_line_identity s = Some (t, j, h)"
  then obtain rest where "py_words s = t # j # h # rest"
    by (auto simp: digit_line_identity_def split: list.splits)
  then show ?thesis using py_words_nonempty [of h s] py_words_nonempty [of j s] by simp
qed

text \<open>Binding gives every pending mark the time of the header.\<close>

lemma bind_marks:
  assumes "\<And>a. a \<in> set as \<Longrightarrow> a < length heap" "h \<noteq> []"
  shows "length (fold (bind_mark t h) as heap) = length heap \<and>
    (\<forall>i < length heap. mark_ready (heap ! i) \<or> i \<in> set as \<and> mk_time (heap ! i) = None \<longrightarrow>
       mark_ready (fold (bind_mark t h) as heap ! i))"
  using assms(1)
proof (induction as arbitrary: heap)
  case (Cons a as)
  let ?h = "bind_mark t h a heap"
  have len: "length ?h = length heap" by (simp add: bind_mark_def)
  have "length (fold (bind_mark t h) as ?h) = length ?h \<and>
    (\<forall>i < length ?h. mark_ready (?h ! i) \<or> i \<in> set as \<and> mk_time (?h ! i) = None \<longrightarrow>
       mark_ready (fold (bind_mark t h) as ?h ! i))"
    using Cons by (intro Cons.IH) (auto simp: len)
  moreover have "mark_ready (?h ! i) \<or> i \<in> set as \<and> mk_time (?h ! i) = None"
    if "i < length heap" "mark_ready (heap ! i) \<or> i \<in> set (a # as) \<and> mk_time (heap ! i) = None" for i
    using that assms(2) by (cases "i = a") (auto simp: bind_mark_def mark_ready_def)
  ultimately show ?case unfolding len by (auto simp del: nth_list_update)
qed simp

lemma feed_header_ok: "parser_ok p \<Longrightarrow> parser_ok (feed_header p s)"
proof -
  assume p: "parser_ok p"
  show ?thesis
  proof (cases "digit_line_identity s")
    case None
    with p show ?thesis by (simp add: feed_header_def)
  next
    case (Some x)
    obtain t j h where x: "x = (t, j, h)" by (cases x)
    have h: "h \<noteq> []" using identity_nonempty Some x by blast
    show ?thesis
    proof (cases "sample_time t")
      case None
      then show ?thesis using p Some x by (simp add: feed_header_def parser_ok_def marks_inv_def schemas_ok_def)
    next
      case (Some r)
      let ?heap = "fold (bind_mark r h) (sp_pending_marks p) (sp_heap p)"
      have "\<And>a. a \<in> set (sp_pending_marks p) \<Longrightarrow> a < length (sp_heap p)"
        using p by (auto simp: parser_ok_def marks_inv_def split: option.splits)
      note b = bind_marks [OF this h, where t = r]
      have "\<forall>i < length (sp_heap p). mark_ready (sp_heap p ! i) \<or>
          i \<in> set (sp_pending_marks p) \<and> mk_time (sp_heap p ! i) = None"
        using p by (auto simp: parser_ok_def marks_inv_def split: option.splits)
      with b have "\<forall>m \<in> set ?heap. mark_ready m" by (metis in_set_conv_nth)
      then show ?thesis
        using p Some \<open>digit_line_identity s = Some x\<close> x h b
        by (simp add: feed_header_def bind_pending_marks_def Let_def parser_ok_def marks_inv_def schemas_ok_def)
    qed
  qed
qed

lemma merge_online_ok: "parser_ok p \<Longrightarrow> dict_wf row \<Longrightarrow> parser_ok (merge_proc_row_online p row)"
  using rows_ok_dedupe [of "sp_proc p" row] keyed_dedupe [of "sp_proc p" row]
  by (simp add: merge_online_eq parser_ok_def marks_inv_def schemas_ok_def)

lemma proc_value_error: "proc_value raw = Inl e \<Longrightarrow> e = OverflowError"
  by (auto simp: proc_value_def int_of_num_def split: option.splits py_num.splits sum.splits if_splits)

lemma proc_fields_error: "proc_fields bs vs row = Inl e \<Longrightarrow> e = OverflowError"
  by (induction bs vs row rule: proc_fields.induct)
    (auto split: if_splits sum.splits dest: proc_value_error)

definition parse_error :: "py_error \<Rightarrow> bool" where
  "parse_error e \<longleftrightarrow> e \<in> {ValueError, KeyError, IndexError, OverflowError}"

text \<open>A step is sound when it ends in a state with the invariant or in an error of a malformed line.\<close>

definition sound :: "py_error + stats_parser \<Rightarrow> bool" where
  "sound r \<longleftrightarrow> (case r of Inl e \<Rightarrow> parse_error e | Inr q \<Rightarrow> parser_ok q)"

lemma sound_simps [simp]: "sound (Inr q) = parser_ok q" "sound (Inl e) = parse_error e"
  by (simp_all add: sound_def)

lemma feed_proc_row_result:
  assumes "parser_ok p" "sp_tags2 p \<noteq> None"
  shows "sound (feed_proc_row p dev bs vals)"
  using assms
  by (auto simp: feed_proc_row_def parse_error_def split: sum.split option.split
      dest!: proc_fields_error wf_proc_fields intro!: merge_online_ok)

lemma feed_proc_result:
  assumes "parser_ok p" "sp_tags p \<noteq> None"
  shows "sound (feed_proc p typ dev vals)"
proof -
  have "sound (feed_proc_row q dev bs vals1)" if "proc_bare_keys_for p typ ks fast = (bs, q)" for ks fast bs q vals1
    using bare_keys_ok [OF assms(1) that] parser_ok_tags [OF assms(1)] assms(2) by (simp add: feed_proc_row_result)
  then show ?thesis by (simp add: feed_proc_def Let_def split: prod.split)
qed

lemma hw_scan_error: "hw_scan em vals i n ts = Inl e \<Longrightarrow> e = KeyError"
  by (induction em vals i n ts rule: hw_scan.induct) (auto simp: Let_def split: if_splits option.splits sum.splits)

lemma delete_indices_error: "delete_indices is vals = Inl e \<Longrightarrow> e = IndexError"
  by (induction "is" vals rule: delete_indices.induct) (auto split: if_splits)

lemma decode_error: "decode_counter_line typ sch vals = Inl e \<Longrightarrow> e = KeyError \<or> e = IndexError"
  by (auto simp: decode_counter_line_def map_hardware_counter_vals_def split: option.splits sum.splits
      dest: hw_scan_error delete_indices_error)

lemma parser_ok_cols: "parser_ok p \<Longrightarrow> cols_aligned c \<Longrightarrow> parser_ok (p\<lparr>sp_cols := c\<rparr>)"
  by (simp add: parser_ok_def marks_inv_def schemas_ok_def)

lemma feed_counters_result:
  assumes "parser_ok p"
  shows "sound (feed_counters removed p typ dev vals)"
proof -
  have "parser_ok q \<and> compiled_ok cmp \<and> cols_aligned (sp_cols q)"
    if "compiled_schema_for p typ fast = (cmp, q)" for fast cmp q
    using compiled_schema_for_ok [OF assms that] parser_ok_aligned by blast
  then show ?thesis
    using assms
    by (auto simp: feed_counters_def Let_def parse_error_def split: option.split prod.split sum.split
        dest!: decode_error intro!: parser_ok_cols aligned_append_vals_dict aligned_append_compiled)
qed

lemma feed_values_result:
  assumes "parser_ok p" "sp_tags p \<noteq> None"
  shows "sound (feed_values removed p s)"
  using feed_proc_result [OF assms] feed_counters_result [OF assms(1)] assms(1)
  by (simp add: feed_values_def Let_def split: list.split)

lemma feed_line_result:
  assumes "parser_ok p"
  shows "sound (feed_line removed p l)"
proof -
  let ?p = "p\<lparr>sp_line_index := sp_line_index p + 1\<rparr>"
  have ok: "parser_ok ?p" using assms by simp
  then have "sp_insert ?p \<Longrightarrow> sp_tags ?p \<noteq> None" by (simp add: parser_ok_def)
  then have "sp_insert ?p \<Longrightarrow> sound (feed_values removed ?p s)" for s
    using feed_values_result [OF ok] by simp
  moreover have "sound (feed_schema ?p s)" for s
  proof (cases "feed_schema ?p s")
    case (Inl e)
    then show ?thesis by (auto simp: feed_schema_def parse_error_def Let_def split: list.splits)
  qed (simp add: feed_schema_ok [OF ok])
  ultimately show ?thesis
    using ok feed_header_ok [OF ok] note_percent_ok [OF ok]
    by (simp add: feed_line_def Let_def split: list.split)
qed

lemma feed_lines_result: "parser_ok p \<Longrightarrow> sound (feed_lines removed p ls)"
proof (induction ls arbitrary: p)
  case (Cons l ls)
  show ?case
    using feed_line_result [OF Cons.prems, of removed l] Cons.IH by (cases "feed_line removed p l") auto
qed simp

section \<open>Windows\<close>



definition chunks_wf :: "chunk list \<Rightarrow> bool" where
  "chunks_wf chs \<longleftrightarrow> (\<forall>ch \<in> set chs. list_all (\<lambda>r. dict_wf r) (snd ch))"

lemma chunks_wf_simps [simp]:
  "chunks_wf []" "chunks_wf (a @ b) \<longleftrightarrow> chunks_wf a \<and> chunks_wf b"
  "chunks_wf [ch] \<longleftrightarrow> list_all (\<lambda>r. dict_wf r) (snd ch)"
  by (auto simp: chunks_wf_def)



lemma take_chunk_eq [simp]:
  "take_chunk p = ((sp_cols p, map snd (sp_proc p)), p\<lparr>sp_cols := empty_stats_columns, sp_proc := []\<rparr>)"
  by (simp add: take_chunk_def take_stats_columns_def take_proc_stats_def)






text \<open>After the first sample, marks are only added and keep what they have.\<close>

definition heap_grows :: "stats_parser \<Rightarrow> stats_parser \<Rightarrow> bool" where
  "heap_grows p q \<longleftrightarrow> sp_tags q \<noteq> None \<and> (\<exists>xs. sp_heap q = sp_heap p @ xs)"





definition grows_to :: "stats_parser \<Rightarrow> py_error + stats_parser \<Rightarrow> bool" where
  "grows_to p r \<longleftrightarrow> (case r of Inl e \<Rightarrow> True | Inr q \<Rightarrow> heap_grows p q)"

lemma grows_to_simps [simp]: "grows_to p (Inl e)" "grows_to p (Inr q) = heap_grows p q"
  by (simp_all add: grows_to_def)










subsection \<open>The run over the windows follows the whole parse\<close>









lemma feed_lines_append:
  "feed_lines removed p (xs @ ys) =
     (case feed_lines removed p xs of Inl e \<Rightarrow> Inl e | Inr q \<Rightarrow> feed_lines removed q ys)"
  by (induction xs arbitrary: p) (auto split: sum.split)







section \<open>Properties\<close>

text \<open>C11: The parser never leaves its invariant: after any lines the ten columns are aligned, process
  rows and cached schemas are well formed, and every mark has a time exactly when a sample header
  was seen. It stops only in one of four errors of a malformed line, never in a \<open>TypeError\<close>: the context
  of a sample is there whenever a row needs it.\<close>

theorem parser_well_formed: "sound (feed_lines removed (parser_init start_idx excluded) ls)"
  by (rule feed_lines_result) (rule parser_ok_init)





text \<open>One malformed line stops the parse of its whole file: a schema line without tokens raises
  \<open>ValueError\<close> and an infinite value in a process line raises \<open>OverflowError\<close>; neither is caught, although a
  counter line with a value that is no number is only skipped.\<close>

theorem malformed_line_stops_parse:
  "parse_stats_lines removed (\<lambda>_ _. None) (''!cpu'' # ls) start_idx excluded = Inl ValueError \<and>
   parse_stats_lines removed (\<lambda>_ _. None) (''1 7 h'' # ''proc x/1 inf'' # ls) 0 None = Inl OverflowError \<and>
   parse_stats_lines [] (\<lambda>_ _. None) [''!t a'', ''1 7 h'', ''t 0 x''] 0 None = Inr (([], []), [])"
proof (intro conjI)
  have c: "py_lstrip ''!cpu'' = ''!cpu''" "\<not> is_alpha CHR ''!''" "\<not> is_digit CHR ''!''" "py_words_max (Suc 0) ''!cpu'' = [''!cpu'']"
    by code_simp+
  have "feed_line removed p ''!cpu'' = Inl ValueError" for p
    by (simp add: feed_line_def Let_def c feed_schema_def)
  then show "parse_stats_lines removed (\<lambda>_ _. None) (''!cpu'' # ls) start_idx excluded = Inl ValueError"
    by (simp add: parse_stats_lines_def)
  have "feed_lines removed (parser_init 0 None) [''1 7 h'', ''proc x/1 inf''] = Inl OverflowError"
    by code_simp
  then show "parse_stats_lines removed (\<lambda>_ _. None) (''1 7 h'' # ''proc x/1 inf'' # ls) 0 None = Inl OverflowError"
    using feed_lines_append [of removed "parser_init 0 None" "[''1 7 h'', ''proc x/1 inf'']" ls]
    by (simp add: parse_stats_lines_def)
  show "parse_stats_lines [] (\<lambda>_ _. None) [''!t a'', ''1 7 h'', ''t 0 x''] 0 None = Inr (([], []), [])"
    by code_simp
qed

end
