(* ===== verification/Entry_Store.thy ===== *)
theory Entry_Store
  imports Persistence Write_Behind
begin

text \<open>
  \<open>WriteBehindEntryStore\<close> of \<open>dbload/lib/sync_timedb_write_behind.py\<close>: the in-memory master of an
  \<open>entries\<close> sidecar, with tombstones for removed keys that are not yet on disk. \<open>_write\<close> is three
  atomic steps: under the lock it copies the entries and tombstones, then it merges with the file
  and saves, then under the lock it adopts foreign keys and drops the copied tombstones; other
  threads run in between (\<open>_io_lock\<close> keeps writes apart). The disk is the entries the loader reads.
\<close>

section \<open>State and operations\<close>

type_synonym es_dict = "(string, json) dict"

text \<open>A write in progress: the copies, and the merged document once it is saved.\<close>

record es_write =
  ew_mine :: es_dict
  ew_dead :: "string set"
  ew_merged :: "es_dict option"

record es_store =
  es_entries :: "es_dict option"
  es_tombstones :: "string set"
  es_writer :: wb_writer

record es_machine =
  em_store :: es_store
  em_disk :: es_dict
  em_write :: "es_write option"

definition es_new :: es_store where
  "es_new = \<lparr>es_entries = None, es_tombstones = {}, es_writer = wb_init\<rparr>"

definition ensure_loaded :: "es_dict \<Rightarrow> es_store \<Rightarrow> es_dict \<times> es_store" where
  "ensure_loaded disk s = (case es_entries s of None \<Rightarrow> (disk, s\<lparr>es_entries := Some disk\<rparr>) | Some d \<Rightarrow> (d, s))"

definition es_contains :: "es_dict \<Rightarrow> string \<Rightarrow> es_store \<Rightarrow> bool \<times> es_store" where
  "es_contains disk key s = (case ensure_loaded disk s of (d, s1) \<Rightarrow> (key \<in> dict_keys d, s1))"

definition es_get :: "es_dict \<Rightarrow> string \<Rightarrow> es_store \<Rightarrow> json \<times> es_store" where
  "es_get disk key s = (case ensure_loaded disk s of (d, s1) \<Rightarrow> (jget d key, s1))"

definition es_snapshot :: "es_dict \<Rightarrow> es_store \<Rightarrow> es_dict \<times> es_store" where
  "es_snapshot disk s = ensure_loaded disk s"

definition es_set :: "rat \<Rightarrow> es_dict \<Rightarrow> string \<Rightarrow> json \<Rightarrow> es_store \<Rightarrow> es_store" where
  "es_set now disk key val s = (case ensure_loaded disk s of (d, s1) \<Rightarrow>
     s1\<lparr>es_entries := Some (AList.update key val d), es_tombstones := es_tombstones s1 - {key},
        es_writer := wb_mark_dirty (wb_start now (es_writer s1))\<rparr>)"

text \<open>The locked parts of \<open>remove_if\<close> and \<open>replace_all\<close>; each goes on with a \<open>_write\<close>.\<close>

definition es_doomed :: "(string \<Rightarrow> json \<Rightarrow> bool) \<Rightarrow> es_dict \<Rightarrow> string list" where
  "es_doomed pred d = map fst (filter (\<lambda>(k, v). pred k v) d)"

definition es_remove_locked :: "es_dict \<Rightarrow> (string \<Rightarrow> json \<Rightarrow> bool) \<Rightarrow> es_store \<Rightarrow> nat \<times> es_store" where
  "es_remove_locked disk pred s = (case ensure_loaded disk s of (d, s1) \<Rightarrow>
     let doomed = es_doomed pred d in
     (length doomed, s1\<lparr>es_entries := Some (dict_filter (\<lambda>k. k \<notin> set doomed) d),
        es_tombstones := es_tombstones s1 \<union> set doomed\<rparr>))"

definition es_replace_locked :: "es_dict \<Rightarrow> es_dict \<Rightarrow> es_store \<Rightarrow> es_store" where
  "es_replace_locked disk entries s = (case ensure_loaded disk s of (old, s1) \<Rightarrow>
     s1\<lparr>es_tombstones := es_tombstones s1 \<union> (dict_keys old - dict_keys entries), es_entries := Some entries\<rparr>)"

definition es_write_begin :: "es_dict \<Rightarrow> es_store \<Rightarrow> es_write \<times> es_store" where
  "es_write_begin disk s = (case ensure_loaded disk s of (d, s1) \<Rightarrow>
     (\<lparr>ew_mine = d, ew_dead = es_tombstones s1, ew_merged = None\<rparr>, s1))"

definition dict_merge :: "es_dict \<Rightarrow> es_dict \<Rightarrow> es_dict" where
  "dict_merge d e = fold (\<lambda>(k, v). AList.update k v) e d"

definition es_merge :: "es_dict \<Rightarrow> es_write \<Rightarrow> es_dict" where
  "es_merge disk w = dict_merge (dict_filter (\<lambda>k. k \<notin> ew_dead w) disk) (ew_mine w)"

definition es_adopt :: "string set \<Rightarrow> es_dict \<Rightarrow> es_dict \<Rightarrow> es_dict" where
  "es_adopt dead merged live = fold (\<lambda>(k, v) l. if k \<notin> dict_keys l \<and> k \<notin> dead then AList.update k v l else l) merged live"

definition es_write_end :: "es_dict \<Rightarrow> es_write \<Rightarrow> es_dict \<Rightarrow> es_store \<Rightarrow> es_store" where
  "es_write_end merged w disk s = (case ensure_loaded disk s of (live, s1) \<Rightarrow>
     s1\<lparr>es_entries := Some (es_adopt (es_tombstones s1) merged live),
        es_tombstones := es_tombstones s1 - ew_dead w\<rparr>)"

text \<open>
  \<open>_write\<close> and the calls that end in it, with nothing in between. When the save fails
  (\<open>writable = False\<close>) the error propagates and the state is what the locked part left.
\<close>

definition es_write_all :: "bool \<Rightarrow> es_dict \<times> es_store \<Rightarrow> (py_error + unit) \<times> es_dict \<times> es_store" where
  "es_write_all writable ds = (case es_write_begin (fst ds) (snd ds) of (w, s1) \<Rightarrow>
     if writable then
       let merged = es_merge (fst ds) w in (Inr (), merged, es_write_end merged w merged s1)
     else (Inl OSError, fst ds, s1))"

definition es_remove_if ::
    "bool \<Rightarrow> (string \<Rightarrow> json \<Rightarrow> bool) \<Rightarrow> es_dict \<times> es_store \<Rightarrow> (py_error + nat) \<times> es_dict \<times> es_store" where
  "es_remove_if writable pred ds = (case es_remove_locked (fst ds) pred (snd ds) of (n, s1) \<Rightarrow>
     if n = 0 then (Inr 0, fst ds, s1)
     else (case es_write_all writable (fst ds, s1) of (Inl e, r) \<Rightarrow> (Inl e, r) | (Inr _, r) \<Rightarrow> (Inr n, r)))"

definition es_replace_all ::
    "bool \<Rightarrow> es_dict \<Rightarrow> es_dict \<times> es_store \<Rightarrow> (py_error + unit) \<times> es_dict \<times> es_store" where
  "es_replace_all writable entries ds =
     es_write_all writable (fst ds, es_replace_locked (fst ds) entries (snd ds))"

text \<open>The process-wide registry.\<close>

definition get_entry_store :: "string \<Rightarrow> (string, es_store) dict \<Rightarrow> es_store \<times> (string, es_store) dict" where
  "get_entry_store path stores = (case map_of stores path of
      None \<Rightarrow> (es_new, AList.update path es_new stores) | Some s \<Rightarrow> (s, stores))"

section \<open>Interleavings\<close>

datatype es_event = EvLoad | EvSet string json | EvRemove "string list" | EvReplace es_dict
  | EvBegin | EvSave | EvSaveFails | EvEnd | EvForeign string json

definition es_exec :: "es_event \<Rightarrow> es_machine \<Rightarrow> es_machine option" where
  "es_exec ev m = (let s = em_store m; disk = em_disk m in case ev of
      EvLoad \<Rightarrow> Some (m\<lparr>em_store := snd (ensure_loaded disk s)\<rparr>)
    | EvSet k v \<Rightarrow> Some (m\<lparr>em_store := es_set 0 disk k v s\<rparr>)
    | EvRemove ks \<Rightarrow> Some (m\<lparr>em_store := snd (es_remove_locked disk (\<lambda>k v. k \<in> set ks) s)\<rparr>)
    | EvReplace d \<Rightarrow> if dict_wf d then Some (m\<lparr>em_store := es_replace_locked disk d s\<rparr>) else None
    | EvBegin \<Rightarrow> if em_write m = None then (case es_write_begin disk s of (w, s1) \<Rightarrow>
        Some (m\<lparr>em_store := s1, em_write := Some w\<rparr>)) else None
    | EvSave \<Rightarrow> (case em_write m of Some w \<Rightarrow> if ew_merged w = None then
        Some (m\<lparr>em_disk := es_merge disk w, em_write := Some (w\<lparr>ew_merged := Some (es_merge disk w)\<rparr>)\<rparr>) else None
        | None \<Rightarrow> None)
    | EvSaveFails \<Rightarrow> (case em_write m of Some w \<Rightarrow> if ew_merged w = None then Some (m\<lparr>em_write := None\<rparr>) else None
        | None \<Rightarrow> None)
    | EvEnd \<Rightarrow> (case em_write m of Some w \<Rightarrow> (case ew_merged w of
          Some merged \<Rightarrow> Some (m\<lparr>em_store := es_write_end merged w disk s, em_write := None\<rparr>) | None \<Rightarrow> None)
        | None \<Rightarrow> None)
    | EvForeign k v \<Rightarrow> Some (m\<lparr>em_disk := AList.update k v disk\<rparr>))"

fun es_run :: "es_event list \<Rightarrow> es_machine \<Rightarrow> es_machine option" where
  "es_run [] m = Some m"
| "es_run (ev # evs) m = (case es_exec ev m of None \<Rightarrow> None | Some m1 \<Rightarrow> es_run evs m1)"

definition es_boot :: "es_dict \<Rightarrow> es_machine" where
  "es_boot disk = \<lparr>em_store = es_new, em_disk = disk, em_write = None\<rparr>"

section \<open>What a write does\<close>

lemma map_of_dict_merge:
  "dict_wf e \<Longrightarrow> map_of (dict_merge d e) = map_of d ++ map_of e"
  unfolding dict_merge_def
proof (induction e arbitrary: d)
  case (Cons p e)
  then have "fst p \<notin> dict_keys e" by auto
  then have "map_of e (fst p) = None" by (simp add: map_of_eq_None_iff)
  then show ?case
    using Cons by (cases p) (auto simp: AList.update_conv' map_add_def fun_eq_iff split: option.splits)
qed simp

lemma dict_keys_merge: "dict_keys (dict_merge d e) = dict_keys d \<union> dict_keys e"
  unfolding dict_merge_def by (induction e arbitrary: d) (simp_all add: case_prod_unfold)

lemma dict_wf_merge: "dict_wf d \<Longrightarrow> dict_wf (dict_merge d e)"
  unfolding dict_merge_def by (rule fold_update_wf)

lemma map_of_es_merge:
  "dict_wf (ew_mine w) \<Longrightarrow> map_of (es_merge disk w) k =
     (case map_of (ew_mine w) k of Some v \<Rightarrow> Some v | None \<Rightarrow> if k \<in> ew_dead w then None else map_of disk k)"
  by (simp add: es_merge_def map_of_dict_merge map_add_def split: option.split)

lemma dict_keys_es_merge:
  "dict_keys (es_merge disk w) = (dict_keys disk - ew_dead w) \<union> dict_keys (ew_mine w)"
  by (auto simp: es_merge_def dict_keys_merge)

lemma dict_wf_es_merge: "dict_wf disk \<Longrightarrow> dict_wf (es_merge disk w)"
  by (simp add: es_merge_def dict_wf_merge dict_wf_filter)

lemma map_of_es_adopt:
  "dict_wf merged \<Longrightarrow> map_of (es_adopt dead merged live) k =
     (case map_of live k of Some v \<Rightarrow> Some v | None \<Rightarrow> if k \<in> dead then None else map_of merged k)"
  unfolding es_adopt_def
proof (induction merged arbitrary: live)
  case (Cons p ms)
  then have "fst p \<notin> dict_keys ms" by auto
  then have none: "map_of ms (fst p) = None" by (simp add: map_of_eq_None_iff)
  show ?case
    using Cons none
    by (cases p) (auto simp: AList.update_conv' map_of_eq_None_iff [symmetric] simp del: not_None_eq
        split: option.splits if_splits)
qed (simp split: option.splits)

lemma es_adopt_none: "dict_keys merged \<subseteq> dict_keys live \<union> dead \<Longrightarrow> es_adopt dead merged live = live"
  unfolding es_adopt_def case_prod_unfold by (induction merged) (simp, simp, blast)

lemma ensure_loaded_Some: "es_entries s = Some e \<Longrightarrow> ensure_loaded disk s = (e, s)"
  by (simp add: ensure_loaded_def)

lemma ensure_loaded_entries [simp]: "es_entries (snd (ensure_loaded disk s)) = Some (fst (ensure_loaded disk s))"
  by (simp add: ensure_loaded_def split: option.splits)

lemma ensure_loaded_tombstones [simp]: "es_tombstones (snd (ensure_loaded disk s)) = es_tombstones s"
  by (simp add: ensure_loaded_def split: option.splits)

text \<open>The dictionary a write leaves on disk and in memory: ours first, then what others wrote and we did not remove.\<close>

definition merged_view :: "es_dict \<Rightarrow> es_store \<Rightarrow> string \<Rightarrow> json option" where
  "merged_view disk s k = (case map_of (fst (ensure_loaded disk s)) k of
      Some v \<Rightarrow> Some v | None \<Rightarrow> if k \<in> es_tombstones s then None else map_of disk k)"

lemma es_write_all_spec:
  assumes "dict_wf disk" "dict_wf (fst (ensure_loaded disk s))" "es_write_all True (disk, s) = (r, d, s')"
  shows "r = Inr ()" "map_of d = merged_view disk s" "dict_wf d" "es_tombstones s' = {}"
    "\<exists>e. es_entries s' = Some e \<and> map_of e = merged_view disk s"
proof -
  obtain e s1 where el: "ensure_loaded disk s = (e, s1)" by fastforce
  define w where "w = \<lparr>ew_mine = e, ew_dead = es_tombstones s1, ew_merged = None\<rparr>"
  have e: "es_entries s1 = Some e" "es_tombstones s1 = es_tombstones s"
    using ensure_loaded_entries [of disk s] ensure_loaded_tombstones [of disk s] by (simp_all add: el)
  have d: "r = Inr ()" "d = es_merge disk w" and s': "s' = es_write_end d w d s1"
    using assms(3) by (auto simp: es_write_all_def es_write_begin_def el w_def Let_def)
  have view: "map_of d = merged_view disk s"
    using assms(2) by (auto simp: d map_of_es_merge w_def merged_view_def el e fun_eq_iff)
  have "es_entries s' = Some (es_adopt (es_tombstones s) d e)" "es_tombstones s' = {}"
    by (simp_all add: s' es_write_end_def ensure_loaded_Some e w_def)
  moreover have "map_of (es_adopt (es_tombstones s) d e) = merged_view disk s"
    using dict_wf_es_merge [OF assms(1), of w]
    by (auto simp: map_of_es_adopt fun_eq_iff d(2) [symmetric] view merged_view_def el split: option.splits)
  ultimately show "r = Inr ()" "map_of d = merged_view disk s" "dict_wf d" "es_tombstones s' = {}"
    "\<exists>e. es_entries s' = Some e \<and> map_of e = merged_view disk s"
    using view d dict_wf_es_merge [OF assms(1), of w] by auto
qed

section \<open>Interleaved runs\<close>

text \<open>
  The runs in which no other process writes the file and no \<open>replace_all\<close> brings back a key whose
  removal is still pending. Everything on disk is then in memory or has a tombstone, and a write in
  progress holds nothing that was removed before it began.
\<close>

definition es_quiet :: "es_event \<Rightarrow> es_machine \<Rightarrow> bool" where
  "es_quiet ev m = (case ev of EvForeign k v \<Rightarrow> False
     | EvReplace d \<Rightarrow> dict_keys d \<inter> es_tombstones (em_store m) = {} | _ \<Rightarrow> True)"

inductive es_step :: "es_machine \<Rightarrow> es_machine \<Rightarrow> bool" where
  "es_quiet ev m \<Longrightarrow> es_exec ev m = Some m1 \<Longrightarrow> es_step m m1"

inductive_cases es_stepE: "es_step m m1"

fun write_ok :: "es_dict \<Rightarrow> string set \<Rightarrow> es_write option \<Rightarrow> bool" where
  "write_ok disk known None = True"
| "write_ok disk known (Some w) = (dict_wf (ew_mine w) \<and> dict_keys (ew_mine w) \<subseteq> known \<and>
     dict_keys (ew_mine w) \<inter> ew_dead w = {} \<and>
     (case ew_merged w of None \<Rightarrow> True | Some merged \<Rightarrow> merged = disk \<and> dict_keys disk \<inter> ew_dead w = {}))"

definition em_inv :: "es_machine \<Rightarrow> bool" where
  "em_inv m = (let s = em_store m; disk = em_disk m in dict_wf disk \<and> (case es_entries s of
      None \<Rightarrow> es_tombstones s = {} \<and> em_write m = None
    | Some e \<Rightarrow> dict_wf e \<and> dict_keys e \<inter> es_tombstones s = {} \<and>
        dict_keys disk \<subseteq> dict_keys e \<union> es_tombstones s \<and>
        write_ok disk (dict_keys e \<union> es_tombstones s) (em_write m)))"

lemma write_ok_mono: "write_ok disk known w \<Longrightarrow> known \<subseteq> known' \<Longrightarrow> write_ok disk known' w"
  by (cases w) auto

lemma em_inv_load: "em_inv m \<Longrightarrow> em_inv (m\<lparr>em_store := snd (ensure_loaded (em_disk m) (em_store m))\<rparr>)"
  by (simp add: em_inv_def ensure_loaded_def Let_def split: option.splits)

lemma em_inv_loadedD:
  assumes "em_inv m" "ensure_loaded (em_disk m) (em_store m) = (e, s1)"
  shows "dict_wf (em_disk m)" "dict_wf e" "es_entries s1 = Some e" "es_tombstones s1 = es_tombstones (em_store m)"
    "dict_keys e \<inter> es_tombstones s1 = {}" "dict_keys (em_disk m) \<subseteq> dict_keys e \<union> es_tombstones s1"
    "write_ok (em_disk m) (dict_keys e \<union> es_tombstones s1) (em_write m)"
  using em_inv_load [OF assms(1)] ensure_loaded_entries [of "em_disk m" "em_store m"]
    ensure_loaded_tombstones [of "em_disk m" "em_store m"]
  by (simp_all add: em_inv_def assms(2) Let_def)

lemma em_invI:
  assumes "es_entries s = Some e" "dict_wf (em_disk m)" "dict_wf e" "dict_keys e \<inter> es_tombstones s = {}"
    "dict_keys (em_disk m) \<subseteq> dict_keys e \<union> es_tombstones s"
    "write_ok (em_disk m) (dict_keys e \<union> es_tombstones s) (em_write m)"
  shows "em_inv (m\<lparr>em_store := s\<rparr>)"
  using assms by (simp add: em_inv_def)

lemma em_inv_set:
  assumes "em_inv m"
  shows "em_inv (m\<lparr>em_store := es_set now (em_disk m) k v (em_store m)\<rparr>)"
proof -
  obtain e s1 where el: "ensure_loaded (em_disk m) (em_store m) = (e, s1)" by fastforce
  note inv = em_inv_loadedD [OF assms el]
  have "write_ok (em_disk m) (dict_keys (AList.update k v e) \<union> (es_tombstones s1 - {k})) (em_write m)"
    using inv(7) by (rule write_ok_mono) auto
  then show ?thesis
    unfolding es_set_def el using inv
    by (intro em_invI [where e = "AList.update k v e"]) (auto simp: dict_wf_update)
qed

lemma doomed_keys: "set (es_doomed pred d) \<subseteq> dict_keys d"
  by (auto simp: es_doomed_def)

lemma em_inv_remove:
  assumes "em_inv m"
  shows "em_inv (m\<lparr>em_store := snd (es_remove_locked (em_disk m) pred (em_store m))\<rparr>)"
proof -
  obtain e s1 where el: "ensure_loaded (em_disk m) (em_store m) = (e, s1)" by fastforce
  note inv = em_inv_loadedD [OF assms el]
  define kept where "kept = dict_filter (\<lambda>k. k \<notin> set (es_doomed pred e)) e"
  have keys: "dict_keys kept = dict_keys e - set (es_doomed pred e)"
    unfolding kept_def dict_keys_filter by blast
  have known: "dict_keys kept \<union> (es_tombstones s1 \<union> set (es_doomed pred e)) = dict_keys e \<union> es_tombstones s1"
    unfolding keys using doomed_keys by blast
  have "snd (es_remove_locked (em_disk m) pred (em_store m)) =
      s1\<lparr>es_entries := Some kept, es_tombstones := es_tombstones s1 \<union> set (es_doomed pred e)\<rparr>"
    by (simp add: es_remove_locked_def el Let_def kept_def)
  moreover have "dict_wf kept" unfolding kept_def using inv(2) by (rule dict_wf_filter)
  moreover have "dict_keys kept \<inter> (es_tombstones s1 \<union> set (es_doomed pred e)) = {}"
    unfolding keys using inv(5) by blast
  ultimately show ?thesis
    using inv(1,6,7) by (simp add: em_invI [where e = kept] known del: dict_keys_filter)
qed

lemma em_inv_replace:
  assumes "em_inv m" "dict_wf d" "dict_keys d \<inter> es_tombstones (em_store m) = {}"
  shows "em_inv (m\<lparr>em_store := es_replace_locked (em_disk m) d (em_store m)\<rparr>)"
proof -
  obtain e s1 where el: "ensure_loaded (em_disk m) (em_store m) = (e, s1)" by fastforce
  note inv = em_inv_loadedD [OF assms(1) el]
  have "write_ok (em_disk m) (dict_keys d \<union> (es_tombstones s1 \<union> (dict_keys e - dict_keys d))) (em_write m)"
    using inv(7) by (rule write_ok_mono) blast
  then show ?thesis
    unfolding es_replace_locked_def el using inv assms(2,3)
    by (intro em_invI [where e = d]) (simp_all, blast+)
qed

lemma em_inv_begin:
  assumes "em_inv m" "es_write_begin (em_disk m) (em_store m) = (w, s1)"
  shows "em_inv (m\<lparr>em_store := s1, em_write := Some w\<rparr>)"
proof -
  obtain e where el: "ensure_loaded (em_disk m) (em_store m) = (e, s1)"
      and w: "w = \<lparr>ew_mine = e, ew_dead = es_tombstones s1, ew_merged = None\<rparr>"
    using assms(2) by (auto simp: es_write_begin_def split: prod.splits)
  note inv = em_inv_loadedD [OF assms(1) el]
  show ?thesis using inv by (auto simp: em_inv_def w)
qed

lemma em_inv_save:
  assumes "em_inv m" "em_write m = Some w"
  shows "em_inv (m\<lparr>em_disk := es_merge (em_disk m) w, em_write := Some (w\<lparr>ew_merged := Some (es_merge (em_disk m) w)\<rparr>)\<rparr>)"
  using assms dict_wf_es_merge [of "em_disk m" w]
  by (auto simp: em_inv_def Let_def dict_keys_es_merge split: option.splits)

lemma em_inv_abort: "em_inv m \<Longrightarrow> em_inv (m\<lparr>em_write := None\<rparr>)"
  by (simp add: em_inv_def Let_def split: option.splits)

text \<open>Finishing a write leaves the live entries as they are: nothing removed comes back.\<close>

lemma es_write_end_keeps:
  assumes "em_inv m" "em_write m = Some w" "ew_merged w = Some merged"
  shows "es_entries (es_write_end merged w (em_disk m) (em_store m)) = es_entries (em_store m)"
proof -
  obtain e where e: "es_entries (em_store m) = Some e"
    using assms(1,2) by (auto simp: em_inv_def Let_def split: option.splits)
  then have "merged = em_disk m" "dict_keys (em_disk m) \<subseteq> dict_keys e \<union> es_tombstones (em_store m)"
    using assms by (auto simp: em_inv_def Let_def)
  then show ?thesis by (simp add: es_write_end_def ensure_loaded_Some [OF e] es_adopt_none e)
qed

lemma em_inv_end:
  assumes "em_inv m" "em_write m = Some w" "ew_merged w = Some merged"
  shows "em_inv (m\<lparr>em_store := es_write_end merged w (em_disk m) (em_store m), em_write := None\<rparr>)"
proof -
  obtain e where e: "es_entries (em_store m) = Some e"
    using assms(1,2) by (auto simp: em_inv_def Let_def split: option.splits)
  have "es_tombstones (es_write_end merged w (em_disk m) (em_store m)) = es_tombstones (em_store m) - ew_dead w"
    by (simp add: es_write_end_def ensure_loaded_Some [OF e])
  then show ?thesis
    using assms es_write_end_keeps [OF assms] e by (auto simp: em_inv_def Let_def)
qed

lemma em_inv_step: "em_inv m \<Longrightarrow> es_step m m1 \<Longrightarrow> em_inv m1"
proof (erule es_stepE)
  fix ev assume inv: "em_inv m" and "es_quiet ev m" "es_exec ev m = Some m1"
  then show "em_inv m1"
    by (cases ev)
      (auto simp: es_exec_def es_quiet_def Let_def em_inv_load em_inv_set em_inv_remove em_inv_replace em_inv_begin
        em_inv_save em_inv_end em_inv_abort split: if_splits option.splits prod.splits)
qed

interpretation entries: invariant_system "\<lambda>m. \<exists>disk. dict_wf disk \<and> m = es_boot disk" es_step em_inv
proof unfold_locales
  show "em_inv m" if "\<exists>disk. dict_wf disk \<and> m = es_boot disk" for m
    using that by (auto simp: em_inv_def es_boot_def es_new_def)
qed (rule em_inv_step)

definition es_reach :: "es_machine \<Rightarrow> bool" where
  "es_reach m \<longleftrightarrow> (\<exists>disk. dict_wf disk \<and> es_step\<^sup>*\<^sup>* (es_boot disk) m)"

lemma es_reach_inv: "es_reach m \<Longrightarrow> em_inv m"
  unfolding es_reach_def using entries.inv_reachable by blast

lemma es_reach_boot: "dict_wf disk \<Longrightarrow> es_reach (es_boot disk)"
  unfolding es_reach_def by blast

lemma es_reach_exec: "es_reach m \<Longrightarrow> es_quiet ev m \<Longrightarrow> es_exec ev m = Some m1 \<Longrightarrow> es_reach m1"
  unfolding es_reach_def by (meson es_step.intros rtranclp.rtrancl_into_rtrancl)

lemma es_reach_run:
  "es_reach m \<Longrightarrow> list_all (\<lambda>ev. \<forall>m. es_quiet ev m) evs \<Longrightarrow> es_run evs m = Some m1 \<Longrightarrow> es_reach m1"
  by (induction evs arbitrary: m) (auto split: option.splits intro: es_reach_exec)

lemma merged_view_synced:
  assumes "em_inv m" "ensure_loaded (em_disk m) (em_store m) = (e, s1)"
  shows "merged_view (em_disk m) (em_store m) = map_of e"
proof
  fix k show "merged_view (em_disk m) (em_store m) k = map_of e k"
  proof (cases "map_of e k")
    case None
    then have "k \<in> es_tombstones (em_store m) \<or> map_of (em_disk m) k = None"
      using em_inv_loadedD(4,6) [OF assms] unfolding map_of_None_iff by auto
    then show ?thesis using None by (auto simp: merged_view_def assms(2))
  qed (simp add: merged_view_def assms(2))
qed

lemma es_remove_locked_map:
  assumes "dict_wf (fst (ensure_loaded disk s))" "es_remove_locked disk pred s = (n, s1)"
  shows "\<exists>e. es_entries s1 = Some e \<and>
      map_of e = (\<lambda>k. Option.bind (map_of (fst (ensure_loaded disk s)) k) (\<lambda>v. if pred k v then None else Some v))"
    "n = length (filter (\<lambda>(k, v). pred k v) (fst (ensure_loaded disk s)))"
proof -
  obtain e s0 where el: "ensure_loaded disk s = (e, s0)" by fastforce
  have dom: "k \<in> set (es_doomed pred e) \<longleftrightarrow> (\<exists>v. map_of e k = Some v \<and> pred k v)" for k
    using assms(1) by (force simp: es_doomed_def el)
  have "map_of (dict_filter (\<lambda>k. k \<notin> set (es_doomed pred e)) e) =
      (\<lambda>k. Option.bind (map_of e k) (\<lambda>v. if pred k v then None else Some v))"
    by (rule ext) (simp add: dom split: Option.bind_split)
  then show "\<exists>e. es_entries s1 = Some e \<and>
      map_of e = (\<lambda>k. Option.bind (map_of (fst (ensure_loaded disk s)) k) (\<lambda>v. if pred k v then None else Some v))"
    using assms(2) by (auto simp: es_remove_locked_def el Let_def)
  show "n = length (filter (\<lambda>(k, v). pred k v) (fst (ensure_loaded disk s)))"
    using assms(2) by (auto simp: es_remove_locked_def el Let_def es_doomed_def)
qed

lemma em_inv_write_all:
  assumes "em_inv m" "em_write m = None" "es_write_all writable (em_disk m, em_store m) = (r, d, s1)"
  shows "em_inv (m\<lparr>em_disk := d, em_store := s1\<rparr>)"
proof -
  obtain w s0 where b: "es_write_begin (em_disk m) (em_store m) = (w, s0)" by fastforce
  have w: "ew_merged w = None" using b by (auto simp: es_write_begin_def split: prod.splits)
  let ?d = "es_merge (em_disk m) w"
  have inv: "em_inv (m\<lparr>em_store := s0, em_write := Some w\<rparr>)" by (rule em_inv_begin [OF assms(1) b])
  show ?thesis
  proof (cases writable)
    case True
    then have d: "d = ?d" "s1 = es_write_end ?d w ?d s0" using assms(3) by (auto simp: es_write_all_def b Let_def)
    have "es_write_end ?d (w\<lparr>ew_merged := Some ?d\<rparr>) ?d s0 = es_write_end ?d w ?d s0" by (simp add: es_write_end_def)
    then have "em_inv (m\<lparr>em_disk := d, em_store := s1, em_write := None\<rparr>)"
      using em_inv_end [OF em_inv_save [OF inv, of w], of "w\<lparr>ew_merged := Some ?d\<rparr>" ?d] by (simp add: d)
    then show ?thesis using assms(2) by (cases m) simp
  next
    case False
    then have d: "d = em_disk m" "s1 = s0" using assms(3) by (auto simp: es_write_all_def b)
    then show ?thesis using em_inv_abort [OF inv] assms(2) by (cases m) simp
  qed
qed

lemma em_inv_remove_if:
  assumes "em_inv m" "em_write m = None" "es_remove_if writable pred (em_disk m, em_store m) = (r, d, s1)"
  shows "em_inv (m\<lparr>em_disk := d, em_store := s1\<rparr>)"
proof -
  obtain n s0 where rm: "es_remove_locked (em_disk m) pred (em_store m) = (n, s0)" by fastforce
  have inv: "em_inv (m\<lparr>em_store := s0\<rparr>)" using em_inv_remove [OF assms(1), of pred] by (simp add: rm)
  show ?thesis
    using assms(2,3) inv em_inv_write_all [OF inv]
    by (auto simp: es_remove_if_def rm split: if_splits sum.splits prod.splits)
qed

lemma remove_if_spec:
  assumes inv: "em_inv m"
  shows "let e = fst (es_snapshot (em_disk m) (em_store m));
             matching = filter (\<lambda>(k, v). pred k v) e;
             kept = (\<lambda>k. Option.bind (map_of e k) (\<lambda>v. if pred k v then None else Some v))
         in (case es_remove_if True pred (em_disk m, em_store m) of (r, d, s') \<Rightarrow>
               r = Inr (length matching) \<and> map_of (fst (es_snapshot d s')) = kept \<and>
               map_of d = (if matching = [] then map_of (em_disk m) else kept)) \<and>
            (case es_remove_if False pred (em_disk m, em_store m) of (r, d, s') \<Rightarrow>
               r = (if matching = [] then Inr 0 else Inl OSError) \<and>
               map_of (fst (es_snapshot d s')) = kept \<and> d = em_disk m)"
proof -
  obtain e s0 where el: "ensure_loaded (em_disk m) (em_store m) = (e, s0)" by fastforce
  obtain n s1 where rm: "es_remove_locked (em_disk m) pred (em_store m) = (n, s1)" by fastforce
  let ?m = "m\<lparr>em_store := s1\<rparr>"
  note wf = em_inv_loadedD(1,2) [OF inv el]
  define kept where "kept = (\<lambda>k. Option.bind (map_of e k) (\<lambda>v. if pred k v then None else Some v))"
  obtain e1 where e1: "es_entries s1 = Some e1" "map_of e1 = kept"
    using es_remove_locked_map(1) [OF _ rm] wf(2) by (auto simp: el kept_def)
  have n: "n = length (filter (\<lambda>(k, v). pred k v) e)"
    using es_remove_locked_map(2) [OF _ rm] wf(2) by (simp add: el)
  have inv1: "em_inv ?m" using em_inv_remove [OF inv, of pred] by (simp add: rm)
  have el1: "ensure_loaded (em_disk ?m) (em_store ?m) = (e1, s1)" by (simp add: ensure_loaded_Some e1)
  obtain r d s' where w: "es_write_all True (em_disk m, s1) = (r, d, s')" by (metis prod_cases3)
  have out: "r = Inr ()" "map_of d = kept" "\<exists>e. es_entries s' = Some e \<and> map_of e = kept"
    using es_write_all_spec [OF wf(1) _ w] em_inv_loadedD(2) [OF inv1 el1] merged_view_synced [OF inv1 el1] el1
    by (simp_all add: e1)
  have fail: "es_write_all False (em_disk m, s1) = (Inl OSError, em_disk m, s1)"
    using el1 by (simp add: es_write_all_def es_write_begin_def)
  show ?thesis
    using out e1 el n
    by (auto simp: es_remove_if_def rm w fail es_snapshot_def ensure_loaded_Some kept_def [symmetric] Let_def)
qed

section \<open>Properties\<close>

text \<open>
  What a write does with the work of other processes: the saved document and the live entries
  agree afterwards, on our entries first, then on every entry of the file that we did not remove;
  no removal is pending any more. A failed save changes neither the file nor the pending removals.
\<close>

theorem write_merges:
  assumes "dict_wf disk" "es_entries s = Some e" "dict_wf e"
  shows "(case es_write_all True (disk, s) of (r, d, s') \<Rightarrow>
      r = Inr () \<and> es_tombstones s' = {} \<and>
      (\<exists>e'. es_entries s' = Some e' \<and> map_of e' = map_of d) \<and>
      map_of d = (\<lambda>k. if k \<in> dict_keys e then map_of e k else if k \<in> es_tombstones s then None else map_of disk k)) \<and>
    es_write_all False (disk, s) = (Inl OSError, disk, s)"
proof -
  obtain r d s' where w: "es_write_all True (disk, s) = (r, d, s')" by (metis prod_cases3)
  have el: "ensure_loaded disk s = (e, s)" by (rule ensure_loaded_Some [OF assms(2)])
  have "merged_view disk s = (\<lambda>k. if k \<in> dict_keys e then map_of e k else if k \<in> es_tombstones s then None else map_of disk k)"
    by (rule ext) (auto simp: merged_view_def el map_of_eq_None_iff split: option.splits dest: map_of_Some_key)
  moreover have "es_write_all False (disk, s) = (Inl OSError, disk, s)"
    by (simp add: es_write_all_def es_write_begin_def el)
  ultimately show ?thesis
    using es_write_all_spec [OF assms(1) _ w] assms(3) by (simp add: el w)
qed

theorem write_merges_witness:
  "case es_write_all True ([(''a'', JNum 1), (''b'', JNum 2)],
      es_new\<lparr>es_entries := Some [(''c'', JNum 3)], es_tombstones := {''a''}\<rparr>) of (r, d, s') \<Rightarrow>
     r = Inr () \<and> map_of d ''a'' = None \<and> map_of d ''b'' = Some (JNum 2) \<and> map_of d ''c'' = Some (JNum 3)"
  using write_merges [where disk = "[(''a'', JNum 1), (''b'', JNum 2)]" and e = "[(''c'', JNum 3)]"
      and s = "es_new\<lparr>es_entries := Some [(''c'', JNum 3)], es_tombstones := {''a''}\<rparr>"]
  by (auto split: prod.splits)

text \<open>Removals are not undone by concurrent writes: in every run of loads, sets, removals,
  replacements and writes whose steps interleave, with no foreign writer and no replacement that
  brings back a key with a pending removal, finishing a write leaves the live entries unchanged,
  and an uninterrupted write leaves the file with exactly the live entries.
\<close>

theorem writes_keep_memory:
  assumes "es_reach m"
  shows "(\<forall>m1. es_exec EvEnd m = Some m1 \<longrightarrow> es_entries (em_store m1) = es_entries (em_store m)) \<and>
    (case es_write_all True (em_disk m, em_store m) of (r, d, s') \<Rightarrow>
      r = Inr () \<and> map_of d = map_of (fst (es_snapshot (em_disk m) (em_store m))) \<and>
      map_of (fst (es_snapshot d s')) = map_of d)"
proof -
  note inv = es_reach_inv [OF assms]
  have "es_entries (em_store m1) = es_entries (em_store m)" if "es_exec EvEnd m = Some m1" for m1
    using that es_write_end_keeps [OF inv] by (auto simp: es_exec_def Let_def split: option.splits)
  moreover obtain e s1 where el: "ensure_loaded (em_disk m) (em_store m) = (e, s1)" by fastforce
  moreover obtain r d s' where w: "es_write_all True (em_disk m, em_store m) = (r, d, s')" by (metis prod_cases3)
  moreover have wf: "dict_wf (em_disk m)" "dict_wf (fst (ensure_loaded (em_disk m) (em_store m)))"
    using em_inv_loadedD(1,2) [OF inv el] by (simp_all add: el)
  ultimately show ?thesis
    using es_write_all_spec [OF wf w] merged_view_synced [OF inv el]
    by (auto simp: es_snapshot_def ensure_loaded_Some)
qed

theorem writes_keep_memory_witness:
  "\<exists>m m1. es_run [EvBegin, EvRemove [''k''], EvSave] (es_boot [(''k'', JNum 1)]) = Some m \<and>
     es_exec EvEnd m = Some m1 \<and> es_entries (em_store m1) = Some []"
proof -
  let ?run = "\<lambda>evs. es_run evs (es_boot [(''k'', JNum 1)])"
  have "map_option (es_entries \<circ> em_store) (?run [EvBegin, EvRemove [''k''], EvSave]) = Some (Some [])"
    by code_simp
  then obtain m where m: "?run [EvBegin, EvRemove [''k''], EvSave] = Some m" "es_entries (em_store m) = Some []"
    by auto
  have "map_option (\<lambda>m. ()) (?run [EvBegin, EvRemove [''k''], EvSave, EvEnd]) = Some ()"
    by code_simp
  then have "es_exec EvEnd m \<noteq> None" using m(1) by (auto split: option.splits)
  moreover have "es_reach m"
    by (rule es_reach_run [OF es_reach_boot _ m(1)]) (simp_all add: es_quiet_def)
  ultimately show ?thesis using writes_keep_memory [of m] m by auto
qed

text \<open>\<open>remove_if\<close> is exact and durable: in every such run it reports the number of entries that
  match, takes exactly those out of the live entries, and when it removed anything the file holds
  exactly the remaining entries once it returns; when the save fails the caller sees the error and
  the entries are gone from memory all the same.
\<close>

theorem remove_if_exact:
  assumes "es_reach m"
  shows "let e = fst (es_snapshot (em_disk m) (em_store m));
             matching = filter (\<lambda>(k, v). pred k v) e;
             kept = (\<lambda>k. Option.bind (map_of e k) (\<lambda>v. if pred k v then None else Some v))
         in (case es_remove_if True pred (em_disk m, em_store m) of (r, d, s') \<Rightarrow>
               r = Inr (length matching) \<and> map_of (fst (es_snapshot d s')) = kept \<and>
               map_of d = (if matching = [] then map_of (em_disk m) else kept)) \<and>
            (case es_remove_if False pred (em_disk m, em_store m) of (r, d, s') \<Rightarrow>
               r = (if matching = [] then Inr 0 else Inl OSError) \<and>
               map_of (fst (es_snapshot d s')) = kept \<and> d = em_disk m)"
  by (rule remove_if_spec [OF es_reach_inv [OF assms]])

theorem remove_if_exact_witness:
  "fst (es_remove_if True (\<lambda>k v. k = ''a'') ([(''a'', JNum 1), (''b'', JNum 2)], es_new)) = Inr 1"
  using remove_if_exact [OF es_reach_boot [of "[(''a'', JNum 1), (''b'', JNum 2)]"], where pred = "\<lambda>k v. k = ''a''"]
  by (simp add: es_boot_def es_snapshot_def ensure_loaded_def es_new_def Let_def split: prod.splits)

text \<open>\<open>replace_all\<close> does not drop the tombstones of the keys it brings back, so without the
  restriction above a removal can be lost: after a failed removal of \<open>k\<close> and a \<open>replace_all\<close> with
  \<open>k\<close>, a removal of \<open>k\<close> that runs during the write of the replacement is forgotten when that
  write ends, and the next write, the removal's own, adopts \<open>k\<close> from the file again.
\<close>

theorem replaced_key_resurrected:
  "map_option (\<lambda>m. (es_entries (em_store m), em_disk m))
     (es_run [EvRemove [''k''], EvBegin, EvSaveFails, EvReplace [(''k'', JNum 2)],
        EvBegin, EvRemove [''k''], EvSave, EvEnd, EvBegin, EvSave, EvEnd] (es_boot [(''k'', JNum 1)])) =
   Some (Some [(''k'', JNum 2)], [(''k'', JNum 2)])"
  by code_simp

end
