(* ===== verification/Ingest_Marks.thy ===== *)
theory Ingest_Marks
  imports Entry_Store Lease_Owner
begin

text \<open>
  The durable ingest marks of \<open>dbload/lib/sync_timedb_file_complete_ingest_mark.py\<close> and
  \<open>sync_timedb_zero_host_ingest_mark.py\<close>: entries \<open>path|mtime|size\<close> of two sidecars, each a
  \<open>WriteBehindEntryStore\<close>. The two modules differ in the sidecar and in the outcomes they mark, so their
  operations are one definition over the kind of the sidecar. A mark document is the entries the loader reads from the
  file and the store in memory, found by the path of the sidecar.
\<close>

section \<open>Fingerprints and documents\<close>

text \<open>\<open>os.stat\<close>: modification time and size, \<open>None\<close> for an \<open>OSError\<close>.\<close>

type_synonym stat_fn = "string \<Rightarrow> (rat \<times> int) option"
type_synonym mark_doc = "es_dict \<times> es_store"
type_synonym mark_docs = "string \<Rightarrow> mark_doc"

definition path_fingerprint_key :: "stat_fn \<Rightarrow> string \<Rightarrow> string option" where
  "path_fingerprint_key stat path = (case stat path of
      None \<Rightarrow> None
    | Some (mtime, sz) \<Rightarrow> Some (py_normpath path @ ''|'' @ show_int (py_trunc mtime) @ ''|'' @ show_int sz))"

definition FILE_COMPLETE :: string where
  "FILE_COMPLETE = ''file_complete_ingest_mark''"

definition ZERO_HOST :: string where
  "ZERO_HOST = ''zero_host_ingest_mark''"

text \<open>\<open>archive_data_dir\<close> or the default of the configuration; an empty one means no marks.\<close>

definition mark_path :: "string \<Rightarrow> string \<Rightarrow> string option \<Rightarrow> string option" where
  "mark_path kind default_dir archive_data_dir =
     (let dir = (case archive_data_dir of Some d \<Rightarrow> d | None \<Rightarrow> default_dir) in
      if dir = [] then None else (case artifact_path dir kind of Inl e \<Rightarrow> None | Inr p \<Rightarrow> Some p))"

text \<open>\<open>_load_entries_uncached\<close>: what the loader makes of the file.\<close>

definition load_entries_uncached :: "string \<Rightarrow> fsys \<Rightarrow> string \<Rightarrow> es_dict" where
  "load_entries_uncached kind fs path =
     (case load_persistence_document fs path kind (JObj [(''entries'', JObj [])]) of
        JObj raw \<Rightarrow> (case jget raw ''entries'' of JObj entries \<Rightarrow> entries | _ \<Rightarrow> [])
      | _ \<Rightarrow> [])"

section \<open>Operations\<close>

definition has_mark :: "string \<Rightarrow> stat_fn \<Rightarrow> string \<Rightarrow> string option \<Rightarrow> string \<Rightarrow> mark_docs \<Rightarrow> bool \<times> mark_docs" where
  "has_mark kind stat default_dir dir path docs = (case path_fingerprint_key stat path of
      None \<Rightarrow> (False, docs)
    | Some key \<Rightarrow> (case mark_path kind default_dir dir of
        None \<Rightarrow> (False, docs)
      | Some mp \<Rightarrow> (case docs mp of (disk, store) \<Rightarrow>
          case es_contains disk key store of (b, store1) \<Rightarrow> (b, docs(mp := (disk, store1))))))"

text \<open>
  The file is looked at twice: the key comes from \<open>stat\<close>, the fields of the entry from \<open>stat2\<close>, and nothing is
  stored when it is gone in between.
\<close>

definition mark_entry :: "string \<Rightarrow> rat \<Rightarrow> int \<Rightarrow> rat \<Rightarrow> json" where
  "mark_entry path mtime sz now = JObj [(''path'', JStr (py_normpath path)), (''mtime'', JNum (of_int (py_trunc mtime))),
     (''size'', JNum (of_int sz)), (''marked_at'', JNum now)]"

definition record_mark ::
    "string \<Rightarrow> stat_fn \<Rightarrow> stat_fn \<Rightarrow> rat \<Rightarrow> string \<Rightarrow> string option \<Rightarrow> string \<Rightarrow> mark_docs \<Rightarrow> bool \<times> mark_docs" where
  "record_mark kind stat stat2 now default_dir dir path docs = (case path_fingerprint_key stat path of
      None \<Rightarrow> (False, docs)
    | Some key \<Rightarrow> (case mark_path kind default_dir dir of
        None \<Rightarrow> (False, docs)
      | Some mp \<Rightarrow> (case stat2 path of
          None \<Rightarrow> (False, docs)
        | Some (mtime, sz) \<Rightarrow> (case docs mp of (disk, store) \<Rightarrow>
            (True, docs(mp := (disk, es_set now disk key (mark_entry path mtime sz now) store)))))))"

text \<open>
  \<open>_selected\<close>: the entry's own path, the text before the first bar of its key, or the present fingerprint of a
  cleared path. \<open>text_of\<close> is \<open>str\<close> of a JSON value that is not a string.
\<close>

definition meta_path :: "(json \<Rightarrow> string) \<Rightarrow> json \<Rightarrow> string" where
  "meta_path text_of meta = (case meta of
      JObj m \<Rightarrow> py_normpath (let v = jget m ''path'' in if \<not> json_truthy v then [] else case v of JStr s \<Rightarrow> s | _ \<Rightarrow> text_of v)
    | _ \<Rightarrow> [])"

definition mark_selected :: "(json \<Rightarrow> string) \<Rightarrow> stat_fn \<Rightarrow> string list \<Rightarrow> string \<Rightarrow> json \<Rightarrow> bool" where
  "mark_selected text_of stat path_set key meta =
     (let fp_path = (if CHR ''|'' \<in> set key then fst (py_split1 (CHR ''|'') key) else []) in
      meta_path text_of meta \<in> set path_set \<or> fp_path \<in> set path_set \<or>
      list_ex (\<lambda>p. path_fingerprint_key stat p = Some key) path_set)"

definition clear_marks :: "string \<Rightarrow> (json \<Rightarrow> string) \<Rightarrow> stat_fn \<Rightarrow> bool \<Rightarrow> string \<Rightarrow> string option \<Rightarrow> string list \<Rightarrow> mark_docs \<Rightarrow>
    (py_error + nat) \<times> mark_docs" where
  "clear_marks kind text_of stat writable default_dir dir paths docs =
     (let path_set = map py_normpath (filter (\<lambda>p. p \<noteq> []) paths) in
      if path_set = [] then (Inr 0, docs)
      else (case mark_path kind default_dir dir of
          None \<Rightarrow> (Inr 0, docs)
        | Some mp \<Rightarrow> (case es_remove_if writable (mark_selected text_of stat path_set) (docs mp) of
            (r, doc) \<Rightarrow> (r, docs(mp := doc)))))"

subsection \<open>The two modules\<close>

definition has_file_complete_ingest_mark :: "stat_fn \<Rightarrow> string \<Rightarrow> string option \<Rightarrow> string \<Rightarrow> mark_docs \<Rightarrow> bool \<times> mark_docs" where
  "has_file_complete_ingest_mark = has_mark FILE_COMPLETE"

definition record_file_complete_ingest_mark ::
    "stat_fn \<Rightarrow> stat_fn \<Rightarrow> rat \<Rightarrow> string \<Rightarrow> string option \<Rightarrow> string \<Rightarrow> mark_docs \<Rightarrow> bool \<times> mark_docs" where
  "record_file_complete_ingest_mark = record_mark FILE_COMPLETE"

definition clear_file_complete_ingest_marks ::
    "(json \<Rightarrow> string) \<Rightarrow> stat_fn \<Rightarrow> bool \<Rightarrow> string \<Rightarrow> string option \<Rightarrow> string list \<Rightarrow> mark_docs \<Rightarrow> (py_error + nat) \<times> mark_docs" where
  "clear_file_complete_ingest_marks = clear_marks FILE_COMPLETE"

definition has_zero_host_ingest_mark :: "stat_fn \<Rightarrow> string \<Rightarrow> string option \<Rightarrow> string \<Rightarrow> mark_docs \<Rightarrow> bool \<times> mark_docs" where
  "has_zero_host_ingest_mark = has_mark ZERO_HOST"

definition record_zero_host_ingest_mark ::
    "stat_fn \<Rightarrow> stat_fn \<Rightarrow> rat \<Rightarrow> string \<Rightarrow> string option \<Rightarrow> string \<Rightarrow> mark_docs \<Rightarrow> bool \<times> mark_docs" where
  "record_zero_host_ingest_mark = record_mark ZERO_HOST"

definition clear_zero_host_ingest_marks ::
    "(json \<Rightarrow> string) \<Rightarrow> stat_fn \<Rightarrow> bool \<Rightarrow> string \<Rightarrow> string option \<Rightarrow> string list \<Rightarrow> mark_docs \<Rightarrow> (py_error + nat) \<times> mark_docs" where
  "clear_zero_host_ingest_marks = clear_marks ZERO_HOST"

text \<open>
  When an ingest outcome is marked. \<open>setting\<close> is the live-ingest switch of the configuration, \<open>None\<close> when it cannot be
  read, which counts as on.
\<close>

definition head_tail_skips :: "string list" where
  "head_tail_skips = [''head_tail'', ''tail_window'', ''db_complete_head_tail'', ''db_complete_tail_window'']"

definition full_scan_skips :: "string list" where
  "full_scan_skips = [''full_scan'', ''db_complete_full_scan'']"

definition text_or_empty :: "string option \<Rightarrow> string" where
  "text_or_empty x = (case x of None \<Rightarrow> [] | Some s \<Rightarrow> s)"

definition marks_file_complete :: "bool option \<Rightarrow> bool \<Rightarrow> string option \<Rightarrow> string option \<Rightarrow> bool option \<Rightarrow> bool" where
  "marks_file_complete setting ingest_ok outcome db_skip listend_enabled =
     (if \<not> ingest_ok then False
      else let outcome_s = text_or_empty outcome;
               skip = (if outcome_s = ''db_skip'' then text_or_empty db_skip else []);
               head_tail = (skip \<in> set head_tail_skips);
               enabled = (if head_tail \<and> listend_enabled = None
                 then (case setting of Some b \<Rightarrow> Some b | None \<Rightarrow> Some True) else listend_enabled)
           in outcome_s = ''ingested'' \<or> skip \<in> set full_scan_skips \<or> head_tail \<and> enabled = Some False)"

definition maybe_record_file_complete_ingest_mark_from_outcome ::
    "bool option \<Rightarrow> bool \<Rightarrow> string option \<Rightarrow> string option \<Rightarrow> bool option \<Rightarrow>
     stat_fn \<Rightarrow> stat_fn \<Rightarrow> rat \<Rightarrow> string \<Rightarrow> string option \<Rightarrow> string \<Rightarrow> mark_docs \<Rightarrow> bool \<times> mark_docs" where
  "maybe_record_file_complete_ingest_mark_from_outcome setting ingest_ok outcome db_skip listend_enabled stat stat2 now default_dir dir path docs =
     (if marks_file_complete setting ingest_ok outcome db_skip listend_enabled
      then record_file_complete_ingest_mark stat stat2 now default_dir dir path docs else (False, docs))"

definition maybe_record_zero_host_ingest_mark_from_outcome ::
    "bool \<Rightarrow> string option \<Rightarrow> int option \<Rightarrow> stat_fn \<Rightarrow> stat_fn \<Rightarrow> rat \<Rightarrow> string \<Rightarrow> string option \<Rightarrow> string \<Rightarrow> mark_docs \<Rightarrow>
     bool \<times> mark_docs" where
  "maybe_record_zero_host_ingest_mark_from_outcome ingest_ok outcome stats_rows stat stat2 now default_dir dir path docs =
     (if \<not> ingest_ok then (False, docs)
      else if text_or_empty outcome \<notin> {''ingested'', ''''} then (False, docs)
      else if stats_rows = None \<or> stats_rows \<noteq> Some 0 then (False, docs)
      else record_zero_host_ingest_mark stat stat2 now default_dir dir path docs)"

section \<open>Fingerprints are unambiguous\<close>

lemma append_bar_inj:
  assumes "xs @ CHR ''|'' # a = ys @ CHR ''|'' # b" "CHR ''|'' \<notin> set a" "CHR ''|'' \<notin> set b"
  shows "xs = ys \<and> a = b"
proof -
  have "rev a @ CHR ''|'' # rev xs = rev b @ CHR ''|'' # rev ys" using arg_cong [OF assms(1), of rev] by simp
  then have "py_split1 (CHR ''|'') (rev a @ CHR ''|'' # rev xs) = py_split1 (CHR ''|'') (rev b @ CHR ''|'' # rev ys)" by simp
  then show ?thesis using assms(2,3) by (simp add: py_split1_append)
qed

text \<open>What a fingerprint stands for: the normalized path, the whole seconds of the time, the size.\<close>

definition file_version :: "stat_fn \<Rightarrow> string \<Rightarrow> (string \<times> int \<times> int) option" where
  "file_version stat path = map_option (\<lambda>(mtime, sz). (py_normpath path, py_trunc mtime, sz)) (stat path)"

fun version_key :: "string \<times> int \<times> int \<Rightarrow> string" where
  "version_key (path, mtime, sz) = path @ ''|'' @ show_int mtime @ ''|'' @ show_int sz"

lemma show_int_inj: "show_int m = show_int n \<longleftrightarrow> m = n"
  by (metis option.inject py_int_show_int)

lemma version_key_inj: "version_key u = version_key v \<longleftrightarrow> u = v"
proof (cases u; cases v)
  fix p m z q n y assume "u = (p, m, z)" "v = (q, n, y)"
  then show ?thesis
    using append_bar_inj [of "p @ ''|'' @ show_int m" "show_int z" "q @ ''|'' @ show_int n" "show_int y"]
      append_bar_inj [of p "show_int m" q "show_int n"] show_int_no_colon(2) by (auto simp: show_int_inj)
qed

lemma fingerprint_version: "path_fingerprint_key stat path = map_option version_key (file_version stat path)"
  by (simp add: path_fingerprint_key_def file_version_def split: option.split)

declare version_key.simps [simp del]

section \<open>Mark documents\<close>

definition doc_ok :: "mark_doc \<Rightarrow> bool" where
  "doc_ok doc = em_inv \<lparr>em_store = snd doc, em_disk = fst doc, em_write = None\<rparr>"

definition doc_view :: "mark_doc \<Rightarrow> string \<Rightarrow> json option" where
  "doc_view doc = map_of (fst (ensure_loaded (fst doc) (snd doc)))"

lemma doc_contains:
  assumes "es_contains (fst doc) key (snd doc) = (b, s)"
  shows "b \<longleftrightarrow> doc_view doc key \<noteq> None" "doc_view (fst doc, s) = doc_view doc" "doc_ok doc \<Longrightarrow> doc_ok (fst doc, s)"
  using assms em_inv_load [of "\<lparr>em_store = snd doc, em_disk = fst doc, em_write = None\<rparr>"]
  by (auto simp: es_contains_def doc_view_def doc_ok_def map_of_None_iff ensure_loaded_def split: option.splits)

lemma doc_set:
  "doc_view (fst doc, es_set now (fst doc) key v (snd doc)) = (doc_view doc)(key \<mapsto> v)"
  "doc_ok doc \<Longrightarrow> doc_ok (fst doc, es_set now (fst doc) key v (snd doc))"
  using em_inv_set [of "\<lparr>em_store = snd doc, em_disk = fst doc, em_write = None\<rparr>" now key v]
  by (auto simp: es_set_def doc_view_def doc_ok_def ensure_loaded_Some AList.update_conv' split: prod.splits)

lemma doc_remove:
  assumes "doc_ok doc" "es_remove_if writable pred doc = (r, doc1)"
  shows "doc_ok doc1"
    "doc_view doc1 = (\<lambda>k. Option.bind (doc_view doc k) (\<lambda>v. if pred k v then None else Some v))"
proof -
  let ?m = "\<lparr>em_store = snd doc, em_disk = fst doc, em_write = None\<rparr>"
  have inv: "em_inv ?m" using assms(1) by (simp add: doc_ok_def)
  show "doc_ok doc1"
    using em_inv_remove_if [OF inv, of writable pred r "fst doc1" "snd doc1"] assms(2) by (simp add: doc_ok_def)
  show "doc_view doc1 = (\<lambda>k. Option.bind (doc_view doc k) (\<lambda>v. if pred k v then None else Some v))"
    using remove_if_spec [OF inv, of pred] assms(2)
    by (cases writable) (auto simp: doc_view_def es_snapshot_def Let_def split: prod.splits)
qed

text \<open>Entries are as \<open>record_mark\<close> writes them: the key is a fingerprint of the path in the entry.\<close>

definition entry_ok :: "string \<Rightarrow> json \<Rightarrow> bool" where
  "entry_ok k v = (\<exists>path m z. k = version_key (py_normpath path, m, z) \<and> (\<forall>text_of. meta_path text_of v = py_normpath path))"

definition marks_ok :: "mark_docs \<Rightarrow> bool" where
  "marks_ok docs = (\<forall>mp. doc_ok (docs mp) \<and> (\<forall>k v. doc_view (docs mp) k = Some v \<longrightarrow> entry_ok k v))"

definition marked :: "string \<Rightarrow> string \<Rightarrow> string option \<Rightarrow> stat_fn \<Rightarrow> string \<Rightarrow> mark_docs \<Rightarrow> bool" where
  "marked kind default_dir dir stat path docs = fst (has_mark kind stat default_dir dir path docs)"

lemma marked_iff:
  "marked kind dd dir stat path docs \<longleftrightarrow> (case file_version stat path of None \<Rightarrow> False | Some v \<Rightarrow>
     (case mark_path kind dd dir of None \<Rightarrow> False | Some mp \<Rightarrow> doc_view (docs mp) (version_key v) \<noteq> None))"
  using doc_contains(1)
  by (auto simp: marked_def has_mark_def fingerprint_version split: option.splits prod.splits)

lemma marks_okD:
  assumes "marks_ok docs"
  shows "doc_ok (docs mp)" "doc_view (docs mp) k = Some v \<Longrightarrow> entry_ok k v"
  using assms by (auto simp: marks_ok_def)

lemma marks_ok_upd:
  assumes "marks_ok docs" "doc_ok doc"
    "\<And>k v. doc_view doc k = Some v \<Longrightarrow> doc_view (docs mp) k = Some v \<or> entry_ok k v"
  shows "marks_ok (docs(mp := doc))"
  using assms unfolding marks_ok_def by (auto dest: assms(3))

lemma marks_ok_has:
  assumes "marks_ok docs"
  shows "marks_ok (snd (has_mark kind stat dd dir path docs))" "marked k d r st q (snd (has_mark kind stat dd dir path docs)) = marked k d r st q docs"
proof -
  have keep: "marks_ok (docs(mp := (disk, s1)))" "doc_view ((docs(mp := (disk, s1))) p) = doc_view (docs p)"
    if "docs mp = (disk, s)" "es_contains disk key s = (b, s1)" for mp disk s key b s1 p
    using doc_contains [of "docs mp" key b s1] that marks_okD(1) [OF assms, of mp] assms
    by (auto intro!: marks_ok_upd)
  show "marks_ok (snd (has_mark kind stat dd dir path docs))"
    using assms keep by (auto simp: has_mark_def split: option.splits prod.splits)
  show "marked k d r st q (snd (has_mark kind stat dd dir path docs)) = marked k d r st q docs"
    using keep(2) by (auto simp: marked_iff has_mark_def simp del: fun_upd_apply split: option.splits prod.splits)
qed

lemma py_normpath_nonempty: "py_normpath path \<noteq> []"
  by (auto simp: py_normpath_def Let_def)

lemma meta_path_entry: "meta_path text_of (mark_entry path mtime sz now) = py_normpath path"
  by (simp add: meta_path_def mark_entry_def jget_def Let_def py_normpath_idem py_normpath_nonempty)

lemma record_mark_cases:
  obtains (skip) "record_mark kind stat stat2 now dd dir path docs = (False, docs)"
      "file_version stat path = None \<or> stat2 path = None \<or> mark_path kind dd dir = None"
  | (store) v mp mtime sz where "file_version stat path = Some v" "mark_path kind dd dir = Some mp" "stat2 path = Some (mtime, sz)"
      "record_mark kind stat stat2 now dd dir path docs =
        (True, docs(mp := (fst (docs mp), es_set now (fst (docs mp)) (version_key v) (mark_entry path mtime sz now) (snd (docs mp)))))"
proof (cases "file_version stat path")
  case (Some v)
  then show ?thesis
    using that(1) that(2) [of v] by (cases "mark_path kind dd dir"; cases "stat2 path")
      (simp_all add: record_mark_def fingerprint_version case_prod_unfold, metis surj_pair)
qed (use that(1) in \<open>simp add: record_mark_def fingerprint_version\<close>)

lemma marks_record:
  assumes "marks_ok docs" "mark_path kind dd dir \<noteq> None"
  shows "marks_ok (snd (record_mark kind stat stat2 now dd dir path docs))"
    "marked kind dd dir st q (snd (record_mark kind stat stat2 now dd dir path docs)) \<longleftrightarrow> marked kind dd dir st q docs \<or>
       fst (record_mark kind stat stat2 now dd dir path docs) \<and> file_version st q = file_version stat path"
    "fst (record_mark kind stat stat2 now dd dir path docs) \<longleftrightarrow> file_version stat path \<noteq> None \<and> stat2 path \<noteq> None"
proof -
  consider (skip) "record_mark kind stat stat2 now dd dir path docs = (False, docs)" "file_version stat path = None \<or> stat2 path = None"
    | (store) v mp mtime sz where "file_version stat path = Some v" "mark_path kind dd dir = Some mp" "stat2 path = Some (mtime, sz)"
      "record_mark kind stat stat2 now dd dir path docs =
        (True, docs(mp := (fst (docs mp), es_set now (fst (docs mp)) (version_key v) (mark_entry path mtime sz now) (snd (docs mp)))))"
    using record_mark_cases [of kind stat stat2 now dd dir path docs] assms(2) by metis
  note cases = this
  show "fst (record_mark kind stat stat2 now dd dir path docs) \<longleftrightarrow> file_version stat path \<noteq> None \<and> stat2 path \<noteq> None"
    by (rule cases) auto
  show "marks_ok (snd (record_mark kind stat stat2 now dd dir path docs))"
  proof (rule cases)
    fix v mp mtime sz
    let ?doc = "(fst (docs mp), es_set now (fst (docs mp)) (version_key v) (mark_entry path mtime sz now) (snd (docs mp)))"
    assume v: "file_version stat path = Some v" and
      r: "record_mark kind stat stat2 now dd dir path docs = (True, docs(mp := ?doc))"
    obtain m z where "v = (py_normpath path, m, z)" using v by (auto simp: file_version_def)
    then have "entry_ok (version_key v) (mark_entry path mtime sz now)"
      unfolding entry_ok_def using meta_path_entry by blast
    then show ?thesis
      unfolding r using marks_okD(1) [OF assms(1), of mp] doc_set [of "docs mp"]
      by (auto intro!: marks_ok_upd [OF assms(1)] split: if_splits)
  qed (use assms in auto)
  show "marked kind dd dir st q (snd (record_mark kind stat stat2 now dd dir path docs)) \<longleftrightarrow> marked kind dd dir st q docs \<or>
       fst (record_mark kind stat stat2 now dd dir path docs) \<and> file_version st q = file_version stat path"
    by (rule cases; cases "file_version st q") (simp_all add: marked_iff doc_set version_key_inj)
qed

text \<open>The text before the first bar of a key is its path when the path has no bar.\<close>

lemma selected_entry:
  assumes "entry_ok (version_key (n, m, z)) v"
  shows "n \<in> set ps \<Longrightarrow> mark_selected text_of stat ps (version_key (n, m, z)) v"
    "CHR ''|'' \<notin> set n \<Longrightarrow> \<forall>p \<in> set ps. py_normpath p = p \<Longrightarrow>
      mark_selected text_of stat ps (version_key (n, m, z)) v \<Longrightarrow> n \<in> set ps"
proof -
  have meta: "meta_path text_of v = n" using assms by (auto simp: entry_ok_def version_key_inj)
  then show "n \<in> set ps \<Longrightarrow> mark_selected text_of stat ps (version_key (n, m, z)) v" by (simp add: mark_selected_def Let_def)
  assume n: "CHR ''|'' \<notin> set n" and norm: "\<forall>p \<in> set ps. py_normpath p = p"
    and sel: "mark_selected text_of stat ps (version_key (n, m, z)) v"
  have "fst (py_split1 CHR ''|'' (version_key (n, m, z))) = n" using n by (simp add: version_key.simps py_split1_append)
  moreover have "n = p" if "p \<in> set ps" "path_fingerprint_key stat p = Some (version_key (n, m, z))" for p
    using that norm by (auto simp: fingerprint_version file_version_def version_key_inj)
  moreover have "CHR ''|'' \<in> set (version_key (n, m, z))" by (simp add: version_key.simps)
  ultimately show "n \<in> set ps" using sel meta by (auto simp: mark_selected_def Let_def list_ex_iff)
qed

definition cleared_paths :: "string list \<Rightarrow> string set" where
  "cleared_paths paths = py_normpath ` {p \<in> set paths. p \<noteq> []}"

lemma clear_marks_cases:
  fixes paths :: "string list" and text_of :: "json \<Rightarrow> string" and stat :: stat_fn
  defines "sel \<equiv> mark_selected text_of stat (map py_normpath (filter (\<lambda>p. p \<noteq> []) paths))"
  obtains (none) "clear_marks kind text_of stat w dd dir paths docs = (Inr 0, docs)" "cleared_paths paths = {} \<or> mark_path kind dd dir = None"
  | (some) mp where "mark_path kind dd dir = Some mp"
      "snd (clear_marks kind text_of stat w dd dir paths docs) = docs(mp := snd (es_remove_if w sel (docs mp)))"
proof (cases "filter (\<lambda>p. p \<noteq> []) paths = []")
  case True
  then show ?thesis
    by (intro that(1)) (auto simp: clear_marks_def cleared_paths_def filter_empty_conv)
next
  case False
  then show ?thesis
    using that by (cases "mark_path kind dd dir") (simp_all add: clear_marks_def sel_def Let_def case_prod_unfold)
qed

lemma marks_clear:
  assumes "marks_ok docs"
  shows "marks_ok (snd (clear_marks kind text_of stat w dd dir paths docs))"
    "marked kind dd dir st q (snd (clear_marks kind text_of stat w dd dir paths docs)) \<Longrightarrow>
       marked kind dd dir st q docs \<and> py_normpath q \<notin> cleared_paths paths"
    "CHR ''|'' \<notin> set (py_normpath q) \<Longrightarrow> py_normpath q \<notin> cleared_paths paths \<Longrightarrow>
       marked kind dd dir st q (snd (clear_marks kind text_of stat w dd dir paths docs)) = marked kind dd dir st q docs"
proof -
  let ?ps = "map py_normpath (filter (\<lambda>p. p \<noteq> []) paths)"
  let ?sel = "mark_selected text_of stat ?ps"
  let ?doc = "\<lambda>mp. snd (es_remove_if w ?sel (docs mp))"
  note cases = clear_marks_cases [of kind text_of stat w dd dir paths docs]
  have ps: "set ?ps = cleared_paths paths" "\<forall>p \<in> set ?ps. py_normpath p = p" by (auto simp: cleared_paths_def py_normpath_idem)
  have doc: "doc_ok (?doc mp)" "doc_view (?doc mp) = (\<lambda>k. Option.bind (doc_view (docs mp) k) (\<lambda>v. if ?sel k v then None else Some v))" for mp
    using doc_remove [OF marks_okD(1) [OF assms, of mp], of w ?sel "fst (es_remove_if w ?sel (docs mp))" "?doc mp"] by simp_all
  show "marks_ok (snd (clear_marks kind text_of stat w dd dir paths docs))"
    by (rule cases) (use assms doc in \<open>auto intro!: marks_ok_upd [OF assms] simp: bind_eq_Some_conv split: if_splits\<close>)
  have entry: "doc_view (docs mp) (version_key (py_normpath q, m, z)) = Some v \<Longrightarrow> entry_ok (version_key (py_normpath q, m, z)) v" for mp m z v
    by (rule marks_okD(2) [OF assms])
  show "marked kind dd dir st q docs \<and> py_normpath q \<notin> cleared_paths paths"
    if "marked kind dd dir st q (snd (clear_marks kind text_of stat w dd dir paths docs))"
    using cases
  proof cases
    case none
    with that show ?thesis by (auto simp: marked_iff split: option.splits)
  next
    case (some mp)
    then show ?thesis
      using that selected_entry(1) [OF entry] ps(1)
      by (fastforce simp: marked_iff doc(2) bind_eq_Some_conv file_version_def split: option.splits if_splits)
  qed
  show "marked kind dd dir st q (snd (clear_marks kind text_of stat w dd dir paths docs)) = marked kind dd dir st q docs"
    if "CHR ''|'' \<notin> set (py_normpath q)" "py_normpath q \<notin> cleared_paths paths"
    using cases
  proof cases
    case (some mp)
    then show ?thesis
      using selected_entry(2) [OF entry that(1) ps(2)] that(2) ps(1)
      by (fastforce simp: marked_iff doc(2) bind_eq_Some_conv file_version_def split: option.splits)
  qed simp
qed

section \<open>What every mark module gives\<close>

text \<open>
  The contract of a mark module towards its callers, over runs of its operations: a file is marked at the end
  only if it was at the beginning, or if its version was recorded and not cleared since.
\<close>

datatype mark_op =
    Op_record stat_fn stat_fn rat string
  | Op_clear stat_fn bool "string list"
  | Op_has stat_fn string

definition clears :: "string \<Rightarrow> mark_op \<Rightarrow> bool" where
  "clears q op = (case op of Op_clear stat w paths \<Rightarrow> py_normpath q \<in> cleared_paths paths | _ \<Rightarrow> False)"

locale mark_table =
  fixes enabled :: bool
    and ok :: "'s \<Rightarrow> bool"
    and has :: "stat_fn \<Rightarrow> string \<Rightarrow> 's \<Rightarrow> bool"
    and run_op :: "mark_op \<Rightarrow> 's \<Rightarrow> 's"
  assumes run_ok: "ok s \<Longrightarrow> ok (run_op op s)"
    and has_record: "ok s \<Longrightarrow> has st q (run_op (Op_record stat stat2 now path) s) \<longleftrightarrow> has st q s \<or>
      enabled \<and> stat2 path \<noteq> None \<and> file_version st q \<noteq> None \<and> file_version st q = file_version stat path"
    and has_clear: "ok s \<Longrightarrow> has st q (run_op (Op_clear stat w paths) s) \<Longrightarrow> has st q s \<and> py_normpath q \<notin> cleared_paths paths"
    and has_has: "ok s \<Longrightarrow> has st q (run_op (Op_has stat path) s) = has st q s"
begin

lemma history:
  "ok s \<Longrightarrow> has st q (fold run_op ops s) \<Longrightarrow> has st q s \<and> (\<forall>op \<in> set ops. \<not> clears q op) \<or>
     (\<exists>xs stat stat2 now p ys. ops = xs @ Op_record stat stat2 now p # ys \<and> stat2 p \<noteq> None \<and>
       file_version st q \<noteq> None \<and> file_version st q = file_version stat p \<and> (\<forall>op \<in> set ys. \<not> clears q op))"
proof (induction ops arbitrary: s)
  case (Cons op ops)
  note IH = Cons.IH [OF run_ok [OF Cons.prems(1), of op]] and ok = Cons.prems(1)
  from Cons.prems(2) have "has st q (fold run_op ops (run_op op s))" by simp
  from IH [OF this] consider
      (kept) "has st q (run_op op s)" "\<forall>op \<in> set ops. \<not> clears q op"
    | (later) xs stat stat2 now p ys where "ops = xs @ Op_record stat stat2 now p # ys" "stat2 p \<noteq> None"
        "file_version st q \<noteq> None" "file_version st q = file_version stat p" "\<forall>op \<in> set ys. \<not> clears q op"
    by blast
  then show ?case
  proof cases
    case kept
    show ?thesis
    proof (cases op)
      case (Op_record stat stat2 now p)
      show ?thesis
      proof (cases "has st q s")
        case True
        with kept(2) Op_record show ?thesis by (simp add: clears_def)
      next
        case False
        then have "stat2 p \<noteq> None \<and> file_version st q \<noteq> None \<and> file_version st q = file_version stat p"
          using kept(1) has_record [OF ok] Op_record by blast
        with kept(2) Op_record show ?thesis by (intro disjI2 exI [of _ "[]"]) blast
      qed
    next
      case (Op_clear stat w paths)
      then show ?thesis using kept has_clear [OF ok] by (auto simp: clears_def)
    next
      case (Op_has stat p)
      then show ?thesis using kept has_has [OF ok] by (auto simp: clears_def)
    qed
  next
    case later
    then show ?thesis by (intro disjI2 exI [of _ "op # xs"]) (auto simp: clears_def)
  qed
qed simp

end

definition run_mark_op :: "string \<Rightarrow> (json \<Rightarrow> string) \<Rightarrow> string \<Rightarrow> string option \<Rightarrow> mark_op \<Rightarrow> mark_docs \<Rightarrow> mark_docs" where
  "run_mark_op kind text_of dd dir op docs = (case op of
      Op_record stat stat2 now path \<Rightarrow> snd (record_mark kind stat stat2 now dd dir path docs)
    | Op_clear stat w paths \<Rightarrow> snd (clear_marks kind text_of stat w dd dir paths docs)
    | Op_has stat path \<Rightarrow> snd (has_mark kind stat dd dir path docs))"

lemma record_mark_disabled:
  "mark_path kind dd dir = None \<Longrightarrow> record_mark kind stat stat2 now dd dir path docs = (False, docs)"
  by (simp add: record_mark_def split: option.split)

lemma mark_table_kind: "mark_table (mark_path kind dd dir \<noteq> None) marks_ok (marked kind dd dir) (run_mark_op kind text_of dd dir)"
proof
  fix s op assume "marks_ok s"
  then show "marks_ok (run_mark_op kind text_of dd dir op s)"
    using marks_record(1) [of s kind dd dir] marks_clear(1) marks_ok_has(1) record_mark_disabled [of kind dd dir]
    by (cases op; cases "mark_path kind dd dir") (simp_all add: run_mark_op_def)
next
  fix s st q stat stat2 now path assume ok: "marks_ok s"
  show "marked kind dd dir st q (run_mark_op kind text_of dd dir (Op_record stat stat2 now path) s) \<longleftrightarrow> marked kind dd dir st q s \<or>
      mark_path kind dd dir \<noteq> None \<and> stat2 path \<noteq> None \<and> file_version st q \<noteq> None \<and> file_version st q = file_version stat path"
  proof (cases "mark_path kind dd dir")
    case (Some mp)
    then show ?thesis
      using marks_record(2,3) [OF ok, where kind = kind and dd = dd and dir = dir and path = path and stat = stat and ?stat2.0 = stat2 and now = now]
      by (simp add: run_mark_op_def del: not_None_eq) metis
  qed (simp add: run_mark_op_def record_mark_disabled)
next
  fix s st q stat w paths assume ok: "marks_ok s"
  assume "marked kind dd dir st q (run_mark_op kind text_of dd dir (Op_clear stat w paths) s)"
  then show "marked kind dd dir st q s \<and> py_normpath q \<notin> cleared_paths paths"
    using marks_clear(2) [OF ok, of kind dd dir st q] by (simp add: run_mark_op_def)
next
  fix s st q stat path assume "marks_ok s"
  then show "marked kind dd dir st q (run_mark_op kind text_of dd dir (Op_has stat path) s) = marked kind dd dir st q s"
    by (simp add: run_mark_op_def marks_ok_has(2))
qed

interpretation file_complete: mark_table "mark_path FILE_COMPLETE dd dir \<noteq> None" marks_ok "marked FILE_COMPLETE dd dir"
    "run_mark_op FILE_COMPLETE text_of dd dir" for text_of dd dir
  by (rule mark_table_kind)

interpretation zero_host: mark_table "mark_path ZERO_HOST dd dir \<noteq> None" marks_ok "marked ZERO_HOST dd dir"
    "run_mark_op ZERO_HOST text_of dd dir" for text_of dd dir
  by (rule mark_table_kind)

section \<open>Durability\<close>

lemma persistence_envelope_entries:
  assumes "kind = FILE_COMPLETE \<or> kind = ZERO_HOST"
  shows "persistence_envelope kind (JObj [(''schema_version'', JNum 1), (''entries'', JObj d)]) = Inr (JObj
    [(''schema_version'', JNum 1), (''entries'', JObj d), (''contract_version'', JNum (of_int SYNC_TIMEDB_PERSISTENCE_CONTRACT_VERSION))])"
  using assms
  by (elim disjE) (simp_all add: persistence_envelope_def kind_defs Let_def FILE_COMPLETE_def ZERO_HOST_def dict_setdefault_def jget_def)

lemma envelope_entries_ok:
  assumes "kind = FILE_COMPLETE \<or> kind = ZERO_HOST"
  shows "validate_envelope (JObj [(''schema_version'', JNum 1), (''entries'', JObj d), (''contract_version'', cv)]) kind"
    "unwrap_envelope (JObj e) kind = JObj e" "kind \<noteq> ''job_store_snapshot''"
  using assms
  by (elim disjE; simp add: unwrap_envelope_def validate_envelope_def jget_def kind_defs Let_def FILE_COMPLETE_def
        ZERO_HOST_def expected_schema_version_def persistence_schema_version_ok_def KIND_SCHEMA_VERSION_def py_trunc_def)+

lemma load_saved_entries:
  assumes "kind = FILE_COMPLETE \<or> kind = ZERO_HOST" "path \<noteq> []" "can_write io path" "dict_wf d"
  shows "\<exists>fs1. save_persistence_document io path kind (JObj [(''schema_version'', JNum 1), (''entries'', JObj d)]) True fs = Inr fs1 \<and>
    map_of (load_entries_uncached kind fs1 path) = map_option json_sort_keys \<circ> map_of d \<and> dict_wf (load_entries_uncached kind fs1 path)"
proof -
  let ?e = "[(''schema_version'', JNum 1), (''entries'', JObj d), (''contract_version'', JNum (of_int SYNC_TIMEDB_PERSISTENCE_CONTRACT_VERSION))]"
  let ?fs = "fs(path \<mapsto> Json (json_sort_keys (JObj ?e)))"
  have "save_persistence_document io path kind (JObj [(''schema_version'', JNum 1), (''entries'', JObj d)]) True fs = Inr ?fs"
    using assms(3) by (simp add: save_persistence_document_def persistence_envelope_entries [OF assms(1)] save_json_atomic_def
        del: json_sort_keys.simps)
  moreover have "load_persistence_document ?fs path kind df = json_sort_keys (JObj ?e)" for df
    by (rule load_saved_envelope [OF assms(2)]) (simp_all add: envelope_entries_ok [OF assms(1)])
  then have "load_entries_uncached kind ?fs path = sort_key fst (map (map_prod id json_sort_keys) d)"
    by (simp add: load_entries_uncached_def jget_def)
  moreover have wf: "dict_wf (map (map_prod id json_sort_keys) d)" by (rule dict_wf_map_prod [OF assms(4)])
  moreover have "map_of (map (map_prod id json_sort_keys) d) = map_option json_sort_keys \<circ> map_of d"
    by (induction d) auto
  ultimately show ?thesis using map_of_sort_key [OF wf] dict_wf_sort [THEN iffD2, OF wf] by auto
qed

section \<open>Properties\<close>

text \<open>C27: A recorded mark is found for exactly the version of the file it was made for: the same normalized path, whole
  second and size. Every other file is marked after the call as it was before, and the call reports whether it stored.
\<close>

theorem mark_lookup_exact:
  assumes "marks_ok docs" "mark_path FILE_COMPLETE dd dir \<noteq> None"
    and "record_file_complete_ingest_mark stat stat2 now dd dir path docs = (stored, docs1)"
  shows "(stored \<longleftrightarrow> stat path \<noteq> None \<and> stat2 path \<noteq> None) \<and>
    (fst (has_file_complete_ingest_mark st dd dir q docs1) \<longleftrightarrow> fst (has_file_complete_ingest_mark st dd dir q docs) \<or>
       stored \<and> file_version st q = file_version stat path)"
  using marks_record(2,3) [OF assms(1,2), where stat = stat and ?stat2.0 = stat2 and now = now and path = path] assms(3)
  by (simp add: record_file_complete_ingest_mark_def has_file_complete_ingest_mark_def marked_def file_version_def)

definition demo_stat :: "string \<Rightarrow> rat \<Rightarrow> stat_fn" where
  "demo_stat path mtime p = (if p = path then Some (mtime, 20) else None)"

definition demo_docs :: mark_docs where
  "demo_docs mp = ([], es_new)"

lemma demo_docs_ok: "marks_ok demo_docs"
  by (simp add: marks_ok_def doc_ok_def doc_view_def demo_docs_def em_inv_def ensure_loaded_def es_new_def)

theorem mark_lookup_exact_witness:
  "let docs = snd (record_file_complete_ingest_mark (demo_stat ''/raw/h/1'' (3 / 2)) (demo_stat ''/raw/h/1'' 2) 9 ''/raw'' None ''/raw/h/1'' demo_docs)
   in fst (has_file_complete_ingest_mark (demo_stat ''/raw/h//1'' 1) ''/raw'' None ''/raw/h//1'' docs) \<and>
     \<not> fst (has_file_complete_ingest_mark (demo_stat ''/raw/h/1'' 2) ''/raw'' None ''/raw/h/1'' docs)"
proof -
  let ?r = "record_file_complete_ingest_mark (demo_stat ''/raw/h/1'' (3 / 2)) (demo_stat ''/raw/h/1'' 2) 9 ''/raw'' None ''/raw/h/1'' demo_docs"
  have mp: "mark_path FILE_COMPLETE ''/raw'' None \<noteq> None" by code_simp
  have old: "\<not> fst (has_file_complete_ingest_mark st ''/raw'' None q demo_docs)" for st q
    by (simp add: has_file_complete_ingest_mark_def has_mark_def demo_docs_def es_contains_def ensure_loaded_def es_new_def split: option.split)
  have v: "file_version (demo_stat ''/raw/h//1'' 1) ''/raw/h//1'' = file_version (demo_stat ''/raw/h/1'' (3 / 2)) ''/raw/h/1''"
    "file_version (demo_stat ''/raw/h/1'' 2) ''/raw/h/1'' \<noteq> file_version (demo_stat ''/raw/h/1'' (3 / 2)) ''/raw/h/1''" by code_simp+
  show ?thesis
    using mark_lookup_exact [OF demo_docs_ok mp surjective_pairing [of ?r]] old v by (simp add: Let_def demo_stat_def)
qed

text \<open>Clearing forgets every version of the given files, whatever their state on disk now is and whether or not the sidecar
  can be written, and leaves the marks of all other files, as long as their paths have no bar.
\<close>

theorem clear_marks_exact:
  assumes "marks_ok docs" "clear_file_complete_ingest_marks text_of stat w dd dir paths docs = (r, docs1)"
  shows "(py_normpath q \<in> py_normpath ` {p \<in> set paths. p \<noteq> []} \<longrightarrow> \<not> fst (has_file_complete_ingest_mark st dd dir q docs1)) \<and>
    (py_normpath q \<notin> py_normpath ` {p \<in> set paths. p \<noteq> []} \<and> CHR ''|'' \<notin> set (py_normpath q) \<longrightarrow>
       fst (has_file_complete_ingest_mark st dd dir q docs1) = fst (has_file_complete_ingest_mark st dd dir q docs))"
  using marks_clear(2,3) [OF assms(1), where kind = FILE_COMPLETE and dd = dd and dir = dir and st = st and q = q and
      text_of = text_of and stat = stat and w = w and paths = paths] assms(2)
  by (auto simp: clear_file_complete_ingest_marks_def has_file_complete_ingest_mark_def marked_def cleared_paths_def)

theorem clear_marks_exact_witness:
  "let docs = snd (record_file_complete_ingest_mark (demo_stat ''/raw/h/1'' 1) (demo_stat ''/raw/h/1'' 1) 9 ''/raw'' None ''/raw/h/1'' demo_docs)
   in fst (has_file_complete_ingest_mark (demo_stat ''/raw/h/1'' 1) ''/raw'' None ''/raw/h/1'' docs) \<and>
     \<not> fst (has_file_complete_ingest_mark (demo_stat ''/raw/h/1'' 1) ''/raw'' None ''/raw/h/1''
       (snd (clear_file_complete_ingest_marks (\<lambda>_. []) (demo_stat ''/raw/h/1'' 7) False ''/raw'' None [''/raw/h/./1''] docs)))"
proof -
  let ?docs = "snd (record_file_complete_ingest_mark (demo_stat ''/raw/h/1'' 1) (demo_stat ''/raw/h/1'' 1) 9 ''/raw'' None ''/raw/h/1'' demo_docs)"
  let ?c = "clear_file_complete_ingest_marks (\<lambda>_. []) (demo_stat ''/raw/h/1'' 7) False ''/raw'' None [''/raw/h/./1''] ?docs"
  have mp: "mark_path FILE_COMPLETE ''/raw'' None \<noteq> None" by code_simp
  have ok: "marks_ok ?docs"
    using marks_record(1) [OF demo_docs_ok mp] by (simp add: record_file_complete_ingest_mark_def)
  have "py_normpath ''/raw/h/1'' = py_normpath ''/raw/h/./1''" by code_simp
  then show ?thesis
    using clear_marks_exact [OF ok surjective_pairing [of ?c], of "''/raw/h/1''" "demo_stat ''/raw/h/1'' 1"]
      marks_record(2,3) [OF demo_docs_ok mp, where path = "''/raw/h/1''" and stat = "demo_stat ''/raw/h/1'' 1"]
    by (auto simp: Let_def record_file_complete_ingest_mark_def has_file_complete_ingest_mark_def marked_def demo_stat_def file_version_def)
qed

text \<open>Marks survive a restart: once a write has saved the document, a new process that loads the sidecar finds
  exactly the files marked before.
\<close>

theorem marks_survive_restart:
  assumes "marks_ok docs" "mark_path FILE_COMPLETE dd dir = Some mp" "can_write io mp"
    and "es_write_all True (docs mp) = (Inr (), merged, store)"
  shows "\<exists>fs1. save_persistence_document io mp FILE_COMPLETE (JObj [(''schema_version'', JNum 1), (''entries'', JObj merged)]) True fs = Inr fs1 \<and>
    (\<forall>stat q. fst (has_file_complete_ingest_mark stat dd dir q (docs(mp := (load_entries_uncached FILE_COMPLETE fs1 mp, es_new)))) =
       fst (has_file_complete_ingest_mark stat dd dir q docs))"
proof -
  obtain disk s where d: "docs mp = (disk, s)" by fastforce
  let ?m = "\<lparr>em_store = s, em_disk = disk, em_write = None\<rparr>"
  obtain e s1 where el: "ensure_loaded disk s = (e, s1)" by fastforce
  have inv: "em_inv ?m" using marks_okD(1) [OF assms(1), of mp] by (simp add: doc_ok_def d)
  have wf: "dict_wf disk" "dict_wf (fst (ensure_loaded disk s))" using em_inv_loadedD(1,2) [OF inv] el by auto
  note out = es_write_all_spec(2,3) [OF wf assms(4) [unfolded d]]
  have view: "map_of merged = doc_view (docs mp)"
    using out(1) merged_view_synced [OF inv, of e s1] el by (simp add: doc_view_def d)
  have "mp \<noteq> []"
    using assms(2) by (auto simp: mark_path_def artifact_path_def py_path_join_def Let_def PERSISTENCE_ARTIFACT_REGISTRY_def
        FILE_COMPLETE_def split: if_splits option.splits)
  from load_saved_entries [OF _ this assms(3) out(2), of FILE_COMPLETE fs] obtain fs1 where
    fs1: "save_persistence_document io mp FILE_COMPLETE (JObj [(''schema_version'', JNum 1), (''entries'', JObj merged)]) True fs = Inr fs1"
      "map_of (load_entries_uncached FILE_COMPLETE fs1 mp) = map_option json_sort_keys \<circ> map_of merged"
    by auto
  have new: "doc_view (x, es_new) = map_of x" for x by (simp add: doc_view_def ensure_loaded_def es_new_def)
  have "marked FILE_COMPLETE dd dir stat q (docs(mp := (load_entries_uncached FILE_COMPLETE fs1 mp, es_new))) =
      marked FILE_COMPLETE dd dir stat q docs" for stat q
    using fs1(2) view assms(2) by (simp add: marked_iff new split: option.split)
  with fs1(1) show ?thesis by (auto simp: marked_def has_file_complete_ingest_mark_def)
qed

theorem marks_survive_restart_witness:
  "\<exists>docs merged store fs1. docs = snd (record_file_complete_ingest_mark (demo_stat ''/raw/h/1'' 1) (demo_stat ''/raw/h/1'' 1) 9 ''/raw'' None ''/raw/h/1'' demo_docs) \<and>
     es_write_all True (docs ''/raw/.sync_timedb_file_complete_ingest_mark.json'') = (Inr (), merged, store) \<and>
     save_persistence_document \<lparr>can_write = (\<lambda>_. True), can_unlink = (\<lambda>_. True)\<rparr> ''/raw/.sync_timedb_file_complete_ingest_mark.json'' FILE_COMPLETE
       (JObj [(''schema_version'', JNum 1), (''entries'', JObj merged)]) True (\<lambda>_. None) = Inr fs1 \<and>
     fst (has_file_complete_ingest_mark (demo_stat ''/raw/h/1'' 1) ''/raw'' None ''/raw/h/1''
       (docs(''/raw/.sync_timedb_file_complete_ingest_mark.json'' :=
          (load_entries_uncached FILE_COMPLETE fs1 ''/raw/.sync_timedb_file_complete_ingest_mark.json'', es_new))))"
proof -
  let ?mp = "''/raw/.sync_timedb_file_complete_ingest_mark.json''"
  let ?stat = "demo_stat ''/raw/h/1'' 1"
  let ?docs = "snd (record_file_complete_ingest_mark ?stat ?stat 9 ''/raw'' None ''/raw/h/1'' demo_docs)"
  let ?w = "es_write_all True (?docs ?mp)"
  have mp: "mark_path FILE_COMPLETE ''/raw'' None = Some ?mp" by code_simp
  then have ok: "marks_ok ?docs"
    using marks_record(1) [OF demo_docs_ok, of FILE_COMPLETE "''/raw''" None] by (simp add: record_file_complete_ingest_mark_def)
  have "fst ?w = Inr ()" by code_simp
  then have w: "?w = (Inr (), fst (snd ?w), snd (snd ?w))" by (metis prod.collapse)
  have "fst (has_file_complete_ingest_mark ?stat ''/raw'' None ''/raw/h/1'' ?docs)" by code_simp
  with marks_survive_restart [OF ok mp _ w, of "\<lparr>can_write = (\<lambda>_. True), can_unlink = (\<lambda>_. True)\<rparr>" "\<lambda>_. None"] w
  show ?thesis by (metis (no_types, lifting) io_env.select_convs(1))
qed

text \<open>Finished ingests and clearings, in any order.\<close>

record outcome_call =
  oc_setting :: "bool option"
  oc_ok :: bool
  oc_outcome :: "string option"
  oc_skip :: "string option"
  oc_live :: "bool option"
  oc_stat :: stat_fn
  oc_stat2 :: stat_fn
  oc_now :: rat
  oc_path :: string

datatype mark_event = Finished outcome_call | Cleared stat_fn bool "string list"

definition run_event :: "(json \<Rightarrow> string) \<Rightarrow> string \<Rightarrow> string option \<Rightarrow> mark_event \<Rightarrow> mark_docs \<Rightarrow> mark_docs" where
  "run_event text_of dd dir ev docs = (case ev of
      Finished c \<Rightarrow> snd (maybe_record_file_complete_ingest_mark_from_outcome (oc_setting c) (oc_ok c) (oc_outcome c) (oc_skip c) (oc_live c)
        (oc_stat c) (oc_stat2 c) (oc_now c) dd dir (oc_path c) docs)
    | Cleared stat w paths \<Rightarrow> snd (clear_file_complete_ingest_marks text_of stat w dd dir paths docs))"

definition marks_call :: "outcome_call \<Rightarrow> bool" where
  "marks_call c = marks_file_complete (oc_setting c) (oc_ok c) (oc_outcome c) (oc_skip c) (oc_live c)"

definition event_op :: "mark_event \<Rightarrow> mark_op" where
  "event_op ev = (case ev of
      Finished c \<Rightarrow> if marks_call c then Op_record (oc_stat c) (oc_stat2 c) (oc_now c) (oc_path c)
        else Op_clear (oc_stat c) True []
    | Cleared stat w paths \<Rightarrow> Op_clear stat w paths)"

lemma run_event_op: "run_event text_of dd dir ev = run_mark_op FILE_COMPLETE text_of dd dir (event_op ev)"
  by (auto simp: fun_eq_iff run_event_def event_op_def run_mark_op_def marks_call_def maybe_record_file_complete_ingest_mark_from_outcome_def
      record_file_complete_ingest_mark_def clear_file_complete_ingest_marks_def clear_marks_def split: mark_event.split)

text \<open>C10: What stands behind a mark. After any run of finished ingests and clearings, a file that was not marked before is
  marked only if an ingest of this very version succeeded in the run and the file was not cleared since, and that
  ingest loaded the file, or found every sample of it in the database, or found its head and tail there while
  live ingest was known to be off.
\<close>

theorem mark_needs_proof:
  assumes "marks_ok docs" "\<not> fst (has_file_complete_ingest_mark stat dd dir q docs)"
    and "fst (has_file_complete_ingest_mark stat dd dir q (fold (run_event text_of dd dir) evs docs))"
  shows "\<exists>xs c ys. evs = xs @ Finished c # ys \<and> file_version (oc_stat c) (oc_path c) = file_version stat q \<and> oc_ok c \<and>
    (oc_outcome c = Some ''ingested'' \<or> oc_outcome c = Some ''db_skip'' \<and>
      (oc_skip c \<in> Some ` set full_scan_skips \<or>
       oc_skip c \<in> Some ` set head_tail_skips \<and> (oc_live c = Some False \<or> oc_live c = None \<and> oc_setting c = Some False))) \<and>
    (\<forall>st w paths. Cleared st w paths \<in> set ys \<longrightarrow> py_normpath q \<notin> py_normpath ` {p \<in> set paths. p \<noteq> []})"
proof -
  have "fold (run_event text_of dd dir) evs docs = fold (run_mark_op FILE_COMPLETE text_of dd dir) (map event_op evs) docs"
    by (simp add: run_event_op [abs_def] fold_map comp_def)
  with assms file_complete.history [of docs dd dir stat q text_of "map event_op evs"]
  obtain xs st st2 now p ys where split: "map event_op evs = xs @ Op_record st st2 now p # ys"
    and v: "file_version stat q = file_version st p" and ys: "\<forall>op \<in> set ys. \<not> clears q op"
    by (auto simp: marked_def has_file_complete_ingest_mark_def)
  from split obtain us ev vs where evs: "evs = us @ ev # vs" "event_op ev = Op_record st st2 now p" "map event_op vs = ys"
    by (auto simp: map_eq_append_conv map_eq_Cons_conv)
  then obtain c where c: "ev = Finished c" "marks_call c" "oc_stat c = st" "oc_path c = p"
    by (auto simp: event_op_def split: mark_event.splits if_splits)
  have "py_normpath q \<notin> py_normpath ` {p \<in> set paths. p \<noteq> []}" if "Cleared s w paths \<in> set vs" for s w paths
    using ys evs(3) that by (force simp: clears_def event_op_def cleared_paths_def)
  moreover have "oc_ok c \<and> (oc_outcome c = Some ''ingested'' \<or> oc_outcome c = Some ''db_skip'' \<and>
      (oc_skip c \<in> Some ` set full_scan_skips \<or>
       oc_skip c \<in> Some ` set head_tail_skips \<and> (oc_live c = Some False \<or> oc_live c = None \<and> oc_setting c = Some False)))"
    using c(2) by (cases "oc_outcome c"; cases "oc_skip c")
      (auto simp: marks_call_def marks_file_complete_def text_or_empty_def Let_def full_scan_skips_def head_tail_skips_def
        split: if_splits option.splits)
  ultimately show ?thesis using evs(1) c(1,3,4) v by (intro exI [of _ us] exI [of _ c] exI [of _ vs]) auto
qed

theorem mark_needs_proof_witness:
  "\<exists>xs c ys. [Finished \<lparr>oc_setting = None, oc_ok = True, oc_outcome = Some ''db_skip'', oc_skip = Some ''head_tail'', oc_live = None,
        oc_stat = demo_stat ''/raw/h/1'' 1, oc_stat2 = demo_stat ''/raw/h/1'' 1, oc_now = 8, oc_path = ''/raw/h/1''\<rparr>,
      Finished \<lparr>oc_setting = None, oc_ok = True, oc_outcome = Some ''db_skip'', oc_skip = Some ''full_scan'', oc_live = None,
        oc_stat = demo_stat ''/raw/h/1'' 1, oc_stat2 = demo_stat ''/raw/h/1'' 1, oc_now = 9, oc_path = ''/raw/h/1''\<rparr>] = xs @ Finished c # ys \<and>
     oc_ok c \<and> file_version (oc_stat c) (oc_path c) = Some (''/raw/h/1'', 1, 20)"
proof -
  let ?c = "\<lambda>skip now. Finished \<lparr>oc_setting = None, oc_ok = True, oc_outcome = Some ''db_skip'', oc_skip = Some skip, oc_live = None,
        oc_stat = demo_stat ''/raw/h/1'' 1, oc_stat2 = demo_stat ''/raw/h/1'' 1, oc_now = now, oc_path = ''/raw/h/1''\<rparr>"
  let ?has = "\<lambda>docs. fst (has_file_complete_ingest_mark (demo_stat ''/raw/h/1'' 1) ''/raw'' None ''/raw/h/1'' docs)"
  have n: "\<not> ?has demo_docs" by code_simp
  have h: "?has (fold (run_event (\<lambda>_. []) ''/raw'' None) [?c ''head_tail'' 8, ?c ''full_scan'' 9] demo_docs)" by code_simp
  have v: "file_version (demo_stat ''/raw/h/1'' 1) ''/raw/h/1'' = Some (''/raw/h/1'', 1, 20)" by code_simp
  from mark_needs_proof [OF demo_docs_ok n h] obtain xs c ys where
    "[?c ''head_tail'' 8, ?c ''full_scan'' 9] = xs @ Finished c # ys" "oc_ok c"
    "file_version (oc_stat c) (oc_path c) = Some (''/raw/h/1'', 1, 20)" unfolding v by (elim exE conjE) (rule that)
  then show ?thesis by (intro exI conjI)
qed

end
