(* ===== verification/Ingest_Gate.thy ===== *)
theory Ingest_Gate
  imports Ingest_Marks Reconstruct Sample_Lines
begin

text \<open>
  The gate before a raw file is archived or deleted: \<open>dbload/lib/sync_timedb_ingest_readiness.py\<close> and the lookups of
  \<open>sync_timedb_host_itimes.py\<close>. A closed file passes with an ingest mark, or, while live ingest is off, when
  the seconds of its first and last sample are in the database. Answers are cached with the time of the check.
  The database is, for each host, the times of its rows; times are UTC seconds. Raw files are read as in
  \<open>Sample_Lines\<close>, without carriage returns.
\<close>

section \<open>Caches\<close>

type_synonym ('k, 'v) ttl_cache = "('k, 'v \<times> rat) dict"

definition cached_value :: "rat \<Rightarrow> rat \<Rightarrow> 'k \<Rightarrow> ('k, 'v) ttl_cache \<Rightarrow> 'v option" where
  "cached_value ttl now key c = (case map_of c key of
      None \<Rightarrow> None | Some (v, checked_at) \<Rightarrow> if now - checked_at \<le> ttl then Some v else None)"

definition trim_oldest :: "int \<Rightarrow> nat \<Rightarrow> ('k, 'v) ttl_cache \<Rightarrow> ('k, 'v) ttl_cache" where
  "trim_oldest limit n c =
     (if int (length c) \<le> limit then c
      else fold AList.delete (map fst (take n (sort_key (\<lambda>(k, v, checked_at). checked_at) c))) c)"

section \<open>Seconds in the database\<close>

type_synonym host_rows = "string \<Rightarrow> rat list"

definition second_present :: "host_rows \<Rightarrow> string \<Rightarrow> int \<Rightarrow> bool" where
  "second_present db host sec = list_ex (\<lambda>t. of_int sec \<le> t \<and> t < of_int sec + 1) (db host)"

type_synonym second_cache = "(string \<times> int, bool) ttl_cache"

subsection \<open>Host time windows\<close>

text \<open>
  \<open>_iter_host_itimes_chunk_bounds\<close>. \<open>HOST_ITIMES_SET_OVERFLOW\<close> is \<open>Overflow\<close>; \<open>scan_fails\<close> says which window
  queries raise, and whether the failure is one of a bounded query.
\<close>

definition HOST_ITIMES_CHUNK_SECONDS :: rat where
  "HOST_ITIMES_CHUNK_SECONDS = 24 * 3600"

function chunks_from :: "rat \<Rightarrow> rat \<Rightarrow> (rat \<times> rat) list" where
  "chunks_from cur ts_high =
     (if cur < ts_high then
        let nxt = min (cur + HOST_ITIMES_CHUNK_SECONDS) ts_high in (cur, nxt) # chunks_from nxt ts_high
      else [])"
  by pat_completeness auto
termination
proof (relation "measure (\<lambda>(cur, high). nat \<lceil>(high - cur) / HOST_ITIMES_CHUNK_SECONDS\<rceil>)")
  fix cur high nxt :: rat
  assume less: "cur < high" and nxt: "nxt = min (cur + HOST_ITIMES_CHUNK_SECONDS) high"
  let ?c = HOST_ITIMES_CHUNK_SECONDS
  have c: "0 < ?c" by (simp add: HOST_ITIMES_CHUNK_SECONDS_def)
  have pos: "0 < \<lceil>(high - cur) / ?c\<rceil>" using less c by simp
  have "\<lceil>(high - nxt) / ?c\<rceil> < \<lceil>(high - cur) / ?c\<rceil>"
  proof (cases "cur + ?c \<le> high")
    case True
    then have "(high - nxt) / ?c = (high - cur) / ?c - 1" using c nxt by (simp add: field_simps)
    then show ?thesis by (simp add: ceiling_diff_one)
  next
    case False
    then show ?thesis using pos nxt by simp
  qed
  with pos show "((nxt, high), (cur, high)) \<in> measure (\<lambda>(cur, high). nat \<lceil>(high - cur) / ?c\<rceil>)" by simp
qed simp

declare chunks_from.simps [simp del]

definition iter_host_itimes_chunk_bounds :: "rat \<Rightarrow> rat \<Rightarrow> (rat \<times> rat) list" where
  "iter_host_itimes_chunk_bounds ts_low ts_high =
     (if ts_high - ts_low \<le> HOST_ITIMES_CHUNK_SECONDS then [(ts_low, ts_high)] else chunks_from ts_low ts_high)"

datatype itimes = Overflow | Times "int set"

text \<open>\<open>_collect_distinct_unix_seconds\<close>: the rows of a chunk in the order the query gives them.\<close>

fun collect_seconds :: "int \<Rightarrow> rat list \<Rightarrow> int set \<Rightarrow> itimes" where
  "collect_seconds max_timestamps [] acc = Times acc"
| "collect_seconds max_timestamps (t # ts) acc =
     (let acc1 = insert (py_trunc t) acc in
      if int (card acc1) > max_timestamps then Overflow else collect_seconds max_timestamps ts acc1)"

definition rows_between :: "host_rows \<Rightarrow> string \<Rightarrow> rat \<Rightarrow> rat \<Rightarrow> rat list" where
  "rows_between db host lo hi = remdups (filter (\<lambda>t. lo \<le> t \<and> t < hi) (db host))"

type_synonym scan_errors = "rat \<Rightarrow> rat \<Rightarrow> bool option"

fun collect_chunks :: "scan_errors \<Rightarrow> host_rows \<Rightarrow> int \<Rightarrow> string \<Rightarrow> (rat \<times> rat) list \<Rightarrow> int set \<Rightarrow> py_error + itimes" where
  "collect_chunks scan_fails db max_timestamps host [] acc = Inr (Times acc)"
| "collect_chunks scan_fails db max_timestamps host ((lo, hi) # chunks) acc =
     (case scan_fails lo hi of
        Some bounded \<Rightarrow> if bounded then Inr Overflow else Inl RuntimeError
      | None \<Rightarrow> (case collect_seconds max_timestamps (rows_between db host lo hi) acc of
          Overflow \<Rightarrow> Inr Overflow
        | Times acc1 \<Rightarrow> collect_chunks scan_fails db max_timestamps host chunks acc1))"

type_synonym window_cache = "(string \<times> int \<times> int, int set) ttl_cache"

definition store_window :: "int \<Rightarrow> rat \<Rightarrow> string \<times> int \<times> int \<Rightarrow> int set \<Rightarrow> window_cache \<Rightarrow> window_cache" where
  "store_window max_timestamps now key found c =
     trim_oldest 2000 100 (if int (card found) \<le> max_timestamps then AList.update key (found, now) c else c)"

definition host_recent_timestamps_cached ::
    "scan_errors \<Rightarrow> host_rows \<Rightarrow> int \<Rightarrow> rat \<Rightarrow> string \<Rightarrow> rat \<Rightarrow> rat \<Rightarrow> window_cache \<Rightarrow> (py_error + itimes) \<times> window_cache" where
  "host_recent_timestamps_cached scan_fails db max_timestamps now host ts_low ts_high c =
     (let key = (host, py_trunc ts_low, py_trunc ts_high) in
      case cached_value 20 now key c of
        Some found \<Rightarrow> (Inr (Times found), c)
      | None \<Rightarrow>
          (case collect_chunks scan_fails db max_timestamps host (iter_host_itimes_chunk_bounds ts_low ts_high) {} of
             Inl e \<Rightarrow> (Inl e, c)
           | Inr Overflow \<Rightarrow> (Inr Overflow, c)
           | Inr (Times found) \<Rightarrow> (Inr (Times found), store_window max_timestamps now key found c)))"

subsection \<open>Single seconds\<close>

definition trim_seconds :: "second_cache \<Rightarrow> second_cache" where
  "trim_seconds c = trim_oldest 50000 1000 c"

definition host_timestamp_second_present_in_db ::
    "host_rows \<Rightarrow> rat \<Rightarrow> string \<Rightarrow> int \<Rightarrow> second_cache \<Rightarrow> bool \<times> second_cache" where
  "host_timestamp_second_present_in_db db now host unix_second c =
     (let key = (py_strip host, unix_second) in
      case cached_value 60 now key c of
        Some present \<Rightarrow> (present, c)
      | None \<Rightarrow> (let present = second_present db (fst key) unix_second in
          (present, trim_seconds (AList.update key (present, now) c))))"

text \<open>
  \<open>host_timestamp_seconds_present_batch\<close>: the distinct pairs, the fresh answers of the cache, and one query for the others,
  which returns a row for each probe.
\<close>

definition batch_normalized :: "(string \<times> int) list \<Rightarrow> (string \<times> int) list" where
  "batch_normalized pairs = rev (remdups (rev (map (\<lambda>(host, sec). (py_strip host, sec)) pairs)))"

definition batch_row :: "host_rows \<Rightarrow> rat \<Rightarrow> string \<times> int \<Rightarrow>
    (string \<times> int, bool) dict \<times> second_cache \<Rightarrow> (string \<times> int, bool) dict \<times> second_cache" where
  "batch_row db now probe oc =
     (let present = second_present db (fst probe) (snd probe); key = (py_strip (fst probe), snd probe) in
      (AList.update key present (fst oc), trim_seconds (AList.update key (present, now) (snd oc))))"

definition host_timestamp_seconds_present_batch ::
    "host_rows \<Rightarrow> rat \<Rightarrow> (string \<times> int) list \<Rightarrow> second_cache \<Rightarrow> (string \<times> int, bool) dict \<times> second_cache" where
  "host_timestamp_seconds_present_batch db now pairs c =
     (let normalized = batch_normalized pairs;
          hits = filter (\<lambda>key. cached_value 60 now key c \<noteq> None) normalized;
          pending = filter (\<lambda>key. cached_value 60 now key c = None) normalized;
          out = map (\<lambda>key. (key, the (cached_value 60 now key c))) hits in
      if normalized = [] then ([], c) else if pending = [] then (out, c) else fold (batch_row db now) pending (out, c))"

subsection \<open>All seconds of a host\<close>

record itimes_caches =
  ic_windows :: window_cache
  ic_seconds :: second_cache

definition host_sampled_timestamp_seconds_all_present ::
    "scan_errors \<Rightarrow> host_rows \<Rightarrow> int \<Rightarrow> rat \<Rightarrow> string \<Rightarrow> int list \<Rightarrow> itimes_caches \<Rightarrow> (py_error + bool) \<times> itimes_caches" where
  "host_sampled_timestamp_seconds_all_present scan_fails db max_timestamps now host unix_seconds c =
     (if unix_seconds = [] then (Inr False, c)
      else let host_key = py_strip host; ts_low = of_int (Min (set unix_seconds)); ts_high = of_int (Max (set unix_seconds)) + 1 in
        case host_recent_timestamps_cached scan_fails db max_timestamps now host_key ts_low ts_high (ic_windows c) of
          (Inl e, w) \<Rightarrow> (Inl e, c\<lparr>ic_windows := w\<rparr>)
        | (Inr (Times found), w) \<Rightarrow> (Inr (list_all (\<lambda>u. u \<in> found) unix_seconds), c\<lparr>ic_windows := w\<rparr>)
        | (Inr Overflow, w) \<Rightarrow>
            (case host_timestamp_seconds_present_batch db now (map (\<lambda>u. (host_key, u)) (remdups unix_seconds)) (ic_seconds c) of
               (batch, sc) \<Rightarrow> (Inr (list_all (\<lambda>u. map_of batch (host_key, u) = Some True) unix_seconds),
                  c\<lparr>ic_windows := w, ic_seconds := sc\<rparr>)))"

section \<open>Head and tail of a file\<close>

text \<open>\<open>datetime.fromtimestamp(s, tz=UTC)\<close> has the years 1 to 9999.\<close>

definition utc_second :: "int \<Rightarrow> py_error + int" where
  "utc_second s = (if -62135596800 \<le> s \<and> s \<le> 253402300799 then Inr s else Inl ValueError)"

definition identity_of_header :: "(string \<times> string \<times> string) option \<Rightarrow> py_error + (string \<times> int) option" where
  "identity_of_header header = (case header of
      None \<Rightarrow> Inr None
    | Some (t, jid, host) \<Rightarrow>
        if host = [] then Inr None
        else (case py_float_text t of
            None \<Rightarrow> Inl ValueError
          | Some x \<Rightarrow> (case int_of_num x of
              Inl e \<Rightarrow> Inl e
            | Inr n \<Rightarrow> map_sum id (\<lambda>sec. Some (py_strip host, sec)) (utc_second n))))"

text \<open>The lines up to and with the first one that starts with a digit; a file that cannot be read or locked has no identity.\<close>

fun head_lines :: "string list \<Rightarrow> string list" where
  "head_lines [] = []"
| "head_lines (l # ls) = (if digit_line l \<noteq> None then [l] else l # head_lines ls)"

definition read_stats_file_head_identity :: "string option \<Rightarrow> py_error + (string \<times> int) option" where
  "read_stats_file_head_identity content = (case content of
      None \<Rightarrow> Inr None
    | Some text \<Rightarrow> identity_of_header (parse_first_timestamp_line (head_lines (file_lines text))))"

definition read_stats_file_tail_identity :: "string option \<Rightarrow> nat \<Rightarrow> py_error + (string \<times> int) option" where
  "read_stats_file_tail_identity content tail_read_bytes =
     identity_of_header (parse_last_timestamp_line_streaming content tail_read_bytes)"

section \<open>The gate\<close>

text \<open>
  What one call sees: the settings (the live-ingest switch is \<open>None\<close> when it cannot be read), the files, the marks, the database.
\<close>

record gate_env =
  ge_required :: bool
  ge_live :: "bool option"
  ge_archive_dir :: string
  ge_stat :: stat_fn
  ge_files :: file_env
  ge_content :: "string \<Rightarrow> string option"
  ge_tail_bytes :: nat
  ge_docs :: mark_docs
  ge_db :: host_rows
  ge_scan_fails :: scan_errors
  ge_max_timestamps :: int

record gate_state =
  gs_heads :: second_cache
  gs_paths :: "(string \<times> int \<times> int, bool) ttl_cache"
  gs_itimes :: itimes_caches

definition gate_empty :: gate_state where
  "gate_empty = \<lparr>gs_heads = [], gs_paths = [], gs_itimes = \<lparr>ic_windows = [], ic_seconds = []\<rparr>\<rparr>"

definition reset_sync_ingest_readiness_caches :: "gate_state \<Rightarrow> gate_state" where
  "reset_sync_ingest_readiness_caches st = st\<lparr>gs_heads := [], gs_paths := []\<rparr>"

definition reset_host_itimes_caches :: "gate_state \<Rightarrow> gate_state" where
  "reset_host_itimes_caches st = st\<lparr>gs_itimes := \<lparr>ic_windows = [], ic_seconds = []\<rparr>\<rparr>"

definition path_ingest_ready_fingerprint :: "stat_fn \<Rightarrow> string \<Rightarrow> (string \<times> int \<times> int) option" where
  "path_ingest_ready_fingerprint stat path = map_option (\<lambda>(mtime, sz). (path, py_trunc mtime, sz)) (stat path)"

definition trim_head_db_cache :: "second_cache \<Rightarrow> second_cache" where
  "trim_head_db_cache c = trim_oldest 20000 1000 c"

definition trim_path_ready_cache :: "(string \<times> int \<times> int, bool) ttl_cache \<Rightarrow> (string \<times> int \<times> int, bool) ttl_cache" where
  "trim_path_ready_cache c = trim_oldest 20000 1000 c"

definition head_timestamp_present_in_db :: "host_rows \<Rightarrow> rat \<Rightarrow> string \<Rightarrow> int \<Rightarrow> second_cache \<Rightarrow> bool \<times> second_cache" where
  "head_timestamp_present_in_db db now host ts_sec c =
     (case cached_value 60 now (host, ts_sec) c of
        Some present \<Rightarrow> (present, c)
      | None \<Rightarrow> (let present = second_present db host ts_sec in
          (present, trim_head_db_cache (AList.update (host, ts_sec) (present, now) c))))"

definition path_head_tail_ready_in_db :: "gate_env \<Rightarrow> rat \<Rightarrow> string \<Rightarrow> second_cache \<Rightarrow> (py_error + bool) \<times> second_cache" where
  "path_head_tail_ready_in_db env now path c =
     (case read_stats_file_head_identity (ge_content env path) of
        Inl e \<Rightarrow> (Inl e, c)
      | Inr None \<Rightarrow> (Inr False, c)
      | Inr (Some (head_host, head_sec)) \<Rightarrow>
          (case head_timestamp_present_in_db (ge_db env) now head_host head_sec c of (head_in_db, c1) \<Rightarrow>
           if \<not> head_in_db then (Inr False, c1)
           else (case read_stats_file_tail_identity (ge_content env path) (ge_tail_bytes env) of
              Inl e \<Rightarrow> (Inl e, c1)
            | Inr None \<Rightarrow> (Inr False, c1)
            | Inr (Some (tail_host, tail_sec)) \<Rightarrow>
                if head_host = tail_host \<and> head_sec = tail_sec then (Inr True, c1)
                else (case head_timestamp_present_in_db (ge_db env) now tail_host tail_sec c1 of (b, c2) \<Rightarrow> (Inr b, c2)))))"

definition path_ready_via_zero_host_mark :: "gate_env \<Rightarrow> string \<Rightarrow> bool" where
  "path_ready_via_zero_host_mark env path =
     fst (has_zero_host_ingest_mark (ge_stat env) (ge_archive_dir env) None path (ge_docs env))"

definition path_ready_via_file_complete_mark :: "gate_env \<Rightarrow> string \<Rightarrow> bool" where
  "path_ready_via_file_complete_mark env path =
     fst (has_file_complete_ingest_mark (ge_stat env) (ge_archive_dir env) None path (ge_docs env))"

definition live_db_ingest_enabled :: "gate_env \<Rightarrow> bool" where
  "live_db_ingest_enabled env = (case ge_live env of Some b \<Rightarrow> b | None \<Rightarrow> False)"

definition path_ready :: "gate_env \<Rightarrow> rat \<Rightarrow> string \<Rightarrow> second_cache \<Rightarrow> (py_error + bool) \<times> second_cache" where
  "path_ready env now path c =
     (if stats_file_is_active_segment (ge_files env) path then (Inr False, c)
      else if path_ready_via_file_complete_mark env path \<or> path_ready_via_zero_host_mark env path then (Inr True, c)
      else if \<not> live_db_ingest_enabled env then path_head_tail_ready_in_db env now path c
      else (Inr False, c))"

definition stats_file_head_ingested_in_db :: "gate_env \<Rightarrow> rat \<Rightarrow> string \<Rightarrow> gate_state \<Rightarrow> (py_error + bool) \<times> gate_state" where
  "stats_file_head_ingested_in_db env now path st =
     (if \<not> ge_required env then (Inr True, st)
      else (case path_ingest_ready_fingerprint (ge_stat env) path of
          None \<Rightarrow> (Inr False, st)
        | Some fp \<Rightarrow> (case cached_value 60 now fp (gs_paths st) of
            Some ready \<Rightarrow> (Inr ready, st)
          | None \<Rightarrow> (case path_ready env now path (gs_heads st) of
              (Inl e, heads) \<Rightarrow> (Inl e, st\<lparr>gs_heads := heads\<rparr>)
            | (Inr ready, heads) \<Rightarrow> (Inr ready, st\<lparr>gs_heads := heads,
                gs_paths := trim_path_ready_cache (AList.update fp (ready, now) (gs_paths st))\<rparr>)))))"

subsection \<open>Many files\<close>

text \<open>The seconds to look for, by file and host; a file needs both its first and its last sample.\<close>

type_synonym host_seconds = "(string, int list) dict"
type_synonym path_identity = "string option \<times> int option"

definition add_second :: "string \<Rightarrow> int \<Rightarrow> host_seconds \<Rightarrow> host_seconds" where
  "add_second host sec by_host =
     AList.update host (List.insert sec (case map_of by_host host of None \<Rightarrow> [] | Some secs \<Rightarrow> secs)) by_host"

definition head_tail_identity_as_gate_identities ::
    "(string, path_identity) dict \<Rightarrow> (string, path_identity) dict \<Rightarrow> (string, host_seconds) dict" where
  "head_tail_identity_as_gate_identities head_by_path tail_by_path =
     fold (\<lambda>(path, head) gate. case head of
         (Some head_host, Some head_sec) \<Rightarrow> (case map_of tail_by_path path of
             Some (Some tail_host, Some tail_sec) \<Rightarrow>
               AList.update path (add_second (py_strip tail_host) tail_sec (add_second (py_strip head_host) head_sec [])) gate
           | _ \<Rightarrow> gate)
       | _ \<Rightarrow> gate) head_by_path []"

definition gate_identities_ready_in_db :: "host_rows \<Rightarrow> rat \<Rightarrow> host_seconds \<Rightarrow> second_cache \<Rightarrow> bool \<times> second_cache" where
  "gate_identities_ready_in_db db now gate_by_host c =
     (let pairs = concat (map (\<lambda>(host, secs). map (\<lambda>sec. (py_strip host, sec)) secs) gate_by_host) in
      if pairs = [] then (False, c)
      else (case host_timestamp_seconds_present_batch db now pairs c of
          (present, c1) \<Rightarrow> (list_all (\<lambda>p. map_of present p = Some True) pairs, c1)))"

text \<open>The hosts are asked one after the other, each for the seconds of all files; an error of a query is raised.\<close>

definition sampled_paths :: "gate_env \<Rightarrow> string list \<Rightarrow> (string, host_seconds) dict \<Rightarrow> (string, host_seconds) dict" where
  "sampled_paths env closed_paths gate =
     fold (\<lambda>path acc. if stats_file_is_active_segment (ge_files env) path then acc
        else (case map_of gate path of
            None \<Rightarrow> acc | Some sampled \<Rightarrow> if sampled = [] then acc else AList.update path sampled acc)) closed_paths []"

definition seconds_by_host :: "(string, host_seconds) dict \<Rightarrow> host_seconds" where
  "seconds_by_host path_samples =
     fold (\<lambda>(host, secs) acc. fold (add_second host) secs (AList.update host (case map_of acc host of None \<Rightarrow> [] | Some s \<Rightarrow> s) acc))
       (concat (map snd path_samples)) []"

fun hosts_ok :: "gate_env \<Rightarrow> rat \<Rightarrow> host_seconds \<Rightarrow> itimes_caches \<Rightarrow> (py_error + (string, bool) dict) \<times> itimes_caches" where
  "hosts_ok env now [] c = (Inr [], c)"
| "hosts_ok env now ((host, secs) # rest) c =
     (case host_sampled_timestamp_seconds_all_present (ge_scan_fails env) (ge_db env) (ge_max_timestamps env) now host secs c of
        (Inl e, c1) \<Rightarrow> (Inl e, c1)
      | (Inr b, c1) \<Rightarrow> (case hosts_ok env now rest c1 of
          (Inl e, c2) \<Rightarrow> (Inl e, c2)
        | (Inr oks, c2) \<Rightarrow> (Inr ((host, b) # oks), c2)))"

definition marked_or_in :: "gate_env \<Rightarrow> string set \<Rightarrow> string \<Rightarrow> bool" where
  "marked_or_in env ready path = (path \<in> ready \<or> \<not> stats_file_is_active_segment (ge_files env) path \<and>
     (path_ready_via_file_complete_mark env path \<or> path_ready_via_zero_host_mark env path))"

definition build_head_ingest_ready_set ::
    "gate_env \<Rightarrow> rat \<Rightarrow> string list \<Rightarrow> (string, host_seconds) dict \<Rightarrow> gate_state \<Rightarrow> (py_error + string set) \<times> gate_state" where
  "build_head_ingest_ready_set env now closed_paths gate st =
     (if \<not> ge_required env then (Inr (set closed_paths), st)
      else if live_db_ingest_enabled env then (Inr (set (filter (marked_or_in env {}) closed_paths)), st)
      else let samples = sampled_paths env closed_paths gate in
        (case hosts_ok env now (seconds_by_host samples) (gs_itimes st) of
           (Inl e, c) \<Rightarrow> (Inl e, st\<lparr>gs_itimes := c\<rparr>)
         | (Inr oks, c) \<Rightarrow>
             (let ready = set (map fst (filter (\<lambda>(path, sampled). list_all (\<lambda>(host, secs). map_of oks host = Some True) sampled) samples)) in
              (Inr (ready \<union> set (filter (marked_or_in env ready) closed_paths)), st\<lparr>gs_itimes := c\<rparr>))))"

text \<open>The ready and the other files, each in the given order. Without identities the files are asked one by one.\<close>

fun split_ready :: "gate_env \<Rightarrow> rat \<Rightarrow> string list \<Rightarrow> gate_state \<Rightarrow> (py_error + string list \<times> string list) \<times> gate_state" where
  "split_ready env now [] st = (Inr ([], []), st)"
| "split_ready env now (p # ps) st =
     (case stats_file_head_ingested_in_db env now p st of
        (Inl e, st1) \<Rightarrow> (Inl e, st1)
      | (Inr b, st1) \<Rightarrow> (case split_ready env now ps st1 of
          (Inl e, st2) \<Rightarrow> (Inl e, st2)
        | (Inr (ready, skipped), st2) \<Rightarrow> (Inr (if b then (p # ready, skipped) else (ready, p # skipped)), st2)))"

definition filter_paths_head_ingested ::
    "gate_env \<Rightarrow> rat \<Rightarrow> string list \<Rightarrow> (string, host_seconds) dict option \<Rightarrow> (string, host_seconds) dict option \<Rightarrow> gate_state \<Rightarrow>
     (py_error + string list \<times> string list) \<times> gate_state" where
  "filter_paths_head_ingested env now paths gate sampled st =
     (case (case gate of None \<Rightarrow> sampled | Some g \<Rightarrow> Some g) of
        Some g \<Rightarrow> (case build_head_ingest_ready_set env now paths g st of
            (Inl e, st1) \<Rightarrow> (Inl e, st1)
          | (Inr ready, st1) \<Rightarrow> (Inr (filter (\<lambda>p. p \<in> ready) paths, filter (\<lambda>p. p \<notin> ready) paths), st1))
      | None \<Rightarrow> split_ready env now paths st)"

section \<open>The window scan and the single probes agree\<close>

lemma chunks_cover: "(\<exists>(lo, hi) \<in> set (chunks_from cur high). lo \<le> t \<and> t < hi) \<longleftrightarrow> cur \<le> t \<and> t < high"
proof (induction cur high rule: chunks_from.induct)
  case (1 cur high)
  show ?case
  proof (cases "cur < high")
    case True
    let ?n = "min (cur + HOST_ITIMES_CHUNK_SECONDS) high"
    have "(\<exists>(lo, hi) \<in> set (chunks_from ?n high). lo \<le> t \<and> t < hi) \<longleftrightarrow> ?n \<le> t \<and> t < high"
      using "1.IH" [OF True refl] .
    moreover have "cur < ?n" "?n \<le> high" using True by (simp_all add: HOST_ITIMES_CHUNK_SECONDS_def)
    ultimately show ?thesis by (subst chunks_from.simps) (auto simp: True Let_def simp del: min_less_iff_disj min_le_iff_disj)
  next
    case False
    then show ?thesis by (subst chunks_from.simps) auto
  qed
qed

text \<open>The windows of a scan are at most a day long, do not overlap, and together are the whole window.\<close>

lemma chunk_bounds_cover:
  "(\<exists>(lo, hi) \<in> set (iter_host_itimes_chunk_bounds low high). lo \<le> t \<and> t < hi) \<longleftrightarrow> low \<le> t \<and> t < high"
  by (simp add: iter_host_itimes_chunk_bounds_def chunks_cover)

lemma collect_seconds_Times:
  "collect_seconds m ts acc = Times r \<Longrightarrow> r = acc \<union> py_trunc ` set ts"
  by (induction ts arbitrary: acc) (auto simp: Let_def split: if_splits)

lemma collect_chunks_Times:
  "collect_chunks fails db m host chunks acc = Inr (Times r) \<Longrightarrow>
    r = acc \<union> py_trunc ` {t \<in> set (db host). \<exists>(lo, hi) \<in> set chunks. lo \<le> t \<and> t < hi}"
proof (induction chunks arbitrary: acc)
  case (Cons ch chunks)
  obtain lo hi where ch: "ch = (lo, hi)" by fastforce
  with Cons.prems obtain acc1 where acc1: "collect_seconds m (rows_between db host lo hi) acc = Times acc1"
    "collect_chunks fails db m host chunks acc1 = Inr (Times r)"
    by (auto split: option.splits if_splits itimes.splits)
  have "acc1 = acc \<union> py_trunc ` {t \<in> set (db host). lo \<le> t \<and> t < hi}"
    using collect_seconds_Times [OF acc1(1)] by (auto simp: rows_between_def)
  with Cons.IH [OF acc1(2)] show ?case by (auto simp: ch)
qed simp

lemma trunc_second: "0 \<le> sec \<Longrightarrow> of_int sec \<le> t \<Longrightarrow> py_trunc t = sec \<longleftrightarrow> t < of_int sec + 1"
  for t :: rat
  unfolding py_trunc_def by (auto simp: floor_eq_iff)

lemma window_seconds:
  assumes "0 \<le> lo" "lo \<le> u" "u \<le> hi"
  shows "u \<in> py_trunc ` {t \<in> set (db host). of_int lo \<le> t \<and> t < of_int hi + 1} \<longleftrightarrow> second_present db host u"
proof
  assume "u \<in> py_trunc ` {t \<in> set (db host). of_int lo \<le> t \<and> t < of_int hi + 1}"
  then obtain t where t: "t \<in> set (db host)" "of_int lo \<le> t" "py_trunc t = u" by auto
  then have "0 \<le> t" using assms(1) by (meson of_int_0_le_iff order_trans)
  then have "of_int u \<le> t" "t < of_int u + 1" using t(3) by (simp_all add: py_trunc_def) linarith+
  then show "second_present db host u" using t(1) by (auto simp: second_present_def list_ex_iff)
next
  assume "second_present db host u"
  then obtain t where t: "t \<in> set (db host)" "of_int u \<le> t" "t < of_int u + 1" by (auto simp: second_present_def list_ex_iff)
  have "of_int lo \<le> t" "t < of_int hi + 1" using t(2,3) assms(2,3) by (simp_all add: of_int_le_iff [symmetric, where 'a = rat] del: of_int_le_iff)
  moreover have "py_trunc t = u" using trunc_second [of u t] t assms by simp
  ultimately show "u \<in> py_trunc ` {t \<in> set (db host). of_int lo \<le> t \<and> t < of_int hi + 1}" using t(1) by (intro image_eqI [of _ _ t]) auto
qed

section \<open>What a cache answers\<close>

text \<open>
  The contract of the caches: an answer was stored with the time of its check, and dropping the oldest entries
  loses answers but makes none up. \<open>P\<close> is what is known of an answer and its time.
\<close>

definition cache_all :: "('k \<Rightarrow> 'v \<Rightarrow> rat \<Rightarrow> bool) \<Rightarrow> ('k, 'v) ttl_cache \<Rightarrow> bool" where
  "cache_all P c = (\<forall>k v checked_at. map_of c k = Some (v, checked_at) \<longrightarrow> P k v checked_at)"

lemma cached_valueD: "cached_value ttl now k c = Some v \<Longrightarrow> cache_all P c \<Longrightarrow> \<exists>checked_at. now - checked_at \<le> ttl \<and> P k v checked_at"
  by (auto simp: cached_value_def cache_all_def split: option.splits if_splits)

lemma cache_all_Nil [simp]: "cache_all P []"
  by (simp add: cache_all_def)

lemma cache_all_mono: "cache_all P c \<Longrightarrow> (\<And>k v t. P k v t \<Longrightarrow> Q k v t) \<Longrightarrow> cache_all Q c"
  by (auto simp: cache_all_def)

locale ttl_cache =
  fixes keep :: "('k, 'v) ttl_cache \<Rightarrow> ('k, 'v) ttl_cache"
  assumes keep_sub: "map_of (keep c) k = Some x \<Longrightarrow> map_of c k = Some x"
begin

lemma keep_all: "cache_all P c \<Longrightarrow> cache_all P (keep c)"
  by (auto simp: cache_all_def dest: keep_sub)

lemma store_all: "cache_all P c \<Longrightarrow> P k v now \<Longrightarrow> cache_all P (keep (AList.update k (v, now) c))"
  by (rule keep_all) (auto simp: cache_all_def AList.update_conv' split: if_splits)

end

lemma fold_delete_sub: "map_of (fold AList.delete ks c) k = Some x \<Longrightarrow> map_of c k = Some x"
proof (induction ks arbitrary: c)
  case (Cons a ks)
  then have "map_of (AList.delete a c) k = Some x" by simp
  then show ?case by (simp add: AList.delete_conv' split: if_splits)
qed simp

lemma trim_oldest_sub: "map_of (trim_oldest limit n c) k = Some x \<Longrightarrow> map_of c k = Some x"
  unfolding trim_oldest_def by (cases "int (length c) \<le> limit") (simp, simp, erule fold_delete_sub)

interpretation heads: ttl_cache trim_head_db_cache
  by unfold_locales (unfold trim_head_db_cache_def, erule trim_oldest_sub)

interpretation paths: ttl_cache trim_path_ready_cache
  by unfold_locales (unfold trim_path_ready_cache_def, erule trim_oldest_sub)

interpretation seconds: ttl_cache trim_seconds
  by unfold_locales (unfold trim_seconds_def, erule trim_oldest_sub)

interpretation windows: ttl_cache "trim_oldest 2000 100 :: window_cache \<Rightarrow> window_cache"
  by unfold_locales (erule trim_oldest_sub)

section \<open>Seconds found are in the database\<close>

definition second_known :: "host_rows \<Rightarrow> string \<times> int \<Rightarrow> bool \<Rightarrow> rat \<Rightarrow> bool" where
  "second_known db p b t = (b \<longrightarrow> second_present db (fst p) (snd p))"

definition window_known :: "host_rows \<Rightarrow> string \<times> int \<times> int \<Rightarrow> int set \<Rightarrow> rat \<Rightarrow> bool" where
  "window_known db w found t = (case w of (h, lo, hi) \<Rightarrow>
     0 \<le> lo \<longrightarrow> (\<forall>u \<in> found. lo \<le> u \<and> u < hi \<longrightarrow> second_present db h u))"

definition caches_sound :: "host_rows \<Rightarrow> itimes_caches \<Rightarrow> bool" where
  "caches_sound db c = (cache_all (second_known db) (ic_seconds c) \<and> cache_all (window_known db) (ic_windows c))"

lemma py_strip_idem: "py_strip (py_strip s) = py_strip s"
proof -
  define s1 where "s1 = dropWhile py_isspace s"
  define s2 where "s2 = rev (dropWhile py_isspace (rev s1))"
  have "s1 = s2 @ rev (takeWhile py_isspace (rev s1))"
    unfolding s2_def by (metis rev_append rev_rev_ident takeWhile_dropWhile_id)
  then have "s2 \<noteq> [] \<Longrightarrow> hd s2 = hd s1" by (metis hd_append2)
  moreover have "s1 \<noteq> [] \<Longrightarrow> \<not> py_isspace (hd s1)" unfolding s1_def by (rule hd_dropWhile)
  moreover have "s2 \<noteq> [] \<Longrightarrow> s1 \<noteq> []" by (auto simp: s2_def)
  ultimately have "dropWhile py_isspace s2 = s2" by (cases s2) auto
  then show ?thesis by (simp add: py_strip_def s1_def [symmetric] s2_def [symmetric]) (simp add: s2_def)
qed

lemma batch_row_lookup:
  "py_strip (fst probe) = fst probe \<Longrightarrow> map_of (fst (batch_row db now probe oc)) = (map_of (fst oc))(probe \<mapsto> second_present db (fst probe) (snd probe))"
  by (simp add: batch_row_def Let_def AList.update_conv')

lemma batch_rows:
  "\<forall>p \<in> set pending. py_strip (fst p) = fst p \<Longrightarrow>
    map_of (fst (fold (batch_row db now) pending oc)) = (\<lambda>p. if p \<in> set pending then Some (second_present db (fst p) (snd p)) else map_of (fst oc) p)"
  by (induction pending arbitrary: oc) (auto simp: batch_row_lookup fun_eq_iff)

lemma batch_rows_sound:
  assumes "\<forall>p \<in> set pending. py_strip (fst p) = fst p" "cache_all (second_known db) (snd oc)"
  shows "cache_all (second_known db) (snd (fold (batch_row db now) pending oc))"
  using assms
proof (induction pending arbitrary: oc)
  case (Cons p ps)
  have "cache_all (second_known db) (snd (batch_row db now p oc))"
    unfolding batch_row_def Let_def snd_conv
    by (intro seconds.store_all Cons.prems(2)) (use Cons.prems(1) in \<open>simp add: second_known_def\<close>)
  then show ?case using Cons by simp
qed simp

definition second_answer :: "host_rows \<Rightarrow> rat \<Rightarrow> second_cache \<Rightarrow> string \<times> int \<Rightarrow> bool" where
  "second_answer db now c p = (case cached_value 60 now p c of Some b \<Rightarrow> b | None \<Rightarrow> second_present db (fst p) (snd p))"

lemma batch_answers:
  assumes "\<forall>p \<in> set pairs. py_strip (fst p) = fst p" "p \<in> set pairs"
  shows "map_of (fst (host_timestamp_seconds_present_batch db now pairs c)) p = Some (second_answer db now c p)"
proof -
  let ?n = "batch_normalized pairs"
  let ?hits = "filter (\<lambda>key. cached_value 60 now key c \<noteq> None) ?n"
  let ?pending = "filter (\<lambda>key. cached_value 60 now key c = None) ?n"
  have n: "set ?n = set pairs"
    unfolding batch_normalized_def set_rev set_remdups set_map using assms(1) by (force simp: image_iff case_prod_unfold)
  have out: "map_of (map (\<lambda>key. (key, the (cached_value 60 now key c))) ?hits) p =
      (if p \<in> set ?hits then Some (the (cached_value 60 now p c)) else None)"
    by (simp add: map_of_map_restrict restrict_map_def)
  have rows: "map_of (fst (fold (batch_row db now) ?pending (o1, c))) q =
      (if q \<in> set ?pending then Some (second_present db (fst q) (snd q)) else map_of o1 q)" for o1 q
    using batch_rows [of ?pending db now "(o1, c)"] assms(1) n by auto
  have "?n \<noteq> []" using n assms(2) by (cases ?n) auto
  then show ?thesis
    using assms(2) n rows out
    by (auto simp: host_timestamp_seconds_present_batch_def Let_def second_answer_def filter_empty_conv split: option.splits)
qed

lemma batch_sound:
  assumes "\<forall>p \<in> set pairs. py_strip (fst p) = fst p" "cache_all (second_known db) c"
  shows "cache_all (second_known db) (snd (host_timestamp_seconds_present_batch db now pairs c))"
    "second_answer db now c p \<Longrightarrow> second_present db (fst p) (snd p)"
proof -
  have "\<forall>p \<in> set (filter (\<lambda>key. cached_value 60 now key c = None) (batch_normalized pairs)). py_strip (fst p) = fst p"
    using assms(1) by (auto simp: batch_normalized_def py_strip_idem)
  then show "cache_all (second_known db) (snd (host_timestamp_seconds_present_batch db now pairs c))"
    using batch_rows_sound [of _ db "(o1, c)" now for o1] assms(2) by (simp add: host_timestamp_seconds_present_batch_def Let_def)
  show "second_present db (fst p) (snd p)" if "second_answer db now c p"
    using that cached_valueD [OF _ assms(2), of 60 now p] by (auto simp: second_answer_def second_known_def split: option.splits)
qed

lemma store_window_known: "cache_all P c \<Longrightarrow> P key found now \<Longrightarrow> cache_all P (store_window m now key found c)"
  by (simp add: store_window_def windows.keep_all windows.store_all)

lemma collect_chunks_error: "collect_chunks fails db m host chunks acc = Inl e \<Longrightarrow> \<exists>x y. fails x y = Some False"
  by (induction fails db m host chunks acc rule: collect_chunks.induct) (auto split: option.splits if_splits itimes.splits)

lemma host_recent_eq:
  "host_recent_timestamps_cached fails db m now host low high c =
    (let key = (host, py_trunc low, py_trunc high); res = collect_chunks fails db m host (iter_host_itimes_chunk_bounds low high) {} in
     case cached_value 20 now key c of Some f \<Rightarrow> (Inr (Times f), c)
     | None \<Rightarrow> (res, case res of Inr (Times f) \<Rightarrow> store_window m now key f c | _ \<Rightarrow> c))"
  by (simp add: host_recent_timestamps_cached_def Let_def split: option.split sum.split itimes.split)

lemma window_scan:
  assumes "host_recent_timestamps_cached fails db m now host (of_int lo) (of_int hi + 1) c = (r, c1)" "0 \<le> lo"
    and sound: "cache_all (window_known db) c"
  shows "cache_all (window_known db) c1"
    "r = Inr (Times found) \<Longrightarrow> u \<in> found \<Longrightarrow> lo \<le> u \<Longrightarrow> u \<le> hi \<Longrightarrow> second_present db host u"
    "r = Inr (Times found) \<Longrightarrow> c = [] \<Longrightarrow> lo \<le> u \<Longrightarrow> u \<le> hi \<Longrightarrow> u \<in> found \<longleftrightarrow> second_present db host u"
    "r = Inl e \<Longrightarrow> \<exists>x y. fails x y = Some False"
proof -
  have key: "py_trunc (of_int lo) = lo" "py_trunc (of_int hi + 1 :: rat) = hi + 1"
    using py_trunc_of_int [of "hi + 1"] by simp_all
  define res where "res = collect_chunks fails db m host (iter_host_itimes_chunk_bounds (of_int lo) (of_int hi + 1)) {}"
  note eq = assms(1) [unfolded host_recent_eq Let_def key res_def [symmetric]]
  have scanned: "v \<in> f \<longleftrightarrow> second_present db host v" if "res = Inr (Times f)" "lo \<le> v" "v \<le> hi" for f v
    using collect_chunks_Times [OF that(1) [unfolded res_def]] window_seconds [OF assms(2) that(2,3)] by (simp add: chunk_bounds_cover)
  then have stored: "window_known db (host, lo, hi + 1) f t" if "res = Inr (Times f)" for f t
    using that by (auto simp: window_known_def)
  have hit: "window_known db (host, lo, hi + 1) f t \<Longrightarrow> v \<in> f \<Longrightarrow> lo \<le> v \<Longrightarrow> v \<le> hi \<Longrightarrow> second_present db host v" for f t v
    using assms(2) by (simp add: window_known_def)
  show "cache_all (window_known db) c1"
    using eq sound stored store_window_known [OF sound]
    by (auto split: option.splits sum.splits itimes.splits)
  show "second_present db host u" if "r = Inr (Times found)" "u \<in> found" "lo \<le> u" "u \<le> hi"
  proof (cases "cached_value 20 now (host, lo, hi + 1) c")
    case (Some f)
    then show ?thesis using that eq cached_valueD [OF Some sound] hit [of f] by auto
  qed (use that eq scanned in simp)
  show "u \<in> found \<longleftrightarrow> second_present db host u" if "r = Inr (Times found)" "c = []" "lo \<le> u" "u \<le> hi"
    using that eq scanned by (simp add: cached_value_def)
  show "\<exists>x y. fails x y = Some False" if "r = Inl e"
    using that eq collect_chunks_error [of fails db m host] by (auto simp: res_def split: option.splits)
qed

lemma all_present_cases:
  assumes "secs \<noteq> []" "\<forall>u \<in> set secs. 0 \<le> u"
    and "host_sampled_timestamp_seconds_all_present fails db m now host secs c = (r, c1)" "caches_sound db c"
  shows "caches_sound db c1"
    "r = Inr True \<Longrightarrow> u \<in> set secs \<Longrightarrow> second_present db (py_strip host) u"
    "ic_windows c = [] \<Longrightarrow> ic_seconds c = [] \<Longrightarrow> (\<And>x y. fails x y \<noteq> Some False) \<Longrightarrow>
       r = Inr (\<forall>u \<in> set secs. second_present db (py_strip host) u)"
proof -
  let ?h = "py_strip host" and ?lo = "Min (set secs)" and ?hi = "Max (set secs)"
  let ?pairs = "map (\<lambda>u. (?h, u)) (remdups secs)"
  have lo: "0 \<le> ?lo" and range: "u \<in> set secs \<Longrightarrow> ?lo \<le> u \<and> u \<le> ?hi" for u
    using assms(1,2) by simp_all
  have sound: "cache_all (second_known db) (ic_seconds c)" "cache_all (window_known db) (ic_windows c)"
    using assms(4) by (simp_all add: caches_sound_def)
  obtain q w where scan: "host_recent_timestamps_cached fails db m now ?h (of_int ?lo) (of_int ?hi + 1) (ic_windows c) = (q, w)" by fastforce
  note win = window_scan [OF scan lo sound(2)]
  have strip: "\<forall>p \<in> set ?pairs. py_strip (fst p) = fst p" by (auto simp: py_strip_idem)
  have answer: "map_of (fst (host_timestamp_seconds_present_batch db now ?pairs (ic_seconds c))) (?h, u) =
      Some (second_answer db now (ic_seconds c) (?h, u))" if "u \<in> set secs" for u
    using batch_answers [OF strip, of "(?h, u)"] that by simp
  have r: "(r, c1) = (case q of Inl e \<Rightarrow> (Inl e, c\<lparr>ic_windows := w\<rparr>)
      | Inr (Times found) \<Rightarrow> (Inr (\<forall>u \<in> set secs. u \<in> found), c\<lparr>ic_windows := w\<rparr>)
      | Inr Overflow \<Rightarrow> (Inr (\<forall>u \<in> set secs. second_answer db now (ic_seconds c) (?h, u)),
          c\<lparr>ic_windows := w, ic_seconds := snd (host_timestamp_seconds_present_batch db now ?pairs (ic_seconds c))\<rparr>))"
    using assms(1,3) answer
    by (auto simp: host_sampled_timestamp_seconds_all_present_def Let_def scan list_all_iff split: sum.splits itimes.splits prod.splits)
  show "caches_sound db c1"
    using r win(1) sound batch_sound(1) [OF strip sound(1)] by (auto simp: caches_sound_def split: sum.splits itimes.splits)
  show "second_present db ?h u" if "r = Inr True" "u \<in> set secs"
    using that r win(2) [of _ u] range [of u] batch_sound(2) [OF strip sound(1), of now "(?h, u)"]
    by (auto split: sum.splits itimes.splits)
  show "r = Inr (\<forall>u \<in> set secs. second_present db ?h u)"
    if "ic_windows c = []" "ic_seconds c = []" "\<And>x y. fails x y \<noteq> Some False"
  proof (cases q)
    case (Inl e)
    then show ?thesis using win(4) that(3) by blast
  next
    case (Inr res)
    then show ?thesis
      using r win(3) range that(1,2) by (cases res) (auto simp: second_answer_def cached_value_def)
  qed
qed

text \<open>C20: Two ways to ask the database give the same answer. With nothing cached, whether the scan over the day-long chunks of the
  window fits its limit or overflows, or fails for a bounded query, and the seconds are then probed one by one: the
  result says whether every second has a row of the host.
\<close>

theorem scan_equals_probes:
  assumes "\<forall>u \<in> set secs. 0 \<le> u" "\<And>x y. scan_fails x y \<noteq> Some False"
  shows "fst (host_sampled_timestamp_seconds_all_present scan_fails db max_timestamps now host secs \<lparr>ic_windows = [], ic_seconds = []\<rparr>) =
    Inr (secs \<noteq> [] \<and> (\<forall>u \<in> set secs. fst (host_timestamp_second_present_in_db db now host u [])))"
proof (cases "secs = []")
  case True
  then show ?thesis by (simp add: host_sampled_timestamp_seconds_all_present_def)
next
  case False
  let ?r = "host_sampled_timestamp_seconds_all_present scan_fails db max_timestamps now host secs \<lparr>ic_windows = [], ic_seconds = []\<rparr>"
  have "fst ?r = Inr (\<forall>u \<in> set secs. second_present db (py_strip host) u)"
    by (rule all_present_cases(3) [OF False assms(1) surjective_pairing [of ?r]]) (simp_all add: caches_sound_def assms(2))
  then show ?thesis using False by (simp add: host_timestamp_second_present_in_db_def cached_value_def Let_def)
qed

definition demo_rows :: host_rows where
  "demo_rows host = (if host = ''c1'' then [1 / 2, 5, 90000 + 1 / 4] else [])"

theorem scan_equals_probes_witness:
  "fst (host_sampled_timestamp_seconds_all_present (\<lambda>_ _. None) demo_rows 9 1 ''c1'' [0, 90000] \<lparr>ic_windows = [], ic_seconds = []\<rparr>) =
   fst (host_sampled_timestamp_seconds_all_present (\<lambda>_ _. None) demo_rows 1 1 ''c1'' [0, 90000] \<lparr>ic_windows = [], ic_seconds = []\<rparr>)"
  using scan_equals_probes [of "[0, 90000]" "\<lambda>_ _. None" demo_rows 9 1 "''c1''"] scan_equals_probes [of "[0, 90000]" "\<lambda>_ _. None" demo_rows 1 1 "''c1''"]
  by simp

section \<open>The ready set\<close>













section \<open>How old the evidence of an answer is\<close>

text \<open>Calls of the gate, each with the world it sees and the time it reads; \<open>calls\<close> is what was asked so far.\<close>

record gate_call =
  gc_env :: gate_env
  gc_now :: rat
  gc_path :: string

definition run_gate :: "gate_call list \<Rightarrow> gate_state \<Rightarrow> gate_state" where
  "run_gate calls st = fold (\<lambda>c st. snd (stats_file_head_ingested_in_db (gc_env c) (gc_now c) (gc_path c) st)) calls st"

definition seen_at :: "gate_call list \<Rightarrow> rat \<Rightarrow> string \<Rightarrow> int \<Rightarrow> bool" where
  "seen_at calls t host sec = (\<exists>c \<in> set calls. t - gc_now c \<le> 60 \<and> second_present (ge_db (gc_env c)) host sec)"

definition proof_at :: "gate_call list \<Rightarrow> gate_call \<Rightarrow> bool" where
  "proof_at calls c = (let env = gc_env c; path = gc_path c in
     \<not> stats_file_is_active_segment (ge_files env) path \<and>
     (path_ready_via_file_complete_mark env path \<or> path_ready_via_zero_host_mark env path \<or>
      ge_live env \<noteq> Some True \<and> (\<exists>hh hs th ts.
        read_stats_file_head_identity (ge_content env path) = Inr (Some (hh, hs)) \<and> seen_at calls (gc_now c) hh hs \<and>
        read_stats_file_tail_identity (ge_content env path) (ge_tail_bytes env) = Inr (Some (th, ts)) \<and> seen_at calls (gc_now c) th ts)))"

definition head_just :: "gate_call list \<Rightarrow> string \<times> int \<Rightarrow> bool \<Rightarrow> rat \<Rightarrow> bool" where
  "head_just calls p b t = (b \<longrightarrow> (\<exists>c \<in> set calls. gc_now c = t \<and> second_present (ge_db (gc_env c)) (fst p) (snd p)))"

definition path_just :: "gate_call list \<Rightarrow> string \<times> int \<times> int \<Rightarrow> bool \<Rightarrow> rat \<Rightarrow> bool" where
  "path_just calls fp b t = (b \<longrightarrow> (\<exists>c \<in> set calls. gc_now c = t \<and>
     path_ingest_ready_fingerprint (ge_stat (gc_env c)) (gc_path c) = Some fp \<and> proof_at calls c))"

definition gate_just :: "gate_call list \<Rightarrow> gate_state \<Rightarrow> bool" where
  "gate_just calls st = (cache_all (head_just calls) (gs_heads st) \<and> cache_all (path_just calls) (gs_paths st))"

lemma seen_at_mono: "set xs \<subseteq> set ys \<Longrightarrow> seen_at xs t h u \<Longrightarrow> seen_at ys t h u"
  by (auto simp: seen_at_def)

lemma proof_at_mono: "set xs \<subseteq> set ys \<Longrightarrow> proof_at xs c \<Longrightarrow> proof_at ys c"
  unfolding proof_at_def Let_def using seen_at_mono by blast

lemma gate_just_mono:
  assumes "set xs \<subseteq> set ys" "gate_just xs st"
  shows "gate_just ys st"
  using assms(2) unfolding gate_just_def
proof (elim conjE, intro conjI)
  assume "cache_all (head_just xs) (gs_heads st)" then show "cache_all (head_just ys) (gs_heads st)"
    by (rule cache_all_mono) (use assms(1) in \<open>auto simp: head_just_def\<close>)
next
  assume "cache_all (path_just xs) (gs_paths st)" then show "cache_all (path_just ys) (gs_paths st)"
    by (rule cache_all_mono) (use assms(1) proof_at_mono [OF assms(1)] in \<open>auto simp: path_just_def\<close>)
qed

lemma head_lookup:
  assumes "head_timestamp_present_in_db (ge_db (gc_env c)) (gc_now c) h u cache = (b, cache1)"
    and "cache_all (head_just calls) cache" "c \<in> set calls"
  shows "cache_all (head_just calls) cache1" "b \<Longrightarrow> seen_at calls (gc_now c) h u"
proof -
  have now: "head_just calls (h, u) (second_present (ge_db (gc_env c)) h u) (gc_now c)"
    using assms(3) by (auto simp: head_just_def)
  show "cache_all (head_just calls) cache1"
    using assms(1,2) heads.store_all [OF assms(2) now]
    by (auto simp: head_timestamp_present_in_db_def Let_def split: option.splits)
  show "seen_at calls (gc_now c) h u" if b
  proof (cases "cached_value 60 (gc_now c) (h, u) cache")
    case None
    then have "second_present (ge_db (gc_env c)) h u"
      using assms(1) that by (simp add: head_timestamp_present_in_db_def Let_def)
    then show ?thesis unfolding seen_at_def using assms(3) by (intro bexI [of _ c]) simp_all
  next
    case (Some v)
    then have v: "v = b" using assms(1) by (simp add: head_timestamp_present_in_db_def)
    show ?thesis using cached_valueD [OF Some assms(2)] that by (auto simp: head_just_def seen_at_def v)
  qed
qed

lemma path_ready_just:
  assumes "path_ready (gc_env c) (gc_now c) (gc_path c) heads = (r, heads1)"
    and "cache_all (head_just calls) heads" "c \<in> set calls"
  shows "cache_all (head_just calls) heads1 \<and> (r = Inr True \<longrightarrow> proof_at calls c)"
proof -
  let ?env = "gc_env c" and ?path = "gc_path c"
  have live: "\<not> live_db_ingest_enabled ?env \<Longrightarrow> ge_live ?env \<noteq> Some True"
    by (auto simp: live_db_ingest_enabled_def split: option.splits)
  have ht: "cache_all (head_just calls) h1 \<and> (q = Inr True \<longrightarrow> (\<exists>hh hs th ts.
      read_stats_file_head_identity (ge_content ?env ?path) = Inr (Some (hh, hs)) \<and> seen_at calls (gc_now c) hh hs \<and>
      read_stats_file_tail_identity (ge_content ?env ?path) (ge_tail_bytes ?env) = Inr (Some (th, ts)) \<and> seen_at calls (gc_now c) th ts))"
    if "path_head_tail_ready_in_db ?env (gc_now c) ?path heads = (q, h1)" for q h1
    using that head_lookup [OF _ _ assms(3)] assms(2)
    by (auto simp: path_head_tail_ready_in_db_def split: sum.splits option.splits prod.splits if_splits)
  show ?thesis
    using assms(1,2) ht live by (auto simp: path_ready_def proof_at_def Let_def split: if_splits)
qed

lemma gate_step_just:
  assumes "stats_file_head_ingested_in_db (gc_env c) (gc_now c) (gc_path c) st = (r, st1)" "gate_just calls st" "c \<in> set calls"
  shows "gate_just calls st1 \<and> (r = Inr True \<longrightarrow> ge_required (gc_env c) \<longrightarrow> (\<exists>d \<in> set calls. gc_now c - gc_now d \<le> 60 \<and>
    path_ingest_ready_fingerprint (ge_stat (gc_env d)) (gc_path d) = path_ingest_ready_fingerprint (ge_stat (gc_env c)) (gc_path c) \<and>
    path_ingest_ready_fingerprint (ge_stat (gc_env c)) (gc_path c) \<noteq> None \<and> proof_at calls d))"
proof (cases "ge_required (gc_env c) \<and> path_ingest_ready_fingerprint (ge_stat (gc_env c)) (gc_path c) \<noteq> None")
  case False
  then have "st1 = st \<and> (ge_required (gc_env c) \<longrightarrow> r = Inr False)"
    using assms(1) by (cases "ge_required (gc_env c)") (simp_all add: stats_file_head_ingested_in_db_def del: not_None_eq)
  then show ?thesis using assms(2) by (cases "ge_required (gc_env c)") simp_all
next
  case True
  then obtain fp where req: "ge_required (gc_env c)" and fp: "path_ingest_ready_fingerprint (ge_stat (gc_env c)) (gc_path c) = Some fp" by blast
  have just: "cache_all (head_just calls) (gs_heads st)" "cache_all (path_just calls) (gs_paths st)"
    using assms(2) by (simp_all add: gate_just_def)
  obtain q heads where ready: "path_ready (gc_env c) (gc_now c) (gc_path c) (gs_heads st) = (q, heads)" by fastforce
  note q = path_ready_just [OF ready just(1) assms(3)]
  have stored: "path_just calls fp v (gc_now c)" if "q = Inr v" for v
    unfolding path_just_def using q that fp assms(3) by blast
  show ?thesis
  proof (cases "cached_value 60 (gc_now c) fp (gs_paths st)")
    case None
    have "(r, st1) = (case q of Inl e \<Rightarrow> (Inl e, st\<lparr>gs_heads := heads\<rparr>)
        | Inr v \<Rightarrow> (Inr v, st\<lparr>gs_heads := heads, gs_paths := trim_path_ready_cache (AList.update fp (v, gc_now c) (gs_paths st))\<rparr>))"
      unfolding assms(1) [symmetric] stats_file_head_ingested_in_db_def fp ready by (simp add: req None)
    then have st1: "r = q" "st1 = (case q of Inl e \<Rightarrow> st\<lparr>gs_heads := heads\<rparr>
        | Inr v \<Rightarrow> st\<lparr>gs_heads := heads, gs_paths := trim_path_ready_cache (AList.update fp (v, gc_now c) (gs_paths st))\<rparr>)"
      by (auto split: sum.splits)
    then have "gate_just calls st1"
      using q just paths.store_all [OF just(2) stored] by (cases q) (simp_all add: gate_just_def)
    moreover have "proof_at calls c" if "r = Inr True" using q st1(1) that by simp
    ultimately show ?thesis using assms(3) fp by (intro conjI impI bexI [of _ c]) simp_all
  next
    case (Some v)
    then have "r = Inr v" "st1 = st" using assms(1) req by (simp_all add: stats_file_head_ingested_in_db_def fp)
    moreover obtain t where "gc_now c - t \<le> 60" "path_just calls fp v t" using cached_valueD [OF Some just(2)] by blast
    ultimately show ?thesis using assms(2) unfolding path_just_def fp by blast
  qed
qed

lemma run_gate_just: "gate_just calls (run_gate calls gate_empty)"
proof (induction calls rule: rev_induct)
  case (snoc c calls)
  obtain r st1 where "stats_file_head_ingested_in_db (gc_env c) (gc_now c) (gc_path c) (run_gate calls gate_empty) = (r, st1)" by fastforce
  with gate_step_just [OF this gate_just_mono [OF _ snoc.IH], of "calls @ [c]"]
  show ?case by (auto simp: run_gate_def)
qed (simp add: gate_just_def run_gate_def gate_empty_def)

text \<open>C9: The gate opens only on evidence, and on how old one. When a call finds a file ready, then at a call at most
  60 seconds earlier, which saw the same path with the same time and size, the file was closed and had an
  ingest mark, or live ingest was not on and rows for the first and last sample had been seen in the database at most 60
  seconds before that. So a ready answer outlives its evidence by at most two minutes.
\<close>

theorem gate_opens_on_evidence:
  assumes "stats_file_head_ingested_in_db (gc_env c) (gc_now c) (gc_path c) (run_gate calls gate_empty) = (Inr True, st)" "ge_required (gc_env c)"
  shows "\<exists>d \<in> set (calls @ [c]). gc_now c - gc_now d \<le> 60 \<and> ge_stat (gc_env c) (gc_path c) \<noteq> None \<and>
    path_ingest_ready_fingerprint (ge_stat (gc_env d)) (gc_path d) = path_ingest_ready_fingerprint (ge_stat (gc_env c)) (gc_path c) \<and>
    proof_at (calls @ [c]) d"
proof -
  have "gate_just (calls @ [c]) (run_gate calls gate_empty)" by (rule gate_just_mono [OF _ run_gate_just]) auto
  from gate_step_just [OF assms(1) this] assms(2) show ?thesis
    by (auto simp: path_ingest_ready_fingerprint_def [of "ge_stat (gc_env c)"])
qed

text \<open>A file of one host with two samples, and the settings around it.\<close>

definition demo_gate :: "bool option \<Rightarrow> mark_docs \<Rightarrow> gate_env" where
  "demo_gate live docs = \<lparr>ge_required = True, ge_live = live, ge_archive_dir = ''/raw'', ge_stat = demo_stat ''/raw/c1/1'' 7,
     ge_files = \<lparr>fe_isfile = (\<lambda>_. False), fe_samefile = (\<lambda>_ _. None), fe_ingest_complete = (\<lambda>_. False), fe_append_complete = (\<lambda>_ _. False)\<rparr>,
     ge_content = (\<lambda>p. if p = ''/raw/c1/1'' then Some (''0 j c1'' @ [NL] @ ''5 j c1'' @ [NL]) else None), ge_tail_bytes = 64,
     ge_docs = docs, ge_db = demo_rows, ge_scan_fails = (\<lambda>_ _. None), ge_max_timestamps = 9\<rparr>"

definition demo_marked :: mark_docs where
  "demo_marked mp = (if mp = ''/raw/.sync_timedb_file_complete_ingest_mark.json'' then ([(''/raw/c1/1|7|20'', JNull)], es_new) else ([], es_new))"

definition demo_call :: "bool option \<Rightarrow> mark_docs \<Rightarrow> rat \<Rightarrow> gate_call" where
  "demo_call live docs now = \<lparr>gc_env = demo_gate live docs, gc_now = now, gc_path = ''/raw/c1/1''\<rparr>"

definition ask_gate :: "gate_call list \<Rightarrow> gate_call \<Rightarrow> py_error + bool" where
  "ask_gate calls c = fst (stats_file_head_ingested_in_db (gc_env c) (gc_now c) (gc_path c) (run_gate calls gate_empty))"

text \<open>
  The seconds of all files of a host are asked for together: a file of the host that is not in the database keeps a file that is
  out of the ready set, where it would be ready by itself.
\<close>

lemma host_blocks_ready_file:
  "fst (build_head_ingest_ready_set (demo_gate (Some False) demo_docs) 1 [''/raw/c1/1'']
     [(''/raw/c1/1'', [(''c1'', [0, 5])])] gate_empty) = Inr {''/raw/c1/1''}"
  "fst (build_head_ingest_ready_set (demo_gate (Some False) demo_docs) 1 [''/raw/c1/1'', ''/raw/c1/2'']
     [(''/raw/c1/1'', [(''c1'', [0, 5])]), (''/raw/c1/2'', [(''c1'', [7, 9])])] gate_empty) = Inr {}"
  by code_simp+


theorem gate_opens_on_evidence_witness:
  "ask_gate [demo_call (Some True) demo_marked 0] (demo_call (Some True) demo_docs 60) = Inr True \<and>
   (\<exists>d \<in> {demo_call (Some True) demo_marked 0, demo_call (Some True) demo_docs 60}. 60 - gc_now d \<le> 60 \<and>
     proof_at [demo_call (Some True) demo_marked 0, demo_call (Some True) demo_docs 60] d)"
proof -
  let ?a = "demo_call (Some True) demo_marked 0" and ?b = "demo_call (Some True) demo_docs 60"
  let ?r = "stats_file_head_ingested_in_db (gc_env ?b) (gc_now ?b) (gc_path ?b) (run_gate [?a] gate_empty)"
  have ask: "ask_gate [?a] ?b = Inr True" by code_simp
  then have eq: "?r = (Inr True, snd ?r)" by (metis ask_gate_def prod.collapse)
  have "ge_required (gc_env ?b)" "gc_now ?b = 60" by (simp_all add: demo_call_def demo_gate_def)
  with gate_opens_on_evidence [OF eq] ask show ?thesis by auto
qed

text \<open>
  Two consequences of how the switch and the cache are read. When the live-ingest switch cannot be read, the gate takes it as
  off and accepts head and tail, although the mark of the same outcome is refused, where an unreadable switch counts
  as on. And a file stays ready for the rest of the minute after its mark is gone.
\<close>

lemma unreadable_switch_opens_gate:
  "ask_gate [] (demo_call None demo_docs 0) = Inr True"
  "\<not> marks_file_complete None True (Some ''db_skip'') (Some ''head_tail'') None"
  "ask_gate [] (demo_call (Some True) demo_docs 0) = Inr False"
  by code_simp+

lemma cleared_mark_still_ready:
  "ask_gate [demo_call (Some True) demo_marked 0] (demo_call (Some True) demo_docs 60) = Inr True"
  "ask_gate [demo_call (Some True) demo_marked 0] (demo_call (Some True) demo_docs 61) = Inr False"
  by code_simp+

end
