(* ===== verification/File_Lock.thy ===== *)
theory File_Lock
  imports Stats_Find Persistence
begin

text \<open>
  The file locks of \<open>dbload/lib/file_locking.py\<close>. A target file is locked through a sidecar
  \<open><path>.fnctl.lock\<close>: its holder has an \<open>flock\<close> on the sidecar's inode, writers remove the sidecar before
  they unlock, and everyone who comes along removes a sidecar that nobody holds. The calls of all threads
  and processes on one sidecar are one step relation, cut at every system call; a call may fail at any
  system call and a process may die at any point.
\<close>

section \<open>Names of the sidecars\<close>

definition LOCK_SUFFIX :: string where
  "LOCK_SUFFIX = ''.fnctl.lock''"

definition LOCK_EXPIRY_SECONDS :: rat where
  "LOCK_EXPIRY_SECONDS = 4 * 60 * 60"

function strip_lock_suffix :: "string \<Rightarrow> string" where
  "strip_lock_suffix base =
     (if ends_with LOCK_SUFFIX base then strip_lock_suffix (take (length base - length LOCK_SUFFIX) base) else base)"
  by pat_completeness auto
termination
  by (relation "measure length") (auto simp: ends_with_drop LOCK_SUFFIX_def)

declare strip_lock_suffix.simps [simp del]

definition lock_path :: "string \<Rightarrow> string" where
  "lock_path target = strip_lock_suffix target @ LOCK_SUFFIX"

definition target_path_from_lock_sidecar :: "string \<Rightarrow> string" where
  "target_path_from_lock_sidecar path = strip_lock_suffix path"

section \<open>The sidecar and the calls on it\<close>

text \<open>
  Inodes are numbers. The number of a removed file is used again only when no open file description is left
  on it, which is what the guard of \<open>os_open\<close> says. A call is at one of the points \<open>lk_pc\<close>, named after the system call
  it makes next; \<open>Done\<close> is a finished call with its exception or without.
\<close>

type_synonym inode = nat

datatype flock_mode = LOCK_SH | LOCK_EX

text \<open>What follows a reset: the acquire loop that made it, or the end of a cleanup.\<close>

record lk_wait =
  lw_mode :: flock_mode
  lw_timeout :: rat
  lw_start :: rat
  lw_now :: rat
  lw_failed :: "py_error option"

datatype lk_next = Next_acquire lk_wait | Next_return

datatype lk_pc =
    Done "py_error option"
  | Loop_top lk_wait
  | Reset_exists rat rat lk_next
  | Reset_age rat rat lk_next
  | Reset_open lk_next
  | Reset_flock inode lk_next
  | Reset_check inode lk_next
  | Reset_remove inode lk_next
  | Reset_close lk_next
  | Acquire_open lk_wait
  | Acquire_flock inode lk_wait
  | Acquire_check inode lk_wait
  | Acquire_close lk_wait
  | Refresh_mtime inode lk_wait
  | Holding inode lk_wait
  | Release_check inode lk_wait
  | Release_remove inode lk_wait
  | Release_unlock lk_wait
  | Release_close lk_wait

record lk_state =
  lk_sidecar :: "inode option"
  lk_mtime :: "inode \<Rightarrow> rat"
  lk_fds :: "(nat, inode \<times> flock_mode option) dict"
  lk_pcs :: "nat \<Rightarrow> lk_pc"

text \<open>
  What the system answers to one call: the clock, an inode for a new file, whether the call works, whether a
  failure is \<open>EACCES\<close> or \<open>EAGAIN\<close>, and whether the sidecar's directory exists.
\<close>

record lk_env =
  le_now :: rat
  le_inode :: inode
  le_works :: bool
  le_denied :: bool
  le_parent :: bool

definition lk_init :: lk_state where
  "lk_init = \<lparr>lk_sidecar = None, lk_mtime = (\<lambda>_. 0), lk_fds = [], lk_pcs = (\<lambda>_. Done None)\<rparr>"

abbreviation set_pc :: "nat \<Rightarrow> lk_pc \<Rightarrow> lk_state \<Rightarrow> lk_state" where
  "set_pc a p s \<equiv> s\<lparr>lk_pcs := (lk_pcs s)(a := p)\<rparr>"

abbreviation set_fd :: "nat \<Rightarrow> inode \<times> flock_mode option \<Rightarrow> lk_state \<Rightarrow> lk_state" where
  "set_fd a fd s \<equiv> s\<lparr>lk_fds := AList.update a fd (lk_fds s)\<rparr>"

subsection \<open>System calls\<close>

text \<open>
  \<open>open(lock_path, "a+")\<close> opens the sidecar or creates it. \<open>flock\<close> with \<open>LOCK_NB\<close> succeeds when no other
  description has a lock on the inode that excludes the wanted one.
\<close>

definition inode_free :: "inode \<Rightarrow> lk_state \<Rightarrow> bool" where
  "inode_free i s = (lk_sidecar s \<noteq> Some i \<and> list_all (\<lambda>(a, j, m). j \<noteq> i) (lk_fds s))"

definition os_open :: "lk_env \<Rightarrow> nat \<Rightarrow> lk_state \<Rightarrow> (inode \<times> lk_state) option" where
  "os_open env a s = (case lk_sidecar s of
      Some i \<Rightarrow> Some (i, set_fd a (i, None) s)
    | None \<Rightarrow> if inode_free (le_inode env) s
        then Some (le_inode env, set_fd a (le_inode env, None)
          (s\<lparr>lk_sidecar := Some (le_inode env), lk_mtime := (lk_mtime s)(le_inode env := le_now env)\<rparr>))
        else None)"

definition excludes :: "flock_mode \<Rightarrow> flock_mode \<Rightarrow> bool" where
  "excludes m n = (m = LOCK_EX \<or> n = LOCK_EX)"

definition flock_free :: "inode \<Rightarrow> flock_mode \<Rightarrow> nat \<Rightarrow> lk_state \<Rightarrow> bool" where
  "flock_free i m a s = list_all (\<lambda>(b, j, held). b = a \<or> j \<noteq> i \<or>
     (case held of None \<Rightarrow> True | Some n \<Rightarrow> \<not> excludes m n)) (lk_fds s)"

definition os_close :: "nat \<Rightarrow> lk_state \<Rightarrow> lk_state" where
  "os_close a s = s\<lparr>lk_fds := AList.delete a (lk_fds s)\<rparr>"

definition sidecar_is_current :: "lk_env \<Rightarrow> inode \<Rightarrow> lk_state \<Rightarrow> bool" where
  "sidecar_is_current env i s = (le_works env \<and> lk_sidecar s = Some i)"

subsection \<open>Resetting a stale sidecar\<close>

definition reset_done :: "lk_next \<Rightarrow> lk_pc" where
  "reset_done k = (case k of Next_acquire w \<Rightarrow> Acquire_open w | Next_return \<Rightarrow> Done None)"

text \<open>
  One system call of \<open>_maybe_reset_stale_lock_file\<close>. Every \<open>OSError\<close> ends it, the descriptor is closed on every
  path.
\<close>

fun reset_step :: "lk_env \<Rightarrow> nat \<Rightarrow> lk_pc \<Rightarrow> lk_state \<Rightarrow> lk_state option" where
  "reset_step env a (Reset_exists now expiry k) s = Some (
     if lk_sidecar s = None then set_pc a (reset_done k) s
     else if expiry > 0 then set_pc a (Reset_age now expiry k) s
     else set_pc a (Reset_open k) s)"
| "reset_step env a (Reset_age now expiry k) s = Some (case lk_sidecar s of
      None \<Rightarrow> set_pc a (reset_done k) s
    | Some i \<Rightarrow> if now - lk_mtime s i \<le> expiry \<or> \<not> le_works env then set_pc a (reset_done k) s
        else set_pc a (Reset_open k) s)"
| "reset_step env a (Reset_open k) s =
     (if \<not> le_works env then Some (set_pc a (reset_done k) s)
      else case os_open env a s of None \<Rightarrow> None | Some (i, t) \<Rightarrow> Some (set_pc a (Reset_flock i k) t))"
| "reset_step env a (Reset_flock i k) s = Some (
     if le_works env \<and> flock_free i LOCK_EX a s then set_pc a (Reset_check i k) (set_fd a (i, Some LOCK_EX) s)
     else set_pc a (Reset_close k) s)"
| "reset_step env a (Reset_check i k) s = Some (
     if sidecar_is_current env i s then set_pc a (Reset_remove i k) s else set_pc a (Reset_close k) s)"
| "reset_step env a (Reset_remove i k) s = Some (
     if le_works env then set_pc a (Reset_close k) (s\<lparr>lk_sidecar := None\<rparr>) else set_pc a (Reset_close k) s)"
| "reset_step env a (Reset_close k) s = Some (set_pc a (reset_done k) (os_close a s))"
| "reset_step env a _ s = None"

subsection \<open>Acquiring\<close>

text \<open>
  One system call of the loops of \<open>file_write_lock\<close> and \<open>file_read_lock_wait\<close>: read the clock, reset with no age
  limit, open, lock, compare inodes. A failed attempt closes the descriptor and polls again, until the
  time of this turn is past the timeout. Errors other than contention are raised.
\<close>

fun acquire_step :: "lk_env \<Rightarrow> nat \<Rightarrow> lk_pc \<Rightarrow> lk_state \<Rightarrow> lk_state option" where
  "acquire_step env a (Loop_top w) s = Some (
     set_pc a (Reset_exists (le_now env) 0 (Next_acquire (w\<lparr>lw_now := le_now env\<rparr>))) s)"
| "acquire_step env a (Acquire_open w) s =
     (if \<not> le_parent env then Some (set_pc a (Done (Some OSError)) s)
      else if \<not> le_works env then Some (set_pc a (if le_denied env then Acquire_close w else Done (Some OSError)) s)
      else case os_open env a s of None \<Rightarrow> None | Some (i, t) \<Rightarrow> Some (set_pc a (Acquire_flock i w) t))"
| "acquire_step env a (Acquire_flock i w) s = Some (
     if \<not> le_works env \<and> \<not> le_denied env then set_pc a (Done (Some OSError)) (os_close a s)
     else if le_works env \<and> flock_free i (lw_mode w) a s then set_pc a (Acquire_check i w) (set_fd a (i, Some (lw_mode w)) s)
     else set_pc a (Acquire_close w) s)"
| "acquire_step env a (Acquire_check i w) s = Some (
     if \<not> sidecar_is_current env i s then set_pc a (Acquire_close w) s
     else if lw_mode w = LOCK_EX then set_pc a (Refresh_mtime i w) s
     else set_pc a (Holding i w) s)"
| "acquire_step env a (Acquire_close w) s = Some (
     if lw_now w - lw_start w \<ge> lw_timeout w then set_pc a (Done (Some TimeoutError)) (os_close a s)
     else set_pc a (Loop_top w) (os_close a s))"
| "acquire_step env a _ s = None"

subsection \<open>Holding and releasing\<close>

text \<open>
  A writer refreshes the sidecar's time first and enters the release at once when that fails. It removes the
  sidecar when it is still its own, then unlocks, then closes; a reader only unlocks and closes.
\<close>

fun release_step :: "lk_env \<Rightarrow> nat \<Rightarrow> lk_pc \<Rightarrow> lk_state \<Rightarrow> lk_state option" where
  "release_step env a (Refresh_mtime i w) s = Some (
     if le_works env then set_pc a (Holding i w) (case lk_sidecar s of
         None \<Rightarrow> s | Some j \<Rightarrow> s\<lparr>lk_mtime := (lk_mtime s)(j := le_now env)\<rparr>)
     else set_pc a (Release_check i (w\<lparr>lw_failed := Some OSError\<rparr>)) s)"
| "release_step env a (Holding i w) s = Some (
     if lw_mode w = LOCK_EX then set_pc a (Release_check i w) s else set_pc a (Release_unlock w) s)"
| "release_step env a (Release_check i w) s = Some (
     if sidecar_is_current env i s then set_pc a (Release_remove i w) s else set_pc a (Release_unlock w) s)"
| "release_step env a (Release_remove i w) s = Some (
     if le_works env then set_pc a (Release_unlock w) (s\<lparr>lk_sidecar := None\<rparr>)
     else set_pc a (Release_unlock w) s)"
| "release_step env a (Release_unlock w) s = Some (
     set_pc a (Release_close w) (case map_of (lk_fds s) a of
       None \<Rightarrow> s | Some (i, m) \<Rightarrow> set_fd a (i, None) s))"
| "release_step env a (Release_close w) s = Some (set_pc a (Done (lw_failed w)) (os_close a s))"
| "release_step env a _ s = None"

subsection \<open>All calls together\<close>

text \<open>
  A finished call may be followed by another one: a writer, a reader, or a cleanup with its age limit. The
  next system call of a call, and the death of its process, which closes its descriptors.
\<close>

datatype lk_event = Lock flock_mode rat | Cleanup rat | Syscall | Death

text \<open>
  The three ways to ask for a lock. A write lock the caller already holds (\<open>already_held\<close>) is no call at all.
\<close>

definition file_write_lock :: "rat \<Rightarrow> lk_event" where
  "file_write_lock timeout = Lock LOCK_EX timeout"

definition try_file_write_lock :: lk_event where
  "try_file_write_lock = file_write_lock 0"

definition file_read_lock_wait :: "rat \<Rightarrow> lk_event" where
  "file_read_lock_wait timeout = Lock LOCK_SH timeout"

definition lk_exec :: "lk_env \<Rightarrow> nat \<Rightarrow> lk_event \<Rightarrow> lk_state \<Rightarrow> lk_state option" where
  "lk_exec env a ev s = (let p = lk_pcs s a in case ev of
      Lock m timeout \<Rightarrow> (case p of Done e \<Rightarrow> Some (set_pc a (Loop_top
          \<lparr>lw_mode = m, lw_timeout = timeout, lw_start = le_now env, lw_now = le_now env, lw_failed = None\<rparr>) s) | _ \<Rightarrow> None)
    | Cleanup expiry \<Rightarrow> (case p of Done e \<Rightarrow> Some (set_pc a (Reset_exists (le_now env) expiry Next_return) s) | _ \<Rightarrow> None)
    | Syscall \<Rightarrow> (case reset_step env a p s of Some t \<Rightarrow> Some t | None \<Rightarrow>
        (case acquire_step env a p s of Some t \<Rightarrow> Some t | None \<Rightarrow> release_step env a p s))
    | Death \<Rightarrow> Some (set_pc a (Done (Some OSError)) (os_close a s)))"

inductive lk_step :: "lk_state \<Rightarrow> lk_state \<Rightarrow> bool" where
  "lk_exec env a ev s = Some t \<Longrightarrow> lk_step s t"

inductive_cases lk_stepE: "lk_step s t"

fun lk_run :: "(lk_env \<times> nat \<times> lk_event) list \<Rightarrow> lk_state \<Rightarrow> lk_state option" where
  "lk_run [] s = Some s"
| "lk_run ((env, a, ev) # evs) s = (case lk_exec env a ev s of None \<Rightarrow> None | Some t \<Rightarrow> lk_run evs t)"

section \<open>Cleanups\<close>

text \<open>
  A reset that nobody interrupts, and the cleanups made of it. The sidecars of a directory are a function from
  their paths; \<open>walk\<close> is what \<open>os.walk\<close> lists, directories with their file names.
\<close>

definition maybe_reset_stale_lock_file :: "nat \<Rightarrow> rat \<Rightarrow> rat \<Rightarrow> lk_state \<Rightarrow> bool \<times> lk_state" where
  "maybe_reset_stale_lock_file a now expiry s = (case lk_sidecar s of
      None \<Rightarrow> (False, s)
    | Some i \<Rightarrow>
        if expiry > 0 \<and> now - lk_mtime s i \<le> expiry then (False, s)
        else if flock_free i LOCK_EX a s then (True, s\<lparr>lk_sidecar := None\<rparr>)
        else (False, s))"

fun reset_all :: "nat \<Rightarrow> rat \<Rightarrow> rat \<Rightarrow> string list \<Rightarrow> (string \<Rightarrow> lk_state) \<Rightarrow> nat \<times> (string \<Rightarrow> lk_state)" where
  "reset_all a now expiry [] locks = (0, locks)"
| "reset_all a now expiry (target # targets) locks =
     (case maybe_reset_stale_lock_file a now expiry (locks (lock_path target)) of (gone, s) \<Rightarrow>
      case reset_all a now expiry targets (locks(lock_path target := s)) of (n, r) \<Rightarrow> (if gone then Suc n else n, r))"

definition sidecar_target :: "string \<Rightarrow> string \<Rightarrow> string list" where
  "sidecar_target dir name =
     (if \<not> ends_with LOCK_SUFFIX name then []
      else let path = py_path_join dir name; target = target_path_from_lock_sidecar path in
        if target = [] \<or> target = path then [] else [target])"

definition sidecar_targets :: "(string \<times> string list) list \<Rightarrow> string list" where
  "sidecar_targets walk = concat (map (\<lambda>(dir, files). concat (map (sidecar_target dir) files)) walk)"

definition cleanup_stale_fnctl_lock_sidecars :: "nat \<Rightarrow> bool \<Rightarrow> rat \<Rightarrow> rat \<Rightarrow> (string \<times> string list) list \<Rightarrow>
    (string \<Rightarrow> lk_state) \<Rightarrow> nat \<times> (string \<Rightarrow> lk_state)" where
  "cleanup_stale_fnctl_lock_sidecars a isdir now expiry walk locks =
     (if \<not> isdir then (0, locks) else reset_all a now expiry (sidecar_targets walk) locks)"

definition cleanup_orphan_fnctl_lock_sidecars :: "nat \<Rightarrow> bool \<Rightarrow> rat \<Rightarrow> (string \<times> string list) list \<Rightarrow>
    (string \<Rightarrow> lk_state) \<Rightarrow> nat \<times> (string \<Rightarrow> lk_state)" where
  "cleanup_orphan_fnctl_lock_sidecars a isdir now walk locks = cleanup_stale_fnctl_lock_sidecars a isdir now 0 walk locks"

text \<open>The targets are normalized and each is taken once, at its first occurrence.\<close>

definition cleanup_orphan_fnctl_lock_sidecars_for_targets ::
    "nat \<Rightarrow> rat \<Rightarrow> string list \<Rightarrow> (string \<Rightarrow> lk_state) \<Rightarrow> nat \<times> (string \<Rightarrow> lk_state)" where
  "cleanup_orphan_fnctl_lock_sidecars_for_targets a now paths locks =
     reset_all a now 0 (rev (remdups (rev (map py_normpath (filter (\<lambda>p. p \<noteq> []) paths))))) locks"

section \<open>The invariant\<close>

text \<open>
  Which descriptor a call has at each point, and the points at which it relies on the sidecar being the file it
  has locked.
\<close>

fun fd_at :: "lk_pc \<Rightarrow> (inode \<times> flock_mode option) option \<Rightarrow> bool" where
  "fd_at (Reset_flock i k) fd = (fd = Some (i, None))"
| "fd_at (Reset_check i k) fd = (fd = Some (i, Some LOCK_EX))"
| "fd_at (Reset_remove i k) fd = (fd = Some (i, Some LOCK_EX))"
| "fd_at (Reset_close k) fd = True"
| "fd_at (Acquire_flock i w) fd = (fd = Some (i, None))"
| "fd_at (Acquire_check i w) fd = (fd = Some (i, Some (lw_mode w)))"
| "fd_at (Acquire_close w) fd = True"
| "fd_at (Refresh_mtime i w) fd = (lw_mode w = LOCK_EX \<and> fd = Some (i, Some LOCK_EX))"
| "fd_at (Holding i w) fd = (fd = Some (i, Some (lw_mode w)))"
| "fd_at (Release_check i w) fd = (lw_mode w = LOCK_EX \<and> fd = Some (i, Some LOCK_EX))"
| "fd_at (Release_remove i w) fd = (lw_mode w = LOCK_EX \<and> fd = Some (i, Some LOCK_EX))"
| "fd_at (Release_unlock w) fd = True"
| "fd_at (Release_close w) fd = (\<forall>i m. fd = Some (i, m) \<longrightarrow> m = None)"
| "fd_at _ fd = (fd = None)"

fun relies_on :: "lk_pc \<Rightarrow> inode option" where
  "relies_on (Reset_remove i k) = Some i"
| "relies_on (Refresh_mtime i w) = Some i"
| "relies_on (Holding i w) = Some i"
| "relies_on (Release_check i w) = Some i"
| "relies_on (Release_remove i w) = Some i"
| "relies_on _ = None"

definition lk_inv :: "lk_state \<Rightarrow> bool" where
  "lk_inv s = ((\<forall>a. fd_at (lk_pcs s a) (map_of (lk_fds s) a)) \<and>
     (\<forall>a b i m n. a \<noteq> b \<longrightarrow> map_of (lk_fds s) a = Some (i, Some m) \<longrightarrow>
        map_of (lk_fds s) b = Some (i, Some n) \<longrightarrow> \<not> excludes m n) \<and>
     (\<forall>a i. relies_on (lk_pcs s a) = Some i \<longrightarrow> lk_sidecar s = Some i))"

lemma lk_invD:
  assumes "lk_inv s"
  shows "fd_at (lk_pcs s a) (map_of (lk_fds s) a)"
    "a \<noteq> b \<Longrightarrow> map_of (lk_fds s) a = Some (i, Some m) \<Longrightarrow> map_of (lk_fds s) b = Some (i, Some n) \<Longrightarrow> \<not> excludes m n"
    "relies_on (lk_pcs s a) = Some i \<Longrightarrow> lk_sidecar s = Some i"
  using assms unfolding lk_inv_def by blast+

text \<open>
  One call moves: its new point and descriptor fit, its lock is compatible with the others', and it changes what the
  sidecar is only when no other call relies on it.
\<close>

lemma lk_inv_move:
  assumes inv: "lk_inv s" and pcs: "lk_pcs t = (lk_pcs s)(a := p)"
    and fds: "map_of (lk_fds t) = (map_of (lk_fds s))(a := fd)"
    and "fd_at p fd"
    and compat: "\<And>i m b n. fd = Some (i, Some m) \<Longrightarrow> b \<noteq> a \<Longrightarrow> map_of (lk_fds s) b = Some (i, Some n) \<Longrightarrow> \<not> excludes m n"
    and own: "\<And>i. relies_on p = Some i \<Longrightarrow> lk_sidecar t = Some i"
    and others: "\<And>b i. b \<noteq> a \<Longrightarrow> relies_on (lk_pcs s b) = Some i \<Longrightarrow> lk_sidecar t = Some i"
  shows "lk_inv t"
proof -
  have sym: "excludes m n \<longleftrightarrow> excludes n m" for m n by (auto simp: excludes_def)
  show ?thesis
    unfolding lk_inv_def
  proof (intro conjI allI impI)
    show "fd_at (lk_pcs t b) (map_of (lk_fds t) b)" for b
      using lk_invD(1) [OF inv, of b] assms(4) by (simp add: pcs fds)
    show "\<not> excludes m n" if "b \<noteq> c" "map_of (lk_fds t) b = Some (i, Some m)" "map_of (lk_fds t) c = Some (i, Some n)"
      for b c i m n
      using that lk_invD(2) [OF inv, of b c i m n] compat [of i m c n] compat [of i n b m] sym [of m n]
      by (simp add: fds split: if_splits)
    show "lk_sidecar t = Some i" if "relies_on (lk_pcs t b) = Some i" for b i
      using that own others by (auto simp: pcs split: if_splits)
  qed
qed

text \<open>A call that moves without touching the sidecar or taking a lock.\<close>

lemma lk_inv_pc:
  assumes "lk_inv s" "fd_at p (map_of (lk_fds s) a)" "\<And>i. relies_on p = Some i \<Longrightarrow> lk_sidecar s = Some i"
  shows "lk_inv (set_pc a p s)"
proof (rule lk_inv_move [OF assms(1), where a = a and p = p and fd = "map_of (lk_fds s) a"])
  show "\<not> excludes m n" if "map_of (lk_fds s) a = Some (i, Some m)" "b \<noteq> a" "map_of (lk_fds s) b = Some (i, Some n)"
    for i m b n
    using lk_invD(2) [OF assms(1) that(2) [symmetric] that(1,3)] .
qed (use assms(2,3) lk_invD(3) [OF assms(1)] in auto)

lemma lk_inv_mtime [simp]: "lk_inv (s\<lparr>lk_mtime := m, lk_pcs := p\<rparr>) = lk_inv (s\<lparr>lk_pcs := p\<rparr>)"
  by (simp add: lk_inv_def)

lemma lk_inv_drop:
  assumes "lk_inv s" "fd_at p None" "relies_on p = None"
  shows "lk_inv (set_pc a p (os_close a s))"
  by (rule lk_inv_move [OF assms(1), where a = a and p = p and fd = None])
    (use assms(2,3) lk_invD(3) [OF assms(1)] in \<open>auto simp: os_close_def AList.delete_conv'\<close>)

lemma lk_inv_lock:
  assumes "lk_inv s" "flock_free i m a s" "fd_at p (Some (i, Some m))" "relies_on p = None"
  shows "lk_inv (s\<lparr>lk_fds := AList.update a (i, Some m) (lk_fds s), lk_pcs := (lk_pcs s)(a := p)\<rparr>)"
  using assms(1)
proof (rule lk_inv_move [where a = a and p = p and fd = "Some (i, Some m)"])
  show "\<not> excludes m' n" if "Some (i, Some m) = Some (j, Some m')" "b \<noteq> a" "map_of (lk_fds s) b = Some (j, Some n)"
    for j m' b n
    using assms(2) that map_of_SomeD [OF that(3)] by (fastforce simp: flock_free_def list_all_iff)
qed (use assms in \<open>auto simp: AList.update_conv' lk_invD(3) [OF assms(1)]\<close>)

lemma lk_inv_unlock:
  assumes "lk_inv s" "map_of (lk_fds s) a = Some (i, m)" "fd_at p (Some (i, None))" "relies_on p = None"
  shows "lk_inv (s\<lparr>lk_fds := AList.update a (i, None) (lk_fds s), lk_pcs := (lk_pcs s)(a := p)\<rparr>)"
  by (rule lk_inv_move [OF assms(1), where a = a and p = p and fd = "Some (i, None)"])
    (use assms(3,4) lk_invD(3) [OF assms(1)] in \<open>auto simp: AList.update_conv'\<close>)

lemma lk_inv_unlink:
  assumes inv: "lk_inv s" and held: "map_of (lk_fds s) a = Some (i, Some LOCK_EX)" "lk_sidecar s = Some i"
    and "fd_at p (Some (i, Some LOCK_EX))" "relies_on p = None"
  shows "lk_inv (set_pc a p (s\<lparr>lk_sidecar := None\<rparr>))"
  using inv
proof (rule lk_inv_move [where a = a and p = p and fd = "Some (i, Some LOCK_EX)"])
  show "\<not> excludes m n" if "Some (i, Some LOCK_EX) = Some (j, Some m)" "b \<noteq> a" "map_of (lk_fds s) b = Some (j, Some n)"
    for j m b n
    using lk_invD(2) [OF inv, of a b j m n] that held by simp
  have alone: "map_of (lk_fds s) b = Some (i, Some n) \<Longrightarrow> b = a" for b n
    using lk_invD(2) [OF inv _ held(1), of b n] by (metis excludes_def)
  show "lk_sidecar (set_pc a p (s\<lparr>lk_sidecar := None\<rparr>)) = Some j" if "b \<noteq> a" "relies_on (lk_pcs s b) = Some j" for b j
  proof -
    have "j = i" using lk_invD(3) [OF inv that(2)] held by simp
    then have "\<exists>n. map_of (lk_fds s) b = Some (i, Some n)"
      using lk_invD(1) [OF inv, of b] that(2) by (cases "lk_pcs s b") auto
    then show ?thesis using alone that(1) by blast
  qed
qed (use assms in auto)

lemma lk_inv_open:
  assumes inv: "lk_inv s" and "os_open env a s = Some (i, t)" "fd_at p (Some (i, None))" "relies_on p = None"
  shows "lk_inv (set_pc a p t)"
proof (rule lk_inv_move [OF inv, where a = a and p = p and fd = "Some (i, None)"])
  show "lk_sidecar (set_pc a p t) = Some j" if "b \<noteq> a" "relies_on (lk_pcs s b) = Some j" for b j
    using lk_invD(3) [OF inv that(2)] assms(2) by (auto simp: os_open_def split: option.splits if_splits)
qed (use assms in \<open>auto simp: os_open_def AList.update_conv' split: option.splits if_splits\<close>)

lemma lk_inv_reset:
  assumes "lk_inv s" "reset_step env a (lk_pcs s a) s = Some t"
  shows "lk_inv t"
proof -
  note fd = lk_invD(1) [OF assms(1), of a] and side = lk_invD(3) [OF assms(1), of a]
  have fin: "fd_at (reset_done k) None" "relies_on (reset_done k) = None" for k
    by (simp_all add: reset_done_def split: lk_next.split)
  show ?thesis
  proof (cases "lk_pcs s a")
    case (Reset_open k)
    then show ?thesis
      using assms fd fin lk_inv_open [OF assms(1), of env a _ _ "Reset_flock i k" for i]
      by (auto intro: lk_inv_pc split: if_splits option.splits prod.splits)
  next
    case (Reset_remove i k)
    then show ?thesis
      using assms fd side lk_inv_unlink [OF assms(1), of a i "Reset_close k"]
      by (auto intro!: lk_inv_pc)
  qed (use assms fd side fin in \<open>auto simp: sidecar_is_current_def
      intro: lk_inv_pc lk_inv_lock lk_inv_drop split: if_splits option.splits\<close>)
qed

lemma lk_inv_acquire:
  assumes "lk_inv s" "acquire_step env a (lk_pcs s a) s = Some t"
  shows "lk_inv t"
proof -
  note fd = lk_invD(1) [OF assms(1), of a]
  show ?thesis
  proof (cases "lk_pcs s a")
    case (Acquire_open w)
    then show ?thesis
      using assms fd lk_inv_open [OF assms(1), of env a _ _ "Acquire_flock i w" for i]
      by (auto intro: lk_inv_pc split: if_splits option.splits prod.splits)
  qed (use assms fd in \<open>auto simp: sidecar_is_current_def
      intro: lk_inv_pc lk_inv_lock lk_inv_drop split: if_splits\<close>)
qed

lemma lk_inv_release:
  assumes "lk_inv s" "release_step env a (lk_pcs s a) s = Some t"
  shows "lk_inv t"
proof -
  note fd = lk_invD(1) [OF assms(1), of a] and side = lk_invD(3) [OF assms(1), of a]
  show ?thesis
  proof (cases "lk_pcs s a")
    case (Release_remove i w)
    then show ?thesis
      using assms fd side lk_inv_unlink [OF assms(1), of a i "Release_unlock w"]
      by (auto intro!: lk_inv_pc)
  next
    case (Release_unlock w)
    then show ?thesis
      using assms lk_inv_unlock [OF assms(1), of a _ _ "Release_close w"] lk_inv_pc [OF assms(1), of "Release_close w" a]
      by (auto split: option.splits)
  next
    case (Refresh_mtime i w)
    then show ?thesis using assms fd side by (auto intro!: lk_inv_pc split: if_splits option.splits)
  qed (use assms fd side in \<open>auto simp: sidecar_is_current_def
      intro: lk_inv_pc lk_inv_drop split: if_splits option.splits\<close>)
qed

lemma lk_inv_step:
  assumes "lk_inv s" "lk_step s t"
  shows "lk_inv t"
proof -
  obtain env a ev where ex: "lk_exec env a ev s = Some t" using assms(2) by (rule lk_stepE)
  note fd = lk_invD(1) [OF assms(1), of a]
  show ?thesis
  proof (cases ev)
    case Syscall
    then show ?thesis
      using ex lk_inv_reset [OF assms(1)] lk_inv_acquire [OF assms(1)] lk_inv_release [OF assms(1)]
      by (auto simp: lk_exec_def Let_def split: option.splits)
  next
    case Death
    then show ?thesis using ex lk_inv_drop [OF assms(1), of "Done (Some OSError)" a] by (auto simp: lk_exec_def)
  qed (use ex fd in \<open>auto simp: lk_exec_def Let_def intro!: lk_inv_pc [OF assms(1)] split: lk_pc.splits\<close>)
qed

lemma lk_inv_init: "lk_inv lk_init"
  by (simp add: lk_inv_def lk_init_def)

interpretation locks: invariant_system "\<lambda>s. s = lk_init" lk_step lk_inv
  by unfold_locales (auto simp: lk_inv_init intro: lk_inv_step)

definition lk_reachable :: "lk_state \<Rightarrow> bool" where
  "lk_reachable s = lk_step\<^sup>*\<^sup>* lk_init s"

lemma lk_reachable_inv: "lk_reachable s \<Longrightarrow> lk_inv s"
  unfolding lk_reachable_def by (rule locks.inv_reachable [OF refl])

lemma lk_reachable_run: "lk_reachable s \<Longrightarrow> lk_run evs s = Some t \<Longrightarrow> lk_reachable t"
proof (induction evs arbitrary: s)
  case (Cons ev evs)
  obtain env a e where ev: "ev = (env, a, e)" by (cases ev)
  with Cons.prems obtain u where u: "lk_exec env a e s = Some u" "lk_run evs u = Some t"
    by (auto split: option.splits)
  have "lk_reachable u"
    using Cons.prems(1) lk_step.intros [OF u(1)] by (simp add: lk_reachable_def)
  then show ?case by (rule Cons.IH [OF _ u(2)])
qed simp

section \<open>Mutual exclusion\<close>

definition holds_lock :: "nat \<Rightarrow> flock_mode \<Rightarrow> lk_state \<Rightarrow> bool" where
  "holds_lock a m s = (case lk_pcs s a of Holding i w \<Rightarrow> lw_mode w = m | _ \<Rightarrow> False)"

lemma holds_lockE:
  assumes "lk_inv s" "holds_lock a m s"
  obtains i where "map_of (lk_fds s) a = Some (i, Some m)" "lk_sidecar s = Some i"
  using assms(2) lk_invD(1) [OF assms(1), of a] lk_invD(3) [OF assms(1), of a]
  by (auto simp: holds_lock_def split: lk_pc.splits)

text \<open>A run of small steps for the witnesses: a writer takes the lock and dies, another one comes.\<close>

definition demo_env :: "inode \<Rightarrow> lk_env" where
  "demo_env i = \<lparr>le_now = 0, le_inode = i, le_works = True, le_denied = False, le_parent = True\<rparr>"

definition demo_calls :: "inode \<Rightarrow> nat \<Rightarrow> nat \<Rightarrow> (lk_env \<times> nat \<times> lk_event) list" where
  "demo_calls i n a = replicate n (demo_env i, a, Syscall)"

definition demo_dead_writer :: lk_state where
  "demo_dead_writer = the (lk_run ((demo_env 7, 1, file_write_lock 60) # demo_calls 7 6 1 @ [(demo_env 7, 1, Death), (demo_env 7, 2, file_write_lock 60)]) lk_init)"

definition demo_readers :: lk_state where
  "demo_readers = the (lk_run ((demo_env 7, 1, file_read_lock_wait 60) # demo_calls 7 5 1 @ (demo_env 7, 2, file_read_lock_wait 60) # demo_calls 7 8 2) lk_init)"

lemma demo_locks_reachable: "lk_reachable demo_dead_writer" "lk_reachable demo_readers"
proof -
  have run: "lk_run evs lk_init \<noteq> None \<Longrightarrow> lk_reachable (the (lk_run evs lk_init))" for evs
    using lk_reachable_run [of lk_init evs] by (auto simp: lk_reachable_def)
  show "lk_reachable demo_dead_writer" unfolding demo_dead_writer_def by (rule run) code_simp
  show "lk_reachable demo_readers" unfolding demo_readers_def by (rule run) code_simp
qed

text \<open>C8: The locks exclude each other. Whatever calls run, fail or die in whatever order, a writer inside its locked
  section is alone: no other writer and no reader is in one. The sidecar of everyone inside is still the file under
  that name, so whoever comes next finds the locked one.
\<close>

theorem lock_mutual_exclusion:
  assumes "lk_reachable s" "holds_lock a m s" "holds_lock b n s" "a \<noteq> b"
  shows "m = LOCK_SH \<and> n = LOCK_SH \<and>
    (\<exists>i. lk_sidecar s = Some i \<and> map_of (lk_fds s) a = Some (i, Some m) \<and> map_of (lk_fds s) b = Some (i, Some n))"
proof -
  note inv = lk_reachable_inv [OF assms(1)]
  obtain i where i: "map_of (lk_fds s) a = Some (i, Some m)" "lk_sidecar s = Some i" using holds_lockE [OF inv assms(2)] .
  obtain j where j: "map_of (lk_fds s) b = Some (j, Some n)" "lk_sidecar s = Some j" using holds_lockE [OF inv assms(3)] .
  have "\<not> excludes m n" using lk_invD(2) [OF inv assms(4), of i m n] i j by simp
  then show ?thesis using i j by (cases m; cases n) (auto simp: excludes_def)
qed

theorem lock_mutual_exclusion_witness:
  "lk_sidecar demo_readers = Some 7 \<and> (\<exists>i. lk_sidecar demo_readers = Some i \<and>
     map_of (lk_fds demo_readers) 1 = Some (i, Some LOCK_SH) \<and> map_of (lk_fds demo_readers) 2 = Some (i, Some LOCK_SH))"
proof
  have "holds_lock 1 LOCK_SH demo_readers" "holds_lock 2 LOCK_SH demo_readers" by code_simp+
  from lock_mutual_exclusion [OF demo_locks_reachable(2) this]
  show "\<exists>i. lk_sidecar demo_readers = Some i \<and>
     map_of (lk_fds demo_readers) 1 = Some (i, Some LOCK_SH) \<and> map_of (lk_fds demo_readers) 2 = Some (i, Some LOCK_SH)"
    by simp
qed code_simp

section \<open>Removing sidecars\<close>

text \<open>What a step can do to the name of the sidecar: a call creates it, or the only locker of its inode removes it.\<close>

lemma os_open_sidecar: "os_open env a s = Some (i, t) \<Longrightarrow> lk_sidecar s = Some j \<Longrightarrow> lk_sidecar t = Some j"
  by (auto simp: os_open_def)

text \<open>C26: A locked sidecar is never taken away: a step after which the name is gone was made by the call that has the
  only lock on the file. Readers and writers inside their sections, and probes, keep the file they locked.
\<close>

theorem unlink_only_own:
  assumes "lk_reachable s" "lk_exec env a ev s = Some t" "lk_sidecar s = Some i" "lk_sidecar t \<noteq> Some i"
  shows "lk_sidecar t = None \<and> map_of (lk_fds s) a = Some (i, Some LOCK_EX) \<and>
    (\<forall>b m. b \<noteq> a \<longrightarrow> map_of (lk_fds s) b \<noteq> Some (i, Some m))"
proof -
  note inv = lk_reachable_inv [OF assms(1)]
  have "lk_sidecar t = None \<and> (\<exists>j. relies_on (lk_pcs s a) = Some j \<and> map_of (lk_fds s) a = Some (j, Some LOCK_EX))"
    using assms(2-4) lk_invD(1) [OF inv, of a] os_open_sidecar [where s = s]
    by (cases ev; cases "lk_pcs s a")
      (auto simp: lk_exec_def os_close_def Let_def split: if_splits option.splits prod.splits)
  then show ?thesis
    using lk_invD(3) [OF inv, of a] lk_invD(2) [OF inv, of a _ i LOCK_EX] assms(3) by (fastforce simp: excludes_def)
qed

theorem unlink_only_own_witness:
  "\<exists>s t. lk_run (demo_calls 8 5 2) demo_dead_writer = Some s \<and> lk_exec (demo_env 8) 2 Syscall s = Some t \<and>
     lk_sidecar s = Some 7 \<and> lk_sidecar t = None \<and> map_of (lk_fds s) 2 = Some (7, Some LOCK_EX)"
proof -
  let ?s = "the (lk_run (demo_calls 8 5 2) demo_dead_writer)"
  let ?t = "the (lk_exec (demo_env 8) 2 Syscall ?s)"
  have s: "lk_run (demo_calls 8 5 2) demo_dead_writer = Some ?s" by (rule option.collapse [symmetric]) code_simp
  have t: "lk_exec (demo_env 8) 2 Syscall ?s = Some ?t" by (rule option.collapse [symmetric]) code_simp
  have "lk_sidecar ?s = Some 7" "lk_sidecar ?t \<noteq> Some 7" by code_simp+
  from s t this unlink_only_own [OF lk_reachable_run [OF demo_locks_reachable(1) s] t this] show ?thesis by blast
qed

section \<open>Progress\<close>

text \<open>No other call has a lock, and the system answers without errors.\<close>

definition lockless :: "nat \<Rightarrow> (nat, inode \<times> flock_mode option) dict \<Rightarrow> bool" where
  "lockless a fds = list_all (\<lambda>(b, i, m). b = a \<or> m = None) fds"

definition only_locker :: "nat \<Rightarrow> lk_state \<Rightarrow> bool" where
  "only_locker a s = lockless a (lk_fds s)"

definition calm :: "lk_env \<Rightarrow> bool" where
  "calm env = (le_works env \<and> le_parent env)"

definition unopened :: "inode \<Rightarrow> (nat, inode \<times> flock_mode option) dict \<Rightarrow> bool" where
  "unopened i fds = list_all (\<lambda>(a, j, m). j \<noteq> i) fds"

lemma list_all_update: "list_all P d \<Longrightarrow> P (k, v) \<Longrightarrow> list_all P (AList.update k v d)"
  by (induction d) auto

lemma lockless_update: "lockless a fds \<Longrightarrow> lockless a (AList.update a v fds)"
  unfolding lockless_def by (rule list_all_update) (simp_all add: case_prod_unfold)

lemma lockless_delete: "lockless a fds \<Longrightarrow> lockless a (AList.delete b fds)"
  by (auto simp: lockless_def list_all_iff AList.delete_eq)

lemma unopened_delete: "unopened i fds \<Longrightarrow> unopened i (AList.delete b fds)"
  by (auto simp: unopened_def list_all_iff AList.delete_eq)

lemma lockless_flock: "lockless a (lk_fds s) \<Longrightarrow> flock_free i m a s"
  by (fastforce simp: lockless_def flock_free_def list_all_iff)

lemma inode_free_iff: "inode_free i s \<longleftrightarrow> lk_sidecar s \<noteq> Some i \<and> unopened i (lk_fds s)"
  by (simp add: inode_free_def unopened_def)

lemmas solo_step = lk_exec_def os_open_def os_close_def inode_free_iff lockless_flock lockless_update lockless_delete
  unopened_delete sidecar_is_current_def reset_done_def AList.delete_update_same

lemma lk_run_Suc:
  "lk_run (replicate (Suc n) (env, a, ev)) s = (case lk_exec env a ev s of None \<Rightarrow> None | Some t \<Rightarrow> lk_run (replicate n (env, a, ev)) t)"
  by simp

text \<open>From the top of a turn, the call alone gets past the reset, and then gets the lock.\<close>

lemma solo_acquire:
  assumes "lk_pcs s a = Acquire_open w" "lockless a (lk_fds s)" "calm env" "lk_sidecar s = None" "unopened (le_inode env) (lk_fds s)"
  shows "\<exists>t. lk_run (replicate (if lw_mode w = LOCK_EX then 4 else 3) (env, a, Syscall)) s = Some t \<and> holds_lock a (lw_mode w) t"
  using assms
  by (cases "lw_mode w") (simp_all add: calm_def numeral_eq_Suc solo_step Let_def holds_lock_def)

lemma solo_reset:
  assumes "lk_inv s" "lk_pcs s a = Loop_top w" "lockless a (lk_fds s)" "calm env" "unopened (le_inode env) (lk_fds s)"
  shows "\<exists>n t. n \<le> 7 \<and> lk_run (replicate n (env, a, Syscall)) s = Some t \<and> lk_sidecar t = None \<and>
    lk_pcs t a = Acquire_open (w\<lparr>lw_now := le_now env\<rparr>) \<and> lockless a (lk_fds t) \<and> unopened (le_inode env) (lk_fds t)"
proof (cases "lk_sidecar s")
  case None
  then show ?thesis
    using assms by (intro exI [of _ 2]) (simp add: calm_def numeral_eq_Suc solo_step Let_def)
next
  case (Some i)
  then show ?thesis
    using assms by (intro exI [of _ 7]) (simp add: calm_def numeral_eq_Suc solo_step Let_def)
qed

lemma lk_run_append: "lk_run (xs @ ys) s = (case lk_run xs s of None \<Rightarrow> None | Some t \<Rightarrow> lk_run ys t)"
  by (induction xs s rule: lk_run.induct) (auto split: option.splits)

text \<open>C28: A sidecar that nobody holds blocks nobody. From every reachable state in which no other call has a lock,
  whatever calls died before and whatever sidecar they left behind, a waiting reader or writer that runs alone
  is inside its section after at most eleven system calls.
\<close>

theorem free_lock_is_acquired:
  assumes "lk_reachable s" "lk_pcs s a = Loop_top w" "only_locker a s" "calm env" "inode_free (le_inode env) s"
  shows "\<exists>n t. n \<le> 11 \<and> lk_run (replicate n (env, a, Syscall)) s = Some t \<and> holds_lock a (lw_mode w) t"
proof -
  have "\<exists>n t. n \<le> 7 \<and> lk_run (replicate n (env, a, Syscall)) s = Some t \<and> lk_sidecar t = None \<and>
    lk_pcs t a = Acquire_open (w\<lparr>lw_now := le_now env\<rparr>) \<and> lockless a (lk_fds t) \<and> unopened (le_inode env) (lk_fds t)"
    using assms by (intro solo_reset lk_reachable_inv) (simp_all add: only_locker_def inode_free_iff)
  then obtain n t where n: "n \<le> 7" "lk_run (replicate n (env, a, Syscall)) s = Some t" "lk_sidecar t = None"
    "lk_pcs t a = Acquire_open (w\<lparr>lw_now := le_now env\<rparr>)" "lockless a (lk_fds t)" "unopened (le_inode env) (lk_fds t)"
    by blast
  let ?k = "if lw_mode w = LOCK_EX then 4 else 3"
  obtain u where u: "lk_run (replicate ?k (env, a, Syscall)) t = Some u" "holds_lock a (lw_mode w) u"
    using solo_acquire [OF n(4,5) assms(4) n(3,6)] by auto
  have "lk_run (replicate (n + ?k) (env, a, Syscall)) s = Some u"
    using n(2) u(1) by (simp only: replicate_add lk_run_append) simp
  with n(1) u(2) show ?thesis by (intro exI [of _ "n + ?k"] exI [of _ u]) simp
qed

theorem free_lock_is_acquired_witness:
  "lk_sidecar demo_dead_writer = Some 7 \<and>
   (\<exists>n t. n \<le> 11 \<and> lk_run (demo_calls 8 n 2) demo_dead_writer = Some t \<and> holds_lock 2 LOCK_EX t)"
proof
  let ?w = "\<lparr>lw_mode = LOCK_EX, lw_timeout = 60, lw_start = 0, lw_now = 0, lw_failed = None\<rparr>"
  have "lk_pcs demo_dead_writer 2 = Loop_top ?w" "only_locker 2 demo_dead_writer" "calm (demo_env 8)"
    "inode_free (le_inode (demo_env 8)) demo_dead_writer" by code_simp+
  from free_lock_is_acquired [OF demo_locks_reachable(1) this]
  show "\<exists>n t. n \<le> 11 \<and> lk_run (demo_calls 8 n 2) demo_dead_writer = Some t \<and> holds_lock 2 LOCK_EX t"
    by (simp add: demo_calls_def)
qed code_simp

text \<open>The turns of a waiting call: each is bounded, and the one that starts after the timeout is the last.\<close>

fun turn_rank :: "lk_pc \<Rightarrow> nat" where
  "turn_rank (Loop_top w) = 12"
| "turn_rank (Reset_exists now expiry k) = 11"
| "turn_rank (Reset_age now expiry k) = 10"
| "turn_rank (Reset_open k) = 9"
| "turn_rank (Reset_flock i k) = 8"
| "turn_rank (Reset_check i k) = 7"
| "turn_rank (Reset_remove i k) = 6"
| "turn_rank (Reset_close k) = 5"
| "turn_rank (Acquire_open w) = 4"
| "turn_rank (Acquire_flock i w) = 3"
| "turn_rank (Acquire_check i w) = 2"
| "turn_rank (Acquire_close w) = 1"
| "turn_rank _ = 0"

fun next_wait :: "lk_next \<Rightarrow> lk_wait option" where
  "next_wait (Next_acquire w) = Some w"
| "next_wait Next_return = None"

fun wait_of :: "lk_pc \<Rightarrow> lk_wait option" where
  "wait_of (Reset_exists now expiry k) = next_wait k"
| "wait_of (Reset_age now expiry k) = next_wait k"
| "wait_of (Reset_open k) = next_wait k"
| "wait_of (Reset_flock i k) = next_wait k"
| "wait_of (Reset_check i k) = next_wait k"
| "wait_of (Reset_remove i k) = next_wait k"
| "wait_of (Reset_close k) = next_wait k"
| "wait_of (Acquire_open w) = Some w"
| "wait_of (Acquire_flock i w) = Some w"
| "wait_of (Acquire_check i w) = Some w"
| "wait_of (Acquire_close w) = Some w"
| "wait_of _ = None"

text \<open>C35: Waiting ends. Every system call of a waiting call brings its turn closer to the end, whatever the others do; a
  turn ends inside the lock, in an exception, or in a new turn, and in a new turn only while the time read in it
  is before the timeout. \<open>TimeoutError\<close> is raised only at or after the timeout.
\<close>

theorem waiting_ends:
  assumes "lk_exec env a Syscall s = Some t" "wait_of (lk_pcs s a) = Some w"
  shows "(turn_rank (lk_pcs t a) < turn_rank (lk_pcs s a) \<and> (wait_of (lk_pcs t a) = Some w \<or> turn_rank (lk_pcs t a) = 0) \<or>
      lk_pcs t a = Loop_top w \<and> lw_now w - lw_start w < lw_timeout w) \<and>
    (lk_pcs t a = Done (Some TimeoutError) \<longrightarrow> lw_timeout w \<le> lw_now w - lw_start w)"
  using assms
  by (cases "lk_pcs s a") (auto simp: lk_exec_def Let_def reset_done_def os_close_def
      split: if_splits option.splits prod.splits lk_next.splits)

theorem waiting_ends_witness:
  "\<exists>s t w. lk_run (demo_calls 8 1 2) demo_dead_writer = Some s \<and> lk_exec (demo_env 8) 2 Syscall s = Some t \<and>
     wait_of (lk_pcs s 2) = Some w \<and> turn_rank (lk_pcs t 2) < turn_rank (lk_pcs s 2)"
proof -
  let ?s = "the (lk_run (demo_calls 8 1 2) demo_dead_writer)"
  let ?t = "the (lk_exec (demo_env 8) 2 Syscall ?s)"
  let ?w = "\<lparr>lw_mode = LOCK_EX, lw_timeout = 60, lw_start = 0, lw_now = 0, lw_failed = None\<rparr>"
  have s: "lk_run (demo_calls 8 1 2) demo_dead_writer = Some ?s" by (rule option.collapse [symmetric]) code_simp
  have t: "lk_exec (demo_env 8) 2 Syscall ?s = Some ?t" by (rule option.collapse [symmetric]) code_simp
  have w: "wait_of (lk_pcs ?s 2) = Some ?w" and "lk_pcs ?t 2 \<noteq> Loop_top ?w" by code_simp+
  with s t waiting_ends [OF t w] show ?thesis by blast
qed

section \<open>Cleanups remove exactly the stale sidecars\<close>

lemma strip_lock_suffix_ends: "\<not> ends_with LOCK_SUFFIX (strip_lock_suffix s)"
  by (induction s rule: strip_lock_suffix.induct) (subst strip_lock_suffix.simps, simp)

lemma strip_lock_suffix_id: "\<not> ends_with LOCK_SUFFIX s \<Longrightarrow> strip_lock_suffix s = s"
  by (subst strip_lock_suffix.simps) simp

lemma strip_lock_suffix_append: "strip_lock_suffix (s @ LOCK_SUFFIX) = strip_lock_suffix s"
  by (subst strip_lock_suffix.simps) (simp add: ends_with_drop)

lemma lock_path_idem: "lock_path (lock_path t) = lock_path t" "target_path_from_lock_sidecar (lock_path t) = strip_lock_suffix t"
  by (simp_all add: lock_path_def target_path_from_lock_sidecar_def strip_lock_suffix_append strip_lock_suffix_id
      strip_lock_suffix_ends)

definition stale_lock :: "nat \<Rightarrow> rat \<Rightarrow> rat \<Rightarrow> lk_state \<Rightarrow> bool" where
  "stale_lock a now expiry s = (case lk_sidecar s of None \<Rightarrow> False | Some i \<Rightarrow>
     (expiry > 0 \<longrightarrow> now - lk_mtime s i > expiry) \<and> flock_free i LOCK_EX a s)"

lemma maybe_reset_eq:
  "maybe_reset_stale_lock_file a now expiry s =
     (if stale_lock a now expiry s then (True, s\<lparr>lk_sidecar := None\<rparr>) else (False, s))"
  by (auto simp: maybe_reset_stale_lock_file_def stale_lock_def not_less split: option.splits)

lemma reset_all_exact:
  "reset_all a now expiry targets locks =
     (card {p \<in> lock_path ` set targets. stale_lock a now expiry (locks p)},
      \<lambda>p. if p \<in> lock_path ` set targets \<and> stale_lock a now expiry (locks p) then (locks p)\<lparr>lk_sidecar := None\<rparr> else locks p)"
proof (induction targets arbitrary: locks)
  case (Cons x xs)
  let ?p = "lock_path x"
  let ?S = "\<lambda>P. {p \<in> P. stale_lock a now expiry (locks p)}"
  have gone: "\<not> stale_lock a now expiry ((locks ?p)\<lparr>lk_sidecar := None\<rparr>)" by (simp add: stale_lock_def)
  show ?case
  proof (cases "stale_lock a now expiry (locks ?p)")
    case True
    then have "?S (lock_path ` set (x # xs)) = insert ?p (?S (lock_path ` set xs - {?p}))" by auto
    moreover have "{p \<in> lock_path ` set xs. stale_lock a now expiry ((locks(?p := (locks ?p)\<lparr>lk_sidecar := None\<rparr>)) p)} =
        ?S (lock_path ` set xs - {?p})" using gone by auto
    ultimately show ?thesis
      using True gone by (simp add: Cons.IH maybe_reset_eq) (auto simp: fun_eq_iff)
  next
    case False
    then have "?S (lock_path ` set (x # xs)) = ?S (lock_path ` set xs)" by auto
    with False show ?thesis by (simp add: Cons.IH maybe_reset_eq del: fun_upd_apply) (auto simp: fun_eq_iff)
  qed
qed simp

lemma ends_with_append: "ends_with suf (xs @ ys) \<longleftrightarrow> ends_with suf ys" if "length suf \<le> length ys"
  using that by (auto simp: ends_with_drop)

lemma ends_with_join: "ends_with LOCK_SUFFIX name \<Longrightarrow> ends_with LOCK_SUFFIX (py_path_join dir name)"
  using ends_with_append [of LOCK_SUFFIX name] ends_with_append [of LOCK_SUFFIX name "dir @ ''/''"]
  by (simp add: py_path_join_def ends_with_drop [of _ name])

lemma lock_path_stripped: "lock_path (strip_lock_suffix s) = lock_path s"
  by (simp add: lock_path_def strip_lock_suffix_id [OF strip_lock_suffix_ends])

lemma strip_lock_suffix_other: "ends_with LOCK_SUFFIX s \<Longrightarrow> strip_lock_suffix s \<noteq> s"
  using strip_lock_suffix_ends [of s] by auto

text \<open>The sidecars a cleanup looks at: those of the names with the suffix, but for a name that is nothing else.\<close>

definition walked_sidecars :: "(string \<times> string list) list \<Rightarrow> string set" where
  "walked_sidecars walk = (\<Union>(dir, files) \<in> set walk. \<Union>name \<in> set files.
     {p. ends_with LOCK_SUFFIX name \<and> strip_lock_suffix (py_path_join dir name) \<noteq> [] \<and> p = lock_path (py_path_join dir name)})"

lemma lock_paths_walked: "lock_path ` set (sidecar_targets walk) = walked_sidecars walk"
proof -
  have "lock_path ` set (sidecar_target dir name) =
      {p. ends_with LOCK_SUFFIX name \<and> strip_lock_suffix (py_path_join dir name) \<noteq> [] \<and> p = lock_path (py_path_join dir name)}"
    for dir name
    using strip_lock_suffix_other [OF ends_with_join, of name dir]
    by (auto simp: sidecar_target_def target_path_from_lock_sidecar_def Let_def lock_path_stripped)
  then show ?thesis
    by (simp add: sidecar_targets_def walked_sidecars_def image_UN case_prod_unfold)
qed

text \<open>A cleanup removes exactly the sidecars found by the walk that are old enough and that nobody has locked, and
  returns their number; every other sidecar, a locked one in particular, is as it was.
\<close>

theorem cleanup_exact:
  "cleanup_stale_fnctl_lock_sidecars a isdir now expiry walk locks =
     (let doomed = {p. isdir \<and> p \<in> walked_sidecars walk \<and> stale_lock a now expiry (locks p)} in
      (card doomed, \<lambda>p. if p \<in> doomed then (locks p)\<lparr>lk_sidecar := None\<rparr> else locks p))"
  by (cases isdir) (simp_all add: cleanup_stale_fnctl_lock_sidecars_def reset_all_exact lock_paths_walked Let_def)

text \<open>A reset that is not interrupted is what its system calls do one after the other.\<close>

lemma reset_refines:
  assumes "lk_inv s" "lk_pcs s a = Done e" "calm env"
  shows "\<exists>n t. lk_run ((env, a, Cleanup expiry) # replicate n (env, a, Syscall)) s = Some t \<and> lk_pcs t a = Done None \<and>
    lk_sidecar t = lk_sidecar (snd (maybe_reset_stale_lock_file a (le_now env) expiry s)) \<and>
    map_of (lk_fds t) = map_of (lk_fds s)"
proof (cases "lk_sidecar s")
  case None
  then show ?thesis
    using assms by (intro exI [of _ 1]) (simp add: solo_step Let_def maybe_reset_stale_lock_file_def)
next
  case (Some i)
  have fd: "map_of (lk_fds s) a = None" using lk_invD(1) [OF assms(1), of a] assms(2) by simp
  then have del: "map_of (AList.delete a (lk_fds s)) = map_of (lk_fds s)"
    by (simp add: AList.delete_conv' fun_upd_idem)
  have flock: "flock_free i LOCK_EX a (s\<lparr>lk_fds := AList.update a v (lk_fds s), lk_pcs := p\<rparr>) \<longleftrightarrow> flock_free i LOCK_EX a s" for v p
    using fd by (auto simp: flock_free_def list_all_iff update_fresh map_of_eq_None_iff)
  let ?n = "(if expiry > 0 then 1 else 0) + (if expiry > 0 \<and> le_now env - lk_mtime s i \<le> expiry then 1
     else if flock_free i LOCK_EX a s then 6 else 4)"
  show ?thesis
    using assms Some
    by (intro exI [of _ ?n]) (simp add: calm_def numeral_eq_Suc lk_exec_def os_open_def os_close_def
        sidecar_is_current_def reset_done_def Let_def maybe_reset_stale_lock_file_def flock del AList.delete_update_same)
qed

text \<open>
  A try-lock may fail although nobody is inside: the probe of another call has the file locked for a moment. Call
  2 probes what a dead writer left, call 3 finds it locked and gives up with a timeout of 0.
\<close>

lemma try_lock_fails_unheld:
  "\<exists>s. lk_run (demo_calls 8 4 2 @ (demo_env 8, 3, try_file_write_lock) # demo_calls 8 8 3) demo_dead_writer = Some s \<and>
     lk_pcs s 3 = Done (Some TimeoutError) \<and> list_all (\<lambda>a. \<not> holds_lock a LOCK_EX s \<and> \<not> holds_lock a LOCK_SH s) [1, 2, 3]"
proof -
  let ?r = "lk_run (demo_calls 8 4 2 @ (demo_env 8, 3, try_file_write_lock) # demo_calls 8 8 3) demo_dead_writer"
  have "?r = Some (the ?r)" by (rule option.collapse [symmetric]) code_simp
  moreover have "lk_pcs (the ?r) 3 = Done (Some TimeoutError)"
    "list_all (\<lambda>a. \<not> holds_lock a LOCK_EX (the ?r) \<and> \<not> holds_lock a LOCK_SH (the ?r)) [1, 2, 3]" by code_simp+
  ultimately show ?thesis by blast
qed

section \<open>Timing of the locks\<close>

definition FILE_LOCK_TELEM_KEYS :: "string list" where
  "FILE_LOCK_TELEM_KEYS = [''file_lock_sh_wait_s'', ''file_lock_sh_hold_s'', ''file_lock_ex_wait_s'', ''file_lock_ex_hold_s'']"

record file_lock_telem =
  ft_on :: bool
  ft_totals :: "(string, rat) dict"

definition reset_file_lock_timing :: "bool \<Rightarrow> file_lock_telem \<Rightarrow> file_lock_telem" where
  "reset_file_lock_timing enabled f =
     f\<lparr>ft_on := enabled, ft_totals := fold (\<lambda>k. AList.update k 0) FILE_LOCK_TELEM_KEYS (ft_totals f)\<rparr>"

definition ft_total :: "string \<Rightarrow> file_lock_telem \<Rightarrow> rat" where
  "ft_total key f = (case map_of (ft_totals f) key of None \<Rightarrow> 0 | Some x \<Rightarrow> x)"

definition snapshot_file_lock_timing :: "file_lock_telem \<Rightarrow> (string, rat) dict" where
  "snapshot_file_lock_timing f = (if \<not> ft_on f then [] else map (\<lambda>k. (k, ft_total k f)) FILE_LOCK_TELEM_KEYS)"

definition add_file_lock_timing :: "string \<Rightarrow> rat \<Rightarrow> file_lock_telem \<Rightarrow> file_lock_telem" where
  "add_file_lock_timing key delta f =
     (if \<not> ft_on f \<or> delta \<le> 0 \<or> key \<notin> set FILE_LOCK_TELEM_KEYS then f
      else f\<lparr>ft_totals := AList.update key (ft_total key f + delta) (ft_totals f)\<rparr>)"

lemma timing_add:
  assumes "ft_on f" "key \<in> set FILE_LOCK_TELEM_KEYS"
  shows "ft_total key (add_file_lock_timing k d f) = ft_total key f + (if k = key \<and> 0 < d then d else 0)"
    "ft_on (add_file_lock_timing k d f)"
  using assms by (auto simp: add_file_lock_timing_def ft_total_def AList.update_conv')

lemma timing_sums:
  "ft_on f \<Longrightarrow> key \<in> set FILE_LOCK_TELEM_KEYS \<Longrightarrow>
    ft_total key (fold (\<lambda>(k, d). add_file_lock_timing k d) spans f) =
      ft_total key f + sum_list (map snd (filter (\<lambda>(k, d). k = key \<and> 0 < d) spans))"
  by (induction spans arbitrary: f) (auto simp: timing_add split: if_splits)

end
