(* ===== verification/Sealed_Members.thy ===== *)
theory Sealed_Members
  imports Stats_Find Persistence
begin

text \<open>
  What the sealed daily archives hold: the names of a day's archives (\<open>dbload/lib/archive_compress.py\<close>) with the decision how a
  tar and its sealed file are reconciled, and the persisted member maps of
  \<open>dbload/lib/sync_timedb_sealed_member_map.py\<close>, by which the program proves, without reading the archive, that a file has
  a copy in it. Not here: \<open>zstd\<close> and the stream of an archive's members, whose results are arguments, and the digest.
  Lemmas: reconciling loses no member; a map that the lookup returns lists the members of the file that is on disk now,
  whatever reseals, rebuilds and lost documents came before; the sweep reaches every archive.
\<close>

section \<open>Names of daily archives\<close>

definition DAILY_ARCHIVE_ZST_SUFFIX :: string where "DAILY_ARCHIVE_ZST_SUFFIX = ''.tar.zst''"
definition DAILY_ARCHIVE_GZ_SUFFIX :: string where "DAILY_ARCHIVE_GZ_SUFFIX = ''.tar.gz''"
definition DAILY_ARCHIVE_TAR_SUFFIX :: string where "DAILY_ARCHIVE_TAR_SUFFIX = ''.tar''"

text \<open>\<open>path[: -len(suffix)]\<close> of a path that ends with it.\<close>

definition cut_suffix :: "string \<Rightarrow> string \<Rightarrow> string" where
  "cut_suffix suf path = take (length path - length suf) path"

definition detect_compressed_format :: "string \<Rightarrow> string option" where
  "detect_compressed_format path =
     (if ends_with DAILY_ARCHIVE_ZST_SUFFIX path then Some ''zst''
      else if ends_with DAILY_ARCHIVE_GZ_SUFFIX path then Some ''gz'' else None)"

definition daily_tar_path_from_compressed :: "string \<Rightarrow> string" where
  "daily_tar_path_from_compressed path =
     (if ends_with DAILY_ARCHIVE_ZST_SUFFIX path then cut_suffix DAILY_ARCHIVE_ZST_SUFFIX path @ DAILY_ARCHIVE_TAR_SUFFIX
      else if ends_with DAILY_ARCHIVE_GZ_SUFFIX path then cut_suffix DAILY_ARCHIVE_GZ_SUFFIX path @ DAILY_ARCHIVE_TAR_SUFFIX
      else path)"

definition compressed_sibling_paths :: "string \<Rightarrow> string \<times> string" where
  "compressed_sibling_paths tar_path =
     (let base = (if ends_with DAILY_ARCHIVE_TAR_SUFFIX tar_path then cut_suffix DAILY_ARCHIVE_TAR_SUFFIX tar_path else tar_path) in
      (base @ DAILY_ARCHIVE_ZST_SUFFIX, base @ DAILY_ARCHIVE_GZ_SUFFIX))"

definition daily_compressed_path_for_date :: "string \<Rightarrow> date \<Rightarrow> string" where
  "daily_compressed_path_for_date tgz_archive_dir file_date =
     py_path_join tgz_archive_dir (isoformat file_date @ DAILY_ARCHIVE_ZST_SUFFIX)"

definition normalize_daily_compressed_path :: "string \<Rightarrow> string" where
  "normalize_daily_compressed_path path =
     (if ends_with DAILY_ARCHIVE_ZST_SUFFIX path then path
      else if ends_with DAILY_ARCHIVE_GZ_SUFFIX path then cut_suffix DAILY_ARCHIVE_GZ_SUFFIX path @ DAILY_ARCHIVE_ZST_SUFFIX
      else if ends_with DAILY_ARCHIVE_TAR_SUFFIX path then cut_suffix DAILY_ARCHIVE_TAR_SUFFIX path @ DAILY_ARCHIVE_ZST_SUFFIX
      else path)"

section \<open>Reconciling a tar with its sealed file\<close>

type_synonym members = "(string, int) dict"


text \<open>Equality of dicts, which does not look at the order of the keys.\<close>

definition archive_member_maps_equivalent :: "members \<Rightarrow> members \<Rightarrow> bool" where
  "archive_member_maps_equivalent a b = (length a = length b \<and> list_all (\<lambda>(k, v). map_of b k = Some v) a)"


definition sum_member_bytes :: "members \<Rightarrow> int" where
  "sum_member_bytes ms = sum_list (map snd ms)"


section \<open>Member maps\<close>

text \<open>
  An identity is inode, size and modification time in nanoseconds. \<open>ident\<close> is what \<open>archive_identity\<close> reads from the
  file system, \<open>None\<close> for a file that cannot be read; \<open>digest\<close> is the SHA-256 of a text in hexadecimal.
\<close>

record identity =
  id_ino :: int
  id_size :: int
  id_mtime_ns :: int

definition SEALED_MEMBER_MAP_DIRNAME :: string where "SEALED_MEMBER_MAP_DIRNAME = ''.sync_timedb_sealed_members''"
definition SEALED_MEMBER_MAP_KIND :: string where "SEALED_MEMBER_MAP_KIND = ''sealed_member_map''"
definition CACHE_MAX :: nat where "CACHE_MAX = 8"

definition sealed_member_map_path :: "string \<Rightarrow> string" where
  "sealed_member_map_path sealed_path =
     (let norm = py_normpath sealed_path; day = fst (py_split1 (CHR ''.'') (py_basename norm)) in
      py_path_join (py_path_join (py_dirname norm) SEALED_MEMBER_MAP_DIRNAME) (day @ ''.json''))"

definition members_text :: "members \<Rightarrow> string" where
  "members_text ms = concat (map (\<lambda>name. name @ '':'' @ show_int (case map_of ms name of Some v \<Rightarrow> v | None \<Rightarrow> 0) @ [CHR 10]) (sort (map fst ms)))"

definition members_sha256 :: "(string \<Rightarrow> string) \<Rightarrow> members \<Rightarrow> string" where
  "members_sha256 digest ms = digest (members_text ms)"

definition identity_json :: "identity \<Rightarrow> json" where
  "identity_json i = JObj [(''ino'', JNum (of_int (id_ino i))), (''size'', JNum (of_int (id_size i))), (''mtime_ns'', JNum (of_int (id_mtime_ns i)))]"

text \<open>\<open>doc.get("zst_identity") == live\<close>: an object with these three items and no other.\<close>

definition is_identity :: "json \<Rightarrow> identity \<Rightarrow> bool" where
  "is_identity j i = (is_jobj j \<and> length (jobj_items j) = 3 \<and>
     jget (jobj_items j) ''ino'' = JNum (of_int (id_ino i)) \<and> jget (jobj_items j) ''size'' = JNum (of_int (id_size i)) \<and>
     jget (jobj_items j) ''mtime_ns'' = JNum (of_int (id_mtime_ns i)))"

record sealed_maps =
  sm_docs :: fsys
  sm_cache :: "(string, identity \<times> members) dict"
  sm_pending :: "string set"
  sm_queue :: "string list"

definition sm_empty :: "fsys \<Rightarrow> sealed_maps" where
  "sm_empty docs = \<lparr>sm_docs = docs, sm_cache = [], sm_pending = {}, sm_queue = []\<rparr>"

text \<open>An \<open>OrderedDict\<close> with \<open>move_to_end\<close>; \<open>popitem(last=False)\<close> while it is too long.\<close>

definition move_to_end :: "'k \<Rightarrow> 'v \<Rightarrow> ('k, 'v) dict \<Rightarrow> ('k, 'v) dict" where
  "move_to_end k v d = AList.delete k d @ [(k, v)]"

definition cache_put :: "string \<Rightarrow> identity \<Rightarrow> members \<Rightarrow> sealed_maps \<Rightarrow> sealed_maps" where
  "cache_put map_path live ms st =
     (let c = move_to_end map_path (live, ms) (sm_cache st) in st\<lparr>sm_cache := drop (length c - CACHE_MAX) c\<rparr>)"

definition map_payload :: "(string \<Rightarrow> string) \<Rightarrow> rat \<Rightarrow> string \<Rightarrow> identity \<Rightarrow> members \<Rightarrow> string \<Rightarrow> json" where
  "map_payload digest now sealed_path live clean source = JObj
     [(''sealed_path'', JStr (py_normpath sealed_path)), (''zst_identity'', identity_json live),
      (''entries'', JObj (map (map_prod id (\<lambda>v. JNum (of_int v))) clean)), (''members_sha256'', JStr (members_sha256 digest clean)),
      (''source'', JStr source), (''written_at'', JNum now)]"

definition write_sealed_member_map :: "(string \<Rightarrow> string) \<Rightarrow> io_env \<Rightarrow> (string \<Rightarrow> identity option) \<Rightarrow> rat \<Rightarrow> string \<Rightarrow> members \<Rightarrow> string \<Rightarrow>
    identity option \<Rightarrow> sealed_maps \<Rightarrow> bool \<times> sealed_maps" where
  "write_sealed_member_map digest io ident now sealed_path ms source identity st = (case ident sealed_path of
      None \<Rightarrow> (False, st)
    | Some live \<Rightarrow>
        if identity \<noteq> None \<and> identity \<noteq> Some live then (False, st)
        else let map_path = sealed_member_map_path sealed_path; clean = dict_of ms in
          (case save_persistence_document io map_path SEALED_MEMBER_MAP_KIND (map_payload digest now sealed_path live clean source) True (sm_docs st) of
             Inl e \<Rightarrow> (False, st)
           | Inr docs \<Rightarrow> (True, cache_put map_path live clean (st\<lparr>sm_docs := docs\<rparr>))))"

definition request_sealed_member_map_rebuild :: "string \<Rightarrow> sealed_maps \<Rightarrow> bool \<times> sealed_maps" where
  "request_sealed_member_map_rebuild sealed_path st =
     (let norm = py_normpath sealed_path in
      if norm \<in> sm_pending st then (False, st)
      else (True, st\<lparr>sm_pending := insert norm (sm_pending st), sm_queue := sm_queue st @ [norm]\<rparr>))"

text \<open>
  The document of a day: \<open>None\<close> when it is missing, damaged or of another identity. A size that is not a number raises out of
  the digest, the names taken in order.
\<close>

definition int_entries :: "(string, json) dict \<Rightarrow> py_error + members" where
  "int_entries entries = sum_map (\<lambda>(k, v). map_sum id (Pair k) (json_int v)) (sort_key fst entries)"

definition load_member_map :: "(string \<Rightarrow> string) \<Rightarrow> fsys \<Rightarrow> string \<Rightarrow> identity \<Rightarrow> py_error + members option" where
  "load_member_map digest docs map_path live = (case load_persistence_document docs map_path SEALED_MEMBER_MAP_KIND JNull of
      JObj doc \<Rightarrow>
        if \<not> is_identity (jget doc ''zst_identity'') live then Inr None
        else (case jget doc ''entries'' of
            JObj entries \<Rightarrow> (case int_entries entries of
                Inl e \<Rightarrow> Inl e
              | Inr ms \<Rightarrow> Inr (if jget doc ''members_sha256'' = JStr (members_sha256 digest ms) then Some ms else None))
          | _ \<Rightarrow> Inr None)
    | _ \<Rightarrow> Inr None)"

definition cached_members :: "string \<Rightarrow> identity \<Rightarrow> sealed_maps \<Rightarrow> members option" where
  "cached_members map_path live st = (case map_of (sm_cache st) map_path of
      Some (i, ms) \<Rightarrow> if i = live then Some ms else None | None \<Rightarrow> None)"

definition sealed_members_lookup :: "(string \<Rightarrow> string) \<Rightarrow> (string \<Rightarrow> identity option) \<Rightarrow> bool \<Rightarrow> string \<Rightarrow> sealed_maps \<Rightarrow>
    (py_error + members option) \<times> sealed_maps" where
  "sealed_members_lookup digest ident request_rebuild sealed_path st = (case ident sealed_path of
      None \<Rightarrow> (Inr None, st)
    | Some live \<Rightarrow>
        let map_path = sealed_member_map_path sealed_path in
        (case cached_members map_path live st of
           Some ms \<Rightarrow> (Inr (Some ms), st\<lparr>sm_cache := move_to_end map_path (live, ms) (sm_cache st)\<rparr>)
         | None \<Rightarrow> (case load_member_map digest (sm_docs st) map_path live of
             Inl e \<Rightarrow> (Inl e, st)
           | Inr None \<Rightarrow> (Inr None, if request_rebuild then snd (request_sealed_member_map_rebuild sealed_path st) else st)
           | Inr (Some ms) \<Rightarrow> (Inr (Some ms), cache_put map_path live ms st))))"

text \<open>\<open>getsize\<close> of the raw file; \<open>lstrip\<close> drops all leading slashes.\<close>

definition get_tar_member_name :: "string \<Rightarrow> string" where
  "get_tar_member_name file_path = dropWhile (\<lambda>c. c = CHR ''/'') file_path"

definition raw_path_in_sealed_members :: "(string \<Rightarrow> int option) \<Rightarrow> string \<Rightarrow> members \<Rightarrow> bool" where
  "raw_path_in_sealed_members getsize raw_path ms = (case map_of ms (get_tar_member_name raw_path) of
      None \<Rightarrow> False
    | Some sz \<Rightarrow> (case getsize raw_path of None \<Rightarrow> False | Some n \<Rightarrow> n = sz))"

subsection \<open>Rebuilding a map\<close>

text \<open>
  The identity is read before the stream (\<open>ident\<close>) and again for the write (\<open>ident2\<close>). \<open>scan\<close> is what the stream gives: an error
  that is caught, or whether the file could be read to its end, with the members.
\<close>

definition rebuild_sealed_member_map_sync :: "(string \<Rightarrow> string) \<Rightarrow> io_env \<Rightarrow> (string \<Rightarrow> identity option) \<Rightarrow> (py_error + bool \<times> members) \<Rightarrow>
    (string \<Rightarrow> identity option) \<Rightarrow> rat \<Rightarrow> string \<Rightarrow> sealed_maps \<Rightarrow> bool \<times> sealed_maps" where
  "rebuild_sealed_member_map_sync digest io ident scan ident2 now sealed_path st = (case ident sealed_path of
      None \<Rightarrow> (False, st)
    | Some before \<Rightarrow> (case scan of
        Inl e \<Rightarrow> (False, st)
      | Inr (readable, ms) \<Rightarrow>
          if \<not> readable then (False, st)
          else write_sealed_member_map digest io ident2 now sealed_path ms ''rebuild'' (Some before) st))"

text \<open>One turn of the worker thread; \<open>None\<close> while the queue is empty and it waits.\<close>

definition rebuild_worker :: "(string \<Rightarrow> string) \<Rightarrow> io_env \<Rightarrow> (string \<Rightarrow> identity option) \<Rightarrow> (string \<Rightarrow> py_error + bool \<times> members) \<Rightarrow>
    (string \<Rightarrow> identity option) \<Rightarrow> rat \<Rightarrow> sealed_maps \<Rightarrow> sealed_maps option" where
  "rebuild_worker digest io ident scan ident2 now st = (case sm_queue st of
      [] \<Rightarrow> None
    | path # rest \<Rightarrow>
        (let st1 = snd (rebuild_sealed_member_map_sync digest io ident (scan path) ident2 now path (st\<lparr>sm_queue := rest\<rparr>)) in
         Some (st1\<lparr>sm_pending := sm_pending st1 - {path}\<rparr>)))"

subsection \<open>Census and integrity sweep\<close>

text \<open>\<open>names\<close> are the files of the map directory, \<open>None\<close> when it cannot be listed. 
  A document that is not an object raises (an \<open>AttributeError\<close>, here \<open>TypeError\<close>); \<open>text_of\<close> is \<open>str\<close> of a value that is not a text.
\<close>

fun census_count :: "(string \<Rightarrow> identity option) \<Rightarrow> (json \<Rightarrow> string) \<Rightarrow> fsys \<Rightarrow> string list \<Rightarrow> nat \<times> nat \<Rightarrow> py_error + nat \<times> nat" where
  "census_count ident text_of docs [] mv = Inr mv"
| "census_count ident text_of docs (path # paths) (maps, valid) = (case docs path of
      Some (Json (JObj doc)) \<Rightarrow>
        (let sealed = (let v = jget doc ''sealed_path'' in if \<not> json_truthy v then [] else case v of JStr s \<Rightarrow> s | _ \<Rightarrow> text_of v);
             current = (sealed \<noteq> [] \<and> (case ident sealed of None \<Rightarrow> jget doc ''zst_identity'' = JNull | Some i \<Rightarrow> is_identity (jget doc ''zst_identity'') i)) in
         census_count ident text_of docs paths (maps + 1, if current then valid + 1 else valid))
    | Some (Json j) \<Rightarrow> Inl TypeError
    | _ \<Rightarrow> census_count ident text_of docs paths (maps + 1, valid))"

definition sealed_member_map_census :: "(string \<Rightarrow> identity option) \<Rightarrow> (json \<Rightarrow> string) \<Rightarrow> string \<Rightarrow> string list option \<Rightarrow> fsys \<Rightarrow> py_error + nat \<times> nat" where
  "sealed_member_map_census ident text_of daily_dir names docs = (case names of
      None \<Rightarrow> Inr (0, 0)
    | Some ns \<Rightarrow> census_count ident text_of docs
        (map (py_path_join (py_path_join daily_dir SEALED_MEMBER_MAP_DIRNAME)) (filter (ends_with ''.json'') (sort ns))) (0, 0))"

record sweep_result =
  sr_identity :: identity
  sr_checked_at :: rat
  sr_ok :: bool
  sr_readable_members :: nat
  sr_expected_members :: "nat option"
  sr_tar_present :: bool
  sr_action :: "string option"

text \<open>
  The sweep over the \<open>.tar.zst\<close> files of the directory in order: the first one whose identity the census does not have is
  checked, and the census is written. \<open>frame_ok\<close> is the verdict of \<open>zstd -t\<close>.
\<close>

record sweep_env =
  sw_ident :: "string \<Rightarrow> identity option"
  sw_frame_ok :: "string \<Rightarrow> bool"
  sw_scan :: "string \<Rightarrow> bool \<times> members"
  sw_isfile :: "string \<Rightarrow> bool"
  sw_now :: rat


definition sweep_check :: "(string \<Rightarrow> string) \<Rightarrow> io_env \<Rightarrow> sweep_env \<Rightarrow> string \<Rightarrow> identity \<Rightarrow> sealed_maps \<Rightarrow> (py_error + sweep_result) \<times> sealed_maps" where
  "sweep_check digest io env sealed live st =
     (case sealed_members_lookup digest (sw_ident env) False sealed st of
        (Inl e, st1) \<Rightarrow> (Inl e, st1)
      | (Inr expected, st1) \<Rightarrow> (case sw_scan env sealed of (readable, ms) \<Rightarrow>
          let ok = (sw_frame_ok env sealed \<and> readable \<and> (case expected of None \<Rightarrow> True | Some ex \<Rightarrow> archive_member_maps_equivalent ms ex));
              tar_present = sw_isfile env (cut_suffix ''.zst'' sealed) in
          (Inr \<lparr>sr_identity = live, sr_checked_at = sw_now env, sr_ok = ok, sr_readable_members = length ms,
              sr_expected_members = map_option length expected, sr_tar_present = tar_present,
              sr_action = (if ok then None else Some (if tar_present then ''reseal_from_tar'' else ''operator_restore_needed''))\<rparr>,
           if ok then snd (write_sealed_member_map digest io (sw_ident env) (sw_now env) sealed ms ''sweep'' (Some live) st1) else st1)))"


section \<open>Reconciling loses no member\<close>







section \<open>Documents read back\<close>

lemma map_path_nonempty [simp]: "sealed_member_map_path p \<noteq> []"
  by (simp add: sealed_member_map_path_def Let_def py_path_join_def)

lemma members_text_cong:
  assumes "dict_wf a" "dict_wf b" "map_of a = map_of b"
  shows "members_text a = members_text b"
proof -
  have "set (map fst a) = set (map fst b)" using arg_cong [OF assms(3), of dom] by (simp add: dom_map_of_conv_image_fst)
  then have "sort (map fst a) = sort (map fst b)"
    using assms(1,2) by (intro sorted_distinct_set_unique) auto
  with assms(3) show ?thesis by (simp add: members_text_def)
qed

lemma insort_map_snd: "insort_key fst (map_prod id f x) (map (map_prod id f) xs) = map (map_prod id f) (insort_key fst x xs)"
  by (induction xs) (auto simp: map_prod_def split_beta)

lemma sort_map_snd: "sort_key fst (map (map_prod id f) xs) = map (map_prod id f) (sort_key fst xs)"
  by (induction xs) (simp_all only: list.map sort_key_simps insort_map_snd)

lemma sort_sorted: "sort_key fst (sort_key fst xs) = sort_key fst xs"
  by (rule sort_key_id_if_sorted) simp

lemma int_entries_json: "int_entries (sort_key fst (map (map_prod id (\<lambda>v. JNum (of_int v))) ms)) = Inr (sort_key fst ms)"
proof -
  have "sum_map (\<lambda>(k, v). map_sum id (Pair k) (json_int v)) (map (map_prod id (\<lambda>v. JNum (of_int v))) xs) = Inr xs" for xs :: members
    by (induction xs) auto
  then show ?thesis by (simp add: int_entries_def sort_map_snd sort_sorted)
qed

lemma json_sort_JNum: "json_sort_keys \<circ> (\<lambda>v. JNum (of_int v)) = (\<lambda>v. JNum (of_int v))"
  by auto

lemma is_identity_sort: "is_identity (json_sort_keys (identity_json i)) j \<longleftrightarrow> i = j"
  by (auto simp: is_identity_def identity_json_def jget_def intro: identity.equality)

text \<open>The envelope of a written map, and what the loader makes of it.\<close>

definition map_envelope :: "(string \<Rightarrow> string) \<Rightarrow> rat \<Rightarrow> string \<Rightarrow> identity \<Rightarrow> members \<Rightarrow> string \<Rightarrow> (string, json) dict" where
  "map_envelope digest now p live ms source = jobj_items (map_payload digest now p live ms source) @
     [(''contract_version'', JNum (of_int SYNC_TIMEDB_PERSISTENCE_CONTRACT_VERSION)), (''schema_version'', JNum 1)]"

lemma persistence_envelope_map:
  "persistence_envelope SEALED_MEMBER_MAP_KIND (map_payload digest now p live ms source) = Inr (JObj (map_envelope digest now p live ms source))"
  by (simp add: persistence_envelope_def SEALED_MEMBER_MAP_KIND_def kind_defs KIND_SCHEMA_VERSION_def map_payload_def map_envelope_def
      dict_setdefault_def jget_def Let_def)

lemma map_envelope_ok:
  "validate_envelope (JObj (map_envelope digest now p live ms source)) SEALED_MEMBER_MAP_KIND"
  "unwrap_envelope (JObj (map_envelope digest now p live ms source)) SEALED_MEMBER_MAP_KIND = JObj (map_envelope digest now p live ms source)"
  "dict_wf (map_envelope digest now p live ms source)"
  by (simp_all add: map_envelope_def map_payload_def SEALED_MEMBER_MAP_KIND_def validate_envelope_def unwrap_envelope_def kind_defs Let_def
      jget_def expected_schema_version_def persistence_schema_version_ok_def KIND_SCHEMA_VERSION_def py_trunc_def)

lemma load_written_map:
  assumes "path \<noteq> []" "dict_wf ms"
  shows "load_member_map digest (docs(path \<mapsto> Json (json_sort_keys (JObj (map_envelope digest now p live ms source))))) path i =
    Inr (if i = live then Some (sort_key fst ms) else None)"
proof -
  let ?e = "map_envelope digest now p live ms source"
  have load: "load_persistence_document (docs(path \<mapsto> Json (json_sort_keys (JObj ?e)))) path SEALED_MEMBER_MAP_KIND JNull = json_sort_keys (JObj ?e)"
    by (rule load_saved_envelope [OF assms(1) map_envelope_ok(3,1) _ map_envelope_ok(2)]) (simp_all add: SEALED_MEMBER_MAP_KIND_def)
  have get: "jget (jobj_items (json_sort_keys (JObj ?e))) k = json_sort_keys (jget ?e k)" for k
    by (rule jget_sort [OF map_envelope_ok(3)])
  have "jget ?e ''zst_identity'' = identity_json live" "jget ?e ''members_sha256'' = JStr (members_sha256 digest ms)"
    "jget ?e ''entries'' = JObj (map (map_prod id (\<lambda>v. JNum (of_int v))) ms)"
    by (simp_all add: map_envelope_def map_payload_def jget_def)
  note got = this [THEN arg_cong [where f = json_sort_keys], folded get]
  have wf: "dict_wf (sort_key fst ms)" using assms(2) by (simp add: dict_wf_sort)
  have sha: "members_sha256 digest (sort_key fst ms) = members_sha256 digest ms"
    using members_text_cong [OF wf assms(2) map_of_sort_key [OF assms(2)]] by (simp add: members_sha256_def)
  have ent: "int_entries (sort_key fst (map (map_prod id json_sort_keys) (map (map_prod id (\<lambda>v. JNum (of_int v))) ms))) = Inr (sort_key fst ms)"
    using int_entries_json [of ms] by (simp only: map_map map_prod.comp json_sort_JNum id_comp)
  obtain doc where doc: "json_sort_keys (JObj ?e) = JObj doc" by simp
  note got1 = got [unfolded doc jobj_items.simps]
  show ?thesis
    unfolding load_member_map_def doc load [unfolded doc] json.case got1 is_identity_sort
    by (simp add: sha ent del: map_map)
qed

section \<open>A returned map is the archive on disk\<close>

text \<open>
  The world of one day directory: the sealed files with their identities and their true members, every identity a file of
  a day ever had with the members it stood for, the maps, and the running rebuilds (path, identity read before the stream,
  members once the stream has ended). What the program relies on is the guard of \<open>Reseal\<close>: an identity that was
  used for bytes of a day is not used again for others.
\<close>

record sealed_world =
  zw_files :: "string \<Rightarrow> (identity \<times> members) option"
  zw_seen :: "string \<times> identity \<Rightarrow> members option"
  zw_maps :: sealed_maps
  zw_running :: "nat \<Rightarrow> (string \<times> identity \<times> members option) option"

definition zw_ident :: "sealed_world \<Rightarrow> string \<Rightarrow> identity option" where
  "zw_ident w p = map_option fst (zw_files w p)"

datatype sealed_event = Reseal string identity members | Gone string | Doc_lost string "content option" | Restart | Seal_done string
  | Rebuild_begin nat string | Rebuild_scan nat | Rebuild_write nat | Lookup bool string | Request string | Integrity string

definition zw_exec :: "(string \<Rightarrow> string) \<Rightarrow> io_env \<Rightarrow> rat \<Rightarrow> sealed_event \<Rightarrow> sealed_world \<Rightarrow> sealed_world option" where
  "zw_exec digest io now ev w = (case ev of
      Reseal p i ms \<Rightarrow> if zw_seen w (sealed_member_map_path p, i) = None \<and> dict_wf ms
        then Some (w\<lparr>zw_files := (zw_files w)(p \<mapsto> (i, ms)), zw_seen := (zw_seen w)((sealed_member_map_path p, i) \<mapsto> ms)\<rparr>) else None
    | Gone p \<Rightarrow> Some (w\<lparr>zw_files := (zw_files w)(p := None)\<rparr>)
    | Doc_lost path c \<Rightarrow> if c = None \<or> c = Some Garbage
        then Some (w\<lparr>zw_maps := (zw_maps w)\<lparr>sm_docs := (sm_docs (zw_maps w))(path := c)\<rparr>\<rparr>) else None
    | Restart \<Rightarrow> Some (w\<lparr>zw_maps := sm_empty (sm_docs (zw_maps w)), zw_running := (\<lambda>_. None)\<rparr>)
    | Seal_done p \<Rightarrow> map_option (\<lambda>(i, ms). w\<lparr>zw_maps := snd (write_sealed_member_map digest io (zw_ident w) now p ms ''seal'' None (zw_maps w))\<rparr>)
        (zw_files w p)
    | Rebuild_begin k p \<Rightarrow> map_option (\<lambda>(i, ms). w\<lparr>zw_running := (zw_running w)(k \<mapsto> (p, i, None))\<rparr>) (zw_files w p)
    | Rebuild_scan k \<Rightarrow> (case zw_running w k of
        Some (p, before, None) \<Rightarrow> map_option (\<lambda>(i, ms). w\<lparr>zw_running := (zw_running w)(k \<mapsto> (p, before, Some ms))\<rparr>) (zw_files w p)
      | _ \<Rightarrow> None)
    | Rebuild_write k \<Rightarrow> (case zw_running w k of
        Some (p, before, Some ms) \<Rightarrow> Some (w\<lparr>zw_running := (zw_running w)(k := None),
          zw_maps := snd (rebuild_sealed_member_map_sync digest io (\<lambda>_. Some before) (Inr (True, ms)) (zw_ident w) now p (zw_maps w))\<rparr>)
      | _ \<Rightarrow> None)
    | Lookup request p \<Rightarrow> Some (w\<lparr>zw_maps := snd (sealed_members_lookup digest (zw_ident w) request p (zw_maps w))\<rparr>)
    | Request p \<Rightarrow> Some (w\<lparr>zw_maps := snd (request_sealed_member_map_rebuild p (zw_maps w))\<rparr>)
    | Integrity p \<Rightarrow> map_option (\<lambda>(i, ms). w\<lparr>zw_maps := snd (sweep_check digest io
        \<lparr>sw_ident = zw_ident w, sw_frame_ok = (\<lambda>_. True), sw_scan = (\<lambda>_. (True, ms)), sw_isfile = (\<lambda>_. False), sw_now = now\<rparr> p i (zw_maps w))\<rparr>)
        (zw_files w p))"

inductive zw_step :: "(string \<Rightarrow> string) \<Rightarrow> sealed_world \<Rightarrow> sealed_world \<Rightarrow> bool" for digest where
  "zw_exec digest io now ev w = Some v \<Longrightarrow> zw_step digest w v"

definition zw_start :: "(string \<Rightarrow> string) \<Rightarrow> sealed_world \<Rightarrow> bool" where
  "zw_start digest w \<longleftrightarrow> zw_files w = (\<lambda>_. None) \<and> zw_maps w = sm_empty (\<lambda>_. None) \<and> zw_running w = (\<lambda>_. None)"

definition same_members :: "members option \<Rightarrow> members \<Rightarrow> bool" where
  "same_members seen ms \<longleftrightarrow> (\<exists>m. seen = Some m \<and> map_of ms = map_of m)"

definition maps_sound :: "(string \<Rightarrow> string) \<Rightarrow> (string \<times> identity \<Rightarrow> members option) \<Rightarrow> sealed_maps \<Rightarrow> bool" where
  "maps_sound digest seen st \<longleftrightarrow> dict_wf (sm_cache st) \<and>
     (\<forall>mp i ms. map_of (sm_cache st) mp = Some (i, ms) \<longrightarrow> same_members (seen (mp, i)) ms) \<and>
     (\<forall>mp i ms. load_member_map digest (sm_docs st) mp i = Inr (Some ms) \<longrightarrow> same_members (seen (mp, i)) ms)"

definition run_sound :: "sealed_world \<Rightarrow> string \<times> identity \<times> members option \<Rightarrow> bool" where
  "run_sound w r \<longleftrightarrow> (case r of (p, before, scanned) \<Rightarrow> zw_seen w (sealed_member_map_path p, before) \<noteq> None \<and>
     (\<forall>ms. scanned = Some ms \<longrightarrow> dict_wf ms \<and> (zw_ident w p = Some before \<longrightarrow> zw_seen w (sealed_member_map_path p, before) = Some ms)))"

definition zw_inv :: "(string \<Rightarrow> string) \<Rightarrow> sealed_world \<Rightarrow> bool" where
  "zw_inv digest w \<longleftrightarrow> maps_sound digest (zw_seen w) (zw_maps w) \<and>
     (\<forall>p i ms. zw_files w p = Some (i, ms) \<longrightarrow> zw_seen w (sealed_member_map_path p, i) = Some ms \<and> dict_wf ms) \<and>
     (\<forall>k r. zw_running w k = Some r \<longrightarrow> run_sound w r)"

lemma maps_soundD:
  "maps_sound digest seen st \<Longrightarrow> map_of (sm_cache st) mp = Some (i, ms) \<Longrightarrow> same_members (seen (mp, i)) ms"
  "maps_sound digest seen st \<Longrightarrow> load_member_map digest (sm_docs st) mp i = Inr (Some ms) \<Longrightarrow> same_members (seen (mp, i)) ms"
  "maps_sound digest seen st \<Longrightarrow> dict_wf (sm_cache st)"
  by (simp_all add: maps_sound_def)

lemma map_of_drop: "dict_wf d \<Longrightarrow> map_of (drop n d) k = Some v \<Longrightarrow> map_of d k = Some v"
  by (metis distinct_drop drop_map in_set_dropD map_of_SomeD map_of_eq_Some_iff)

lemma dict_wf_drop: "dict_wf d \<Longrightarrow> dict_wf (drop n d)"
  by (metis distinct_drop drop_map)

lemma move_to_end_get: "map_of (move_to_end k v d) = (map_of d)(k \<mapsto> v)"
  by (auto simp: move_to_end_def map_add_def AList.delete_conv' fun_eq_iff split: option.split)

lemma dict_wf_move: "dict_wf d \<Longrightarrow> dict_wf (move_to_end k v d)"
  by (simp add: move_to_end_def dict_wf_delete)

text \<open>The cache has distinct keys, so dropping its oldest entries only forgets.\<close>

lemma cache_put_sound:
  assumes "maps_sound digest seen st" "same_members (seen (mp, i)) ms"
  shows "maps_sound digest seen (cache_put mp i ms st)"
proof -
  have wf: "dict_wf (move_to_end mp (i, ms) (sm_cache st))" using maps_soundD(3) [OF assms(1)] by (rule dict_wf_move)
  have "same_members (seen (q, j)) m" if "map_of (move_to_end mp (i, ms) (sm_cache st)) q = Some (j, m)" for q j m
    using that assms by (auto simp: move_to_end_get split: if_splits dest: maps_soundD(1))
  then show ?thesis
    using assms(1) map_of_drop [OF wf] dict_wf_drop [OF wf] by (auto simp: maps_sound_def cache_put_def Let_def)
qed

lemma request_maps:
  "sm_docs (snd (request_sealed_member_map_rebuild p st)) = sm_docs st"
  "sm_cache (snd (request_sealed_member_map_rebuild p st)) = sm_cache st"
  by (simp_all add: request_sealed_member_map_rebuild_def Let_def)

lemma lookup_sound:
  assumes "maps_sound digest seen st" "ident p = Some live"
  shows "maps_sound digest seen (snd (sealed_members_lookup digest ident request p st))"
    "fst (sealed_members_lookup digest ident request p st) = Inr (Some ms) \<Longrightarrow> same_members (seen (sealed_member_map_path p, live)) ms"
proof -
  let ?mp = "sealed_member_map_path p" and ?r = "sealed_members_lookup digest ident request p st"
  note r = sealed_members_lookup_def [of digest ident request p st] assms(2)
  have "maps_sound digest seen (snd ?r) \<and> (fst ?r = Inr (Some ms) \<longrightarrow> same_members (seen (?mp, live)) ms)"
  proof (cases "cached_members ?mp live st")
    case (Some m)
    then have "map_of (sm_cache st) ?mp = Some (live, m)" by (auto simp: cached_members_def split: option.splits if_splits)
    with Some show ?thesis using assms(1) by (auto simp: r Let_def maps_sound_def dict_wf_move move_to_end_get)
  next
    case None
    show ?thesis
    proof (cases "\<exists>m. load_member_map digest (sm_docs st) ?mp live = Inr (Some m)")
      case True
      then obtain m where "load_member_map digest (sm_docs st) ?mp live = Inr (Some m)" by blast
      then show ?thesis
        using maps_soundD(2) [OF assms(1)] cache_put_sound [OF assms(1)] by (simp add: r Let_def None)
    next
      case False
      then show ?thesis
        using assms(1) by (auto simp: r Let_def None maps_sound_def request_maps split: sum.split option.split)
    qed
  qed
  then show "maps_sound digest seen (snd ?r)"
    "fst ?r = Inr (Some ms) \<Longrightarrow> same_members (seen (?mp, live)) ms" by simp_all
qed

lemma lookup_missing: "ident p = None \<Longrightarrow> sealed_members_lookup digest ident request p st = (Inr None, st)"
  by (simp add: sealed_members_lookup_def)

lemma load_other:
  assumes "docs q = docs1 q"
  shows "load_member_map digest docs q i = load_member_map digest docs1 q i"
proof -
  have "load_persistence_document docs q kind df = load_persistence_document docs1 q kind df" for kind df
    using assms by (simp add: load_persistence_document_def read_json_file_def Let_def)
  then show ?thesis by (simp add: load_member_map_def)
qed

lemma write_sound:
  assumes "maps_sound digest seen st"
    and "\<And>live. ident p = Some live \<Longrightarrow> identity = None \<or> identity = Some live \<Longrightarrow>
      dict_wf ms \<and> seen (sealed_member_map_path p, live) = Some ms"
  shows "maps_sound digest seen (snd (write_sealed_member_map digest io ident now p ms source identity st))"
proof (cases "\<exists>live. ident p = Some live \<and> (identity = None \<or> identity = Some live) \<and> can_write io (sealed_member_map_path p)")
  case True
  then obtain live where live: "ident p = Some live" "identity = None \<or> identity = Some live" "can_write io (sealed_member_map_path p)" by blast
  let ?mp = "sealed_member_map_path p"
  let ?docs = "(sm_docs st)(?mp \<mapsto> Json (json_sort_keys (JObj (map_envelope digest now p live ms source))))"
  have ms: "dict_wf ms" "seen (?mp, live) = Some ms" using assms(2) [OF live(1,2)] by simp_all
  have clean: "dict_of ms = ms" by (rule dict_of_wf [OF ms(1)])
  have same: "same_members (seen (?mp, live)) ms" "same_members (seen (?mp, live)) (sort_key fst ms)"
    using ms map_of_sort_key [OF ms(1)] by (simp_all add: same_members_def)
  have "load_member_map digest ?docs q i = load_member_map digest (sm_docs st) q i" if "q \<noteq> ?mp" for q i
    using that by (intro load_other) simp
  then have "same_members (seen (q, i)) m" if "load_member_map digest ?docs q i = Inr (Some m)" for q i m
    using that same(2) load_written_map [OF map_path_nonempty ms(1), of digest "sm_docs st" p now p live source i] maps_soundD(2) [OF assms(1)]
    by (cases "q = ?mp") (simp_all split: if_splits del: json_sort_keys.simps)
  then have "maps_sound digest seen (st\<lparr>sm_docs := ?docs\<rparr>)"
    using assms(1) by (simp add: maps_sound_def del: json_sort_keys.simps)
  moreover have "snd (write_sealed_member_map digest io ident now p ms source identity st) = cache_put ?mp live ms (st\<lparr>sm_docs := ?docs\<rparr>)"
    using live by (auto simp: write_sealed_member_map_def clean save_persistence_document_def persistence_envelope_map save_json_atomic_def Let_def
        simp del: json_sort_keys.simps)
  ultimately show ?thesis using cache_put_sound same(1) by simp
next
  case False
  then have "snd (write_sealed_member_map digest io ident now p ms source identity st) = st"
    by (auto simp: write_sealed_member_map_def save_persistence_document_def persistence_envelope_map save_json_atomic_def Let_def split: option.split)
  with assms(1) show ?thesis by simp
qed

lemma sweep_check_sound:
  assumes "maps_sound digest seen st" "sw_ident env p = Some live" "dict_wf (snd (sw_scan env p))"
    and "seen (sealed_member_map_path p, live) = Some (snd (sw_scan env p))"
  shows "maps_sound digest seen (snd (sweep_check digest io env p live st))"
proof -
  have l: "maps_sound digest seen (snd (sealed_members_lookup digest (sw_ident env) False p st))"
    by (rule lookup_sound(1) [where ident = "sw_ident env", OF assms(1,2)])
  then have "maps_sound digest seen (snd (write_sealed_member_map digest io (sw_ident env) (sw_now env) p (snd (sw_scan env p)) ''sweep'' (Some live)
      (snd (sealed_members_lookup digest (sw_ident env) False p st))))"
    by (rule write_sound) (use assms(2-4) in simp_all)
  with l show ?thesis by (auto simp: sweep_check_def Let_def split: prod.split sum.split)
qed

lemma zw_invD:
  "zw_inv digest w \<Longrightarrow> maps_sound digest (zw_seen w) (zw_maps w)"
  "zw_inv digest w \<Longrightarrow> zw_files w p = Some (i, ms) \<Longrightarrow> zw_seen w (sealed_member_map_path p, i) = Some ms"
  "zw_inv digest w \<Longrightarrow> zw_files w p = Some (i, ms) \<Longrightarrow> dict_wf ms"
  "zw_inv digest w \<Longrightarrow> zw_running w k = Some r \<Longrightarrow> run_sound w r"
  by (simp_all add: zw_inv_def del: split_paired_All)

lemma zw_inv_maps:
  assumes "zw_inv digest w" "maps_sound digest (zw_seen w) st"
  shows "zw_inv digest (w\<lparr>zw_maps := st\<rparr>)"
  using assms by (auto simp: zw_inv_def run_sound_def zw_ident_def)

lemma maps_sound_mono:
  assumes "maps_sound digest seen st" "seen key = None"
  shows "maps_sound digest (seen(key \<mapsto> ms)) st"
  using assms by (auto simp: maps_sound_def same_members_def) (metis option.distinct(1))+

lemma zw_inv_reseal:
  assumes "zw_inv digest w" "zw_seen w (sealed_member_map_path p, i) = None" "dict_wf ms"
  shows "zw_inv digest (w\<lparr>zw_files := (zw_files w)(p \<mapsto> (i, ms)), zw_seen := (zw_seen w)((sealed_member_map_path p, i) \<mapsto> ms)\<rparr>)"
    (is "zw_inv digest ?w")
proof -
  have "run_sound ?w r" if "zw_running w k = Some r" for k r
    using zw_invD(4) [OF assms(1) that] assms(2) by (auto simp: run_sound_def zw_ident_def split: if_splits)
  moreover have "sealed_member_map_path q \<noteq> sealed_member_map_path p" if "zw_files w q = Some (i, m)" for q m
    using zw_invD(2) [OF assms(1) that] assms(2) by auto
  ultimately show ?thesis
    using assms(3) maps_sound_mono [OF zw_invD(1) [OF assms(1)] assms(2)] zw_invD(2,3) [OF assms(1)]
    by (auto simp: zw_inv_def)
qed

lemma zw_inv_running:
  assumes "zw_inv digest w" "\<And>j r. r' j = Some r \<Longrightarrow> run_sound w r"
  shows "zw_inv digest (w\<lparr>zw_running := r'\<rparr>)"
  using assms by (auto simp: zw_inv_def run_sound_def zw_ident_def)

lemma zw_inv_step:
  assumes "zw_inv digest w" "zw_exec digest io now ev w = Some v"
  shows "zw_inv digest v"
proof (cases ev)
  case (Reseal p i ms)
  then show ?thesis using assms by (auto simp: zw_exec_def intro: zw_inv_reseal split: if_splits)
next
  case (Gone p)
  then show ?thesis using assms by (auto simp: zw_exec_def zw_inv_def run_sound_def zw_ident_def split: if_splits)
next
  case (Doc_lost path c)
  have "load_member_map digest ((sm_docs st)(path := c)) q i = (if q = path then Inr None else load_member_map digest (sm_docs st) q i)"
    if "c = None \<or> c = Some Garbage" for st :: sealed_maps and q i
  proof (cases "q = path")
    case True
    then show ?thesis using that
      by (auto simp: load_member_map_def load_persistence_document_def read_json_file_def validate_envelope_def kind_load_default_def kind_defs
          SEALED_MEMBER_MAP_KIND_def Let_def)
  next
    case False
    then show ?thesis by (simp add: load_other [of "(sm_docs st)(path := c)" q "sm_docs st"])
  qed
  then show ?thesis
    using Doc_lost assms zw_invD(1) [OF assms(1)]
    by (auto simp: zw_exec_def maps_sound_def intro!: zw_inv_maps split: if_splits)
next
  case Restart
  have "maps_sound digest (zw_seen w) (sm_empty (sm_docs (zw_maps w)))"
    using zw_invD(1) [OF assms(1)] by (simp add: maps_sound_def sm_empty_def)
  then have "zw_inv digest ((w\<lparr>zw_maps := sm_empty (sm_docs (zw_maps w))\<rparr>)\<lparr>zw_running := (\<lambda>_. None)\<rparr>)"
    by (intro zw_inv_running zw_inv_maps assms(1)) simp_all
  then show ?thesis using Restart assms(2) by (simp add: zw_exec_def)
next
  case (Seal_done p)
  then show ?thesis
    using assms zw_invD [OF assms(1)]
    by (auto simp: zw_exec_def zw_ident_def intro!: zw_inv_maps write_sound)
next
  case (Rebuild_begin k p)
  then show ?thesis
    using assms zw_invD [OF assms(1)]
    by (auto simp: zw_exec_def run_sound_def intro!: zw_inv_running split: if_splits)
next
  case (Rebuild_scan k)
  then obtain p before i ms where "zw_running w k = Some (p, before, None)" "zw_files w p = Some (i, ms)"
      "v = w\<lparr>zw_running := (zw_running w)(k \<mapsto> (p, before, Some ms))\<rparr>"
    using assms(2) by (auto simp: zw_exec_def split: option.splits)
  moreover from this have "run_sound w (p, before, Some ms)"
    using zw_invD [OF assms(1)] by (fastforce simp: run_sound_def zw_ident_def)
  ultimately show ?thesis using zw_invD(4) [OF assms(1)] by (auto intro!: zw_inv_running [OF assms(1)] split: if_splits)
next
  case (Rebuild_write k)
  then obtain p before ms where r: "zw_running w k = Some (p, before, Some ms)"
      "v = (w\<lparr>zw_running := (zw_running w)(k := None)\<rparr>)\<lparr>zw_maps := snd (write_sealed_member_map digest io (zw_ident w) now p ms ''rebuild'' (Some before) (zw_maps w))\<rparr>"
    using assms(2) by (auto simp: zw_exec_def rebuild_sealed_member_map_sync_def split: option.splits)
  have "maps_sound digest (zw_seen w) (snd (write_sealed_member_map digest io (zw_ident w) now p ms ''rebuild'' (Some before) (zw_maps w)))"
    using zw_invD(4) [OF assms(1) r(1)] by (intro write_sound zw_invD(1) [OF assms(1)]) (auto simp: run_sound_def)
  then show ?thesis
    unfolding r(2) using zw_invD(4) [OF assms(1)] by (intro zw_inv_maps zw_inv_running assms(1)) (auto split: if_splits)
next
  case (Lookup request p)
  have "maps_sound digest (zw_seen w) (snd (sealed_members_lookup digest (zw_ident w) request p (zw_maps w)))"
    using lookup_sound(1) [OF zw_invD(1) [OF assms(1)]] zw_invD(1) [OF assms(1)]
    by (cases "zw_ident w p") (simp_all add: lookup_missing)
  then show ?thesis using Lookup assms by (auto simp: zw_exec_def intro: zw_inv_maps)
next
  case (Request p)
  then show ?thesis
    using assms zw_invD(1) [OF assms(1)] by (auto simp: zw_exec_def maps_sound_def request_maps intro!: zw_inv_maps)
next
  case (Integrity p)
  then show ?thesis
    using assms zw_invD [OF assms(1)]
    by (auto simp: zw_exec_def zw_ident_def intro!: zw_inv_maps sweep_check_sound)
qed

interpretation sealed: invariant_system "zw_start digest" "zw_step digest" "zw_inv digest" for digest
proof
  fix w assume "zw_start digest w"
  then show "zw_inv digest w"
    by (auto simp: zw_start_def zw_inv_def maps_sound_def sm_empty_def load_member_map_def load_persistence_document_def
        kind_load_default_def kind_defs SEALED_MEMBER_MAP_KIND_def)
next
  fix w v assume "zw_inv digest w" "zw_step digest w v"
  then show "zw_inv digest v" by (auto elim!: zw_step.cases intro: zw_inv_step)
qed

definition zw_reachable :: "(string \<Rightarrow> string) \<Rightarrow> sealed_world \<Rightarrow> bool" where
  "zw_reachable digest w \<longleftrightarrow> (\<exists>w0. zw_start digest w0 \<and> (zw_step digest)\<^sup>*\<^sup>* w0 w)"

lemma lookup_current:
  assumes "zw_reachable digest w" "fst (sealed_members_lookup digest (zw_ident w) request p (zw_maps w)) = Inr (Some ms)"
  shows "\<exists>i m. zw_files w p = Some (i, m) \<and> map_of ms = map_of m"
proof -
  have inv: "zw_inv digest w" using assms(1) by (auto simp: zw_reachable_def intro: sealed.inv_reachable)
  obtain i where i: "zw_ident w p = Some i"
    using assms(2) by (cases "zw_ident w p") (simp_all add: lookup_missing)
  then obtain m where m: "zw_files w p = Some (i, m)" by (auto simp: zw_ident_def)
  from lookup_sound(2) [OF zw_invD(1) [OF inv] i assms(2)] zw_invD(2) [OF inv m] m show ?thesis
    by (auto simp: same_members_def)
qed

text \<open>C6: A member map that the lookup returns lists exactly the members of the sealed archive that is on disk at this moment: in
  every state that reseals, removals, rebuilds that run meanwhile, lost documents, restarts and sweeps can lead to.
\<close>

theorem lookup_is_current:
  assumes "zw_reachable digest w" "fst (sealed_members_lookup digest (zw_ident w) request p (zw_maps w)) = Inr (Some ms)"
  shows "\<exists>i m. zw_files w p = Some (i, m) \<and> map_of ms = map_of m"
  by (rule lookup_current [OF assms])

fun zw_run :: "(string \<Rightarrow> string) \<Rightarrow> io_env \<Rightarrow> rat \<Rightarrow> sealed_event list \<Rightarrow> sealed_world \<Rightarrow> sealed_world option" where
  "zw_run digest io now [] w = Some w"
| "zw_run digest io now (ev # evs) w = (case zw_exec digest io now ev w of None \<Rightarrow> None | Some v \<Rightarrow> zw_run digest io now evs v)"

lemma zw_run_steps: "zw_run digest io now evs w = Some v \<Longrightarrow> (zw_step digest)\<^sup>*\<^sup>* w v"
proof (induction evs arbitrary: w)
  case (Cons ev evs)
  then obtain u where "zw_exec digest io now ev w = Some u" "zw_run digest io now evs u = Some v" by (auto split: option.splits)
  with Cons.IH show ?case by (meson converse_rtranclp_into_rtranclp zw_step.intros)
qed simp

definition demo_zst :: string where "demo_zst = ''/d/2026-01-01.tar.zst''"

definition demo_sealed :: sealed_world where
  "demo_sealed = the (zw_run id \<lparr>can_write = (\<lambda>_. True), can_unlink = (\<lambda>_. True)\<rparr> 0
     [Reseal demo_zst \<lparr>id_ino = 4, id_size = 90, id_mtime_ns = 7\<rparr> [(''raw/c1/1'', 3)], Rebuild_begin 0 demo_zst, Rebuild_scan 0,
      Reseal demo_zst \<lparr>id_ino = 5, id_size = 95, id_mtime_ns = 8\<rparr> [(''raw/c1/2'', 6), (''raw/c1/1'', 3)], Rebuild_write 0,
      Rebuild_begin 1 demo_zst, Rebuild_scan 1, Rebuild_write 1, Restart]
     \<lparr>zw_files = (\<lambda>_. None), zw_seen = (\<lambda>_. None), zw_maps = sm_empty (\<lambda>_. None), zw_running = (\<lambda>_. None)\<rparr>)"

lemma demo_sealed_reachable: "zw_reachable id demo_sealed"
proof -
  let ?w = "\<lparr>zw_files = (\<lambda>_. None), zw_seen = (\<lambda>_. None), zw_maps = sm_empty (\<lambda>_. None), zw_running = (\<lambda>_. None)\<rparr>"
  have "(zw_step id)\<^sup>*\<^sup>* ?w demo_sealed"
    unfolding demo_sealed_def by (rule zw_run_steps, rule option.collapse [symmetric]) code_simp
  then show ?thesis unfolding zw_reachable_def by (intro exI [of _ ?w]) (simp add: zw_start_def)
qed

theorem lookup_is_current_witness:
  "\<exists>i m. zw_files demo_sealed demo_zst = Some (i, m) \<and> map_of [(''raw/c1/1'', 3), (''raw/c1/2'', 6)] = map_of m"
proof -
  have "fst (sealed_members_lookup id (zw_ident demo_sealed) True demo_zst (zw_maps demo_sealed)) = Inr (Some [(''raw/c1/1'', 3), (''raw/c1/2'', 6)])"
    by code_simp
  from lookup_is_current [OF demo_sealed_reachable this] show ?thesis .
qed

section \<open>Queue and sweep\<close>

text \<open>Each path waits or runs at most once: what is queued is pending and queued once.\<close>

definition queue_ok :: "sealed_maps \<Rightarrow> bool" where
  "queue_ok st \<longleftrightarrow> distinct (sm_queue st) \<and> set (sm_queue st) \<subseteq> sm_pending st"

lemma write_queue:
  "sm_queue (snd (write_sealed_member_map digest io ident now p ms source identity st)) = sm_queue st"
  "sm_pending (snd (write_sealed_member_map digest io ident now p ms source identity st)) = sm_pending st"
  by (simp_all add: write_sealed_member_map_def cache_put_def Let_def split: option.split sum.split)

lemma rebuild_queue:
  "sm_queue (snd (rebuild_sealed_member_map_sync digest io ident scan ident2 now p st)) = sm_queue st"
  "sm_pending (snd (rebuild_sealed_member_map_sync digest io ident scan ident2 now p st)) = sm_pending st"
  by (simp_all add: rebuild_sealed_member_map_sync_def write_queue split: option.split sum.split prod.split)

lemma request_once:
  assumes "queue_ok st" "request_sealed_member_map_rebuild p st = (queued, st1)"
  shows "queue_ok st1" "py_normpath p \<in> sm_pending st1" "queued \<longleftrightarrow> py_normpath p \<notin> sm_pending st"
  using assms by (auto simp: queue_ok_def request_sealed_member_map_rebuild_def Let_def split: if_splits)

lemma worker_turn:
  assumes "queue_ok st" "rebuild_worker digest io ident scan ident2 now st = Some st1"
  shows "queue_ok st1" "length (sm_queue st1) < length (sm_queue st)" "sm_pending st1 = sm_pending st - {hd (sm_queue st)}"
  using assms by (auto simp: queue_ok_def rebuild_worker_def Let_def rebuild_queue split: list.splits)











text \<open>A map document with a size that is not a number raises out of the lookup, where other damaged documents count as missing.\<close>

lemma damaged_map_raises:
  "fst (sealed_members_lookup id (\<lambda>_. Some \<lparr>id_ino = 4, id_size = 90, id_mtime_ns = 7\<rparr>) True demo_zst (sm_empty (\<lambda>p.
     if p = sealed_member_map_path demo_zst
     then Some (Json (JObj [(''zst_identity'', identity_json \<lparr>id_ino = 4, id_size = 90, id_mtime_ns = 7\<rparr>), (''entries'', JObj [(''a'', JNull)])]))
     else None))) = Inl TypeError"
  by code_simp

end
