(* ===== verification/Effects.thy ===== *)
theory Effects
  imports Py_Prelude
begin

text \<open>
  Methods that read and change state and may raise: a method is a function from the state to its result, an error or a
  value, and the state it leaves. What a method did before it raised stays done. A relation between states that is
  reflexive and transitive and that every step keeps is kept by whole methods (locale \<open>effect_order\<close>).
\<close>

type_synonym ('s, 'a) py = "'s \<Rightarrow> (py_error + 'a) \<times> 's"

definition py_return :: "'a \<Rightarrow> ('s, 'a) py" where
  "py_return x s = (Inr x, s)"

definition py_raise :: "py_error \<Rightarrow> ('s, 'a) py" where
  "py_raise e s = (Inl e, s)"

definition py_bind :: "('s, 'a) py \<Rightarrow> ('a \<Rightarrow> ('s, 'b) py) \<Rightarrow> ('s, 'b) py" where
  "py_bind m f s = (case m s of (Inl e, t) \<Rightarrow> (Inl e, t) | (Inr x, t) \<Rightarrow> f x t)"

definition py_then :: "('s, 'a) py \<Rightarrow> ('s, 'b) py \<Rightarrow> ('s, 'b) py" where
  "py_then m n = py_bind m (\<lambda>_. n)"

definition py_gets :: "('s \<Rightarrow> 'a) \<Rightarrow> ('s, 'a) py" where
  "py_gets g s = (Inr (g s), s)"

definition py_modify :: "('s \<Rightarrow> 's) \<Rightarrow> ('s, unit) py" where
  "py_modify f s = (Inr (), f s)"

definition py_sum :: "py_error + 'a \<Rightarrow> ('s, 'a) py" where
  "py_sum r s = (r, s)"

definition py_finally :: "('s, 'a) py \<Rightarrow> ('s \<Rightarrow> 's) \<Rightarrow> ('s, 'a) py" where
  "py_finally m f s = (case m s of (r, t) \<Rightarrow> (r, f t))"

fun py_for :: "'a list \<Rightarrow> ('a \<Rightarrow> ('s, unit) py) \<Rightarrow> ('s, unit) py" where
  "py_for [] f = py_return ()"
| "py_for (x # xs) f = py_then (f x) (py_for xs f)"

lemmas effect_defs = py_return_def py_raise_def py_bind_def py_then_def py_gets_def py_modify_def py_sum_def py_finally_def

lemma py_bind_Inr: "py_bind m f s = (Inr y, u) \<longleftrightarrow> (\<exists>x t. m s = (Inr x, t) \<and> f x t = (Inr y, u))"
  by (auto simp: py_bind_def split: prod.splits sum.splits)

lemma py_bind_return [simp]: "py_bind (py_return x) f = f x"
  by (rule ext) (simp add: effect_defs)

lemma py_then_return [simp]: "py_then (py_return x) m = m"
  by (simp add: py_then_def)

lemma py_return_run [simp]: "py_return x s = (Inr x, s)" by (simp add: py_return_def)
lemma py_raise_run [simp]: "py_raise e s = (Inl e, s)" by (simp add: py_raise_def)
lemma py_gets_run [simp]: "py_gets g s = (Inr (g s), s)" by (simp add: py_gets_def)
lemma py_modify_run [simp]: "py_modify f s = (Inr (), f s)" by (simp add: py_modify_def)
lemma py_sum_run [simp]: "py_sum r s = (r, s)" by (simp add: py_sum_def)

section \<open>Relations that methods keep\<close>

definition leads :: "('s \<Rightarrow> 's \<Rightarrow> bool) \<Rightarrow> ('s, 'a) py \<Rightarrow> 's \<Rightarrow> bool" where
  "leads R m s = R s (snd (m s))"

lemma leadsD: "leads R m s \<Longrightarrow> m s = (r, t) \<Longrightarrow> R s t"
  by (simp add: leads_def)

lemma leads_pair: "(\<And>a b. s = (a, b) \<Longrightarrow> leads R (F a b) s) \<Longrightarrow> leads R (\<lambda>(a, b). F a b (a, b)) s"
  by (cases s) (simp add: leads_def)

locale effect_order =
  fixes R :: "'s \<Rightarrow> 's \<Rightarrow> bool"
  assumes refl: "R s s" and trans: "R s t \<Longrightarrow> R t u \<Longrightarrow> R s u"
begin

lemma leads_return: "leads R (py_return x) s"
  by (simp add: leads_def refl)

lemma leads_raise: "leads R (py_raise e) s"
  by (simp add: leads_def refl)

lemma leads_gets: "leads R (py_gets g) s"
  by (simp add: leads_def refl)

lemma leads_sum: "leads R (py_sum r) s"
  by (simp add: leads_def refl)

lemma leads_bind:
  assumes "leads R m s" "\<And>x t. m s = (Inr x, t) \<Longrightarrow> leads R (f x) t"
  shows "leads R (py_bind m f) s"
proof (cases "m s")
  case (Pair r t)
  then show ?thesis
    using assms trans [of s t] by (cases r) (auto simp: leads_def py_bind_def)
qed

lemma leads_then: "leads R m s \<Longrightarrow> (\<And>x t. m s = (Inr x, t) \<Longrightarrow> leads R n t) \<Longrightarrow> leads R (py_then m n) s"
  unfolding py_then_def by (rule leads_bind)

lemma leads_for: "(\<And>x t. x \<in> set xs \<Longrightarrow> leads R (f x) t) \<Longrightarrow> leads R (py_for xs f) s"
proof (induction xs arbitrary: s)
  case (Cons y ys)
  have "leads R (py_for ys f) t" for t by (rule Cons.IH) (simp add: Cons.prems)
  then show ?case by (simp add: leads_then Cons.prems)
qed (simp add: leads_return)

lemma leads_modify: "R s (f s) \<Longrightarrow> leads R (py_modify f) s"
  by (simp add: leads_def)

lemma leads_finally: "leads R m s \<Longrightarrow> (\<And>t. R t (f t)) \<Longrightarrow> leads R (py_finally m f) s"
  using trans by (auto simp: leads_def py_finally_def split: prod.split)

lemma leads_if: "(b \<Longrightarrow> leads R m s) \<Longrightarrow> (\<not> b \<Longrightarrow> leads R n s) \<Longrightarrow> leads R (if b then m else n) s"
  by simp

lemmas leads_rules = leads_return leads_raise leads_gets leads_sum leads_bind leads_then leads_if

end

end
