(* ===== verification/Day_Removal.thy ===== *)
theory Day_Removal
  imports Sealed_Members Ingest_Gate Effects
begin

text \<open>
  Removing the raw files of a closed day (\<open>dbload/lib/sync_timedb_day_raw_removal.py\<close>, class \<open>_DayRawRemovalState\<close>, with
  the functions of \<open>dbload/lib/sync_timedb_archive_helpers.py\<close> that it calls). A day's manifest lists the raw files with a
  status; a verify pass compares them with the open tar or with the sealed archive, a delete pass removes verified files
  that the sealed member map still proves, and at the end the uncompressed tar is dropped. Methods are effects on the
  state of the day and on the files. Not here: building and reading archives, whose verdicts are arguments, the directory
  walk, the text form of the manifest (its values are as the program writes them), and what other threads do during a call.
\<close>

section \<open>Manifest\<close>

definition PHASE_VERIFYING :: string where "PHASE_VERIFYING = ''verifying''"
definition PHASE_VERIFICATION_COMPLETE :: string where "PHASE_VERIFICATION_COMPLETE = ''verification_complete''"
definition PHASE_DELETING :: string where "PHASE_DELETING = ''deleting''"
definition PHASE_DONE :: string where "PHASE_DONE = ''done''"

definition RETRYABLE_SKIP_REASONS :: "string set" where
  "RETRYABLE_SKIP_REASONS = {''not_head_tail_ingested'', ''not_sample_ingested'', ''not_head_ingested'', ''not_in_sealed_archive'', ''size_mismatch''}"

definition RETRYABLE_SKIP_STATUSES :: "string set" where
  "RETRYABLE_SKIP_STATUSES = {''skipped_not_head_tail_ingested'', ''skipped_not_sample_ingested'', ''skipped_not_head_ingested'',
     ''skipped_not_in_archive'', ''skipped_size_mismatch''}"

definition QUARANTINE_SKIP_REASONS :: "string set" where "QUARANTINE_SKIP_REASONS = {''quarantine''}"
definition QUARANTINE_SKIP_STATUSES :: "string set" where "QUARANTINE_SKIP_STATUSES = {''skipped_quarantine''}"

definition REPAIR_REQUIRED_STATUSES :: "string set" where
  "REPAIR_REQUIRED_STATUSES = {''skipped_seal_invalid'', ''skipped_fingerprint_changed'', ''skipped_active_segment''}"

definition VERIFY_STAGE_NONE :: string where "VERIFY_STAGE_NONE = ''none''"
definition VERIFY_STAGE_PRE_SEAL :: string where "VERIFY_STAGE_PRE_SEAL = ''pre_seal_complete''"
definition VERIFY_STAGE_POST_SEAL :: string where "VERIFY_STAGE_POST_SEAL = ''post_seal_complete''"

lemmas phase_defs = PHASE_VERIFYING_def PHASE_VERIFICATION_COMPLETE_def PHASE_DELETING_def PHASE_DONE_def
lemmas stage_defs = VERIFY_STAGE_NONE_def VERIFY_STAGE_PRE_SEAL_def VERIFY_STAGE_POST_SEAL_def
lemmas skip_defs = RETRYABLE_SKIP_REASONS_def RETRYABLE_SKIP_STATUSES_def QUARANTINE_SKIP_REASONS_def QUARANTINE_SKIP_STATUSES_def
  REPAIR_REQUIRED_STATUSES_def

text \<open>A fingerprint is the modification time in nanoseconds and the size.\<close>

record rr_entry =
  re_path :: string
  re_daily_gz :: string
  re_status :: string
  re_reason :: string
  re_deleted :: bool
  re_fp :: "(int \<times> int) option"
  re_delete_reason :: "string option"
  re_delete_failed :: "string option"
  re_delete_deferred :: "string option"

record day_manifest =
  dm_tar_path :: string
  dm_phase :: string
  dm_verify_stage :: string
  dm_worker_stage :: string
  dm_members_done :: int
  dm_members_total :: int
  dm_last_progress_ts :: "rat option"
  dm_started_at :: "rat option"
  dm_completed_at :: "rat option"
  dm_verified_count :: int
  dm_skipped_count :: int
  dm_deleted_count :: int
  dm_entries :: "(string, rr_entry) dict"
  dm_verified_tar_identity :: "identity option"
  dm_reverify_cycles :: int
  dm_classify_index :: nat
  dm_classify_paths :: "string list option"

definition new_manifest :: "rat \<Rightarrow> string \<Rightarrow> day_manifest" where
  "new_manifest now tar_path =
     \<lparr>dm_tar_path = py_normpath tar_path, dm_phase = PHASE_VERIFYING, dm_verify_stage = VERIFY_STAGE_NONE, dm_worker_stage = [],
      dm_members_done = 0, dm_members_total = 0, dm_last_progress_ts = None, dm_started_at = Some now, dm_completed_at = None,
      dm_verified_count = 0, dm_skipped_count = 0, dm_deleted_count = 0, dm_entries = [], dm_verified_tar_identity = None,
      dm_reverify_cycles = 0, dm_classify_index = 0, dm_classify_paths = None\<rparr>"

section \<open>Days of paths\<close>

text \<open>\<open>strptime(s, "%Y-%m-%d")\<close>: four digits, a month and a day of one or two digits; the day may have a space for the first.\<close>

definition read_month :: "string \<Rightarrow> int option" where
  "read_month s = (if length s = 1 then read2 (CHR ''0'' # s) else read2 s)"

definition date_strptime :: "string \<Rightarrow> py_error + date" where
  "date_strptime s = (case py_split (CHR ''-'') s of
      [y, m, d] \<Rightarrow>
        (case (read2 (take 2 y), read2 (drop 2 y), read_month m,
               read_month (case d of [c, e] \<Rightarrow> if c = CHR '' '' \<and> e \<noteq> CHR ''0'' then [e] else d | _ \<Rightarrow> d)) of
           (Some c, Some yy, Some mm, Some dd) \<Rightarrow> date_new (100 * c + yy) mm dd
         | _ \<Rightarrow> Inl ValueError)
    | _ \<Rightarrow> Inl ValueError)"

definition calendar_date_from_daily_tar_path :: "string \<Rightarrow> date option" where
  "calendar_date_from_daily_tar_path tar_path =
     (let base = py_basename tar_path in
      if \<not> ends_with ''.tar'' base then None
      else (case date_strptime (cut_suffix ''.tar'' base) of Inl e \<Rightarrow> None | Inr d \<Rightarrow> Some d))"

definition daily_tar_path_for_date :: "string \<Rightarrow> date \<Rightarrow> string" where
  "daily_tar_path_for_date tgz_archive_dir file_date =
     py_normpath (daily_tar_path_from_compressed (daily_compressed_path_for_date tgz_archive_dir file_date))"

definition daily_tar_paths_for_stats_paths :: "day_env \<Rightarrow> string list \<Rightarrow> string \<Rightarrow> string set" where
  "daily_tar_paths_for_stats_paths days paths tgz_archive_dir =
     set (map (daily_tar_path_for_date tgz_archive_dir) (List.map_filter (\<lambda>p. derive_stats_path_date days p None) paths))"

definition stats_path_aligned_to_daily_tar :: "day_env \<Rightarrow> string \<Rightarrow> string \<Rightarrow> string \<Rightarrow> bool" where
  "stats_path_aligned_to_daily_tar days tgz_archive_dir tar_norm stats_path =
     (tgz_archive_dir \<noteq> [] \<and> stats_path \<noteq> [] \<and> py_normpath tar_norm \<in> daily_tar_paths_for_stats_paths days [stats_path] tgz_archive_dir)"

type_synonym raw_by_gz = "(string, string list) dict"

definition filter_remaining_raw_aligned_to_tar :: "day_env \<Rightarrow> string \<Rightarrow> string \<Rightarrow> raw_by_gz \<Rightarrow> raw_by_gz" where
  "filter_remaining_raw_aligned_to_tar days tgz_archive_dir tar_norm remaining_by_gz =
     (if tgz_archive_dir = [] then []
      else filter (\<lambda>(gz_key, blockers). blockers \<noteq> [])
        (map (\<lambda>(gz_key, raw_list). (gz_key, filter (\<lambda>p. p \<noteq> [] \<and>
            stats_path_aligned_to_daily_tar days tgz_archive_dir (py_normpath tar_norm) p) raw_list)) remaining_by_gz))"

section \<open>The day, the files and the surroundings\<close>

text \<open>
  The files are the raw files, the day's tar and its sealed siblings; saved copies of a tar are not among them. \<open>ds_saved\<close> is the
  manifest in the sidecar. \<open>ds_in_flight\<close>: the verify pipeline was submitted and has not finished.
\<close>

record day_state =
  ds_tar :: string
  ds_manifest :: day_manifest
  ds_saved :: "day_manifest option"
  ds_memo :: "raw_by_gz option"
  ds_memo_active :: bool
  ds_verify_members :: "members option"
  ds_in_flight :: bool

type_synonym files = "string \<Rightarrow> identity option"

record rr_world =
  rw_files :: files
  rw_maps :: sealed_maps
  rw_gate :: gate_state

datatype unlink = Unlinked | Lock_contended | Unlink_failed string

record maint_snapshot =
  sn_remaining_raw_by_gz :: raw_by_gz
  sn_gate_identities :: "(string, host_seconds) dict"

text \<open>
  What a call meets. \<open>rr_ready_fn\<close> is \<open>ingest_ready_fn\<close>; \<open>rr_active\<close> is \<open>get_ingest_active_skip_paths\<close>, asked once per file;
  \<open>rr_snapshot\<close> is \<open>get_maintenance_snapshot\<close>, which may raise; \<open>rr_walk\<close> is the list of the directory walk. \<open>rr_restore\<close> and
  \<open>rr_open_tar\<close> give the verdict on the open tar and its identity afterwards (a restore writes it), \<open>rr_sealed\<close> that on the
  sealed file, \<open>rr_validate\<close> that of the maintenance, which may seal. \<open>rr_completion\<close> is the order in which the tasks of a
  pool finish, \<open>rr_shutdown\<close> whether a shutdown is requested when the loop stands at a position.
\<close>

record rr_env =
  rr_archive_dir :: string
  rr_tgz :: string
  rr_days :: day_env
  rr_samefile :: "string \<Rightarrow> string \<Rightarrow> bool option"
  rr_quarantine :: "string set"
  rr_active :: "(string \<Rightarrow> string set) option"
  rr_required :: bool
  rr_ready_fn :: "(string \<Rightarrow> py_error + bool) option"
  rr_gate_env :: gate_env
  rr_snapshot :: "(py_error + maint_snapshot option) option"
  rr_allow_scoped :: bool
  rr_walk :: "py_error + string list"
  rr_restore :: "files \<Rightarrow> bool \<times> identity option"
  rr_open_tar :: "files \<Rightarrow> members option \<times> identity option"
  rr_sealed :: "members option"
  rr_parity :: bool
  rr_listed :: bool
  rr_validate :: "files \<Rightarrow> bool \<times> identity option"
  rr_drop_ok :: bool
  rr_completion :: "string list \<Rightarrow> string list"
  rr_unlink :: "string \<Rightarrow> unlink"
  rr_save :: "day_manifest \<Rightarrow> py_error option"
  rr_digest :: "string \<Rightarrow> string"
  rr_max_deletes :: nat
  rr_batch :: nat
  rr_escalate_after :: int
  rr_shutdown :: "nat \<Rightarrow> bool"
  rr_log :: bool
  rr_now :: rat

type_synonym 'a day_op = "(day_state \<times> rr_world, 'a) py"

definition isfile :: "rr_world \<Rightarrow> string \<Rightarrow> bool" where
  "isfile w p = (rw_files w p \<noteq> None)"

definition getsize :: "rr_world \<Rightarrow> string \<Rightarrow> int option" where
  "getsize w p = map_option id_size (rw_files w p)"

definition path_fingerprint :: "rr_world \<Rightarrow> string \<Rightarrow> (int \<times> int) option" where
  "path_fingerprint w p = map_option (\<lambda>i. (id_mtime_ns i, id_size i)) (rw_files w p)"

definition active_segment :: "rr_env \<Rightarrow> rr_world \<Rightarrow> string \<Rightarrow> bool" where
  "active_segment env w p = stats_file_is_active_segment
     \<lparr>fe_isfile = isfile w, fe_samefile = rr_samefile env, fe_ingest_complete = (\<lambda>_. False), fe_append_complete = (\<lambda>_ _. False)\<rparr> p"

definition zst_of :: "day_state \<Rightarrow> string" where "zst_of d = fst (compressed_sibling_paths (ds_tar d))"
definition gz_of :: "day_state \<Rightarrow> string" where "gz_of d = snd (compressed_sibling_paths (ds_tar d))"

definition mod_manifest :: "(day_manifest \<Rightarrow> day_manifest) \<Rightarrow> unit day_op" where
  "mod_manifest f = py_modify (\<lambda>(d, w). (d\<lparr>ds_manifest := f (ds_manifest d)\<rparr>, w))"

definition save_manifest :: "rr_env \<Rightarrow> unit day_op" where
  "save_manifest env = (\<lambda>(d, w). case rr_save env (ds_manifest d) of
      Some e \<Rightarrow> (Inl e, d, w)
    | None \<Rightarrow> (Inr (), d\<lparr>ds_saved := Some (ds_manifest d)\<rparr>, w))"

text \<open>\<open>if path not in seen: seen.add(path); out.append(path)\<close> for each path.\<close>

definition add_unseen :: "string list \<Rightarrow> string list \<Rightarrow> string list" where
  "add_unseen paths out = fold (\<lambda>p acc. if p \<in> set acc then acc else acc @ [p]) paths out"

section \<open>Reading the manifest\<close>

definition init_state :: "rat \<Rightarrow> string \<Rightarrow> day_manifest option \<Rightarrow> py_error + day_state" where
  "init_state now tar_path doc = (let tar = py_normpath tar_path in
     case calendar_date_from_daily_tar_path tar of
       None \<Rightarrow> Inl ValueError
     | Some day \<Rightarrow> Inr \<lparr>ds_tar = tar, ds_manifest = (case doc of Some m \<Rightarrow> m | None \<Rightarrow> new_manifest now tar), ds_saved = doc,
         ds_memo = None, ds_memo_active = False, ds_verify_members = None, ds_in_flight = False\<rparr>)"

definition phase :: "day_state \<Rightarrow> string" where
  "phase d = (if dm_phase (ds_manifest d) = [] then PHASE_VERIFYING else dm_phase (ds_manifest d))"

definition verify_stage :: "day_state \<Rightarrow> string" where
  "verify_stage d = (if dm_verify_stage (ds_manifest d) = [] then VERIFY_STAGE_NONE else dm_verify_stage (ds_manifest d))"

definition verification_complete :: "day_state \<Rightarrow> bool" where
  "verification_complete d = (phase d \<in> {PHASE_VERIFICATION_COMPLETE, PHASE_DELETING, PHASE_DONE})"

definition pre_seal_verification_complete :: "day_state \<Rightarrow> bool" where
  "pre_seal_verification_complete d =
     (verify_stage d \<in> {VERIFY_STAGE_PRE_SEAL, VERIFY_STAGE_POST_SEAL} \<or>
      phase d \<in> {PHASE_VERIFICATION_COMPLETE, PHASE_DELETING, PHASE_DONE})"

definition post_seal_verification_complete :: "day_state \<Rightarrow> bool" where
  "post_seal_verification_complete d = (verify_stage d = VERIFY_STAGE_POST_SEAL)"

definition needs_delete_phase :: "day_state \<Rightarrow> bool" where
  "needs_delete_phase d = (phase d \<in> {PHASE_VERIFICATION_COMPLETE, PHASE_DELETING})"

definition delete_phase_done :: "day_state \<Rightarrow> bool" where
  "delete_phase_done d = (phase d = PHASE_DONE)"

definition entry_is_retryable_skip :: "rr_entry \<Rightarrow> bool" where
  "entry_is_retryable_skip e = (re_reason e \<in> RETRYABLE_SKIP_REASONS \<or> re_status e \<in> RETRYABLE_SKIP_STATUSES)"

definition entry_is_quarantine_terminal_skip :: "rr_entry \<Rightarrow> bool" where
  "entry_is_quarantine_terminal_skip e = (re_reason e \<in> QUARANTINE_SKIP_REASONS \<or> re_status e \<in> QUARANTINE_SKIP_STATUSES)"

definition entry_blocks_done :: "rr_env \<Rightarrow> rr_world \<Rightarrow> string \<Rightarrow> rr_entry \<Rightarrow> bool" where
  "entry_blocks_done env w path e =
     (if entry_is_quarantine_terminal_skip e then False
      else if re_status e = ''skipped_active_segment'' then \<not> active_segment env w path
      else True)"

definition entry_is_verified_ghost_on_disk :: "rr_entry \<Rightarrow> bool" where
  "entry_is_verified_ghost_on_disk e = (re_deleted e \<and> re_status e = ''verified'')"

abbreviation entries :: "day_state \<Rightarrow> (string, rr_entry) dict" where
  "entries d \<equiv> dm_entries (ds_manifest d)"

definition entry_pending :: "rr_entry \<Rightarrow> bool" where
  "entry_pending e = (re_status e = ''verified'' \<and> \<not> re_deleted e)"

definition manifest_entries_on_disk :: "day_state \<Rightarrow> rr_world \<Rightarrow> (string, rr_entry) dict" where
  "manifest_entries_on_disk d w = filter (\<lambda>(path, e). isfile w path) (entries d)"

definition manifest_paths_on_disk :: "day_state \<Rightarrow> rr_world \<Rightarrow> string list" where
  "manifest_paths_on_disk d w = map fst (manifest_entries_on_disk d w)"

definition manifest_verified_pending_count :: "day_state \<Rightarrow> nat" where
  "manifest_verified_pending_count d = length (filter (\<lambda>(path, e). entry_pending e) (entries d))"

definition verified_pending_paths_on_disk :: "day_state \<Rightarrow> rr_world \<Rightarrow> string list" where
  "verified_pending_paths_on_disk d w = map fst (filter (\<lambda>(path, e). entry_pending e \<and> isfile w path) (entries d))"

definition manifest_has_ghost_markers :: "day_state \<Rightarrow> bool" where
  "manifest_has_ghost_markers d = list_ex (\<lambda>(path, e). entry_is_verified_ghost_on_disk e) (entries d)"

definition ghost_deleted_paths_on_disk :: "day_state \<Rightarrow> rr_world \<Rightarrow> string list" where
  "ghost_deleted_paths_on_disk d w =
     (if \<not> manifest_has_ghost_markers d then []
      else map fst (filter (\<lambda>(path, e). entry_is_verified_ghost_on_disk e) (manifest_entries_on_disk d w)))"

definition needs_ghost_delete_retry :: "day_state \<Rightarrow> rr_world \<Rightarrow> bool" where
  "needs_ghost_delete_retry d w =
     (phase d \<in> {PHASE_DONE, PHASE_DELETING} \<and> manifest_has_ghost_markers d \<and> ghost_deleted_paths_on_disk d w \<noteq> [])"

definition needs_reopen_for_verified_pending :: "day_state \<Rightarrow> bool" where
  "needs_reopen_for_verified_pending d = (phase d = PHASE_DONE \<and> manifest_verified_pending_count d > 0)"

definition entry_blocking :: "rr_env \<Rightarrow> day_state \<Rightarrow> string \<Rightarrow> rr_entry \<Rightarrow> bool" where
  "entry_blocking env d path e = (\<not> entry_is_verified_ghost_on_disk e \<and> \<not> entry_is_quarantine_terminal_skip e \<and>
     stats_path_aligned_to_daily_tar (rr_days env) (rr_tgz env) (ds_tar d) path)"

definition blocking_manifest_paths_on_disk :: "rr_env \<Rightarrow> day_state \<Rightarrow> rr_world \<Rightarrow> string list" where
  "blocking_manifest_paths_on_disk env d w =
     map fst (filter (\<lambda>(path, e). entry_blocking env d path e) (manifest_entries_on_disk d w))"

definition only_quarantine_terminal_on_disk :: "day_state \<Rightarrow> rr_world \<Rightarrow> bool" where
  "only_quarantine_terminal_on_disk d w =
     (manifest_entries_on_disk d w \<noteq> [] \<and> list_all (\<lambda>(path, e). entry_is_quarantine_terminal_skip e) (manifest_entries_on_disk d w))"

definition manifest_retryable_paths_on_disk :: "day_state \<Rightarrow> rr_world \<Rightarrow> string list" where
  "manifest_retryable_paths_on_disk d w = map fst (filter (\<lambda>(path, e). entry_is_retryable_skip e) (manifest_entries_on_disk d w))"

text \<open>The loop over the entries: every one is retryable or in quarantine, and one is retryable.\<close>

definition only_waiting :: "rr_entry list \<Rightarrow> bool" where
  "only_waiting es = (list_all (\<lambda>e. entry_is_retryable_skip e \<or> entry_is_quarantine_terminal_skip e) es \<and> list_ex entry_is_retryable_skip es)"

definition manifest_only_waiting_on_ingest :: "day_state \<Rightarrow> rr_world \<Rightarrow> bool" where
  "manifest_only_waiting_on_ingest d w = (manifest_entries_on_disk d w \<noteq> [] \<and> only_waiting (map snd (manifest_entries_on_disk d w)))"

definition paths_pending_delete :: "day_state \<Rightarrow> string set" where
  "paths_pending_delete d = set (filter (\<lambda>p. p \<noteq> []) (map (re_path \<circ> snd) (filter (\<lambda>(path, e). entry_pending e) (entries d))))"

definition consumed_paths :: "day_state \<Rightarrow> string set" where
  "consumed_paths d = set (filter (\<lambda>p. p \<noteq> []) (map (re_path \<circ> snd) (filter (\<lambda>(path, e). re_deleted e) (entries d))))"

definition stale_done_all_skipped_still_on_disk :: "day_state \<Rightarrow> rr_world \<Rightarrow> bool" where
  "stale_done_all_skipped_still_on_disk d w =
     (phase d = PHASE_DONE \<and> \<not> dm_verified_count (ds_manifest d) > 0 \<and>
      (list_ex (\<lambda>(path, e). isfile w path \<and> entry_pending e) (entries d) \<or>
       dm_verified_count (ds_manifest d) = 0 \<and> entries d \<noteq> [] \<and> list_ex (\<lambda>(path, e). isfile w path) (entries d)))"

definition reverify_exhausted :: "rr_env \<Rightarrow> day_state \<Rightarrow> bool" where
  "reverify_exhausted env d = (dm_reverify_cycles (ds_manifest d) > rr_escalate_after env)"

record day_progress =
  dp_phase :: string
  dp_worker_stage :: string
  dp_members_done :: int
  dp_members_total :: int
  dp_last_progress_ts :: "rat option"
  dp_verified_count :: int
  dp_pending_delete :: nat
  dp_deleted_count :: int

definition progress_summary :: "day_state \<Rightarrow> day_progress" where
  "progress_summary d = (let m = ds_manifest d in
     \<lparr>dp_phase = dm_phase m, dp_worker_stage = dm_worker_stage m, dp_members_done = dm_members_done m, dp_members_total = dm_members_total m,
      dp_last_progress_ts = dm_last_progress_ts m, dp_verified_count = dm_verified_count m,
      dp_pending_delete = length (filter (\<lambda>(path, e). entry_pending e) (dm_entries m)), dp_deleted_count = dm_deleted_count m\<rparr>)"

section \<open>Raw files of the day\<close>

definition build_day_scoped_closed_raw_by_gz :: "rr_env \<Rightarrow> rr_world \<Rightarrow> string \<Rightarrow> py_error + raw_by_gz" where
  "build_day_scoped_closed_raw_by_gz env w tar_path = (let tar_norm = py_normpath tar_path in
     if calendar_date_from_daily_tar_path tar_norm = None \<or> rr_archive_dir env = [] \<or> rr_tgz env = [] then Inr []
     else (case rr_walk env of
         Inl e \<Rightarrow> Inl e
       | Inr paths \<Rightarrow>
           (let aligned = filter (\<lambda>p. p \<noteq> [] \<and> isfile w p \<and> \<not> active_segment env w p \<and>
                stats_path_aligned_to_daily_tar (rr_days env) (rr_tgz env) tar_norm p) paths in
            Inr (if aligned = [] then [] else [(fst (compressed_sibling_paths tar_norm), aligned)]))))"

definition build_remaining_raw_for_daily_tar :: "rr_env \<Rightarrow> rr_world \<Rightarrow> maint_snapshot option \<Rightarrow> string \<Rightarrow> py_error + raw_by_gz" where
  "build_remaining_raw_for_daily_tar env w snap tar_path = (let tar_norm = py_normpath tar_path in
     case snap of
       None \<Rightarrow> build_day_scoped_closed_raw_by_gz env w tar_norm
     | Some sn \<Rightarrow>
         (let scoped = filter (\<lambda>(gz_key, paths). paths \<noteq> [] \<and> py_normpath (daily_tar_path_from_compressed gz_key) = tar_norm) (sn_remaining_raw_by_gz sn);
              filtered = filter_remaining_raw_aligned_to_tar (rr_days env) (rr_tgz env) tar_norm scoped in
          if filtered \<noteq> [] then Inr filtered else build_day_scoped_closed_raw_by_gz env w tar_norm))"

definition remaining_raw_by_gz_has_paths_on_disk :: "rr_world \<Rightarrow> raw_by_gz \<Rightarrow> string option \<Rightarrow> bool" where
  "remaining_raw_by_gz_has_paths_on_disk w remaining_by_gz gz_path = (case gz_path of
      Some gz \<Rightarrow> (case map_of remaining_by_gz (normalize_daily_compressed_path gz) of None \<Rightarrow> False | Some paths \<Rightarrow> list_ex (isfile w) paths)
    | None \<Rightarrow> list_ex (\<lambda>(gz, paths). list_ex (isfile w) paths) remaining_by_gz)"

definition resolve_maintenance_snapshot :: "rr_env \<Rightarrow> maint_snapshot option" where
  "resolve_maintenance_snapshot env = (case rr_snapshot env of None \<Rightarrow> None | Some (Inl e) \<Rightarrow> None | Some (Inr sn) \<Rightarrow> sn)"

text \<open>The list of one pass is kept while the memo is active.\<close>

definition build_remaining :: "rr_env \<Rightarrow> raw_by_gz day_op" where
  "build_remaining env = (\<lambda>(d, w).
     if ds_memo_active d \<and> ds_memo d \<noteq> None then (Inr (the (ds_memo d)), d, w)
     else (let snap = resolve_maintenance_snapshot env in
       case (if snap = None \<and> \<not> rr_allow_scoped env then Inr [] else build_remaining_raw_for_daily_tar env w snap (ds_tar d)) of
         Inl e \<Rightarrow> (Inl e, d, w)
       | Inr remaining \<Rightarrow> (Inr remaining, if ds_memo_active d then d\<lparr>ds_memo := Some remaining\<rparr> else d, w)))"

definition clear_closed_raw_pass_memo :: "day_state \<Rightarrow> day_state" where
  "clear_closed_raw_pass_memo d = d\<lparr>ds_memo := None, ds_memo_active := False\<rparr>"

definition begin_closed_raw_pass_memo :: "day_state \<Rightarrow> day_state" where
  "begin_closed_raw_pass_memo d = d\<lparr>ds_memo := None, ds_memo_active := True\<rparr>"

definition finalize_quarantine_terminal_done :: "rr_env \<Rightarrow> unit day_op" where
  "finalize_quarantine_terminal_done env = (\<lambda>(d, w).
     if delete_phase_done d then (Inr (), d, w)
     else py_then (mod_manifest (\<lambda>m. m\<lparr>dm_phase := PHASE_DONE, dm_completed_at := Some (rr_now env)\<rparr>)) (save_manifest env) (d, w))"

definition closed_raw_paths_on_disk :: "rr_env \<Rightarrow> string list day_op" where
  "closed_raw_paths_on_disk env = (\<lambda>(d, w).
     if delete_phase_done d then (Inr (blocking_manifest_paths_on_disk env d w), d, w)
     else if verification_complete d then
       (Inr (add_unseen (manifest_retryable_paths_on_disk d w) (add_unseen (blocking_manifest_paths_on_disk env d w) [])), d, w)
     else py_bind (build_remaining env) (\<lambda>remaining. py_return (concat (map snd remaining))) (d, w))"

definition unmanifested_closed_raw_paths :: "rr_env \<Rightarrow> string list day_op" where
  "unmanifested_closed_raw_paths env = (\<lambda>(d, w).
     if delete_phase_done d \<or> verification_complete d then (Inr [], d, w)
     else py_bind (closed_raw_paths_on_disk env)
       (\<lambda>paths. py_return (filter (\<lambda>p. isfile w p \<and> map_of (entries d) p = None) paths)) (d, w))"

definition has_closed_raw_existing_on_disk :: "rr_env \<Rightarrow> bool day_op" where
  "has_closed_raw_existing_on_disk env = (\<lambda>(d, w).
     if only_quarantine_terminal_on_disk d w then py_then (finalize_quarantine_terminal_done env) (py_return False) (d, w)
     else if delete_phase_done d then
       (if blocking_manifest_paths_on_disk env d w \<noteq> [] then (Inr True, d, w)
        else py_bind (unmanifested_closed_raw_paths env) (\<lambda>ps. py_return (ps \<noteq> [])) (d, w))
     else if verification_complete d then
       (Inr (blocking_manifest_paths_on_disk env d w \<noteq> [] \<or> ghost_deleted_paths_on_disk d w \<noteq> [] \<or> manifest_retryable_paths_on_disk d w \<noteq> []), d, w)
     else py_bind (build_remaining env) (\<lambda>remaining. py_return (remaining_raw_by_gz_has_paths_on_disk w remaining (Some (zst_of d)))) (d, w))"

definition quarantined :: "rr_env \<Rightarrow> day_state \<Rightarrow> string \<Rightarrow> bool" where
  "quarantined env d path = (path \<in> rr_quarantine env \<or>
     (case map_of (entries d) path of None \<Rightarrow> False | Some e \<Rightarrow> entry_is_quarantine_terminal_skip e))"

definition filter_accrual_paths_blocking_tar_drop :: "rr_env \<Rightarrow> day_state \<Rightarrow> rr_world \<Rightarrow> raw_by_gz \<Rightarrow> raw_by_gz" where
  "filter_accrual_paths_blocking_tar_drop env d w remaining =
     filter_remaining_raw_aligned_to_tar (rr_days env) (rr_tgz env) (ds_tar d)
       (filter (\<lambda>(gz, blockers). blockers \<noteq> [])
         (map (\<lambda>(gz, raw_list). (gz, filter (\<lambda>p. isfile w p \<and> \<not> quarantined env d p) raw_list)) remaining))"

definition remaining_raw_paths_blocking_tar_drop :: "rr_env \<Rightarrow> raw_by_gz day_op" where
  "remaining_raw_paths_blocking_tar_drop env = (\<lambda>(d, w).
     if only_quarantine_terminal_on_disk d w then py_then (finalize_quarantine_terminal_done env) (py_return []) (d, w)
     else if verification_complete d then
       (Inr (let blocking = blocking_manifest_paths_on_disk env d w in if blocking \<noteq> [] then [(zst_of d, blocking)] else []), d, w)
     else py_bind (build_remaining env) (\<lambda>remaining. py_return (filter_accrual_paths_blocking_tar_drop env d w remaining)) (d, w))"

definition count_quarantine_accrual_paths_on_disk :: "rr_env \<Rightarrow> nat day_op" where
  "count_quarantine_accrual_paths_on_disk env = (\<lambda>(d, w).
     py_bind (if verification_complete d then remaining_raw_paths_blocking_tar_drop env else build_remaining env)
       (\<lambda>raw. py_gets (\<lambda>(d1, w1). length (filter (\<lambda>p. isfile w1 p \<and> quarantined env d1 p) (concat (map snd raw))))) (d, w))"

text \<open>The log line of a skipped drop counts the files that block it, which may close a day that is all quarantine.\<close>

definition log_tar_drop_skip :: "rr_env \<Rightarrow> unit day_op" where
  "log_tar_drop_skip env =
     (if \<not> rr_log env then py_return ()
      else py_then (remaining_raw_paths_blocking_tar_drop env) (py_then (count_quarantine_accrual_paths_on_disk env) (py_return ())))"

section \<open>Dropping the tar\<close>

text \<open>The one tar of the day; the seal that the validation may write is the \<open>.tar.zst\<close> file.\<close>

definition remove_verified_uncompressed_daily_tars :: "rr_env \<Rightarrow> raw_by_gz \<Rightarrow> unit day_op" where
  "remove_verified_uncompressed_daily_tars env remaining_raw_by_gz = (\<lambda>(d, w).
     if \<not> rr_listed env \<or> \<not> isfile w (ds_tar d) then (Inr (), d, w)
     else (let sealed_path = (if isfile w (zst_of d) then zst_of d else if isfile w (gz_of d) then gz_of d else zst_of d) in
       case rr_validate env (rw_files w) of (ok, sealed) \<Rightarrow>
         (let w1 = w\<lparr>rw_files := (rw_files w)(zst_of d := sealed)\<rparr> in
          if \<not> ok then (Inr (), d, w1)
          else if remaining_raw_by_gz_has_paths_on_disk w1 remaining_raw_by_gz (Some sealed_path) then (Inr (), d, w1)
          else if rr_drop_ok env then (Inr (), d, w1\<lparr>rw_files := (rw_files w1)(ds_tar d := None)\<rparr>)
          else (Inr (), d, w1))))"

definition try_finish_tar_drop_if_ready :: "rr_env \<Rightarrow> bool day_op" where
  "try_finish_tar_drop_if_ready env = (\<lambda>(d, w).
     if \<not> isfile w (ds_tar d) then (Inr True, d, w)
     else if \<not> (isfile w (zst_of d) \<or> isfile w (gz_of d)) then py_then (log_tar_drop_skip env) (py_return False) (d, w)
     else py_bind (remaining_raw_paths_blocking_tar_drop env) (\<lambda>remaining_raw.
       if remaining_raw_by_gz_has_paths_on_disk w remaining_raw (Some (zst_of d))
       then py_then (log_tar_drop_skip env) (py_return False)
       else py_then (remove_verified_uncompressed_daily_tars env remaining_raw)
         (py_bind (py_gets (\<lambda>(d1, w1). isfile w1 (ds_tar d1))) (\<lambda>still.
           if still then py_return False
           else py_then (mod_manifest (\<lambda>m. if dm_phase m \<noteq> PHASE_DONE then m\<lparr>dm_phase := PHASE_DONE, dm_completed_at := Some (rr_now env)\<rparr> else m))
             (py_then (save_manifest env) (py_return True))))) (d, w))"

section \<open>Reopening\<close>

definition reopen_stale_done_all_skipped :: "rr_env \<Rightarrow> bool day_op" where
  "reopen_stale_done_all_skipped env = (\<lambda>(d, w).
     if \<not> stale_done_all_skipped_still_on_disk d w then (Inr False, d, w)
     else py_then (mod_manifest (\<lambda>m. m\<lparr>dm_phase := PHASE_VERIFYING, dm_verify_stage := VERIFY_STAGE_NONE\<rparr>))
       (py_then (save_manifest env) (py_return True)) (d, w))"

definition needs_retry_after_ingest :: "rr_env \<Rightarrow> bool day_op" where
  "needs_retry_after_ingest env = (\<lambda>(d, w).
     if phase d \<noteq> PHASE_DONE then (Inr False, d, w)
     else py_bind (closed_raw_paths_on_disk env) (\<lambda>paths. py_return (list_ex (\<lambda>p. isfile w p \<and>
       (case map_of (entries d) p of None \<Rightarrow> True | Some e \<Rightarrow> entry_is_retryable_skip e)) paths)) (d, w))"

definition reset_for_reverify :: "rr_env \<Rightarrow> unit day_op" where
  "reset_for_reverify env = (\<lambda>(d, w). py_then (mod_manifest (\<lambda>_. new_manifest (rr_now env) (ds_tar d))) (save_manifest env) (d, w))"

definition all_closed_raw_terminal_or_gone :: "rr_env \<Rightarrow> bool day_op" where
  "all_closed_raw_terminal_or_gone env = (\<lambda>(d, w).
     if verification_complete d \<and> \<not> delete_phase_done d then
       (Inr (\<not> list_ex (\<lambda>(path, e). entry_blocks_done env w path e) (manifest_entries_on_disk d w)), d, w)
     else py_bind (closed_raw_paths_on_disk env) (\<lambda>paths. py_return (list_all (\<lambda>p. isfile w p \<longrightarrow>
       (case map_of (entries d) p of None \<Rightarrow> False | Some e \<Rightarrow> \<not> entry_blocks_done env w p e)) paths)) (d, w))"

definition reopen_done_with_blocking_raw_on_disk :: "rr_env \<Rightarrow> bool day_op" where
  "reopen_done_with_blocking_raw_on_disk env = (\<lambda>(d, w).
     if phase d \<noteq> PHASE_DONE then (Inr False, d, w)
     else if \<not> list_ex (\<lambda>(path, e). entry_blocks_done env w path e) (manifest_entries_on_disk d w) then (Inr False, d, w)
     else py_then (mod_manifest (\<lambda>m. m\<lparr>dm_phase := PHASE_VERIFICATION_COMPLETE,
         dm_verify_stage := (if dm_verify_stage m = VERIFY_STAGE_POST_SEAL then VERIFY_STAGE_PRE_SEAL else dm_verify_stage m),
         dm_completed_at := None, dm_reverify_cycles := dm_reverify_cycles m + 1\<rparr>))
       (py_then (save_manifest env) (py_return True)) (d, w))"

definition reopen_verify_if_tar_grew_since_verify :: "rr_env \<Rightarrow> bool day_op" where
  "reopen_verify_if_tar_grew_since_verify env = (\<lambda>(d, w).
     let recorded = dm_verified_tar_identity (ds_manifest d); live = rw_files w (ds_tar d) in
     if recorded = None \<or> dm_phase (ds_manifest d) \<notin> {PHASE_VERIFICATION_COMPLETE, PHASE_DELETING, PHASE_DONE} \<or>
        live = None \<or> live = recorded then (Inr False, d, w)
     else py_then (mod_manifest (\<lambda>m. m\<lparr>dm_phase := PHASE_VERIFYING, dm_verify_stage := VERIFY_STAGE_NONE,
         dm_verified_tar_identity := None, dm_classify_index := 0, dm_classify_paths := None\<rparr>))
       (py_then (save_manifest env) (py_return True)) (d, w))"

definition note_sealed_archive_changed :: "rr_env \<Rightarrow> unit day_op" where
  "note_sealed_archive_changed env = (\<lambda>(d, w).
     if dm_verify_stage (ds_manifest d) \<noteq> VERIFY_STAGE_POST_SEAL then (Inr (), d, w)
     else py_then (mod_manifest (\<lambda>m. m\<lparr>dm_verify_stage := VERIFY_STAGE_PRE_SEAL\<rparr>)) (save_manifest env) (d, w))"

definition prepare_ghost_delete_retry :: "rr_env \<Rightarrow> bool day_op" where
  "prepare_ghost_delete_retry env = (\<lambda>(d, w).
     let ghosts = ghost_deleted_paths_on_disk d w in
     if ghosts = [] then (Inr False, d, w)
     else py_then (mod_manifest (\<lambda>m. m\<lparr>dm_phase := PHASE_DELETING,
         dm_entries := map (\<lambda>(p, e). (p, if p \<in> set ghosts then e\<lparr>re_deleted := False, re_delete_failed := None, re_delete_reason := None\<rparr> else e)) (dm_entries m)\<rparr>))
       (py_then (save_manifest env) (py_return True)) (d, w))"

definition reopen_delete_phase_if_verified_on_disk :: "rr_env \<Rightarrow> bool day_op" where
  "reopen_delete_phase_if_verified_on_disk env = (\<lambda>(d, w).
     if phase d \<noteq> PHASE_DONE \<or> manifest_verified_pending_count d = 0 then (Inr False, d, w)
     else py_then (mod_manifest (\<lambda>m. m\<lparr>dm_phase := PHASE_DELETING\<rparr>)) (py_then (save_manifest env) (py_return True)) (d, w))"

definition begin_deleting :: "rr_env \<Rightarrow> unit day_op" where
  "begin_deleting env = (\<lambda>(d, w).
     if dm_phase (ds_manifest d) = PHASE_VERIFICATION_COMPLETE \<or> dm_phase (ds_manifest d) = PHASE_DONE \<and>
        (paths_pending_delete d \<noteq> {} \<or> blocking_manifest_paths_on_disk env d w \<noteq> [])
     then py_then (mod_manifest (\<lambda>m. m\<lparr>dm_phase := PHASE_DELETING\<rparr>)) (save_manifest env) (d, w)
     else (Inr (), d, w))"

section \<open>Classifying raw files\<close>

definition get_verified_files_to_remove :: "(string \<Rightarrow> int option) \<Rightarrow> string list \<Rightarrow> members \<Rightarrow> string list" where
  "get_verified_files_to_remove sizes stats_files existing_members = filter (\<lambda>path. case map_of existing_members (get_tar_member_name path) of
      None \<Rightarrow> False | Some n \<Rightarrow> sizes path = Some n) stats_files"

definition classify_member :: "(string \<Rightarrow> int option) \<Rightarrow> members \<Rightarrow> string \<Rightarrow> string \<times> string" where
  "classify_member sizes ms stats_path =
     (if stats_path \<in> set (get_verified_files_to_remove sizes [stats_path] ms) then (''verified'', [])
      else if map_of ms (get_tar_member_name stats_path) = None then (''skipped_not_in_archive'', ''not_in_sealed_archive'')
      else (''skipped_size_mismatch'', ''size_mismatch''))"

definition classify_removable_raw_paths_for_members ::
    "(string \<Rightarrow> int option) \<Rightarrow> (string \<Rightarrow> py_error + bool) option \<Rightarrow> string list \<Rightarrow> members \<Rightarrow> py_error + (string \<times> string \<times> string) list" where
  "classify_removable_raw_paths_for_members sizes ingest_ready_fn stats_paths ms =
     sum_map (\<lambda>p. case (case ingest_ready_fn of None \<Rightarrow> Inr True | Some f \<Rightarrow> f p) of
         Inl e \<Rightarrow> Inl e
       | Inr ready \<Rightarrow> Inr (if \<not> ready then (p, ''skipped_not_head_tail_ingested'', ''not_head_tail_ingested'') else (p, classify_member sizes ms p))) stats_paths"

definition classify_removable_after_ok ::
    "(string \<Rightarrow> int option) \<Rightarrow> (string \<Rightarrow> py_error + bool) option \<Rightarrow> string list \<Rightarrow> members option \<Rightarrow> py_error + (string \<times> string \<times> string) list" where
  "classify_removable_after_ok sizes ingest_ready_fn stats_paths verdict = (case verdict of
      None \<Rightarrow> Inr (map (\<lambda>p. (p, ''skipped_seal_invalid'', ''seal_validation_failed'')) stats_paths)
    | Some ms \<Rightarrow> classify_removable_raw_paths_for_members sizes ingest_ready_fn stats_paths ms)"

text \<open>Members that the caller gives are taken as they are, else the archive is validated.\<close>

definition classify_removable_raw_paths_for_daily_gz ::
    "rr_env \<Rightarrow> rr_world \<Rightarrow> (string \<Rightarrow> py_error + bool) option \<Rightarrow> string list \<Rightarrow> members option \<Rightarrow> py_error + (string \<times> string \<times> string) list" where
  "classify_removable_raw_paths_for_daily_gz env w ingest_ready_fn stats_paths sealed_members =
     classify_removable_after_ok (getsize w) ingest_ready_fn stats_paths (case sealed_members of Some ms \<Rightarrow> Some ms | None \<Rightarrow> rr_sealed env)"

definition classify_removable_raw_paths_for_open_tar ::
    "rr_world \<Rightarrow> (string \<Rightarrow> py_error + bool) option \<Rightarrow> string list \<Rightarrow> members \<Rightarrow> py_error + (string \<times> string \<times> string) list" where
  "classify_removable_raw_paths_for_open_tar w ingest_ready_fn stats_paths open_tar_members =
     classify_removable_after_ok (getsize w) ingest_ready_fn stats_paths (Some open_tar_members)"

definition gate_fn :: "rr_env \<Rightarrow> (string \<Rightarrow> py_error + bool) option" where
  "gate_fn env = (if rr_required env then rr_ready_fn env else None)"

definition fresh_entry :: "rr_world \<Rightarrow> string \<Rightarrow> string \<Rightarrow> string \<Rightarrow> string \<Rightarrow> rr_entry" where
  "fresh_entry w path daily_gz status reason =
     \<lparr>re_path = path, re_daily_gz = daily_gz, re_status = status, re_reason = reason, re_deleted = False, re_fp = path_fingerprint w path,
      re_delete_reason = None, re_delete_failed = None, re_delete_deferred = None\<rparr>"

definition record_entry :: "string \<Rightarrow> string \<Rightarrow> string \<Rightarrow> string \<Rightarrow> unit day_op" where
  "record_entry path daily_gz status reason = (\<lambda>(d, w).
     let m = ds_manifest d;
         put = (\<lambda>m. m\<lparr>dm_entries := AList.update path (fresh_entry w path daily_gz status reason) (dm_entries m)\<rparr>) in
     (Inr (), d\<lparr>ds_manifest := (case map_of (dm_entries m) path of
         Some prior \<Rightarrow>
           if re_status prior = ''verified'' \<or> re_status prior = status then m
           else if status = ''verified''
           then put (m\<lparr>dm_skipped_count := max 0 (dm_skipped_count m - 1), dm_verified_count := dm_verified_count m + 1\<rparr>)
           else put m
       | None \<Rightarrow> if status = ''verified'' then put (m\<lparr>dm_verified_count := dm_verified_count m + 1\<rparr>)
           else put (m\<lparr>dm_skipped_count := dm_skipped_count m + 1\<rparr>))\<rparr>, w))"

definition record_all :: "string \<Rightarrow> (string \<times> string \<times> string) list \<Rightarrow> unit day_op" where
  "record_all zst_path results = py_for results (\<lambda>(path, status, reason). record_entry path zst_path status reason)"

definition ensure_daily_tar_restored :: "rr_env \<Rightarrow> bool day_op" where
  "ensure_daily_tar_restored env = (\<lambda>(d, w). case rr_restore env (rw_files w) of (ok, i) \<Rightarrow>
     (Inr ok, d, w\<lparr>rw_files := (rw_files w)(ds_tar d := i)\<rparr>))"

definition validate_open_tar :: "rr_env \<Rightarrow> members option day_op" where
  "validate_open_tar env = (\<lambda>(d, w). case rr_open_tar env (rw_files w) of (verdict, i) \<Rightarrow>
     (Inr verdict, d, w\<lparr>rw_files := (rw_files w)(ds_tar d := i)\<rparr>))"

text \<open>What a classification changes when a pass runs over it again; the count of changed entries.\<close>

definition reclassify_one :: "string \<Rightarrow> string \<times> string \<times> string \<Rightarrow> nat day_op" where
  "reclassify_one zst_path r = (\<lambda>(d, w). case r of (path, status, reason) \<Rightarrow>
     let prior = map_of (entries d) path; prior_status = (case prior of None \<Rightarrow> [] | Some e \<Rightarrow> re_status e) in
     if (if status = ''verified'' then prior_status \<noteq> ''verified'' else prior_status \<in> REPAIR_REQUIRED_STATUSES \<and> status \<noteq> prior_status)
     then py_then (record_entry path zst_path status reason) (py_return 1) (d, w)
     else (Inr 0, d, w))"

fun reclassify_all :: "string \<Rightarrow> (string \<times> string \<times> string) list \<Rightarrow> nat day_op" where
  "reclassify_all zst_path [] = py_return 0"
| "reclassify_all zst_path (r # rs) = py_bind (reclassify_one zst_path r) (\<lambda>n. py_bind (reclassify_all zst_path rs) (\<lambda>k. py_return (n + k)))"

definition reclassify_results :: "rr_env \<Rightarrow> string \<Rightarrow> py_error + (string \<times> string \<times> string) list \<Rightarrow> nat day_op" where
  "reclassify_results env zst_path r = py_bind (py_sum r) (\<lambda>results. py_bind (reclassify_all zst_path results) (\<lambda>upgraded.
     if upgraded = 0 then py_return 0 else py_then (save_manifest env) (py_return upgraded)))"

text \<open>Without an open tar the sealed file is asked; with an unreadable one only the entries whose seal was invalid are asked there.\<close>

definition reclassify_against :: "rr_env \<Rightarrow> string \<Rightarrow> string list \<Rightarrow> members option \<Rightarrow> nat day_op" where
  "reclassify_against env zst_path retryable_paths verdict = (\<lambda>(d, w). case verdict of
      Some ms \<Rightarrow> reclassify_results env zst_path (classify_removable_raw_paths_for_open_tar w (gate_fn env) retryable_paths ms) (d, w)
    | None \<Rightarrow>
        (let seal_invalid_paths = filter (\<lambda>p. map_option re_status (map_of (entries d) p) = Some ''skipped_seal_invalid'') retryable_paths in
         if seal_invalid_paths = [] \<or> \<not> isfile w zst_path then (Inr 0, d, w)
         else reclassify_results env zst_path (classify_removable_raw_paths_for_daily_gz env w (gate_fn env) seal_invalid_paths None) (d, w)))"

definition reclassify_retryable_skips_on_disk :: "rr_env \<Rightarrow> nat day_op" where
  "reclassify_retryable_skips_on_disk env = (\<lambda>(d, w).
     let retryable_paths = filter (\<lambda>p. map_option re_status (map_of (entries d) p) \<noteq> Some ''verified'') (blocking_manifest_paths_on_disk env d w);
         zst_path = zst_of d;
         sealed_only = (isfile w zst_path \<and> \<not> (case getsize w (ds_tar d) of None \<Rightarrow> False | Some n \<Rightarrow> n > 0)) in
     if phase d \<notin> {PHASE_DONE, PHASE_DELETING, PHASE_VERIFICATION_COMPLETE} \<or> retryable_paths = [] then (Inr 0, d, w)
     else if sealed_only then
       reclassify_results env zst_path (classify_removable_raw_paths_for_daily_gz env w (gate_fn env) retryable_paths None) (d, w)
     else py_bind (ensure_daily_tar_restored env) (\<lambda>restored.
       if \<not> restored then py_return 0
       else py_bind (validate_open_tar env) (reclassify_against env zst_path retryable_paths)) (d, w))"

section \<open>Verifying\<close>

definition start_verifying :: "rr_env \<Rightarrow> unit day_op" where
  "start_verifying env = mod_manifest (\<lambda>m. m\<lparr>dm_phase := PHASE_VERIFYING,
     dm_started_at := (if dm_started_at m = None \<or> dm_started_at m = Some 0 then Some (rr_now env) else dm_started_at m)\<rparr>)"

text \<open>Files that are being written or are in quarantine are recorded as such; the others are classified.\<close>

definition record_skipped :: "rr_env \<Rightarrow> string \<Rightarrow> string list \<Rightarrow> unit day_op" where
  "record_skipped env zst_path raw_paths = (\<lambda>(d, w). py_for raw_paths (\<lambda>p.
     if active_segment env w p then record_entry p zst_path ''skipped_active_segment'' ''active_segment''
     else if p \<in> rr_quarantine env then record_entry p zst_path ''skipped_quarantine'' ''quarantine''
     else py_return ()) (d, w))"

definition to_classify :: "rr_env \<Rightarrow> rr_world \<Rightarrow> string list \<Rightarrow> string list" where
  "to_classify env w raw_paths = filter (\<lambda>p. \<not> active_segment env w p \<and> p \<notin> rr_quarantine env) raw_paths"

definition verify_body :: "rr_env \<Rightarrow> unit day_op" where
  "verify_body env = (\<lambda>(d, w).
     if dm_phase (ds_manifest d) \<in> {PHASE_DONE, PHASE_VERIFICATION_COMPLETE, PHASE_DELETING} then (Inr (), d, w)
     else py_then (start_verifying env) (py_bind (build_remaining env) (\<lambda>remaining.
       let raw_paths = concat (map snd remaining) in
       py_then (record_skipped env (zst_of d) raw_paths)
       (py_bind (py_sum (classify_removable_raw_paths_for_daily_gz env w (gate_fn env) (to_classify env w raw_paths) (ds_verify_members d))) (\<lambda>results.
         py_then (record_all (zst_of d) results)
         (py_then (mod_manifest (\<lambda>m. m\<lparr>dm_phase := PHASE_VERIFICATION_COMPLETE\<rparr>)) (save_manifest env)))))) (d, w))"

definition update_reconcile_progress :: "rr_env \<Rightarrow> string \<Rightarrow> int option \<Rightarrow> int option \<Rightarrow> rat option \<Rightarrow> unit day_op" where
  "update_reconcile_progress env worker_stage members_done members_total last_progress_ts =
     py_then (mod_manifest (\<lambda>m. m\<lparr>
         dm_worker_stage := (if worker_stage \<noteq> [] then worker_stage else dm_worker_stage m),
         dm_members_done := (case members_done of Some n \<Rightarrow> n | None \<Rightarrow> dm_members_done m),
         dm_members_total := (case members_total of Some n \<Rightarrow> n | None \<Rightarrow> dm_members_total m),
         dm_last_progress_ts := (case last_progress_ts of Some t \<Rightarrow> Some t | None \<Rightarrow> dm_last_progress_ts m)\<rparr>)) (save_manifest env)"

definition pre_seal_seed_remaining_by_gz :: "rr_env \<Rightarrow> day_state \<Rightarrow> rr_world \<Rightarrow> py_error + raw_by_gz" where
  "pre_seal_seed_remaining_by_gz env d w =
     (if \<not> rr_allow_scoped env then Inr [] else build_day_scoped_closed_raw_by_gz env w (ds_tar d))"

definition stats_path_candidates_for_tar_member :: "rr_world \<Rightarrow> string \<Rightarrow> string list" where
  "stats_path_candidates_for_tar_member w member_name =
     (let name = py_strip member_name in
      if name = [] then []
      else filter (isfile w) (add_unseen (if starts_with ''/'' name then [name] else [py_path_join ''/'' name, name]) []))"

definition pre_seal_raw_paths_for_classify :: "rr_env \<Rightarrow> day_state \<Rightarrow> rr_world \<Rightarrow> members \<Rightarrow> py_error + string list" where
  "pre_seal_raw_paths_for_classify env d w ms =
     (let listed = map fst (filter (\<lambda>(path, e). \<not> entry_is_verified_ghost_on_disk e \<and> \<not> entry_is_quarantine_terminal_skip e) (manifest_entries_on_disk d w));
          of_members = filter (stats_path_aligned_to_daily_tar (rr_days env) (rr_tgz env) (ds_tar d))
            (concat (map (\<lambda>(name, n). stats_path_candidates_for_tar_member w name) ms));
          out = add_unseen (filter (\<lambda>p. p \<noteq> []) (listed @ blocking_manifest_paths_on_disk env d w @ of_members)) [] in
      if out \<noteq> [] then Inr out
      else (case pre_seal_seed_remaining_by_gz env d w of
          Inl e \<Rightarrow> Inl e
        | Inr seed \<Rightarrow> Inr (add_unseen (filter (\<lambda>p. p \<noteq> []) (concat (map snd seed))) [])))"

text \<open>
  The ingest gate of a batch. With identities of a snapshot the batch is asked as a whole. Without, a pool runs the task
  \<open>_gate_one\<close>, whose value is a tuple; what the pool yields in second place is that tuple, or nothing when the task raised,
  and the test is on it. \<open>rr_completion\<close> is the order of completion.
\<close>

definition gate_one_yields :: "(string \<Rightarrow> py_error + bool) \<Rightarrow> string \<Rightarrow> (string \<times> bool \<times> string) option" where
  "gate_one_yields gate path = (case gate path of
      Inl e \<Rightarrow> None
    | Inr True \<Rightarrow> Some (path, True, [])
    | Inr False \<Rightarrow> Some (path, False, ''not_head_tail_ingested''))"

definition skip_not_ingested :: "string \<Rightarrow> string list \<Rightarrow> unit day_op" where
  "skip_not_ingested zst_path paths = record_all zst_path (map (\<lambda>p. (p, ''skipped_not_head_tail_ingested'', ''not_head_tail_ingested'')) paths)"

definition gate_by_identities :: "rr_env \<Rightarrow> string \<Rightarrow> string list \<Rightarrow> (string, host_seconds) dict \<Rightarrow> string list day_op" where
  "gate_by_identities env zst_path batch ids = (\<lambda>(d, w).
     case filter_paths_head_ingested (rr_gate_env env) (rr_now env) batch (Some ids) None (rw_gate w) of
       (Inl e, g) \<Rightarrow> (Inl e, d, w\<lparr>rw_gate := g\<rparr>)
     | (Inr (gate_ready, gate_skipped), g) \<Rightarrow> py_then (skip_not_ingested zst_path gate_skipped) (py_return gate_ready) (d, w\<lparr>rw_gate := g\<rparr>))"

definition gate_by_pool :: "rr_env \<Rightarrow> string \<Rightarrow> string list \<Rightarrow> (string \<Rightarrow> py_error + bool) \<Rightarrow> string list day_op" where
  "gate_by_pool env zst_path batch gate =
     (let order = rr_completion env batch in
      py_then (skip_not_ingested zst_path (filter (\<lambda>p. gate_one_yields gate p = None) order))
        (py_return (filter (\<lambda>p. gate_one_yields gate p \<noteq> None) order)))"

definition gate_batch :: "rr_env \<Rightarrow> string \<Rightarrow> string list \<Rightarrow> string list day_op" where
  "gate_batch env zst_path batch = (case gate_fn env of
      None \<Rightarrow> py_return batch
    | Some gate \<Rightarrow>
        py_bind (py_sum (case rr_snapshot env of None \<Rightarrow> Inr None | Some r \<Rightarrow> r)) (\<lambda>snap.
          let ids = (case snap of None \<Rightarrow> [] | Some sn \<Rightarrow> sn_gate_identities sn) in
          if ids \<noteq> [] then gate_by_identities env zst_path batch ids else gate_by_pool env zst_path batch gate))"

definition classify_batch :: "rr_env \<Rightarrow> members \<Rightarrow> string \<Rightarrow> string list \<Rightarrow> nat \<Rightarrow> unit day_op" where
  "classify_batch env ms zst_path batch batch_end =
     py_bind (gate_batch env zst_path batch) (\<lambda>classify_paths.
       py_bind (\<lambda>(d, w). (classify_removable_raw_paths_for_open_tar w None classify_paths ms, d, w)) (\<lambda>results.
         py_then (record_all zst_path results)
         (py_then (mod_manifest (\<lambda>m. m\<lparr>dm_classify_index := batch_end\<rparr>)) (save_manifest env))))"

definition paths_per_tick :: "rr_env \<Rightarrow> nat" where
  "paths_per_tick env = max 1 (rr_batch env)"

function classify_loop :: "rr_env \<Rightarrow> members \<Rightarrow> string \<Rightarrow> string list \<Rightarrow> int option \<Rightarrow> nat \<Rightarrow> nat day_op" where
  "classify_loop env ms zst_path filtered left cursor s =
     (if cursor < length filtered \<and> \<not> rr_shutdown env cursor \<and> (case left of None \<Rightarrow> True | Some k \<Rightarrow> k > 0) then
        (let batch_end = min (cursor + paths_per_tick env) (length filtered) in
         case classify_batch env ms zst_path (take (batch_end - cursor) (drop cursor filtered)) batch_end s of
           (Inl e, t) \<Rightarrow> (Inl e, t)
         | (Inr u, t) \<Rightarrow> classify_loop env ms zst_path filtered (map_option (\<lambda>k. k - 1) left) batch_end t)
      else (Inr cursor, s))"
  by pat_completeness auto
termination
  by (relation "measure (\<lambda>(env, ms, zst_path, filtered, left, cursor, s). length filtered - cursor)") (auto simp: paths_per_tick_def)

definition filtered_paths :: "rr_env \<Rightarrow> members \<Rightarrow> string list day_op" where
  "filtered_paths env ms = (\<lambda>(d, w). case dm_classify_paths (ds_manifest d) of
      Some (p # ps) \<Rightarrow> (Inr (p # ps), d, w)
    | _ \<Rightarrow> py_bind (py_sum (pre_seal_raw_paths_for_classify env d w ms)) (\<lambda>raw_paths.
        py_then (record_skipped env (zst_of d) raw_paths)
        (py_then (mod_manifest (\<lambda>m. m\<lparr>dm_classify_paths := Some (to_classify env w raw_paths)\<rparr>))
        (py_then (save_manifest env) (py_return (to_classify env w raw_paths))))) (d, w))"

definition finish_pre_seal :: "rr_env \<Rightarrow> unit day_op" where
  "finish_pre_seal env = (\<lambda>(d, w). py_then (mod_manifest (\<lambda>m. m\<lparr>dm_verify_stage := VERIFY_STAGE_PRE_SEAL, dm_phase := PHASE_VERIFICATION_COMPLETE,
      dm_verified_tar_identity := rw_files w (ds_tar d), dm_classify_index := 0, dm_classify_paths := None\<rparr>)) (save_manifest env) (d, w))"

definition pre_seal_verify_body :: "rr_env \<Rightarrow> int option \<Rightarrow> bool day_op" where
  "pre_seal_verify_body env max_classify_batches = (\<lambda>(d, w).
     if pre_seal_verification_complete d then (Inr True, d, w)
     else py_then (start_verifying env) (py_bind (ensure_daily_tar_restored env) (\<lambda>restored.
       if \<not> restored then py_return False
       else py_bind (validate_open_tar env) (\<lambda>verdict. case verdict of
           None \<Rightarrow> py_return False
         | Some ms \<Rightarrow> py_bind (py_gets (\<lambda>(d1, w1). dm_classify_index (ds_manifest d1))) (\<lambda>index.
             py_bind (filtered_paths env ms) (\<lambda>filtered.
               py_bind (classify_loop env ms (zst_of d) filtered max_classify_batches (if index > length filtered then 0 else index)) (\<lambda>cursor.
                 if rr_shutdown env cursor \<or> cursor < length filtered then py_return False
                 else py_then (finish_pre_seal env) (py_return True))))))) (d, w))"

text \<open>The copies that a restore or a salvage kept are removed after it; they are no files of the model.\<close>

definition post_seal_verify_body :: "rr_env \<Rightarrow> bool day_op" where
  "post_seal_verify_body env = (\<lambda>(d, w).
     if post_seal_verification_complete d then (Inr True, d, w)
     else if \<not> rr_parity env then (Inr False, d, w)
     else py_then (mod_manifest (\<lambda>m. m\<lparr>dm_verify_stage := VERIFY_STAGE_POST_SEAL, dm_reverify_cycles := 0\<rparr>))
       (py_then (save_manifest env) (py_return True)) (d, w))"

section \<open>Waiting on ingest\<close>

definition only_waiting_on_ingest_blocks_completion :: "rr_env \<Rightarrow> bool day_op" where
  "only_waiting_on_ingest_blocks_completion env = (\<lambda>(d, w).
     if verification_complete d then (Inr (manifest_only_waiting_on_ingest d w), d, w)
     else py_bind (unmanifested_closed_raw_paths env) (\<lambda>unmanifested.
       if unmanifested \<noteq> [] then py_return False
       else py_bind (closed_raw_paths_on_disk env) (\<lambda>paths.
         let found = map (map_of (entries d)) (filter (isfile w) paths) in
         py_return (None \<notin> set found \<and> only_waiting (map the found)))) (d, w))"

definition has_active_raw_removal_work :: "rr_env \<Rightarrow> bool day_op" where
  "has_active_raw_removal_work env = (\<lambda>(d, w).
     if phase d = PHASE_DONE then
       (if needs_reopen_for_verified_pending d then (Inr True, d, w)
        else if only_quarantine_terminal_on_disk d w then py_then (finalize_quarantine_terminal_done env) (py_return False) (d, w)
        else (Inr False, d, w))
     else (Inr (if ds_in_flight d then True
       else if phase d = PHASE_VERIFYING then True
       else if paths_pending_delete d \<noteq> {} then \<not> (phase d = PHASE_VERIFICATION_COMPLETE \<and> \<not> ds_in_flight d)
       else phase d = PHASE_DELETING), d, w))"

definition waiting_on_ingest_at_startup :: "rr_env \<Rightarrow> bool day_op" where
  "waiting_on_ingest_at_startup env = (\<lambda>(d, w).
     if delete_phase_done d then (Inr False, d, w)
     else py_bind (has_active_raw_removal_work env) (\<lambda>active. py_return (\<not> active \<and> needs_delete_phase d)) (d, w))"

definition handoff_paths_for_ingest :: "rr_env \<Rightarrow> string list day_op" where
  "handoff_paths_for_ingest env = (\<lambda>(d, w).
     if delete_phase_done d \<or> \<not> rr_allow_scoped env \<or> verification_complete d then (Inr (manifest_retryable_paths_on_disk d w), d, w)
     else py_bind (closed_raw_paths_on_disk env) (\<lambda>paths. py_return (filter (\<lambda>p. isfile w p \<and>
       (case map_of (entries d) p of None \<Rightarrow> True | Some e \<Rightarrow> entry_is_retryable_skip e)) paths)) (d, w))"

definition should_handoff_day_close_to_ingest :: "rr_env \<Rightarrow> bool day_op" where
  "should_handoff_day_close_to_ingest env = (\<lambda>(d, w).
     if \<not> verification_complete d then (Inr False, d, w)
     else py_bind (only_waiting_on_ingest_blocks_completion env) (\<lambda>waiting.
       if \<not> waiting then py_return False
       else py_bind (handoff_paths_for_ingest env) (\<lambda>paths. py_return (paths \<noteq> []))) (d, w))"

definition mark_done_waiting_on_ingest :: "rr_env \<Rightarrow> unit day_op" where
  "mark_done_waiting_on_ingest env = (\<lambda>(d, w). py_bind (handoff_paths_for_ingest env) (\<lambda>handoff_paths.
     if handoff_paths = [] then py_return ()
     else py_bind (closed_raw_paths_on_disk env) (\<lambda>paths.
       if list_ex (\<lambda>p. isfile w p \<and> (case map_of (entries d) p of None \<Rightarrow> False | Some e \<Rightarrow> entry_blocks_done env w p e)) paths
       then py_return ()
       else py_then (mod_manifest (\<lambda>m. m\<lparr>dm_phase := PHASE_DONE, dm_completed_at := Some (rr_now env)\<rparr>)) (save_manifest env))) (d, w))"

definition complete_handoff_to_ingest :: "rr_env \<Rightarrow> string list day_op" where
  "complete_handoff_to_ingest env = py_bind (handoff_paths_for_ingest env) (\<lambda>paths.
     if paths = [] then py_return []
     else (\<lambda>(d, w). if delete_phase_done d then (Inr paths, d, w)
       else py_then (mark_done_waiting_on_ingest env) (py_return paths) (d, w)))"

section \<open>Deleting\<close>

text \<open>
  What is decided for one entry. A stored status is not enough: the fingerprint must be that of the verification, the file
  must not be in use by the ingest, and the sealed archive that is on disk now must hold the file in this size.
\<close>

datatype verdict = Absent | Changed | In_ingest | Unproven | Not_sealed | Remove

definition delete_skip_paths :: "rr_env \<Rightarrow> day_state \<Rightarrow> string \<Rightarrow> string set" where
  "delete_skip_paths env d path = (case rr_active env of
      Some f \<Rightarrow> f path
    | None \<Rightarrow> rr_quarantine env - paths_pending_delete d)"

definition delete_verdict :: "rr_env \<Rightarrow> members option \<Rightarrow> day_state \<Rightarrow> rr_world \<Rightarrow> string \<Rightarrow> rr_entry \<Rightarrow> verdict" where
  "delete_verdict env sealed_members d w path e =
     (if \<not> isfile w path then Absent
      else if re_fp e \<noteq> path_fingerprint w path then Changed
      else if path \<in> delete_skip_paths env d path then In_ingest
      else (case sealed_members of
          None \<Rightarrow> Unproven
        | Some ms \<Rightarrow> if raw_path_in_sealed_members (getsize w) path ms then Remove else Not_sealed))"

definition upd_entry :: "string \<Rightarrow> (rr_entry \<Rightarrow> rr_entry) \<Rightarrow> day_state \<Rightarrow> day_state" where
  "upd_entry path f d = d\<lparr>ds_manifest := (ds_manifest d)\<lparr>dm_entries := AList.update path (f (the (map_of (entries d) path))) (entries d)\<rparr>\<rparr>"

text \<open>Whether the entry counts as a deletion of the pass.\<close>

definition delete_entry :: "rr_env \<Rightarrow> members option \<Rightarrow> string \<Rightarrow> day_state \<times> rr_world \<Rightarrow> nat \<times> day_state \<times> rr_world" where
  "delete_entry env sealed_members path = (\<lambda>(d, w). case map_of (entries d) path of
      None \<Rightarrow> (0, d, w)
    | Some e \<Rightarrow>
        if \<not> entry_pending e then (0, d, w)
        else (case delete_verdict env sealed_members d w path e of
            Absent \<Rightarrow> (1, upd_entry path (\<lambda>e. e\<lparr>re_deleted := True, re_delete_reason := Some ''already_absent''\<rparr>) d, w)
          | Changed \<Rightarrow> (0, upd_entry path (\<lambda>e. e\<lparr>re_status := ''skipped_fingerprint_changed'', re_reason := ''fingerprint_changed_before_delete''\<rparr>) d, w)
          | In_ingest \<Rightarrow> (0, upd_entry path (\<lambda>e. e\<lparr>re_delete_deferred := Some ''active_ingest''\<rparr>) d, w)
          | Unproven \<Rightarrow> (0, upd_entry path (\<lambda>e. e\<lparr>re_delete_deferred := Some ''sealed_copy_unproven''\<rparr>) d, w)
          | Not_sealed \<Rightarrow> (0, upd_entry path (\<lambda>e. e\<lparr>re_status := ''skipped_not_in_archive'', re_reason := ''not_in_sealed_archive_at_delete''\<rparr>) d, w)
          | Remove \<Rightarrow> (case rr_unlink env path of
                Unlinked \<Rightarrow>
                  (let d1 = upd_entry path (\<lambda>e. e\<lparr>re_deleted := True\<rparr>) d in
                   (1, d1\<lparr>ds_manifest := (ds_manifest d1)\<lparr>dm_deleted_count := dm_deleted_count (ds_manifest d1) + 1\<rparr>\<rparr>,
                    w\<lparr>rw_files := (rw_files w)(path := None)\<rparr>))
              | Lock_contended \<Rightarrow> (0, upd_entry path (\<lambda>e. e\<lparr>re_delete_deferred := Some ''write_lock_contended''\<rparr>) d, w)
              | Unlink_failed exc \<Rightarrow> (0, upd_entry path (\<lambda>e. e\<lparr>re_delete_failed := Some exc\<rparr>) d, w))))"

fun delete_loop :: "rr_env \<Rightarrow> members option \<Rightarrow> string list \<Rightarrow> nat \<Rightarrow> day_state \<times> rr_world \<Rightarrow> nat \<times> day_state \<times> rr_world" where
  "delete_loop env sealed_members [] n s = (n, s)"
| "delete_loop env sealed_members (path # paths) n s =
     (if rr_max_deletes env \<noteq> 0 \<and> n \<ge> rr_max_deletes env then (n, s)
      else (case delete_entry env sealed_members path s of (k, t) \<Rightarrow> delete_loop env sealed_members paths (n + k) t))"

text \<open>The first sealed sibling that exists is looked up in the persisted map.\<close>

definition lookup_sealed :: "rr_env \<Rightarrow> members option day_op" where
  "lookup_sealed env = (\<lambda>(d, w). case find (isfile w) [zst_of d, gz_of d] of
      None \<Rightarrow> (Inr None, d, w)
    | Some sealed \<Rightarrow> (case sealed_members_lookup (rr_digest env) (rw_files w) True sealed (rw_maps w) of
        (r, maps) \<Rightarrow> (r, d, w\<lparr>rw_maps := maps\<rparr>)))"

record completion =
  bc_raw_delete_complete :: bool
  bc_all_terminal :: bool
  bc_only_waiting :: bool
  bc_has_closed_raw :: bool
  bc_unmanifested :: "string list"

definition batch_delete_completion_context :: "rr_env \<Rightarrow> completion day_op" where
  "batch_delete_completion_context env = (\<lambda>(d, w).
     if manifest_verified_pending_count d > 0 then
       (Inr \<lparr>bc_raw_delete_complete = False, bc_all_terminal = False, bc_only_waiting = False, bc_has_closed_raw = False, bc_unmanifested = []\<rparr>, d, w)
     else py_bind (all_closed_raw_terminal_or_gone env) (\<lambda>all_terminal.
       if \<not> all_terminal then
         py_bind (only_waiting_on_ingest_blocks_completion env) (\<lambda>waiting.
         py_bind (unmanifested_closed_raw_paths env) (\<lambda>unmanifested.
         py_bind (if waiting then has_closed_raw_existing_on_disk env else py_return False) (\<lambda>has_closed.
         py_return \<lparr>bc_raw_delete_complete = True, bc_all_terminal = False, bc_only_waiting = waiting, bc_has_closed_raw = has_closed,
             bc_unmanifested = unmanifested\<rparr>)))
       else py_then (remaining_raw_paths_blocking_tar_drop env)
         (py_return \<lparr>bc_raw_delete_complete = True, bc_all_terminal = True, bc_only_waiting = False, bc_has_closed_raw = False,
             bc_unmanifested = []\<rparr>)) (d, w))"

definition set_phase :: "rr_env \<Rightarrow> (day_manifest \<Rightarrow> day_manifest) \<Rightarrow> nat \<Rightarrow> nat day_op" where
  "set_phase env f n = py_then (mod_manifest f) (py_then (save_manifest env) (py_return n))"

definition complete_batch_delete :: "rr_env \<Rightarrow> nat \<Rightarrow> nat day_op" where
  "complete_batch_delete env n = py_bind (batch_delete_completion_context env) (\<lambda>c.
     if \<not> bc_raw_delete_complete c then py_then (save_manifest env) (py_return n)
     else if \<not> bc_all_terminal c then
       (if bc_only_waiting c \<and> bc_has_closed_raw c then py_then (mark_done_waiting_on_ingest env) (py_return n)
        else if bc_unmanifested c \<noteq> [] then set_phase env (\<lambda>m. m\<lparr>dm_phase := PHASE_VERIFYING, dm_verify_stage := VERIFY_STAGE_NONE\<rparr>) n
        else set_phase env (\<lambda>m. m\<lparr>dm_phase := PHASE_VERIFICATION_COMPLETE\<rparr>) n)
     else py_bind (remaining_raw_paths_blocking_tar_drop env) (\<lambda>remaining.
       py_then (remove_verified_uncompressed_daily_tars env remaining)
         (set_phase env (\<lambda>m. m\<lparr>dm_phase := PHASE_DONE, dm_completed_at := Some (rr_now env)\<rparr>) n)))"

definition delete_pass :: "rr_env \<Rightarrow> nat day_op" where
  "delete_pass env = (\<lambda>(d, w).
     if dm_phase (ds_manifest d) \<notin> {PHASE_VERIFICATION_COMPLETE, PHASE_DELETING} then (Inr 0, d, w)
     else py_then (mod_manifest (\<lambda>m. m\<lparr>dm_phase := PHASE_DELETING\<rparr>))
       (py_bind (lookup_sealed env) (\<lambda>sealed_members.
         py_bind (\<lambda>s. case delete_loop env sealed_members (sort (map fst (entries d))) 0 s of (n, t) \<Rightarrow> (Inr n, t))
           (complete_batch_delete env))) (d, w))"

definition apply_batch_delete_body :: "rr_env \<Rightarrow> nat day_op" where
  "apply_batch_delete_body env = (\<lambda>(d, w).
     py_then (if needs_ghost_delete_retry d w then py_then (prepare_ghost_delete_retry env) (py_return ()) else py_return ()) (delete_pass env) (d, w))"

definition apply_batch_delete :: "rr_env \<Rightarrow> nat day_op" where
  "apply_batch_delete env = (\<lambda>(d, w).
     if ds_memo_active d then apply_batch_delete_body env (d, w)
     else py_finally (apply_batch_delete_body env) (\<lambda>(d1, w1). (clear_closed_raw_pass_memo d1, w1)) (begin_closed_raw_pass_memo d, w))"

end
