(* ===== verification/Day_Removal_Props.thy ===== *)
theory Day_Removal_Props
  imports Day_Removal
begin

text \<open>
  Properties of the removal of a day's raw files.
\<close>

section \<open>Methods that leave the entries alone\<close>

text \<open>
  Relations between states that hold whenever neither the entries nor the files change: they are kept by every method that only
  reads, moves the phase or writes the sidecar.
\<close>

locale day_order = effect_order R
  for R :: "day_state \<times> rr_world \<Rightarrow> day_state \<times> rr_world \<Rightarrow> bool" +
  assumes quiet: "entries d' = entries d \<Longrightarrow> ds_tar d' = ds_tar d \<Longrightarrow> ds_verify_members d' = ds_verify_members d \<Longrightarrow>
    ds_saved d' = ds_saved d \<or> map_option dm_entries (ds_saved d') = Some (entries d) \<Longrightarrow> R (d, w) (d', w)"
begin

lemma leads_mod_manifest: "(\<And>m. dm_entries (f m) = dm_entries m) \<Longrightarrow> leads R (mod_manifest f) s"
  by (cases s) (simp add: mod_manifest_def leads_def quiet)

lemma leads_save: "leads R (save_manifest env) s"
  by (cases s) (auto simp: save_manifest_def leads_def quiet split: option.split)

lemma leads_build_remaining: "leads R (build_remaining env) s"
  by (cases s) (auto simp: build_remaining_def leads_def Let_def quiet split: sum.split)

lemma run_bind: "leads R (py_bind m f) s \<Longrightarrow> R s (snd (py_bind m f s))"
  by (simp add: leads_def)

lemma run_then: "leads R (py_then m n) s \<Longrightarrow> R s (snd (py_then m n s))"
  by (simp add: leads_def)

lemmas quiet_rules = run_bind run_then leads_rules leads_mod_manifest leads_save leads_build_remaining

lemma leads_finalize: "leads R (finalize_quarantine_terminal_done env) s"
  by (cases s) (auto simp: leads_def finalize_quarantine_terminal_done_def refl intro!: quiet_rules)

lemma leads_closed_raw: "leads R (closed_raw_paths_on_disk env) s"
  by (cases s) (auto simp: leads_def closed_raw_paths_on_disk_def refl intro!: quiet_rules)

lemma leads_unmanifested: "leads R (unmanifested_closed_raw_paths env) s"
  by (cases s) (auto simp: leads_def unmanifested_closed_raw_paths_def refl intro!: quiet_rules leads_closed_raw)

lemma leads_has_closed: "leads R (has_closed_raw_existing_on_disk env) s"
  by (cases s) (auto simp: leads_def has_closed_raw_existing_on_disk_def refl intro!: quiet_rules leads_finalize leads_unmanifested)

lemma leads_remaining_blocking: "leads R (remaining_raw_paths_blocking_tar_drop env) s"
  by (cases s) (auto simp: leads_def remaining_raw_paths_blocking_tar_drop_def refl intro!: quiet_rules leads_finalize)

lemma leads_log_skip: "leads R (log_tar_drop_skip env) s"
  by (cases s) (auto simp: log_tar_drop_skip_def count_quarantine_accrual_paths_on_disk_def leads_def refl
      intro!: quiet_rules leads_remaining_blocking)

lemma leads_begin_deleting: "leads R (begin_deleting env) s"
  by (cases s) (auto simp: leads_def begin_deleting_def refl intro!: quiet_rules)

lemma leads_reopens:
  "leads R (reopen_stale_done_all_skipped env) s" "leads R (reopen_done_with_blocking_raw_on_disk env) s"
  "leads R (reopen_verify_if_tar_grew_since_verify env) s" "leads R (note_sealed_archive_changed env) s"
  "leads R (reopen_delete_phase_if_verified_on_disk env) s" "leads R (needs_retry_after_ingest env) s"
  "leads R (update_reconcile_progress env a b c x) s" "leads R (post_seal_verify_body env) s"
  by (cases s; auto simp: leads_def reopen_stale_done_all_skipped_def reopen_done_with_blocking_raw_on_disk_def
      reopen_verify_if_tar_grew_since_verify_def note_sealed_archive_changed_def reopen_delete_phase_if_verified_on_disk_def
      needs_retry_after_ingest_def update_reconcile_progress_def post_seal_verify_body_def Let_def refl intro!: quiet_rules leads_closed_raw)+

lemma leads_only_waiting: "leads R (only_waiting_on_ingest_blocks_completion env) s"
  by (cases s) (auto simp: leads_def only_waiting_on_ingest_blocks_completion_def Let_def refl
      intro!: quiet_rules leads_unmanifested leads_closed_raw)

lemma leads_active_work: "leads R (has_active_raw_removal_work env) s" "leads R (waiting_on_ingest_at_startup env) s"
proof -
  show *: "leads R (has_active_raw_removal_work env) s" for s
    by (cases s) (auto simp: leads_def has_active_raw_removal_work_def refl intro!: quiet_rules leads_finalize)
  show "leads R (waiting_on_ingest_at_startup env) s"
    by (cases s) (auto simp: leads_def waiting_on_ingest_at_startup_def refl intro!: quiet_rules *)
qed

lemma leads_handoff_paths: "leads R (handoff_paths_for_ingest env) s"
  by (cases s) (auto simp: leads_def handoff_paths_for_ingest_def refl intro!: quiet_rules leads_closed_raw)

lemma leads_should_handoff: "leads R (should_handoff_day_close_to_ingest env) s"
  by (cases s) (auto simp: leads_def should_handoff_day_close_to_ingest_def refl intro!: quiet_rules leads_only_waiting leads_handoff_paths)

lemma leads_mark_done: "leads R (mark_done_waiting_on_ingest env) s"
  by (cases s) (auto simp: leads_def mark_done_waiting_on_ingest_def refl intro!: quiet_rules leads_handoff_paths leads_closed_raw)

lemma leads_complete_handoff: "leads R (complete_handoff_to_ingest env) s"
proof -
  have "leads R (\<lambda>(d, w). if delete_phase_done d then (Inr paths, d, w) else py_then (mark_done_waiting_on_ingest env) (py_return paths) (d, w)) t"
    for t and paths :: "string list"
    by (cases t) (auto simp: leads_def refl intro!: quiet_rules leads_mark_done)
  then show ?thesis unfolding complete_handoff_to_ingest_def by (intro quiet_rules leads_handoff_paths)
qed

lemma leads_all_terminal: "leads R (all_closed_raw_terminal_or_gone env) s"
  by (cases s) (auto simp: leads_def all_closed_raw_terminal_or_gone_def refl intro!: quiet_rules leads_closed_raw)

lemma leads_completion_context: "leads R (batch_delete_completion_context env) s"
  by (cases s) (auto simp: leads_def batch_delete_completion_context_def refl
      intro!: quiet_rules leads_all_terminal leads_only_waiting leads_unmanifested leads_has_closed leads_remaining_blocking)

lemma leads_start: "leads R (start_verifying env) s"
  by (simp add: start_verifying_def leads_mod_manifest)

end

section \<open>Where a verified entry comes from\<close>

definition verified_at :: "day_state \<Rightarrow> string \<Rightarrow> (int \<times> int) option \<Rightarrow> bool" where
  "verified_at d p fp = (\<exists>e. map_of (entries d) p = Some e \<and> re_status e = ''verified'' \<and> re_fp e = fp)"

definition saved_at :: "day_state \<Rightarrow> string \<Rightarrow> (int \<times> int) option \<Rightarrow> bool" where
  "saved_at d p fp = (\<exists>m e. ds_saved d = Some m \<and> map_of (dm_entries m) p = Some e \<and> re_status e = ''verified'' \<and> re_fp e = fp)"

text \<open>A view of the files: what a pass finds outside the tar of the day. Without a view nothing is said of the files.\<close>

type_synonym view = "(string \<times> files) option"

definition sees :: "view \<Rightarrow> day_state \<times> rr_world \<Rightarrow> bool" where
  "sees v s = (case v of None \<Rightarrow> True | Some (tar, f) \<Rightarrow> ds_tar (fst s) = tar \<and> (\<forall>p. p \<noteq> tar \<longrightarrow> rw_files (snd s) p = f p))"

definition viewed :: "view \<Rightarrow> string \<Rightarrow> (int \<times> int) option \<Rightarrow> bool" where
  "viewed v p fp = (case v of None \<Rightarrow> True | Some (tar, f) \<Rightarrow> p \<noteq> tar \<longrightarrow> fp = map_option (\<lambda>i. (id_mtime_ns i, id_size i)) (f p))"

lemma sees_viewed: "sees v (d, w) \<Longrightarrow> viewed v p (path_fingerprint w p)"
  by (auto simp: sees_def viewed_def path_fingerprint_def split: option.splits)

lemma sees_upd [simp]:
  "sees v (d\<lparr>ds_manifest := m\<rparr>, w) = sees v (d, w)" "sees v (d\<lparr>ds_saved := x\<rparr>, w) = sees v (d, w)" "sees v (d, w\<lparr>rw_gate := g\<rparr>) = sees v (d, w)"
  "sees None s"
  by (simp_all add: sees_def split: option.split)

lemma sees_same: "ds_tar d' = ds_tar d \<Longrightarrow> rw_files w' = rw_files w \<Longrightarrow> sees v (d', w') = sees v (d, w)"
  by (simp add: sees_def split: option.split)

text \<open>Between two states no entry became verified, in memory or in the sidecar, but for a reason of \<open>P\<close>.\<close>

definition new_from :: "(string \<Rightarrow> (int \<times> int) option \<Rightarrow> bool) \<Rightarrow> day_state \<Rightarrow> day_state \<Rightarrow> bool" where
  "new_from P d d' = (ds_tar d' = ds_tar d \<and> ds_verify_members d' = ds_verify_members d \<and>
     (\<forall>p fp. verified_at d' p fp \<longrightarrow> verified_at d p fp \<or> P p fp) \<and>
     (\<forall>p fp. saved_at d' p fp \<longrightarrow> saved_at d p fp \<or> verified_at d p fp \<or> P p fp))"

lemma new_from_trans: "new_from P a b \<Longrightarrow> new_from P b c \<Longrightarrow> new_from P a c"
  unfolding new_from_def by (intro conjI allI impI) (simp, simp, blast, blast)

text \<open>The same, and the view stays.\<close>

definition origin :: "view \<Rightarrow> (string \<Rightarrow> (int \<times> int) option \<Rightarrow> bool) \<Rightarrow> day_state \<times> rr_world \<Rightarrow> day_state \<times> rr_world \<Rightarrow> bool" where
  "origin v P s t = (sees v s \<longrightarrow> sees v t \<and> new_from P (fst s) (fst t))"

lemma new_from_same:
  "entries d' = entries d \<Longrightarrow> ds_tar d' = ds_tar d \<Longrightarrow> ds_verify_members d' = ds_verify_members d \<Longrightarrow>
    ds_saved d' = ds_saved d \<or> map_option dm_entries (ds_saved d') = Some (entries d) \<Longrightarrow> new_from P d d'"
  by (auto simp: new_from_def verified_at_def saved_at_def)

lemma origin_same:
  "entries d' = entries d \<Longrightarrow> ds_tar d' = ds_tar d \<Longrightarrow> ds_verify_members d' = ds_verify_members d \<Longrightarrow>
    ds_saved d' = ds_saved d \<or> map_option dm_entries (ds_saved d') = Some (entries d) \<Longrightarrow>
    v = None \<or> (\<forall>p. p \<noteq> ds_tar d \<longrightarrow> rw_files w' p = rw_files w p) \<Longrightarrow> origin v P (d, w) (d', w')"
  by (simp add: origin_def new_from_same) (auto simp: sees_def split: option.split)

lemma origin_refl [simp]: "origin v P s s"
  by (simp add: origin_def new_from_def)

lemma origin_trans: "origin v P s t \<Longrightarrow> origin v P t u \<Longrightarrow> origin v P s u"
  using new_from_trans unfolding origin_def by blast

lemma origin_None: "origin None P s t = new_from P (fst s) (fst t)"
  by (simp add: origin_def sees_def)

interpretation origin: day_order "origin v P" for v P
  by unfold_locales (simp, rule origin_trans, assumption+, simp add: origin_same)

text \<open>Between two states only the files of \<open>S\<close> changed, and no member map.\<close>

definition only_files :: "string set \<Rightarrow> day_state \<times> rr_world \<Rightarrow> day_state \<times> rr_world \<Rightarrow> bool" where
  "only_files S s t = (ds_tar (fst t) = ds_tar (fst s) \<and> ds_verify_members (fst t) = ds_verify_members (fst s) \<and>
     rw_maps (snd t) = rw_maps (snd s) \<and> (\<forall>p. p \<notin> S \<longrightarrow> rw_files (snd t) p = rw_files (snd s) p))"

lemma only_files_refl [simp]: "only_files S s s"
  by (simp add: only_files_def)

interpretation only_files: day_order "only_files S" for S
  by unfold_locales (auto simp: only_files_def)

lemma leads_remove_tar: "leads (origin None P) (remove_verified_uncompressed_daily_tars env r) s"
  by (cases s) (auto simp: leads_def remove_verified_uncompressed_daily_tars_def Let_def origin_same split: prod.split)

lemma leads_finish_drop: "leads (origin None P) (try_finish_tar_drop_if_ready env) s"
  by (cases s) (auto simp: leads_def try_finish_tar_drop_if_ready_def origin.refl
      intro!: origin.quiet_rules origin.leads_remaining_blocking origin.leads_log_skip leads_remove_tar)

lemma leads_reset: "leads (origin v P) (reset_for_reverify env) s"
  by (cases s) (auto simp: leads_def reset_for_reverify_def mod_manifest_def py_then_def py_bind_def save_manifest_def
      new_manifest_def origin_def new_from_def verified_at_def saved_at_def split: option.split)

lemma leads_ghost_retry: "leads (origin v P) (prepare_ghost_delete_retry env) s"
proof (cases s)
  case (Pair d w)
  let ?g = "\<lambda>(p, e). (p, if p \<in> set (ghost_deleted_paths_on_disk d w) then e\<lparr>re_deleted := False, re_delete_failed := None, re_delete_reason := None\<rparr> else e)"
  have get: "map_of (map ?g es) p = map_option (\<lambda>e. snd (?g (p, e))) (map_of es p)" for es :: "(string, rr_entry) dict" and p
    by (induction es) auto
  have "leads (origin v P) (mod_manifest (\<lambda>m. m\<lparr>dm_phase := PHASE_DELETING, dm_entries := map ?g (dm_entries m)\<rparr>)) s"
    by (auto simp: Pair leads_def mod_manifest_def origin_def new_from_def verified_at_def saved_at_def get split: if_splits)
  then have "leads (origin v P) (py_then (mod_manifest (\<lambda>m. m\<lparr>dm_phase := PHASE_DELETING, dm_entries := map ?g (dm_entries m)\<rparr>))
      (py_then (save_manifest env) (py_return True))) s"
    by (rule origin.leads_then) (intro origin.quiet_rules)
  then show ?thesis by (simp add: Pair leads_def prepare_ghost_delete_retry_def Let_def origin.refl)
qed

lemma leads_restore: "leads (origin v P) (ensure_daily_tar_restored env) s" "leads (origin v P) (validate_open_tar env) s"
  by (cases s; auto simp: leads_def ensure_daily_tar_restored_def validate_open_tar_def origin_same split: prod.split)+

lemma open_tar_verdict: "validate_open_tar env s = (Inr v, t) \<Longrightarrow> \<exists>f. fst (rr_open_tar env f) = v"
  by (cases s) (auto simp: validate_open_tar_def split: prod.splits intro!: exI [of _ "rw_files (snd s)"])

subsection \<open>Recording a classification\<close>

lemma record_entry_run:
  "\<exists>d'. record_entry path zst status reason (d, w) = (Inr (), d', w) \<and> ds_verify_members d' = ds_verify_members d \<and> ds_tar d' = ds_tar d \<and> ds_saved d' = ds_saved d \<and>
    (\<forall>p fp. verified_at d' p fp \<longrightarrow> verified_at d p fp \<or> p = path \<and> status = ''verified'' \<and> fp = path_fingerprint w path)"
  by (auto simp: record_entry_def Let_def verified_at_def fresh_entry_def AList.update_conv' split: option.split if_splits)

lemma leads_record_entry:
  assumes "\<And>d w. s = (d, w) \<Longrightarrow> sees v s \<Longrightarrow> status = ''verified'' \<Longrightarrow> P path (path_fingerprint w path)"
  shows "leads (origin v P) (record_entry path zst status reason) s"
proof (cases s)
  case (Pair d w)
  then obtain d' where "record_entry path zst status reason s = (Inr (), d', w)" "ds_verify_members d' = ds_verify_members d" "ds_tar d' = ds_tar d" "ds_saved d' = ds_saved d"
    "\<And>p fp. verified_at d' p fp \<Longrightarrow> verified_at d p fp \<or> p = path \<and> status = ''verified'' \<and> fp = path_fingerprint w path"
    using record_entry_run [of path zst status reason d w] by auto
  with assms [OF Pair] Pair sees_same [of d' d w w v] show ?thesis by (auto simp: leads_def origin_def new_from_def saved_at_def)
qed

text \<open>The results of a classification at the files \<open>w\<close>, each verified one with a reason.\<close>

lemma record_all_run:
  assumes "\<And>p reason. sees v (d, w) \<Longrightarrow> (p, ''verified'', reason) \<in> set results \<Longrightarrow> P p (path_fingerprint w p)"
  shows "\<exists>d'. record_all zst results (d, w) = (Inr (), d', w) \<and> origin v P (d, w) (d', w) \<and> ds_tar d' = ds_tar d"
  using assms
proof (induction results arbitrary: d)
  case (Cons r results)
  obtain p st reason where r: "r = (p, st, reason)" by (metis prod_cases3)
  obtain d1 where d1: "record_entry p zst st reason (d, w) = (Inr (), d1, w)" "ds_tar d1 = ds_tar d"
    using record_entry_run [of p zst st reason d w] by blast
  have "leads (origin v P) (record_entry p zst st reason) (d, w)" by (rule leads_record_entry) (use Cons.prems r in auto)
  with d1 have o1: "origin v P (d, w) (d1, w)" by (simp add: leads_def)
  obtain d2 where "record_all zst results (d1, w) = (Inr (), d2, w)" "origin v P (d1, w) (d2, w)" "ds_tar d2 = ds_tar d1"
    using Cons.IH [of d1] Cons.prems sees_same [of d1 d w w v] d1(2) by auto
  with d1 o1 r show ?case by (auto simp: record_all_def py_then_def py_bind_def intro: origin.trans)
qed (simp add: record_all_def)

lemma leads_record_all:
  "(\<And>d w p reason. s = (d, w) \<Longrightarrow> sees v s \<Longrightarrow> (p, ''verified'', reason) \<in> set results \<Longrightarrow> P p (path_fingerprint w p)) \<Longrightarrow>
    leads (origin v P) (record_all zst results) s"
proof (cases s)
  case (Pair d w)
  assume *: "\<And>d w p reason. s = (d, w) \<Longrightarrow> sees v s \<Longrightarrow> (p, ''verified'', reason) \<in> set results \<Longrightarrow> P p (path_fingerprint w p)"
  have "\<exists>d'. record_all zst results (d, w) = (Inr (), d', w) \<and> origin v P (d, w) (d', w) \<and> ds_tar d' = ds_tar d"
    by (rule record_all_run) (rule * [OF Pair], simp_all add: Pair)
  with Pair show ?thesis by (auto simp: leads_def)
qed

subsection \<open>What a classification proves\<close>

definition in_archive :: "members \<Rightarrow> string \<Rightarrow> (int \<times> int) option \<Rightarrow> bool" where
  "in_archive ms p fp = (\<exists>mtime n. fp = Some (mtime, n) \<and> map_of ms (get_tar_member_name p) = Some n)"

definition gate_passed :: "(string \<Rightarrow> py_error + bool) option \<Rightarrow> string \<Rightarrow> bool" where
  "gate_passed gate p = (case gate of None \<Rightarrow> True | Some f \<Rightarrow> f p = Inr True)"

lemma classify_member_verified:
  assumes "classify_member (getsize w) ms p = (''verified'', reason)"
  shows "in_archive ms p (path_fingerprint w p)"
proof -
  from assms obtain n where n: "map_of ms (get_tar_member_name p) = Some n" "getsize w p = Some n"
    by (auto simp: classify_member_def get_verified_files_to_remove_def split: if_splits option.splits)
  from n(2) obtain i where "rw_files w p = Some i" "id_size i = n" by (auto simp: getsize_def)
  with n(1) show ?thesis by (simp add: in_archive_def path_fingerprint_def)
qed

lemma sum_map_elem: "sum_map f xs = Inr ys \<Longrightarrow> y \<in> set ys \<Longrightarrow> \<exists>x \<in> set xs. f x = Inr y"
  by (induction xs arbitrary: ys) (auto split: sum.splits)

lemma classify_members_proof:
  assumes "classify_removable_raw_paths_for_members (getsize w) gate paths ms = Inr results" "(p, ''verified'', reason) \<in> set results"
  shows "in_archive ms p (path_fingerprint w p) \<and> gate_passed gate p \<and> p \<in> set paths"
proof -
  let ?ask = "\<lambda>q. case gate of None \<Rightarrow> Inr True | Some f \<Rightarrow> f q"
  from sum_map_elem [OF assms [unfolded classify_removable_raw_paths_for_members_def]] obtain q where "q \<in> set paths"
    and ask: "(case ?ask q of Inl e \<Rightarrow> Inl e | Inr b \<Rightarrow> Inr (if \<not> b then (q, ''skipped_not_head_tail_ingested'', ''not_head_tail_ingested'')
      else (q, classify_member (getsize w) ms q))) = Inr (p, ''verified'', reason)" by blast
  then obtain b where q: "q \<in> set paths" "?ask q = Inr b"
    "(if \<not> b then (q, ''skipped_not_head_tail_ingested'', ''not_head_tail_ingested'') else (q, classify_member (getsize w) ms q)) = (p, ''verified'', reason)"
    by (cases "?ask q") simp_all
  from q(3) have "b" "q = p" "classify_member (getsize w) ms p = (''verified'', reason)" by (auto split: if_splits)
  with q(1,2) show ?thesis by (auto simp: classify_member_verified gate_passed_def split: option.splits)
qed

lemma classify_after_ok_proof:
  assumes "classify_removable_after_ok (getsize w) gate paths v = Inr results" "(p, ''verified'', reason) \<in> set results"
  shows "\<exists>ms. v = Some ms \<and> in_archive ms p (path_fingerprint w p) \<and> gate_passed gate p \<and> p \<in> set paths"
proof (cases v)
  case None
  with assms show ?thesis by (auto simp: classify_removable_after_ok_def)
next
  case (Some ms)
  with assms classify_members_proof [of w gate paths ms results p reason] show ?thesis by (simp add: classify_removable_after_ok_def)
qed

text \<open>
  The reasons a pass can have: a list of members that the validation of the open tar or of the sealed file gave, or that the caller
  gave for the day, has the file in this size.
\<close>

definition listed_by :: "rr_env \<Rightarrow> members option \<Rightarrow> members \<Rightarrow> bool" where
  "listed_by env given ms = (given = Some ms \<or> rr_sealed env = Some ms \<or> (\<exists>f. fst (rr_open_tar env f) = Some ms))"

definition archived :: "rr_env \<Rightarrow> members option \<Rightarrow> view \<Rightarrow> string \<Rightarrow> (int \<times> int) option \<Rightarrow> bool" where
  "archived env given v p fp = (viewed v p fp \<and> (\<exists>ms. listed_by env given ms \<and> in_archive ms p fp))"

definition proven :: "rr_env \<Rightarrow> members option \<Rightarrow> view \<Rightarrow> string \<Rightarrow> (int \<times> int) option \<Rightarrow> bool" where
  "proven env given v p fp = (archived env given v p fp \<and> gate_passed (gate_fn env) p)"

lemma leads_reclassify_all:
  assumes "\<And>p reason. sees v (d, w) \<Longrightarrow> (p, ''verified'', reason) \<in> set results \<Longrightarrow> P p (path_fingerprint w p)"
  shows "leads (origin v P) (reclassify_all zst results) (d, w)"
  using assms
proof (induction results arbitrary: d)
  case (Cons r results)
  obtain p st reason where r: "r = (p, st, reason)" by (metis prod_cases3)
  have one: "leads (origin v P) (reclassify_one zst r) (d, w)"
    by (auto simp: leads_def reclassify_one_def r Let_def
        intro!: origin.quiet_rules leads_record_entry Cons.prems)
  have later: "leads (origin v P) (py_bind (reclassify_all zst results) (\<lambda>m. py_return (n + m))) t" if "reclassify_one zst r (d, w) = (Inr n, t)" for n t
  proof -
    obtain d2 where "record_entry p zst st reason (d, w) = (Inr (), d2, w)" "ds_tar d2 = ds_tar d"
      using record_entry_run [of p zst st reason d w] by blast
    then have "t = (d2, w) \<or> t = (d, w)" using that by (auto simp: reclassify_one_def r Let_def py_then_def py_bind_def split: if_splits)
    with \<open>ds_tar d2 = ds_tar d\<close> obtain d1 where t: "t = (d1, w)" "ds_tar d1 = ds_tar d" by blast
    have "leads (origin v P) (reclassify_all zst results) t"
      unfolding t by (rule Cons.IH) (use Cons.prems sees_same [of d1 d w w v] t in auto)
    then show ?thesis by (rule origin.leads_bind) (rule origin.leads_return)
  qed
  show ?case unfolding reclassify_all.simps by (rule origin.leads_bind [OF one later])
qed (simp add: origin.leads_return)

lemma leads_reclassify_results:
  assumes "\<And>results p reason. sees v (d, w) \<Longrightarrow> r = Inr results \<Longrightarrow> (p, ''verified'', reason) \<in> set results \<Longrightarrow> P p (path_fingerprint w p)"
  shows "leads (origin v P) (reclassify_results env zst r) (d, w)"
  unfolding reclassify_results_def by (auto intro!: origin.quiet_rules leads_reclassify_all assms)

lemma leads_reclassify: "leads (origin v (proven env given v)) (reclassify_retryable_skips_on_disk env) s"
proof (cases s)
  case (Pair d w)
  have sealed: "proven env given v p (path_fingerprint w1 p)"
    if "sees v (d1, w1)" "classify_removable_raw_paths_for_daily_gz env w1 (gate_fn env) ps None = Inr results" "(p, ''verified'', reason) \<in> set results"
    for d1 w1 ps results p reason
    using classify_after_ok_proof [OF that(2,3) [unfolded classify_removable_raw_paths_for_daily_gz_def]] sees_viewed [OF that(1), of p]
    by (auto simp: proven_def archived_def listed_by_def)
  have tar: "proven env given v p (path_fingerprint w1 p)"
    if "sees v (d1, w1)" "classify_removable_raw_paths_for_open_tar w1 (gate_fn env) ps ms = Inr results" "(p, ''verified'', reason) \<in> set results"
      "fst (rr_open_tar env f) = Some ms" for d1 w1 ps ms results p reason f
    using classify_after_ok_proof [OF that(2,3) [unfolded classify_removable_raw_paths_for_open_tar_def]] that(4) sees_viewed [OF that(1), of p]
    by (auto simp: proven_def archived_def listed_by_def)
  have against: "leads (origin v (proven env given v)) (reclassify_against env zst ps vd) t" if "\<And>ms. vd = Some ms \<Longrightarrow> \<exists>f. fst (rr_open_tar env f) = Some ms" for zst ps vd t
  proof (cases t)
    case (Pair d1 w1)
    have "leads (origin v (proven env given v)) (reclassify_results env zst (classify_removable_raw_paths_for_daily_gz env w1 (gate_fn env) qs None)) (d1, w1)" for qs
      by (intro leads_reclassify_results sealed)
    moreover have "leads (origin v (proven env given v)) (reclassify_results env zst (classify_removable_raw_paths_for_open_tar w1 (gate_fn env) ps ms)) (d1, w1)"
      if "vd = Some ms" for ms
      by (rule leads_reclassify_results) (use tar \<open>\<And>ms. vd = Some ms \<Longrightarrow> _ ms\<close> [OF that] in blast)
    ultimately show ?thesis by (auto simp: Pair leads_def reclassify_against_def Let_def split: option.split)
  qed
  have direct: "leads (origin v (proven env given v)) (reclassify_results env zst (classify_removable_raw_paths_for_daily_gz env w (gate_fn env) qs None)) (d, w)" for zst qs
    by (intro leads_reclassify_results sealed)
  have opened: "leads (origin v (proven env given v)) (py_bind (ensure_daily_tar_restored env) (\<lambda>restored.
       if \<not> restored then py_return 0 else py_bind (validate_open_tar env) (reclassify_against env zst qs))) (d, w)" for zst qs
    by (intro origin.leads_rules leads_restore against) (auto dest: open_tar_verdict)
  from direct opened show ?thesis by (simp add: Pair leads_def reclassify_retryable_skips_on_disk_def Let_def)
qed

subsection \<open>The passes\<close>

lemma files_record_entry: "leads (only_files S) (record_entry p zst st reason) s"
proof (cases s)
  case (Pair d w)
  then show ?thesis using record_entry_run [of p zst st reason d w] by (auto simp: leads_def only_files_def)
qed

lemma files_record_all: "leads (only_files S) (record_all zst results) s"
  unfolding record_all_def by (rule only_files.leads_for) (auto simp: files_record_entry)

lemma leads_record_skipped: "leads (origin v P) (record_skipped env zst ps) s" "leads (only_files S) (record_skipped env zst ps) s"
proof -
  obtain d w where s: "s = (d, w)" by fastforce
  let ?f = "\<lambda>p. if active_segment env w p then record_entry p zst ''skipped_active_segment'' ''active_segment''
     else if p \<in> rr_quarantine env then record_entry p zst ''skipped_quarantine'' ''quarantine'' else py_return ()"
  have "leads (origin v P) (py_for ps ?f) s"
    by (rule origin.leads_for) (auto intro!: leads_record_entry origin.leads_return)
  then show "leads (origin v P) (record_skipped env zst ps) s" by (simp add: leads_def record_skipped_def s)
  have "leads (only_files S) (py_for ps ?f) s"
    by (rule only_files.leads_for) (auto intro!: files_record_entry only_files.leads_return)
  then show "leads (only_files S) (record_skipped env zst ps) s" by (simp add: leads_def record_skipped_def s)
qed

lemma fingerprint_same: "only_files {} (d, w) (d', w') \<Longrightarrow> path_fingerprint w' p = path_fingerprint w p"
  by (simp add: only_files_def path_fingerprint_def)

lemma leads_verify_body:
  assumes "ds_verify_members (fst s) = given"
  shows "leads (origin v (proven env given v)) (verify_body env) s"
proof -
  obtain d w where s: "s = (d, w)" by fastforce
  have reason: "proven env given v p (path_fingerprint w p)"
    if "classify_removable_raw_paths_for_daily_gz env w (gate_fn env) ps given = Inr results" "(p, ''verified'', reason) \<in> set results"
      "viewed v p (path_fingerprint w p)" for ps results p reason
    using classify_after_ok_proof [OF that(1,2) [unfolded classify_removable_raw_paths_for_daily_gz_def]] that(3)
    by (auto simp: proven_def archived_def listed_by_def split: option.splits)
  have recs: "leads (origin v (proven env given v)) (record_all zst results) t"
    if "classify_removable_raw_paths_for_daily_gz env w (gate_fn env) ps given = Inr results" "only_files {} (d, w) t" for zst ps results t
  proof (rule leads_record_all)
    fix d1 w1 p reason
    assume t: "t = (d1, w1)" "sees v t" "(p, ''verified'', reason) \<in> set results"
    have same: "path_fingerprint w1 p = path_fingerprint w p" using that(2) by (simp add: t fingerprint_same)
    have "viewed v p (path_fingerprint w p)" using sees_viewed [of v d1 w1 p] t(2) by (simp add: t(1) same)
    then show "proven env given v p (path_fingerprint w1 p)" using reason [OF that(1) t(3)] by (simp add: same)
  qed
  have same: "only_files {} (d, w) t3"
    if "start_verifying env (d, w) = (Inr x1, t1)" "build_remaining env t1 = (Inr x2, t2)" "record_skipped env zst ps t2 = (Inr x3, t3)"
    for x1 t1 x2 t2 zst ps x3 t3
    using leadsD [OF only_files.leads_start that(1)] leadsD [OF only_files.leads_build_remaining that(2)]
      leadsD [OF leads_record_skipped(2) that(3)] by (metis only_files.trans)
  have "leads (origin v (proven env given v)) (py_then (start_verifying env) (py_bind (build_remaining env) (\<lambda>remaining.
       let raw_paths = concat (map snd remaining) in
       py_then (record_skipped env (zst_of d) raw_paths)
       (py_bind (py_sum (classify_removable_raw_paths_for_daily_gz env w (gate_fn env) (to_classify env w raw_paths) given)) (\<lambda>results.
         py_then (record_all (zst_of d) results)
         (py_then (mod_manifest (\<lambda>m. m\<lparr>dm_phase := PHASE_VERIFICATION_COMPLETE\<rparr>)) (save_manifest env))))))) (d, w)"
    unfolding Let_def
    by (intro origin.quiet_rules origin.leads_start leads_record_skipped recs) (auto dest: same)
  then show ?thesis using assms by (auto simp: s leads_def verify_body_def)
qed

lemma leads_gate_batch: "leads (origin v P) (gate_batch env zst batch) s" "leads (only_files S) (gate_batch env zst batch) s"
proof -
  have skip: "leads (origin v P) (skip_not_ingested zst ps) t" "leads (only_files S) (skip_not_ingested zst ps) t" for ps t
    unfolding skip_not_ingested_def by (rule leads_record_all) (auto simp: files_record_all)
  have ids: "leads (origin v P) (gate_by_identities env zst batch ids) t \<and> leads (only_files S) (gate_by_identities env zst batch ids) t" for ids t
  proof -
    obtain d w where t: "t = (d, w)" by fastforce
    have gate: "origin v P (d, w\<lparr>rw_gate := g\<rparr>) = origin v P (d, w)" "only_files S (d, w\<lparr>rw_gate := g\<rparr>) = only_files S (d, w)" for g
      by (simp_all add: origin_def only_files_def fun_eq_iff)
    have skips: "leads (origin v P) (py_then (skip_not_ingested zst ps) (py_return qs)) u" "leads (only_files S) (py_then (skip_not_ingested zst ps) (py_return qs)) u"
      for ps u and qs :: "string list"
      by (intro origin.quiet_rules skip, intro only_files.quiet_rules skip)
    obtain r g where "filter_paths_head_ingested (rr_gate_env env) (rr_now env) batch (Some ids) None (rw_gate w) = (r, g)" by fastforce
    moreover have "origin v P (d, w) (d, w\<lparr>rw_gate := g\<rparr>)" "only_files S (d, w) (d, w\<lparr>rw_gate := g\<rparr>)"
      by (simp_all add: gate [symmetric, of g])
    ultimately show ?thesis
      using skips [of _ _ "(d, w\<lparr>rw_gate := g\<rparr>)", unfolded leads_def gate] by (cases r) (auto simp: t leads_def gate_by_identities_def)
  qed
  show "leads (origin v P) (gate_batch env zst batch) s"
    unfolding gate_batch_def gate_by_pool_def Let_def
    by (cases "gate_fn env") (auto intro!: origin.quiet_rules skip simp: ids)
  show "leads (only_files S) (gate_batch env zst batch) s"
    unfolding gate_batch_def gate_by_pool_def Let_def
    by (cases "gate_fn env") (auto intro!: only_files.quiet_rules skip simp: ids)
qed

lemma leads_classify_batch:
  assumes "\<exists>f. fst (rr_open_tar env f) = Some ms"
  shows "leads (origin v (archived env given v)) (classify_batch env ms zst batch n) s"
proof -
  have results: "leads (origin v (archived env given v)) (record_all zst results) t"
    if "(\<lambda>(d, w). (classify_removable_raw_paths_for_open_tar w None ps ms, d, w)) t0 = (Inr results, t)" for ps t0 t results
  proof (rule leads_record_all)
    fix d w p reason
    assume "t = (d, w)" "sees v t" "(p, ''verified'', reason) \<in> set results"
    with that sees_viewed [of v d w p] classify_after_ok_proof [of w None ps "Some ms" results p reason] assms show "archived env given v p (path_fingerprint w p)"
      by (auto simp: classify_removable_raw_paths_for_open_tar_def archived_def listed_by_def split: prod.splits)
  qed
  have read: "leads (origin v P) (\<lambda>(d, w). (classify_removable_raw_paths_for_open_tar w None ps ms, d, w)) t" for P ps t
    by (cases t) (simp add: leads_def)
  show ?thesis unfolding classify_batch_def by (intro origin.quiet_rules leads_gate_batch read results) auto
qed

definition loop_goes :: "rr_env \<Rightarrow> string list \<Rightarrow> int option \<Rightarrow> nat \<Rightarrow> bool" where
  "loop_goes env filtered left cursor = (cursor < length filtered \<and> \<not> rr_shutdown env cursor \<and> (case left of None \<Rightarrow> True | Some k \<Rightarrow> k > 0))"

definition next_cursor :: "rr_env \<Rightarrow> string list \<Rightarrow> nat \<Rightarrow> nat" where
  "next_cursor env filtered cursor = min (cursor + paths_per_tick env) (length filtered)"

definition batch_at :: "rr_env \<Rightarrow> string list \<Rightarrow> nat \<Rightarrow> string list" where
  "batch_at env filtered cursor = take (next_cursor env filtered cursor - cursor) (drop cursor filtered)"

lemma classify_loop_unfold:
  "classify_loop env ms zst filtered left cursor s =
    (if loop_goes env filtered left cursor
     then py_bind (classify_batch env ms zst (batch_at env filtered cursor) (next_cursor env filtered cursor))
       (\<lambda>u. classify_loop env ms zst filtered (map_option (\<lambda>k. k - 1) left) (next_cursor env filtered cursor)) s
     else (Inr cursor, s))"
  by (subst classify_loop.simps) (simp add: loop_goes_def next_cursor_def batch_at_def Let_def py_bind_def)

declare classify_loop.simps [simp del]

lemma next_cursor_less: "cursor < length filtered \<Longrightarrow> length filtered - next_cursor env filtered cursor < length filtered - cursor"
  by (auto simp: next_cursor_def paths_per_tick_def)

lemma leads_classify_loop:
  assumes "\<exists>f. fst (rr_open_tar env f) = Some ms"
  shows "leads (origin v (archived env given v)) (classify_loop env ms zst filtered left cursor) s"
proof (induction "length filtered - cursor" arbitrary: left cursor s rule: less_induct)
  case (less cursor left s)
  have "leads (origin v (archived env given v)) (py_bind (classify_batch env ms zst (batch_at env filtered cursor) (next_cursor env filtered cursor))
       (\<lambda>u. classify_loop env ms zst filtered (map_option (\<lambda>k. k - 1) left) (next_cursor env filtered cursor))) s"
    if "loop_goes env filtered left cursor"
    using that less next_cursor_less [of cursor filtered env] by (intro origin.leads_rules leads_classify_batch assms) (auto simp: loop_goes_def)
  then show ?case by (simp add: leads_def classify_loop_unfold [of env ms zst filtered left cursor])
qed

lemma leads_filtered: "leads (origin v P) (filtered_paths env ms) s"
proof (cases s)
  case (Pair d w)
  have "leads (origin v P) (py_bind (py_sum r) (\<lambda>raw_paths. py_then (record_skipped env zst raw_paths)
        (py_then (mod_manifest (\<lambda>m. m\<lparr>dm_classify_paths := Some (to_classify env w raw_paths)\<rparr>))
        (py_then (save_manifest env) (py_return (to_classify env w raw_paths)))))) s" for zst r
    by (intro origin.quiet_rules leads_record_skipped) simp
  then show ?thesis by (simp add: Pair leads_def filtered_paths_def split: option.split list.split)
qed

lemma leads_finish_pre_seal: "leads (origin v P) (finish_pre_seal env) s"
  by (cases s) (auto simp: leads_def finish_pre_seal_def intro!: origin.quiet_rules)

lemma leads_pre_seal: "leads (origin v (archived env given v)) (pre_seal_verify_body env k) s"
proof (cases s)
  case (Pair d w)
  have inner: "leads (origin v (archived env given v)) (case vd of None \<Rightarrow> py_return False
         | Some ms \<Rightarrow> py_bind (py_gets (\<lambda>(d1, w1). dm_classify_index (ds_manifest d1))) (\<lambda>index.
             py_bind (filtered_paths env ms) (\<lambda>filtered.
               py_bind (classify_loop env ms zst filtered k (if index > length filtered then 0 else index)) (\<lambda>cursor.
                 if rr_shutdown env cursor \<or> cursor < length filtered then py_return False
                 else py_then (finish_pre_seal env) (py_return True))))) t"
    if "\<exists>f. fst (rr_open_tar env f) = vd" for vd t zst
    using that
    by (cases vd) (auto intro!: origin.quiet_rules leads_filtered leads_classify_loop leads_finish_pre_seal)
  have "leads (origin v (archived env given v)) (py_then (start_verifying env) (py_bind (ensure_daily_tar_restored env) (\<lambda>restored.
       if \<not> restored then py_return False
       else py_bind (validate_open_tar env) (\<lambda>verdict. case verdict of
           None \<Rightarrow> py_return False
         | Some ms \<Rightarrow> py_bind (py_gets (\<lambda>(d1, w1). dm_classify_index (ds_manifest d1))) (\<lambda>index.
             py_bind (filtered_paths env ms) (\<lambda>filtered.
               py_bind (classify_loop env ms (zst_of d) filtered k (if index > length filtered then 0 else index)) (\<lambda>cursor.
                 if rr_shutdown env cursor \<or> cursor < length filtered then py_return False
                 else py_then (finish_pre_seal env) (py_return True)))))))) s"
    by (intro origin.leads_rules origin.leads_start leads_restore inner) (auto dest: open_tar_verdict)
  then show ?thesis by (simp add: Pair leads_def pre_seal_verify_body_def)
qed

section \<open>What the delete pass removes\<close>

definition free_to_delete :: "rr_env \<Rightarrow> string \<Rightarrow> bool" where
  "free_to_delete env p = (case rr_active env of None \<Rightarrow> True | Some f \<Rightarrow> p \<notin> f p)"

text \<open>The proof of a removal: the entry is verified with the fingerprint of the file, and the sealed members have it in this size.\<close>

definition removable :: "rr_env \<Rightarrow> members option \<Rightarrow> day_state \<Rightarrow> string \<Rightarrow> identity \<Rightarrow> bool" where
  "removable env sealed d p i = (verified_at d p (Some (id_mtime_ns i, id_size i)) \<and> free_to_delete env p \<and>
     (\<exists>ms. sealed = Some ms \<and> map_of ms (get_tar_member_name p) = Some (id_size i)))"

lemma upd_entry_origin:
  assumes "map_of (entries d) p = Some e" "re_fp (f e) = re_fp e" "re_status (f e) = ''verified'' \<Longrightarrow> re_status e = ''verified''"
  shows "origin None P (d, w) (upd_entry p f d, w')"
  using assms by (auto simp: origin_None new_from_def upd_entry_def verified_at_def saved_at_def AList.update_conv' split: if_splits)

lemma verdict_Remove:
  assumes "delete_verdict env sealed d w p e = Remove" "map_of (entries d) p = Some e" "re_status e = ''verified''" "rw_files w p = Some i"
  shows "removable env sealed d p i"
  using assms
  by (auto simp: delete_verdict_def removable_def verified_at_def free_to_delete_def delete_skip_paths_def path_fingerprint_def
      raw_path_in_sealed_members_def getsize_def split: if_splits option.splits)

lemma delete_entry_step:
  assumes "delete_entry env sealed q (d, w) = (k, d', w')"
  shows "origin None P (d, w) (d', w') \<and> k \<le> 1 \<and> rw_maps w' = rw_maps w \<and>
    (rw_files w' = rw_files w \<or> rw_files w' = (rw_files w)(q := None) \<and> (\<forall>i. rw_files w q = Some i \<longrightarrow> removable env sealed d q i))"
proof (cases "map_of (entries d) q")
  case None
  with assms show ?thesis by (simp add: delete_entry_def)
next
  case (Some e)
  note step = assms [unfolded delete_entry_def, simplified Some prod.case option.case]
  show ?thesis
  proof (cases "entry_pending e")
    case False
    with step show ?thesis by simp
  next
    case True
    then have st: "re_status e = ''verified''" by (simp add: entry_pending_def)
    note upd = upd_entry_origin [OF Some]
    show ?thesis
    proof (cases "delete_verdict env sealed d w q e")
      case Remove
      note verdict_Remove [OF Remove Some st]
      moreover have "origin None P (d, w) (d1\<lparr>ds_manifest := (ds_manifest d1)\<lparr>dm_deleted_count := x\<rparr>\<rparr>, w1)" if "origin None P (d, w) (d1, w)" for d1 w1 x
        using that by (simp add: origin_None new_from_def verified_at_def saved_at_def)
      ultimately show ?thesis
        using step True Remove by (auto simp: Let_def st upd split: unlink.splits)
    qed (use step True st upd in auto)
  qed
qed

lemma delete_loop_step:
  "delete_loop env sealed paths n (d, w) = (k, d', w') \<Longrightarrow>
    origin None P (d, w) (d', w') \<and> rw_maps w' = rw_maps w \<and>
    (\<forall>p. rw_files w' p = rw_files w p \<or> rw_files w' p = None \<and> (\<forall>i. rw_files w p = Some i \<longrightarrow> removable env sealed d p i))"
proof (induction paths arbitrary: n d w)
  case (Cons q paths)
  show ?case
  proof (cases "rr_max_deletes env \<noteq> 0 \<and> n \<ge> rr_max_deletes env")
    case True
    with Cons.prems show ?thesis by simp
  next
    case False
    obtain j d1 w1 where one: "delete_entry env sealed q (d, w) = (j, d1, w1)" by (metis prod_cases3)
    with False Cons.prems have loop: "delete_loop env sealed paths (n + j) (d1, w1) = (k, d', w')" by auto
    note s1 = delete_entry_step [OF one, of "\<lambda>_ _. False"] and s2 = Cons.IH [OF loop]
    have "removable env sealed d p i" if "removable env sealed d1 p i" for p i
      using that s1 by (auto simp: removable_def origin_None new_from_def)
    moreover have "rw_files w1 p = rw_files w p \<or> rw_files w1 p = None \<and> (\<forall>i. rw_files w p = Some i \<longrightarrow> removable env sealed d p i)" for p
      using s1 by (auto split: if_splits)
    moreover have "origin None P (d, w) (d', w')" using delete_entry_step [OF one, of P] s2 by (blast intro: origin_trans)
    ultimately show ?thesis using s1 s2 by metis
  qed
qed simp

lemma files_remove_tar:
  "leads (only_files {ds_tar (fst s), zst_of (fst s)}) (remove_verified_uncompressed_daily_tars env r) s"
  by (cases s) (auto simp: leads_def remove_verified_uncompressed_daily_tars_def Let_def only_files_def split: prod.split)

lemma files_complete:
  assumes "ds_tar (fst s) = ds_tar d"
  shows "leads (only_files {ds_tar d, zst_of d}) (complete_batch_delete env n) s"
proof -
  let ?R = "only_files {ds_tar d, zst_of d}"
  have tar: "leads ?R (remove_verified_uncompressed_daily_tars env r) t" if "?R s t" for r t
    using files_remove_tar [of t env r] that assms by (simp add: only_files_def zst_of_def)
  have phase: "leads ?R (set_phase env f n) t" if "\<And>m. dm_entries (f m) = dm_entries m" for f t
    unfolding set_phase_def by (intro only_files.quiet_rules that)
  have drop: "leads ?R (py_bind (remaining_raw_paths_blocking_tar_drop env) (\<lambda>remaining.
       py_then (remove_verified_uncompressed_daily_tars env remaining) (set_phase env (\<lambda>m. m\<lparr>dm_phase := PHASE_DONE, dm_completed_at := Some (rr_now env)\<rparr>) n))) t"
    if "?R s t" for t
    by (intro only_files.leads_rules only_files.leads_remaining_blocking tar phase)
      (use that in \<open>auto intro: only_files.trans leadsD [OF only_files.leads_remaining_blocking]\<close>)
  show ?thesis
    unfolding complete_batch_delete_def
    by (intro only_files.quiet_rules only_files.leads_completion_context only_files.leads_mark_done phase drop)
      (auto intro: leadsD [OF only_files.leads_completion_context])
qed

lemma files_ghost_retry: "leads (only_files S) (prepare_ghost_delete_retry env) s"
  by (cases s) (auto simp: leads_def prepare_ghost_delete_retry_def Let_def mod_manifest_def save_manifest_def py_then_def py_bind_def only_files_def split: option.split)

lemma lookup_sealed_run:
  assumes "lookup_sealed env (d, w) = (Inr (Some ms), t)"
  shows "\<exists>sealed. find (isfile w) [zst_of d, gz_of d] = Some sealed \<and>
    fst (sealed_members_lookup (rr_digest env) (rw_files w) True sealed (rw_maps w)) = Inr (Some ms)"
proof (cases "find (isfile w) [zst_of d, gz_of d]")
  case None
  with assms show ?thesis by (auto simp: lookup_sealed_def simp del: find.simps)
next
  case (Some sealed)
  with assms show ?thesis by (auto simp: lookup_sealed_def simp del: find.simps split: prod.splits)
qed

lemma delete_pass_removes:
  assumes "delete_pass env (d, w) = (r, d', w')" "rw_files w p = Some i" "rw_files w' p = None" "p \<notin> {ds_tar d, zst_of d}"
  shows "\<exists>sealed ms. find (isfile w) [zst_of d, gz_of d] = Some sealed \<and>
    fst (sealed_members_lookup (rr_digest env) (rw_files w) True sealed (rw_maps w)) = Inr (Some ms) \<and> removable env (Some ms) d p i"
proof -
  let ?d = "d\<lparr>ds_manifest := (ds_manifest d)\<lparr>dm_phase := PHASE_DELETING\<rparr>\<rparr>"
  obtain l s1 where l: "lookup_sealed env (?d, w) = (l, s1)" by (meson surj_pair)
  then obtain w1 where w1: "s1 = (?d, w1)" "rw_files w1 = rw_files w"
    by (auto simp: lookup_sealed_def simp del: find.simps split: option.splits prod.splits)
  note pass = assms(1) [unfolded delete_pass_def py_then_def mod_manifest_def, simplified]
  show ?thesis
  proof (cases l)
    case (Inl e)
    with pass l w1 assms(2,3) show ?thesis by (auto simp: py_bind_def split: if_splits)
  next
    case (Inr sealed)
    obtain n d2 w2 where loop: "delete_loop env sealed (sort (map fst (entries d))) 0 (?d, w1) = (n, d2, w2)" by (metis prod_cases3)
    have complete: "complete_batch_delete env n (d2, w2) = (r, d', w')" if "dm_phase (ds_manifest d) \<in> {PHASE_VERIFICATION_COMPLETE, PHASE_DELETING}"
      using pass l w1 Inr loop that by (auto simp: py_bind_def)
    note step = delete_loop_step [OF loop, of "\<lambda>_ _. False"]
    have phase: "dm_phase (ds_manifest d) \<in> {PHASE_VERIFICATION_COMPLETE, PHASE_DELETING}"
      using pass assms(2,3) by (auto split: if_splits)
    have "ds_tar d2 = ds_tar d" using step by (simp add: origin_None new_from_def)
    then have "rw_files w2 p = rw_files w' p"
      using leadsD [OF files_complete complete [OF phase], of d] assms(4) by (simp add: only_files_def)
    moreover have "rw_files w2 p = rw_files w1 p \<or> (\<forall>i. rw_files w1 p = Some i \<longrightarrow> removable env sealed ?d p i)"
      using step by blast
    ultimately have rem: "removable env sealed ?d p i" using assms(2,3) w1(2) by auto
    then obtain ms where ms: "sealed = Some ms" by (auto simp: removable_def)
    from lookup_sealed_run [of env ?d w ms s1] l Inr ms have "\<exists>path. find (isfile w) [zst_of d, gz_of d] = Some path \<and>
        fst (sealed_members_lookup (rr_digest env) (rw_files w) True path (rw_maps w)) = Inr (Some ms)"
      by (simp add: zst_of_def gz_of_def)
    moreover have "removable env (Some ms) d p i" using rem ms by (simp add: removable_def verified_at_def)
    ultimately show ?thesis by blast
  qed
qed

lemma apply_batch_delete_removes:
  assumes "apply_batch_delete env (d, w) = (r, d', w')" "rw_files w p = Some i" "rw_files w' p = None" "p \<notin> {ds_tar d, zst_of d}"
  shows "\<exists>sealed ms. find (isfile w) [zst_of d, gz_of d] = Some sealed \<and>
    fst (sealed_members_lookup (rr_digest env) (rw_files w) True sealed (rw_maps w)) = Inr (Some ms) \<and> removable env (Some ms) d p i"
proof -
  define d0 where "d0 = (if ds_memo_active d then d else begin_closed_raw_pass_memo d)"
  have d0: "ds_tar d0 = ds_tar d" "entries d0 = entries d" by (simp_all add: d0_def begin_closed_raw_pass_memo_def)
  obtain d2 where body: "apply_batch_delete_body env (d0, w) = (r, d2, w')"
    using assms(1)
    by (cases "ds_memo_active d"; cases "apply_batch_delete_body env (d0, w)") (simp_all add: apply_batch_delete_def d0_def py_finally_def split_beta)
  let ?prep = "if needs_ghost_delete_retry d0 w then py_then (prepare_ghost_delete_retry env) (py_return ()) else py_return ()"
  obtain x s1 where prep: "?prep (d0, w) = (x, s1)" by (meson surj_pair)
  obtain d1 w1 where s1: "s1 = (d1, w1)" by fastforce
  have prep_ok: "leads (only_files {}) ?prep (d0, w)" "leads (origin None (\<lambda>_ _. False)) ?prep (d0, w)"
    by (intro only_files.leads_rules files_ghost_retry, intro origin.leads_rules leads_ghost_retry)
  then have same: "only_files {} (d0, w) (d1, w1)" "origin None (\<lambda>_ _. False) (d0, w) (d1, w1)"
    using leadsD [OF prep_ok(1) prep] leadsD [OF prep_ok(2) prep] by (simp_all add: s1)
  have files: "rw_files w1 = rw_files w" "rw_maps w1 = rw_maps w" "ds_tar d1 = ds_tar d"
    using same(1) by (auto simp: only_files_def d0)
  have isf: "isfile w1 = isfile w" by (simp add: isfile_def files fun_eq_iff)
  have run: "(case x of Inl e \<Rightarrow> (Inl e, d1, w1) | Inr u \<Rightarrow> delete_pass env (d1, w1)) = (r, d2, w')"
    using body unfolding apply_batch_delete_body_def prod.case py_then_def [where n = "delete_pass env"] py_bind_def [where m = ?prep] prep s1
    by (simp split: sum.splits)
  show ?thesis
  proof (cases x)
    case (Inl e)
    with run files assms(2,3) show ?thesis by simp
  next
    case (Inr u)
    with run have "delete_pass env (d1, w1) = (r, d2, w')" by simp
    from delete_pass_removes [OF this, of p i] assms(2-4) files isf
    have "\<exists>sealed ms. find (isfile w) [zst_of d, gz_of d] = Some sealed \<and>
      fst (sealed_members_lookup (rr_digest env) (rw_files w) True sealed (rw_maps w)) = Inr (Some ms) \<and> removable env (Some ms) d1 p i"
      by (simp add: zst_of_def gz_of_def)
    moreover have "removable env sm d p i" if "removable env sm d1 p i" for sm
      using that same(2) by (simp add: removable_def origin_None new_from_def verified_at_def d0)
    ultimately show ?thesis by blast
  qed
qed

lemma leads_lookup_sealed: "leads (origin None P) (lookup_sealed env) s"
  by (cases s) (auto simp: leads_def lookup_sealed_def origin_same simp del: find.simps split: option.split prod.split)

lemma leads_delete_loop: "leads (origin None P) (\<lambda>s. case delete_loop env sealed paths n s of (k, t) \<Rightarrow> (Inr k, t)) s"
proof (cases s)
  case (Pair d w)
  obtain k d' w' where loop: "delete_loop env sealed paths n (d, w) = (k, d', w')" by (metis prod_cases3)
  from delete_loop_step [OF loop, of P] show ?thesis by (simp add: leads_def Pair loop)
qed

lemma leads_complete: "leads (origin None P) (complete_batch_delete env n) s"
  unfolding complete_batch_delete_def set_phase_def
  by (intro origin.quiet_rules origin.leads_completion_context origin.leads_mark_done origin.leads_remaining_blocking leads_remove_tar) simp_all

lemma leads_delete_pass: "leads (origin None P) (delete_pass env) s"
proof (cases s)
  case (Pair d w)
  have "leads (origin None P) (py_then (mod_manifest (\<lambda>m. m\<lparr>dm_phase := PHASE_DELETING\<rparr>))
       (py_bind (lookup_sealed env) (\<lambda>sealed.
         py_bind (\<lambda>s. case delete_loop env sealed (sort (map fst (entries d))) 0 s of (n, t) \<Rightarrow> (Inr n, t)) (complete_batch_delete env)))) s"
    by (intro origin.quiet_rules leads_lookup_sealed leads_delete_loop leads_complete) simp
  then show ?thesis by (simp add: Pair leads_def delete_pass_def)
qed

lemma leads_apply_batch_delete: "leads (origin None P) (apply_batch_delete env) s"
proof -
  have "leads (origin None P) (py_then (if b then py_then (prepare_ghost_delete_retry env) (py_return ()) else py_return ()) (delete_pass env)) t" for b t
    by (intro origin.leads_rules leads_ghost_retry leads_delete_pass)
  then have body: "leads (origin None P) (apply_batch_delete_body env) t" for t
    by (cases t) (simp only: leads_def apply_batch_delete_body_def prod.case)
  obtain d w where s: "s = (d, w)" by fastforce
  have memo: "origin None P (d, w) u = origin None P (begin_closed_raw_pass_memo d, w) u" for u
    by (simp add: origin_None new_from_def verified_at_def saved_at_def begin_closed_raw_pass_memo_def)
  have "leads (origin None P) (py_finally (apply_batch_delete_body env) (\<lambda>(d1, w1). (clear_closed_raw_pass_memo d1, w1))) t" for t
    by (rule origin.leads_finally [OF body]) (auto simp: clear_closed_raw_pass_memo_def origin_same)
  with body [of s] show ?thesis by (simp add: s leads_def apply_batch_delete_def memo)
qed

section \<open>Runs of a day\<close>

text \<open>
  Calls of the methods on one day, each with its own surroundings, and between them whatever else happens to the files, to the
  member maps and to the caches of the gate; a restart reads the sidecar again. \<open>Give_members\<close> is the assignment to
  \<open>_verify_sealed_members\<close>.
\<close>

datatype day_request = Verify | Pre_seal "int option" | Post_seal | Reclassify | Begin_deleting | Batch_delete | Finish_drop | Reopen_stale
  | Reopen_blocking | Reopen_grown | Reopen_delete | Ghost_retry | Reset | Note_sealed | Handoff | Has_closed | Active_work
  | Progress string "int option" "int option" "rat option" | Give_members "members option"

fun day_call :: "rr_env \<Rightarrow> day_request \<Rightarrow> unit day_op" where
  "day_call env Verify = verify_body env"
| "day_call env (Pre_seal k) = py_then (pre_seal_verify_body env k) (py_return ())"
| "day_call env Post_seal = py_then (post_seal_verify_body env) (py_return ())"
| "day_call env Reclassify = py_then (reclassify_retryable_skips_on_disk env) (py_return ())"
| "day_call env Begin_deleting = begin_deleting env"
| "day_call env Batch_delete = py_then (apply_batch_delete env) (py_return ())"
| "day_call env Finish_drop = py_then (try_finish_tar_drop_if_ready env) (py_return ())"
| "day_call env Reopen_stale = py_then (reopen_stale_done_all_skipped env) (py_return ())"
| "day_call env Reopen_blocking = py_then (reopen_done_with_blocking_raw_on_disk env) (py_return ())"
| "day_call env Reopen_grown = py_then (reopen_verify_if_tar_grew_since_verify env) (py_return ())"
| "day_call env Reopen_delete = py_then (reopen_delete_phase_if_verified_on_disk env) (py_return ())"
| "day_call env Ghost_retry = py_then (prepare_ghost_delete_retry env) (py_return ())"
| "day_call env Reset = reset_for_reverify env"
| "day_call env Note_sealed = note_sealed_archive_changed env"
| "day_call env Handoff = py_then (complete_handoff_to_ingest env) (py_return ())"
| "day_call env Has_closed = py_then (has_closed_raw_existing_on_disk env) (py_return ())"
| "day_call env Active_work = py_then (has_active_raw_removal_work env) (py_return ())"
| "day_call env (Progress a b c t) = update_reconcile_progress env a b c t"
| "day_call env (Give_members ms) = py_modify (\<lambda>(d, w). (d\<lparr>ds_verify_members := ms\<rparr>, w))"

datatype day_event = Call rr_env day_request | World rr_world | Restart rat

fun day_step :: "day_event \<Rightarrow> day_state \<times> rr_world \<Rightarrow> day_state \<times> rr_world" where
  "day_step (Call env c) s = snd (day_call env c s)"
| "day_step (World w) s = (fst s, w)"
| "day_step (Restart now) s = (case init_state now (ds_tar (fst s)) (ds_saved (fst s)) of Inl e \<Rightarrow> s | Inr d \<Rightarrow> (d, snd s))"

definition fresh_day :: "day_state \<Rightarrow> bool" where
  "fresh_day d = (py_normpath (ds_tar d) = ds_tar d \<and> entries d = [] \<and> ds_saved d = None \<and> ds_verify_members d = None)"

definition day_run :: "day_event list \<Rightarrow> day_state \<times> rr_world \<Rightarrow> day_state \<times> rr_world" where
  "day_run evs s = fold day_step evs s"

text \<open>
  A verify pass of the run found the file in this fingerprint, that is with this modification time and this size, on disk when it was called, and had a list of members,
  from the open tar, from the sealed file or given before, with its name in this size.
\<close>

definition verifying :: "day_request \<Rightarrow> bool" where
  "verifying c = (case c of Verify \<Rightarrow> True | Pre_seal k \<Rightarrow> True | Reclassify \<Rightarrow> True | _ \<Rightarrow> False)"

definition evidence :: "day_event list \<Rightarrow> day_state \<times> rr_world \<Rightarrow> string \<Rightarrow> (int \<times> int) option \<Rightarrow> bool" where
  "evidence evs s p fp = (\<exists>before env c later ms. evs = before @ Call env c # later \<and> verifying c \<and>
     fp = path_fingerprint (snd (day_run before s)) p \<and> in_archive ms p fp \<and>
     (rr_sealed env = Some ms \<or> (\<exists>f. fst (rr_open_tar env f) = Some ms) \<or> (\<exists>env1. Call env1 (Give_members (Some ms)) \<in> set before)))"

lemma origin_mono: "leads (origin v P) m s \<Longrightarrow> (\<And>p fp. P p fp \<Longrightarrow> Q p fp) \<Longrightarrow> leads (origin v Q) m s"
  unfolding leads_def origin_def new_from_def by blast

definition view_of :: "day_state \<times> rr_world \<Rightarrow> view" where
  "view_of s = Some (ds_tar (fst s), rw_files (snd s))"

lemma view_of: "sees (view_of s) s" "viewed (view_of s) p fp \<Longrightarrow> p \<noteq> ds_tar (fst s) \<Longrightarrow> fp = path_fingerprint (snd s) p"
  by (simp_all add: sees_def viewed_def view_of_def path_fingerprint_def)

lemma day_call_origin:
  assumes "\<nexists>ms. c = Give_members ms"
  shows "new_from (if verifying c then archived env (ds_verify_members (fst s)) (view_of s) else (\<lambda>_ _. False)) (fst s) (fst (snd (day_call env c s)))"
proof (cases "verifying c")
  case True
  let ?v = "view_of s"
  have P: "archived env given ?v p fp" if "proven env given ?v p fp" for p fp given using that by (simp add: proven_def)
  have V: "leads (origin ?v (archived env (ds_verify_members (fst s)) ?v)) (verify_body env) s"
    by (rule origin_mono [OF leads_verify_body [OF refl]]) (rule P)
  have R: "leads (origin ?v (archived env given ?v)) (reclassify_retryable_skips_on_disk env) s" for given
    by (rule origin_mono [OF leads_reclassify]) (rule P)
  have "leads (origin ?v (archived env (ds_verify_members (fst s)) ?v)) (day_call env c) s"
    using True by (cases c) (simp_all add: verifying_def V R origin.leads_rules leads_pre_seal)
  then show ?thesis using True view_of(1) [of s] by (simp add: leads_def origin_def)
next
  case False
  then have "leads (origin None (\<lambda>_ _. False)) (day_call env c) s"
    using assms by (cases c) (simp_all add: verifying_def origin.leads_rules leads_apply_batch_delete leads_finish_drop leads_ghost_retry leads_reset
        origin.leads_reopens origin.leads_begin_deleting origin.leads_complete_handoff origin.leads_has_closed origin.leads_active_work)
  then show ?thesis using False by (simp add: leads_def origin_None)
qed

lemma day_run_snoc: "day_run (evs @ [ev]) s = day_step ev (day_run evs s)"
  by (simp add: day_run_def)

lemma restart_evidence:
  assumes "\<And>p fp. saved_at d p fp \<Longrightarrow> E p fp" "\<And>p fp. verified_at d p fp \<Longrightarrow> E p fp"
    and "day_step (Restart now) (d, w) = (d', w')"
  shows "(verified_at d' p fp \<longrightarrow> E p fp) \<and> (saved_at d' p fp \<longrightarrow> E p fp) \<and> (d' = d \<or> ds_verify_members d' = None)"
proof (cases "init_state now (ds_tar d) (ds_saved d)")
  case (Inl e)
  with assms show ?thesis by simp
next
  case (Inr d1)
  then have "d' = d1" "ds_saved d1 = ds_saved d" "ds_verify_members d1 = None" "verified_at d1 p fp \<Longrightarrow> saved_at d p fp"
    using assms(3) by (auto simp: init_state_def Let_def new_manifest_def verified_at_def saved_at_def split: option.splits)
  with assms(1) show ?thesis by (auto simp: saved_at_def)
qed

lemma evidence_mono: "evidence evs s p fp \<Longrightarrow> evidence (evs @ [ev]) s p fp"
  unfolding evidence_def by (metis append_Cons append_assoc)

lemma run_tar:
  assumes "py_normpath (ds_tar (fst s)) = ds_tar (fst s)"
  shows "ds_tar (fst (day_run evs s)) = ds_tar (fst s)"
proof (induction evs rule: rev_induct)
  case (snoc ev evs)
  have "ds_tar (fst (day_step ev t)) = ds_tar (fst t)" if "py_normpath (ds_tar (fst t)) = ds_tar (fst t)" for t
  proof (cases ev)
    case (Call env c)
    show ?thesis
    proof (cases "\<exists>ms. c = Give_members ms")
      case False
      then show ?thesis using day_call_origin [of c env t] by (simp add: Call new_from_def)
    qed (auto simp: Call split: prod.split)
  next
    case (Restart now)
    then show ?thesis using that by (auto simp: init_state_def Let_def split: sum.splits option.splits if_splits)
  qed simp
  with snoc assms show ?case by (simp add: day_run_snoc)
qed (simp add: day_run_def)

lemma run_evidence:
  assumes "fresh_day (fst s)"
  shows "(\<forall>p fp. p \<noteq> ds_tar (fst s) \<longrightarrow> verified_at (fst (day_run evs s)) p fp \<or> saved_at (fst (day_run evs s)) p fp \<longrightarrow> evidence evs s p fp) \<and>
    (\<forall>ms. ds_verify_members (fst (day_run evs s)) = Some ms \<longrightarrow> (\<exists>env. Call env (Give_members (Some ms)) \<in> set evs))"
proof (induction evs rule: rev_induct)
  case Nil
  show ?case using assms by (simp add: day_run_def verified_at_def saved_at_def fresh_day_def)
next
  case (snoc ev evs)
  let ?s = "day_run evs s" and ?t = "day_step ev (day_run evs s)" and ?E = "\<lambda>p fp. p \<noteq> ds_tar (fst s) \<longrightarrow> evidence (evs @ [ev]) s p fp"
  have known: "?E p fp" if "verified_at (fst ?s) p fp \<or> saved_at (fst ?s) p fp" for p fp
    using snoc evidence_mono that by blast
  show ?case
  proof (cases ev)
    case (World w)
    with snoc known show ?thesis by (auto simp: day_run_snoc)
  next
    case (Restart now)
    obtain d w where s: "?s = (d, w)" by (meson surj_pair)
    obtain d' w' where t: "?t = (d', w')" by (meson surj_pair)
    have "saved_at d p fp \<Longrightarrow> ?E p fp" "verified_at d p fp \<Longrightarrow> ?E p fp" for p fp
      using known [of p fp] by (simp_all add: s)
    note ev = restart_evidence [of d ?E now w d' w', OF this t [unfolded Restart s]]
    from snoc s have "\<exists>env. Call env (Give_members (Some ms)) \<in> set evs" if "ds_verify_members d = Some ms" for ms
      using that by simp
    with ev show ?thesis by (simp add: day_run_snoc t) (metis option.distinct(1))
  next
    case (Call env c)
    show ?thesis
    proof (cases "\<exists>ms. c = Give_members ms")
      case True
      then obtain given where c: "c = Give_members given" by blast
      have t: "?t = ((fst ?s)\<lparr>ds_verify_members := given\<rparr>, snd ?s)" by (simp add: Call c split_beta)
      have "verified_at (fst ?t) = verified_at (fst ?s)" "saved_at (fst ?t) = saved_at (fst ?s)" "ds_verify_members (fst ?t) = given"
        by (simp_all add: t verified_at_def saved_at_def fun_eq_iff)
      then show ?thesis using known by (auto simp: day_run_snoc Call c)
    next
      case False
      let ?P = "if verifying c then archived env (ds_verify_members (fst ?s)) (view_of ?s) else (\<lambda>_ _. False)"
      have step: "new_from ?P (fst ?s) (fst ?t)" using day_call_origin [of c env ?s] False by (simp add: Call)
      have "evidence (evs @ [ev]) s p fp" if "?P p fp" "p \<noteq> ds_tar (fst s)" for p fp
      proof -
        have v: "verifying c" "archived env (ds_verify_members (fst ?s)) (view_of ?s) p fp" using that(1) by (auto split: if_splits)
        then obtain ms where ms: "listed_by env (ds_verify_members (fst ?s)) ms" "in_archive ms p fp" by (auto simp: archived_def)
        have fp: "fp = path_fingerprint (snd ?s) p" using v(2) view_of(2) [of ?s p fp] that(2) assms by (simp add: archived_def run_tar fresh_day_def)
        have "rr_sealed env = Some ms \<or> (\<exists>f. fst (rr_open_tar env f) = Some ms) \<or> (\<exists>env1. Call env1 (Give_members (Some ms)) \<in> set evs)"
          using ms(1) snoc by (auto simp: listed_by_def)
        with v(1) ms(2) fp show ?thesis unfolding evidence_def Call by blast
      qed
      then have "?E p fp" if "verified_at (fst ?t) p fp \<or> saved_at (fst ?t) p fp" for p fp
        using that known step unfolding new_from_def by blast
      moreover have "ds_verify_members (fst ?t) = ds_verify_members (fst ?s)" using step by (simp add: new_from_def)
      ultimately show ?thesis using snoc by (auto simp: day_run_snoc)
    qed
  qed
qed

lemma lookup_cong: "ident p = ident' p \<Longrightarrow> sealed_members_lookup digest ident b p st = sealed_members_lookup digest ident' b p st"
  by (simp add: sealed_members_lookup_def)

text \<open>C3: A raw file that a delete pass removes was proven twice: a verify pass of the run before found it on disk with the very modification time and size it
  has now, and its name with this size in a list of the members of the day's archive; and the sealed archive on disk has a member of its name in its size.
  Whatever else happened to the files, the archives and the maps between the calls, however maps were lost, rebuilt or overtaken by a reseal, and over
  restarts.
\<close>

theorem removed_raw_is_sealed:
  assumes "fresh_day (fst s)" "day_run evs s = (d, w)"
    and "zw_reachable (rr_digest env) z" "zw_maps z = rw_maps w" "\<forall>q \<in> {zst_of d, gz_of d}. zw_ident z q = rw_files w q"
    and "apply_batch_delete env (d, w) = (r, d', w')" "rw_files w p = Some i" "rw_files w' p = None" "p \<notin> {ds_tar d, zst_of d}"
  shows "evidence evs s p (Some (id_mtime_ns i, id_size i)) \<and> free_to_delete env p \<and>
    (\<exists>q \<in> {zst_of d, gz_of d}. \<exists>j ms. zw_files z q = Some (j, ms) \<and> map_of ms (get_tar_member_name p) = Some (id_size i))"
proof -
  from apply_batch_delete_removes [OF assms(6-9)] obtain q ms where q: "find (isfile w) [zst_of d, gz_of d] = Some q"
    "fst (sealed_members_lookup (rr_digest env) (rw_files w) True q (rw_maps w)) = Inr (Some ms)" "removable env (Some ms) d p i" by blast
  have q_in: "q \<in> {zst_of d, gz_of d}" using q(1) by (simp add: find_Some_iff split: if_splits)
  then have "fst (sealed_members_lookup (rr_digest env) (zw_ident z) True q (zw_maps z)) = Inr (Some ms)"
    using q(2) lookup_cong [of "zw_ident z" q "rw_files w"] assms(4,5) by metis
  from lookup_current [OF assms(3) this] q(3) q_in
  have "\<exists>q \<in> {zst_of d, gz_of d}. \<exists>j ms. zw_files z q = Some (j, ms) \<and> map_of ms (get_tar_member_name p) = Some (id_size i)"
    by (auto simp: removable_def)
  moreover have "evidence evs s p (Some (id_mtime_ns i, id_size i))"
    using run_evidence [OF assms(1), of evs] run_tar [of s evs] q(3) assms(1,2,9) by (auto simp: removable_def fresh_day_def)
  ultimately show ?thesis using q(3) by (simp add: removable_def)
qed

definition demo_tar :: string where "demo_tar = ''/d/2026-01-01.tar''"

definition demo_rr :: rr_env where
  "demo_rr = \<lparr>rr_archive_dir = ''/raw'', rr_tgz = ''/d'', rr_days = \<lparr>de_local_date = (\<lambda>_. Some 739617), de_getmtime = (\<lambda>_. None)\<rparr>,
     rr_samefile = (\<lambda>_ _. None), rr_quarantine = {}, rr_active = None, rr_required = True, rr_ready_fn = Some (\<lambda>_. Inr True),
     rr_gate_env = demo_gate None demo_marked, rr_snapshot = None, rr_allow_scoped = True, rr_walk = Inr [],
     rr_restore = (\<lambda>f. (True, f demo_tar)), rr_open_tar = (\<lambda>f. (Some [(''raw/c1/1'', 3)], f demo_tar)), rr_sealed = None, rr_parity = True,
     rr_listed = True, rr_validate = (\<lambda>f. (True, f demo_zst)), rr_drop_ok = True, rr_completion = id, rr_unlink = (\<lambda>_. Unlinked),
     rr_save = (\<lambda>_. None), rr_digest = id, rr_max_deletes = 0, rr_batch = 2, rr_escalate_after = 50, rr_shutdown = (\<lambda>_. False),
     rr_log = False, rr_now = 0\<rparr>"

definition demo_raw :: string where "demo_raw = ''/raw/c1/1''"

definition demo_files :: files where
  "demo_files = (\<lambda>_. None)(demo_tar \<mapsto> \<lparr>id_ino = 1, id_size = 99, id_mtime_ns = 5\<rparr>, demo_zst \<mapsto> \<lparr>id_ino = 5, id_size = 95, id_mtime_ns = 8\<rparr>,
     demo_raw \<mapsto> \<lparr>id_ino = 2, id_size = 3, id_mtime_ns = 4\<rparr>)"

definition demo_day :: day_state where
  "demo_day = \<lparr>ds_tar = demo_tar, ds_manifest = new_manifest 0 demo_tar, ds_saved = None, ds_memo = None, ds_memo_active = False,
     ds_verify_members = None, ds_in_flight = False\<rparr>"

definition demo_rw :: rr_world where
  "demo_rw = \<lparr>rw_files = demo_files, rw_maps = zw_maps demo_sealed, rw_gate = gate_empty\<rparr>"


definition demo_verified :: "day_state \<times> rr_world" where
  "demo_verified = day_run [Call demo_rr (Pre_seal None), Restart 1, Call demo_rr Post_seal, World demo_rw] (demo_day, demo_rw)"

theorem removed_raw_is_sealed_witness:
  "\<exists>q \<in> {demo_zst, ''/d/2026-01-01.tar.gz''}. \<exists>j ms. zw_files demo_sealed q = Some (j, ms) \<and> map_of ms ''raw/c1/1'' = Some 3"
proof -
  let ?i = "\<lparr>id_ino = 2, id_size = 3, id_mtime_ns = 4\<rparr>"
  obtain d w where dw: "demo_verified = (d, w)" by fastforce
  obtain r d' w' where del: "apply_batch_delete demo_rr (d, w) = (r, d', w')" by (metis prod_cases3)
  have start: "fresh_day (fst (demo_day, demo_rw))" by code_simp
  have "case demo_verified of (d, w) \<Rightarrow> ds_tar d = demo_tar \<and> zst_of d = demo_zst \<and> gz_of d = ''/d/2026-01-01.tar.gz'' \<and>
      rw_files w demo_raw = Some ?i \<and> rw_files w demo_zst = zw_ident demo_sealed demo_zst \<and>
      rw_files w ''/d/2026-01-01.tar.gz'' = zw_ident demo_sealed ''/d/2026-01-01.tar.gz'' \<and>
      demo_raw \<notin> {demo_tar, demo_zst} \<and> get_tar_member_name demo_raw = ''raw/c1/1'' \<and>
      rw_files (snd (snd (apply_batch_delete demo_rr (d, w)))) demo_raw = None"
    by code_simp
  note at = this [unfolded dw del prod.case snd_conv]
  have maps: "zw_maps demo_sealed = rw_maps (snd demo_verified)"
    by (simp add: demo_verified_def day_run_def demo_rw_def)
  have "zw_reachable (rr_digest demo_rr) demo_sealed" using demo_sealed_reachable by (simp add: demo_rr_def)
  from removed_raw_is_sealed [OF start dw [unfolded demo_verified_def] \<open>zw_reachable _ _\<close>, where p = demo_raw and i = ?i and r = r and d' = d' and w' = w']
    at del maps [unfolded dw snd_conv] show ?thesis by simp
qed

end
