(* ===== verification/Day_Verify.thy ===== *)
theory Day_Verify
  imports Day_Removal_Props
begin

text \<open>
  Properties of the verify passes and of the end of a day: verifying in batches is verifying at once, what the gate decides, what is
  left when a day is done, and when the tar is dropped.
\<close>

section \<open>The gate of the pool\<close>

lemma gate_one_yields_answers: "\<exists>b. gate p = Inr b \<Longrightarrow> gate_one_yields gate p \<noteq> None"
  by (auto simp: gate_one_yields_def split: bool.split)

abbreviation all_ready :: "rr_env \<Rightarrow> rr_env" where
  "all_ready env \<equiv> env\<lparr>rr_ready_fn := Some (\<lambda>_. Inr True)\<rparr>"

definition no_identities :: "rr_env \<Rightarrow> bool" where
  "no_identities env = (case rr_snapshot env of Some (Inr (Some sn)) \<Rightarrow> sn_gate_identities sn = [] | _ \<Rightarrow> True)"

lemma gate_batch_ignores:
  assumes "rr_required env" "rr_ready_fn env = Some gate" "\<forall>p. \<exists>b. gate p = Inr b" "no_identities env"
  shows "gate_batch env zst batch = gate_batch (all_ready env) zst batch"
proof -
  have "gate_by_pool env zst batch g = gate_by_pool env zst batch (\<lambda>_. Inr True)" if "\<forall>p. \<exists>b. g p = Inr b" for g
  proof -
    have "gate_one_yields g p \<noteq> None" "gate_one_yields (\<lambda>_. Inr True) p \<noteq> None" for p
      using that by (simp_all only: gate_one_yields_answers) (simp_all add: gate_one_yields_def)
    then show ?thesis by (simp add: gate_by_pool_def Let_def)
  qed
  moreover have "gate_by_pool (all_ready env) zst batch g = gate_by_pool env zst batch g" for g
    by (simp add: gate_by_pool_def)
  ultimately have pool: "gate_by_pool env zst batch gate = gate_by_pool (all_ready env) zst batch (\<lambda>_. Inr True)" using assms(3) by simp
  show ?thesis
  proof (cases "rr_snapshot env")
    case (Some r)
    then show ?thesis
      using assms pool by (cases r) (auto simp: gate_batch_def gate_fn_def no_identities_def py_bind_def fun_eq_iff split: option.splits)
  qed (use assms pool in \<open>simp add: gate_batch_def gate_fn_def py_bind_def fun_eq_iff\<close>)
qed

lemma env_ready_fields:
  "rr_quarantine (all_ready env) = rr_quarantine env" "rr_shutdown (all_ready env) = rr_shutdown env"
  "rr_walk (all_ready env) = rr_walk env" "rr_days (all_ready env) = rr_days env" "rr_tgz (all_ready env) = rr_tgz env"
  "rr_archive_dir (all_ready env) = rr_archive_dir env" "rr_allow_scoped (all_ready env) = rr_allow_scoped env"
  by simp_all

lemma env_ready_simps [simp]:
  "save_manifest (all_ready env) = save_manifest env" "start_verifying (all_ready env) = start_verifying env"
  "ensure_daily_tar_restored (all_ready env) = ensure_daily_tar_restored env" "validate_open_tar (all_ready env) = validate_open_tar env"
  "record_skipped (all_ready env) = record_skipped env" "to_classify (all_ready env) = to_classify env"
  "finish_pre_seal (all_ready env) = finish_pre_seal env" "active_segment (all_ready env) = active_segment env"
  "blocking_manifest_paths_on_disk (all_ready env) = blocking_manifest_paths_on_disk env"
  "pre_seal_seed_remaining_by_gz (all_ready env) = pre_seal_seed_remaining_by_gz env"
proof -
  show act: "active_segment (all_ready env) = active_segment env" by (simp add: active_segment_def fun_eq_iff)
  show save: "save_manifest (all_ready env) = save_manifest env" by (simp add: save_manifest_def)
  show "start_verifying (all_ready env) = start_verifying env" by (simp add: start_verifying_def cong: if_cong)
  show "ensure_daily_tar_restored (all_ready env) = ensure_daily_tar_restored env" by (simp add: ensure_daily_tar_restored_def)
  show "validate_open_tar (all_ready env) = validate_open_tar env" by (simp add: validate_open_tar_def)
  show "record_skipped (all_ready env) = record_skipped env" unfolding record_skipped_def act env_ready_fields ..
  show "to_classify (all_ready env) = to_classify env" unfolding to_classify_def act env_ready_fields ..
  show "finish_pre_seal (all_ready env) = finish_pre_seal env" by (simp add: finish_pre_seal_def save)
  show "blocking_manifest_paths_on_disk (all_ready env) = blocking_manifest_paths_on_disk env"
    by (simp add: blocking_manifest_paths_on_disk_def entry_blocking_def fun_eq_iff)
  show "pre_seal_seed_remaining_by_gz (all_ready env) = pre_seal_seed_remaining_by_gz env"
    unfolding pre_seal_seed_remaining_by_gz_def build_day_scoped_closed_raw_by_gz_def act env_ready_fields ..
qed

lemma filtered_all_ready: "filtered_paths (all_ready env) = filtered_paths env"
proof -
  have "pre_seal_raw_paths_for_classify (all_ready env) = pre_seal_raw_paths_for_classify env"
    by (simp add: pre_seal_raw_paths_for_classify_def fun_eq_iff Let_def cong: if_cong)
  then show ?thesis by (simp only: filtered_paths_def [abs_def] env_ready_simps cong: option.case_cong list.case_cong)
qed

lemma classify_loop_ignores:
  assumes "rr_required env" "rr_ready_fn env = Some gate" "\<forall>p. \<exists>b. gate p = Inr b" "no_identities env"
  shows "classify_loop env ms zst filtered left cursor s = classify_loop (all_ready env) ms zst filtered left cursor s"
proof (induction "length filtered - cursor" arbitrary: left cursor s rule: less_induct)
  case (less cursor left s)
  have batch: "classify_batch env ms zst b n = classify_batch (all_ready env) ms zst b n" for b n
    by (simp add: classify_batch_def gate_batch_ignores [OF assms])
  have env: "loop_goes (all_ready env) filtered left cursor = loop_goes env filtered left cursor"
    "next_cursor (all_ready env) filtered cursor = next_cursor env filtered cursor" "batch_at (all_ready env) filtered cursor = batch_at env filtered cursor"
    by (simp_all add: loop_goes_def next_cursor_def batch_at_def paths_per_tick_def)
  show ?case
    using less [OF next_cursor_less [of cursor filtered env]]
    by (subst (1 2) classify_loop_unfold) (auto simp: env batch py_bind_def loop_goes_def split: prod.split sum.split)
qed

text \<open>C37: The pre-seal pass without gate identities from a snapshot does not use the answer of the ingest gate: as long as the gate does not
  raise, the pass does what it would do were every file ingested. The pool yields the tuple that a task returns, and the
  test is on the tuple.
\<close>

theorem pre_seal_ignores_gate:
  assumes "rr_required env" "rr_ready_fn env = Some gate" "\<forall>p. \<exists>b. gate p = Inr b" "no_identities env"
  shows "pre_seal_verify_body env k s = pre_seal_verify_body (all_ready env) k s"
proof -
  have "classify_loop (all_ready env) = classify_loop env" by (intro ext) (simp add: classify_loop_ignores [OF assms])
  then show ?thesis by (simp only: pre_seal_verify_body_def env_ready_simps env_ready_fields filtered_all_ready cong: if_cong option.case_cong)
qed


theorem pre_seal_ignores_gate_witness:
  "map_option re_status (map_of (entries (fst (snd (pre_seal_verify_body (demo_rr\<lparr>rr_ready_fn := Some (\<lambda>_. Inr False)\<rparr>) None (demo_day, demo_rw))))) demo_raw)
    = Some ''verified''"
proof -
  let ?env = "demo_rr\<lparr>rr_ready_fn := Some (\<lambda>_. Inr False)\<rparr>"
  have "rr_required ?env" "rr_ready_fn ?env = Some (\<lambda>_. Inr False)" "\<forall>p :: string. \<exists>b. (\<lambda>_. Inr False :: py_error + bool) p = Inr b" "no_identities ?env"
    by (simp add: demo_rr_def, simp, blast, simp add: demo_rr_def no_identities_def)
  from pre_seal_ignores_gate [OF this, of None "(demo_day, demo_rw)"]
  have "pre_seal_verify_body ?env None (demo_day, demo_rw) = pre_seal_verify_body (all_ready demo_rr) None (demo_day, demo_rw)" by simp
  moreover have "map_option re_status (map_of (entries (fst (snd (pre_seal_verify_body (all_ready demo_rr) None (demo_day, demo_rw))))) demo_raw) = Some ''verified''"
    by code_simp
  ultimately show ?thesis by (simp only:)
qed

section \<open>The end of a delete pass\<close>

text \<open>While a day is in its delete phase the questions about it are answered from the manifest.\<close>

definition deleting :: "day_state \<Rightarrow> bool" where
  "deleting d = (dm_phase (ds_manifest d) = PHASE_DELETING)"

lemma deleting_phase: "deleting d \<Longrightarrow> verification_complete d \<and> \<not> delete_phase_done d"
  by (auto simp: deleting_def verification_complete_def delete_phase_done_def phase_def phase_defs)

lemma done_manifest: "ds_manifest d1 = ds_manifest d2 \<Longrightarrow> delete_phase_done d1 = delete_phase_done d2"
  by (simp add: delete_phase_done_def phase_def)

definition blocked :: "rr_env \<Rightarrow> day_state \<Rightarrow> rr_world \<Rightarrow> bool" where
  "blocked env d w = list_ex (\<lambda>(path, e). entry_blocks_done env w path e) (manifest_entries_on_disk d w)"

definition settled :: "rr_env \<Rightarrow> day_state \<Rightarrow> rr_world \<Rightarrow> bool" where
  "settled env d w = (\<forall>p e. (p, e) \<in> set (entries d) \<longrightarrow> isfile w p \<longrightarrow>
     entry_is_quarantine_terminal_skip e \<or> re_status e = ''skipped_active_segment'' \<and> active_segment env w p)"

lemma not_blocked_settled: "\<not> blocked env d w \<Longrightarrow> settled env d w"
  by (auto simp: blocked_def settled_def manifest_entries_on_disk_def list_ex_iff entry_blocks_done_def split: if_splits)

lemma quarantine_settled: "only_quarantine_terminal_on_disk d w \<Longrightarrow> settled env d w"
  by (auto simp: only_quarantine_terminal_on_disk_def settled_def manifest_entries_on_disk_def list_all_iff)

lemma deleting_reads:
  assumes "deleting d"
  shows "closed_raw_paths_on_disk env (d, w) =
      (Inr (add_unseen (manifest_retryable_paths_on_disk d w) (add_unseen (blocking_manifest_paths_on_disk env d w) [])), d, w)"
    "all_closed_raw_terminal_or_gone env (d, w) = (Inr (\<not> blocked env d w), d, w)"
    "only_waiting_on_ingest_blocks_completion env (d, w) = (Inr (manifest_only_waiting_on_ingest d w), d, w)"
    "unmanifested_closed_raw_paths env (d, w) = (Inr [], d, w)"
    "handoff_paths_for_ingest env (d, w) = (Inr (manifest_retryable_paths_on_disk d w), d, w)"
  using deleting_phase [OF assms]
  by (simp_all add: closed_raw_paths_on_disk_def all_closed_raw_terminal_or_gone_def blocked_def only_waiting_on_ingest_blocks_completion_def
      unmanifested_closed_raw_paths_def handoff_paths_for_ingest_def)

text \<open>A day that only waits on ingest is never marked done by it: a file that waits blocks the mark.\<close>

lemma set_add_unseen: "set (add_unseen ps out) = set ps \<union> set out"
  unfolding add_unseen_def by (induction ps arbitrary: out) auto

lemma mark_done_no_effect:
  assumes "deleting d" "dict_wf (entries d)" "p \<in> set (manifest_retryable_paths_on_disk d w)" "map_of (entries d) p = Some e" "entry_blocks_done env w p e"
  shows "mark_done_waiting_on_ingest env (d, w) = (Inr (), d, w)"
proof -
  have "p \<in> set (add_unseen (manifest_retryable_paths_on_disk d w) (add_unseen (blocking_manifest_paths_on_disk env d w) []))"
    using assms(3) by (simp add: set_add_unseen)
  moreover have "isfile w p" using assms(3) by (auto simp: manifest_retryable_paths_on_disk_def manifest_entries_on_disk_def)
  ultimately have "list_ex (\<lambda>p. isfile w p \<and> (case map_of (entries d) p of None \<Rightarrow> False | Some e \<Rightarrow> entry_blocks_done env w p e))
      (add_unseen (manifest_retryable_paths_on_disk d w) (add_unseen (blocking_manifest_paths_on_disk env d w) []))"
    using assms(4,5) by (auto simp: list_ex_iff)
  moreover have "manifest_retryable_paths_on_disk d w \<noteq> []" using assms(3) by auto
  ultimately show ?thesis
    by (simp add: mark_done_waiting_on_ingest_def py_bind_def deleting_reads [OF assms(1)])
qed

lemma mark_done_settled:
  assumes "deleting d" "dict_wf (entries d)" "manifest_only_waiting_on_ingest d w" "mark_done_waiting_on_ingest env (d, w) = (r, d', w')" "delete_phase_done d'"
  shows "settled env d w"
proof (rule ccontr)
  assume "\<not> settled env d w"
  then obtain p e where pe: "(p, e) \<in> set (entries d)" "isfile w p" "\<not> entry_is_quarantine_terminal_skip e" "re_status e \<noteq> ''skipped_active_segment'' \<or> \<not> active_segment env w p"
    by (auto simp: settled_def)
  then have "(p, e) \<in> set (manifest_entries_on_disk d w)" by (simp add: manifest_entries_on_disk_def)
  with assms(3) pe(3) have "p \<in> set (manifest_retryable_paths_on_disk d w)"
    by (force simp: manifest_only_waiting_on_ingest_def only_waiting_def list_all_iff manifest_retryable_paths_on_disk_def)
  moreover have "map_of (entries d) p = Some e" using pe(1) assms(2) by simp
  moreover have "entry_blocks_done env w p e" using pe(3,4) by (auto simp: entry_blocks_done_def)
  ultimately have "d' = d" using mark_done_no_effect [OF assms(1,2)] assms(4) by auto
  with assms(5) deleting_phase [OF assms(1)] show False by simp
qed


definition same_entries :: "day_state \<times> rr_world \<Rightarrow> day_state \<times> rr_world \<Rightarrow> bool" where
  "same_entries s t = (entries (fst t) = entries (fst s))"

interpretation same_entries: day_order same_entries
  by unfold_locales (simp_all add: same_entries_def)

lemma entries_complete: "leads same_entries (complete_batch_delete env n) s"
proof -
  have tar: "leads same_entries (remove_verified_uncompressed_daily_tars env r) s" for r s
    by (cases s) (auto simp: leads_def remove_verified_uncompressed_daily_tars_def Let_def same_entries_def split: prod.split)
  show ?thesis
    unfolding complete_batch_delete_def set_phase_def
    by (intro same_entries.quiet_rules same_entries.leads_completion_context same_entries.leads_mark_done same_entries.leads_remaining_blocking tar) simp_all
qed

lemma save_phase: "save_manifest env (d, w) = (r, d', w') \<Longrightarrow> ds_manifest d' = ds_manifest d"
  by (auto simp: save_manifest_def split: option.splits)

lemma set_phase_result: "set_phase env f n (d, w) = (r, d', w') \<Longrightarrow> ds_manifest d' = f (ds_manifest d)"
  by (auto simp: set_phase_def mod_manifest_def py_then_def py_bind_def split: prod.splits sum.splits dest!: save_phase)

lemma context_blocked:
  assumes "deleting d" "\<not> settled env d w" "manifest_verified_pending_count d = 0"
  shows "\<exists>has. batch_delete_completion_context env (d, w) = (Inr \<lparr>bc_raw_delete_complete = True, bc_all_terminal = False,
    bc_only_waiting = manifest_only_waiting_on_ingest d w, bc_has_closed_raw = has, bc_unmanifested = []\<rparr>, d, w)"
proof -
  have "blocked env d w" "\<not> only_quarantine_terminal_on_disk d w"
    using assms(2) not_blocked_settled quarantine_settled by blast+
  then show ?thesis
    using assms(3) deleting_phase [OF assms(1)]
    by (auto simp: batch_delete_completion_context_def py_bind_def deleting_reads [OF assms(1)] has_closed_raw_existing_on_disk_def)
qed

lemma complete_settled:
  assumes "deleting d" "dict_wf (entries d)" "complete_batch_delete env n (d, w) = (r, d', w')" "delete_phase_done d'"
  shows "settled env d w"
proof (rule ccontr)
  assume ns: "\<not> settled env d w"
  have same: "\<not> delete_phase_done d1" if "ds_manifest d1 = ds_manifest d" for d1
    using deleting_phase [OF assms(1)] done_manifest [OF that] by simp
  show False
  proof (cases "manifest_verified_pending_count d = 0")
    case False
    then have "\<exists>x. save_manifest env (d, w) = (x, d', w')"
      using assms(3) by (auto simp: complete_batch_delete_def batch_delete_completion_context_def py_bind_def py_then_def split: prod.splits sum.splits)
    then show False using same assms(4) save_phase by blast
  next
    case True
    then obtain has where c: "batch_delete_completion_context env (d, w) = (Inr \<lparr>bc_raw_delete_complete = True, bc_all_terminal = False,
        bc_only_waiting = manifest_only_waiting_on_ingest d w, bc_has_closed_raw = has, bc_unmanifested = []\<rparr>, d, w)"
      using context_blocked [OF assms(1) ns] by blast
    show False
    proof (cases "manifest_only_waiting_on_ingest d w \<and> has")
      case True
      then have "\<exists>x. mark_done_waiting_on_ingest env (d, w) = (x, d', w')"
        using assms(3) by (auto simp: complete_batch_delete_def c py_bind_def py_then_def split: prod.splits sum.splits)
      with mark_done_settled [OF assms(1,2)] True assms(4) ns show False by blast
    next
      case False
      then have "set_phase env (\<lambda>m. m\<lparr>dm_phase := PHASE_VERIFICATION_COMPLETE\<rparr>) n (d, w) = (r, d', w')"
        using assms(3) by (auto simp: complete_batch_delete_def c py_bind_def)
      from set_phase_result [OF this] assms(4) show False by (simp add: delete_phase_done_def phase_def phase_defs)
    qed
  qed
qed


lemma delete_entry_keeps:
  "delete_entry env sealed p (d, w) = (k, d', w') \<Longrightarrow> deleting d' = deleting d \<and> ds_tar d' = ds_tar d \<and> (dict_wf (entries d) \<longrightarrow> dict_wf (entries d'))"
  by (auto simp: delete_entry_def upd_entry_def deleting_def Let_def distinct_update split: option.splits if_splits verdict.splits unlink.splits)

lemma delete_loop_keeps:
  "delete_loop env sealed ps n (d, w) = (k, d', w') \<Longrightarrow> deleting d' = deleting d \<and> ds_tar d' = ds_tar d \<and> (dict_wf (entries d) \<longrightarrow> dict_wf (entries d'))"
proof (induction ps arbitrary: n d w)
  case (Cons p ps)
  obtain j d1 w1 where "delete_entry env sealed p (d, w) = (j, d1, w1)" by (metis prod_cases3)
  with Cons delete_entry_keeps [of env sealed p d w j d1 w1] show ?case by (auto split: if_splits)
qed simp

lemma delete_pass_settled:
  assumes "delete_pass env (d, w) = (r, d', w')" "dict_wf (entries d)" "\<not> delete_phase_done d" "delete_phase_done d'"
    and "(p, e) \<in> set (entries d')" "isfile w' p" "p \<notin> {ds_tar d, zst_of d}" "py_path_join (py_dirname p) ''current'' \<notin> {ds_tar d, zst_of d}"
  shows "entry_is_quarantine_terminal_skip e \<or> re_status e = ''skipped_active_segment'' \<and> active_segment env w' p"
proof -
  let ?d = "d\<lparr>ds_manifest := (ds_manifest d)\<lparr>dm_phase := PHASE_DELETING\<rparr>\<rparr>"
  obtain l s1 where l: "lookup_sealed env (?d, w) = (l, s1)" by (meson surj_pair)
  then obtain w1 where w1: "s1 = (?d, w1)"
    by (auto simp: lookup_sealed_def simp del: find.simps split: option.splits prod.splits)
  have del: "deleting ?d" by (simp add: deleting_def)
  note pass = assms(1) [unfolded delete_pass_def py_then_def mod_manifest_def, simplified]
  obtain sealed where sealed: "l = Inr sealed"
    using pass l w1 assms(3,4) deleting_phase [OF del] by (cases l) (auto simp: py_bind_def split: if_splits)
  obtain n d2 w2 where loop: "delete_loop env sealed (sort (map fst (entries d))) 0 (?d, w1) = (n, d2, w2)" by (metis prod_cases3)
  have complete: "complete_batch_delete env n (d2, w2) = (r, d', w')"
    using pass l w1 sealed loop assms(3,4) by (auto simp: py_bind_def split: if_splits)
  from delete_loop_keeps [OF loop] del assms(2) have d2: "deleting d2" "dict_wf (entries d2)" "ds_tar d2 = ds_tar d" by simp_all
  have "settled env d2 w2" by (rule complete_settled [OF d2(1,2) complete assms(4)])
  moreover have "entries d' = entries d2" using leadsD [OF entries_complete complete] by (simp add: same_entries_def)
  moreover have same: "isfile w2 q = isfile w' q" if "q \<notin> {ds_tar d, zst_of d}" for q
    using leadsD [OF files_complete complete, of d] that d2(3) by (simp add: only_files_def isfile_def)
  moreover have "active_segment env w2 p = active_segment env w' p"
    using same [OF assms(8)] by (simp add: active_segment_def stats_file_is_active_segment_def)
  ultimately show ?thesis using assms(5-7) same [OF assms(7)] unfolding settled_def by metis
qed


lemma ghost_retry_run:
  assumes "prepare_ghost_delete_retry env (d, w) = (x, d1, w1)"
  shows "w1 = w \<and> ds_tar d1 = ds_tar d \<and> map fst (entries d1) = map fst (entries d) \<and> (deleting d1 \<or> d1 = d)"
  using assms
  by (auto simp: prepare_ghost_delete_retry_def Let_def mod_manifest_def save_manifest_def py_then_def py_bind_def deleting_def
      split: if_splits option.splits)

lemma apply_batch_delete_pass:
  assumes "apply_batch_delete env (d, w) = (r, d', w')"
  shows "(\<exists>d1 d2. delete_pass env (d1, w) = (r, d2, w') \<and> ds_manifest d' = ds_manifest d2 \<and> ds_tar d1 = ds_tar d \<and>
      map fst (entries d1) = map fst (entries d) \<and> (deleting d1 \<or> ds_manifest d1 = ds_manifest d)) \<or> deleting d' \<or> ds_manifest d' = ds_manifest d"
proof -
  define d0 where "d0 = (if ds_memo_active d then d else begin_closed_raw_pass_memo d)"
  have d0: "ds_tar d0 = ds_tar d" "ds_manifest d0 = ds_manifest d" by (simp_all add: d0_def begin_closed_raw_pass_memo_def)
  obtain d2 where body: "apply_batch_delete_body env (d0, w) = (r, d2, w')" "ds_manifest d' = ds_manifest d2"
    using assms
    by (cases "ds_memo_active d"; cases "apply_batch_delete_body env (d0, w)")
      (auto simp: apply_batch_delete_def d0_def py_finally_def split_beta clear_closed_raw_pass_memo_def)
  show ?thesis
  proof (cases "needs_ghost_delete_retry d0 w")
    case False
    with body have "delete_pass env (d0, w) = (r, d2, w')" by (simp add: apply_batch_delete_body_def)
    with body(2) d0 show ?thesis by (intro disjI1 exI [of _ d0] exI [of _ d2]) simp
  next
    case True
    obtain x d1 w1 where prep: "prepare_ghost_delete_retry env (d0, w) = (x, d1, w1)" by (metis prod_cases3)
    note run = ghost_retry_run [OF prep]
    show ?thesis
    proof (cases x)
      case (Inl e)
      with True body prep have "d2 = d1" by (simp add: apply_batch_delete_body_def py_then_def py_bind_def)
      with run body(2) d0(2) show ?thesis by (auto simp: deleting_def)
    next
      case (Inr u)
      with True body prep have "delete_pass env (d1, w1) = (r, d2, w')" by (simp add: apply_batch_delete_body_def py_then_def py_bind_def)
      with run body(2) d0 show ?thesis by auto
    qed
  qed
qed

text \<open>C22: A delete pass that ends with the day done leaves nothing behind that it should have handled: every listed file that is still on disk is
  in quarantine, which is final, or was skipped because its host was writing it and is still the file its host is writing. (Neither the file nor the name
  \<open>current\<close> beside it is the tar or the sealed archive of the day.)
\<close>

theorem done_leaves_no_blocking:
  assumes "apply_batch_delete env (d, w) = (r, d', w')" "dict_wf (entries d)" "\<not> delete_phase_done d" "delete_phase_done d'"
    and "(p, e) \<in> set (entries d')" "isfile w' p" "p \<notin> {ds_tar d, zst_of d}" "py_path_join (py_dirname p) ''current'' \<notin> {ds_tar d, zst_of d}"
  shows "entry_is_quarantine_terminal_skip e \<or> re_status e = ''skipped_active_segment'' \<and> active_segment env w' p"
proof -
  have "\<not> deleting d'" using deleting_phase assms(4) by blast
  moreover have "ds_manifest d' \<noteq> ds_manifest d" using assms(3,4) done_manifest by blast
  ultimately obtain d1 d2 where pass: "delete_pass env (d1, w) = (r, d2, w')" "ds_manifest d' = ds_manifest d2" "ds_tar d1 = ds_tar d"
    "map fst (entries d1) = map fst (entries d)" "deleting d1 \<or> ds_manifest d1 = ds_manifest d"
    using apply_batch_delete_pass [OF assms(1)] by blast
  have "\<not> delete_phase_done d1" using pass(5) assms(3) deleting_phase done_manifest by blast
  moreover have "delete_phase_done d2" using assms(4) done_manifest [OF pass(2)] by simp
  moreover have "dict_wf (entries d1)" using pass(4) assms(2) by simp
  ultimately show ?thesis
    using delete_pass_settled [OF pass(1), of p e] pass(2,3) assms(5-8) by (simp add: zst_of_def)
qed


text \<open>Two files of a day, the second in quarantine.\<close>

definition demo_raw2 :: string where "demo_raw2 = ''/raw/c1/2''"

definition demo_quarantine :: rr_env where
  "demo_quarantine = demo_rr\<lparr>rr_quarantine := {demo_raw2}, rr_open_tar := (\<lambda>f. (Some [(''raw/c1/1'', 3), (''raw/c1/2'', 6)], f demo_tar))\<rparr>"

definition demo_two :: "day_state \<times> rr_world" where
  "demo_two = day_run [Call demo_quarantine (Pre_seal None), Call demo_quarantine Post_seal]
     (demo_day, \<lparr>rw_files = demo_files(demo_raw2 \<mapsto> \<lparr>id_ino = 3, id_size = 6, id_mtime_ns = 4\<rparr>),
       rw_maps = (sm_empty (\<lambda>_. None))\<lparr>sm_cache := [(sealed_member_map_path demo_zst, \<lparr>id_ino = 5, id_size = 95, id_mtime_ns = 8\<rparr>, [(''raw/c1/1'', 3)])]\<rparr>,
       rw_gate = gate_empty\<rparr>)"

theorem done_leaves_no_blocking_witness:
  "delete_phase_done (fst (snd (apply_batch_delete demo_quarantine demo_two))) \<and>
    (entry_is_quarantine_terminal_skip (the (map_of (entries (fst (snd (apply_batch_delete demo_quarantine demo_two)))) demo_raw2)) \<or>
     re_status (the (map_of (entries (fst (snd (apply_batch_delete demo_quarantine demo_two)))) demo_raw2)) = ''skipped_active_segment'' \<and>
     active_segment demo_quarantine (snd (snd (apply_batch_delete demo_quarantine demo_two))) demo_raw2)"
proof -
  obtain d w where dw: "demo_two = (d, w)" by fastforce
  obtain r d' w' where del: "apply_batch_delete demo_quarantine (d, w) = (r, d', w')" by (metis prod_cases3)
  have "case demo_two of (d, w) \<Rightarrow> dict_wf (entries d) \<and> \<not> delete_phase_done d \<and> demo_raw2 \<notin> {ds_tar d, zst_of d} \<and>
      py_path_join (py_dirname demo_raw2) ''current'' \<notin> {ds_tar d, zst_of d} \<and>
      (case apply_batch_delete demo_quarantine (d, w) of (r, d', w') \<Rightarrow> delete_phase_done d' \<and> isfile w' demo_raw2 \<and> map_of (entries d') demo_raw2 \<noteq> None)"
    by code_simp
  then have at: "dict_wf (entries d)" "\<not> delete_phase_done d" "demo_raw2 \<notin> {ds_tar d, zst_of d}"
    "py_path_join (py_dirname demo_raw2) ''current'' \<notin> {ds_tar d, zst_of d}" "delete_phase_done d'" "isfile w' demo_raw2" "map_of (entries d') demo_raw2 \<noteq> None"
    by (simp_all add: dw del)
  from at(7) obtain e where e: "map_of (entries d') demo_raw2 = Some e" by auto
  from done_leaves_no_blocking [OF del at(1,2,5) map_of_SomeD [OF e] at(6,3,4)] at(5) e del dw show ?thesis by simp
qed

end
