(* ===== verification/Space_Pressure.thy ===== *)
theory Space_Pressure
  imports Persistence Stats_Find "HOL-Library.Word"
begin

text \<open>
  The free space of the archive file system (\<open>dbload/lib/sync_timedb_space_pressure.py\<close>). When it falls below a threshold,
  work that makes the archive grow waits for the closing of days: one day at a time gets appends, one sealed day at a time is
  expanded, and bytes that admitted work has still to write are reserved. The state is the dictionary \<open>_STATE\<close>; what happens
  under \<open>_LOCK\<close> is one function. Log lines are left out.
\<close>

unbundle bit_operations_syntax

section \<open>State and disk\<close>

definition DAY_CLOSE_START_GRACE_S :: rat where "DAY_CLOSE_START_GRACE_S = 600"
definition UNKNOWN_RATIO :: int where "UNKNOWN_RATIO = 10"

definition FINISHING_STAGES :: "string set" where
  "FINISHING_STAGES = {''reconcile_merge'', ''dedupe'', ''raw_delete_pre_seal'', ''seal'', ''post_seal_verify'', ''raw_delete'', ''tar_drop''}"

text \<open>A reservation: the bytes, the tar they go to, and what the tar had on disk at that time.\<close>

type_synonym reservation = "int \<times> string \<times> int"

record space_state =
  ss_pressure :: bool
  ss_stages :: "(string, string) dict"
  ss_append_day :: "string option"
  ss_hold_since :: "rat option"
  ss_finished_since_hold :: bool
  ss_reserved :: "(string, reservation) dict"
  ss_epoch :: nat
  ss_expanded :: "string set"

definition space_init :: space_state where
  "space_init = \<lparr>ss_pressure = False, ss_stages = [], ss_append_day = None, ss_hold_since = None, ss_finished_since_hold = False,
     ss_reserved = [], ss_epoch = 0, ss_expanded = {}\<rparr>"

text \<open>
  What a call meets: the file system (\<open>sv_usage\<close> is the free space that \<open>disk_usage\<close> reports, \<open>sv_size\<close> is \<open>getsize\<close> and
  \<open>sv_head\<close> the content of a file; \<open>None\<close> for an \<open>OSError\<close>), the settings and the monotonic clock.
\<close>

record space_env =
  sv_cwd :: string
  sv_exists :: "string \<Rightarrow> bool"
  sv_isfile :: "string \<Rightarrow> bool"
  sv_usage :: "string \<Rightarrow> int option"
  sv_size :: "string \<Rightarrow> int option"
  sv_head :: "string \<Rightarrow> 8 word list option"
  sv_threshold :: int
  sv_min_free :: int
  sv_daily_dir :: string
  sv_now :: rat

definition or_root :: "string \<Rightarrow> string" where
  "or_root path = (if path = [] then ''/'' else path)"

definition py_abspath :: "string \<Rightarrow> string \<Rightarrow> string" where
  "py_abspath cwd path = py_normpath (py_path_join cwd path)"

definition free_bytes :: "space_env \<Rightarrow> string \<Rightarrow> int option" where
  "free_bytes env path =
     (let target = py_abspath (sv_cwd env) (or_root path) in
      sv_usage env (if sv_exists env target then target else py_dirname target))"

definition size_of :: "space_env \<Rightarrow> string \<Rightarrow> int" where
  "size_of env path = (case sv_size env path of None \<Rightarrow> 0 | Some n \<Rightarrow> n)"

text \<open>\<open>f"{n / (1 << 40):.1f}T"\<close>: the quotient is exact, the text is rounded to tenths with ties to even.\<close>

definition tib :: "int \<Rightarrow> string" where
  "tib n =
     (let q = 10 * n div 2 ^ 40; r = 10 * n mod 2 ^ 40; t = (if 2 * r < 2 ^ 40 \<or> 2 * r = 2 ^ 40 \<and> even q then q else q + 1)
      in show_int (t div 10) @ ''.'' @ show_int (t mod 10) @ ''T'')"

section \<open>Pressure\<close>

definition under_pressure :: "space_env \<Rightarrow> string \<Rightarrow> space_state \<Rightarrow> bool \<times> space_state" where
  "under_pressure env path s =
     (let threshold = sv_threshold env;
          free = (if threshold > 0 then free_bytes env (if path \<noteq> [] then path else or_root (sv_daily_dir env)) else Some 0);
          s1 = (case free of
              None \<Rightarrow> s
            | Some f \<Rightarrow>
                if threshold > 0 \<and> f < threshold then s\<lparr>ss_pressure := True\<rparr>
                else if threshold \<le> 0 \<or> f \<ge> 2 * threshold then
                  s\<lparr>ss_pressure := False, ss_append_day := None, ss_hold_since := None, ss_epoch := ss_epoch s + 1\<rparr>
                else s)
      in (ss_pressure s1, s1))"

definition note_day_close_stage :: "string \<Rightarrow> string \<Rightarrow> space_state \<Rightarrow> space_state" where
  "note_day_close_stage job stage s = s\<lparr>ss_stages := AList.update job stage (ss_stages s)\<rparr>"

definition note_space_freed :: "space_state \<Rightarrow> space_state" where
  "note_space_freed s = s\<lparr>ss_finished_since_hold := True\<rparr>"

definition clear_day_close :: "string \<Rightarrow> space_state \<Rightarrow> space_state" where
  "clear_day_close job s = s\<lparr>ss_stages := AList.delete job (ss_stages s)\<rparr>"

definition finishing_locked :: "space_state \<Rightarrow> bool" where
  "finishing_locked s \<longleftrightarrow> list_ex (\<lambda>(job, stage). stage \<in> FINISHING_STAGES) (ss_stages s)"

section \<open>The day that gets appends\<close>

text \<open>The result: the sentinel \<open>ALL_DAYS\<close>, \<open>None\<close>, or a day, which is empty when none is chosen.\<close>

datatype pick = All_days | Wait | Day string

text \<open>
  \<open>select_append_day\<close> takes the lock three times, and asks whether a batch fits in between. \<open>sel_look\<close>, \<open>sel_hold\<close> and
  \<open>sel_write\<close> are the three locked pieces; \<open>sel_keep\<close> is the test after the first.
\<close>

definition sel_look :: "space_state \<Rightarrow> bool \<times> string option \<times> nat" where
  "sel_look s = (finishing_locked s, ss_append_day s, ss_epoch s)"

definition fits_fn :: "(string \<Rightarrow> bool) option \<Rightarrow> string \<Rightarrow> bool" where
  "fits_fn fits = (case fits of None \<Rightarrow> \<lambda>_. True | Some f \<Rightarrow> f)"

definition sel_keep :: "string list \<Rightarrow> string set \<Rightarrow> (string \<Rightarrow> bool) option \<Rightarrow> string option \<Rightarrow> string option" where
  "sel_keep parked busy fits current = (case current of
      None \<Rightarrow> None
    | Some c \<Rightarrow> if c \<in> busy \<or> c \<in> set parked \<and> fits_fn fits c then Some c else None)"

definition sel_hold :: "rat \<Rightarrow> string list \<Rightarrow> bool \<Rightarrow> string option \<Rightarrow> nat \<Rightarrow> space_state \<Rightarrow> pick option \<times> space_state" where
  "sel_hold now parked finishing current epoch s =
     (if ss_epoch s \<noteq> epoch then (Some All_days, s)
      else let s1 = (case current of
              Some c \<Rightarrow> if c \<notin> set parked then s\<lparr>ss_hold_since := Some now, ss_finished_since_hold := False\<rparr> else s
            | None \<Rightarrow> s);
          s2 = s1\<lparr>ss_append_day := None\<rparr>;
          held = (case ss_hold_since s2 of None \<Rightarrow> False | Some h \<Rightarrow> \<not> ss_finished_since_hold s2 \<and> now - h < DAY_CLOSE_START_GRACE_S)
        in if finishing \<or> held then (Some Wait, s2) else (None, s2\<lparr>ss_hold_since := None\<rparr>))"

definition sel_write :: "nat \<Rightarrow> string \<Rightarrow> space_state \<Rightarrow> pick \<times> space_state" where
  "sel_write epoch chosen s =
     (if ss_epoch s \<noteq> epoch then (All_days, s)
      else (Day chosen, s\<lparr>ss_append_day := (if chosen = [] then None else Some chosen)\<rparr>))"

definition sel_candidates :: "string list \<Rightarrow> bool \<Rightarrow> string option \<Rightarrow> string list" where
  "sel_candidates parked finishing current = (if finishing then [] else filter (\<lambda>d. Some d \<noteq> current) parked)"

definition sel_choose :: "(string \<Rightarrow> bool) option \<Rightarrow> string list \<Rightarrow> string" where
  "sel_choose fits candidates = (case find (fits_fn fits) candidates of None \<Rightarrow> [] | Some d \<Rightarrow> d)"

definition select_append_day :: "space_env \<Rightarrow> string list \<Rightarrow> string set \<Rightarrow> (string \<Rightarrow> bool) option \<Rightarrow> space_state \<Rightarrow> pick \<times> space_state" where
  "select_append_day env parked_days busy fits s = (case under_pressure env [] s of
      (False, s1) \<Rightarrow> (All_days, s1)
    | (True, s1) \<Rightarrow>
        let parked = sort parked_days in
        (case sel_look s1 of (finishing, current, epoch) \<Rightarrow>
          (case sel_keep parked busy fits current of
             Some c \<Rightarrow> (if finishing then Wait else Day c, s1)
           | None \<Rightarrow>
               (case sel_hold (sv_now env) parked finishing current epoch s1 of
                  (Some r, s2) \<Rightarrow> (r, s2)
                | (None, s2) \<Rightarrow> sel_write epoch (sel_choose fits (sel_candidates parked finishing current)) s2))))"

section \<open>Reservations\<close>

definition tar_bytes_on_disk :: "space_env \<Rightarrow> string \<Rightarrow> int" where
  "tar_bytes_on_disk env tar_path =
     (if tar_path = [] then 0 else size_of env tar_path + size_of env (tar_path @ ''.decomp.tmp''))"

definition reserve :: "space_env \<Rightarrow> string \<Rightarrow> int \<Rightarrow> string \<Rightarrow> space_state \<Rightarrow> space_state" where
  "reserve env key nbytes tar_path s =
     s\<lparr>ss_reserved := AList.update key (max 0 nbytes, tar_path, tar_bytes_on_disk env tar_path) (ss_reserved s)\<rparr>"

definition release :: "string \<Rightarrow> space_state \<Rightarrow> space_state" where
  "release key s = s\<lparr>ss_reserved := AList.delete key (ss_reserved s)\<rparr>"

definition unwritten :: "space_env \<Rightarrow> reservation \<Rightarrow> int" where
  "unwritten env = (\<lambda>(nbytes, tar, base). max 0 (nbytes - max 0 (tar_bytes_on_disk env tar - base)))"

definition reserved_bytes :: "space_env \<Rightarrow> space_state \<Rightarrow> int" where
  "reserved_bytes env s = sum_list (map (\<lambda>(k, r). unwritten env r) (ss_reserved s))"

definition fits_hard_reserve :: "space_env \<Rightarrow> string \<Rightarrow> int \<Rightarrow> int \<Rightarrow> space_state \<Rightarrow> bool" where
  "fits_hard_reserve env path need restore_need s =
     (if need \<le> 0 then True
      else (case free_bytes env path of
          None \<Rightarrow> False
        | Some free \<Rightarrow> free - reserved_bytes env s - need - restore_need div 2 \<ge> sv_min_free env))"

text \<open>A \<open>with reserving(...)\<close> block around a body that may raise.\<close>

definition reserving :: "space_env \<Rightarrow> string \<Rightarrow> int \<Rightarrow> string \<Rightarrow> (space_state \<Rightarrow> (py_error + 'a) \<times> space_state) \<Rightarrow>
    space_state \<Rightarrow> (py_error + 'a) \<times> space_state" where
  "reserving env key nbytes tar_path body s = (case body (reserve env key nbytes tar_path s) of (r, s1) \<Rightarrow> (r, release key s1))"

section \<open>The restore slot\<close>

definition note_expansion :: "string \<Rightarrow> space_state \<Rightarrow> space_state" where
  "note_expansion tar_path s = s\<lparr>ss_expanded := insert tar_path (ss_expanded s)\<rparr>"

definition restore_key :: "string \<Rightarrow> string" where
  "restore_key tar = ''restore:'' @ tar"

definition slot_live :: "(string \<Rightarrow> bool) \<Rightarrow> space_state \<Rightarrow> string \<Rightarrow> bool" where
  "slot_live isfile s t \<longleftrightarrow> isfile t \<or> t \<in> dict_keys (ss_reserved s) \<or> restore_key t \<in> dict_keys (ss_reserved s)"

definition slot_holders_locked :: "space_env \<Rightarrow> string \<Rightarrow> space_state \<Rightarrow> string list \<times> space_state" where
  "slot_holders_locked env exclude s =
     (let live = Set.filter (slot_live (sv_isfile env) s) (ss_expanded s)
      in (sorted_list_of_set (Set.filter (\<lambda>t. t \<noteq> exclude) live), s\<lparr>ss_expanded := live\<rparr>))"

definition try_claim_restore_slot :: "space_env \<Rightarrow> string \<Rightarrow> string \<Rightarrow> int \<Rightarrow> space_state \<Rightarrow> bool \<times> space_state" where
  "try_claim_restore_slot env tar key need s =
     (case under_pressure env tar s of (pressure, s1) \<Rightarrow>
       (case (if pressure then slot_holders_locked env tar s1 else ([], s1)) of (holders, s2) \<Rightarrow>
         if holders \<noteq> [] then (False, s2) else (True, reserve env key need tar (note_expansion tar s2))))"

definition restore_slot_free :: "space_env \<Rightarrow> string \<Rightarrow> space_state \<Rightarrow> bool \<times> space_state" where
  "restore_slot_free env tar_path s = (case under_pressure env tar_path s of
      (False, s1) \<Rightarrow> (True, s1)
    | (True, s1) \<Rightarrow> (case slot_holders_locked env tar_path s1 of (holders, s2) \<Rightarrow> (holders = [], s2)))"

section \<open>How much a restore writes\<close>

definition zst_magic :: "8 word list" where "zst_magic = [0x28, 0xb5, 0x2f, 0xfd]"

definition int_from_little :: "8 word list \<Rightarrow> nat" where
  "int_from_little bs = foldr (\<lambda>b n. unat b + 256 * n) bs 0"

definition zst_frame_content_size :: "8 word list option \<Rightarrow> nat option" where
  "zst_frame_content_size content = (case content of
      None \<Rightarrow> None
    | Some bytes \<Rightarrow>
        let head = take 18 bytes in
        if length head < 6 \<or> take 4 head \<noteq> zst_magic then None
        else let fhd = head ! 4;
                 single_segment = drop_bit 5 fhd AND 1;
                 fcs = [0, 2, 4, 8] ! unat (drop_bit 6 fhd);
                 fcs_len = (if fcs \<noteq> 0 then fcs else if single_segment \<noteq> 0 then 1 else 0);
                 pos = 5 + (if single_segment \<noteq> 0 then 0 else 1) + [0, 1, 2, 4] ! unat (fhd AND 3);
                 field = take fcs_len (drop pos head)
             in if fcs_len = 0 \<or> length field \<noteq> fcs_len then None
                else let value = int_from_little field in Some (if fcs_len = 2 then value + 256 else value))"

definition restore_bytes_estimate :: "space_env \<Rightarrow> string \<Rightarrow> int" where
  "restore_bytes_estimate env tar_path =
     (if size_of env tar_path > 0 then 0
      else (case find (sv_isfile env) [tar_path @ ''.zst'', tar_path @ ''.gz''] of
          None \<Rightarrow> 0
        | Some sealed \<Rightarrow>
            (case (if ends_with ''.zst'' sealed then zst_frame_content_size (sv_head env sealed) else None) of
               Some n \<Rightarrow> if n \<noteq> 0 then int n else size_of env sealed * UNKNOWN_RATIO
             | None \<Rightarrow> size_of env sealed * UNKNOWN_RATIO)))"

definition admit_restore :: "space_env \<Rightarrow> string \<Rightarrow> string \<Rightarrow> space_state \<Rightarrow> bool \<times> space_state" where
  "admit_restore env tar_path mode s =
     (if mode = ''off'' then (True, s)
      else let need = restore_bytes_estimate env tar_path in
        (case (if mode \<noteq> ''finish'' \<and> need > 0 then under_pressure env tar_path s else (False, s)) of
           (True, s1) \<Rightarrow> (False, s1)
         | (False, s1) \<Rightarrow>
             if \<not> fits_hard_reserve env tar_path need need s1 then (False, s1)
             else if need \<le> 0 then (True, s1)
             else try_claim_restore_slot env tar_path (restore_key tar_path) need s1))"

fun join_commas :: "string list \<Rightarrow> string" where
  "join_commas [] = []"
| "join_commas [x] = x"
| "join_commas (x # xs) = x @ '','' @ join_commas xs"

definition or_none :: "string \<Rightarrow> string" where
  "or_none x = (if x = [] then ''none'' else x)"

definition census_token :: "space_env \<Rightarrow> string \<Rightarrow> space_state \<Rightarrow> string \<times> space_state" where
  "census_token env daily_dir s =
     (if sv_threshold env \<le> 0 then ([], s)
      else (case under_pressure env daily_dir s of (pressure, s1) \<Rightarrow>
        let free = (case free_bytes env (or_root daily_dir) of None \<Rightarrow> ''unknown'' | Some n \<Rightarrow> tib n) in
        if \<not> pressure then ('' space=ok free='' @ free @ '' pressure_below='' @ tib (sv_threshold env), s1)
        else (case slot_holders_locked env [] s1 of (holders, s2) \<Rightarrow>
          ('' space=pressure free='' @ free @ '' resume_at='' @ tib (2 * sv_threshold env)
             @ '' append_day='' @ (case ss_append_day s1 of None \<Rightarrow> ''none'' | Some d \<Rightarrow> or_none d)
             @ '' restore_slot='' @ or_none (join_commas (map (\<lambda>t. take 10 (py_basename t)) holders)), s2))))"

section \<open>The size in the header of a zstd frame\<close>

text \<open>
  The header as the format describes it: magic number, descriptor byte (two bits for the length of the size field, the
  single-segment bit, three bits that do not matter here, two bits for the length of the dictionary id), window byte unless
  the frame is a single segment, dictionary id, and the content size in little-endian order, less 256 in a field of two bytes.
\<close>

definition size_field_len :: "nat \<Rightarrow> bool \<Rightarrow> nat" where
  "size_field_len f single = (if f = 0 then (if single then 1 else 0) else 2 ^ f)"

definition dict_id_len :: "nat \<Rightarrow> nat" where
  "dict_id_len d = (if d = 0 then 0 else 2 ^ (d - 1))"

fun little_endian :: "nat \<Rightarrow> nat \<Rightarrow> 8 word list" where
  "little_endian 0 n = []"
| "little_endian (Suc k) n = of_nat (n mod 256) # little_endian k (n div 256)"

definition frame_descriptor :: "nat \<Rightarrow> bool \<Rightarrow> nat \<Rightarrow> nat \<Rightarrow> 8 word" where
  "frame_descriptor f single mid d = of_nat (64 * f + 32 * of_bool single + 4 * mid + d)"

definition frame_header :: "nat \<Rightarrow> bool \<Rightarrow> nat \<Rightarrow> 8 word \<Rightarrow> 8 word list \<Rightarrow> nat \<Rightarrow> nat \<Rightarrow> 8 word list" where
  "frame_header f single mid window dict d sz =
     zst_magic @ [frame_descriptor f single mid d] @ (if single then [] else [window]) @ dict
       @ little_endian (size_field_len f single) (if f = 1 then sz - 256 else sz)"

lemma length_little_endian [simp]: "length (little_endian k n) = k"
  by (induction k arbitrary: n) simp_all

lemma from_little_endian: "n < 256 ^ k \<Longrightarrow> int_from_little (little_endian k n) = n"
proof (induction k arbitrary: n)
  case (Suc k)
  have "n div 256 < 256 ^ k" using Suc.prems by (simp add: less_mult_imp_div_less mult.commute)
  from Suc.IH [OF this] show ?case
    by (simp add: int_from_little_def unat_of_nat take_bit_eq_mod)
qed (simp add: int_from_little_def)

lemma descriptor_bits:
  assumes "f < 4" "mid < 8" "d < 4"
  shows "unat (drop_bit 6 (frame_descriptor f single mid d)) = f"
    and "drop_bit 5 (frame_descriptor f single mid d) AND 1 = of_bool single"
    and "unat (frame_descriptor f single mid d AND 3) = d"
proof -
  let ?n = "64 * f + 32 * of_bool single + 4 * mid + d :: nat"
  have n: "unat (frame_descriptor f single mid d) = ?n"
    using assms by (simp only: frame_descriptor_def unat_of_nat) (simp add: of_bool_def)
  have "?n div 64 = f" using assms by (cases single; simp; arith)
  then show "unat (drop_bit 6 (frame_descriptor f single mid d)) = f"
    by (simp only: unat_drop_bit_eq n) (simp add: drop_bit_eq_div)
  have "?n div 32 = 2 * f + of_bool single" using assms by simp
  then have "unat (drop_bit 5 (frame_descriptor f single mid d)) = 2 * f + of_bool single"
    by (simp only: unat_drop_bit_eq n) (simp add: drop_bit_eq_div)
  then show "drop_bit 5 (frame_descriptor f single mid d) AND 1 = of_bool single"
    by (simp only: word_unat_eq_iff unsigned_and_eq) (simp add: and_one_eq)
  have "(x :: nat) AND 3 = x mod 4" for x
    using take_bit_eq_mask [of 2 x] by (simp add: mask_eq_exp_minus_1 take_bit_eq_mod)
  then show "unat (frame_descriptor f single mid d AND 3) = d"
    using assms by (simp only: unsigned_and_eq n) (simp add: mod_add_left_eq [symmetric])
qed

text \<open>C39: The size that the header of a sealed archive states is read back, for every layout of the header: each length of the size
  field, with and without window byte and dictionary id. A header without a size field gives no size.
\<close>

theorem frame_size_roundtrip:
  assumes "f < 4" "mid < 8" "d < 4" "length dict = dict_id_len d" "f \<noteq> 0 \<or> single"
    and "if f = 1 then 256 \<le> sz \<and> sz < 256 + 256 ^ 2 else sz < 256 ^ size_field_len f single"
  shows "zst_frame_content_size (Some (frame_header f single mid window dict d sz @ rest)) = Some sz"
proof -
  let ?head = "frame_header f single mid window dict d sz"
  define len where "len = size_field_len f single"
  define pos where "pos = 5 + (if single then 0 else 1) + length dict"
  define field where "field = little_endian len (if f = 1 then sz - 256 else sz)"
  have f: "f \<in> {0, 1, 2, 3}" and d: "d \<in> {0, 1, 2, 3}" using assms(1,3) by auto
  have len: "(if [0, 2, 4, 8] ! f \<noteq> (0 :: nat) then [0, 2, 4, 8] ! f else if single then 1 else 0) = len" "0 < len" "len \<le> 8"
    "[0, 1, 2, 4] ! d = length dict" "length dict \<le> 4" "len = 2 \<longleftrightarrow> f = 1" "length field = len"
    using f d assms(4,5) by (auto simp: len_def size_field_len_def dict_id_len_def field_def)
  obtain pre where pre: "?head = pre @ field" "length pre = pos"
    by (simp add: frame_header_def pos_def zst_magic_def len_def field_def)
  then have "length ?head \<le> 18" using len(3,5,7) by (simp add: pos_def)
  then obtain xs where head: "take 18 (?head @ rest) = ?head @ xs" by simp
  have parts: "take 4 (?head @ xs) = zst_magic" "(?head @ xs) ! 4 = frame_descriptor f single mid d"
    by (simp_all add: frame_header_def zst_magic_def)
  have field: "take len (drop pos (?head @ xs)) = field" "\<not> length (?head @ xs) < 6"
    using len(2,7) pre by (simp_all add: pos_def)
  have fcs: "(if [0, 2, 4, 8] ! f \<noteq> (0 :: nat) then [0, 2, 4, 8] ! f else if of_bool single \<noteq> (0 :: 8 word) then 1 else 0) = len"
    and pos: "5 + (if of_bool single \<noteq> (0 :: 8 word) then 0 else 1) + [0, 1, 2, 4] ! d = pos"
    using len(1,4) by (auto simp: pos_def split: if_splits)
  have "int_from_little field = (if f = 1 then sz - 256 else sz)"
    unfolding field_def using assms(6) by (intro from_little_endian) (auto simp: len_def size_field_len_def)
  then have "Some (if len = 2 then int_from_little field + 256 else int_from_little field) = Some sz"
    using assms(6) len(6) by simp
  moreover have "zst_frame_content_size (Some (?head @ rest)) =
      Some (if len = 2 then int_from_little field + 256 else int_from_little field)"
    unfolding zst_frame_content_size_def Let_def option.case head parts descriptor_bits [OF assms(1-3)] fcs pos field(1)
    using len(2,7) field(2) by simp
  ultimately show ?thesis by simp
qed

theorem frame_size_roundtrip_witness:
  "zst_frame_content_size (Some (frame_header 1 False 0 88 [7] 1 1000 @ [1, 2, 3])) = Some 1000 \<and>
   zst_frame_content_size (Some (frame_header 3 True 1 0 [] 0 5000000000 @ [])) = Some 5000000000"
  using frame_size_roundtrip [of 1 0 1 "[7]" False 1000 88 "[1, 2, 3]"] frame_size_roundtrip [of 3 1 0 "[]" True 5000000000 0 "[]"]
  by (simp add: dict_id_len_def size_field_len_def)

end
