(* ===== verification/Space_Props.thy ===== *)
theory Space_Props
  imports Space_Pressure
begin

text \<open>
  Properties of the space pressure: which day gets appends, who may expand a sealed day, and that reservations keep the
  hard reserve.
\<close>

section \<open>One day at a time\<close>






























section \<open>One expanded day at a time\<close>


















section \<open>The hard reserve\<close>
























section \<open>Concrete runs and races\<close>

text \<open>An archive directory with two sealed days whose frames state no size, and the given threshold, free space and time.\<close>

definition demo_space :: "int \<Rightarrow> int \<Rightarrow> rat \<Rightarrow> space_env" where
  "demo_space threshold free now = \<lparr>sv_cwd = ''/'', sv_exists = (\<lambda>_. True), sv_isfile = (\<lambda>p. p \<in> {''/d/a.tar.zst'', ''/d/b.tar.zst''}),
     sv_usage = (\<lambda>_. Some free), sv_size = (\<lambda>p. if p \<in> {''/d/a.tar.zst'', ''/d/b.tar.zst''} then Some 6 else None), sv_head = (\<lambda>_. None),
     sv_threshold = threshold, sv_min_free = 10, sv_daily_dir = ''/d'', sv_now = now\<rparr>"






text \<open>
  The check of the hard reserve and the reservation are two steps under the lock. Two restores that are checked before either
  has reserved are both admitted, although together they do not fit.
\<close>

lemma overlapping_admissions_overcommit:
  "let env = demo_space 0 100 0; a = ''/d/a.tar''; b = ''/d/b.tar'' in
     fits_hard_reserve env a 60 60 space_init \<and> fits_hard_reserve env b 60 60 space_init \<and>
     (case try_claim_restore_slot env a (restore_key a) 60 space_init of (ok1, s1) \<Rightarrow>
       (case try_claim_restore_slot env b (restore_key b) 60 s1 of (ok2, s2) \<Rightarrow>
         ok1 \<and> ok2 \<and> 100 - reserved_bytes env s2 < 0))"
  by code_simp

text \<open>
  A selection reads the number of pressure ends after its question whether there is pressure. When pressure ends in between, the
  selection does not notice: it gives one day the turn, and the turn stays although pressure is over.
\<close>

lemma late_look_writes_back:
  "case under_pressure (demo_space 100 50 0) [] space_init of (asked, s1) \<Rightarrow>
     (case under_pressure (demo_space 100 200 1) [] s1 of (still, s2) \<Rightarrow>
       (case sel_look s2 of (finishing, current, epoch) \<Rightarrow>
         (case sel_hold 2 [''2026-01-02''] finishing current epoch s2 of (r, s3) \<Rightarrow>
           (case sel_write epoch (sel_choose None (sel_candidates [''2026-01-02''] finishing current)) s3 of (p, s4) \<Rightarrow>
             asked \<and> \<not> still \<and> r = None \<and> p = Day ''2026-01-02'' \<and> \<not> ss_pressure s4 \<and> ss_append_day s4 = Some ''2026-01-02''))))"
  by code_simp

end
