(* ===== verification/Clone_Append.thy ===== *)
theory Clone_Append
  imports Persistence Stats_Find "HOL-Library.Word"
begin

text \<open>
  Appending raw files to a daily tar with a journal (\<open>dbload/lib/sync_timedb_tar_clone_append.py\<close>). The model follows the
  system calls: each one works, writes only a part, fails with an error number, or is the last one of a process that is stopped
  there. Exceptions run the handlers of the code, a stop does not. The tar, its journal and the temporary file of a new tar are the state;
  the caller holds the write lock. Not here: owner names, timing, the temporary file of the journal, log lines.
\<close>

section \<open>Files and system calls\<close>

type_synonym bytes = "8 word list"

definition BLOCK :: nat where "BLOCK = 512"
definition ALIGN :: nat where "ALIGN = 4096"
definition TAR_EOF :: bytes where "TAR_EOF = replicate (2 * BLOCK) 0"
definition TAIL_HASH_BYTES :: nat where "TAIL_HASH_BYTES = 4096"
definition ZERO_TAIL_MAX :: nat where "ZERO_TAIL_MAX = 2 ^ 20"
definition ALIGN_PAD_MAX_TRIES :: nat where "ALIGN_PAD_MAX_TRIES = 16"

text \<open>\<open>EXDEV\<close>, \<open>EOPNOTSUPP\<close> (which is \<open>ENOTSUP\<close>), \<open>EINVAL\<close>, \<open>ENOTTY\<close> and \<open>ENOSYS\<close>.\<close>

definition CLONE_FALLBACK_ERRNOS :: "int set" where
  "CLONE_FALLBACK_ERRNOS = {18, 95, 22, 25, 38}"

definition pwrite_bytes :: "bytes \<Rightarrow> nat \<Rightarrow> bytes \<Rightarrow> bytes" where
  "pwrite_bytes data off c =
     (if data = [] then c else take off (c @ replicate (off - length c) 0) @ data @ drop (off + length data) c)"

definition ftruncate_bytes :: "nat \<Rightarrow> bytes \<Rightarrow> bytes" where
  "ftruncate_bytes n c = take n (c @ replicate (n - length c) 0)"

datatype fate = Works | Short nat | Fails int nat | Killed nat

datatype io_error = OS int | Py py_error | TarError

datatype 'a outcome = Val 'a | Exc io_error | Stopped

text \<open>
  A tar with its device and inode numbers; the journal; journals that were moved aside; the temporary file of a new tar; the number
  of system calls made; what is known of cloning between devices.
\<close>

record tar_fs =
  tf_tar :: "(nat \<times> nat \<times> bytes) option"
  tf_journal :: "content option"
  tf_aside :: "content list"
  tf_tmp :: "bytes option"
  tf_calls :: nat
  tf_caps :: "(nat \<times> nat, bool) dict"

type_synonym 'a io = "tar_fs \<Rightarrow> 'a outcome \<times> tar_fs"

text \<open>An opened raw file: its absolute path, the size that \<open>fstat\<close> gave and its content when it is read.\<close>

record source =
  so_path :: string
  so_size :: nat
  so_data :: bytes

text \<open>
  \<open>ae_tobuf\<close> is \<open>TarInfo.tobuf\<close> for a source with a comment of the given length, \<open>ae_walk\<close> the walk of \<open>tarfile\<close> to the end of the
  members, \<open>ae_open\<close> opens a raw file, \<open>ae_identity\<close> are the numbers a new tar gets, \<open>ae_journal_errno\<close> an error when the journal is read,
  and \<open>ae_device\<close> the device number of a path.
\<close>

record append_env =
  ae_fate :: "nat \<Rightarrow> fate"
  ae_tobuf :: "source \<Rightarrow> nat \<Rightarrow> bytes"
  ae_walk :: "bytes \<Rightarrow> io_error + nat"
  ae_sha256 :: "bytes \<Rightarrow> string"
  ae_open :: "string \<Rightarrow> source option"
  ae_identity :: "nat \<times> nat"
  ae_journal_errno :: "int option"
  ae_device :: "string \<Rightarrow> nat option"
  ae_probe :: "string \<Rightarrow> bool"
  ae_cwd :: string

definition io_return :: "'a \<Rightarrow> 'a io" where "io_return x s = (Val x, s)"
definition io_raise :: "io_error \<Rightarrow> 'a io" where "io_raise e s = (Exc e, s)"

definition io_bind :: "'a io \<Rightarrow> ('a \<Rightarrow> 'b io) \<Rightarrow> 'b io" where
  "io_bind m f s = (case m s of (Val x, t) \<Rightarrow> f x t | (Exc e, t) \<Rightarrow> (Exc e, t) | (Stopped, t) \<Rightarrow> (Stopped, t))"

definition io_then :: "'a io \<Rightarrow> 'b io \<Rightarrow> 'b io" where
  "io_then m n = io_bind m (\<lambda>_. n)"

text \<open>\<open>except\<close>: the handler runs for exceptions, not when the process is stopped.\<close>

definition io_except :: "'a io \<Rightarrow> (io_error \<Rightarrow> 'a io) \<Rightarrow> 'a io" where
  "io_except m h s = (case m s of (Exc e, t) \<Rightarrow> h e t | r \<Rightarrow> r)"

definition counted :: "tar_fs \<Rightarrow> tar_fs" where
  "counted s = s\<lparr>tf_calls := Suc (tf_calls s)\<rparr>"

text \<open>A call that has its whole effect or none, a call that only reads, and a call that writes bytes.\<close>

definition quick_call :: "append_env \<Rightarrow> (tar_fs \<Rightarrow> tar_fs) \<Rightarrow> unit io" where
  "quick_call env f s = (case ae_fate env (tf_calls s) of
      Fails e k \<Rightarrow> (Exc (OS e), counted s) | Killed k \<Rightarrow> (Stopped, counted s) | _ \<Rightarrow> (Val (), f (counted s)))"

definition read_call :: "append_env \<Rightarrow> unit io" where
  "read_call env s = (case ae_fate env (tf_calls s) of Killed k \<Rightarrow> (Stopped, counted s) | _ \<Rightarrow> (Val (), counted s))"

datatype target = Tar | Temp

fun get_bytes :: "target \<Rightarrow> tar_fs \<Rightarrow> bytes" where
  "get_bytes Tar s = (case tf_tar s of None \<Rightarrow> [] | Some (dev, ino, c) \<Rightarrow> c)"
| "get_bytes Temp s = (case tf_tmp s of None \<Rightarrow> [] | Some c \<Rightarrow> c)"

fun set_bytes :: "target \<Rightarrow> bytes \<Rightarrow> tar_fs \<Rightarrow> tar_fs" where
  "set_bytes Tar c s = s\<lparr>tf_tar := map_option (\<lambda>(dev, ino, _). (dev, ino, c)) (tf_tar s)\<rparr>"
| "set_bytes Temp c s = s\<lparr>tf_tmp := map_option (\<lambda>_. c) (tf_tmp s)\<rparr>"

definition upd_bytes :: "target \<Rightarrow> (bytes \<Rightarrow> bytes) \<Rightarrow> tar_fs \<Rightarrow> tar_fs" where
  "upd_bytes tg f s = set_bytes tg (f (get_bytes tg s)) s"

definition write_call :: "append_env \<Rightarrow> target \<Rightarrow> bytes \<Rightarrow> nat \<Rightarrow> unit io" where
  "write_call env tg data off s = (case ae_fate env (tf_calls s) of
      Works \<Rightarrow> (Val (), upd_bytes tg (pwrite_bytes data off) (counted s))
    | Short k \<Rightarrow> (Val (), upd_bytes tg (pwrite_bytes (take k data) off) (counted s))
    | Fails e k \<Rightarrow> (Exc (OS e), upd_bytes tg (pwrite_bytes (take k data) off) (counted s))
    | Killed k \<Rightarrow> (Stopped, upd_bytes tg (pwrite_bytes (take k data) off) (counted s)))"

definition ftruncate_call :: "append_env \<Rightarrow> target \<Rightarrow> nat \<Rightarrow> unit io" where
  "ftruncate_call env tg n = quick_call env (upd_bytes tg (ftruncate_bytes n))"

definition fsync_call :: "append_env \<Rightarrow> unit io" where
  "fsync_call env = quick_call env id"

section \<open>The journal\<close>

definition journal_payload :: "nat \<Rightarrow> nat \<Rightarrow> nat \<Rightarrow> nat \<Rightarrow> string \<Rightarrow> json" where
  "journal_payload old_end old_size dev ino digest = JObj
     [(''old_end'', JNum (of_nat old_end)), (''old_size'', JNum (of_nat old_size)), (''st_dev'', JNum (of_nat dev)),
      (''st_ino'', JNum (of_nat ino)), (''tail_sha256'', JStr digest), (''v'', JNum 1)]"

text \<open>\<open>mkstemp\<close>, write, \<open>fsync\<close>, \<open>replace\<close> and \<open>fsync\<close> of the directory; after a failure the temporary file is unlinked.\<close>

definition write_durable :: "append_env \<Rightarrow> json \<Rightarrow> unit io" where
  "write_durable env data =
     io_then (quick_call env id)
     (io_then
       (io_except
         (io_then (quick_call env id) (io_then (fsync_call env) (quick_call env (\<lambda>s. s\<lparr>tf_journal := Some (Json data)\<rparr>))))
         (\<lambda>e. io_then (io_except (quick_call env id) (\<lambda>_. io_return ())) (io_raise e)))
       (fsync_call env))"

definition remove_durable :: "append_env \<Rightarrow> unit io" where
  "remove_durable env s = (case tf_journal s of
      None \<Rightarrow> read_call env s
    | Some _ \<Rightarrow> io_then (quick_call env (\<lambda>s. s\<lparr>tf_journal := None\<rparr>)) (fsync_call env) s)"

definition tail_sha256 :: "append_env \<Rightarrow> nat \<Rightarrow> bytes \<Rightarrow> string" where
  "tail_sha256 env fin c = ae_sha256 env (drop (fin - TAIL_HASH_BYTES) (take fin c))"

definition journal_has :: "json \<Rightarrow> string \<Rightarrow> bool option" where
  "journal_has j key = (case j of
      JObj d \<Rightarrow> Some (key \<in> dict_keys d)
    | JList xs \<Rightarrow> Some (JStr key \<in> set xs)
    | JStr t \<Rightarrow> Some (list_ex (\<lambda>n. take (length key) (drop n t) = key) [0..<Suc (length t)])
    | _ \<Rightarrow> None)"

fun journal_missing :: "json \<Rightarrow> string list \<Rightarrow> io_error option" where
  "journal_missing j [] = None"
| "journal_missing j (key # keys) = (case journal_has j key of
      None \<Rightarrow> Some (Py TypeError) | Some False \<Rightarrow> Some (Py ValueError) | Some True \<Rightarrow> journal_missing j keys)"

definition read_journal :: "append_env \<Rightarrow> json option io" where
  "read_journal env = io_then (read_call env) (\<lambda>s. (case ae_journal_errno env of
      Some e \<Rightarrow> if e = 2 then (Val None, s) else (Exc (OS e), s)
    | None \<Rightarrow> (case tf_journal s of
        None \<Rightarrow> (Val None, s)
      | Some Garbage \<Rightarrow> (Exc (Py ValueError), s)
      | Some (Json data) \<Rightarrow>
          (case journal_missing data [''old_end'', ''old_size'', ''st_dev'', ''st_ino'', ''tail_sha256''] of
             Some e \<Rightarrow> (Exc e, s) | None \<Rightarrow> (Val (Some data), s)))))"

text \<open>\<open>journal[key]\<close>, and \<open>int(journal[key])\<close>.\<close>

definition journal_get :: "json \<Rightarrow> string \<Rightarrow> io_error + json" where
  "journal_get j key = (case j of JObj d \<Rightarrow> Inr (jget d key) | _ \<Rightarrow> Inl (Py TypeError))"

definition io_sum :: "io_error + 'a \<Rightarrow> 'a io" where
  "io_sum r s = (case r of Inl e \<Rightarrow> (Exc e, s) | Inr x \<Rightarrow> (Val x, s))"

definition journal_int :: "json \<Rightarrow> string \<Rightarrow> io_error + int" where
  "journal_int j key = (case journal_get j key of Inl e \<Rightarrow> Inl e
      | Inr v \<Rightarrow> (case json_int v of Inl e \<Rightarrow> Inl (Py e) | Inr i \<Rightarrow> Inr i))"

definition restore_old_end :: "append_env \<Rightarrow> nat \<Rightarrow> nat \<Rightarrow> unit io" where
  "restore_old_end env old_end old_size =
     io_then (ftruncate_call env Tar old_end)
     (io_then (if old_size > old_end then ftruncate_call env Tar old_size else write_call env Tar TAR_EOF old_end)
       (fsync_call env))"

text \<open>Python's \<open>==\<close> of a value of the journal and a number.\<close>

fun json_is_nat :: "json \<Rightarrow> nat \<Rightarrow> bool" where
  "json_is_nat (JNum r) n = (r = of_nat n)"
| "json_is_nat (JBool b) n = (n = (if b then 1 else 0))"
| "json_is_nat _ n = False"

text \<open>The test whether a journal belongs to the open tar; a negative end makes \<open>pread\<close> fail.\<close>

definition journal_fits :: "append_env \<Rightarrow> json \<Rightarrow> int \<Rightarrow> nat \<times> nat \<times> bytes \<Rightarrow> io_error + bool" where
  "journal_fits env j old_end = (\<lambda>(dev, ino, c).
     (case (journal_get j ''st_dev'', journal_get j ''st_ino'', journal_get j ''tail_sha256'') of
        (Inr d, Inr i, Inr h) \<Rightarrow>
          if \<not> (json_is_nat d dev \<and> json_is_nat i ino) \<or> int (length c) < old_end then Inr False
          else if old_end < 0 then Inl (OS 22)
          else Inr (h = JStr (tail_sha256 env (nat old_end) c))
      | _ \<Rightarrow> Inl (Py TypeError)))"

definition move_journal_aside :: "append_env \<Rightarrow> string io" where
  "move_journal_aside env s = (case tf_journal s of
      None \<Rightarrow> (Exc (OS 2), s)
    | Some j \<Rightarrow> io_then (quick_call env (\<lambda>s. s\<lparr>tf_journal := None, tf_aside := j # tf_aside s\<rparr>)) (io_return ''corrupt'') s)"

definition apply_journal :: "append_env \<Rightarrow> json \<Rightarrow> nat \<times> nat \<times> bytes \<Rightarrow> string io" where
  "apply_journal env j tar =
     io_bind (io_sum (journal_int j ''old_end'')) (\<lambda>old_end.
     io_bind (io_sum (journal_fits env j old_end tar)) (\<lambda>fits.
       if \<not> fits then io_then (remove_durable env) (io_return ''stale'')
       else io_bind (io_sum (journal_int j ''old_size'')) (\<lambda>old_size.
         io_then (restore_old_end env (nat old_end) (nat old_size)) (io_then (remove_durable env) (io_return ''recovered'')))))"

definition recover_interrupted_append :: "append_env \<Rightarrow> string io" where
  "recover_interrupted_append env s = (case read_journal env s of
      (Exc (Py TypeError), t) \<Rightarrow> (Exc (Py TypeError), t)
    | (Exc e, t) \<Rightarrow> move_journal_aside env t
    | (Stopped, t) \<Rightarrow> (Stopped, t)
    | (Val None, t) \<Rightarrow> (Val ''none'', t)
    | (Val (Some j), t) \<Rightarrow>
        io_then (quick_call env id) (\<lambda>u. (case tf_tar u of
            None \<Rightarrow> io_then (remove_durable env) (io_return ''orphan'') u
          | Some tar \<Rightarrow> io_then (quick_call env id) (apply_journal env j tar) u)) t)"

section \<open>Members\<close>

text \<open>\<open>-n % m\<close>.\<close>

definition pad_to :: "nat \<Rightarrow> nat \<Rightarrow> nat" where
  "pad_to m n = (m - n mod m) mod m"

fun header_tries :: "append_env \<Rightarrow> source \<Rightarrow> nat \<Rightarrow> nat \<Rightarrow> nat \<Rightarrow> bytes option" where
  "header_tries env src offset 0 pad = None"
| "header_tries env src offset (Suc n) pad =
     (let hdr = ae_tobuf env src pad; need = pad_to ALIGN (offset + length hdr)
      in if need = 0 then Some hdr else header_tries env src offset n (pad + need))"

definition build_member_header :: "append_env \<Rightarrow> source \<Rightarrow> nat \<Rightarrow> bytes io" where
  "build_member_header env src offset = (case header_tries env src offset ALIGN_PAD_MAX_TRIES 0 of
      None \<Rightarrow> io_raise (Py RuntimeError) | Some hdr \<Rightarrow> io_return hdr)"

text \<open>The clone covers the source to its end; \<open>dd\<close> copies at most \<open>size\<close> bytes, and the length is checked afterwards.\<close>

definition clone_range :: "append_env \<Rightarrow> target \<Rightarrow> source \<Rightarrow> nat \<Rightarrow> unit io" where
  "clone_range env tg src off = write_call env tg (so_data src) off"

definition copy_range :: "append_env \<Rightarrow> target \<Rightarrow> source \<Rightarrow> nat \<Rightarrow> unit io" where
  "copy_range env tg src off =
     (if so_size src = 0 then io_return ()
      else io_then (write_call env tg (take (so_size src) (so_data src)) off)
        (\<lambda>s. if length (get_bytes tg s) < off + so_size src then (Exc (OS 5), s) else (Val (), s)))"

definition try_clone :: "append_env \<Rightarrow> target \<Rightarrow> source \<Rightarrow> nat \<Rightarrow> bool io" where
  "try_clone env tg src off =
     io_except (io_then (clone_range env tg src off) (io_return True))
       (\<lambda>e. case e of OS n \<Rightarrow> if n \<in> CLONE_FALLBACK_ERRNOS then io_return False else io_raise e | _ \<Rightarrow> io_raise e)"

definition pad_call :: "append_env \<Rightarrow> target \<Rightarrow> nat \<Rightarrow> nat \<Rightarrow> unit io" where
  "pad_call env tg fin n = (if n > 0 then write_call env tg (replicate n 0) fin else io_return ())"

text \<open>One member: header, data, padding. The result is the next offset and what the flags and counters become.\<close>

definition write_member :: "append_env \<Rightarrow> target \<Rightarrow> source \<Rightarrow> nat \<Rightarrow> bool \<Rightarrow> nat \<Rightarrow> nat \<Rightarrow> (nat \<times> bool \<times> nat \<times> nat) io" where
  "write_member env tg src offset can_clone cloned copied =
     io_bind (build_member_header env src offset) (\<lambda>hdr.
     io_then (write_call env tg hdr offset)
     (let data_off = offset + length hdr; fin = data_off + so_size src in
      io_bind (if so_size src \<noteq> 0 \<and> can_clone then try_clone env tg src data_off else io_return False) (\<lambda>ok.
      let can_clone1 = (if so_size src \<noteq> 0 \<and> can_clone then ok else can_clone) in
      io_then (if so_size src \<noteq> 0 \<and> \<not> can_clone1 then copy_range env tg src data_off else io_return ())
      (io_then (pad_call env tg fin (pad_to BLOCK fin))
        (io_return (fin + pad_to BLOCK fin, can_clone1, cloned + of_bool ok, copied + of_bool (so_size src \<noteq> 0 \<and> \<not> can_clone1)))))))"

fun write_members :: "append_env \<Rightarrow> target \<Rightarrow> source list \<Rightarrow> nat \<Rightarrow> bool \<Rightarrow> nat \<Rightarrow> nat \<Rightarrow> (nat \<times> nat \<times> nat) io" where
  "write_members env tg [] offset can_clone cloned copied =
     io_then (write_call env tg TAR_EOF offset)
     (io_then (ftruncate_call env tg (offset + length TAR_EOF)) (io_return (offset + length TAR_EOF, cloned, copied)))"
| "write_members env tg (src # srcs) offset can_clone cloned copied =
     io_bind (write_member env tg src offset can_clone cloned copied)
       (\<lambda>(offset1, can_clone1, cloned1, copied1). write_members env tg srcs offset1 can_clone1 cloned1 copied1)"

section \<open>The append\<close>

record clone_append_result =
  cr_appended :: nat
  cr_cloned :: nat
  cr_copied :: nat
  cr_skipped :: nat
  cr_old_end :: nat
  cr_new_size :: nat

definition tar_dir :: "append_env \<Rightarrow> string \<Rightarrow> string" where
  "tar_dir env tar_path = (let d = py_dirname (py_normpath (py_path_join (ae_cwd env) tar_path)) in if d = [] then ''.'' else d)"

definition note_clone_capability :: "append_env \<Rightarrow> string \<Rightarrow> string \<Rightarrow> nat \<Rightarrow> nat \<Rightarrow> tar_fs \<Rightarrow> tar_fs" where
  "note_clone_capability env tar_path sample_path cloned copied s =
     (if cloned = 0 \<and> copied = 0 then s
      else (case (ae_device env sample_path, ae_device env (tar_dir env tar_path)) of
          (Some src, Some dir) \<Rightarrow> s\<lparr>tf_caps := AList.update (src, dir) (copied = 0) (tf_caps s)\<rparr>
        | _ \<Rightarrow> s))"

definition clone_capable :: "append_env \<Rightarrow> string \<Rightarrow> string option \<Rightarrow> tar_fs \<Rightarrow> bool \<times> tar_fs" where
  "clone_capable env tar_path sample_path s = (case ae_device env (tar_dir env tar_path) of
      None \<Rightarrow> (False, s)
    | Some dir \<Rightarrow>
        (case (case sample_path of None \<Rightarrow> Some dir | Some p \<Rightarrow> if p = [] then Some dir else ae_device env p) of
           None \<Rightarrow> (False, s)
         | Some src \<Rightarrow>
             if src \<noteq> dir then (False, s)
             else (case map_of (tf_caps s) (src, dir) of
                 Some b \<Rightarrow> (b, s)
               | None \<Rightarrow> let b = ae_probe env (tar_dir env tar_path) in (b, s\<lparr>tf_caps := AList.update (src, dir) b (tf_caps s)\<rparr>))))"

definition logical_end :: "append_env \<Rightarrow> bytes \<Rightarrow> io_error + nat" where
  "logical_end env c = (if c = [] then Inr 0 else ae_walk env c)"

definition zero_tail :: "nat \<Rightarrow> bytes \<Rightarrow> io_error + bool" where
  "zero_tail start c =
     (if start > length c then Inl (OS 22)
      else Inr (length c - start \<le> ZERO_TAIL_MAX \<and> list_all (\<lambda>b. b = 0) (drop start c)))"

text \<open>\<open>link\<close> makes the finished temporary file the tar; the temporary name goes in any case.\<close>

definition link_new_tar :: "append_env \<Rightarrow> unit io" where
  "link_new_tar env s = (if tf_tar s \<noteq> None then (Exc (OS 17), s)
     else quick_call env (\<lambda>s. s\<lparr>tf_tar := Some (fst (ae_identity env), snd (ae_identity env), get_bytes Temp s)\<rparr>) s)"

definition drop_temp :: "append_env \<Rightarrow> unit io" where
  "drop_temp env = io_except (quick_call env (\<lambda>s. s\<lparr>tf_tmp := None\<rparr>)) (\<lambda>_. io_return ())"

definition create_new_tar :: "append_env \<Rightarrow> source list \<Rightarrow> (nat \<times> nat \<times> nat) io" where
  "create_new_tar env srcs =
     io_then (quick_call env (\<lambda>s. s\<lparr>tf_tmp := Some []\<rparr>))
     (io_bind
       (io_except
         (io_bind (write_members env Temp srcs 0 True 0 0) (\<lambda>r. io_then (fsync_call env) (io_then (link_new_tar env) (io_return r))))
         (\<lambda>e. io_then (drop_temp env) (io_raise e)))
       (\<lambda>r. io_then (drop_temp env) (io_then (fsync_call env) (io_return r))))"

definition append_to_tar :: "append_env \<Rightarrow> source list \<Rightarrow> nat \<times> nat \<times> bytes \<Rightarrow> (nat \<times> nat \<times> nat \<times> nat) io" where
  "append_to_tar env srcs = (\<lambda>(dev, ino, c).
     io_bind (io_sum (logical_end env c)) (\<lambda>old_end.
     io_bind (io_sum (zero_tail old_end c)) (\<lambda>zero.
     let old_size = (if zero then length c else 0) in
     io_then (write_durable env (journal_payload old_end old_size dev ino (tail_sha256 env old_end c)))
     (io_bind
       (io_except
         (io_then (ftruncate_call env Tar old_end)
           (io_bind (write_members env Tar srcs old_end True 0 0) (\<lambda>r. io_then (fsync_call env) (io_return r))))
         (\<lambda>e. io_then (restore_old_end env old_end old_size) (io_then (remove_durable env) (io_raise e))))
       (\<lambda>(new_size, cloned, copied). io_then (remove_durable env) (io_return (old_end, new_size, cloned, copied)))))))"

definition clone_append :: "append_env \<Rightarrow> string \<Rightarrow> string list \<Rightarrow> clone_append_result io" where
  "clone_append env tar_path paths =
     (let srcs = List.map_filter (ae_open env) paths; skipped = length paths - length srcs in
      if srcs = [] then
        io_return \<lparr>cr_appended = 0, cr_cloned = 0, cr_copied = 0, cr_skipped = skipped, cr_old_end = 0, cr_new_size = 0\<rparr>
      else io_then (recover_interrupted_append env) (io_then (quick_call env id) (\<lambda>s. (case tf_tar s of
          None \<Rightarrow> io_bind (create_new_tar env srcs) (\<lambda>(new_size, cloned, copied).
            \<lambda>t. (Val \<lparr>cr_appended = length srcs, cr_cloned = cloned, cr_copied = copied, cr_skipped = skipped, cr_old_end = 0, cr_new_size = new_size\<rparr>,
              note_clone_capability env tar_path (so_path (hd srcs)) cloned copied t)) s
        | Some tar \<Rightarrow> io_bind (append_to_tar env srcs tar) (\<lambda>(old_end, new_size, cloned, copied).
            \<lambda>t. (Val \<lparr>cr_appended = length srcs, cr_cloned = cloned, cr_copied = copied, cr_skipped = skipped, cr_old_end = old_end, cr_new_size = new_size\<rparr>,
              note_clone_capability env tar_path (so_path (hd srcs)) cloned copied t)) s))))"

text \<open>
  All tars of a directory whose journal is there: \<open>locked\<close> tells for which the write lock is taken by somebody. A failed recovery is
  logged and left for later.
\<close>

fun recover_all :: "append_env \<Rightarrow> (string \<Rightarrow> bool) \<Rightarrow> string \<Rightarrow> string list \<Rightarrow> nat \<Rightarrow> (string \<Rightarrow> tar_fs) \<Rightarrow> (nat outcome) \<times> (string \<Rightarrow> tar_fs)" where
  "recover_all env locked daily_dir [] found w = (Val found, w)"
| "recover_all env locked daily_dir (name # names) found w =
     (if \<not> ends_with ''.tar.append_journal'' name then recover_all env locked daily_dir names found w
      else let tar_path = py_path_join daily_dir (take (length name - length ''.append_journal'') name) in
        if locked tar_path then recover_all env locked daily_dir names found w
        else (case recover_interrupted_append env (w tar_path) of
            (Val r, t) \<Rightarrow> recover_all env locked daily_dir names (if r \<noteq> ''none'' then Suc found else found) (w(tar_path := t))
          | (Exc (OS e), t) \<Rightarrow> recover_all env locked daily_dir names found (w(tar_path := t))
          | (Exc e, t) \<Rightarrow> (Exc e, w(tar_path := t))
          | (Stopped, t) \<Rightarrow> (Stopped, w(tar_path := t))))"

definition recover_all_interrupted_appends :: "append_env \<Rightarrow> (string \<Rightarrow> bool) \<Rightarrow> string \<Rightarrow> string list option \<Rightarrow> (string \<Rightarrow> tar_fs) \<Rightarrow>
    nat outcome \<times> (string \<Rightarrow> tar_fs)" where
  "recover_all_interrupted_appends env locked daily_dir names w = (case names of
      None \<Rightarrow> (Val 0, w) | Some ns \<Rightarrow> recover_all env locked daily_dir (sort ns) 0 w)"

end
