(* ===== verification/Clone_Props.thy ===== *)
theory Clone_Props
  imports Clone_Append
begin

text \<open>
  An append is atomic: wherever the process fails or is stopped, the recovery leaves the old members, or the old and all the new
  ones. Triples with three postconditions (returned, raised, stopped) carry the proof; one rule per construct.
\<close>

section \<open>Triples\<close>

definition triple :: "(tar_fs \<Rightarrow> bool) \<Rightarrow> 'a io \<Rightarrow> ('a \<Rightarrow> tar_fs \<Rightarrow> bool) \<Rightarrow> (tar_fs \<Rightarrow> bool) \<Rightarrow> (tar_fs \<Rightarrow> bool) \<Rightarrow> bool" where
  "triple P m Q E K \<longleftrightarrow> (\<forall>s. P s \<longrightarrow> (case m s of (Val x, t) \<Rightarrow> Q x t | (Exc e, t) \<Rightarrow> E t | (Stopped, t) \<Rightarrow> K t))"

lemma tripleD:
  assumes "triple P m Q E K" "P s" "m s = (r, t)"
  shows "\<And>x. r = Val x \<Longrightarrow> Q x t" "\<And>e. r = Exc e \<Longrightarrow> E t" "r = Stopped \<Longrightarrow> K t"
  using assms by (auto simp: triple_def dest!: spec [of _ s])

lemma triple_conseq:
  assumes "triple P' m Q' E' K'" "\<And>s. P s \<Longrightarrow> P' s" "\<And>x s. Q' x s \<Longrightarrow> Q x s" "\<And>s. E' s \<Longrightarrow> E s" "\<And>s. K' s \<Longrightarrow> K s"
  shows "triple P m Q E K"
  using assms unfolding triple_def by (auto split: prod.splits outcome.splits) blast+

lemma triple_pre: "triple P' m Q E K \<Longrightarrow> (\<And>s. P s \<Longrightarrow> P' s) \<Longrightarrow> triple P m Q E K"
  by (rule triple_conseq)

lemma triple_return [intro]: "(\<And>s. P s \<Longrightarrow> Q x s) \<Longrightarrow> triple P (io_return x) Q E K"
  by (simp add: triple_def io_return_def)

lemma triple_raise [intro]: "(\<And>s. P s \<Longrightarrow> E s) \<Longrightarrow> triple P (io_raise e) Q E K"
  by (simp add: triple_def io_raise_def)

lemma triple_bind:
  assumes "triple P m Q' E K" "\<And>x. triple (Q' x) (f x) Q E K"
  shows "triple P (io_bind m f) Q E K"
  unfolding triple_def
proof (intro allI impI)
  fix s assume "P s"
  obtain r t where r: "m s = (r, t)" by fastforce
  from tripleD [OF assms(1) \<open>P s\<close> r] show "case io_bind m f s of (Val x, t) \<Rightarrow> Q x t | (Exc e, t) \<Rightarrow> E t | (Stopped, t) \<Rightarrow> K t"
    using assms(2) by (cases r) (simp_all add: io_bind_def r triple_def)
qed

lemma io_bind_return [simp]: "io_bind (io_return x) f = f x"
  by (rule ext) (simp add: io_bind_def io_return_def)

lemma triple_then: "triple P m (\<lambda>_. P') E K \<Longrightarrow> triple P' n Q E K \<Longrightarrow> triple P (io_then m n) Q E K"
  unfolding io_then_def by (rule triple_bind)

lemma triple_except:
  assumes "triple P m Q E' K" "\<And>e. triple E' (h e) Q E K"
  shows "triple P (io_except m h) Q E K"
  unfolding triple_def
proof (intro allI impI)
  fix s assume "P s"
  obtain r t where r: "m s = (r, t)" by fastforce
  from tripleD [OF assms(1) \<open>P s\<close> r] show "case io_except m h s of (Val x, t) \<Rightarrow> Q x t | (Exc e, t) \<Rightarrow> E t | (Stopped, t) \<Rightarrow> K t"
    using assms(2) by (cases r) (simp_all add: io_except_def r triple_def)
qed

lemma triple_pure: "(b \<Longrightarrow> triple P m Q E K) \<Longrightarrow> triple (\<lambda>s. b \<and> P s) m Q E K"
  by (cases b) (simp_all add: triple_def)

lemma triple_state: "(\<And>s. P s \<Longrightarrow> triple (\<lambda>t. t = s) (f s) Q E K) \<Longrightarrow> triple P (\<lambda>s. f s s) Q E K"
  unfolding triple_def by simp

lemma triple_quick:
  assumes "\<And>s. P s \<Longrightarrow> Q () (f (counted s))" "\<And>s. P s \<Longrightarrow> E (counted s)" "\<And>s. P s \<Longrightarrow> K (counted s)"
  shows "triple P (quick_call env f) Q E K"
  using assms by (auto simp: triple_def quick_call_def split: fate.split)

lemma triple_read: "(\<And>s. P s \<Longrightarrow> Q () (counted s)) \<Longrightarrow> (\<And>s. P s \<Longrightarrow> K (counted s)) \<Longrightarrow> triple P (read_call env) Q E K"
  by (auto simp: triple_def read_call_def split: fate.split)

lemma triple_sum: "(\<And>s x. P s \<Longrightarrow> r = Inr x \<Longrightarrow> Q x s) \<Longrightarrow> (\<And>s. P s \<Longrightarrow> E s) \<Longrightarrow> triple P (io_sum r) Q E K"
  by (auto simp: triple_def io_sum_def split: sum.split)

section \<open>Writing at the end of a file\<close>

text \<open>All of the state but the bytes of the file that is written, and the number of calls.\<close>

fun others_of :: "target \<Rightarrow> tar_fs \<Rightarrow> tar_fs" where
  "others_of Tar s = s\<lparr>tf_tar := map_option (\<lambda>(dev, ino, _). (dev, ino, [])) (tf_tar s), tf_calls := 0\<rparr>"
| "others_of Temp s = s\<lparr>tf_tmp := map_option (\<lambda>_. []) (tf_tmp s), tf_calls := 0\<rparr>"

fun is_open :: "target \<Rightarrow> tar_fs \<Rightarrow> bool" where
  "is_open Tar s \<longleftrightarrow> tf_tar s \<noteq> None"
| "is_open Temp s \<longleftrightarrow> tf_tmp s \<noteq> None"

definition begins :: "target \<Rightarrow> tar_fs \<Rightarrow> bytes \<Rightarrow> tar_fs \<Rightarrow> bool" where
  "begins tg rest p s \<longleftrightarrow> others_of tg s = rest \<and> is_open tg s \<and> (\<exists>xs. get_bytes tg s = p @ xs)"

definition is_exactly :: "target \<Rightarrow> tar_fs \<Rightarrow> bytes \<Rightarrow> tar_fs \<Rightarrow> bool" where
  "is_exactly tg rest p s \<longleftrightarrow> others_of tg s = rest \<and> is_open tg s \<and> get_bytes tg s = p"

definition no_short :: "append_env \<Rightarrow> bool" where
  "no_short env \<longleftrightarrow> (\<forall>n k. ae_fate env n \<noteq> Short k)"

lemma exactly_begins: "is_exactly tg rest (p @ q) s \<Longrightarrow> begins tg rest p s"
  by (auto simp: is_exactly_def begins_def)

lemma begins_less: "begins tg rest (p @ q) s \<Longrightarrow> begins tg rest p s"
  by (auto simp: begins_def)

lemma upd_simps [simp]:
  "others_of tg (upd_bytes tg f s) = others_of tg s" "is_open tg (upd_bytes tg f s) = is_open tg s"
  "is_open tg s \<Longrightarrow> get_bytes tg (upd_bytes tg f s) = f (get_bytes tg s)"
  by (cases tg; auto simp: upd_bytes_def split: option.splits prod.splits; force)+

lemma counted_simps [simp]:
  "others_of tg (counted s) = others_of tg s" "is_open tg (counted s) = is_open tg s" "get_bytes tg (counted s) = get_bytes tg s"
  "tf_tar (counted s) = tf_tar s" "tf_journal (counted s) = tf_journal s" "tf_tmp (counted s) = tf_tmp s"
  by (cases tg; simp add: counted_def)+

lemma pwrite_end: "\<exists>ys. pwrite_bytes data (length p) (p @ xs) = p @ data @ ys"
  by (simp add: pwrite_bytes_def)

lemma ftruncate_short: "n \<le> length c \<Longrightarrow> ftruncate_bytes n c = take n c"
  by (simp add: ftruncate_bytes_def)

lemma write_end:
  assumes "no_short env"
  shows "triple (begins tg rest p) (write_call env tg data (length p)) (\<lambda>_. begins tg rest (p @ data)) (begins tg rest p) (begins tg rest p)"
proof -
  have "begins tg rest (p @ d) (upd_bytes tg (pwrite_bytes d (length p)) (counted s))" if "begins tg rest p s" for d s
    using that pwrite_end [of d p] by (auto simp: begins_def)
  moreover from this have "begins tg rest p (upd_bytes tg (pwrite_bytes d (length p)) (counted s))" if "begins tg rest p s" for d s
    using that begins_less by blast
  ultimately show ?thesis using assms unfolding triple_def write_call_def no_short_def by (simp split: fate.split)
qed

lemma ftruncate_end:
  assumes "n = length p"
  shows "triple (begins tg rest p) (ftruncate_call env tg n) (\<lambda>_. is_exactly tg rest p) (begins tg rest p) (begins tg rest p)"
  unfolding ftruncate_call_def by (rule triple_quick) (auto simp: assms begins_def is_exactly_def ftruncate_short)

section \<open>Members\<close>

definition member_of :: "append_env \<Rightarrow> source \<Rightarrow> nat \<Rightarrow> bytes" where
  "member_of env src offset =
     (let hdr = the (header_tries env src offset ALIGN_PAD_MAX_TRIES 0)
      in hdr @ take (so_size src) (so_data src) @ replicate (pad_to BLOCK (offset + length hdr + so_size src)) 0)"

text \<open>What an append puts after the old members.\<close>

fun layout :: "append_env \<Rightarrow> source list \<Rightarrow> nat \<Rightarrow> bytes" where
  "layout env [] offset = TAR_EOF"
| "layout env (src # srcs) offset = member_of env src offset @ layout env srcs (offset + length (member_of env src offset))"

text \<open>A raw file is not shorter than when it was opened; it may have grown.\<close>

definition not_shrunk :: "source \<Rightarrow> bool" where
  "not_shrunk src \<longleftrightarrow> so_size src \<le> length (so_data src)"

lemma pad_end:
  assumes "no_short env"
  shows "triple (begins tg rest p) (pad_call env tg (length p) n) (\<lambda>_. begins tg rest (p @ replicate n 0)) (begins tg rest p) (begins tg rest p)"
  using write_end [OF assms] by (auto simp: pad_call_def)

lemma clone_end:
  assumes "no_short env"
  shows "triple (begins tg rest p) (try_clone env tg src (length p))
    (\<lambda>ok. if ok then begins tg rest (p @ take (so_size src) (so_data src)) else begins tg rest p) (begins tg rest p) (begins tg rest p)"
proof -
  have "begins tg rest (p @ take n d) s" if "begins tg rest (p @ d) s" for n d s
    using that begins_less [of tg rest "p @ take n d" "drop n d" s] by simp
  then show ?thesis unfolding try_clone_def clone_range_def
    by (intro triple_except [where E' = "begins tg rest p"] triple_then [OF write_end [OF assms]] triple_return)
      (auto split: io_error.split)
qed

lemma copy_end:
  assumes "no_short env" "not_shrunk src"
  shows "triple (begins tg rest p) (copy_range env tg src (length p)) (\<lambda>_. begins tg rest (p @ take (so_size src) (so_data src)))
    (begins tg rest p) (begins tg rest p)"
proof -
  have "triple (begins tg rest (p @ d)) (\<lambda>s. if length (get_bytes tg s) < n then (Exc e, s) else (Val (), s)) (\<lambda>_. begins tg rest (p @ d))
      (begins tg rest p) (begins tg rest p)" for d n e
    by (auto simp: triple_def intro: begins_less)
  then show ?thesis unfolding copy_range_def
    by (auto intro!: triple_then [OF write_end [OF assms(1)]])
qed

lemma member_end:
  assumes "no_short env" "not_shrunk src" "offset = length p"
  shows "triple (begins tg rest p) (write_member env tg src offset can_clone cloned copied)
    (\<lambda>(offset1, _). \<lambda>s. begins tg rest (p @ member_of env src offset) s \<and> offset1 = offset + length (member_of env src offset))
    (begins tg rest p) (begins tg rest p)"
proof (cases "header_tries env src offset ALIGN_PAD_MAX_TRIES 0")
  case None
  then show ?thesis by (auto simp: write_member_def build_member_header_def io_bind_def io_raise_def triple_def)
next
  case (Some hdr)
  let ?data = "take (so_size src) (so_data src)" and ?B = "begins tg rest"
  let ?fin = "length (p @ hdr @ ?data)"
  have len: "length ?data = so_size src" using assms(2) by (simp add: not_shrunk_def)
  have member: "member_of env src offset = hdr @ ?data @ replicate (pad_to BLOCK ?fin) 0"
    using len by (simp add: member_of_def Some Let_def add.assoc) (simp add: assms(3))
  have weak: "triple (?B (p @ q)) m Q (?B (p @ q)) (?B (p @ q)) \<Longrightarrow> triple (?B (p @ q)) m Q (?B p) (?B p)" for q m and Q :: "'x \<Rightarrow> tar_fs \<Rightarrow> bool"
    by (erule triple_conseq) (auto intro: begins_less)
  let ?use = "so_size src \<noteq> 0 \<and> can_clone"
  have clone: "triple (?B (p @ hdr)) (if ?use then try_clone env tg src (offset + length hdr) else io_return False)
      (\<lambda>ok s. (ok \<longrightarrow> ?use) \<and> (if ok then ?B (p @ hdr @ ?data) else ?B (p @ hdr)) s) (?B p) (?B p)"
    using weak [OF clone_end [OF assms(1), of tg rest "p @ hdr" src]] assms(3) by (auto elim: triple_conseq split: if_splits)
  have copy1: "triple (?B (p @ hdr)) (copy_range env tg src (offset + length hdr)) (\<lambda>_. ?B (p @ hdr @ ?data)) (?B p) (?B p)"
    using weak [OF copy_end [OF assms(1,2), of tg rest "p @ hdr"]] assms(3) by simp
  have copy: "triple (if ok then ?B (p @ hdr @ ?data) else ?B (p @ hdr))
      (if so_size src \<noteq> 0 \<and> \<not> (if ?use then ok else can_clone) then copy_range env tg src (offset + length hdr) else io_return ())
      (\<lambda>_. ?B (p @ hdr @ ?data)) (?B p) (?B p)" if "ok \<longrightarrow> ?use" for ok
    using that by (cases ok; cases "so_size src = 0"; cases can_clone) (simp_all add: copy1 triple_return)
  have pad: "triple (?B (p @ hdr @ ?data)) (pad_call env tg ?fin n) (\<lambda>_. ?B (p @ hdr @ ?data @ replicate n 0)) (?B p) (?B p)" for n
    using weak [of "hdr @ ?data", OF pad_end [OF assms(1)]] by simp
  have off: "offset + length hdr + so_size src = ?fin" using assms(3) len by simp
  have hdr: "triple (?B p) (write_call env tg hdr offset) (\<lambda>_. ?B (p @ hdr)) (?B p) (?B p)"
    using write_end [OF assms(1)] assms(3) by simp
  show ?thesis
    unfolding write_member_def build_member_header_def Some option.case Let_def off io_bind_return
    by (rule triple_then [OF hdr], rule triple_bind [OF clone], rule triple_pure, rule triple_then [OF copy], assumption,
        rule triple_then [OF pad], rule triple_return) (simp only: prod.case member, simp add: assms(3))
qed

lemma members_end:
  assumes "no_short env" "\<forall>src \<in> set srcs. not_shrunk src" "offset = length p"
  shows "triple (begins tg rest p) (write_members env tg srcs offset can_clone cloned copied)
    (\<lambda>(n, _). \<lambda>s. is_exactly tg rest (p @ layout env srcs offset) s \<and> n = length (p @ layout env srcs offset)) (begins tg rest p) (begins tg rest p)"
  using assms(2,3)
proof (induction srcs arbitrary: p offset can_clone cloned copied)
  case Nil
  have cut: "triple (begins tg rest (p @ TAR_EOF)) (ftruncate_call env tg (offset + length TAR_EOF)) (\<lambda>_. is_exactly tg rest (p @ TAR_EOF))
      (begins tg rest p) (begins tg rest p)"
    by (rule triple_conseq [OF ftruncate_end [of _ "p @ TAR_EOF"]]) (use Nil begins_less in auto)
  have eof: "triple (begins tg rest p) (write_call env tg TAR_EOF offset) (\<lambda>_. begins tg rest (p @ TAR_EOF)) (begins tg rest p) (begins tg rest p)"
    using write_end [OF assms(1)] Nil by simp
  show ?case unfolding write_members.simps
    by (rule triple_then [OF eof], rule triple_then [OF cut], rule triple_return) (simp add: Nil)
next
  case (Cons src srcs)
  let ?m = "member_of env src offset"
  have head: "triple (begins tg rest p) (write_member env tg src offset can_clone cloned copied)
      (\<lambda>(offset1, _). \<lambda>s. begins tg rest (p @ ?m) s \<and> offset1 = offset + length ?m) (begins tg rest p) (begins tg rest p)"
    using member_end [OF assms(1), of src offset p] Cons.prems by simp
  have tail: "triple (\<lambda>s. begins tg rest (p @ ?m) s \<and> offset1 = offset + length ?m) (write_members env tg srcs offset1 cc a b)
      (\<lambda>(n, _). \<lambda>s. is_exactly tg rest (p @ layout env (src # srcs) offset) s \<and> n = length (p @ layout env (src # srcs) offset))
      (begins tg rest p) (begins tg rest p)" for offset1 cc a b
  proof (cases "offset1 = offset + length ?m")
    case True
    then have "triple (begins tg rest (p @ ?m)) (write_members env tg srcs offset1 cc a b)
        (\<lambda>(n, _). \<lambda>s. is_exactly tg rest ((p @ ?m) @ layout env srcs offset1) s \<and> n = length ((p @ ?m) @ layout env srcs offset1))
        (begins tg rest (p @ ?m)) (begins tg rest (p @ ?m))"
      using Cons.IH [of offset1 "p @ ?m" cc a b] Cons.prems by simp
    then show ?thesis by (rule triple_conseq) (use True begins_less in auto)
  qed (simp add: triple_def)
  show ?case unfolding write_members.simps
    by (rule triple_bind [OF head]) (use tail in \<open>auto split: prod.split\<close>)
qed

section \<open>What a recovery leaves\<close>

definition journal_for :: "append_env \<Rightarrow> nat \<Rightarrow> nat \<Rightarrow> nat \<Rightarrow> nat \<Rightarrow> bytes \<Rightarrow> content" where
  "journal_for env e z dev ino c = Json (journal_payload e z dev ino (tail_sha256 env e c))"

definition restored :: "nat \<Rightarrow> nat \<Rightarrow> bytes \<Rightarrow> bytes" where
  "restored e z c = (if z > e then take e c @ replicate (z - e) 0 else take e c @ TAR_EOF)"

definition holds :: "(nat \<times> nat \<times> bytes) option \<Rightarrow> content option \<Rightarrow> tar_fs \<Rightarrow> bool" where
  "holds tar journal s \<longleftrightarrow> tf_tar s = tar \<and> tf_journal s = journal"

text \<open>An append to \<open>c\<close> under way: the journal is there and the bytes below the old end are as they were.\<close>

definition pending :: "append_env \<Rightarrow> nat \<Rightarrow> nat \<Rightarrow> nat \<Rightarrow> nat \<Rightarrow> bytes \<Rightarrow> tar_fs \<Rightarrow> bool" where
  "pending env e z dev ino c s \<longleftrightarrow> e \<le> length c \<and> (\<exists>xs. holds (Some (dev, ino, take e c @ xs)) (Some (journal_for env e z dev ino c)) s)"

text \<open>The content that the tar has, or that the journal stands for.\<close>

definition settles :: "append_env \<Rightarrow> bytes \<Rightarrow> tar_fs \<Rightarrow> bool" where
  "settles env c s \<longleftrightarrow> (\<exists>dev ino. holds (Some (dev, ino, c)) None s) \<or> (\<exists>e z dev ino c0. pending env e z dev ino c0 s \<and> c = restored e z c0)"

lemma holds_counted [simp]: "holds tar j (counted s) = holds tar j s"
  by (simp add: holds_def counted_def)

lemma pending_counted [simp]: "pending env e z dev ino c (counted s) = pending env e z dev ino c s"
  by (simp add: pending_def)

lemma settles_counted [simp]: "settles env c (counted s) = settles env c s"
  by (simp add: settles_def)

















section \<open>The append\<close>






lemma triple_each: "(\<And>s. P s \<Longrightarrow> triple (\<lambda>t. t = s) m Q E K) \<Longrightarrow> triple P m Q E K"
  unfolding triple_def by simp



lemma holds_note [simp]: "holds tar j (note_clone_capability env tar_path sample cloned copied s) = holds tar j s"
  by (auto simp: note_clone_capability_def holds_def split: option.split)














section \<open>The alignment of headers\<close>

text \<open>
  The length of a pax header with a comment of \<open>pad\<close> characters, as the format gives it: a header block, the records padded to blocks
  and the block of the member itself. The record of the comment begins with its own length \<open>n\<close> in decimal, so it has
  \<open>pad + 10\<close> characters beside the digits of \<open>n\<close>; \<open>others\<close> are the characters of the other records.
\<close>

definition pax_length :: "nat \<Rightarrow> (nat \<Rightarrow> bytes) \<Rightarrow> bool" where
  "pax_length others tobuf \<longleftrightarrow> (\<forall>pad. \<exists>n. n = pad + 10 + length (show_nat n) \<and> length (tobuf pad) = 1024 + 512 * ((others + n + 511) div 512))"

lemma digits:
  "n < 10 \<Longrightarrow> length (show_nat n) = 1" "10 \<le> n \<Longrightarrow> n < 100 \<Longrightarrow> length (show_nat n) = 2" "100 \<le> n \<Longrightarrow> n < 1000 \<Longrightarrow> length (show_nat n) = 3"
  "1000 \<le> n \<Longrightarrow> n < 10000 \<Longrightarrow> length (show_nat n) = 4"
proof -
  have more: "length (show_nat n) = Suc (length (show_nat (n div 10)))" if "10 \<le> n" for n using that by (subst show_nat.simps) simp
  show one: "n < 10 \<Longrightarrow> length (show_nat n) = 1" for n by (subst show_nat.simps) simp
  show two: "10 \<le> n \<Longrightarrow> n < 100 \<Longrightarrow> length (show_nat n) = 2" for n using more [of n] one [of "n div 10"] by simp
  show three: "100 \<le> n \<Longrightarrow> n < 1000 \<Longrightarrow> length (show_nat n) = 3" for n using more [of n] two [of "n div 10"] by simp
  show "1000 \<le> n \<Longrightarrow> n < 10000 \<Longrightarrow> length (show_nat n) = 4" using more [of n] three [of "n div 10"] by simp
qed

lemma digits_half: "4 * length (show_nat n) \<le> n + 12"
proof (induction n rule: less_induct)
  case (less n)
  show ?case
  proof (cases "n < 10")
    case True
    then show ?thesis using digits(1) [of n] by simp
  next
    case False
    then show ?thesis using less [of "n div 10"] by (subst show_nat.simps) simp
  qed
qed

text \<open>The length of the record for the comments that the loop tries.\<close>

lemma record_length:
  assumes "n = pad + 10 + length (show_nat n)"
  shows "pad = 0 \<Longrightarrow> n = 12" "pad = 512 \<Longrightarrow> n = 525" "1024 \<le> pad \<Longrightarrow> pad \<le> 9000 \<Longrightarrow> n = pad + 14"
proof -
  have le: "3 * n \<le> 4 * pad + 52" using digits_half [of n] assms by linarith
  have ge: "pad + 10 \<le> n" using assms by linarith
  show "n = 12" if "pad = 0" using digits(2) [of n] assms le ge that by simp
  show "n = 525" if "pad = 512" using digits(3) [of n] assms le ge that by simp
  show "n = pad + 14" if "1024 \<le> pad" "pad \<le> 9000"
  proof (cases "n < 10000")
    case True
    then show ?thesis using digits(4) [of n] assms ge that by simp
  next
    case False
    have "length (show_nat n) = 5"  if "10000 \<le> n" "n < 100000"
      using that digits(4) [of "n div 10"] by (subst show_nat.simps) simp
    then show ?thesis using False le assms \<open>pad \<le> 9000\<close> by simp
  qed
qed

lemma pad_blocks: "pad_to ALIGN (512 * h) = 512 * ((8 - h mod 8) mod 8)"
proof -
  have "4096 - 512 * h mod 4096 = 512 * (8 - h mod 8)" using mult_mod_right [of 512 h 8] by (simp add: diff_mult_distrib2)
  then show ?thesis using mult_mod_right [of 512 "8 - h mod 8" 8] by (simp add: pad_to_def ALIGN_def)
qed

lemma blocks_grow: "(x + 512 * m + d) div 512 = x div 512 + m + (x mod 512 + d) div (512 :: nat)"
proof -
  have "x + 512 * m + d = x mod 512 + d + 512 * (x div 512 + m)" by (simp add: algebra_simps)
  then show ?thesis by (simp only: div_mult_self2)
qed

text \<open>C40: The loop that pads a header always ends within its bound, and the data of the member starts at a multiple of 4096: the length in
  the record of the comment gets longer at most three times.
\<close>

theorem headers_align:
  assumes "pax_length others (ae_tobuf env src)" "offset mod BLOCK = 0"
  shows "\<exists>hdr. header_tries env src offset ALIGN_PAD_MAX_TRIES 0 = Some hdr \<and> (offset + length hdr) mod ALIGN = 0"
proof -
  let ?t = "ae_tobuf env src"
  obtain N where N: "\<And>p. N p = p + 10 + length (show_nat (N p))" "\<And>p. length (?t p) = 1024 + 512 * ((others + N p + 511) div 512)"
    using assms(1) unfolding pax_length_def by metis
  define h where "h p = offset div 512 + 2 + (others + N p + 511) div 512" for p
  have h: "offset + length (?t p) = 512 * h p" for p
    using assms(2) mult_div_mod_eq [of 512 offset] by (simp add: h_def N(2) BLOCK_def algebra_simps)
  have step: "header_tries env src offset (Suc n) p =
      (if h p mod 8 = 0 then Some (?t p) else header_tries env src offset n (p + 512 * (8 - h p mod 8)))" for n p
    by (simp add: Let_def h pad_blocks)
  have grow: "h (p + 512 * m) \<in> {h p + m, h p + m + 1} \<and> (d = 0 \<longrightarrow> h (p + 512 * m) = h p + m)"
    if "N (p + 512 * m) = N p + 512 * m + d" "d \<le> 2" for p m d
  proof -
    let ?x = "others + N p + 511"
    have "others + N (p + 512 * m) + 511 = ?x + 512 * m + d" using that(1) by simp
    then have "h (p + 512 * m) = h p + m + (?x mod 512 + d) div 512" by (simp only: h_def blocks_grow)
    moreover have "(?x mod 512 + d) div 512 < 2" using that(2) by (simp add: div_less_iff_less_mult)
    moreover have "d = 0 \<Longrightarrow> (?x mod 512 + d) div 512 = 0" by simp
    ultimately show ?thesis by auto
  qed
  have ok: ?thesis if "header_tries env src offset ALIGN_PAD_MAX_TRIES 0 = Some (?t p)" "h p mod 8 = 0" for p
    using that h [of p] mult_mod_right [of 512 "h p" 8] by (simp add: ALIGN_def)
  have tries: "ALIGN_PAD_MAX_TRIES = Suc (Suc (Suc (Suc 12)))" by (simp add: ALIGN_PAD_MAX_TRIES_def)
  note rec = record_length [OF N(1)]
  have N0: "N 0 = 12" using rec(1) by simp
  have turn: "h (p + 512 * (8 - h p mod 8)) mod 8 \<in> {0, 1}" "d = 0 \<Longrightarrow> h (p + 512 * (8 - h p mod 8)) mod 8 = 0"
    if "N (p + 512 * (8 - h p mod 8)) = N p + 512 * (8 - h p mod 8) + d" "d \<le> 2" for p d
  proof -
    have "(h p + (8 - h p mod 8)) mod 8 = 0" by presburger
    with grow [OF that] show "h (p + 512 * (8 - h p mod 8)) mod 8 \<in> {0, 1}" "d = 0 \<Longrightarrow> h (p + 512 * (8 - h p mod 8)) mod 8 = 0"
      by (auto simp: mod_Suc)
  qed
  show ?thesis
  proof (cases "h 0 mod 8 = 0")
    case True
    then show ?thesis by (intro ok [of 0]) (simp_all only: tries step if_True refl)
  next
    case h0: False
    define m where "m = 8 - h 0 mod 8"
    have m: "1 \<le> m" "m \<le> 7" using h0 by (auto simp: m_def)
    have N1: "N (512 * m) = 12 + 512 * m + (if m = 1 then 1 else 2)"
      using rec(2) [of "512 * m"] rec(3) [of "512 * m"] m by (cases "m = 1") simp_all
    have h1: "h (512 * m) mod 8 \<in> {0, 1}"
      using turn(1) [of 0 "if m = 1 then 1 else 2"] N1 by (simp add: N0 m_def [symmetric])
    have first: "header_tries env src offset ALIGN_PAD_MAX_TRIES 0 = header_tries env src offset (Suc (Suc (Suc 12))) (512 * m)"
      unfolding tries step [of "Suc (Suc (Suc 12))"] using h0 by (simp only: if_False m_def add_0)
    show ?thesis
    proof (cases "h (512 * m) mod 8 = 0")
      case True
      then show ?thesis by (intro ok [of "512 * m"]) (simp_all only: first step if_True refl)
    next
      case False
      then have k1: "8 - h (512 * m) mod 8 = 7" using h1 by simp
      define p where "p = 512 * m + 512 * 7"
      have N2: "N p = N (512 * m) + 512 * 7 + (if m = 1 then 1 else 0)"
        using rec(3) [of p] N1 m by (cases "m = 1") (simp_all add: p_def)
      note h2 = turn [of "512 * m", unfolded k1, folded p_def, OF N2]
      have second: "header_tries env src offset ALIGN_PAD_MAX_TRIES 0 = header_tries env src offset (Suc (Suc 12)) p"
        unfolding first step [of "Suc (Suc 12)"] using False by (simp only: if_False k1 p_def)
      show ?thesis
      proof (cases "h p mod 8 = 0")
        case True
        then show ?thesis by (intro ok [of p]) (simp_all only: second step if_True refl)
      next
        case False
        then have "m = 1" "8 - h p mod 8 = 7" using h2 by (cases "m = 1"; simp)+
        then have k2: "8 - h p mod 8 = 7" and p: "p = 4096" by (simp_all add: p_def)
        have N3: "N (p + 512 * 7) = N p + 512 * 7 + 0" using rec(3) [of p] rec(3) [of "p + 512 * 7"] p by simp
        have "h (p + 512 * 7) mod 8 = 0" using turn(2) [of p, unfolded k2, OF N3] by simp
        moreover have "header_tries env src offset ALIGN_PAD_MAX_TRIES 0 = header_tries env src offset (Suc 12) (p + 512 * 7)"
          unfolding second step [of "Suc 12"] using False by (simp only: if_False k2)
        ultimately show ?thesis by (intro ok [of "p + 512 * 7"]) (simp_all only: step if_True refl)
      qed
    qed
  qed
qed


lemma digits_mono: "m \<le> n \<Longrightarrow> length (show_nat m) \<le> length (show_nat n)"
proof (induction n arbitrary: m rule: less_induct)
  case (less n)
  show ?case
  proof (cases "m < 10")
    case True
    moreover have "length (show_nat n) > 0" by (subst show_nat.simps) simp
    ultimately show ?thesis using digits(1) [of m] by (simp add: Suc_le_eq)
  next
    case False
    then have "length (show_nat (m div 10)) \<le> length (show_nat (n div 10))" using less.prems by (intro less.IH) (simp_all add: div_le_mono)
    then show ?thesis using False less.prems by (subst (1 2) show_nat.simps) simp
  qed
qed

definition pax_record :: "nat \<Rightarrow> nat" where
  "pax_record l = (LEAST n. n \<ge> l + length (show_nat n))"

lemma pax_record: "pax_record l = l + length (show_nat (pax_record l))"
proof -
  let ?P = "\<lambda>n. n \<ge> l + length (show_nat n)"
  have "?P (2 * l + 4)" using digits_half [of "2 * l + 4"] by linarith
  then have P: "?P (pax_record l)" unfolding pax_record_def by (rule LeastI)
  have "\<not> l + length (show_nat (pax_record l)) < pax_record l"
  proof
    assume less: "l + length (show_nat (pax_record l)) < pax_record l"
    then have "?P (pax_record l - 1)" using digits_mono [of "pax_record l - 1" "pax_record l"] by simp
    then have "pax_record l \<le> pax_record l - 1" unfolding pax_record_def by (rule Least_le)
    with less show False by simp
  qed
  with P show ?thesis by simp
qed

definition demo_source :: source where
  "demo_source = \<lparr>so_path = ''/raw/a'', so_size = 2, so_data = [5, 6]\<rparr>"

text \<open>Everything works but the calls that \<open>fates\<close> lists; a tar of zeros has no members.\<close>

definition append_demo :: "(nat \<times> fate) list \<Rightarrow> (nat \<Rightarrow> bytes) \<Rightarrow> append_env" where
  "append_demo fates tobuf = \<lparr>ae_fate = (\<lambda>n. case map_of fates n of None \<Rightarrow> Works | Some f \<Rightarrow> f), ae_tobuf = (\<lambda>_. tobuf), ae_walk = (\<lambda>_. Inr 0),
     ae_sha256 = (\<lambda>_. ''h''), ae_open = (\<lambda>_. Some demo_source), ae_identity = (1, 3), ae_journal_errno = None, ae_device = (\<lambda>_. None),
     ae_probe = (\<lambda>_. False), ae_cwd = ''/''\<rparr>"

definition demo_header :: "nat \<Rightarrow> bytes" where
  "demo_header pad = replicate (1024 + 512 * ((pax_record (pad + 10) + 511) div 512)) 7"

lemma demo_pax: "pax_length 0 demo_header"
  unfolding pax_length_def demo_header_def using pax_record by auto

theorem headers_align_witness:
  "\<exists>hdr. header_tries (append_demo [] demo_header) demo_source 1024 ALIGN_PAD_MAX_TRIES 0 = Some hdr \<and> (1024 + length hdr) mod ALIGN = 0"
  by (rule headers_align [of 0]) (simp_all add: append_demo_def demo_pax BLOCK_def)



section \<open>A new tar\<close>

text \<open>The first append of a day: nothing is at the place of the tar until the whole tar is there.\<close>

lemma new_tar_ok:
  assumes "no_short env" "\<forall>src \<in> set srcs. not_shrunk src"
  defines "new \<equiv> Some (fst (ae_identity env), snd (ae_identity env), layout env srcs 0)"
  shows "triple (holds None None) (create_new_tar env srcs) (\<lambda>_. holds new None) (\<lambda>s. holds None None s \<or> holds new None s) (\<lambda>s. holds None None s \<or> holds new None s)"
    (is "triple ?P _ ?Q ?E ?E")
proof -
  let ?N = "holds new None" and ?T = "\<lambda>s. ?P s \<and> tf_tmp s \<noteq> None" and ?W = "\<lambda>s. ?P s \<and> tf_tmp s = Some (layout env srcs 0)"
  have temp: "triple ?P (quick_call env (\<lambda>s. s\<lparr>tf_tmp := Some []\<rparr>)) (\<lambda>_. ?T) ?E ?E"
    by (rule triple_quick) (simp_all add: holds_def counted_def)
  have filled: "triple ?T (write_members env Temp srcs 0 True 0 0) (\<lambda>_. ?W) ?E ?E"
  proof (rule triple_each)
    fix s assume s: "?T s"
    have other: "tf_tar t = None \<and> tf_journal t = None" if "others_of Temp t = others_of Temp s" for t
      using s arg_cong [OF that, of tf_tar] arg_cong [OF that, of tf_journal] by (simp add: holds_def)
    have "?P t" if "begins Temp (others_of Temp s) [] t" for t
      using other [of t] that by (simp add: begins_def holds_def del: others_of.simps get_bytes.simps)
    moreover have "?W t" if "is_exactly Temp (others_of Temp s) (layout env srcs 0) t" for t
    proof
      show "?P t" using other [of t] that by (simp add: is_exactly_def holds_def del: others_of.simps get_bytes.simps)
      show "tf_tmp t = Some (layout env srcs 0)" using that by (cases "tf_tmp t") (simp_all add: is_exactly_def del: others_of.simps)
    qed
    moreover have "begins Temp (others_of Temp s) [] s" using s by (cases "tf_tmp s") (simp_all add: begins_def)
    ultimately show "triple (\<lambda>t. t = s) (write_members env Temp srcs 0 True 0 0) (\<lambda>_. ?W) ?E ?E"
      by (intro triple_conseq [OF members_end [OF assms(1,2), of 0 "[]" Temp "others_of Temp s"]]) auto
  qed
  have link: "triple ?W (link_new_tar env) (\<lambda>_. ?N) ?E ?E"
    by (auto simp: triple_def link_new_tar_def holds_def quick_call_def counted_def new_def split: fate.split)
  have synced: "triple ?W (fsync_call env) (\<lambda>_. ?W) ?E ?E" "triple ?N (fsync_call env) (\<lambda>_. ?N) ?E ?E"
    unfolding fsync_call_def by (rule triple_quick; auto)+
  have drop: "triple ?E (drop_temp env) (\<lambda>_. ?E) ?E ?E" "triple ?N (drop_temp env) (\<lambda>_. ?N) ?E ?E"
    by (auto simp: triple_def drop_temp_def io_except_def quick_call_def io_return_def holds_def counted_def split: fate.split)
  have body: "triple ?T (io_bind (write_members env Temp srcs 0 True 0 0) (\<lambda>r. io_then (fsync_call env) (io_then (link_new_tar env) (io_return r)))) ?Q ?E ?E"
    by (rule triple_bind [OF filled], rule triple_then [OF synced(1)], rule triple_then [OF link], rule triple_return)
  have undo: "triple ?E (io_then (drop_temp env) (io_raise err)) ?Q ?E ?E" for err
    by (rule triple_then [OF drop(1)], rule triple_raise)
  show ?thesis unfolding create_new_tar_def
    by (rule triple_then [OF temp], rule triple_bind [OF triple_except [OF body undo]], rule triple_then [OF drop(2)], rule triple_then [OF synced(2)], rule triple_return)
qed

text \<open>
  While nothing is at the place of the tar, \<open>_create_new_tar\<close> puts there the whole tar or nothing, and when it returns the tar is there.
\<close>

theorem new_tar_all_or_nothing:
  assumes "no_short env" "\<forall>src \<in> set srcs. not_shrunk src" "tf_tar s = None" "tf_journal s = None" "create_new_tar env srcs s = (r, t)"
  shows "tf_journal t = None \<and>
    (tf_tar t = None \<and> (\<nexists>x. r = Val x) \<or> tf_tar t = Some (fst (ae_identity env), snd (ae_identity env), layout env srcs 0))"
proof -
  note run = tripleD [OF new_tar_ok [OF assms(1,2)] _ assms(5)]
  show ?thesis using run assms(3,4) by (cases r) (auto simp: holds_def)
qed

section \<open>Short writes\<close>

lemma pwrite_beyond: "pwrite_bytes d (length p + n) p = (if d = [] then p else p @ replicate n 0 @ d)"
  by (simp add: pwrite_bytes_def)

lemma works_write: "ae_fate env (tf_calls s) = Works \<Longrightarrow> write_call env tg d off s = (Val (), upd_bytes tg (pwrite_bytes d off) (counted s))"
  by (simp add: write_call_def)

text \<open>
  The count that \<open>os.pwrite\<close> returns is not looked at. When it wrote only \<open>k\<close> bytes of the header and the data can be cloned, which needs no space,
  the member counts as written although the rest of its header is a hole of zeros.
\<close>

lemma short_header_is_accepted:
  assumes "is_open tg s" "get_bytes tg s = p" "header_tries env src (length p) ALIGN_PAD_MAX_TRIES 0 = Some hdr"
    and "ae_fate env (tf_calls s) = Short k" "k \<le> length hdr" "\<forall>i > tf_calls s. ae_fate env i = Works"
    and "so_size src = length (so_data src)" "so_data src \<noteq> []" "(length p + length hdr + so_size src) mod BLOCK = 0"
  shows "\<exists>t. write_member env tg src (length p) True 0 0 s = (Val (length p + length hdr + so_size src, True, 1, 0), t) \<and>
    get_bytes tg t = p @ take k hdr @ replicate (length hdr - k) 0 @ so_data src"
proof -
  define s1 where "s1 = upd_bytes tg (pwrite_bytes (take k hdr) (length p)) (counted s)"
  have head: "write_call env tg hdr (length p) s = (Val (), s1)" using assms(4) by (simp add: write_call_def s1_def)
  have calls: "tf_calls s1 = Suc (tf_calls s)" by (cases tg) (simp_all add: s1_def upd_bytes_def counted_def)
  have b1: "is_open tg s1" "get_bytes tg s1 = p @ take k hdr"
    using assms(1,2) pwrite_beyond [of "take k hdr" p 0] by (auto simp: s1_def)
  define s2 where "s2 = upd_bytes tg (pwrite_bytes (so_data src) (length p + length hdr)) (counted s1)"
  have clone: "write_call env tg (so_data src) (length p + length hdr) s1 = (Val (), s2)"
    using assms(6) calls by (simp add: write_call_def s2_def)
  have "get_bytes tg s2 = p @ take k hdr @ replicate (length hdr - k) 0 @ so_data src"
    using b1 pwrite_beyond [of "so_data src" "p @ take k hdr" "length hdr - k"] assms(5,8) by (simp add: s2_def)
  moreover have "write_member env tg src (length p) True 0 0 s = (Val (length p + length hdr + so_size src, True, 1, 0), s2)"
    using assms(3,7,8,9) head clone
    by (simp add: write_member_def build_member_header_def io_bind_def io_then_def io_return_def Let_def try_clone_def clone_range_def io_except_def
        pad_call_def pad_to_def)
  ultimately show ?thesis by blast
qed

end
