(* ===== verification/Spec2Isabelle.thy ===== *)
theory Spec2Isabelle
  imports Job_Props Discover Parser_Windows Ingest_Gate File_Lock Day_Batches Space_Props Clone_Props
begin

text \<open>
  A verification of the file discovery, the job queues, the raw file parser, the ingest marks, the archive
  gate, the file locks, the sealed member maps, the removal of raw files, the journaled appends to the tars and the sidecar files of the \<open>sync_timedb\<close> ingest pipeline of HPCPerfStats (directory
  \<open>hpcperfstats/dbload/lib\<close>).

  \<^bold>\<open>The program.\<close> Node daemons write raw statistics files into an archive directory. One
  process, the \<open>sync_timedb\<close> orchestrator, finds the files, loads them into a time-series
  database, appends them to daily tar files and closes the days. Its work is split into jobs
  (discover, ingest, append, day close) that live in one in-process store,
  \<open>SyncTimedbJobStore\<close> in \<open>sync_timedb_job_store.py\<close>: coordinator threads enqueue and claim jobs
  under a lock, a claim carries an owner token and a deadline, expired or orphaned claims go back
  to their queue, and jobs that fail too often become dead letters with a cooldown. The queued jobs
  are mirrored into a shadow state that a writer thread (\<open>sync_timedb_write_behind.py\<close>) saves to a
  JSON sidecar (\<open>sync_timedb_persistence.py\<close>, \<open>sync_timedb_manifest_contract.py\<close>); a restart loads
  it again. The queues are filled by walks over the archive (\<open>sync_timedb_job_discover.py\<close>): the records
  of a \<open>stat\<close> run (\<open>sync_timedb_stats_find.py\<close>) are classified by what is still to be done for a file
  (\<open>sync_timedb_job_reconstruct.py\<close>), files of old days share a bounded queue with a frontier day, and the
  number of jobs each day still has is kept beside (\<open>sync_timedb_append_day_lists.py\<close>). An ingest job looks for
  the first sample of its file the database does not have, parses the file in windows
  (\<open>sync_timedb_parsing.py\<close>, \<open>sync_timedb_parsing_legacy.py\<close>, \<open>monitor_mark_side_ingest.py\<close>) and, when it has
  finished, leaves a durable mark (\<open>sync_timedb_file_complete_ingest_mark.py\<close>,
  \<open>sync_timedb_zero_host_ingest_mark.py\<close>). Before a raw file is archived or removed a gate asks for such a
  mark or for its samples in the database (\<open>sync_timedb_ingest_readiness.py\<close>, \<open>sync_timedb_host_itimes.py\<close>). Tars
  and raw files are guarded by locks on sidecar files (\<open>file_locking.py\<close>). Raw files are appended to the tar of their day under
  a journal, with cloned blocks where the file system can (\<open>sync_timedb_tar_clone_append.py\<close>). A closed day's tar is compressed into
  a sealed archive; what it contains is kept in map documents bound to the identity of the archive file
  (\<open>sync_timedb_sealed_member_map.py\<close>, names and reconciliation in \<open>archive_compress.py\<close>). The raw files of the day are
  then removed by a state machine with a manifest on disk (\<open>_DayRawRemovalState\<close> in
  \<open>sync_timedb_day_raw_removal.py\<close>): they are verified against the tar in batches, deleted when the sealed archive has
  them, and handed back to ingest when they are not done. When the archive runs out of space
  (\<open>sync_timedb_space_pressure.py\<close>) appends and restores wait for the closing of days. This development
  models these modules and proves what the rest of the pipeline relies on: no job is lost or claimed
  twice, claims come in the right order, only the owner ends a claim, what was saved is what a
  restart finds, a walk queues every old file before its frontier, cutting a file into windows changes nothing
  of what is loaded, a file is marked and archived only on evidence, a lock has one writer, an append
  that is interrupted leaves the old tar or the whole new one, a member map that is used is
  that of the archive on disk, and a raw file is removed only when it was verified unchanged and lies in the sealed archive.

  \<^bold>\<open>The theories\<close>, in the order in which they build on each other:

  \<^item> \<open>Py_Prelude\<close>: Python values (dicts as association lists with insertion order, strings, \<open>int()\<close>,
    \<open>split\<close>, calendar days as ordinals, \<open>heapq\<close> as sorted lists), the exceptions as the datatype
    \<open>py_error\<close>, the generic lemmas, and two locales: what a lazy heap gives (\<open>min_queue\<close>) and
    transition systems with an invariant (\<open>invariant_system\<close>).
  \<^item> \<open>Persistence\<close>: JSON values and a file system as a map; \<open>artifact_path\<close>, the envelopes,
    \<open>load_persistence_document\<close>, \<open>save_persistence_document\<close>, \<open>reset_sync_timedb_persistence\<close>,
    \<open>ensure_persistence_contract\<close>, and the manifest registry. Lemmas: what sorting keys
    preserves, the round trip of the list sidecars, the cases of the contract gate.
  \<^item> \<open>Job_Score\<close>: scores of ingest jobs (band, day, tie-break), deferral, capacity and slot limits.
    Lemmas: the day survives encoding and any number of deferrals, days and bands never mix.
  \<^item> \<open>Lease_Owner\<close>: owner tokens, boot ids, job identities as normalized paths. Lemmas: token round
    trip, normalization is idempotent.
  \<^item> \<open>Write_Behind\<close>: the writer thread and its clients as the step relation \<open>wb_step\<close>, cut at every
    point where the condition variable is released. Lemmas: two invariants by rule induction, and
    from them the durability of a clean flag and of a flush; progress of the thread.
  \<^item> \<open>Job_Store\<close>: the store's record and every operation of the class and of the functions on it, the
    snapshot writer and the loader included.
  \<^item> \<open>Job_Store_Inv\<close>: the invariant \<open>js_inv\<close> (the lazy heaps cover the queue, counters exact,
    leases and in-flight table agree, payloads and shadow state mirror the queue), each
    operation's effect on the fields, and its preservation.
  \<^item> \<open>Job_Board\<close>, \<open>Job_Ops\<close>: the abstract specification, a board with the queued scores, the lists,
    the claims and the payload fields, and refinement lemmas \<open>board (op s) = board_op (board s)\<close>;
    the locale \<open>owner_guarded\<close> states once what ack, requeue and renew share.
  \<^item> \<open>Job_Steps\<close>: every operation as a step \<open>job_step\<close> with the event that it means for the set of jobs,
    and conservation of jobs over runs.
  \<^item> \<open>Job_Restart\<close>: reading a snapshot back, restarts as steps, reachability.
  \<^item> \<open>Job_Props\<close>: the properties of the store over all reachable states.
  \<^item> \<open>Dead_Letter\<close>: dead letters with cooldowns, readmission and trimming, and their step relation.
  \<^item> \<open>Entry_Store\<close>: \<open>WriteBehindEntryStore\<close>, the in-memory master of a sidecar that merges with other
    writers, as operations and as interleavings of the pieces of a write.

  \<^item> \<open>Calendar\<close>: calendar days from year, month and day, their ISO text and its round trip, \<open>daterange\<close>.
  \<^item> \<open>Stats_Find\<close>: the records of \<open>fd -X stat\<close> read from chunks of output, the selection of records for a
    date range and for a job's window, the fingerprint caches. Lemmas: the chunks do not matter, the
    format is read back, the window of each host is exact.
  \<^item> \<open>Append_Days\<close>: the append claims parked by day (\<open>AppendDayClaimLists\<close>) and the remainders of each day.
    Lemmas: every day is a queue of its own, a rebuild counts exactly.
  \<^item> \<open>Reconstruct\<close>: completeness predicates, the plan of a closed file, and the functions that queue its
    jobs and a day's close, over one state of job store, remainders and dead letters. Lemmas: the
    composition keeps the invariants of all three and reports truly.
  \<^item> \<open>Discover\<close>: the walk. Its loop that makes room is a total function (each eviction shrinks the queue).
    Lemmas: what one turn of the walk keeps, from which the soundness of the frontier follows by
    induction over the records; two small walks are evaluated.

  \<^item> \<open>Sample_Lines\<close>: the lines of a raw file, its sample headers, the scan for the first sample to load and
    the readers of the end of a file in blocks. Lemmas: blocks find what lines find, no unknown sample lies
    before the start.
  \<^item> \<open>Stats_Rows\<close>: compiled schemas, the columns of values, process rows with peaks, counters of old monitors.
    Lemmas: merged rows and peaks are exact, in one run and against the database.
  \<^item> \<open>Stats_Parser\<close>: \<open>IncrementalStatsParser\<close> and its drivers over lines, batches and windows.
  \<^item> \<open>Parser_Windows\<close>: the parser's well-formedness, what a window hands on, and that the windows together are the
    whole parse.
  \<^item> \<open>File_Lock\<close>: lock, try lock, read lock, reset and cleanup as the system calls of any number of callers on a
    sidecar, with dying processes. Lemmas: an invariant by rule induction, from it mutual exclusion and that only
    a file's only locker removes it; progress of a lone waiter, the end of waiting; the cleanups.
  \<^item> \<open>Ingest_Marks\<close>: both mark modules over \<open>Entry_Store\<close> and \<open>Persistence\<close>. The locale \<open>mark_table\<close> states what a
    client of marks relies on and is interpreted for both sidecars.
  \<^item> \<open>Ingest_Gate\<close>: the lookups of seconds in the database and the gate. The locale \<open>ttl_cache\<close> says what an answer
    taken from a cache of dated answers is worth, and is interpreted for the four caches of the program. Lemmas: the window
    scan and the probes agree, every ready file has its evidence and how old it can be.

  \<^item> \<open>Sealed_Members\<close>: names of archives, member maps and the decision between a tar and its sealed file
    (\<open>archive_compress.py\<close>); map documents, their cache, lookup, rebuild worker, census and integrity sweep
    (\<open>sync_timedb_sealed_member_map.py\<close>). Reseals, removals, rebuilds that are overtaken, lost documents, restarts and sweeps
    are the steps of a relation; \<open>invariant_system\<close> is interpreted for it. Lemmas: a map that is returned is that of the
    archive on disk, reconciling loses no member, the sweep reaches every archive, and what a damaged document does.
  \<^item> \<open>Effects\<close>: operations that read and change a state and may raise. The locale \<open>effect_order\<close> states, for a
    reflexive and transitive relation on states, that an operation leads along it, with the rules for sequences, branches and loops.
  \<^item> \<open>Day_Removal\<close>: the record of a day (manifest and its sidecar, entries, memos), the world it works on (files, sealed maps,
    caches of the gate), and every method of \<open>_DayRawRemovalState\<close> with the functions of \<open>sync_timedb_archive_helpers.py\<close> it calls. The loop over
    the batches of a day ends because each turn moves the position.
  \<^item> \<open>Day_Removal_Props\<close>: the locale \<open>day_order\<close> (an order that saving, memos and bookkeeping respect), interpreted
    for the origin of the entries, for the files that may change and, in \<open>Day_Verify\<close>, for the list of entries. Runs of calls, changes of the world and
    restarts. Lemmas: where the evidence of each entry comes from, what a delete pass removes.
  \<^item> \<open>Day_Verify\<close>: the use of the ingest gate in the pass before sealing, what the delete phase does not read, and what a day that is
    done leaves on disk.
  \<^item> \<open>Day_Batches\<close>: bounded calls of the verify pass against one unbounded call.

  \<^item> \<open>Space_Pressure\<close>: the free space of the archive (\<open>sync_timedb_space_pressure.py\<close>): the pressure flag with its two
    thresholds, the choice of the day that gets appends, reservations, the restore slot, and the size in a zstd frame header, whose
    encoding it states and reads back.
  \<^item> \<open>Space_Props\<close>: when the turn passes to another day, who may hold the restore slot, and that reservations keep the hard
    reserve; the last two interpret \<open>invariant_system\<close> for step relations over state, files and work under way. Two races are evaluated.

  \<^item> \<open>Clone_Append\<close>: the append of raw files to a tar (\<open>sync_timedb_tar_clone_append.py\<close>) as a sequence of system calls, each of which
    works, writes a part, fails or is the last of a stopped process: journal, recovery, headers, cloned and copied data, new tars.
  \<^item> \<open>Clone_Props\<close>: triples with three postconditions (returned, raised, stopped) and their rules. Lemmas: what every piece of an append
    keeps of the tar and its journal, so that the next recovery has the old or the new content; the padding of headers converges; what
    happens when the count of a short write is ignored.

  This theory adds the property that spans scores, queue and claims.

  \<^bold>\<open>Conventions.\<close> A method is a function of its arguments and the state and returns the result and the
  new state; what the code does under one lock is one function. Raised exceptions are \<open>Inl\<close>
  values. The clock, INI values, host name, PIDs, digests, directory permissions and \<open>stat\<close> results
  are arguments. Scores, times and deadlines are exact rationals: the scores the program makes are
  integers far below \<open>2 ^ 53\<close>, so a Python float holds them exactly. The only loop that may not
  end, that of \<open>claim_ingest\<close>, is a \<open>partial_function\<close> with \<open>None\<close> for a run that never returns; that
  it returns is part of what is proved. No fuel is used: the bound of sixteen tries when a header is padded is the code's own, and that it is enough is proved. A walk runs alone on its state: jobs claimed by
  other threads while it runs are not interleaved with it. Raw files are ASCII text without carriage returns.
  Numbers read from them are rationals or infinities; the compiled parser, which the code uses when it is
  installed, and the tables of canonical names are arguments of the parser. The number of an inode is used
  again only when no descriptor is open on it. A call of the gate reads the clock once and sees one state of
  files, marks and database. A database query of the time-window scan may fail; other queries answer. A method of the raw
  removal sees one state of the files apart from its own changes; other processes change them between calls.

  \<^bold>\<open>Reachable states.\<close> A state is reachable when any sequence of operations and restarts leads to it
  from an empty store, in any order and with any arguments, except that scores are integers and
  list jobs are enqueued with \<open>dedupe=True\<close>, as every caller of the program does. The two
  properties about \<open>ack\<close> and non-deduplicated jobs and about misspelt band names show what happens
  outside the intended use.

  \<^bold>\<open>Not modelled.\<close> Logging, progress reports and the creation of directories; the text of numbers and containers inside a damaged snapshot (a parameter of the loader);
  the registry of writers and its shutdown barrier; the subprocesses of the discovery, whose output is
  the input of the model; the tar and database lookups behind the completeness predicates, whose
  verdicts are parameters; the pandas frames made of parsed rows (deltas, arcs, collapse), stage timing, the
  compiled Codon parser and the COPY statements of the loaders; the reuse of mark entries in
  \<open>sync_timedb_mark_entries_cache.py\<close>, which nothing but tests uses; the coordinator that schedules the raw removal of days
  (\<open>DayRawRemovalCoordinator\<close>), and the verdicts of tar and zstd on an archive, which are arguments; the walk of \<open>tarfile\<close>
  to the end of the members and the header bytes it makes (arguments; their length is the one documented for pax records), owner names and the timing of
  appends, the temporary file of a journal. Of the rest of the repository: the C monitor, the
  listener, the web site, the metrics and plots, accounting, and the parts of the orchestrator that run jobs.

  \<^bold>\<open>Left for an extension.\<close> The coordinator of the raw removal, the store of archive members, and the queue
  orchestrator, which calls the modelled modules from many threads.
\<close>

section \<open>Scores, queue and claims together\<close>

definition demo_backfill :: job_store where
  "demo_backfill = snd (zadd_ingest demo_cfg ''/raw/d'' (of_int 1000000740000005) None False demo_catchup)"

lemma demo_backfill_reachable: "reachable demo_cfg demo_backfill"
proof -
  have "zadd_ingest demo_cfg ''/raw/d'' (of_int 1000000740000005) None False demo_catchup = (1, demo_backfill)"
    unfolding demo_backfill_def by (rule prod_eqI; simp add: demo_catchup_def; code_simp)
  then show ?thesis by (rule reachable_step [OF demo_reachable(3) job_step.zadd_new])
qed

lemma demo_backfill_ingest:
  "js_ingest demo_backfill = [(''/raw/c'', 1000000739000005), (''/raw/d'', 1000000740000005)]"
  by code_simp

text \<open>C31: Backfill drains oldest day first, from the encoded score to the claim. In every reachable
  state in which a file of an earlier day and a file of a later day are queued in the catchup band,
  each with its encoded score after any number of deferrals, a claim that takes the later file takes
  the earlier one too, and before it.
\<close>

theorem backfill_oldest_day_first:
  assumes "reachable cfg s" "ow \<noteq> []" "1 \<le> m" "day1 < day2" "date_ok day1"
    and "encode_ingest_score sha1 ''catchup'' day1 today i1 = Inr v1"
    and "encode_ingest_score sha1 ''catchup'' day2 today i2 = Inr v2"
    and "ingest_score i1 s = Some (((\<lambda>x. penalize_ingest_score (Some x)) ^^ a) (of_int v1))"
    and "ingest_score i2 s = Some (((\<lambda>x. penalize_ingest_score (Some x)) ^^ b) (of_int v2))"
    and "claim_ingest cfg now ''catchup'' ow ttl m s = Some (Inr (claims, t))" "i2 \<in> cj_identity ` set claims"
  shows "\<exists>xs ys zs. map cj_identity claims = xs @ i1 # ys @ i2 # zs"
proof -
  let ?r = "ranked ''catchup'' (map_of (js_ingest s))"
  let ?p = "\<lambda>n v. ((\<lambda>x. penalize_ingest_score (Some x)) ^^ n) (of_int v)"
  have ids: "map cj_identity claims = map snd (take (nat m) ?r)"
    using claim_ingest_spec [OF reachable_inv [OF assms(1)] _ assms(2,3), where band = "''catchup''" and now = now and cfg = cfg and ttl = ttl] assms(10)
    by (auto simp: board_claim_def)
  have less: "?p a v1 < ?p b v2" by (rule catchup_deferred_less [OF assms(4,6,7)])
  have base: "of_int CATCHUP_SCORE_BASE \<le> ?p a v1"
    using penalize_iter [of a v1] assms(5,6) tie_bounds(1) [of sha1 i1]
    by (auto simp: encode_catchup date_ok_def SCORE_STRIDE_def)
  have mem: "(sc, i) \<in> set ?r \<longleftrightarrow> ingest_score i s = Some sc \<and> in_band ''catchup'' sc" for sc i
    by (simp add: ranked_mem finite_dom_map_of ingest_score_def)
  have "i2 \<in> snd ` set (take (nat m) ?r)" using assms(11) ids by (metis list.set_map)
  then obtain sc where sc: "(sc, i2) \<in> set (take (nat m) ?r)" by force
  then have "sc = ?p b v2" using mem [of sc i2] assms(9) in_set_takeD [OF sc] by simp
  moreover have "(?p a v1, i1) \<in> set ?r" using assms(8) base by (simp add: mem in_band_def)
  ultimately obtain xs ys zs where "take (nat m) ?r = xs @ (?p a v1, i1) # ys @ (?p b v2, i2) # zs"
    using sorted_before [of ?r "(?p a v1, i1)" "(?p b v2, i2)" "nat m"] less sc by (auto simp: ranked_def)
  with ids show ?thesis by (intro exI [of _ "map snd xs"] exI [of _ "map snd ys"] exI [of _ "map snd zs"]) simp
qed

theorem backfill_oldest_day_first_witness:
  "\<exists>claims t xs ys zs. claim_ingest demo_cfg 0 ''catchup'' demo_token None 2 demo_backfill = Some (Inr (claims, t)) \<and>
     map cj_identity claims = xs @ ''/raw/c'' # ys @ ''/raw/d'' # zs"
proof -
  let ?m = "map_of (js_ingest demo_backfill)"
  let ?r = "ranked ''catchup'' ?m"
  obtain t where t: "claim_ingest demo_cfg 0 ''catchup'' demo_token None 2 demo_backfill =
      Some (Inr (map (board_claim demo_token (0 + of_int (claim_ttl demo_cfg None)) (board demo_backfill)) (take (nat 2) ?r), t))"
    using claim_ingest_spec [OF reachable_inv [OF demo_backfill_reachable], where band = "''catchup''" and ow = demo_token and m = 2 and now = 0 and cfg = demo_cfg and ttl = None]
    by (auto simp: demo_token_def)
  have "{(sc, i). ?m i = Some sc \<and> in_band ''catchup'' sc} = {(1000000739000005, ''/raw/c''), (1000000740000005, ''/raw/d'')}"
    by (auto simp: demo_backfill_ingest in_band_def CATCHUP_SCORE_BASE_def split: if_splits)
  then have "?r = [(1000000739000005, ''/raw/c''), (1000000740000005, ''/raw/d'')]" by (simp add: ranked_def)
  then have claims: "map cj_identity (map (board_claim demo_token (0 + of_int (claim_ttl demo_cfg None)) (board demo_backfill))
      (take (nat 2) ?r)) = [''/raw/c'', ''/raw/d'']"
    by (simp add: board_claim_def)
  have "\<exists>xs ys zs. map cj_identity (map (board_claim demo_token (0 + of_int (claim_ttl demo_cfg None)) (board demo_backfill))
      (take (nat 2) ?r)) = xs @ ''/raw/c'' # ys @ ''/raw/d'' # zs"
    by (rule backfill_oldest_day_first [OF demo_backfill_reachable _ _ _ _ _ _ _ _ t, where ?day1.0 = 739 and ?day2.0 = 740
          and ?sha1.0 = "\<lambda>_. [0, 0, 0, 5]" and today = 1000 and ?v1.0 = 1000000739000005 and ?v2.0 = 1000000740000005
          and a = 0 and b = 0])
      (use arg_cong [OF claims, of set] in \<open>simp_all add: demo_token_def date_ok_def encode_catchup score_consts
        tie_break_from_identity_def ingest_score_def demo_backfill_ingest image_image\<close>)
  with t show ?thesis by blast
qed

end
